(* ===== verification/Prelude.thy ===== *)
theory Prelude
  imports Complex_Main "HOL-Library.Word" "HOL-Library.List_Lexorder" "HOL-Library.Char_ord"
begin

text \<open>
  Shared vocabulary of the development: how a Rust result, a panic, a machine integer, an
  IEEE double, a UTF-8 string and a \<open>rust_decimal\<close> number appear in the model, with the
  generic lemmas the component theories use.

  Every Rust function that returns a \<open>Result\<close> or may panic has a value of \<open>outcome\<close>.
  \<open>rust_decimal\<close> and \<open>uuid\<close> are third-party crates: their arithmetic and formatting are
  parameters of the definitions (\<open>dec_ops\<close>, \<open>simple\<close>), and what the code relies on is
  the named hypotheses \<open>lossless\<close> and \<open>uuid_simple_ok\<close>.
\<close>

named_theorems outcome_simps \<open>rewriting of sequenced results\<close>
named_theorems dec_facts \<open>representability and exactness of decimal operations\<close>

section \<open>Results and panics\<close>

datatype ('e, 'a) outcome = Ok 'a | Err 'e | Panic

text \<open>The \<open>?\<close> operator: continue with the value, return early with the error.\<close>

fun and_then :: "('e, 'a) outcome \<Rightarrow> ('a \<Rightarrow> ('e, 'b) outcome) \<Rightarrow> ('e, 'b) outcome" where
  "and_then (Ok x) f = f x"
| "and_then (Err e) f = Err e"
| "and_then Panic f = Panic"

text \<open>An operator that panics where its checked variant returns \<open>None\<close>.\<close>

fun or_panic :: "'a option \<Rightarrow> ('e, 'a) outcome" where
  "or_panic (Some x) = Ok x"
| "or_panic None = Panic"

text \<open>\<open>ok_or(e)?\<close>\<close>

fun ok_or :: "'a option \<Rightarrow> 'e \<Rightarrow> ('e, 'a) outcome" where
  "ok_or (Some x) e = Ok x"
| "ok_or None e = Err e"

fun is_ok :: "('e, 'a) outcome \<Rightarrow> bool" where
  "is_ok (Ok x) = True"
| "is_ok (Err e) = False"
| "is_ok Panic = False"

lemma and_then_eq_Ok [outcome_simps]:
  "and_then r f = Ok y \<longleftrightarrow> (\<exists>x. r = Ok x \<and> f x = Ok y)"
  by (cases r) auto

lemma or_panic_eq_Ok [outcome_simps]: "or_panic x = Ok y \<longleftrightarrow> x = Some y"
  by (cases x) auto

lemma or_panic_not_Err [simp]: "or_panic x \<noteq> Err e"
  by (cases x) auto

lemma ok_or_eq_Ok [outcome_simps]: "ok_or x e = Ok y \<longleftrightarrow> x = Some y"
  by (cases x) auto

lemma ok_or_not_Panic [simp]: "ok_or x e \<noteq> Panic"
  by (cases x) auto

lemma is_ok_iff [outcome_simps]: "is_ok r \<longleftrightarrow> (\<exists>x. r = Ok x)"
  by (cases r) auto

section \<open>Decimal numbers\<close>

text \<open>
  A \<open>Decimal\<close> stands for the number it denotes: its equality and order are those of the
  number. Addition, subtraction, multiplication and division are parameters; \<open>None\<close> is the
  \<open>None\<close> of the checked operation and the panic of the operator.
\<close>

type_synonym decimal = rat

record dec_ops =
  checked_add :: "decimal \<Rightarrow> decimal \<Rightarrow> decimal option"
  checked_sub :: "decimal \<Rightarrow> decimal \<Rightarrow> decimal option"
  checked_mul :: "decimal \<Rightarrow> decimal \<Rightarrow> decimal option"
  checked_div :: "decimal \<Rightarrow> decimal \<Rightarrow> decimal option"

text \<open>A number with at most \<open>s\<close> fractional digits and a 96-bit mantissa at that scale.\<close>

definition representable :: "nat \<Rightarrow> decimal \<Rightarrow> bool" where
  "representable s x \<longleftrightarrow> (\<exists>m::int. x = of_int m / 10 ^ s \<and> \<bar>m\<bar> < 2 ^ 96)"

text \<open>
  What the code relies on: at one scale, addition and subtraction are exact whenever the
  result fits, and rounding a sum that does not fit never brings it down to a number that
  does. Scales go up to 28.
\<close>

definition lossless :: "dec_ops \<Rightarrow> nat \<Rightarrow> bool" where
  "lossless ar s \<longleftrightarrow> s \<le> 28 \<and>
     (\<forall>x y. representable s x \<longrightarrow> representable s y \<longrightarrow>
        (representable s (x + y) \<longrightarrow> checked_add ar x y = Some (x + y)) \<and>
        (representable s (x - y) \<longrightarrow> checked_sub ar x y = Some (x - y)) \<and>
        (\<forall>z w. representable s z \<longrightarrow> z < x + y \<longrightarrow> checked_add ar x y = Some w \<longrightarrow> z < w))"

lemma representable_zero [simp]: "representable s 0"
  unfolding representable_def by (rule exI [of _ 0]) simp

lemma representable_minus [simp]: "representable s (- x) \<longleftrightarrow> representable s x"
proof -
  have "representable s (- y)" if "representable s y" for y
  proof -
    from that obtain m :: int where "y = of_int m / 10 ^ s" "\<bar>m\<bar> < 2 ^ 96"
      unfolding representable_def by blast
    then have "- y = of_int (- m) / 10 ^ s \<and> \<bar>- m\<bar> < 2 ^ 96" by simp
    then show ?thesis unfolding representable_def by blast
  qed
  from this [of x] this [of "- x"] show ?thesis by auto
qed

lemma representable_abs [simp]: "representable s \<bar>x\<bar> \<longleftrightarrow> representable s x"
  by (cases "x \<ge> 0") (simp_all add: abs_if)

lemma representable_min [intro]:
  "representable s x \<Longrightarrow> representable s y \<Longrightarrow> representable s (min x y)"
  by (simp add: min_def)

lemma representable_max [intro]:
  "representable s x \<Longrightarrow> representable s y \<Longrightarrow> representable s (max x y)"
  by (simp add: max_def)

lemma representable_between:
  assumes x: "representable s x" and y: "representable s y" and z: "representable s z"
    and le: "- \<bar>z\<bar> \<le> x + y" "x + y \<le> \<bar>z\<bar>"
  shows "representable s (x + y)"
proof -
  have p: "(10::rat) ^ s > 0" by simp
  from x obtain m :: int where m: "x = of_int m / 10 ^ s" unfolding representable_def by blast
  from y obtain n :: int where n: "y = of_int n / 10 ^ s" unfolding representable_def by blast
  from z obtain k :: int where k: "z = of_int k / 10 ^ s" "\<bar>k\<bar> < 2 ^ 96"
    unfolding representable_def by blast
  have sum: "x + y = of_int (m + n) / 10 ^ s" by (simp add: m n add_divide_distrib)
  have z': "\<bar>z\<bar> = of_int \<bar>k\<bar> / 10 ^ s" using p by (simp add: k)
  have a: "(of_int (m + n) :: rat) \<le> of_int \<bar>k\<bar>"
    using le(2) unfolding sum z' divide_le_cancel using p by linarith
  have b: "(of_int (- \<bar>k\<bar>) :: rat) \<le> of_int (m + n)"
    using le(1) unfolding sum z' minus_divide_left divide_le_cancel of_int_minus [symmetric]
    using p by linarith
  have "m + n \<le> \<bar>k\<bar>" using a unfolding of_int_le_iff .
  moreover have "- \<bar>k\<bar> \<le> m + n" using b unfolding of_int_le_iff .
  ultimately have "\<bar>m + n\<bar> \<le> \<bar>k\<bar>" by linarith
  with k(2) have "\<bar>m + n\<bar> < 2 ^ 96" by linarith
  with sum show ?thesis unfolding representable_def by blast
qed

lemma representable_add_le [dec_facts]:
  assumes "representable s x" "representable s y" "representable s z"
    and "0 \<le> x + y" "x + y \<le> z"
  shows "representable s (x + y)"
  using assms by (intro representable_between [where z = z]) auto

lemma representable_diff_nonneg [dec_facts]:
  assumes "representable s x" "representable s y" "0 \<le> x" "0 \<le> y"
  shows "representable s (x - y)"
  using representable_between [of s x "- y" "max x y"] assms
  by (auto simp: max_def split: if_splits)

lemma lossless_add [dec_facts]:
  assumes "lossless ar s" "representable s x" "representable s y" "representable s (x + y)"
  shows "checked_add ar x y = Some (x + y)"
  using assms unfolding lossless_def by blast

lemma lossless_sub [dec_facts]:
  assumes "lossless ar s" "representable s x" "representable s y" "representable s (x - y)"
  shows "checked_sub ar x y = Some (x - y)"
  using assms unfolding lossless_def by blast

lemma lossless_add_gt:
  assumes "lossless ar s" "representable s x" "representable s y" "representable s z"
    and "z < x + y" "checked_add ar x y = Some w"
  shows "z < w"
  using assms unfolding lossless_def by blast

text \<open>A sum of non-negative numbers that passes a bound check is the exact sum.\<close>

lemma lossless_add_bounded:
  assumes "lossless ar s" "representable s x" "representable s y" "representable s z"
    and "0 \<le> x + y" "checked_add ar x y = Some w" "w \<le> z"
  shows "w = x + y" "x + y \<le> z" "representable s (x + y)"
proof -
  show le: "x + y \<le> z"
  proof (rule ccontr)
    assume "\<not> x + y \<le> z"
    then have "z < w" by (intro lossless_add_gt [OF assms(1-4) _ assms(6)]) simp
    with assms(7) show False by simp
  qed
  show "representable s (x + y)" by (intro representable_add_le [OF assms(2-5)] le)
  then have "checked_add ar x y = Some (x + y)" by (rule lossless_add [OF assms(1-3)])
  with assms(6) show "w = x + y" by simp
qed

lemma lossless_add_le:
  assumes "lossless ar s" "representable s x" "representable s y" "representable s z"
    and "0 \<le> x + y" "x + y \<le> z"
  shows "checked_add ar x y = Some (x + y)"
  using assms by (blast intro: lossless_add representable_add_le)

lemma lossless_sub_nonneg:
  assumes "lossless ar s" "representable s x" "representable s y" "0 \<le> x" "0 \<le> y"
  shows "checked_sub ar x y = Some (x - y)"
  using assms by (blast intro: lossless_sub representable_diff_nonneg)

text \<open>An instance with the documented range: exact inside it, \<open>None\<close> outside.\<close>

definition in_range :: "decimal \<Rightarrow> decimal option" where
  "in_range x = (if \<bar>x\<bar> < 2 ^ 96 then Some x else None)"

definition bounded_ops :: dec_ops where
  "bounded_ops = \<lparr>checked_add = (\<lambda>x y. in_range (x + y)),
     checked_sub = (\<lambda>x y. in_range (x - y)),
     checked_mul = (\<lambda>x y. in_range (x * y)),
     checked_div = (\<lambda>x y. if y = 0 then None else in_range (x / y))\<rparr>"

lemma representable_lt: "representable s x \<Longrightarrow> \<bar>x\<bar> < 2 ^ 96"
proof -
  assume "representable s x"
  then obtain m :: int where m: "x = of_int m / 10 ^ s" "\<bar>m\<bar> < 2 ^ 96"
    unfolding representable_def by blast
  have "\<bar>x\<bar> = of_int \<bar>m\<bar> / 10 ^ s" by (simp add: m)
  also have "\<dots> \<le> of_int \<bar>m\<bar>"
    by (simp add: divide_le_eq mult_le_cancel_left1)
  also have "\<dots> < of_int (2 ^ 96)" using m(2) of_int_less_iff by blast
  finally show ?thesis by simp
qed

lemma lossless_bounded_ops: "s \<le> 28 \<Longrightarrow> lossless bounded_ops s"
  by (auto simp: lossless_def bounded_ops_def in_range_def dest: representable_lt)

text \<open>Numerals used by concrete instances.\<close>

lemma representable_numeral: "(numeral n :: rat) < 2 ^ 96 \<Longrightarrow> representable 0 (numeral n)"
proof -
  assume a: "(numeral n :: rat) < 2 ^ 96"
  have "(of_int (numeral n) :: rat) < of_int (2 ^ 96)" using a by simp
  then have "(numeral n :: int) < 2 ^ 96" by (simp only: of_int_less_iff)
  then show ?thesis unfolding representable_def by (intro exI [of _ "numeral n"]) simp
qed

lemma representable_one: "representable 0 1"
  unfolding representable_def by (intro exI [of _ 1]) simp

section \<open>Machine integers and doubles\<close>

type_synonym u64 = "64 word"

definition saturating_sub :: "u64 \<Rightarrow> u64 \<Rightarrow> u64" where
  "saturating_sub a b = (if a < b then 0 else a - b)"

definition saturating_add :: "u64 \<Rightarrow> u64 \<Rightarrow> u64" where
  "saturating_add a b = (if unat a + unat b < 2 ^ 64 then a + b else - 1)"

text \<open>
  An IEEE double as the comparisons of the code see it: a finite value, an infinity or a NaN.
  Every ordered comparison with a NaN is false.
\<close>

datatype f64 = Finite rat | PosInf | NegInf | NaN

fun f64_le :: "f64 \<Rightarrow> f64 \<Rightarrow> bool" where
  "f64_le NaN y = False"
| "f64_le x NaN = False"
| "f64_le NegInf y = True"
| "f64_le x PosInf = True"
| "f64_le (Finite a) (Finite b) = (a \<le> b)"
| "f64_le x y = False"

fun f64_lt :: "f64 \<Rightarrow> f64 \<Rightarrow> bool" where
  "f64_lt NaN y = False"
| "f64_lt x NaN = False"
| "f64_lt (Finite a) (Finite b) = (a < b)"
| "f64_lt NegInf NegInf = False"
| "f64_lt PosInf y = False"
| "f64_lt NegInf y = True"
| "f64_lt x PosInf = True"
| "f64_lt x y = False"

fun f64_abs :: "f64 \<Rightarrow> f64" where
  "f64_abs (Finite a) = Finite \<bar>a\<bar>"
| "f64_abs PosInf = PosInf"
| "f64_abs NegInf = PosInf"
| "f64_abs NaN = NaN"

fun f64_neg :: "f64 \<Rightarrow> f64" where
  "f64_neg (Finite a) = Finite (- a)"
| "f64_neg PosInf = NegInf"
| "f64_neg NegInf = PosInf"
| "f64_neg NaN = NaN"

text \<open>\<open>(lo..=hi).contains(x)\<close>\<close>

definition in_closed :: "f64 \<Rightarrow> f64 \<Rightarrow> f64 \<Rightarrow> bool" where
  "in_closed lo hi x \<longleftrightarrow> f64_le lo x \<and> f64_le x hi"

section \<open>Strings\<close>

text \<open>
  Strings are UTF-8 byte lists. \<open>is_blank\<close> is \<open>s.trim().is_empty()\<close>: every character has
  the Unicode property White\_Space, here read off its UTF-8 encoding.
\<close>

fun is_blank_bytes :: "nat list \<Rightarrow> bool" where
  "is_blank_bytes [] = True"
| "is_blank_bytes (b # bs) =
     (if (9 \<le> b \<and> b \<le> 13) \<or> b = 32 then is_blank_bytes bs
      else case bs of
        [] \<Rightarrow> False
      | c # cs \<Rightarrow>
          if b = 194 \<and> (c = 133 \<or> c = 160) then is_blank_bytes cs
          else case cs of
            [] \<Rightarrow> False
          | d # ds \<Rightarrow>
              (b = 225 \<and> c = 154 \<and> d = 128
               \<or> b = 226 \<and> c = 128 \<and> (128 \<le> d \<and> d \<le> 138 \<or> d = 168 \<or> d = 169 \<or> d = 175)
               \<or> b = 226 \<and> c = 129 \<and> d = 159
               \<or> b = 227 \<and> c = 128 \<and> d = 128) \<and> is_blank_bytes ds)"

definition is_blank :: "string \<Rightarrow> bool" where
  "is_blank s = is_blank_bytes (map of_char s)"

definition starts_with :: "string \<Rightarrow> string \<Rightarrow> bool" where
  "starts_with p s \<longleftrightarrow> take (length p) s = p"

definition is_ascii_digit :: "char \<Rightarrow> bool" where
  "is_ascii_digit c \<longleftrightarrow> c \<in> set ''0123456789''"

definition is_ascii_hexdigit :: "char \<Rightarrow> bool" where
  "is_ascii_hexdigit c \<longleftrightarrow> c \<in> set ''0123456789abcdefABCDEF''"

definition is_ascii_alphanumeric :: "char \<Rightarrow> bool" where
  "is_ascii_alphanumeric c \<longleftrightarrow>
     (let n = (of_char c :: nat) in 48 \<le> n \<and> n \<le> 57 \<or> 65 \<le> n \<and> n \<le> 90 \<or> 97 \<le> n \<and> n \<le> 122)"

definition is_ascii_graphic :: "char \<Rightarrow> bool" where
  "is_ascii_graphic c \<longleftrightarrow> (let n = (of_char c :: nat) in 33 \<le> n \<and> n \<le> 126)"

section \<open>Sequenced calls\<close>

text \<open>Calls that return the state after them; an error or a panic ends the sequence.\<close>

type_synonym ('e, 'a, 's) stateful = "'s \<Rightarrow> ('e, 'a) outcome \<times> 's"

definition bind :: "('e, 'a, 's) stateful \<Rightarrow> ('a \<Rightarrow> ('e, 'b, 's) stateful) \<Rightarrow> ('e, 'b, 's) stateful" where
  "bind m f s =
     (case m s of (Ok x, s') \<Rightarrow> f x s' | (Err e, s') \<Rightarrow> (Err e, s') | (Panic, s') \<Rightarrow> (Panic, s'))"

definition give :: "('e, 'a) outcome \<Rightarrow> ('e, 'a, 's) stateful" where
  "give r s = (r, s)"

fun map_error :: "('e \<Rightarrow> 'f) \<Rightarrow> ('e, 'a) outcome \<Rightarrow> ('f, 'a) outcome" where
  "map_error f (Ok x) = Ok x"
| "map_error f (Err e) = Err (f e)"
| "map_error f Panic = Panic"

text \<open>\<open>call?\<close> under another error type.\<close>

definition lift_call :: "('e \<Rightarrow> 'f) \<Rightarrow> ('e, 'a, 's) stateful \<Rightarrow> ('f, 'a, 's) stateful" where
  "lift_call f m s = (case m s of (r, s') \<Rightarrow> (map_error f r, s'))"

lemma bind_simps [simp]:
  "bind (give (Ok x)) f = f x"
  "bind (give (Err e)) f = give (Err e)"
  "bind (give Panic) f = give Panic"
  by (auto simp: bind_def give_def)

lemma bind_eq_Ok [outcome_simps]:
  "bind m f s = (Ok y, s'') \<longleftrightarrow> (\<exists>x s'. m s = (Ok x, s') \<and> f x s' = (Ok y, s''))"
  by (auto simp: bind_def split: outcome.splits prod.splits)

lemma bind_run: "m s = (Ok x, s') \<Longrightarrow> bind m f s = f x s'"
  by (simp add: bind_def)

lemma bind_assoc: "bind (bind m f) g = bind m (\<lambda>x. bind (f x) g)"
  by (rule ext) (auto simp: bind_def split: outcome.splits prod.splits)

lemma give_eq [simp]: "give r s = (r', s') \<longleftrightarrow> r = r' \<and> s' = s"
  by (auto simp: give_def)

lemma map_error_eq_Ok [outcome_simps]: "map_error f r = Ok x \<longleftrightarrow> r = Ok x"
  by (cases r) auto

lemma lift_call_eq_Ok [outcome_simps]: "lift_call f m s = (Ok x, s') \<longleftrightarrow> m s = (Ok x, s')"
  by (auto simp: lift_call_def map_error_eq_Ok split: prod.splits)

text \<open>\<open>str::parse::<u64>\<close>: an optional plus sign, then digits, with overflow an error.\<close>

definition digits_value :: "string \<Rightarrow> nat" where
  "digits_value s = foldl (\<lambda>acc c. acc * 10 + ((of_char c :: nat) - 48)) 0 s"

definition parse_u64_str :: "string \<Rightarrow> u64 option" where
  "parse_u64_str s =
     (let digits = (case s of c # cs \<Rightarrow> if c = CHR ''+'' then cs else s | [] \<Rightarrow> [])
      in if digits \<noteq> [] \<and> list_all is_ascii_digit digits \<and> digits_value digits < 2 ^ 64
         then Some (of_nat (digits_value digits)) else None)"

section \<open>Printing numbers\<close>

fun show_nat :: "nat \<Rightarrow> string" where
  "show_nat n =
     (if n < 10 then [''0123456789'' ! n] else show_nat (n div 10) @ [''0123456789'' ! (n mod 10)])"

declare show_nat.simps [simp del]

definition show_int :: "int \<Rightarrow> string" where
  "show_int i = (if i < 0 then CHR ''-'' # show_nat (nat (- i)) else show_nat (nat i))"

lemma digit_inj: "m < 10 \<Longrightarrow> n < 10 \<Longrightarrow> ''0123456789'' ! m = ''0123456789'' ! n \<Longrightarrow> m = n"
  using nth_eq_iff_index_eq [of "''0123456789''" m n] by simp

lemma show_nat_nonempty: "show_nat n \<noteq> []"
  by (simp add: show_nat.simps)

lemma show_nat_inj: "show_nat m = show_nat n \<Longrightarrow> m = n"
proof (induction m arbitrary: n rule: show_nat.induct)
  case (1 m)
  note eq = 1(2)
  consider "m < 10" "n < 10" | "m < 10" "\<not> n < 10" | "\<not> m < 10" "n < 10" | "\<not> m < 10" "\<not> n < 10" by blast
  then show ?case
  proof cases
    case 1
    with eq show ?thesis by (simp add: show_nat.simps [of m] show_nat.simps [of n] digit_inj)
  next
    case 2
    with eq show ?thesis using show_nat_nonempty [of "n div 10"]
      by (auto simp: show_nat.simps [of m] show_nat.simps [of n])
  next
    case 3
    with eq show ?thesis using show_nat_nonempty [of "m div 10"]
      by (auto simp: show_nat.simps [of m] show_nat.simps [of n])
  next
    case 4
    from eq 4 have "show_nat (m div 10) @ [''0123456789'' ! (m mod 10)] = show_nat (n div 10) @ [''0123456789'' ! (n mod 10)]"
      by (simp add: show_nat.simps [of m] show_nat.simps [of n])
    then have "show_nat (m div 10) = show_nat (n div 10)" and d: "''0123456789'' ! (m mod 10) = ''0123456789'' ! (n mod 10)"
      by (simp_all only: append1_eq_conv)
    then have "m div 10 = n div 10" using 1(1) 4 by blast
    moreover have "m mod 10 = n mod 10" by (rule digit_inj [OF _ _ d]) simp_all
    ultimately show ?thesis by (metis div_mult_mod_eq)
  qed
qed

end
