(* ===== verification/PgTypes.thy ===== *)
theory PgTypes
  imports Prelude
begin

text \<open>
  The shared contracts of \<open>rust/crates/pg-types\<close>: venues, asset keys, signals, order intents
  with their stable client order id, risk decisions, and the advanced order envelope with its
  validation. A \<open>Uuid\<close> is its 128 bits; \<open>Uuid::simple\<close> formatting is the parameter
  \<open>simple\<close>.
\<close>

section \<open>Identifiers and enumerations\<close>

type_synonym uuid = "128 word"

datatype venue = BinancePm | Hyperliquid | InteractiveBrokers

fun venue_index :: "venue \<Rightarrow> nat" where
  "venue_index BinancePm = 0"
| "venue_index Hyperliquid = 1"
| "venue_index InteractiveBrokers = 2"

lemma venue_index_inj: "venue_index a = venue_index b \<Longrightarrow> a = b"
  by (cases a; cases b) simp_all

instantiation venue :: linorder
begin

definition less_eq_venue :: "venue \<Rightarrow> venue \<Rightarrow> bool" where
  "less_eq_venue a b \<longleftrightarrow> venue_index a \<le> venue_index b"

definition less_venue :: "venue \<Rightarrow> venue \<Rightarrow> bool" where
  "less_venue a b \<longleftrightarrow> venue_index a < venue_index b"

instance
  by standard (auto simp: less_eq_venue_def less_venue_def dest: venue_index_inj)

end

datatype asset_key = AssetKey (ak_venue: venue) (ak_asset: string)

instantiation asset_key :: linorder
begin

definition less_eq_asset_key :: "asset_key \<Rightarrow> asset_key \<Rightarrow> bool" where
  "less_eq_asset_key a b \<longleftrightarrow>
     ak_venue a < ak_venue b \<or> ak_venue a = ak_venue b \<and> ak_asset a \<le> ak_asset b"

definition less_asset_key :: "asset_key \<Rightarrow> asset_key \<Rightarrow> bool" where
  "less_asset_key a b \<longleftrightarrow>
     ak_venue a < ak_venue b \<or> ak_venue a = ak_venue b \<and> ak_asset a < ak_asset b"

instance
  by standard (auto simp: less_eq_asset_key_def less_asset_key_def asset_key.expand)

end

datatype side = Buy | Sell

datatype exposure_effect = Increase | ReduceOnly

section \<open>Signals, targets and intents\<close>

text \<open>\<open>sg_metadata\<close> is the serialized JSON value, which no modelled code reads.\<close>

record signal =
  sg_schema_version :: string
  sg_signal_id :: string
  sg_alpha_id :: string
  sg_asset :: string
  sg_venue :: venue
  sg_score :: f64
  sg_confidence :: f64
  sg_horizon_ms :: u64
  sg_created_at_ns :: u64
  sg_expires_at_ns :: u64
  sg_model_version :: "string option"
  sg_feature_set :: "string option"
  sg_metadata :: string

definition is_expired_signal :: "signal \<Rightarrow> u64 \<Rightarrow> bool" where
  "is_expired_signal sg now_ns \<longleftrightarrow> sg_expires_at_ns sg \<le> now_ns"

record position_target =
  pt_target_id :: uuid
  pt_strategy_id :: string
  pt_asset :: string
  pt_venue :: venue
  pt_target_quantity :: decimal
  pt_source_signal_id :: "string option"
  pt_created_at_ns :: u64

definition target_asset_key :: "position_target \<Rightarrow> asset_key" where
  "target_asset_key t = AssetKey (pt_venue t) (pt_asset t)"

record order_intent =
  oi_intent_id :: uuid
  oi_strategy_id :: string
  oi_asset :: string
  oi_venue :: venue
  oi_side :: side
  oi_quantity :: decimal
  oi_limit_price :: "decimal option"
  oi_effect :: exposure_effect
  oi_source_signal_id :: "string option"

definition client_order_id :: "(uuid \<Rightarrow> string) \<Rightarrow> order_intent \<Rightarrow> string" where
  "client_order_id simple i = ''pg'' @ simple (oi_intent_id i)"

definition intent_asset_key :: "order_intent \<Rightarrow> asset_key" where
  "intent_asset_key i = AssetKey (oi_venue i) (oi_asset i)"

datatype risk_decision = Allow | Reject string string

section \<open>Advanced orders\<close>

datatype time_in_force = Gtc | Ioc | Fok | Gtd u64 | Day | AtTheOpen | AtTheClose

record order_constraints =
  oc_post_only :: bool
  oc_reduce_only :: bool
  oc_iceberg_display_quantity :: "decimal option"

datatype composite_instruction = Single | Oco string | Ouo string | Oto string

record advanced_order_intent =
  ao_base :: order_intent
  ao_time_in_force :: time_in_force
  ao_constraints :: order_constraints
  ao_composite :: composite_instruction

datatype advanced_order_error =
  NonPositiveQuantity | PostOnlyMarket | InvalidIceberg | InvalidGtd | EmptyCompositeId
| ReduceOnlyMismatch

definition validate :: "advanced_order_intent \<Rightarrow> (advanced_order_error, unit) outcome" where
  "validate ord =
     (if oi_quantity (ao_base ord) \<le> 0 then Err NonPositiveQuantity
      else if oc_post_only (ao_constraints ord) \<and> oi_limit_price (ao_base ord) = None
        then Err PostOnlyMarket
      else if (case oc_iceberg_display_quantity (ao_constraints ord) of
                 Some display \<Rightarrow> display \<le> 0 \<or> oi_quantity (ao_base ord) \<le> display
               | None \<Rightarrow> False) then Err InvalidIceberg
      else if ao_time_in_force ord = Gtd 0 then Err InvalidGtd
      else if (case ao_composite ord of
                 Oco group_id \<Rightarrow> is_blank group_id
               | Ouo group_id \<Rightarrow> is_blank group_id
               | Oto parent_client_order_id \<Rightarrow> is_blank parent_client_order_id
               | Single \<Rightarrow> False) then Err EmptyCompositeId
      else if oc_reduce_only (ao_constraints ord) \<noteq> (oi_effect (ao_base ord) = ReduceOnly)
        then Err ReduceOnlyMismatch
      else Ok ())"

definition advanced_side :: "advanced_order_intent \<Rightarrow> side" where
  "advanced_side ord = oi_side (ao_base ord)"

definition visible_quantity :: "advanced_order_intent \<Rightarrow> decimal" where
  "visible_quantity ord =
     min (case oc_iceberg_display_quantity (ao_constraints ord) of
            Some d \<Rightarrow> d | None \<Rightarrow> oi_quantity (ao_base ord))
         (oi_quantity (ao_base ord))"

fun advanced_error_message :: "advanced_order_error \<Rightarrow> string" where
  "advanced_error_message NonPositiveQuantity = ''quantity must be positive''"
| "advanced_error_message PostOnlyMarket = ''post-only requires a limit price''"
| "advanced_error_message InvalidIceberg =
     ''iceberg display quantity must be positive and smaller than total quantity''"
| "advanced_error_message InvalidGtd = ''GTD expiry must be non-zero''"
| "advanced_error_message EmptyCompositeId = ''composite group/id must not be empty''"
| "advanced_error_message ReduceOnlyMismatch =
     ''reduce-only constraint disagrees with base order effect''"

text \<open>A concrete intent used by the worked instances.\<close>

definition demo_intent :: order_intent where
  "demo_intent = \<lparr>oi_intent_id = 7, oi_strategy_id = ''demo'', oi_asset = ''HYPE'',
     oi_venue = Hyperliquid, oi_side = Buy, oi_quantity = 10, oi_limit_price = None,
     oi_effect = Increase, oi_source_signal_id = None\<rparr>"

section \<open>Client order identity\<close>

text \<open>
  Documented behaviour of \<open>Uuid::simple\<close>: 32 lower-case hexadecimal digits, one text per
  identifier.
\<close>

definition uuid_simple_ok :: "(uuid \<Rightarrow> string) \<Rightarrow> bool" where
  "uuid_simple_ok simple \<longleftrightarrow> inj simple \<and>
     (\<forall>u. length (simple u) = 32 \<and> set (simple u) \<subseteq> set ''0123456789abcdef'')"

definition hexdigit :: "nat \<Rightarrow> char" where
  "hexdigit n = ''0123456789abcdef'' ! n"

fun hex_digits :: "nat \<Rightarrow> nat \<Rightarrow> string" where
  "hex_digits 0 n = []"
| "hex_digits (Suc k) n = hex_digits k (n div 16) @ [hexdigit (n mod 16)]"

definition uuid_hex :: "uuid \<Rightarrow> string" where
  "uuid_hex u = hex_digits 32 (unat u)"

lemma length_hex_digits [simp]: "length (hex_digits k n) = k"
  by (induction k arbitrary: n) auto

lemma distinct_hex: "distinct ''0123456789abcdef''"
  by simp

lemma hexdigit_inj: "m < 16 \<Longrightarrow> n < 16 \<Longrightarrow> hexdigit m = hexdigit n \<Longrightarrow> m = n"
  unfolding hexdigit_def using nth_eq_iff_index_eq [OF distinct_hex, of m n] by simp

lemma hexdigit_mem: "n < 16 \<Longrightarrow> hexdigit n \<in> set ''0123456789abcdef''"
  unfolding hexdigit_def by (rule nth_mem) simp

lemma set_snoc_subset: "set xs \<subseteq> A \<Longrightarrow> x \<in> A \<Longrightarrow> set (xs @ [x]) \<subseteq> A"
  by simp

lemma set_hex_digits: "set (hex_digits k n) \<subseteq> set ''0123456789abcdef''"
proof (induction k arbitrary: n)
  case (Suc k)
  have "hexdigit (n mod 16) \<in> set ''0123456789abcdef''" by (rule hexdigit_mem) simp
  with Suc [of "n div 16"] show ?case
    unfolding hex_digits.simps by (rule set_snoc_subset)
qed simp

lemma hex_digits_inj:
  "m < 16 ^ k \<Longrightarrow> n < 16 ^ k \<Longrightarrow> hex_digits k m = hex_digits k n \<Longrightarrow> m = n"
proof (induction k arbitrary: m n)
  case (Suc k)
  from Suc.prems have "hex_digits k (m div 16) = hex_digits k (n div 16)"
    and d: "hexdigit (m mod 16) = hexdigit (n mod 16)" by auto
  then have "m div 16 = n div 16" using Suc.prems by (intro Suc.IH) auto
  moreover have "m mod 16 = n mod 16" by (rule hexdigit_inj [OF _ _ d]) auto
  ultimately show ?case by (metis div_mult_mod_eq)
qed simp

lemma uuid_hex_ok: "uuid_simple_ok uuid_hex"
proof -
  have "inj uuid_hex"
  proof (rule injI)
    fix u v :: uuid
    assume "uuid_hex u = uuid_hex v"
    moreover have "unat w < 16 ^ 32" for w :: uuid
    proof -
      have "unat w < 2 ^ LENGTH(128)" by (rule unsigned_less)
      then show ?thesis by simp
    qed
    ultimately have "unat u = unat v" unfolding uuid_hex_def by (metis hex_digits_inj)
    then show "u = v" by (simp only: word_unat_eq_iff)
  qed
  then show ?thesis unfolding uuid_simple_ok_def
    using set_hex_digits by (auto simp: uuid_hex_def)
qed

text \<open>The client order id of an intent determines the intent id.\<close>

lemma client_order_id_eq_iff:
  "uuid_simple_ok simple \<Longrightarrow>
     client_order_id simple i = client_order_id simple j \<longleftrightarrow> oi_intent_id i = oi_intent_id j"
  by (auto simp: client_order_id_def uuid_simple_ok_def dest: injD)

lemma validate_Ok_iff:
  "validate ord = Ok () \<longleftrightarrow>
     0 < oi_quantity (ao_base ord)
     \<and> (oc_post_only (ao_constraints ord) \<longrightarrow> oi_limit_price (ao_base ord) \<noteq> None)
     \<and> (\<forall>d. oc_iceberg_display_quantity (ao_constraints ord) = Some d \<longrightarrow>
            0 < d \<and> d < oi_quantity (ao_base ord))
     \<and> ao_time_in_force ord \<noteq> Gtd 0
     \<and> (\<forall>g. ao_composite ord \<in> {Oco g, Ouo g, Oto g} \<longrightarrow> \<not> is_blank g)
     \<and> (oc_reduce_only (ao_constraints ord) \<longleftrightarrow> oi_effect (ao_base ord) = ReduceOnly)"
  unfolding validate_def
  by (auto split: option.splits composite_instruction.splits)

lemma visible_quantity_le: "visible_quantity ord \<le> oi_quantity (ao_base ord)"
  by (simp add: visible_quantity_def)

lemma visible_quantity_pos: "validate ord = Ok () \<Longrightarrow> 0 < visible_quantity ord"
  by (auto simp: validate_Ok_iff visible_quantity_def split: option.splits)

end
