(* ===== verification/Oms.thy ===== *)
theory Oms
  imports PgTypes
begin

text \<open>
  The order management state machine of \<open>rust/crates/pg-oms\<close>: the durable order record, its
  lifecycle events and its fill accounting. A \<open>&mut self\<close> method returns its result and
  the record after the call, so that what an error leaves behind is part of the model.
\<close>

named_theorems oms_defs \<open>definitions of the order record operations\<close>

section \<open>Data\<close>

datatype order_state =
  Created | PendingSubmit | Open | PartiallyFilled | PendingCancel | Filled | Canceled
| Rejected | Unknown

datatype order_event =
  SubmitRequested | Accepted | CancelRequested | EvCanceled | EvRejected | LostState

datatype transition_error = TransitionError (te_from: order_state) (te_event: order_event)

datatype fill_error =
  NonPositive
| Overfill decimal decimal decimal
| IllegalState order_state

record order_record =
  or_order_id :: uuid
  or_intent_id :: uuid
  or_client_order_id :: string
  or_venue_order_id :: "string option"
  or_venue :: venue
  or_asset :: string
  or_owner_strategy_id :: string
  or_side :: "side option"
  or_effect :: "exposure_effect option"
  or_requested_quantity :: decimal
  or_filled_quantity :: decimal
  or_state :: order_state

section \<open>Operations\<close>

text \<open>The fresh random order id is an argument.\<close>

definition from_intent :: "(uuid \<Rightarrow> string) \<Rightarrow> uuid \<Rightarrow> order_intent \<Rightarrow> order_record" where
  "from_intent simple new_id i =
     \<lparr>or_order_id = new_id,
      or_intent_id = oi_intent_id i,
      or_client_order_id = client_order_id simple i,
      or_venue_order_id = None,
      or_venue = oi_venue i,
      or_asset = oi_asset i,
      or_owner_strategy_id = oi_strategy_id i,
      or_side = Some (oi_side i),
      or_effect = Some (oi_effect i),
      or_requested_quantity = oi_quantity i,
      or_filled_quantity = 0,
      or_state = Created\<rparr>"

definition remaining_quantity :: "dec_ops \<Rightarrow> order_record \<Rightarrow> ('e, decimal) outcome" where
  "remaining_quantity ar r =
     or_panic (checked_sub ar (or_requested_quantity r) (or_filled_quantity r))"

definition is_terminal :: "order_record \<Rightarrow> bool" where
  "is_terminal r \<longleftrightarrow> or_state r \<in> {Filled, Canceled, Rejected}"

definition is_entry :: "order_record \<Rightarrow> bool" where
  "is_entry r \<longleftrightarrow> or_effect r = Some Increase"

definition is_reduce_only :: "order_record \<Rightarrow> bool" where
  "is_reduce_only r \<longleftrightarrow> or_effect r = Some ReduceOnly"

fun next_state :: "order_state \<Rightarrow> order_event \<Rightarrow> order_state option" where
  "next_state Created SubmitRequested = Some PendingSubmit"
| "next_state PendingSubmit Accepted = Some Open"
| "next_state PendingSubmit EvRejected = Some Rejected"
| "next_state Open CancelRequested = Some PendingCancel"
| "next_state PartiallyFilled CancelRequested = Some PendingCancel"
| "next_state Open EvCanceled = Some Canceled"
| "next_state PartiallyFilled EvCanceled = Some Canceled"
| "next_state PendingCancel EvCanceled = Some Canceled"
| "next_state PendingSubmit LostState = Some Unknown"
| "next_state Open LostState = Some Unknown"
| "next_state PartiallyFilled LostState = Some Unknown"
| "next_state PendingCancel LostState = Some Unknown"
| "next_state _ _ = None"

definition apply_event ::
  "order_event \<Rightarrow> order_record \<Rightarrow> (transition_error, unit) outcome \<times> order_record" where
  "apply_event event r =
     (case next_state (or_state r) event of
        Some next \<Rightarrow> (Ok (), r\<lparr>or_state := next\<rparr>)
      | None \<Rightarrow> (Err (TransitionError (or_state r) event), r))"

definition accept ::
  "string \<Rightarrow> order_record \<Rightarrow> (transition_error, unit) outcome \<times> order_record" where
  "accept venue_order_id r =
     (case apply_event Accepted r of
        (Ok _, r') \<Rightarrow> (Ok (), r'\<lparr>or_venue_order_id := Some venue_order_id\<rparr>)
      | (e, r') \<Rightarrow> (e, r'))"

definition apply_fill ::
  "dec_ops \<Rightarrow> decimal \<Rightarrow> order_record \<Rightarrow> (fill_error, unit) outcome \<times> order_record" where
  "apply_fill ar quantity r =
     (if quantity \<le> 0 then (Err NonPositive, r)
      else if or_state r \<notin> {Open, PartiallyFilled, PendingCancel}
        then (Err (IllegalState (or_state r)), r)
      else case checked_add ar (or_filled_quantity r) quantity of
        None \<Rightarrow> (Panic, r)
      | Some next_filled \<Rightarrow>
          if or_requested_quantity r < next_filled
          then (Err (Overfill (or_requested_quantity r) (or_filled_quantity r) quantity), r)
          else (Ok (), r\<lparr>or_filled_quantity := next_filled,
                         or_state := (if next_filled = or_requested_quantity r
                                      then Filled else PartiallyFilled)\<rparr>))"

lemmas [oms_defs] = from_intent_def is_terminal_def apply_event_def accept_def apply_fill_def

section \<open>The lifecycle as a step relation\<close>

datatype oms_op = OpApply order_event | OpAccept string | OpFill decimal

definition oms_exec :: "dec_ops \<Rightarrow> oms_op \<Rightarrow> order_record \<Rightarrow> order_record" where
  "oms_exec ar op r =
     (case op of
        OpApply e \<Rightarrow> snd (apply_event e r)
      | OpAccept i \<Rightarrow> snd (accept i r)
      | OpFill q \<Rightarrow> snd (apply_fill ar q r))"

text \<open>The records a caller can produce from a fresh intent, with fills on the scale \<open>s\<close>.\<close>

inductive oms_reach :: "dec_ops \<Rightarrow> nat \<Rightarrow> order_record \<Rightarrow> order_record \<Rightarrow> bool"
  for ar s r0 where
  start: "oms_reach ar s r0 r0"
| step: "oms_reach ar s r0 r \<Longrightarrow> (\<And>q. op = OpFill q \<Longrightarrow> representable s q) \<Longrightarrow>
     oms_reach ar s r0 (oms_exec ar op r)"

section \<open>Invariant\<close>

definition oms_inv :: "order_record \<Rightarrow> bool" where
  "oms_inv r \<longleftrightarrow>
     0 < or_requested_quantity r
     \<and> 0 \<le> or_filled_quantity r \<and> or_filled_quantity r \<le> or_requested_quantity r
     \<and> (or_state r = Filled \<longleftrightarrow> or_filled_quantity r = or_requested_quantity r)"

text \<open>What the lifecycle adds: which states can hold a fill.\<close>

definition oms_phase :: "order_record \<Rightarrow> bool" where
  "oms_phase r \<longleftrightarrow>
     (or_state r \<in> {Created, PendingSubmit, Open, Rejected} \<longrightarrow> or_filled_quantity r = 0)
     \<and> (or_state r = PartiallyFilled \<longrightarrow> 0 < or_filled_quantity r)"

definition on_scale :: "nat \<Rightarrow> order_record \<Rightarrow> bool" where
  "on_scale s r \<longleftrightarrow> representable s (or_requested_quantity r) \<and> representable s (or_filled_quantity r)"

lemma next_state_cases:
  assumes "next_state a e = Some b"
  shows "a \<notin> {Filled, Canceled, Rejected, Unknown} \<and> b \<notin> {Created, Filled, PartiallyFilled}
     \<and> (b \<in> {PendingSubmit, Open, Rejected} \<longrightarrow> a \<in> {Created, PendingSubmit})"
  using assms by (cases a; cases e) auto

lemma apply_event_frame:
  "apply_event e r = (res, r') \<Longrightarrow>
     or_filled_quantity r' = or_filled_quantity r \<and> or_requested_quantity r' = or_requested_quantity r
     \<and> or_client_order_id r' = or_client_order_id r"
  by (auto simp: apply_event_def split: option.splits)

lemma apply_event_Ok_iff:
  "fst (apply_event e r) = Ok () \<longleftrightarrow> next_state (or_state r) e \<noteq> None"
  by (auto simp: apply_event_def split: option.splits)

lemma apply_event_inv:
  "oms_inv r \<Longrightarrow> oms_phase r \<Longrightarrow>
     oms_inv (snd (apply_event e r)) \<and> oms_phase (snd (apply_event e r))"
  by (auto simp: apply_event_def oms_inv_def oms_phase_def split: option.splits
      dest!: next_state_cases)

lemma accept_snd:
  "snd (accept i r) = snd (apply_event Accepted r)
   \<or> snd (accept i r) = (snd (apply_event Accepted r))\<lparr>or_venue_order_id := Some i\<rparr>"
  by (auto simp: accept_def split: prod.splits outcome.splits)

lemma inv_venue_order_id [simp]:
  "oms_inv (r\<lparr>or_venue_order_id := v\<rparr>) = oms_inv r"
  "oms_phase (r\<lparr>or_venue_order_id := v\<rparr>) = oms_phase r"
  "on_scale s (r\<lparr>or_venue_order_id := v\<rparr>) = on_scale s r"
  by (simp_all add: oms_inv_def oms_phase_def on_scale_def)

lemma apply_fill_Ok_or_unchanged: "fst (apply_fill ar q r) = Ok () \<or> snd (apply_fill ar q r) = r"
  by (simp add: apply_fill_def split: option.split)

lemma apply_fill_failed: "fst (apply_fill ar q r) \<noteq> Ok () \<Longrightarrow> snd (apply_fill ar q r) = r"
  using apply_fill_Ok_or_unchanged [of ar q r] by blast

lemma apply_fill_Ok:
  assumes "fst (apply_fill ar q r) = Ok ()"
  obtains f where "0 < q" "or_state r \<in> {Open, PartiallyFilled, PendingCancel}"
    "checked_add ar (or_filled_quantity r) q = Some f" "f \<le> or_requested_quantity r"
    "snd (apply_fill ar q r) = r\<lparr>or_filled_quantity := f,
       or_state := (if f = or_requested_quantity r then Filled else PartiallyFilled)\<rparr>"
proof -
  from assms have a: "0 < q" "or_state r \<in> {Open, PartiallyFilled, PendingCancel}"
    by (simp_all add: apply_fill_def split: if_splits)
  with assms obtain f where f: "checked_add ar (or_filled_quantity r) q = Some f"
    by (cases "checked_add ar (or_filled_quantity r) q") (auto simp: apply_fill_def split: if_splits)
  with a assms have "f \<le> or_requested_quantity r"
    by (simp add: apply_fill_def not_less split: if_splits)
  with a f show thesis by (intro that [of f]) (simp_all add: apply_fill_def)
qed

lemma apply_fill_inv:
  assumes "lossless ar s" "representable s q" "oms_inv r" "on_scale s r"
  shows "oms_inv (snd (apply_fill ar q r)) \<and> on_scale s (snd (apply_fill ar q r))
     \<and> (oms_phase r \<longrightarrow> oms_phase (snd (apply_fill ar q r)))"
proof (cases "fst (apply_fill ar q r) = Ok ()")
  case False
  with assms show ?thesis by (simp add: apply_fill_failed)
next
  case True
  then obtain f where f: "0 < q" "checked_add ar (or_filled_quantity r) q = Some f"
      "f \<le> or_requested_quantity r"
      "snd (apply_fill ar q r) = r\<lparr>or_filled_quantity := f,
         or_state := (if f = or_requested_quantity r then Filled else PartiallyFilled)\<rparr>"
    by (rule apply_fill_Ok)
  have r: "representable s (or_filled_quantity r)" "representable s (or_requested_quantity r)"
    "0 \<le> or_filled_quantity r + q" "0 < or_requested_quantity r" "0 \<le> or_filled_quantity r"
    using assms(3,4) f(1) by (simp_all add: on_scale_def oms_inv_def)
  have "f = or_filled_quantity r + q" "representable s f"
    using lossless_add_bounded [OF assms(1) r(1) assms(2) r(2,3) f(2,3)] by auto
  with f r show ?thesis by (simp add: oms_inv_def oms_phase_def on_scale_def)
qed

lemma apply_event_on_scale: "on_scale s r \<Longrightarrow> on_scale s (snd (apply_event e r))"
  by (simp add: apply_event_def on_scale_def split: option.split)

lemma oms_exec_inv:
  assumes "lossless ar s" "\<And>q. op = OpFill q \<Longrightarrow> representable s q"
    and "oms_inv r \<and> oms_phase r \<and> on_scale s r"
  shows "oms_inv (oms_exec ar op r) \<and> oms_phase (oms_exec ar op r) \<and> on_scale s (oms_exec ar op r)"
proof (cases op)
  case (OpApply e)
  have "on_scale s (snd (apply_event e r))"
    using assms(3) by (simp add: apply_event_on_scale)
  then show ?thesis using apply_event_inv [of r e] assms(3) OpApply by (simp add: oms_exec_def)
next
  case (OpAccept i)
  have "on_scale s (snd (apply_event Accepted r))"
    using assms(3) by (simp add: apply_event_on_scale)
  then show ?thesis using apply_event_inv [of r Accepted] accept_snd [of i r] assms(3) OpAccept
    by (auto simp: oms_exec_def)
next
  case (OpFill q)
  then show ?thesis using apply_fill_inv [of ar s q r] assms by (simp add: oms_exec_def)
qed

lemma from_intent_inv:
  assumes "0 < oi_quantity i" "representable s (oi_quantity i)"
  shows "oms_inv (from_intent simple n i) \<and> oms_phase (from_intent simple n i)
     \<and> on_scale s (from_intent simple n i)"
  using assms by (simp add: from_intent_def oms_inv_def oms_phase_def on_scale_def)

lemma oms_reach_inv:
  assumes "oms_reach ar s r0 r" "lossless ar s" "oms_inv r0 \<and> oms_phase r0 \<and> on_scale s r0"
  shows "oms_inv r \<and> oms_phase r \<and> on_scale s r"
  using assms(1)
proof (induction rule: oms_reach.induct)
  case start
  then show ?case using assms(3) .
next
  case (step r op)
  then show ?case using oms_exec_inv [OF assms(2)] by blast
qed

text \<open>A step keeps the identity and the requested quantity of the record.\<close>

lemma oms_exec_frame:
  "or_requested_quantity (oms_exec ar op r) = or_requested_quantity r
   \<and> or_client_order_id (oms_exec ar op r) = or_client_order_id r"
  by (cases op)
    (simp_all add: oms_exec_def apply_event_def accept_def apply_fill_def split: option.split)

lemma oms_reach_frame:
  "oms_reach ar s r0 r \<Longrightarrow> or_requested_quantity r = or_requested_quantity r0
     \<and> or_client_order_id r = or_client_order_id r0"
  by (induction rule: oms_reach.induct) (simp_all add: oms_exec_frame)

section \<open>Fill sequences\<close>

text \<open>A caller that applies fills one after the other and stops at the first error.\<close>

fun apply_fills ::
  "dec_ops \<Rightarrow> decimal list \<Rightarrow> order_record \<Rightarrow> (fill_error, unit) outcome \<times> order_record" where
  "apply_fills ar [] r = (Ok (), r)"
| "apply_fills ar (q # qs) r =
     (case apply_fill ar q r of (Ok _, r') \<Rightarrow> apply_fills ar qs r' | (e, r') \<Rightarrow> (e, r'))"

lemma apply_fill_exact:
  assumes "lossless ar s" "representable s q" "oms_inv r" "on_scale s r"
    and "apply_fill ar q r = (Ok u, r')"
  shows "or_filled_quantity r' = or_filled_quantity r + q \<and> 0 < q"
proof -
  from assms(5) have "fst (apply_fill ar q r) = Ok ()" by simp
  then obtain f where f: "0 < q" "checked_add ar (or_filled_quantity r) q = Some f"
      "f \<le> or_requested_quantity r"
      "snd (apply_fill ar q r) = r\<lparr>or_filled_quantity := f,
         or_state := (if f = or_requested_quantity r then Filled else PartiallyFilled)\<rparr>"
    by (rule apply_fill_Ok)
  have r: "representable s (or_filled_quantity r)" "representable s (or_requested_quantity r)"
    "0 \<le> or_filled_quantity r + q" using assms(3,4) f(1) by (simp_all add: on_scale_def oms_inv_def)
  have "f = or_filled_quantity r + q"
    by (rule lossless_add_bounded(1) [OF assms(1) r(1) assms(2) r(2,3) f(2,3)])
  with f(1,4) assms(5) show ?thesis by simp
qed

lemma apply_fills_exact:
  assumes "lossless ar s" "\<forall>q\<in>set qs. representable s q" "oms_inv r" "on_scale s r"
    and "apply_fills ar qs r = (Ok u, r')"
  shows "or_filled_quantity r' = or_filled_quantity r + sum_list qs \<and> oms_inv r'"
  using assms(2-5)
proof (induction qs arbitrary: r)
  case (Cons q qs)
  obtain r1 where r1: "apply_fill ar q r = (Ok (), r1)" "apply_fills ar qs r1 = (Ok u, r')"
    using Cons.prems(4) by (auto split: prod.splits outcome.splits)
  have "oms_inv r1" "on_scale s r1"
    using apply_fill_inv [OF assms(1), of q r] Cons.prems r1(1) by auto
  moreover have "or_filled_quantity r1 = or_filled_quantity r + q"
    using apply_fill_exact [OF assms(1) _ Cons.prems(2,3) r1(1)] Cons.prems(1) by simp
  ultimately show ?case using Cons.IH [of r1] r1(2) Cons.prems(1) by simp
qed simp

section \<open>Properties\<close>

text \<open>
  C1. In every record a caller can reach from a fresh intent by lifecycle events, accepts and
  fills, the filled quantity stays between zero and the requested quantity, the order is
  \<open>Filled\<close> exactly when it is filled completely, states before the first fill hold no fill,
  and the requested quantity and the client order id are those of the intent.
\<close>

theorem oms_lifecycle_invariant:
  assumes "lossless ar s" "0 < oi_quantity i" "representable s (oi_quantity i)"
    and "oms_reach ar s (from_intent simple n i) r"
  shows "0 \<le> or_filled_quantity r \<and> or_filled_quantity r \<le> or_requested_quantity r
    \<and> (or_state r = Filled \<longleftrightarrow> or_filled_quantity r = or_requested_quantity r)
    \<and> (or_state r \<in> {Created, PendingSubmit, Open, Rejected} \<longrightarrow> or_filled_quantity r = 0)
    \<and> (or_state r = PartiallyFilled \<longrightarrow> 0 < or_filled_quantity r)
    \<and> or_requested_quantity r = oi_quantity i \<and> or_client_order_id r = client_order_id simple i"
proof -
  have "oms_inv r \<and> oms_phase r \<and> on_scale s r"
    using oms_reach_inv [OF assms(4,1)] from_intent_inv [OF assms(2,3)] by blast
  moreover have "or_requested_quantity r = oi_quantity i \<and> or_client_order_id r = client_order_id simple i"
    using oms_reach_frame [OF assms(4)] by (simp add: from_intent_def)
  ultimately show ?thesis by (simp add: oms_inv_def oms_phase_def)
qed

theorem oms_lifecycle_invariant_witness:
  "or_filled_quantity (oms_exec bounded_ops (OpFill 3) (oms_exec bounded_ops (OpAccept ''v1'')
     (oms_exec bounded_ops (OpApply SubmitRequested) (from_intent uuid_hex 1 demo_intent)))) \<le> 10"
proof -
  let ?r0 = "from_intent uuid_hex 1 demo_intent"
  let ?r1 = "oms_exec bounded_ops (OpApply SubmitRequested) ?r0"
  let ?r2 = "oms_exec bounded_ops (OpAccept ''v1'') ?r1"
  have "oms_reach bounded_ops 0 ?r0 ?r1" by (rule oms_reach.step [OF oms_reach.start]) simp
  then have "oms_reach bounded_ops 0 ?r0 ?r2" by (rule oms_reach.step) simp
  then have reach: "oms_reach bounded_ops 0 ?r0 (oms_exec bounded_ops (OpFill 3) ?r2)"
    by (rule oms_reach.step) (simp add: representable_numeral)
  have q: "oi_quantity demo_intent = 10" by (simp add: demo_intent_def)
  then have pos: "0 < oi_quantity demo_intent" and rep: "representable 0 (oi_quantity demo_intent)"
    by (simp_all add: representable_numeral)
  have ll: "lossless bounded_ops 0" by (rule lossless_bounded_ops) simp
  show ?thesis using oms_lifecycle_invariant [OF ll pos rep reach] unfolding q by linarith
qed

text \<open>
  C2. Terminal records are final: no event, accept or fill succeeds on a \<open>Filled\<close>,
  \<open>Canceled\<close> or \<open>Rejected\<close> record, and every attempt leaves it unchanged.
\<close>

theorem oms_terminal_final:
  assumes "is_terminal r"
  shows "apply_event e r = (Err (TransitionError (or_state r) e), r)
    \<and> accept v r = (Err (TransitionError (or_state r) Accepted), r)
    \<and> fst (apply_fill ar q r) \<noteq> Ok () \<and> snd (apply_fill ar q r) = r"
proof -
  have "next_state (or_state r) ev = None" for ev
    using assms by (cases ev) (auto simp: is_terminal_def)
  then show ?thesis using assms
    by (auto simp: apply_event_def accept_def apply_fill_def is_terminal_def)
qed

theorem oms_terminal_final_witness:
  "fst (apply_event LostState ((from_intent uuid_hex 1 demo_intent)\<lparr>or_state := Filled\<rparr>))
     = Err (TransitionError Filled LostState)"
  using oms_terminal_final [of "(from_intent uuid_hex 1 demo_intent)\<lparr>or_state := Filled\<rparr>" LostState]
  by (simp add: is_terminal_def)

text \<open>
  Fill accounting is exact: after any sequence of fills that all succeed, the filled
  quantity has grown by exactly their sum, and it has not passed the requested quantity.
\<close>

theorem oms_fill_accounting:
  assumes "lossless ar s" "\<forall>q\<in>set qs. representable s q" "oms_inv r" "on_scale s r"
    and "apply_fills ar qs r = (Ok (), r')"
  shows "or_filled_quantity r' = or_filled_quantity r + sum_list qs
    \<and> or_filled_quantity r' \<le> or_requested_quantity r'"
  using apply_fills_exact [OF assms] by (simp add: oms_inv_def)

theorem oms_fill_accounting_witness:
  "or_filled_quantity (snd (apply_fills bounded_ops [3, 7]
     ((from_intent uuid_hex 1 demo_intent)\<lparr>or_state := Open\<rparr>))) = 0 + sum_list [3, 7]"
proof -
  let ?r = "(from_intent uuid_hex 1 demo_intent)\<lparr>or_state := Open\<rparr>"
  have "apply_fills bounded_ops [3, 7] ?r = (Ok (), ?r\<lparr>or_filled_quantity := 10, or_state := Filled\<rparr>)"
    by (simp add: apply_fill_def from_intent_def demo_intent_def bounded_ops_def in_range_def)
  moreover have "oms_inv ?r" "on_scale 0 ?r" "\<forall>q\<in>set [3, 7]. representable 0 q"
    by (simp_all add: oms_inv_def on_scale_def from_intent_def demo_intent_def representable_numeral)
  ultimately show ?thesis
    using oms_fill_accounting [OF lossless_bounded_ops [of 0], of "[3, 7]" ?r] by (simp add: from_intent_def)
qed

end
