(* ===== verification/Sim.thy ===== *)
theory Sim
  imports PgTypes
begin

text \<open>
  The offline matching engine of \<open>rust/crates/pg-sim/src/lib.rs\<close>: submission, cancellation
  and one matching step against a top of book, with the OCO, OTO and OUO effects on a peer
  order. The engine's map is only read and written by key, so it is a partial map.
\<close>

section \<open>Data\<close>

datatype sim_side = SimBuy | SimSell

datatype order_kind = Market | Limit

datatype sim_tif = SimIoc | SimFok | SimGtc | SimGtd | SimDay | SimAtTheOpen | SimAtTheClose

datatype market_phase = PreOpen | Opening | Continuous | Closing | Closed

datatype contingency_kind = KindOco | KindOto | KindOuo

record contingency =
  cg_group_id :: uuid
  cg_kind :: contingency_kind
  cg_peer_order_id :: uuid

record sim_order =
  so_order_id :: uuid
  so_side :: sim_side
  so_kind :: order_kind
  so_quantity :: decimal
  so_limit_price :: "decimal option"
  so_time_in_force :: sim_tif
  so_expire_at_ns :: "u64 option"
  so_post_only :: bool
  so_reduce_only :: bool
  so_display_quantity :: "decimal option"
  so_contingency :: "contingency option"

datatype sim_order_state =
  SimDormant | SimResting | SimPartiallyFilled | SimFilled | SimCanceled | SimRejected

record sim_order_record =
  sr_order :: sim_order
  sr_state :: sim_order_state
  sr_filled_quantity :: decimal

record market_snapshot =
  mk_bid_price :: decimal
  mk_bid_quantity :: decimal
  mk_ask_price :: decimal
  mk_ask_quantity :: decimal
  mk_phase :: market_phase
  mk_now_ns :: u64

record sim_fill =
  sf_order_id :: uuid
  sf_quantity :: decimal
  sf_price :: decimal

datatype match_outcome =
  MFilled sim_fill | MPartiallyFilled sim_fill | MResting | MCanceled | MRejected string | MDormant

datatype sim_error =
  InvalidQuantity | InvalidLimitPrice | MissingExpiry | InvalidDisplayQuantity
| DuplicateOrder uuid | UnknownOrder uuid

type_synonym matching_engine = "uuid \<rightharpoonup> sim_order_record"

section \<open>Helpers\<close>

definition sim_remaining :: "dec_ops \<Rightarrow> sim_order_record \<Rightarrow> (sim_error, decimal) outcome" where
  "sim_remaining ar r =
     and_then (or_panic (checked_sub ar (so_quantity (sr_order r)) (sr_filled_quantity r)))
       (\<lambda>d. Ok (max d 0))"

definition sim_terminal :: "sim_order_state \<Rightarrow> bool" where
  "sim_terminal st \<longleftrightarrow> st \<in> {SimFilled, SimCanceled, SimRejected}"

definition validate_order :: "sim_order \<Rightarrow> (sim_error, unit) outcome" where
  "validate_order ord =
     (if so_quantity ord \<le> 0 then Err InvalidQuantity
      else if so_kind ord = Limit \<and>
              \<not> (case so_limit_price ord of Some px \<Rightarrow> 0 < px | None \<Rightarrow> False)
        then Err InvalidLimitPrice
      else if so_time_in_force ord = SimGtd \<and> so_expire_at_ns ord = None then Err MissingExpiry
      else if (case so_display_quantity ord of
                 Some display \<Rightarrow> display \<le> 0 \<or> so_quantity ord < display
               | None \<Rightarrow> False) then Err InvalidDisplayQuantity
      else Ok ())"

definition is_expired :: "sim_order \<Rightarrow> market_snapshot \<Rightarrow> bool" where
  "is_expired ord market =
     (case so_time_in_force ord of
        SimGtd \<Rightarrow> (case so_expire_at_ns ord of
                     Some deadline \<Rightarrow> deadline \<le> mk_now_ns market | None \<Rightarrow> False)
      | SimDay \<Rightarrow> mk_phase market = Closed
      | _ \<Rightarrow> False)"

definition phase_allows :: "sim_order \<Rightarrow> market_phase \<Rightarrow> bool" where
  "phase_allows ord phase =
     (case so_time_in_force ord of
        SimAtTheOpen \<Rightarrow> phase = Opening
      | SimAtTheClose \<Rightarrow> phase = Closing
      | _ \<Rightarrow> phase \<notin> {PreOpen, Closed})"

definition touch_price :: "sim_order \<Rightarrow> market_snapshot \<Rightarrow> decimal" where
  "touch_price ord market =
     (case so_side ord of SimBuy \<Rightarrow> mk_ask_price market | SimSell \<Rightarrow> mk_bid_price market)"

definition touch_quantity :: "sim_order \<Rightarrow> market_snapshot \<Rightarrow> decimal" where
  "touch_quantity ord market =
     (case so_side ord of SimBuy \<Rightarrow> mk_ask_quantity market | SimSell \<Rightarrow> mk_bid_quantity market)"

definition sim_crosses :: "sim_order \<Rightarrow> market_snapshot \<Rightarrow> bool" where
  "sim_crosses ord market =
     (case so_kind ord of
        Market \<Rightarrow> True
      | Limit \<Rightarrow> (case (so_side ord, so_limit_price ord) of
                    (SimBuy, Some px) \<Rightarrow> touch_price ord market \<le> px
                  | (SimSell, Some px) \<Rightarrow> px \<le> touch_price ord market
                  | _ \<Rightarrow> False))"

definition sim_reducible :: "sim_order \<Rightarrow> decimal \<Rightarrow> decimal \<Rightarrow> decimal" where
  "sim_reducible ord signed_position rem =
     (if so_reduce_only ord
      then (case so_side ord of
              SimBuy \<Rightarrow> if signed_position < 0 then - signed_position else 0
            | SimSell \<Rightarrow> if 0 < signed_position then signed_position else 0)
      else rem)"

definition sim_executable :: "sim_order \<Rightarrow> market_snapshot \<Rightarrow> decimal \<Rightarrow> decimal \<Rightarrow> decimal" where
  "sim_executable ord market signed_position rem =
     (let displayed = min (case so_display_quantity ord of Some d \<Rightarrow> d | None \<Rightarrow> rem) rem
      in min (min (min rem (touch_quantity ord market)) displayed)
             (sim_reducible ord signed_position rem))"

section \<open>Matching one record\<close>

text \<open>What a fill asks of the peer order: the three optional variables of the code.\<close>

datatype peer_effect = NoPeer | CancelPeer uuid | ActivatePeer uuid | ResizePeer uuid decimal

definition contingency_effect :: "sim_order \<Rightarrow> bool \<Rightarrow> decimal \<Rightarrow> peer_effect" where
  "contingency_effect ord fully_filled executable =
     (case so_contingency ord of
        None \<Rightarrow> NoPeer
      | Some link \<Rightarrow>
          (case cg_kind link of
             KindOco \<Rightarrow> if fully_filled then CancelPeer (cg_peer_order_id link) else NoPeer
           | KindOto \<Rightarrow> if fully_filled then ActivatePeer (cg_peer_order_id link) else NoPeer
           | KindOuo \<Rightarrow> ResizePeer (cg_peer_order_id link) executable))"

definition apply_executable ::
  "dec_ops \<Rightarrow> uuid \<Rightarrow> sim_order_record \<Rightarrow> decimal \<Rightarrow> decimal \<Rightarrow> decimal \<Rightarrow> decimal
     \<Rightarrow> (sim_error, match_outcome \<times> sim_order_record \<times> peer_effect) outcome" where
  "apply_executable ar order_id r price executable reducible rem =
     and_then (or_panic (checked_add ar (sr_filled_quantity r) executable)) (\<lambda>filled.
     and_then (sim_remaining ar (r\<lparr>sr_filled_quantity := filled\<rparr>)) (\<lambda>left.
       let fill = \<lparr>sf_order_id = order_id, sf_quantity = executable, sf_price = price\<rparr>;
           fully_filled = (left = 0);
           reduction_exhausted =
             (so_reduce_only (sr_order r) \<and> executable = reducible \<and> reducible < rem);
           state = (if fully_filled then SimFilled
                    else if so_time_in_force (sr_order r) = SimIoc \<or> reduction_exhausted
                      then SimCanceled
                    else SimPartiallyFilled)
       in Ok (if fully_filled then MFilled fill else MPartiallyFilled fill,
              r\<lparr>sr_filled_quantity := filled, sr_state := state\<rparr>,
              contingency_effect (sr_order r) fully_filled executable)))"

definition match_record ::
  "dec_ops \<Rightarrow> uuid \<Rightarrow> sim_order_record \<Rightarrow> market_snapshot \<Rightarrow> decimal
     \<Rightarrow> (sim_error, match_outcome \<times> sim_order_record \<times> peer_effect) outcome" where
  "match_record ar order_id r market signed_position =
     (let ord = sr_order r in
      if sr_state r = SimDormant then Ok (MDormant, r, NoPeer)
      else if sim_terminal (sr_state r) then
        Ok (case sr_state r of
              SimCanceled \<Rightarrow> MCanceled
            | SimRejected \<Rightarrow> MRejected ''already rejected''
            | _ \<Rightarrow> MResting, r, NoPeer)
      else if is_expired ord market then Ok (MCanceled, r\<lparr>sr_state := SimCanceled\<rparr>, NoPeer)
      else if \<not> phase_allows ord (mk_phase market) then Ok (MResting, r, NoPeer)
      else if so_post_only ord \<and> sim_crosses ord market then
        Ok (MRejected ''post-only order would take liquidity'', r\<lparr>sr_state := SimRejected\<rparr>, NoPeer)
      else if \<not> sim_crosses ord market then Ok (MResting, r, NoPeer)
      else and_then (sim_remaining ar r) (\<lambda>rem.
        let reducible = sim_reducible ord signed_position rem;
            executable = sim_executable ord market signed_position rem
        in if so_reduce_only ord \<and> reducible \<le> 0 then
             Ok (MRejected ''reduce-only order would not reduce current position'',
                 r\<lparr>sr_state := SimRejected\<rparr>, NoPeer)
           else if so_time_in_force ord = SimFok \<and> executable < rem then
             Ok (MCanceled, r\<lparr>sr_state := SimCanceled\<rparr>, NoPeer)
           else if executable \<le> 0 then
             (if so_time_in_force ord = SimIoc
              then Ok (MCanceled, r\<lparr>sr_state := SimCanceled\<rparr>, NoPeer)
              else Ok (MResting, r, NoPeer))
           else apply_executable ar order_id r (touch_price ord market) executable reducible rem))"

section \<open>Engine operations\<close>

definition sim_submit ::
  "sim_order \<Rightarrow> bool \<Rightarrow> matching_engine \<Rightarrow> (sim_error, unit) outcome \<times> matching_engine" where
  "sim_submit ord active eng =
     (case validate_order ord of
        Ok _ \<Rightarrow>
          if so_order_id ord \<in> dom eng then (Err (DuplicateOrder (so_order_id ord)), eng)
          else (Ok (), eng(so_order_id ord \<mapsto>
                 \<lparr>sr_order = ord, sr_state = (if active then SimResting else SimDormant),
                  sr_filled_quantity = 0\<rparr>))
      | e \<Rightarrow> (e, eng))"

definition sim_record :: "uuid \<Rightarrow> matching_engine \<Rightarrow> sim_order_record option" where
  "sim_record order_id eng = eng order_id"

definition sim_cancel ::
  "uuid \<Rightarrow> matching_engine \<Rightarrow> (sim_error, unit) outcome \<times> matching_engine" where
  "sim_cancel order_id eng =
     (case eng order_id of
        None \<Rightarrow> (Err (UnknownOrder order_id), eng)
      | Some r \<Rightarrow>
          (Ok (), if sim_terminal (sr_state r) then eng
                  else eng(order_id \<mapsto> r\<lparr>sr_state := SimCanceled\<rparr>)))"

definition resize_peer :: "dec_ops \<Rightarrow> decimal \<Rightarrow> sim_order_record \<Rightarrow> (sim_error, sim_order_record) outcome" where
  "resize_peer ar delta r =
     and_then (or_panic (checked_sub ar (so_quantity (sr_order r)) delta)) (\<lambda>d.
       let r1 = r\<lparr>sr_order := (sr_order r)\<lparr>so_quantity := max d (sr_filled_quantity r)\<rparr>\<rparr>
       in and_then (sim_remaining ar r1) (\<lambda>left.
            Ok (if left = 0 then r1\<lparr>sr_state := SimCanceled\<rparr> else r1)))"

definition apply_peer_effect ::
  "dec_ops \<Rightarrow> peer_effect \<Rightarrow> matching_engine \<Rightarrow> (sim_error, unit) outcome \<times> matching_engine" where
  "apply_peer_effect ar eff eng =
     (case eff of
        NoPeer \<Rightarrow> (Ok (), eng)
      | CancelPeer peer \<Rightarrow> (Ok (), snd (sim_cancel peer eng))
      | ActivatePeer peer \<Rightarrow>
          (Ok (), case eng peer of
                    Some r \<Rightarrow> if sr_state r = SimDormant
                              then eng(peer \<mapsto> r\<lparr>sr_state := SimResting\<rparr>) else eng
                  | None \<Rightarrow> eng)
      | ResizePeer peer delta \<Rightarrow>
          (case eng peer of
             Some r \<Rightarrow>
               if sim_terminal (sr_state r) then (Ok (), eng)
               else (case resize_peer ar delta r of
                       Ok r' \<Rightarrow> (Ok (), eng(peer \<mapsto> r'))
                     | Err e \<Rightarrow> (Err e, eng)
                     | Panic \<Rightarrow> (Panic, eng))
           | None \<Rightarrow> (Ok (), eng)))"

definition match_once ::
  "dec_ops \<Rightarrow> uuid \<Rightarrow> market_snapshot \<Rightarrow> decimal \<Rightarrow> matching_engine
     \<Rightarrow> (sim_error, match_outcome) outcome \<times> matching_engine" where
  "match_once ar order_id market signed_position eng =
     (case eng order_id of
        None \<Rightarrow> (Err (UnknownOrder order_id), eng)
      | Some r \<Rightarrow>
          (case match_record ar order_id r market signed_position of
             Ok (out, r', eff) \<Rightarrow>
               (case apply_peer_effect ar eff (eng(order_id \<mapsto> r')) of
                  (Ok _, eng') \<Rightarrow> (Ok out, eng')
                | (Err e, eng') \<Rightarrow> (Err e, eng')
                | (Panic, eng') \<Rightarrow> (Panic, eng'))
           | Err e \<Rightarrow> (Err e, eng)
           | Panic \<Rightarrow> (Panic, eng)))"

section \<open>Invariant\<close>

definition sim_live :: "sim_order_state \<Rightarrow> bool" where
  "sim_live st \<longleftrightarrow> st = SimResting \<or> st = SimPartiallyFilled"

definition sim_rec_inv :: "nat \<Rightarrow> sim_order_record \<Rightarrow> bool" where
  "sim_rec_inv s r \<longleftrightarrow>
     0 \<le> sr_filled_quantity r \<and> sr_filled_quantity r \<le> so_quantity (sr_order r)
     \<and> (sr_state r \<in> {SimDormant, SimResting} \<longrightarrow> sr_filled_quantity r = 0)
     \<and> (sr_state r = SimPartiallyFilled \<longrightarrow> 0 < sr_filled_quantity r)
     \<and> (\<not> sim_terminal (sr_state r) \<longrightarrow> sr_filled_quantity r < so_quantity (sr_order r))
     \<and> (sr_state r = SimFilled \<longrightarrow> sr_filled_quantity r = so_quantity (sr_order r))
     \<and> representable s (sr_filled_quantity r) \<and> representable s (so_quantity (sr_order r))
     \<and> (\<forall>d. so_display_quantity (sr_order r) = Some d \<longrightarrow> representable s d)"

definition sim_inv :: "nat \<Rightarrow> matching_engine \<Rightarrow> bool" where
  "sim_inv s eng \<longleftrightarrow> (\<forall>k r. eng k = Some r \<longrightarrow> sim_rec_inv s r)"

definition market_on_scale :: "nat \<Rightarrow> market_snapshot \<Rightarrow> bool" where
  "market_on_scale s market \<longleftrightarrow>
     representable s (mk_bid_quantity market) \<and> representable s (mk_ask_quantity market)"

lemma sim_terminal_simps [simp]:
  "sim_terminal SimFilled" "sim_terminal SimCanceled" "sim_terminal SimRejected"
  "\<not> sim_terminal SimResting" "\<not> sim_terminal SimPartiallyFilled" "\<not> sim_terminal SimDormant"
  by (simp_all add: sim_terminal_def)

lemma sim_remaining_exact:
  assumes "lossless ar s" "sim_rec_inv s r"
  shows "sim_remaining ar r = Ok (so_quantity (sr_order r) - sr_filled_quantity r)"
  using lossless_sub_nonneg [OF assms(1), of "so_quantity (sr_order r)" "sr_filled_quantity r"] assms(2)
  by (simp add: sim_remaining_def sim_rec_inv_def)

lemma sim_executable_le:
  "sim_executable ord market pos rem \<le> rem"
  "sim_executable ord market pos rem \<le> touch_quantity ord market"
  "sim_executable ord market pos rem \<le> sim_reducible ord pos rem"
  "so_display_quantity ord = Some d \<Longrightarrow> sim_executable ord market pos rem \<le> d"
  by (simp_all add: sim_executable_def Let_def min_le_iff_disj)

lemma sim_reducible_representable:
  "representable s pos \<Longrightarrow> representable s rem \<Longrightarrow> representable s (sim_reducible ord pos rem)"
  by (simp add: sim_reducible_def split: sim_side.split)

lemma sim_executable_representable:
  assumes "representable s pos" "representable s rem" "market_on_scale s market"
    and "\<forall>d. so_display_quantity ord = Some d \<longrightarrow> representable s d"
  shows "representable s (sim_executable ord market pos rem)"
proof -
  have "representable s (touch_quantity ord market)"
    using assms(3) by (simp add: touch_quantity_def market_on_scale_def split: sim_side.split)
  moreover have "representable s (case so_display_quantity ord of Some d \<Rightarrow> d | None \<Rightarrow> rem)"
    using assms(2,4) by (simp split: option.split)
  ultimately show ?thesis unfolding sim_executable_def Let_def
    by (intro representable_min assms(2) sim_reducible_representable assms(1))
qed

text \<open>The state a fill leaves behind.\<close>

definition filled_state :: "sim_order \<Rightarrow> decimal \<Rightarrow> decimal \<Rightarrow> decimal \<Rightarrow> sim_order_state" where
  "filled_state ord q reducible rem =
     (if q = rem then SimFilled
      else if so_time_in_force ord = SimIoc \<or> so_reduce_only ord \<and> q = reducible \<and> reducible < rem
        then SimCanceled
      else SimPartiallyFilled)"

lemma apply_executable_exact:
  fixes k :: uuid and price red :: decimal
  assumes "lossless ar s" "sim_rec_inv s r" "representable s q" "0 < q"
    and rem: "rem = so_quantity (sr_order r) - sr_filled_quantity r" and "q \<le> rem"
  defines "f \<equiv> \<lparr>sf_order_id = k, sf_quantity = q, sf_price = price\<rparr>"
    and "r' \<equiv> r\<lparr>sr_filled_quantity := sr_filled_quantity r + q,
                sr_state := filled_state (sr_order r) q red rem\<rparr>"
  shows "apply_executable ar k r price q red rem =
      Ok (if q = rem then MFilled f else MPartiallyFilled f, r',
          contingency_effect (sr_order r) (q = rem) q) \<and> sim_rec_inv s r'"
proof -
  let ?F = "sr_filled_quantity r" and ?Q = "so_quantity (sr_order r)"
  have inv: "0 \<le> ?F" "representable s ?F" "representable s ?Q" "0 \<le> ?Q"
    using assms(2) by (simp_all add: sim_rec_inv_def)
  have b: "0 \<le> ?F + q" "?F + q \<le> ?Q" using inv assms(4) \<open>q \<le> rem\<close> rem by simp_all
  have add: "checked_add ar ?F q = Some (?F + q)"
    by (rule lossless_add_le [OF assms(1) inv(2) assms(3) inv(3) b])
  have rep: "representable s (?F + q)"
    by (rule representable_add_le [OF inv(2) assms(3) inv(3) b])
  have sub: "checked_sub ar ?Q (?F + q) = Some (?Q - (?F + q))"
    by (rule lossless_sub_nonneg [OF assms(1) inv(3) rep inv(4) b(1)])
  have left: "sim_remaining ar (r\<lparr>sr_filled_quantity := ?F + q\<rparr>) = Ok (?Q - (?F + q))"
    using b sub by (simp add: sim_remaining_def)
  have full: "?Q = ?F + q \<longleftrightarrow> q = rem" using rem by auto
  have "sim_rec_inv s r'"
    using assms(2,4) rep b rem
    by (auto simp: r'_def sim_rec_inv_def filled_state_def)
  then show ?thesis
    by (simp add: apply_executable_def add left full f_def r'_def filled_state_def Let_def)
qed

text \<open>
  Everything one matching step can do to a record: leave its fill alone and at most end it, or
  fill it by the executable quantity.
\<close>

definition match_no_fill :: "sim_order_record \<Rightarrow> match_outcome \<Rightarrow> sim_order_record \<Rightarrow> bool" where
  "match_no_fill r out r' \<longleftrightarrow>
     out \<notin> range MFilled \<union> range MPartiallyFilled
     \<and> (r' = r \<or> sim_live (sr_state r) \<and> r' = r\<lparr>sr_state := SimCanceled\<rparr> \<and> out = MCanceled
        \<or> sim_live (sr_state r) \<and> r' = r\<lparr>sr_state := SimRejected\<rparr> \<and> (\<exists>why. out = MRejected why))"

definition match_fillable :: "sim_order_record \<Rightarrow> market_snapshot \<Rightarrow> decimal \<Rightarrow> decimal \<Rightarrow> decimal \<Rightarrow> bool" where
  "match_fillable r market pos rem q \<longleftrightarrow>
     sim_live (sr_state r) \<and> \<not> is_expired (sr_order r) market
     \<and> phase_allows (sr_order r) (mk_phase market) \<and> sim_crosses (sr_order r) market
     \<and> \<not> so_post_only (sr_order r) \<and> 0 < q
     \<and> (so_reduce_only (sr_order r) \<longrightarrow> 0 < sim_reducible (sr_order r) pos rem)
     \<and> (so_time_in_force (sr_order r) = SimFok \<longrightarrow> q = rem)"

lemma match_record_cases:
  assumes "lossless ar s" "sim_rec_inv s r" "market_on_scale s market" "representable s pos"
  obtains
    (no_fill) out r' where "match_record ar k r market pos = Ok (out, r', NoPeer)"
      "match_no_fill r out r'"
      "\<not> match_fillable r market pos (so_quantity (sr_order r) - sr_filled_quantity r)
         (sim_executable (sr_order r) market pos (so_quantity (sr_order r) - sr_filled_quantity r))"
  | (fill) rem q r' f where
      "rem = so_quantity (sr_order r) - sr_filled_quantity r"
      "q = sim_executable (sr_order r) market pos rem" "match_fillable r market pos rem q"
      "f = \<lparr>sf_order_id = k, sf_quantity = q, sf_price = touch_price (sr_order r) market\<rparr>"
      "r' = r\<lparr>sr_filled_quantity := sr_filled_quantity r + q,
         sr_state := filled_state (sr_order r) q (sim_reducible (sr_order r) pos rem) rem\<rparr>"
      "match_record ar k r market pos =
         Ok (if q = rem then MFilled f else MPartiallyFilled f, r',
             contingency_effect (sr_order r) (q = rem) q)"
      "representable s q" "q \<le> rem" "sim_rec_inv s r'"
proof -
  let ?ord = "sr_order r"
  define rem where "rem = so_quantity ?ord - sr_filled_quantity r"
  define q where "q = sim_executable ?ord market pos rem"
  have rems: "sim_remaining ar r = Ok rem"
    using sim_remaining_exact [OF assms(1,2)] by (simp add: rem_def)
  have inv: "0 \<le> so_quantity ?ord" "0 \<le> sr_filled_quantity r"
      "representable s (so_quantity ?ord)" "representable s (sr_filled_quantity r)"
      "\<forall>d. so_display_quantity ?ord = Some d \<longrightarrow> representable s d"
    using assms(2) by (simp_all add: sim_rec_inv_def)
  have rrem: "representable s rem"
    unfolding rem_def by (rule representable_diff_nonneg [OF inv(3,4,1,2)])
  have rq: "representable s q"
    unfolding q_def by (rule sim_executable_representable [OF assms(4) rrem assms(3) inv(5)])
  have le: "q \<le> rem" unfolding q_def by (rule sim_executable_le)
  show thesis
  proof (cases "match_fillable r market pos rem q")
    case True
    then have mr: "match_record ar k r market pos =
        apply_executable ar k r (touch_price ?ord market) q (sim_reducible ?ord pos rem) rem"
      using le
      by (auto simp: match_record_def match_fillable_def rems sim_live_def Let_def q_def)
    have "0 < q" using True by (simp add: match_fillable_def)
    from apply_executable_exact [OF assms(1,2) rq this rem_def le]
    show thesis using True mr rq le by (intro fill [OF rem_def q_def True refl refl]) simp_all
  next
    case False
    then have "\<exists>out r'. match_record ar k r market pos = Ok (out, r', NoPeer) \<and> match_no_fill r out r'"
      using le
      by (cases "sr_state r")
        (auto simp: match_record_def match_fillable_def match_no_fill_def rems sim_live_def Let_def
          q_def [symmetric])
    with no_fill False show thesis unfolding q_def rem_def by blast
  qed
qed

section \<open>Engine-level lemmas\<close>

lemma sim_inv_update:
  "sim_inv s eng \<Longrightarrow> sim_rec_inv s r \<Longrightarrow> sim_inv s (eng(k \<mapsto> r))"
  by (simp add: sim_inv_def)

lemma sim_invD: "sim_inv s eng \<Longrightarrow> eng k = Some r \<Longrightarrow> sim_rec_inv s r"
  by (simp add: sim_inv_def)

lemma sim_rec_inv_end:
  "sim_rec_inv s r \<Longrightarrow> sim_rec_inv s (r\<lparr>sr_state := SimCanceled\<rparr>)"
  "sim_rec_inv s r \<Longrightarrow> sim_rec_inv s (r\<lparr>sr_state := SimRejected\<rparr>)"
  by (simp_all add: sim_rec_inv_def)

lemma match_no_fill_inv: "match_no_fill r out r' \<Longrightarrow> sim_rec_inv s r \<Longrightarrow> sim_rec_inv s r'"
  by (auto simp: match_no_fill_def intro: sim_rec_inv_end)

text \<open>The peer effects that a fill by a representable positive quantity produces.\<close>

definition effect_on_scale :: "nat \<Rightarrow> peer_effect \<Rightarrow> bool" where
  "effect_on_scale s eff \<longleftrightarrow> (\<forall>peer d. eff = ResizePeer peer d \<longrightarrow> 0 < d \<and> representable s d)"

lemma contingency_effect_on_scale:
  "0 < q \<Longrightarrow> representable s q \<Longrightarrow> effect_on_scale s (contingency_effect ord b q)"
  by (auto simp: effect_on_scale_def contingency_effect_def split: option.splits contingency_kind.splits if_splits)

lemma resize_peer_exact:
  assumes "lossless ar s" "sim_rec_inv s r" "\<not> sim_terminal (sr_state r)" "0 < d" "representable s d"
  obtains r' where "resize_peer ar d r = Ok r'" "sim_rec_inv s r'"
    "sr_filled_quantity r' = sr_filled_quantity r"
    "so_quantity (sr_order r') = max (so_quantity (sr_order r) - d) (sr_filled_quantity r)"
    "sr_state r' = (if so_quantity (sr_order r) - d \<le> sr_filled_quantity r then SimCanceled else sr_state r)"
proof -
  let ?Q = "so_quantity (sr_order r)" and ?F = "sr_filled_quantity r"
  let ?M = "max (?Q - d) ?F"
  define r1 where "r1 = r\<lparr>sr_order := (sr_order r)\<lparr>so_quantity := ?M\<rparr>\<rparr>"
  have inv: "0 \<le> ?Q" "0 \<le> ?F" "representable s ?Q" "representable s ?F" "?F < ?Q"
    using assms(2,3) by (simp_all add: sim_rec_inv_def)
  have sub: "checked_sub ar ?Q d = Some (?Q - d)"
    using lossless_sub_nonneg [OF assms(1) inv(3) assms(5) inv(1)] assms(4) by simp
  have "representable s (?Q - d)"
    using representable_diff_nonneg [OF inv(3) assms(5) inv(1)] assms(4) by simp
  then have rM: "representable s ?M" using inv(4) by (rule representable_max)
  have "checked_sub ar ?M ?F = Some (?M - ?F)"
    using lossless_sub_nonneg [OF assms(1) rM inv(4)] inv(2) by (simp add: max.coboundedI2)
  then have rem: "sim_remaining ar r1 = Ok (?M - ?F)"
    by (simp add: sim_remaining_def r1_def)
  have zero: "?M - ?F = 0 \<longleftrightarrow> ?Q - d \<le> ?F" by (auto simp: max_def)
  let ?r' = "if ?Q - d \<le> ?F then r1\<lparr>sr_state := SimCanceled\<rparr> else r1"
  have ok: "resize_peer ar d r = Ok ?r'"
    unfolding resize_peer_def sub or_panic.simps and_then.simps Let_def r1_def [symmetric] rem zero
    by simp
  have "sim_rec_inv s ?r'"
    using assms(2) inv rM by (auto simp: sim_rec_inv_def r1_def less_max_iff_disj)
  from that [OF ok this] show thesis by (simp add: r1_def)
qed

lemma apply_peer_effect_ok:
  assumes "lossless ar s" "sim_inv s eng" "effect_on_scale s eff"
  shows "\<exists>eng'. apply_peer_effect ar eff eng = (Ok (), eng') \<and> sim_inv s eng'"
proof (cases eff)
  case NoPeer
  then show ?thesis using assms(2) by (simp add: apply_peer_effect_def)
next
  case (CancelPeer peer)
  have "sim_inv s (snd (sim_cancel peer eng))"
    using assms(2)
    by (auto simp: sim_cancel_def intro!: sim_inv_update sim_rec_inv_end dest: sim_invD split: option.split)
  then show ?thesis by (simp add: CancelPeer apply_peer_effect_def)
next
  case (ActivatePeer peer)
  have "sim_rec_inv s (r\<lparr>sr_state := SimResting\<rparr>)" if "eng peer = Some r" "sr_state r = SimDormant" for r
    using sim_invD [OF assms(2) that(1)] that(2) by (simp add: sim_rec_inv_def)
  then show ?thesis using assms(2)
    by (auto simp: ActivatePeer apply_peer_effect_def intro!: sim_inv_update split: option.split)
next
  case (ResizePeer peer d)
  show ?thesis
  proof (cases "\<exists>r. eng peer = Some r \<and> \<not> sim_terminal (sr_state r)")
    case True
    then obtain r where r: "eng peer = Some r" "\<not> sim_terminal (sr_state r)" by blast
    have "0 < d" "representable s d" using assms(3) ResizePeer by (simp_all add: effect_on_scale_def)
    with resize_peer_exact [OF assms(1) sim_invD [OF assms(2) r(1)] r(2)]
    obtain r' where "resize_peer ar d r = Ok r'" "sim_rec_inv s r'" by metis
    then show ?thesis using r assms(2) by (simp add: ResizePeer apply_peer_effect_def sim_inv_update)
  next
    case False
    then show ?thesis using assms(2) by (auto simp: ResizePeer apply_peer_effect_def split: option.split)
  qed
qed

lemma match_record_step:
  assumes "lossless ar s" "sim_rec_inv s r" "market_on_scale s market" "representable s pos"
  obtains out r' eff where "match_record ar k r market pos = Ok (out, r', eff)"
    "sim_rec_inv s r'" "effect_on_scale s eff"
proof (rule match_record_cases [OF assms, of k])
  fix out r' assume "match_record ar k r market pos = Ok (out, r', NoPeer)" "match_no_fill r out r'"
  then show thesis
    using that [of out r' NoPeer] match_no_fill_inv assms(2) by (simp add: effect_on_scale_def)
next
  fix rem q r' f
  assume "match_fillable r market pos rem q" "representable s q" "sim_rec_inv s r'"
    "match_record ar k r market pos = Ok (if q = rem then MFilled f else MPartiallyFilled f, r',
        contingency_effect (sr_order r) (q = rem) q)"
  then show thesis
    using that contingency_effect_on_scale [of q s "sr_order r" "q = rem"] by (simp add: match_fillable_def)
qed

lemma match_once_Some:
  assumes "lossless ar s" "sim_inv s eng" "market_on_scale s market" "representable s pos"
    and "eng k = Some r"
  obtains out r' eff eng' where "match_record ar k r market pos = Ok (out, r', eff)"
    "apply_peer_effect ar eff (eng(k \<mapsto> r')) = (Ok (), eng')"
    "match_once ar k market pos eng = (Ok out, eng')" "sim_inv s eng'"
proof -
  obtain out r' eff where m: "match_record ar k r market pos = Ok (out, r', eff)"
      "sim_rec_inv s r'" "effect_on_scale s eff"
    using match_record_step [OF assms(1) sim_invD [OF assms(2,5)] assms(3,4)] .
  obtain eng' where "apply_peer_effect ar eff (eng(k \<mapsto> r')) = (Ok (), eng')" "sim_inv s eng'"
    using apply_peer_effect_ok [OF assms(1) sim_inv_update [OF assms(2) m(2)] m(3)] by blast
  with m(1) assms(5) show thesis by (intro that [of out r' eff eng']) (simp_all add: match_once_def)
qed

section \<open>Runs of the engine\<close>

datatype sim_op =
  OpSubmit sim_order bool | OpCancel uuid | OpMatch uuid market_snapshot decimal

definition sim_op_on_scale :: "nat \<Rightarrow> sim_op \<Rightarrow> bool" where
  "sim_op_on_scale s op =
     (case op of
        OpSubmit ord _ \<Rightarrow> representable s (so_quantity ord)
          \<and> (case so_display_quantity ord of Some d \<Rightarrow> representable s d | None \<Rightarrow> True)
      | OpCancel _ \<Rightarrow> True
      | OpMatch _ market pos \<Rightarrow> market_on_scale s market \<and> representable s pos)"

text \<open>One call: its fill, if any, whether it panicked, and the engine after it.\<close>

definition sim_exec :: "dec_ops \<Rightarrow> sim_op \<Rightarrow> matching_engine \<Rightarrow> sim_fill option \<times> bool \<times> matching_engine" where
  "sim_exec ar op eng =
     (case op of
        OpSubmit ord active \<Rightarrow>
          (case sim_submit ord active eng of (res, eng') \<Rightarrow> (None, res = Panic, eng'))
      | OpCancel k \<Rightarrow> (case sim_cancel k eng of (res, eng') \<Rightarrow> (None, res = Panic, eng'))
      | OpMatch k market pos \<Rightarrow>
          (case match_once ar k market pos eng of
             (res, eng') \<Rightarrow>
               (case res of Ok (MFilled f) \<Rightarrow> Some f | Ok (MPartiallyFilled f) \<Rightarrow> Some f | _ \<Rightarrow> None,
                res = Panic, eng')))"

fun sim_run :: "dec_ops \<Rightarrow> sim_op list \<Rightarrow> matching_engine \<Rightarrow> sim_fill list \<times> bool \<times> matching_engine" where
  "sim_run ar [] eng = ([], False, eng)"
| "sim_run ar (op # ops) eng =
     (case sim_exec ar op eng of
        (fill, panicked, eng1) \<Rightarrow>
          (case sim_run ar ops eng1 of
             (fills, panicked', eng2) \<Rightarrow>
               ((case fill of Some f \<Rightarrow> f # fills | None \<Rightarrow> fills), panicked \<or> panicked', eng2)))"

definition traded :: "uuid \<Rightarrow> sim_fill list \<Rightarrow> decimal" where
  "traded k fills = sum_list (map sf_quantity (filter (\<lambda>f. sf_order_id f = k) fills))"

definition filled_of :: "uuid \<Rightarrow> matching_engine \<Rightarrow> decimal" where
  "filled_of k eng = (case eng k of Some r \<Rightarrow> sr_filled_quantity r | None \<Rightarrow> 0)"

text \<open>The peer effects never touch a filled quantity.\<close>

lemma sim_cancel_filled: "filled_of k (snd (sim_cancel p eng)) = filled_of k eng"
  by (simp add: sim_cancel_def filled_of_def split: option.split)

lemma apply_peer_effect_filled:
  assumes "lossless ar s" "sim_inv s eng" "effect_on_scale s eff"
  shows "filled_of k (snd (apply_peer_effect ar eff eng)) = filled_of k eng"
proof (cases eff)
  case (ResizePeer peer d)
  have "0 < d" "representable s d" using assms(3) ResizePeer by (simp_all add: effect_on_scale_def)
  note d = this
  show ?thesis
  proof (cases "\<exists>r. eng peer = Some r \<and> \<not> sim_terminal (sr_state r)")
    case True
    then obtain r where r: "eng peer = Some r" "\<not> sim_terminal (sr_state r)" by blast
    with resize_peer_exact [OF assms(1) sim_invD [OF assms(2) r(1)] r(2) d]
    obtain r' where "resize_peer ar d r = Ok r'" "sr_filled_quantity r' = sr_filled_quantity r" by metis
    then show ?thesis using r by (simp add: ResizePeer apply_peer_effect_def filled_of_def)
  next
    case False
    then have "snd (apply_peer_effect ar eff eng) = eng"
      by (auto simp: ResizePeer apply_peer_effect_def split: option.split)
    then show ?thesis by simp
  qed
qed (simp_all add: apply_peer_effect_def sim_cancel_filled, simp add: filled_of_def split: option.split)

lemma match_once_filled:
  assumes "lossless ar s" "sim_inv s eng" "market_on_scale s market" "representable s pos"
  shows "filled_of j (snd (match_once ar k market pos eng)) = filled_of j eng
    + (case fst (match_once ar k market pos eng) of
         Ok (MFilled f) \<Rightarrow> traded j [f] | Ok (MPartiallyFilled f) \<Rightarrow> traded j [f] | _ \<Rightarrow> 0)"
proof (cases "eng k")
  case None
  then show ?thesis by (simp add: match_once_def)
next
  case (Some r)
  obtain out r' eff where m: "match_record ar k r market pos = Ok (out, r', eff)"
      "sim_rec_inv s r'" "effect_on_scale s eff"
    using match_record_step [OF assms(1) sim_invD [OF assms(2) Some] assms(3,4)] .
  obtain eng' where e: "apply_peer_effect ar eff (eng(k \<mapsto> r')) = (Ok (), eng')"
    using apply_peer_effect_ok [OF assms(1) sim_inv_update [OF assms(2) m(2)] m(3)] by blast
  have once: "match_once ar k market pos eng = (Ok out, eng')"
    using m(1) e Some by (simp add: match_once_def)
  have "filled_of j eng' = filled_of j (eng(k \<mapsto> r'))"
    using apply_peer_effect_filled [OF assms(1) sim_inv_update [OF assms(2) m(2)] m(3), of j k] e by simp
  also have "\<dots> = filled_of j eng
      + (case out of MFilled f \<Rightarrow> traded j [f] | MPartiallyFilled f \<Rightarrow> traded j [f] | _ \<Rightarrow> 0)"
  proof (rule match_record_cases [OF assms(1) sim_invD [OF assms(2) Some] assms(3,4), of k])
    fix out1 r1 assume "match_record ar k r market pos = Ok (out1, r1, NoPeer)" "match_no_fill r out1 r1"
    then have "out = out1" "r' = r1" "match_no_fill r out r'" using m(1) by simp_all
    then show ?thesis using Some
      by (auto simp: match_no_fill_def filled_of_def split: match_outcome.split)
  next
    fix rem q r1 f
    assume "match_record ar k r market pos = Ok (if q = rem then MFilled f else MPartiallyFilled f, r1,
        contingency_effect (sr_order r) (q = rem) q)"
      "f = \<lparr>sf_order_id = k, sf_quantity = q, sf_price = touch_price (sr_order r) market\<rparr>"
      "r1 = r\<lparr>sr_filled_quantity := sr_filled_quantity r + q,
         sr_state := filled_state (sr_order r) q (sim_reducible (sr_order r) pos rem) rem\<rparr>"
    then show ?thesis using m(1) Some by (auto simp: filled_of_def traded_def)
  qed
  finally show ?thesis using once by (simp split: match_outcome.split)
qed

lemma validate_order_Ok: "validate_order ord = Ok u \<Longrightarrow> 0 < so_quantity ord"
  by (simp add: validate_order_def split: if_splits)

lemma validate_order_not_Panic [simp]: "validate_order ord \<noteq> Panic"
  by (simp add: validate_order_def split: option.split)

lemma sim_submit_cases:
  obtains (ok) "0 < so_quantity ord" "eng (so_order_id ord) = None"
      "sim_submit ord active eng = (Ok (), eng(so_order_id ord \<mapsto>
         \<lparr>sr_order = ord, sr_state = (if active then SimResting else SimDormant), sr_filled_quantity = 0\<rparr>))"
  | (err) e where "sim_submit ord active eng = (Err e, eng)"
proof (cases "validate_order ord")
  case (Ok u)
  then show thesis using that validate_order_Ok [OF Ok]
    by (cases "eng (so_order_id ord)") (auto simp: sim_submit_def domIff)
qed (use that in \<open>simp_all add: sim_submit_def\<close>)

lemma sim_submit_inv:
  assumes "sim_inv s eng" "sim_op_on_scale s (OpSubmit ord active)"
  shows "sim_inv s (snd (sim_submit ord active eng)) \<and> fst (sim_submit ord active eng) \<noteq> Panic
    \<and> filled_of j (snd (sim_submit ord active eng)) = filled_of j eng"
proof (cases rule: sim_submit_cases [of ord eng active])
  case ok
  have "sim_rec_inv s \<lparr>sr_order = ord, sr_state = (if active then SimResting else SimDormant),
      sr_filled_quantity = 0\<rparr>"
    using assms(2) ok(1) by (simp add: sim_rec_inv_def sim_op_on_scale_def split: option.splits)
  then show ?thesis using ok assms(1) by (simp add: sim_inv_update filled_of_def)
qed (use assms(1) in simp)

lemma sim_cancel_inv: "sim_inv s eng \<Longrightarrow> sim_inv s (snd (sim_cancel k eng)) \<and> fst (sim_cancel k eng) \<noteq> Panic"
  by (auto simp: sim_cancel_def intro!: sim_inv_update sim_rec_inv_end dest: sim_invD split: option.split)

lemma match_once_inv:
  assumes "lossless ar s" "sim_inv s eng" "market_on_scale s market" "representable s pos"
  shows "sim_inv s (snd (match_once ar k market pos eng)) \<and> fst (match_once ar k market pos eng) \<noteq> Panic"
proof (cases "eng k")
  case None
  then show ?thesis using assms(2) by (simp add: match_once_def)
next
  case (Some r)
  from match_once_Some [OF assms Some] obtain out eng'
    where "match_once ar k market pos eng = (Ok out, eng')" "sim_inv s eng'" by metis
  then show ?thesis by simp
qed

lemma sim_exec_ok:
  assumes "lossless ar s" "sim_inv s eng" "sim_op_on_scale s op"
    and ex: "sim_exec ar op eng = (fill, panicked, eng')"
  shows "\<not> panicked \<and> sim_inv s eng'
    \<and> filled_of j eng' = filled_of j eng + traded j (case fill of Some f \<Rightarrow> [f] | None \<Rightarrow> [])"
proof (cases op)
  case (OpSubmit ord active)
  then show ?thesis using sim_submit_inv [OF assms(2), of ord active j] assms(3) ex
    by (auto simp: sim_exec_def traded_def split: prod.splits)
next
  case (OpCancel k)
  then show ?thesis using sim_cancel_inv [OF assms(2), of k] sim_cancel_filled [of j k eng] ex
    by (auto simp: sim_exec_def traded_def split: prod.splits)
next
  case (OpMatch k market pos)
  then have m: "market_on_scale s market" "representable s pos"
    using assms(3) by (simp_all add: sim_op_on_scale_def)
  obtain res where res: "match_once ar k market pos eng = (res, eng')"
    and p: "panicked \<longleftrightarrow> res = Panic"
    and f: "fill = (case res of Ok (MFilled f) \<Rightarrow> Some f | Ok (MPartiallyFilled f) \<Rightarrow> Some f | _ \<Rightarrow> None)"
    using ex by (auto simp: OpMatch sim_exec_def split: prod.splits)
  show ?thesis
    using match_once_inv [OF assms(1,2) m, of k] match_once_filled [OF assms(1,2) m, of j k] res p f
    by (simp add: traded_def split: outcome.split match_outcome.split)
qed

lemma traded_append [simp]: "traded k (xs @ ys) = traded k xs + traded k ys"
  by (simp add: traded_def)

lemma sim_run_ok:
  assumes "lossless ar s" "sim_inv s eng" "\<forall>op\<in>set ops. sim_op_on_scale s op"
    and "sim_run ar ops eng = (fills, panicked, eng')"
  shows "\<not> panicked \<and> sim_inv s eng' \<and> filled_of j eng' = filled_of j eng + traded j fills"
  using assms(2-4)
proof (induction ops arbitrary: eng fills panicked)
  case Nil
  then show ?case by (simp add: traded_def)
next
  case (Cons op ops)
  obtain fill p1 eng1 where e1: "sim_exec ar op eng = (fill, p1, eng1)" by (cases "sim_exec ar op eng")
  obtain fills2 p2 where e2: "sim_run ar ops eng1 = (fills2, p2, eng')"
    and r: "fills = (case fill of Some f \<Rightarrow> f # fills2 | None \<Rightarrow> fills2)" "panicked \<longleftrightarrow> p1 \<or> p2"
    using Cons.prems(3) e1 by (auto split: prod.splits)
  have fs: "fills = (case fill of Some f \<Rightarrow> [f] | None \<Rightarrow> []) @ fills2"
    using r(1) by (simp split: option.split)
  have s1: "\<not> p1 \<and> sim_inv s eng1
      \<and> filled_of j eng1 = filled_of j eng + traded j (case fill of Some f \<Rightarrow> [f] | None \<Rightarrow> [])"
    using sim_exec_ok [OF assms(1) Cons.prems(1) _ e1] Cons.prems(2) by simp
  have s2: "\<not> p2 \<and> sim_inv s eng' \<and> filled_of j eng' = filled_of j eng1 + traded j fills2"
    using Cons.IH [OF _ _ e2] s1 Cons.prems(2) by simp
  show ?case unfolding fs traded_append using s1 s2 r(2) by simp
qed

section \<open>Constraints that hold of every record\<close>

text \<open>A fill-or-kill order is untouched or complete; a post-only order never trades.\<close>

definition sim_rec_constraints :: "sim_order_record \<Rightarrow> bool" where
  "sim_rec_constraints r \<longleftrightarrow>
     (so_time_in_force (sr_order r) = SimFok \<longrightarrow>
        sr_filled_quantity r = 0 \<or> sr_filled_quantity r = so_quantity (sr_order r))
     \<and> (so_post_only (sr_order r) \<longrightarrow> sr_filled_quantity r = 0)"

definition sim_constraints :: "matching_engine \<Rightarrow> bool" where
  "sim_constraints eng \<longleftrightarrow> (\<forall>k r. eng k = Some r \<longrightarrow> sim_rec_constraints r)"

lemma sim_constraints_update:
  "sim_constraints eng \<Longrightarrow> sim_rec_constraints r \<Longrightarrow> sim_constraints (eng(k \<mapsto> r))"
  by (simp add: sim_constraints_def)

lemma sim_constraintsD: "sim_constraints eng \<Longrightarrow> eng k = Some r \<Longrightarrow> sim_rec_constraints r"
  by (simp add: sim_constraints_def)

lemma sim_rec_constraints_state [simp]:
  "sim_rec_constraints (r\<lparr>sr_state := st\<rparr>) = sim_rec_constraints r"
  by (simp add: sim_rec_constraints_def)

lemma sim_cancel_constraints:
  "sim_constraints eng \<Longrightarrow> sim_constraints (snd (sim_cancel k eng))"
  by (auto simp: sim_cancel_def intro!: sim_constraints_update dest: sim_constraintsD split: option.split)

lemma resize_peer_order:
  "resize_peer ar d r = Ok r' \<Longrightarrow>
     so_time_in_force (sr_order r') = so_time_in_force (sr_order r)
     \<and> so_post_only (sr_order r') = so_post_only (sr_order r)
     \<and> sr_filled_quantity r' = sr_filled_quantity r"
  by (auto simp: resize_peer_def outcome_simps Let_def split: if_splits)

lemma apply_peer_effect_constraints:
  assumes "sim_inv s eng" "sim_constraints eng"
  shows "sim_constraints (snd (apply_peer_effect ar eff eng))"
proof (cases eff)
  case NoPeer
  then show ?thesis using assms(2) by (simp add: apply_peer_effect_def)
next
  case (CancelPeer p)
  then show ?thesis using assms(2) by (simp add: apply_peer_effect_def sim_cancel_constraints)
next
  case (ActivatePeer p)
  then show ?thesis using assms(2)
    by (auto simp: apply_peer_effect_def intro!: sim_constraints_update dest: sim_constraintsD
        split: option.split)
next
  case (ResizePeer p d)
  have "sim_rec_constraints r'"
    if r: "eng p = Some r" "\<not> sim_terminal (sr_state r)" "resize_peer ar d r = Ok r'" for r r'
  proof -
    have "sr_filled_quantity r < so_quantity (sr_order r)"
      using sim_invD [OF assms(1) r(1)] r(2) by (simp add: sim_rec_inv_def)
    then show ?thesis using resize_peer_order [OF r(3)] sim_constraintsD [OF assms(2) r(1)]
      by (auto simp: sim_rec_constraints_def)
  qed
  then show ?thesis using assms(2)
    by (auto simp: ResizePeer apply_peer_effect_def intro!: sim_constraints_update
        split: option.split outcome.split)
qed

lemma match_record_constraints:
  assumes "lossless ar s" "sim_rec_inv s r" "market_on_scale s market" "representable s pos"
    and "sim_rec_constraints r" "match_record ar k r market pos = Ok (out, r', eff)"
  shows "sim_rec_constraints r'"
proof (rule match_record_cases [OF assms(1-4), of k])
  fix out1 r1 assume "match_record ar k r market pos = Ok (out1, r1, NoPeer)" "match_no_fill r out1 r1"
  then show ?thesis using assms(5,6) by (auto simp: match_no_fill_def)
next
  fix rem q r1 f
  assume a: "match_fillable r market pos rem q" "rem = so_quantity (sr_order r) - sr_filled_quantity r"
    "match_record ar k r market pos = Ok (if q = rem then MFilled f else MPartiallyFilled f, r1,
        contingency_effect (sr_order r) (q = rem) q)"
    and r1: "r1 = r\<lparr>sr_filled_quantity := sr_filled_quantity r + q,
         sr_state := filled_state (sr_order r) q (sim_reducible (sr_order r) pos rem) rem\<rparr>"
  have "r' = r1" using a(3) assms(6) by simp
  then show ?thesis using a(1,2) unfolding r1 by (simp add: sim_rec_constraints_def match_fillable_def)
qed

lemma sim_exec_constraints:
  assumes "lossless ar s" "sim_inv s eng" "sim_op_on_scale s op" "sim_constraints eng"
    and ex: "sim_exec ar op eng = (fill, panicked, eng')"
  shows "sim_constraints eng'"
proof (cases op)
  case (OpSubmit ord active)
  have "sim_constraints (snd (sim_submit ord active eng))"
    by (cases rule: sim_submit_cases [of ord eng active])
      (simp_all add: assms(4) sim_constraints_update sim_rec_constraints_def)
  then show ?thesis using ex by (simp add: OpSubmit sim_exec_def split: prod.splits)
next
  case (OpCancel k)
  then show ?thesis using sim_cancel_constraints [OF assms(4), of k] ex
    by (simp add: sim_exec_def split: prod.splits)
next
  case (OpMatch k market pos)
  then have m: "market_on_scale s market" "representable s pos"
    using assms(3) by (simp_all add: sim_op_on_scale_def)
  have e': "eng' = snd (match_once ar k market pos eng)"
    using ex by (simp add: OpMatch sim_exec_def split: prod.splits)
  show ?thesis
  proof (cases "eng k")
    case None
    then show ?thesis using assms(4) e' by (simp add: match_once_def)
  next
    case (Some r)
    obtain out r' eff where mr: "match_record ar k r market pos = Ok (out, r', eff)" "sim_rec_inv s r'"
      using match_record_step [OF assms(1) sim_invD [OF assms(2) Some] m] .
    have "sim_rec_constraints r'"
      using match_record_constraints [OF assms(1) sim_invD [OF assms(2) Some] m _ mr(1)]
        sim_constraintsD [OF assms(4) Some] by simp
    then have "sim_constraints (snd (apply_peer_effect ar eff (eng(k \<mapsto> r'))))"
      by (intro apply_peer_effect_constraints [OF sim_inv_update [OF assms(2) mr(2)]]
          sim_constraints_update assms(4))
    then show ?thesis using mr(1) Some
      by (auto simp: e' match_once_def split: prod.split outcome.split)
  qed
qed

lemma sim_run_constraints:
  assumes "lossless ar s" "sim_inv s eng" "\<forall>op\<in>set ops. sim_op_on_scale s op" "sim_constraints eng"
    and "sim_run ar ops eng = (fills, panicked, eng')"
  shows "sim_constraints eng'"
  using assms(2-5)
proof (induction ops arbitrary: eng fills panicked)
  case (Cons op ops)
  obtain fill p1 eng1 where e1: "sim_exec ar op eng = (fill, p1, eng1)" by (cases "sim_exec ar op eng")
  obtain fills2 p2 where e2: "sim_run ar ops eng1 = (fills2, p2, eng')"
    using Cons.prems(4) e1 by (auto split: prod.splits)
  have "sim_op_on_scale s op" using Cons.prems(2) by simp
  note step = sim_exec_ok [OF assms(1) Cons.prems(1) this e1]
    sim_exec_constraints [OF assms(1) Cons.prems(1) this Cons.prems(3) e1]
  then show ?case using Cons.IH [OF _ _ _ e2] Cons.prems(2) by simp
qed simp

lemma sim_empty: "sim_inv s Map.empty" "sim_constraints Map.empty" "filled_of k Map.empty = 0"
  by (simp_all add: sim_inv_def sim_constraints_def filled_of_def)

text \<open>What a matching step leaves of every order other than the matched one.\<close>

definition peer_of :: "peer_effect \<Rightarrow> uuid option" where
  "peer_of eff = (case eff of NoPeer \<Rightarrow> None | CancelPeer p \<Rightarrow> Some p | ActivatePeer p \<Rightarrow> Some p
     | ResizePeer p d \<Rightarrow> Some p)"

lemma peer_of_NoPeer [simp]: "peer_of NoPeer = None"
  by (simp add: peer_of_def)

lemma apply_peer_effect_frame:
  "peer_of eff \<noteq> Some j \<Longrightarrow> snd (apply_peer_effect ar eff eng) j = eng j"
  by (simp add: apply_peer_effect_def peer_of_def sim_cancel_def
      split: peer_effect.splits option.split outcome.split)

lemma contingency_effect_peer:
  "peer_of (contingency_effect ord b q) = Some p \<Longrightarrow>
     \<exists>link. so_contingency ord = Some link \<and> cg_peer_order_id link = p"
  by (auto simp: contingency_effect_def peer_of_def split: option.splits contingency_kind.splits if_splits)

section \<open>Properties\<close>

text \<open>
  C3. Any sequence of submissions, cancellations and matching steps on a fresh engine runs
  without a panic; for every order the quantities of its reported fills add up to the filled
  quantity of its record, which never exceeds the order's quantity; an order is \<open>Filled\<close> only
  when complete and live only when something remains.
\<close>

theorem sim_run_accounting:
  assumes "lossless ar s" "\<forall>op\<in>set ops. sim_op_on_scale s op"
    and "sim_run ar ops Map.empty = (fills, panicked, eng)"
  shows "\<not> panicked \<and> traded k fills = filled_of k eng
    \<and> (\<forall>r. sim_record k eng = Some r \<longrightarrow>
         0 \<le> traded k fills \<and> traded k fills \<le> so_quantity (sr_order r)
         \<and> (sr_state r = SimFilled \<longrightarrow> traded k fills = so_quantity (sr_order r))
         \<and> (\<not> sim_terminal (sr_state r) \<longrightarrow> traded k fills < so_quantity (sr_order r)))"
proof -
  have run: "\<not> panicked \<and> sim_inv s eng \<and> filled_of k eng = traded k fills"
    using sim_run_ok [OF assms(1) sim_empty(1) assms(2,3), of k] by (simp add: sim_empty(3))
  have "sim_rec_inv s r \<and> traded k fills = sr_filled_quantity r" if "sim_record k eng = Some r" for r
    using run that sim_invD [of s eng k r] by (auto simp: sim_record_def filled_of_def)
  then show ?thesis using run by (auto simp: sim_rec_inv_def)
qed

definition demo_market :: market_snapshot where
  "demo_market = \<lparr>mk_bid_price = 99, mk_bid_quantity = 5, mk_ask_price = 100, mk_ask_quantity = 5,
     mk_phase = Continuous, mk_now_ns = 100\<rparr>"

definition demo_sim_order :: "uuid \<Rightarrow> sim_order" where
  "demo_sim_order k = \<lparr>so_order_id = k, so_side = SimBuy, so_kind = Limit, so_quantity = 8,
     so_limit_price = Some 101, so_time_in_force = SimGtc, so_expire_at_ns = None,
     so_post_only = False, so_reduce_only = False, so_display_quantity = None,
     so_contingency = None\<rparr>"

definition demo_sim_ops :: "sim_op list" where
  "demo_sim_ops = [OpSubmit (demo_sim_order 1) True, OpMatch 1 demo_market 0, OpMatch 1 demo_market 0]"

lemma demo_sim_ops_on_scale: "\<forall>op\<in>set demo_sim_ops. sim_op_on_scale 0 op"
  by (simp add: demo_sim_ops_def sim_op_on_scale_def demo_sim_order_def demo_market_def
      market_on_scale_def representable_numeral)

theorem sim_run_accounting_witness:
  "traded 1 (fst (sim_run bounded_ops demo_sim_ops Map.empty))
     = filled_of 1 (snd (snd (sim_run bounded_ops demo_sim_ops Map.empty)))"
proof -
  obtain fills panicked eng where r: "sim_run bounded_ops demo_sim_ops Map.empty = (fills, panicked, eng)"
    by (cases "sim_run bounded_ops demo_sim_ops Map.empty")
  show ?thesis
    using sim_run_accounting [OF lossless_bounded_ops [of 0] demo_sim_ops_on_scale r, of 1] r by simp
qed

text \<open>
  In every engine reached from a fresh one, a fill-or-kill order has traded nothing or its
  whole quantity, and a post-only order has traded nothing.
\<close>

theorem sim_fok_post_only:
  assumes "lossless ar s" "\<forall>op\<in>set ops. sim_op_on_scale s op"
    and "sim_run ar ops Map.empty = (fills, panicked, eng)" and "sim_record k eng = Some r"
  shows "(so_time_in_force (sr_order r) = SimFok \<longrightarrow> traded k fills \<in> {0, so_quantity (sr_order r)})
    \<and> (so_post_only (sr_order r) \<longrightarrow> traded k fills = 0)"
proof -
  have "traded k fills = sr_filled_quantity r"
    using sim_run_ok [OF assms(1) sim_empty(1) assms(2,3), of k] assms(4)
    by (simp add: filled_of_def sim_record_def)
  moreover have "sim_rec_constraints r"
    using sim_run_constraints [OF assms(1) sim_empty(1) assms(2) sim_empty(2) assms(3)] assms(4)
    by (simp add: sim_constraints_def sim_record_def)
  ultimately show ?thesis by (simp add: sim_rec_constraints_def)
qed

definition demo_fok_order :: sim_order where
  "demo_fok_order = (demo_sim_order 1)\<lparr>so_time_in_force := SimFok\<rparr>"

lemmas sim_eval = sim_exec_def sim_submit_def validate_order_def match_once_def match_record_def
  is_expired_def phase_allows_def sim_crosses_def touch_price_def touch_quantity_def
  sim_remaining_def sim_executable_def sim_reducible_def apply_executable_def
  contingency_effect_def apply_peer_effect_def bounded_ops_def in_range_def

lemma demo_fok_run:
  "sim_run bounded_ops [OpSubmit demo_fok_order True, OpMatch 1 demo_market 0] Map.empty
     = ([], False, [1 \<mapsto> \<lparr>sr_order = demo_fok_order, sr_state = SimCanceled, sr_filled_quantity = 0\<rparr>])"
  by (simp add: sim_eval demo_fok_order_def demo_sim_order_def demo_market_def)

theorem sim_fok_post_only_witness:
  "traded 1 (fst (sim_run bounded_ops [OpSubmit demo_fok_order True, OpMatch 1 demo_market 0] Map.empty))
     \<in> {0, 8}"
proof -
  have "\<forall>op\<in>set [OpSubmit demo_fok_order True, OpMatch 1 demo_market 0]. sim_op_on_scale 0 op"
    by (simp add: sim_op_on_scale_def demo_fok_order_def demo_sim_order_def demo_market_def
        market_on_scale_def representable_numeral)
  from sim_fok_post_only [OF lossless_bounded_ops [of 0] this demo_fok_run, of 1]
  show ?thesis unfolding demo_fok_run by (simp add: sim_record_def demo_fok_order_def demo_sim_order_def)
qed

text \<open>What a fill owes to the order, the market and the position it was made for.\<close>

definition sim_fill_ok :: "sim_order_record \<Rightarrow> market_snapshot \<Rightarrow> decimal \<Rightarrow> sim_fill \<Rightarrow> bool" where
  "sim_fill_ok r market pos f \<longleftrightarrow>
     (let ord = sr_order r; q = sf_quantity f; px = sf_price f in
      sim_live (sr_state r) \<and> \<not> is_expired ord market \<and> phase_allows ord (mk_phase market)
      \<and> \<not> so_post_only ord \<and> 0 < q \<and> q \<le> so_quantity ord - sr_filled_quantity r
      \<and> (\<forall>d. so_display_quantity ord = Some d \<longrightarrow> q \<le> d)
      \<and> (case so_side ord of
           SimBuy \<Rightarrow> px = mk_ask_price market \<and> q \<le> mk_ask_quantity market
             \<and> (\<forall>limit. so_kind ord = Limit \<and> so_limit_price ord = Some limit \<longrightarrow> px \<le> limit)
             \<and> (so_reduce_only ord \<longrightarrow> pos < 0 \<and> pos + q \<le> 0)
         | SimSell \<Rightarrow> px = mk_bid_price market \<and> q \<le> mk_bid_quantity market
             \<and> (\<forall>limit. so_kind ord = Limit \<and> so_limit_price ord = Some limit \<longrightarrow> limit \<le> px)
             \<and> (so_reduce_only ord \<longrightarrow> 0 < pos \<and> 0 \<le> pos - q)))"

lemma sim_fill_facts:
  assumes "lossless ar s" "sim_inv s eng" "market_on_scale s market" "representable s pos"
    and "eng k = Some r"
    and "match_once ar k market pos eng = (Ok out, eng')" and "out = MFilled f \<or> out = MPartiallyFilled f"
  shows "sim_fill_ok r market pos f \<and> sf_order_id f = k
    \<and> (out = MFilled f \<longleftrightarrow> sf_quantity f = so_quantity (sr_order r) - sr_filled_quantity r)
    \<and> filled_of k eng' = sr_filled_quantity r + sf_quantity f"
proof -
  obtain r' eff where m: "match_record ar k r market pos = Ok (out, r', eff)"
    using match_once_Some [OF assms(1-5)] assms(6) by (metis Pair_inject outcome.inject(1))
  have filled: "filled_of k eng' = sr_filled_quantity r + sf_quantity f" if "sf_order_id f = k"
    using match_once_filled [OF assms(1-4), of k k] assms(5-7) that by (auto simp: filled_of_def traded_def)
  show ?thesis
  proof (rule match_record_cases [OF assms(1) sim_invD [OF assms(2,5)] assms(3,4), of k])
    fix out1 r1 assume "match_record ar k r market pos = Ok (out1, r1, NoPeer)" "match_no_fill r out1 r1"
    then show ?thesis using m assms(7) by (auto simp: match_no_fill_def)
  next
    fix rem q r1 f1
    assume a: "rem = so_quantity (sr_order r) - sr_filled_quantity r"
      "q = sim_executable (sr_order r) market pos rem" "match_fillable r market pos rem q"
      "match_record ar k r market pos = Ok (if q = rem then MFilled f1 else MPartiallyFilled f1, r1,
         contingency_effect (sr_order r) (q = rem) q)" "q \<le> rem"
      and f1: "f1 = \<lparr>sf_order_id = k, sf_quantity = q, sf_price = touch_price (sr_order r) market\<rparr>"
    have ff: "f = f1" and full: "out = MFilled f \<longleftrightarrow> q = rem"
      using a(4) m assms(7) by (auto split: if_splits)
    note le = sim_executable_le [where ord = "sr_order r" and market = market and pos = pos and rem = rem,
        folded a(2)]
    have fs: "sf_order_id f = k" "sf_quantity f = q" "sf_price f = touch_price (sr_order r) market"
      by (simp_all add: ff f1)
    show ?thesis unfolding filled [OF fs(1)] unfolding full
      using a(1,3,5) le
      by (cases "so_side (sr_order r)")
        (auto simp: sim_fill_ok_def Let_def fs match_fillable_def touch_price_def touch_quantity_def sim_crosses_def sim_reducible_def
          split: if_splits)
  qed
qed

text \<open>
  A fill is only reported for a live, unexpired, tradable order that is not post-only; its
  price is the opposite touch and respects the limit; its quantity is positive and bounded by the
  remaining, the offered and the displayed quantity; a reduce-only fill brings the position
  towards zero without crossing it. It is reported as complete exactly when it is the whole
  remainder, and the record has grown by exactly the fill.
\<close>

theorem sim_fill_correct:
  assumes "lossless ar s" "sim_inv s eng" "market_on_scale s market" "representable s pos"
    and "eng k = Some r"
    and "match_once ar k market pos eng = (Ok out, eng')" and "out = MFilled f \<or> out = MPartiallyFilled f"
  shows "sim_fill_ok r market pos f \<and> sf_order_id f = k
    \<and> (out = MFilled f \<longleftrightarrow> sf_quantity f = so_quantity (sr_order r) - sr_filled_quantity r)
    \<and> filled_of k eng' = sr_filled_quantity r + sf_quantity f"
  by (rule sim_fill_facts [OF assms])

theorem sim_fill_correct_witness:
  "filled_of 1 (snd (match_once bounded_ops 1 demo_market 0
     [1 \<mapsto> \<lparr>sr_order = demo_sim_order 1, sr_state = SimResting, sr_filled_quantity = 0\<rparr>])) = 0 + 5"
proof -
  let ?r = "\<lparr>sr_order = demo_sim_order 1, sr_state = SimResting, sr_filled_quantity = 0\<rparr>"
  let ?f = "\<lparr>sf_order_id = 1, sf_quantity = 5, sf_price = 100\<rparr>"
  let ?e = "[1 \<mapsto> ?r\<lparr>sr_state := SimPartiallyFilled, sr_filled_quantity := 5\<rparr>]"
  have inv: "sim_inv 0 [1 \<mapsto> ?r]"
    by (simp add: sim_inv_def sim_rec_inv_def demo_sim_order_def representable_numeral)
  have mkt: "market_on_scale 0 demo_market"
    by (simp add: market_on_scale_def demo_market_def representable_numeral)
  have once: "match_once bounded_ops 1 demo_market 0 [1 \<mapsto> ?r] = (Ok (MPartiallyFilled ?f), ?e)"
    by (simp add: sim_eval demo_sim_order_def demo_market_def)
  show ?thesis
    using sim_fill_correct [OF lossless_bounded_ops [of 0] inv mkt _ _ once, of ?r ?f] once by simp
qed

text \<open>The specified effect of a fill by \<open>q\<close> on the linked peer.\<close>

definition peer_updated :: "contingency_kind \<Rightarrow> bool \<Rightarrow> decimal \<Rightarrow> sim_order_record \<Rightarrow> sim_order_record \<Rightarrow> bool" where
  "peer_updated knd fully q rp rp' \<longleftrightarrow>
     (case knd of
        KindOco \<Rightarrow> rp' = (if fully \<and> \<not> sim_terminal (sr_state rp) then rp\<lparr>sr_state := SimCanceled\<rparr> else rp)
      | KindOto \<Rightarrow> rp' = (if fully \<and> sr_state rp = SimDormant then rp\<lparr>sr_state := SimResting\<rparr> else rp)
      | KindOuo \<Rightarrow>
          if sim_terminal (sr_state rp) then rp' = rp
          else sr_filled_quantity rp' = sr_filled_quantity rp
            \<and> so_quantity (sr_order rp') = max (so_quantity (sr_order rp) - q) (sr_filled_quantity rp)
            \<and> sr_state rp' = (if so_quantity (sr_order rp) - q \<le> sr_filled_quantity rp
                              then SimCanceled else sr_state rp))"

definition fill_of :: "match_outcome \<Rightarrow> sim_fill option" where
  "fill_of out = (case out of MFilled f \<Rightarrow> Some f | MPartiallyFilled f \<Rightarrow> Some f | _ \<Rightarrow> None)"

lemma contingency_effect_updates:
  assumes "lossless ar s" "sim_inv s eng" "0 < q" "representable s q"
    and "so_contingency ord = Some link" "eng (cg_peer_order_id link) = Some rp"
  shows "\<exists>rp'. snd (apply_peer_effect ar (contingency_effect ord b q) eng) (cg_peer_order_id link) = Some rp'
     \<and> peer_updated (cg_kind link) b q rp rp'"
proof (cases "cg_kind link")
  case KindOco
  then show ?thesis using assms(5,6)
    by (simp add: contingency_effect_def apply_peer_effect_def sim_cancel_def peer_updated_def)
next
  case KindOto
  then show ?thesis using assms(5,6)
    by (simp add: contingency_effect_def apply_peer_effect_def peer_updated_def)
next
  case KindOuo
  show ?thesis
  proof (cases "sim_terminal (sr_state rp)")
    case True
    then show ?thesis using assms(5,6) KindOuo
      by (simp add: contingency_effect_def apply_peer_effect_def peer_updated_def)
  next
    case False
    obtain rp' where "resize_peer ar q rp = Ok rp'" "sim_rec_inv s rp'"
        "sr_filled_quantity rp' = sr_filled_quantity rp"
        "so_quantity (sr_order rp') = max (so_quantity (sr_order rp) - q) (sr_filled_quantity rp)"
        "sr_state rp' = (if so_quantity (sr_order rp) - q \<le> sr_filled_quantity rp then SimCanceled
           else sr_state rp)"
      by (rule resize_peer_exact [OF assms(1) sim_invD [OF assms(2,6)] False assms(3,4)])
    then show ?thesis using assms(5,6) KindOuo False
      by (simp add: contingency_effect_def apply_peer_effect_def peer_updated_def)
  qed
qed

lemma match_record_effect:
  assumes "lossless ar s" "sim_rec_inv s r" "market_on_scale s market" "representable s pos"
    and "match_record ar k r market pos = Ok (out, r', eff)"
  shows "fill_of out = None \<and> eff = NoPeer \<or> (\<exists>f. fill_of out = Some f \<and> 0 < sf_quantity f
    \<and> representable s (sf_quantity f)
    \<and> eff = contingency_effect (sr_order r) (out = MFilled f) (sf_quantity f))"
proof (rule match_record_cases [OF assms(1-4), of k])
  fix out1 r1 assume "match_record ar k r market pos = Ok (out1, r1, NoPeer)" "match_no_fill r out1 r1"
  then show ?thesis using assms(5) by (auto simp: match_no_fill_def fill_of_def split: match_outcome.split)
next
  fix rem q r1 f
  assume "match_fillable r market pos rem q" "representable s q"
    "f = \<lparr>sf_order_id = k, sf_quantity = q, sf_price = touch_price (sr_order r) market\<rparr>"
    "match_record ar k r market pos = Ok (if q = rem then MFilled f else MPartiallyFilled f, r1,
        contingency_effect (sr_order r) (q = rem) q)"
  then show ?thesis using assms(5) by (auto simp: match_fillable_def fill_of_def)
qed

text \<open>
  A matching step changes no order but the matched one and its linked peer, and of the peer
  exactly what the contingency says: a complete OCO fill cancels a peer that is not terminal, a
  complete OTO fill activates a dormant peer, and every OUO fill shrinks the peer's quantity by
  the fill, down to what the peer has already filled, cancelling it when nothing remains. Without
  a fill the peer is untouched.
\<close>

theorem sim_contingency_effects:
  assumes "lossless ar s" "sim_inv s eng" "market_on_scale s market" "representable s pos"
    and "eng k = Some r" and "match_once ar k market pos eng = (Ok out, eng')"
  shows "(\<forall>j. j \<noteq> k \<and> map_option cg_peer_order_id (so_contingency (sr_order r)) \<noteq> Some j \<longrightarrow> eng' j = eng j)
    \<and> (\<forall>link rp. so_contingency (sr_order r) = Some link \<and> cg_peer_order_id link \<noteq> k
         \<and> eng (cg_peer_order_id link) = Some rp \<longrightarrow>
         (\<exists>rp'. eng' (cg_peer_order_id link) = Some rp'
            \<and> (case fill_of out of
                 Some f \<Rightarrow> peer_updated (cg_kind link) (out = MFilled f) (sf_quantity f) rp rp'
               | None \<Rightarrow> rp' = rp)))"
proof -
  obtain r' eff where m: "match_record ar k r market pos = Ok (out, r', eff)" "sim_rec_inv s r'"
    and ap: "\<exists>x. apply_peer_effect ar eff (eng(k \<mapsto> r')) = (Ok (), x) \<and> match_once ar k market pos eng = (Ok out, x)"
  proof -
    obtain out' r1 eff' where m: "match_record ar k r market pos = Ok (out', r1, eff')"
        "sim_rec_inv s r1" "effect_on_scale s eff'"
      using match_record_step [OF assms(1) sim_invD [OF assms(2,5)] assms(3,4)] .
    obtain x where "apply_peer_effect ar eff' (eng(k \<mapsto> r1)) = (Ok (), x)"
      using apply_peer_effect_ok [OF assms(1) sim_inv_update [OF assms(2) m(2)] m(3)] by blast
    with m assms(5,6) that show thesis by (auto simp: match_once_def)
  qed
  let ?e1 = "eng(k \<mapsto> r')"
  have inv: "sim_inv s ?e1" by (rule sim_inv_update [OF assms(2) m(2)])
  have eng': "eng' = snd (apply_peer_effect ar eff ?e1)" using ap assms(6) by auto
  note eff = match_record_effect [OF assms(1) sim_invD [OF assms(2,5)] assms(3,4) m(1)]
  have frame: "eng' j = eng j"
    if "j \<noteq> k" "map_option cg_peer_order_id (so_contingency (sr_order r)) \<noteq> Some j" for j
  proof -
    have "peer_of eff \<noteq> Some j" using eff that(2) contingency_effect_peer by fastforce
    then show ?thesis using that(1) by (simp add: eng' apply_peer_effect_frame)
  qed
  have "\<exists>rp'. eng' (cg_peer_order_id link) = Some rp'
      \<and> (case fill_of out of
           Some f \<Rightarrow> peer_updated (cg_kind link) (out = MFilled f) (sf_quantity f) rp rp' | None \<Rightarrow> rp' = rp)"
    if "so_contingency (sr_order r) = Some link" "cg_peer_order_id link \<noteq> k"
      "eng (cg_peer_order_id link) = Some rp" for link rp
    using eff contingency_effect_updates [OF assms(1) inv _ _ that(1), of _ rp] that(2,3)
    by (auto simp: eng' apply_peer_effect_def [of _ NoPeer])
  with frame show ?thesis by blast
qed

definition demo_oco_engine :: matching_engine where
  "demo_oco_engine =
     [1 \<mapsto> \<lparr>sr_order = (demo_sim_order 1)\<lparr>so_quantity := 4, so_contingency :=
              Some \<lparr>cg_group_id = 9, cg_kind = KindOco, cg_peer_order_id = 2\<rparr>\<rparr>,
            sr_state = SimResting, sr_filled_quantity = 0\<rparr>,
      2 \<mapsto> \<lparr>sr_order = demo_sim_order 2, sr_state = SimResting, sr_filled_quantity = 0\<rparr>]"

theorem sim_contingency_effects_witness:
  "map_option sr_state (snd (match_once bounded_ops 1 demo_market 0 demo_oco_engine) 2) = Some SimCanceled"
proof -
  let ?f = "\<lparr>sf_order_id = 1, sf_quantity = 4, sf_price = 100\<rparr>"
  have inv: "sim_inv 0 demo_oco_engine"
    by (simp add: sim_inv_def sim_rec_inv_def demo_oco_engine_def demo_sim_order_def representable_numeral)
  have mkt: "market_on_scale 0 demo_market"
    by (simp add: market_on_scale_def demo_market_def representable_numeral)
  obtain eng' where once: "match_once bounded_ops 1 demo_market 0 demo_oco_engine = (Ok (MFilled ?f), eng')"
    by (simp add: sim_eval sim_cancel_def demo_oco_engine_def demo_sim_order_def demo_market_def)
  have r: "demo_oco_engine 1 = Some \<lparr>sr_order = (demo_sim_order 1)\<lparr>so_quantity := 4, so_contingency :=
      Some \<lparr>cg_group_id = 9, cg_kind = KindOco, cg_peer_order_id = 2\<rparr>\<rparr>,
      sr_state = SimResting, sr_filled_quantity = 0\<rparr>"
    by (simp add: demo_oco_engine_def)
  from sim_contingency_effects [OF lossless_bounded_ops [of 0] inv mkt _ r once] once
  show ?thesis
    by (auto simp: demo_oco_engine_def fill_of_def peer_updated_def)
qed

end
