(* ===== verification/SimBridge.thy ===== *)
theory SimBridge
  imports Sim
begin

text \<open>
  The JSONL bridge of \<open>rust/crates/pg-sim/src/main.rs\<close>. JSON values and their decoding belong
  to \<open>serde_json\<close>: a \<open>codec\<close> of functions stands for them. Responses keep decimals as numbers;
  the code prints them with \<open>to_string\<close>.
\<close>

section \<open>Data\<close>

record wire_top =
  wt_bid_price :: decimal
  wt_bid_quantity :: decimal
  wt_ask_price :: decimal
  wt_ask_quantity :: decimal

record 'v wire_request =
  wr_request_id :: u64
  wr_order :: 'v
  wr_top :: wire_top
  wr_position :: decimal
  wr_now_ns :: u64
  wr_session :: string

text \<open>The JSON functions the bridge calls; the error is the text of the decoder's error.\<close>

record 'v codec =
  json_from_str :: "string \<Rightarrow> string + 'v"
  json_get :: "string \<Rightarrow> 'v \<Rightarrow> 'v option"
  decode_order :: "'v \<Rightarrow> string + sim_order"
  decode_request :: "'v \<Rightarrow> string + 'v wire_request"
  display_uuid :: "uuid \<Rightarrow> string"

record sim_result =
  rs_outcome :: string
  rs_state :: sim_order_state
  rs_order_id :: uuid
  rs_filled_quantity :: decimal
  rs_remaining_quantity :: decimal
  rs_fill :: "(decimal \<times> decimal) option"
  rs_reason :: "string option"

datatype 'v response = Response (rp_request_id: "'v option") (rp_result: "string + sim_result")

definition max_line_bytes :: nat where
  "max_line_bytes = 1048576"

section \<open>Operations\<close>

definition default_session :: string where
  "default_session = ''CONTINUOUS''"

definition parse_phase :: "string \<Rightarrow> string + market_phase" where
  "parse_phase v =
     (if v = ''PRE_OPEN'' then Inr PreOpen
      else if v = ''OPENING'' then Inr Opening
      else if v = ''CONTINUOUS'' then Inr Continuous
      else if v = ''CLOSING'' then Inr Closing
      else if v = ''CLOSED'' then Inr Closed
      else Inl ''invalid session: expected PRE_OPEN, OPENING, CONTINUOUS, CLOSING or CLOSED'')"

fun sim_error_message :: "(uuid \<Rightarrow> string) \<Rightarrow> sim_error \<Rightarrow> string" where
  "sim_error_message disp InvalidQuantity = ''quantity must be positive''"
| "sim_error_message disp InvalidLimitPrice = ''limit orders require a positive limit price''"
| "sim_error_message disp MissingExpiry = ''GTD orders require expire_at_ns''"
| "sim_error_message disp InvalidDisplayQuantity =
     ''iceberg display quantity must be positive and no greater than total quantity''"
| "sim_error_message disp (DuplicateOrder k) = ''order '' @ disp k @ '' already exists''"
| "sim_error_message disp (UnknownOrder k) = ''order '' @ disp k @ '' was not found''"

fun map_sim_err :: "(uuid \<Rightarrow> string) \<Rightarrow> (sim_error, 'a) outcome \<Rightarrow> (string, 'a) outcome" where
  "map_sim_err disp (Ok x) = Ok x"
| "map_sim_err disp (Err e) = Err (sim_error_message disp e)"
| "map_sim_err disp Panic = Panic"

fun of_sum :: "'e + 'a \<Rightarrow> ('e, 'a) outcome" where
  "of_sum (Inl e) = Err e"
| "of_sum (Inr x) = Ok x"

definition valid_top :: "wire_top \<Rightarrow> bool" where
  "valid_top tp \<longleftrightarrow>
     \<not> (wt_bid_price tp \<le> 0 \<or> wt_ask_price tp \<le> 0 \<or> wt_ask_price tp < wt_bid_price tp
        \<or> wt_bid_quantity tp < 0 \<or> wt_ask_quantity tp < 0)"

definition snapshot_of :: "'v wire_request \<Rightarrow> market_phase \<Rightarrow> market_snapshot" where
  "snapshot_of req phase =
     \<lparr>mk_bid_price = wt_bid_price (wr_top req), mk_bid_quantity = wt_bid_quantity (wr_top req),
      mk_ask_price = wt_ask_price (wr_top req), mk_ask_quantity = wt_ask_quantity (wr_top req),
      mk_phase = phase, mk_now_ns = wr_now_ns req\<rparr>"

fun outcome_fields :: "match_outcome \<Rightarrow> string \<times> (decimal \<times> decimal) option \<times> string option" where
  "outcome_fields (MFilled f) = (''Filled'', Some (sf_quantity f, sf_price f), None)"
| "outcome_fields (MPartiallyFilled f) = (''PartiallyFilled'', Some (sf_quantity f, sf_price f), None)"
| "outcome_fields MResting = (''Resting'', None, None)"
| "outcome_fields MCanceled = (''Canceled'', None, None)"
| "outcome_fields (MRejected reason) = (''Rejected'', None, Some reason)"
| "outcome_fields MDormant = (''Dormant'', None, None)"

definition simulate :: "'v codec \<Rightarrow> dec_ops \<Rightarrow> 'v wire_request \<Rightarrow> (string, sim_result) outcome" where
  "simulate cd ar req =
     (let base = (case json_get cd ''base'' (wr_order req) of Some b \<Rightarrow> b | None \<Rightarrow> wr_order req) in
      and_then (case decode_order cd base of
                  Inl e \<Rightarrow> Err (''invalid order: '' @ e) | Inr ord \<Rightarrow> Ok ord) (\<lambda>ord.
      and_then (of_sum (parse_phase (wr_session req))) (\<lambda>phase.
      if \<not> valid_top (wr_top req) then
        Err ''invalid top of book: require positive noncrossed prices and nonnegative sizes''
      else
        (case sim_submit ord True Map.empty of
           (submitted, eng0) \<Rightarrow>
             and_then (map_sim_err (display_uuid cd) submitted) (\<lambda>_.
             (case match_once ar (so_order_id ord) (snapshot_of req phase) (wr_position req) eng0 of
                (matched, eng1) \<Rightarrow>
                  and_then (map_sim_err (display_uuid cd) matched) (\<lambda>out.
                  and_then (ok_or (sim_record (so_order_id ord) eng1)
                              ''simulation order record unavailable'') (\<lambda>r.
                  (case outcome_fields out of
                     (name, fill, reason) \<Rightarrow>
                       and_then (map_sim_err (display_uuid cd) (sim_remaining ar r)) (\<lambda>left.
                       Ok \<lparr>rs_outcome = name, rs_state = sr_state r, rs_order_id = so_order_id ord,
                           rs_filled_quantity = sr_filled_quantity r,
                           rs_remaining_quantity = left, rs_fill = fill, rs_reason = reason\<rparr>))))))))))"

text \<open>A panic ends the worker; it is no response.\<close>

definition handle_line :: "'v codec \<Rightarrow> dec_ops \<Rightarrow> string \<Rightarrow> (unit, 'v response) outcome" where
  "handle_line cd ar line =
     (case json_from_str cd line of
        Inl e \<Rightarrow> Ok (Response None (Inl (''invalid JSON: '' @ e)))
      | Inr parsed \<Rightarrow>
          (case decode_request cd parsed of
             Inl e \<Rightarrow> Ok (Response (json_get cd ''request_id'' parsed) (Inl (''invalid request: '' @ e)))
           | Inr req \<Rightarrow>
               (case simulate cd ar req of
                  Ok res \<Rightarrow> Ok (Response (json_get cd ''request_id'' parsed) (Inr res))
                | Err e \<Rightarrow> Ok (Response (json_get cd ''request_id'' parsed) (Inl e))
                | Panic \<Rightarrow> Panic)))"

text \<open>The main loop over the input lines; reading and writing always succeed here.\<close>

fun bridge_main :: "'v codec \<Rightarrow> dec_ops \<Rightarrow> string list \<Rightarrow> (unit, 'v response list) outcome" where
  "bridge_main cd ar [] = Ok []"
| "bridge_main cd ar (line # rest) =
     and_then (if max_line_bytes < length line
               then Ok (Response None (Inl ''request exceeds 1 MiB limit''))
               else handle_line cd ar line) (\<lambda>response.
     and_then (bridge_main cd ar rest) (\<lambda>responses. Ok (response # responses)))"

section \<open>Lemmas\<close>

definition request_on_scale :: "'v codec \<Rightarrow> nat \<Rightarrow> 'v wire_request \<Rightarrow> bool" where
  "request_on_scale cd s req \<longleftrightarrow>
     representable s (wr_position req)
     \<and> representable s (wt_bid_quantity (wr_top req)) \<and> representable s (wt_ask_quantity (wr_top req))
     \<and> (\<forall>v ord. decode_order cd v = Inr ord \<longrightarrow> sim_op_on_scale s (OpSubmit ord True))"

lemma snapshot_on_scale: "request_on_scale cd s req \<Longrightarrow> market_on_scale s (snapshot_of req phase)"
  by (simp add: request_on_scale_def market_on_scale_def snapshot_of_def)

text \<open>An isolated order: submitted into an empty engine and matched once.\<close>

lemma simulate_inner:
  assumes "lossless ar s" "sim_op_on_scale s (OpSubmit ord True)" "market_on_scale s market"
    and "representable s pos" "sim_submit ord True Map.empty = (Ok (), eng0)"
  obtains out eng1 r where "match_once ar (so_order_id ord) market pos eng0 = (Ok out, eng1)"
    "sim_record (so_order_id ord) eng1 = Some r" "sim_inv s eng1" "sim_inv s eng0"
    "eng0 (so_order_id ord) = Some \<lparr>sr_order = ord, sr_state = SimResting, sr_filled_quantity = 0\<rparr>"
    "sim_remaining ar r = Ok (so_quantity (sr_order r) - sr_filled_quantity r)"
proof -
  have inv0: "sim_inv s eng0"
    using sim_submit_inv [OF sim_empty(1) assms(2)] assms(5) by simp
  have e0: "eng0 (so_order_id ord) = Some \<lparr>sr_order = ord, sr_state = SimResting, sr_filled_quantity = 0\<rparr>"
    using assms(5) by (cases rule: sim_submit_cases [of ord Map.empty True]) auto
  obtain out r' eff eng1 where m: "match_record ar (so_order_id ord)
        \<lparr>sr_order = ord, sr_state = SimResting, sr_filled_quantity = 0\<rparr> market pos = Ok (out, r', eff)"
      "apply_peer_effect ar eff (eng0(so_order_id ord \<mapsto> r')) = (Ok (), eng1)"
      "match_once ar (so_order_id ord) market pos eng0 = (Ok out, eng1)" "sim_inv s eng1"
    by (rule match_once_Some [OF assms(1) inv0 assms(3,4) e0])
  have "eng1 (so_order_id ord) \<noteq> None"
    using arg_cong [OF m(2), of snd]
    by (auto simp: apply_peer_effect_def sim_cancel_def split: peer_effect.splits option.splits outcome.splits if_splits)
  then obtain r where r: "eng1 (so_order_id ord) = Some r" by blast
  from that [OF m(3) _ m(4) inv0 e0] r sim_remaining_exact [OF assms(1) sim_invD [OF m(4) r]]
  show thesis by (simp add: sim_record_def)
qed

definition order_of :: "'v codec \<Rightarrow> 'v wire_request \<Rightarrow> string + sim_order" where
  "order_of cd req =
     decode_order cd (case json_get cd ''base'' (wr_order req) of Some b \<Rightarrow> b | None \<Rightarrow> wr_order req)"

definition fill_within_book :: "'v wire_request \<Rightarrow> sim_order \<Rightarrow> decimal \<times> decimal \<Rightarrow> bool" where
  "fill_within_book req ord fill \<longleftrightarrow>
     0 < fst fill \<and> fst fill \<le> so_quantity ord
     \<and> (case so_side ord of
          SimBuy \<Rightarrow> snd fill = wt_ask_price (wr_top req) \<and> fst fill \<le> wt_ask_quantity (wr_top req)
        | SimSell \<Rightarrow> snd fill = wt_bid_price (wr_top req) \<and> fst fill \<le> wt_bid_quantity (wr_top req))"

lemma outcome_fields_fill:
  "outcome_fields out = (name, fill, reason) \<Longrightarrow>
     fill = map_option (\<lambda>f. (sf_quantity f, sf_price f)) (fill_of out)"
  by (cases out) (auto simp: fill_of_def)

lemma fill_of_Some: "fill_of out = Some f \<longleftrightarrow> out = MFilled f \<or> out = MPartiallyFilled f"
  by (simp add: fill_of_def split: match_outcome.split)

lemmas simulate_unfold = simulate_def [unfolded Let_def, folded order_of_def]

definition request_accepted :: "'v codec \<Rightarrow> 'v wire_request \<Rightarrow> sim_order \<Rightarrow> market_phase \<Rightarrow> bool" where
  "request_accepted cd req ord phase \<longleftrightarrow>
     order_of cd req = Inr ord \<and> parse_phase (wr_session req) = Inr phase
     \<and> valid_top (wr_top req) \<and> fst (sim_submit ord True Map.empty) = Ok ()"

lemma simulate_refused:
  assumes "\<nexists>ord phase. request_accepted cd req ord phase"
  shows "\<exists>e. simulate cd ar req = Err e"
proof (cases "order_of cd req")
  case (Inr ord)
  show ?thesis
    by (cases "parse_phase (wr_session req)"; cases rule: sim_submit_cases [of ord Map.empty True])
      (use assms Inr in \<open>auto simp: simulate_unfold request_accepted_def\<close>)
qed (simp add: simulate_unfold)

definition result_ok :: "'v wire_request \<Rightarrow> sim_order \<Rightarrow> sim_result \<Rightarrow> bool" where
  "result_ok req ord res \<longleftrightarrow>
     rs_order_id res = so_order_id ord \<and> 0 \<le> rs_remaining_quantity res
     \<and> (case rs_fill res of None \<Rightarrow> rs_filled_quantity res = 0
        | Some fill \<Rightarrow> fill_within_book req ord fill \<and> rs_filled_quantity res = fst fill)"

lemma simulate_accepted:
  assumes "lossless ar s" "request_on_scale cd s req" "request_accepted cd req ord phase"
  shows "\<exists>res. simulate cd ar req = Ok res \<and> result_ok req ord res"
proof -
  have o1: "order_of cd req = Inr ord" "parse_phase (wr_session req) = Inr phase"
      "valid_top (wr_top req)" "fst (sim_submit ord True Map.empty) = Ok ()"
    using assms(3) by (simp_all add: request_accepted_def)
  from o1(4) obtain eng0 where sub: "sim_submit ord True Map.empty = (Ok (), eng0)"
    by (metis prod.collapse)
  have sc: "sim_op_on_scale s (OpSubmit ord True)" "representable s (wr_position req)"
    using assms(2) o1(1) by (auto simp: request_on_scale_def order_of_def)
  let ?mk = "snapshot_of req phase" and ?k = "so_order_id ord"
  obtain out eng1 r where once: "match_once ar ?k ?mk (wr_position req) eng0 = (Ok out, eng1)"
      and r: "sim_record ?k eng1 = Some r" "sim_inv s eng1" "sim_inv s eng0"
      and e0: "eng0 ?k = Some \<lparr>sr_order = ord, sr_state = SimResting, sr_filled_quantity = 0\<rparr>"
      and rem: "sim_remaining ar r = Ok (so_quantity (sr_order r) - sr_filled_quantity r)"
    by (rule simulate_inner [OF assms(1) sc(1) snapshot_on_scale [OF assms(2)] sc(2) sub])
  obtain name fill reason where fields: "outcome_fields out = (name, fill, reason)"
    by (cases "outcome_fields out")
  let ?res = "\<lparr>rs_outcome = name, rs_state = sr_state r, rs_order_id = ?k,
    rs_filled_quantity = sr_filled_quantity r,
    rs_remaining_quantity = so_quantity (sr_order r) - sr_filled_quantity r,
    rs_fill = fill, rs_reason = reason\<rparr>"
  have ok1: "simulate cd ar req = Ok ?res"
    using o1 sub once r rem fields by (simp add: simulate_unfold)
  have "sim_rec_inv s r" using r sim_invD by (simp add: sim_record_def)
  then have "0 \<le> rs_remaining_quantity ?res" by (simp add: sim_rec_inv_def)
  moreover have "case rs_fill ?res of None \<Rightarrow> rs_filled_quantity ?res = 0
     | Some fill \<Rightarrow> fill_within_book req ord fill \<and> rs_filled_quantity ?res = fst fill"
  proof (cases "fill_of out")
    case None
    then show ?thesis
      using outcome_fields_fill [OF fields] once r(1) e0
        match_once_filled [OF assms(1) r(3) snapshot_on_scale [OF assms(2)] sc(2), of ?k ?k phase]
      by (auto simp: filled_of_def sim_record_def fill_of_def split: match_outcome.splits)
  next
    case (Some f)
    note fc = sim_fill_facts [OF assms(1) r(3) snapshot_on_scale [OF assms(2)] sc(2) e0 once Some [unfolded fill_of_Some]]
    then show ?thesis using outcome_fields_fill [OF fields] Some r(1)
      by (cases "so_side ord")
        (simp_all add: sim_fill_ok_def Let_def fill_within_book_def snapshot_of_def filled_of_def sim_record_def)
  qed
  ultimately show ?thesis using ok1 by (auto simp: result_ok_def)
qed

text \<open>A successful response answers the request its own line carries.\<close>

definition response_ok :: "'v codec \<Rightarrow> string \<Rightarrow> 'v response \<Rightarrow> bool" where
  "response_ok cd line response \<longleftrightarrow>
     (\<forall>res. rp_result response = Inr res \<longrightarrow>
        (\<exists>v req ord. json_from_str cd line = Inr v \<and> decode_request cd v = Inr req
           \<and> valid_top (wr_top req) \<and> order_of cd req = Inr ord \<and> result_ok req ord res))"

lemma response_ok_error [simp]: "response_ok cd line (Response rid (Inl e))"
  by (simp add: response_ok_def)

definition answers :: "'v codec \<Rightarrow> dec_ops \<Rightarrow> string \<Rightarrow> 'v response \<Rightarrow> bool" where
  "answers cd ar line response \<longleftrightarrow>
     (if max_line_bytes < length line
      then response = Response None (Inl ''request exceeds 1 MiB limit'')
      else handle_line cd ar line = Ok response) \<and> response_ok cd line response"

lemma handle_line_ok:
  assumes "lossless ar s"
    and "\<And>v req. json_from_str cd line = Inr v \<Longrightarrow> decode_request cd v = Inr req \<Longrightarrow> request_on_scale cd s req"
  shows "\<exists>response. handle_line cd ar line = Ok response \<and> response_ok cd line response"
proof (cases "\<exists>v req. json_from_str cd line = Inr v \<and> decode_request cd v = Inr req")
  case False
  then show ?thesis by (auto simp: handle_line_def split: sum.split)
next
  case True
  then obtain v req where vr: "json_from_str cd line = Inr v" "decode_request cd v = Inr req" by blast
  show ?thesis
  proof (cases "\<exists>ord phase. request_accepted cd req ord phase")
    case True
    then obtain ord phase where acc: "request_accepted cd req ord phase" by blast
    with simulate_accepted [OF assms(1) assms(2) [OF vr] acc]
    obtain res where res: "simulate cd ar req = Ok res" "result_ok req ord res" by blast
    have "response_ok cd line (Response rid (Inr res))" for rid
      using vr acc res(2) unfolding response_ok_def request_accepted_def by auto
    then show ?thesis using vr res(1) by (simp add: handle_line_def)
  next
    case False
    with simulate_refused [of cd req ar] vr show ?thesis by (auto simp: handle_line_def)
  qed
qed

section \<open>Properties\<close>

text \<open>
  The worker answers every input line with exactly one response, in order, and never dies:
  each response is what \<open>handle_line\<close> gives for that line alone (or the size-limit error), and a
  successful response answers the line's own request, with a fill only for a valid book, at the
  opposite touch and within the offered and ordered quantity, and with the filled quantity equal
  to the fill.
\<close>

theorem bridge_answers_every_line:
  assumes "lossless ar s"
    and "\<And>line v req. line \<in> set lines \<Longrightarrow> json_from_str cd line = Inr v \<Longrightarrow>
           decode_request cd v = Inr req \<Longrightarrow> request_on_scale cd s req"
  shows "\<exists>rs. bridge_main cd ar lines = Ok rs
    \<and> list_all2 (answers cd ar) lines rs"
  using assms(2)
proof (induction lines)
  case (Cons line rest)
  have "\<exists>rs. bridge_main cd ar rest = Ok rs \<and> list_all2 (answers cd ar) rest rs"
    by (rule Cons.IH) (rule Cons.prems, auto)
  moreover have "\<exists>response. handle_line cd ar line = Ok response \<and> response_ok cd line response"
    by (rule handle_line_ok [OF assms(1)]) (rule Cons.prems, auto)
  ultimately show ?case by (cases "max_line_bytes < length line") (auto simp: answers_def [of _ _ line])
qed simp

text \<open>A worked instance: a codec that knows one request line.\<close>

definition demo_request :: "nat wire_request" where
  "demo_request = \<lparr>wr_request_id = 7, wr_order = 0,
     wr_top = \<lparr>wt_bid_price = 99, wt_bid_quantity = 4, wt_ask_price = 100, wt_ask_quantity = 3\<rparr>,
     wr_position = 0, wr_now_ns = 42, wr_session = default_session\<rparr>"

definition demo_codec :: "nat codec" where
  "demo_codec = \<lparr>json_from_str = (\<lambda>l. if l = ''req'' then Inr 1 else Inl ''expected value''),
     json_get = (\<lambda>k v. if k = ''request_id'' then Some 7 else None),
     decode_order = (\<lambda>v. Inr (demo_sim_order 1)), decode_request = (\<lambda>v. Inr demo_request),
     display_uuid = uuid_hex\<rparr>"

theorem bridge_answers_every_line_witness:
  "\<exists>rs. bridge_main demo_codec bounded_ops [''req'', ''not-json''] = Ok rs \<and> length rs = 2"
proof -
  have "request_on_scale demo_codec 0 demo_request"
    by (simp add: request_on_scale_def demo_codec_def demo_request_def sim_op_on_scale_def
        demo_sim_order_def representable_numeral)
  then have sc: "request_on_scale demo_codec 0 req" if "decode_request demo_codec v = Inr req" for v req
    using that by (simp add: demo_codec_def)
  have "lossless bounded_ops 0" by (rule lossless_bounded_ops) simp
  from bridge_answers_every_line [OF this, of "[''req'', ''not-json'']" demo_codec] sc
  obtain rs where rs: "bridge_main demo_codec bounded_ops [''req'', ''not-json''] = Ok rs"
      "length [''req'', ''not-json''] = length rs"
    by (blast dest: list_all2_lengthD)
  show ?thesis by (rule exI [of _ rs], rule conjI, rule rs(1)) (use rs(2) in simp)
qed

end
