(* ===== verification/Risk.thy ===== *)
theory Risk
  imports PgTypes
begin

text \<open>
  The pre-trade checks of \<open>rust/crates/pg-risk\<close>: the signal gate on IEEE doubles and the
  exposure gate on order intents.
\<close>

record risk_limits =
  rl_min_confidence :: f64
  rl_max_abs_signal_score :: f64
  rl_allow_new_exposure :: bool

definition default_risk_limits :: risk_limits where
  "default_risk_limits = \<lparr>rl_min_confidence = Finite (1 / 2), rl_max_abs_signal_score = Finite 1,
     rl_allow_new_exposure = False\<rparr>"

definition evaluate_signal :: "signal \<Rightarrow> u64 \<Rightarrow> risk_limits \<Rightarrow> risk_decision" where
  "evaluate_signal sg now_ns limits =
     (if is_expired_signal sg now_ns then Reject ''SIGNAL_EXPIRED'' ''signal TTL elapsed''
      else if \<not> in_closed (Finite 0) (Finite 1) (sg_confidence sg)
              \<or> f64_lt (sg_confidence sg) (rl_min_confidence limits)
        then Reject ''LOW_CONFIDENCE'' ''confidence below limit''
      else if f64_lt (rl_max_abs_signal_score limits) (f64_abs (sg_score sg))
        then Reject ''INVALID_SCORE'' ''score outside configured bound''
      else Allow)"

definition evaluate_order :: "order_intent \<Rightarrow> risk_limits \<Rightarrow> risk_decision" where
  "evaluate_order i limits =
     (if oi_quantity i \<le> 0 then Reject ''INVALID_QTY'' ''quantity must be positive''
      else if oi_effect i = Increase \<and> \<not> rl_allow_new_exposure limits
        then Reject ''NEW_EXPOSURE_DISABLED'' ''live/new exposure gate is closed''
      else Allow)"

lemma in_closed_finite:
  "in_closed (Finite a) (Finite b) x \<longleftrightarrow> (\<exists>c. x = Finite c \<and> a \<le> c \<and> c \<le> b)"
  by (cases x) (auto simp: in_closed_def)

lemma evaluate_order_Allow_iff:
  "evaluate_order i limits = Allow \<longleftrightarrow>
     0 < oi_quantity i \<and> (oi_effect i = Increase \<longrightarrow> rl_allow_new_exposure limits)"
  by (simp add: evaluate_order_def not_le)

section \<open>Properties\<close>

text \<open>
  With finite limits, a signal is allowed exactly when it has not expired, its confidence is a
  number between the configured minimum and one (and at least zero), and its score is not a
  number above the bound in absolute value. A NaN confidence and an infinite score are always
  rejected; a NaN score is not.
\<close>

theorem signal_gate_exact:
  assumes "rl_min_confidence limits = Finite c" "rl_max_abs_signal_score limits = Finite m"
  shows "evaluate_signal sg now_ns limits = Allow \<longleftrightarrow>
    now_ns < sg_expires_at_ns sg
    \<and> (\<exists>x. sg_confidence sg = Finite x \<and> 0 \<le> x \<and> c \<le> x \<and> x \<le> 1)
    \<and> (sg_score sg = NaN \<or> (\<exists>x. sg_score sg = Finite x \<and> \<bar>x\<bar> \<le> m))"
  using assms
  by (cases "sg_confidence sg"; cases "sg_score sg")
    (auto simp: evaluate_signal_def in_closed_finite is_expired_signal_def)

definition demo_signal :: signal where
  "demo_signal = \<lparr>sg_schema_version = ''1'', sg_signal_id = ''s'', sg_alpha_id = ''a'', sg_asset = ''HYPE'',
     sg_venue = Hyperliquid, sg_score = NaN, sg_confidence = Finite 1, sg_horizon_ms = 1,
     sg_created_at_ns = 1, sg_expires_at_ns = 9, sg_model_version = None, sg_feature_set = None,
     sg_metadata = ''{}''\<rparr>"

theorem signal_gate_exact_witness:
  "evaluate_signal demo_signal 5 default_risk_limits = Allow"
  using signal_gate_exact [of default_risk_limits "1 / 2" 1 demo_signal 5]
  by (simp add: default_risk_limits_def demo_signal_def)

text \<open>
  The default limits are fail-closed: they let no intent through that would increase exposure,
  while a positive reduce-only intent passes under any limits.
\<close>

theorem order_gate_fail_closed:
  "(evaluate_order i default_risk_limits = Allow \<longrightarrow> oi_effect i = ReduceOnly \<and> 0 < oi_quantity i)
   \<and> (oi_effect i = ReduceOnly \<longrightarrow> (evaluate_order i limits = Allow \<longleftrightarrow> 0 < oi_quantity i))"
  by (cases "oi_effect i") (auto simp: evaluate_order_Allow_iff default_risk_limits_def)

theorem order_gate_fail_closed_witness:
  "evaluate_order (demo_intent\<lparr>oi_effect := ReduceOnly\<rparr>) default_risk_limits = Allow"
  using order_gate_fail_closed [of "demo_intent\<lparr>oi_effect := ReduceOnly\<rparr>" default_risk_limits]
  by (simp add: demo_intent_def)

end
