(* ===== verification/Matching.thy ===== *)
theory Matching
  imports Sim
begin

text \<open>
  The level-one matching primitive and the composite coordinator of
  \<open>rust/crates/pg-execution/src/matching.rs\<close>. The coordinator's maps hold ordered sets of client
  ids; a set is a strictly sorted list, which is what iterating it yields.
\<close>

section \<open>Data\<close>

datatype session_phase =
  SessionPreOpen | OpenAuction | SessionContinuous | CloseAuction | SessionClosed

record top_of_book =
  tb_bid_price :: decimal
  tb_bid_quantity :: decimal
  tb_ask_price :: decimal
  tb_ask_quantity :: decimal

datatype match_disposition =
  DFilled | DPartiallyFilledAndCanceled | DCanceled | DResting | DRejected | DExpired | DWaitingForParent

record match_result =
  mr_disposition :: match_disposition
  mr_filled_quantity :: decimal
  mr_remaining_quantity :: decimal
  mr_fill_price :: "decimal option"
  mr_visible_quantity :: decimal
  mr_reason :: "string option"

section \<open>Matching\<close>

definition reject_result :: "advanced_order_intent \<Rightarrow> string \<Rightarrow> match_result" where
  "reject_result ord reason =
     \<lparr>mr_disposition = DRejected, mr_filled_quantity = 0,
      mr_remaining_quantity = oi_quantity (ao_base ord), mr_fill_price = None,
      mr_visible_quantity = 0, mr_reason = Some reason\<rparr>"

definition expire_result :: "advanced_order_intent \<Rightarrow> string \<Rightarrow> match_result" where
  "expire_result ord reason =
     \<lparr>mr_disposition = DExpired, mr_filled_quantity = 0,
      mr_remaining_quantity = oi_quantity (ao_base ord), mr_fill_price = None,
      mr_visible_quantity = visible_quantity ord, mr_reason = Some reason\<rparr>"

definition rest_result :: "advanced_order_intent \<Rightarrow> string option \<Rightarrow> match_result" where
  "rest_result ord reason =
     \<lparr>mr_disposition = DResting, mr_filled_quantity = 0,
      mr_remaining_quantity = oi_quantity (ao_base ord), mr_fill_price = None,
      mr_visible_quantity = visible_quantity ord, mr_reason = reason\<rparr>"

definition cancel_result :: "advanced_order_intent \<Rightarrow> string \<Rightarrow> match_result" where
  "cancel_result ord reason =
     \<lparr>mr_disposition = DCanceled, mr_filled_quantity = 0,
      mr_remaining_quantity = oi_quantity (ao_base ord), mr_fill_price = None,
      mr_visible_quantity = 0, mr_reason = Some reason\<rparr>"

definition crosses :: "advanced_order_intent \<Rightarrow> top_of_book \<Rightarrow> bool" where
  "crosses ord tp =
     (case (oi_side (ao_base ord), oi_limit_price (ao_base ord)) of
        (_, None) \<Rightarrow> True
      | (Buy, Some limit) \<Rightarrow> tb_ask_price tp \<le> limit
      | (Sell, Some limit) \<Rightarrow> limit \<le> tb_bid_price tp)"

definition available :: "advanced_order_intent \<Rightarrow> top_of_book \<Rightarrow> decimal \<times> decimal" where
  "available ord tp =
     (case oi_side (ao_base ord) of
        Buy \<Rightarrow> (max (tb_ask_quantity tp) 0, tb_ask_price tp)
      | Sell \<Rightarrow> (max (tb_bid_quantity tp) 0, tb_bid_price tp))"

definition reduce_only_capacity :: "advanced_order_intent \<Rightarrow> decimal \<Rightarrow> decimal" where
  "reduce_only_capacity ord position =
     (if oi_effect (ao_base ord) \<noteq> ReduceOnly then oi_quantity (ao_base ord)
      else case oi_side (ao_base ord) of
             Buy \<Rightarrow> if position < 0 then min (- position) (oi_quantity (ao_base ord)) else 0
           | Sell \<Rightarrow> if 0 < position then min position (oi_quantity (ao_base ord)) else 0)"

text \<open>The early returns on time in force and session; \<open>None\<close> continues.\<close>

definition session_gate ::
  "advanced_order_intent \<Rightarrow> u64 \<Rightarrow> session_phase \<Rightarrow> match_result option" where
  "session_gate ord now_ns session =
     (case ao_time_in_force ord of
        Gtd expires_at_ns \<Rightarrow>
          if expires_at_ns \<le> now_ns then Some (expire_result ord ''GTD deadline reached'') else None
      | Day \<Rightarrow>
          if session = SessionClosed
          then Some (expire_result ord ''DAY order expired at session close'') else None
      | AtTheOpen \<Rightarrow>
          if session \<noteq> OpenAuction then Some (rest_result ord (Some ''waiting for open auction'')) else None
      | AtTheClose \<Rightarrow>
          if session \<noteq> CloseAuction then Some (rest_result ord (Some ''waiting for close auction'')) else None
      | _ \<Rightarrow> None)"

definition executable_quantity :: "advanced_order_intent \<Rightarrow> top_of_book \<Rightarrow> decimal \<Rightarrow> decimal" where
  "executable_quantity ord tp position =
     min (min (min (fst (available ord tp)) (reduce_only_capacity ord position)) (oi_quantity (ao_base ord)))
         (case oc_iceberg_display_quantity (ao_constraints ord) of
            Some d \<Rightarrow> d | None \<Rightarrow> oi_quantity (ao_base ord))"

definition match_order ::
  "dec_ops \<Rightarrow> advanced_order_intent \<Rightarrow> top_of_book \<Rightarrow> decimal \<Rightarrow> u64 \<Rightarrow> session_phase
     \<Rightarrow> (unit, match_result) outcome" where
  "match_order ar ord tp position now_ns session =
     (case validate ord of
        Err e \<Rightarrow> Ok (reject_result ord (advanced_error_message e))
      | Panic \<Rightarrow> Panic
      | Ok _ \<Rightarrow>
        (case session_gate ord now_ns session of
           Some res \<Rightarrow> Ok res
         | None \<Rightarrow>
           if oc_post_only (ao_constraints ord) \<and> crosses ord tp
             then Ok (reject_result ord ''post-only order would take liquidity'')
           else if oi_effect (ao_base ord) = ReduceOnly \<and> reduce_only_capacity ord position \<le> 0
             then Ok (reject_result ord ''reduce-only order would not reduce exposure'')
           else if \<not> crosses ord tp then
             (if ao_time_in_force ord = Ioc \<or> ao_time_in_force ord = Fok
              then Ok (cancel_result ord ''immediate order did not cross'')
              else Ok (rest_result ord None))
           else
             (let executable = executable_quantity ord tp position;
                  quantity = oi_quantity (ao_base ord)
              in if ao_time_in_force ord = Fok \<and> executable < quantity
                   then Ok (cancel_result ord ''FOK cannot fill entire quantity'')
                 else if executable \<le> 0 then Ok (reject_result ord ''no executable liquidity'')
                 else and_then (or_panic (checked_sub ar quantity executable)) (\<lambda>left.
                   let disposition = (if left = 0 then DFilled
                                      else if ao_time_in_force ord = Ioc then DPartiallyFilledAndCanceled
                                      else DResting)
                   in Ok \<lparr>mr_disposition = disposition, mr_filled_quantity = executable,
                          mr_remaining_quantity = left,
                          mr_fill_price = Some (snd (available ord tp)),
                          mr_visible_quantity =
                            (if disposition = DResting then min (visible_quantity ord) left else 0),
                          mr_reason = None\<rparr>))))"

section \<open>The composite coordinator\<close>

datatype composite_action =
  CancelPeerAct string | ResizePeerAct string decimal | ActivateChildAct string

record composite_coordinator =
  cc_groups :: "string \<rightharpoonup> string list"
  cc_instruction_by_client :: "string \<rightharpoonup> composite_instruction"
  cc_quantity_by_client :: "string \<rightharpoonup> decimal"
  cc_children_by_parent :: "string \<rightharpoonup> string list"

definition default_coordinator :: composite_coordinator where
  "default_coordinator = \<lparr>cc_groups = Map.empty, cc_instruction_by_client = Map.empty,
     cc_quantity_by_client = Map.empty, cc_children_by_parent = Map.empty\<rparr>"

text \<open>\<open>entry(key).or_default().insert(id)\<close> on a map of ordered sets.\<close>

definition insert_id :: "string \<Rightarrow> string list \<Rightarrow> string list" where
  "insert_id x xs = (if x \<in> set xs then xs else insort x xs)"

definition entry_insert :: "(string \<rightharpoonup> string list) \<Rightarrow> string \<Rightarrow> string \<Rightarrow> (string \<rightharpoonup> string list)" where
  "entry_insert m key x = m(key \<mapsto> insert_id x (case m key of Some xs \<Rightarrow> xs | None \<Rightarrow> []))"

definition coordinator_register ::
  "(uuid \<Rightarrow> string) \<Rightarrow> advanced_order_intent \<Rightarrow> composite_coordinator \<Rightarrow> composite_coordinator" where
  "coordinator_register simple ord c =
     (let client_id = client_order_id simple (ao_base ord);
          c1 = c\<lparr>cc_quantity_by_client :=
                    (cc_quantity_by_client c)(client_id \<mapsto> oi_quantity (ao_base ord)),
                  cc_instruction_by_client :=
                    (cc_instruction_by_client c)(client_id \<mapsto> ao_composite ord)\<rparr>
      in case ao_composite ord of
           Oco group_id \<Rightarrow> c1\<lparr>cc_groups := entry_insert (cc_groups c1) group_id client_id\<rparr>
         | Ouo group_id \<Rightarrow> c1\<lparr>cc_groups := entry_insert (cc_groups c1) group_id client_id\<rparr>
         | Oto parent \<Rightarrow>
             c1\<lparr>cc_children_by_parent := entry_insert (cc_children_by_parent c1) parent client_id\<rparr>
         | Single \<Rightarrow> c1)"

definition members :: "(string \<rightharpoonup> string list) \<Rightarrow> string \<Rightarrow> string list" where
  "members m key = (case m key of Some xs \<Rightarrow> xs | None \<Rightarrow> [])"

fun resize_actions ::
  "dec_ops \<Rightarrow> (string \<rightharpoonup> decimal) \<Rightarrow> decimal \<Rightarrow> string list \<Rightarrow> (unit, composite_action list) outcome" where
  "resize_actions ar quantities cumulative_filled [] = Ok []"
| "resize_actions ar quantities cumulative_filled (peer # peers) =
     (case quantities peer of
        None \<Rightarrow> resize_actions ar quantities cumulative_filled peers
      | Some original \<Rightarrow>
          and_then (or_panic (checked_sub ar original cumulative_filled)) (\<lambda>d.
          and_then (resize_actions ar quantities cumulative_filled peers) (\<lambda>rest.
          Ok (ResizePeerAct peer (max d 0) # rest))))"

definition coordinator_on_fill ::
  "dec_ops \<Rightarrow> string \<Rightarrow> decimal \<Rightarrow> composite_coordinator \<Rightarrow> (unit, composite_action list) outcome" where
  "coordinator_on_fill ar client cumulative_filled c =
     (case cc_instruction_by_client c client of
        None \<Rightarrow> Ok []
      | Some instruction \<Rightarrow>
          (let completed = (case cc_quantity_by_client c client of
                 Some quantity \<Rightarrow> quantity \<le> cumulative_filled | None \<Rightarrow> False);
               activated = (if completed then
                 map ActivateChildAct (members (cc_children_by_parent c) client) else [])
           in case instruction of
                Oco group_id \<Rightarrow>
                  Ok (map CancelPeerAct (filter (\<lambda>peer. peer \<noteq> client) (members (cc_groups c) group_id)))
              | Ouo group_id \<Rightarrow>
                  resize_actions ar (cc_quantity_by_client c) cumulative_filled
                    (filter (\<lambda>peer. peer \<noteq> client) (members (cc_groups c) group_id))
              | Single \<Rightarrow> Ok activated
              | Oto _ \<Rightarrow> Ok activated))"

section \<open>Lemmas\<close>

definition order_on_scale :: "nat \<Rightarrow> advanced_order_intent \<Rightarrow> bool" where
  "order_on_scale s ord \<longleftrightarrow>
     representable s (oi_quantity (ao_base ord))
     \<and> (\<forall>d. oc_iceberg_display_quantity (ao_constraints ord) = Some d \<longrightarrow> representable s d)"

definition book_on_scale :: "nat \<Rightarrow> top_of_book \<Rightarrow> bool" where
  "book_on_scale s tp \<longleftrightarrow> representable s (tb_bid_quantity tp) \<and> representable s (tb_ask_quantity tp)"

lemma validate_not_Panic [simp]: "validate ord \<noteq> Panic"
  unfolding validate_def by (simp split: option.split composite_instruction.split)

lemma executable_quantity_le:
  "executable_quantity ord tp position \<le> fst (available ord tp)"
  "executable_quantity ord tp position \<le> reduce_only_capacity ord position"
  "executable_quantity ord tp position \<le> oi_quantity (ao_base ord)"
  "oc_iceberg_display_quantity (ao_constraints ord) = Some d \<Longrightarrow> executable_quantity ord tp position \<le> d"
  by (simp_all add: executable_quantity_def min_le_iff_disj)

lemma executable_quantity_representable:
  assumes "order_on_scale s ord" "book_on_scale s tp" "representable s position"
  shows "representable s (executable_quantity ord tp position)"
proof -
  have "representable s (fst (available ord tp))" "representable s (reduce_only_capacity ord position)"
    "representable s (case oc_iceberg_display_quantity (ao_constraints ord) of
            Some d \<Rightarrow> d | None \<Rightarrow> oi_quantity (ao_base ord))"
    using assms
    by (auto simp: order_on_scale_def book_on_scale_def available_def reduce_only_capacity_def
        intro!: representable_max representable_min split: side.split option.split)
  then show ?thesis using assms(1) unfolding executable_quantity_def order_on_scale_def
    by (intro representable_min) auto
qed

text \<open>When \<open>match_order\<close> reports a fill, and of which quantity.\<close>

definition match_executes :: "advanced_order_intent \<Rightarrow> top_of_book \<Rightarrow> decimal \<Rightarrow> u64 \<Rightarrow> session_phase \<Rightarrow> bool" where
  "match_executes ord tp position now_ns session \<longleftrightarrow>
     validate ord = Ok () \<and> session_gate ord now_ns session = None
     \<and> \<not> oc_post_only (ao_constraints ord) \<and> crosses ord tp
     \<and> (oi_effect (ao_base ord) = ReduceOnly \<longrightarrow> 0 < reduce_only_capacity ord position)
     \<and> 0 < executable_quantity ord tp position
     \<and> (ao_time_in_force ord = Fok \<longrightarrow> executable_quantity ord tp position = oi_quantity (ao_base ord))"

definition fill_disposition :: "advanced_order_intent \<Rightarrow> decimal \<Rightarrow> match_disposition" where
  "fill_disposition ord q =
     (if q = oi_quantity (ao_base ord) then DFilled
      else if ao_time_in_force ord = Ioc then DPartiallyFilledAndCanceled else DResting)"

definition unfilled :: "advanced_order_intent \<Rightarrow> match_result \<Rightarrow> bool" where
  "unfilled ord res \<longleftrightarrow>
     mr_disposition res \<in> {DCanceled, DResting, DRejected, DExpired} \<and> mr_filled_quantity res = 0
     \<and> mr_remaining_quantity res = oi_quantity (ao_base ord) \<and> mr_fill_price res = None
     \<and> (mr_visible_quantity res = 0 \<or> mr_visible_quantity res = visible_quantity ord)"

lemmas no_fill_results = reject_result_def expire_result_def rest_result_def cancel_result_def

lemma unfilled_results [simp]:
  "unfilled ord (reject_result ord why)" "unfilled ord (expire_result ord why)"
  "unfilled ord (rest_result ord reason)" "unfilled ord (cancel_result ord why)"
  by (simp_all add: unfilled_def no_fill_results)

lemma session_gate_unfilled: "session_gate ord now_ns session = Some res \<Longrightarrow> unfilled ord res"
  by (auto simp: session_gate_def split: time_in_force.splits if_splits)

lemma match_order_no_fill:
  assumes "\<not> match_executes ord tp position now_ns session"
  shows "\<exists>res. match_order ar ord tp position now_ns session = Ok res \<and> unfilled ord res"
proof (cases "validate ord = Ok () \<and> session_gate ord now_ns session = None")
  case True
  then show ?thesis using assms executable_quantity_le(3) [of ord tp position]
    by (auto simp: match_order_def match_executes_def Let_def)
next
  case False
  then show ?thesis
    by (cases "validate ord"; cases "session_gate ord now_ns session")
      (auto simp: match_order_def dest: session_gate_unfilled)
qed

lemma match_order_fill:
  assumes "lossless ar s" "order_on_scale s ord" "book_on_scale s tp" "representable s position"
    and "match_executes ord tp position now_ns session"
  defines "q \<equiv> executable_quantity ord tp position"
  shows "match_order ar ord tp position now_ns session =
    Ok \<lparr>mr_disposition = fill_disposition ord q, mr_filled_quantity = q,
        mr_remaining_quantity = oi_quantity (ao_base ord) - q,
        mr_fill_price = Some (snd (available ord tp)),
        mr_visible_quantity = (if fill_disposition ord q = DResting
          then min (visible_quantity ord) (oi_quantity (ao_base ord) - q) else 0),
        mr_reason = None\<rparr>"
proof -
  have q: "0 < q" "representable s q" "q \<le> oi_quantity (ao_base ord)"
    using assms(5) executable_quantity_representable [OF assms(2-4)] executable_quantity_le(3)
    by (simp_all add: q_def match_executes_def)
  have "checked_sub ar (oi_quantity (ao_base ord)) q = Some (oi_quantity (ao_base ord) - q)"
    using lossless_sub_nonneg [OF assms(1), of "oi_quantity (ao_base ord)" q] assms(2) q
    by (simp add: order_on_scale_def)
  moreover have "\<not> (oi_effect (ao_base ord) = ReduceOnly \<and> reduce_only_capacity ord position \<le> 0)"
    "\<not> (ao_time_in_force ord = Fok \<and> q < oi_quantity (ao_base ord))" "\<not> q \<le> 0"
    using assms(5) q(1) by (auto simp: match_executes_def q_def [symmetric])
  moreover have "validate ord = Ok ()" "session_gate ord now_ns session = None"
    "\<not> oc_post_only (ao_constraints ord)" "crosses ord tp"
    using assms(5) by (simp_all add: match_executes_def)
  ultimately show ?thesis
    by (simp add: match_order_def q_def [symmetric] fill_disposition_def Let_def del: de_Morgan_conj)
qed

section \<open>Properties\<close>

text \<open>
  C4. \<open>match_order\<close> never panics on orders, books and positions at one scale, and every result
  accounts for the order: filled and remaining add up to the quantity, a price is given exactly
  when something was filled, a fill is bounded by the book, the displayed slice and the limit,
  the order is \<open>Filled\<close> exactly when nothing remains, fill-or-kill fills all or nothing,
  post-only fills nothing, and a reduce-only fill never flips the position.
\<close>

theorem match_order_sound:
  assumes "lossless ar s" "order_on_scale s ord" "book_on_scale s tp" "representable s position"
  shows "\<exists>res. match_order ar ord tp position now_ns session = Ok res
    \<and> mr_filled_quantity res + mr_remaining_quantity res = oi_quantity (ao_base ord)
    \<and> 0 \<le> mr_filled_quantity res \<and> (mr_fill_price res \<noteq> None \<longleftrightarrow> 0 < mr_filled_quantity res)
    \<and> (mr_disposition res = DFilled \<longleftrightarrow> 0 < mr_filled_quantity res \<and> mr_remaining_quantity res = 0)
    \<and> mr_filled_quantity res \<le> fst (available ord tp)
    \<and> (\<forall>d. oc_iceberg_display_quantity (ao_constraints ord) = Some d \<and> 0 < mr_filled_quantity res
           \<longrightarrow> mr_filled_quantity res \<le> d)
    \<and> (\<forall>px limit. mr_fill_price res = Some px \<and> oi_limit_price (ao_base ord) = Some limit \<longrightarrow>
         (case oi_side (ao_base ord) of Buy \<Rightarrow> px \<le> limit | Sell \<Rightarrow> limit \<le> px))
    \<and> (ao_time_in_force ord = Fok \<longrightarrow> mr_filled_quantity res \<in> {0, oi_quantity (ao_base ord)})
    \<and> (oc_post_only (ao_constraints ord) \<longrightarrow> mr_filled_quantity res = 0)
    \<and> (oi_effect (ao_base ord) = ReduceOnly \<and> 0 < mr_filled_quantity res \<longrightarrow>
         (case oi_side (ao_base ord) of
            Buy \<Rightarrow> position < 0 \<and> position + mr_filled_quantity res \<le> 0
          | Sell \<Rightarrow> 0 < position \<and> 0 \<le> position - mr_filled_quantity res))"
proof (cases "match_executes ord tp position now_ns session")
  case False
  have "0 \<le> fst (available ord tp)" by (simp add: available_def split: side.split)
  with match_order_no_fill [OF False, of ar] show ?thesis by (auto simp: unfilled_def)
next
  case True
  note le = executable_quantity_le [where ord = ord and tp = tp and position = position]
  have "reduce_only_capacity ord position \<le> (case oi_side (ao_base ord) of Buy \<Rightarrow> - position | Sell \<Rightarrow> position)
      \<and> (case oi_side (ao_base ord) of Buy \<Rightarrow> position < 0 | Sell \<Rightarrow> 0 < position)"
    if "oi_effect (ao_base ord) = ReduceOnly"
    using True that by (auto simp: match_executes_def reduce_only_capacity_def split: side.splits if_splits)
  then show ?thesis using True le
    by (cases "oi_side (ao_base ord)")
      (auto simp: match_order_fill [OF assms True] match_executes_def fill_disposition_def available_def
        crosses_def)
qed

definition demo_advanced :: advanced_order_intent where
  "demo_advanced = \<lparr>ao_base = demo_intent\<lparr>oi_limit_price := Some 101\<rparr>, ao_time_in_force = Fok,
     ao_constraints = \<lparr>oc_post_only = False, oc_reduce_only = False, oc_iceberg_display_quantity = None\<rparr>,
     ao_composite = Single\<rparr>"

definition demo_book :: top_of_book where
  "demo_book = \<lparr>tb_bid_price = 99, tb_bid_quantity = 5, tb_ask_price = 100, tb_ask_quantity = 12\<rparr>"

lemma demo_on_scale: "order_on_scale 0 demo_advanced" "book_on_scale 0 demo_book"
  by (simp_all add: order_on_scale_def book_on_scale_def demo_advanced_def demo_book_def demo_intent_def
      representable_numeral)

theorem match_order_sound_witness:
  "\<exists>res. match_order bounded_ops demo_advanced demo_book 0 5 SessionContinuous = Ok res
     \<and> mr_filled_quantity res \<in> {0, 10}"
proof -
  have ll: "lossless bounded_ops 0" by (rule lossless_bounded_ops) simp
  have "ao_time_in_force demo_advanced = Fok" "oi_quantity (ao_base demo_advanced) = 10"
    by (simp_all add: demo_advanced_def demo_intent_def)
  with match_order_sound [OF ll demo_on_scale representable_zero, of 5 SessionContinuous]
  show ?thesis by metis
qed

section \<open>The two matching engines\<close>

text \<open>The order, book and session of \<open>match_order\<close> in the vocabulary of \<open>pg-sim\<close>.\<close>

fun sim_tif_of :: "time_in_force \<Rightarrow> sim_tif" where
  "sim_tif_of Gtc = SimGtc"
| "sim_tif_of Ioc = SimIoc"
| "sim_tif_of Fok = SimFok"
| "sim_tif_of (Gtd t) = SimGtd"
| "sim_tif_of Day = SimDay"
| "sim_tif_of AtTheOpen = SimAtTheOpen"
| "sim_tif_of AtTheClose = SimAtTheClose"

fun sim_phase_of :: "session_phase \<Rightarrow> market_phase" where
  "sim_phase_of SessionPreOpen = PreOpen"
| "sim_phase_of OpenAuction = Opening"
| "sim_phase_of SessionContinuous = Continuous"
| "sim_phase_of CloseAuction = Closing"
| "sim_phase_of SessionClosed = Closed"

definition sim_order_of :: "uuid \<Rightarrow> advanced_order_intent \<Rightarrow> sim_order" where
  "sim_order_of k ord =
     \<lparr>so_order_id = k,
      so_side = (case oi_side (ao_base ord) of Buy \<Rightarrow> SimBuy | Sell \<Rightarrow> SimSell),
      so_kind = (case oi_limit_price (ao_base ord) of None \<Rightarrow> Market | Some _ \<Rightarrow> Limit),
      so_quantity = oi_quantity (ao_base ord), so_limit_price = oi_limit_price (ao_base ord),
      so_time_in_force = sim_tif_of (ao_time_in_force ord),
      so_expire_at_ns = (case ao_time_in_force ord of Gtd t \<Rightarrow> Some t | _ \<Rightarrow> None),
      so_post_only = oc_post_only (ao_constraints ord),
      so_reduce_only = oc_reduce_only (ao_constraints ord),
      so_display_quantity = oc_iceberg_display_quantity (ao_constraints ord),
      so_contingency = None\<rparr>"

definition sim_market_of :: "top_of_book \<Rightarrow> u64 \<Rightarrow> session_phase \<Rightarrow> market_snapshot" where
  "sim_market_of tp now_ns session =
     \<lparr>mk_bid_price = tb_bid_price tp, mk_bid_quantity = tb_bid_quantity tp,
      mk_ask_price = tb_ask_price tp, mk_ask_quantity = tb_ask_quantity tp,
      mk_phase = sim_phase_of session, mk_now_ns = now_ns\<rparr>"

definition fresh_record :: "uuid \<Rightarrow> advanced_order_intent \<Rightarrow> sim_order_record" where
  "fresh_record k ord = \<lparr>sr_order = sim_order_of k ord, sr_state = SimResting, sr_filled_quantity = 0\<rparr>"

lemma sim_order_of_simps [simp]:
  "so_post_only (sim_order_of k ord) = oc_post_only (ao_constraints ord)"
  "so_reduce_only (sim_order_of k ord) = oc_reduce_only (ao_constraints ord)"
  "so_time_in_force (sim_order_of k ord) = sim_tif_of (ao_time_in_force ord)"
  "so_quantity (sim_order_of k ord) = oi_quantity (ao_base ord)"
  "so_display_quantity (sim_order_of k ord) = oc_iceberg_display_quantity (ao_constraints ord)"
  "mk_phase (sim_market_of tp now session) = sim_phase_of session"
  "sr_order (fresh_record k ord) = sim_order_of k ord" "sr_state (fresh_record k ord) = SimResting"
  "sr_filled_quantity (fresh_record k ord) = 0"
  by (simp_all add: sim_order_of_def sim_market_of_def fresh_record_def)

lemma sim_tif_of_iff [simp]:
  "sim_tif_of t = SimFok \<longleftrightarrow> t = Fok" "sim_tif_of t = SimIoc \<longleftrightarrow> t = Ioc"
  by (cases t; simp)+

lemma crosses_eq: "sim_crosses (sim_order_of k ord) (sim_market_of tp now session) = crosses ord tp"
  by (auto simp: sim_crosses_def crosses_def sim_order_of_def sim_market_of_def touch_price_def
      split: side.split option.split)

lemma gate_eq:
  assumes "session \<notin> {SessionPreOpen, SessionClosed}"
  shows "session_gate ord now session = None \<longleftrightarrow>
     \<not> is_expired (sim_order_of k ord) (sim_market_of tp now session)
     \<and> phase_allows (sim_order_of k ord) (sim_phase_of session)"
  using assms
  by (cases session; cases "ao_time_in_force ord")
    (auto simp: session_gate_def is_expired_def phase_allows_def sim_order_of_def sim_market_of_def)

lemma capacity_eq:
  assumes "oc_reduce_only (ao_constraints ord) \<longleftrightarrow> oi_effect (ao_base ord) = ReduceOnly"
  shows "reduce_only_capacity ord position =
    min (sim_reducible (sim_order_of k ord) position (oi_quantity (ao_base ord)))
        (if oi_effect (ao_base ord) = ReduceOnly \<and> sim_reducible (sim_order_of k ord) position (oi_quantity (ao_base ord)) = 0
         then 0 else oi_quantity (ao_base ord))"
  using assms by (auto simp: reduce_only_capacity_def sim_reducible_def sim_order_of_def split: side.split)

lemma executable_eq:
  fixes Q D A R :: rat
  assumes "0 < Q" "0 < D" "D \<le> Q" and x: "x = min (min (min Q A) (min D Q)) R"
    and y: "y = min (min (min (max A 0) (min R Q)) Q) D"
  shows "(0 < x \<longleftrightarrow> 0 < y) \<and> (0 < y \<longrightarrow> x = y)"
  using assms by (auto simp: min_def max_def)

lemma fillable_eq:
  assumes v: "validate ord = Ok ()" and ses: "session \<notin> {SessionPreOpen, SessionClosed}"
  shows "match_fillable (fresh_record k ord) (sim_market_of tp now session) position
      (oi_quantity (ao_base ord))
      (sim_executable (sim_order_of k ord) (sim_market_of tp now session) position (oi_quantity (ao_base ord)))
    \<longleftrightarrow> match_executes ord tp position now session"
    and "match_executes ord tp position now session \<Longrightarrow>
      sim_executable (sim_order_of k ord) (sim_market_of tp now session) position (oi_quantity (ao_base ord))
        = executable_quantity ord tp position"
proof -
  let ?Q = "oi_quantity (ao_base ord)" and ?so = "sim_order_of k ord" and ?m = "sim_market_of tp now session"
  let ?D = "case oc_iceberg_display_quantity (ao_constraints ord) of Some d \<Rightarrow> d | None \<Rightarrow> ?Q"
  let ?R = "sim_reducible ?so position ?Q" and ?x = "sim_executable ?so ?m position ?Q"
  let ?y = "executable_quantity ord tp position"
  have Q: "0 < ?Q" and D: "0 < ?D" "?D \<le> ?Q"
    and ro: "oc_reduce_only (ao_constraints ord) \<longleftrightarrow> oi_effect (ao_base ord) = ReduceOnly"
    using v by (auto simp: validate_Ok_iff split: option.split)
  have A: "fst (available ord tp) = max (touch_quantity ?so ?m) 0"
    by (simp add: available_def touch_quantity_def sim_order_of_def sim_market_of_def split: side.split)
  have x: "?x = min (min (min ?Q (touch_quantity ?so ?m)) (min ?D ?Q)) ?R"
    by (simp add: sim_executable_def Let_def sim_order_of_def)
  have R0: "0 \<le> ?R" using Q by (simp add: sim_reducible_def split: sim_side.split)
  have C: "reduce_only_capacity ord position = min ?R ?Q"
    using capacity_eq [OF ro, of position k] R0 Q by (auto simp: min_def split: if_splits)
  have y: "?y = min (min (min (max (touch_quantity ?so ?m) 0) (min ?R ?Q)) ?Q) ?D"
    by (simp add: executable_quantity_def A C)
  note eq = executable_eq [OF Q D x y]
  show "match_fillable (fresh_record k ord) ?m position ?Q ?x \<longleftrightarrow> match_executes ord tp position now session"
    using v gate_eq [OF ses, of ord now k tp] eq Q C R0
    by (auto simp: match_fillable_def match_executes_def crosses_eq sim_live_def ro)
  show "?x = ?y" if "match_executes ord tp position now session"
    using that eq by (simp add: match_executes_def)
qed

lemma match_order_gate:
  "session_gate ord now x = session_gate ord now y \<Longrightarrow> match_order ar ord tp position now x = match_order ar ord tp position now y"
  by (cases "validate ord") (simp_all add: match_order_def)

lemma fillable_no_session:
  "session \<in> {SessionPreOpen, SessionClosed} \<Longrightarrow>
    \<not> match_fillable (fresh_record k ord) (sim_market_of tp now session) position rem q"
  by (cases "ao_time_in_force ord")
    (auto simp: match_fillable_def phase_allows_def sim_order_of_def sim_market_of_def fresh_record_def)

text \<open>The fills of both engines, in a session in which the \<open>pg-sim\<close> engine trades and in one in which it does not.\<close>

lemma sim_match_shape:
  assumes "lossless ar s" "order_on_scale s ord" "book_on_scale s tp" "representable s position"
    and "validate ord = Ok ()"
  obtains (no_fill) out eng where
      "match_once ar k (sim_market_of tp now session) position [k \<mapsto> fresh_record k ord] = (Ok out, eng)"
      "fill_of out = None" "out \<notin> range MFilled" "filled_of k eng = 0"
      "\<not> match_fillable (fresh_record k ord) (sim_market_of tp now session) position (oi_quantity (ao_base ord))
         (sim_executable (sim_order_of k ord) (sim_market_of tp now session) position (oi_quantity (ao_base ord)))"
  | (fill) q eng where
      "q = sim_executable (sim_order_of k ord) (sim_market_of tp now session) position (oi_quantity (ao_base ord))"
      "match_once ar k (sim_market_of tp now session) position [k \<mapsto> fresh_record k ord]
        = (Ok ((if q = oi_quantity (ao_base ord) then MFilled else MPartiallyFilled)
            \<lparr>sf_order_id = k, sf_quantity = q, sf_price = snd (available ord tp)\<rparr>), eng)"
      "filled_of k eng = q"
      "match_fillable (fresh_record k ord) (sim_market_of tp now session) position (oi_quantity (ao_base ord)) q"
proof -
  let ?m = "sim_market_of tp now session" and ?r = "fresh_record k ord"
  have rec: "sim_rec_inv s ?r"
    using assms(2,5) by (simp add: sim_rec_inv_def order_on_scale_def validate_Ok_iff)
  have mkt: "market_on_scale s ?m"
    using assms(3) by (simp add: market_on_scale_def book_on_scale_def sim_market_of_def)
  have nocont: "contingency_effect (sim_order_of k ord) b q = NoPeer" for b q
    by (simp add: contingency_effect_def sim_order_of_def)
  have price: "touch_price (sim_order_of k ord) ?m = snd (available ord tp)"
    by (simp add: touch_price_def available_def sim_order_of_def sim_market_of_def split: side.split)
  show thesis
  proof (rule match_record_cases [OF assms(1) rec mkt assms(4), of k])
    fix out r' assume a: "match_record ar k ?r ?m position = Ok (out, r', NoPeer)" "match_no_fill ?r out r'"
      "\<not> match_fillable ?r ?m position (so_quantity (sr_order ?r) - sr_filled_quantity ?r)
         (sim_executable (sr_order ?r) ?m position (so_quantity (sr_order ?r) - sr_filled_quantity ?r))"
    have "fill_of out = None" "out \<notin> range MFilled" "sr_filled_quantity r' = 0"
      using a(2) by (auto simp: match_no_fill_def fill_of_def split: match_outcome.split)
    then show thesis using no_fill [of out "[k \<mapsto> r']"] a
      by (simp add: match_once_def apply_peer_effect_def filled_of_def)
  next
    fix rem q r' f
    assume a: "rem = so_quantity (sr_order ?r) - sr_filled_quantity ?r"
      "q = sim_executable (sr_order ?r) ?m position rem" "match_fillable ?r ?m position rem q"
      "f = \<lparr>sf_order_id = k, sf_quantity = q, sf_price = touch_price (sr_order ?r) ?m\<rparr>"
      "r' = ?r\<lparr>sr_filled_quantity := sr_filled_quantity ?r + q,
         sr_state := filled_state (sr_order ?r) q (sim_reducible (sr_order ?r) position rem) rem\<rparr>"
      "match_record ar k ?r ?m position = Ok (if q = rem then MFilled f else MPartiallyFilled f, r',
             contingency_effect (sr_order ?r) (q = rem) q)"
    then show thesis using fill [of q "[k \<mapsto> r']"]
      by (simp add: match_once_def apply_peer_effect_def filled_of_def nocont price)
  qed
qed

text \<open>
  C5. Where the two engines agree and where they do not. For an order that passes its validation, neither engine fails,
  and in an open session (an auction or continuous trading) \<open>match_order\<close> and a fresh record of the \<open>pg-sim\<close> engine fill
  in exactly the same cases, by the same quantity at the same price, and agree on whether the fill is complete. Before the
  open and after the close they disagree: the \<open>pg-sim\<close> engine never fills there, while \<open>match_order\<close> fills an order
  whose time in force is not tied to the session (\<open>Gtc\<close>, \<open>Ioc\<close>, \<open>Fok\<close>, a \<open>Gtd\<close> that is not due, and \<open>Day\<close> before the
  open) exactly as it would in continuous trading.
\<close>

theorem engines_agree_on_fills:
  assumes "lossless ar s" "order_on_scale s ord" "book_on_scale s tp" "representable s position"
    and "validate ord = Ok ()"
  shows "\<exists>res out eng. match_order ar ord tp position now_ns session = Ok res
    \<and> match_once ar k (sim_market_of tp now_ns session) position [k \<mapsto> fresh_record k ord] = (Ok out, eng)
    \<and> filled_of k eng = (case fill_of out of Some f \<Rightarrow> sf_quantity f | None \<Rightarrow> 0)
    \<and> (if session \<in> {SessionPreOpen, SessionClosed}
       then fill_of out = None \<and>
         (if ao_time_in_force ord \<in> {AtTheOpen, AtTheClose} \<or> ao_time_in_force ord = Day \<and> session = SessionClosed
          then mr_filled_quantity res = 0
          else match_order ar ord tp position now_ns SessionContinuous = Ok res)
       else fill_of out = map_option (\<lambda>px. \<lparr>sf_order_id = k, sf_quantity = mr_filled_quantity res, sf_price = px\<rparr>)
             (mr_fill_price res)
         \<and> filled_of k eng = mr_filled_quantity res
         \<and> (out \<in> range MFilled \<longleftrightarrow> mr_disposition res = DFilled))"
proof (cases "session \<in> {SessionPreOpen, SessionClosed}")
  case True
  obtain res where res: "match_order ar ord tp position now_ns session = Ok res"
      "\<not> match_executes ord tp position now_ns session \<Longrightarrow> mr_filled_quantity res = 0"
    using match_order_fill [OF assms(1-4), of now_ns session] match_order_no_fill [of ord tp position now_ns session ar]
    by (cases "match_executes ord tp position now_ns session") (auto simp: unfilled_def)
  have "session_gate ord now_ns session \<noteq> None"
    if "ao_time_in_force ord \<in> {AtTheOpen, AtTheClose} \<or> ao_time_in_force ord = Day \<and> session = SessionClosed"
    using that True by (auto simp: session_gate_def)
  then have tied: "mr_filled_quantity res = 0"
    if "ao_time_in_force ord \<in> {AtTheOpen, AtTheClose} \<or> ao_time_in_force ord = Day \<and> session = SessionClosed"
    using that res(2) by (auto simp: match_executes_def)
  have "session_gate ord now_ns session = session_gate ord now_ns SessionContinuous"
    if "\<not> (ao_time_in_force ord \<in> {AtTheOpen, AtTheClose} \<or> ao_time_in_force ord = Day \<and> session = SessionClosed)"
    using that by (auto simp: session_gate_def split: time_in_force.split)
  then have "match_order ar ord tp position now_ns session = match_order ar ord tp position now_ns SessionContinuous"
    if "\<not> (ao_time_in_force ord \<in> {AtTheOpen, AtTheClose} \<or> ao_time_in_force ord = Day \<and> session = SessionClosed)"
    using that by (intro match_order_gate)
  then have free: "match_order ar ord tp position now_ns SessionContinuous = Ok res"
    if "\<not> (ao_time_in_force ord \<in> {AtTheOpen, AtTheClose} \<or> ao_time_in_force ord = Day \<and> session = SessionClosed)"
    using that res(1) by simp
  show ?thesis using assms
  proof (cases rule: sim_match_shape [of ar s ord tp position k now_ns session])
    case (no_fill out eng)
    then show ?thesis using res(1) tied free True by (intro exI [of _ res] exI [of _ out] exI [of _ eng]) auto
  qed (use fillable_no_session [OF True] in blast)
next
  case False
  note eq = fillable_eq(1) [OF assms(5) False, of k tp now_ns position]
  show ?thesis using assms
  proof (cases rule: sim_match_shape [of ar s ord tp position k now_ns session])
    case (no_fill out eng)
    then have "\<not> match_executes ord tp position now_ns session" using eq by simp
    from match_order_no_fill [OF this, of ar] show ?thesis using no_fill False by (auto simp: unfilled_def)
  next
    case (fill q eng)
    have x: "match_executes ord tp position now_ns session" using fill(1,4) eq by simp
    have q: "q = executable_quantity ord tp position" using fill(1) fillable_eq(2) [OF assms(5) False x] by simp
    have "MPartiallyFilled g \<notin> range MFilled" for g by auto
    then show ?thesis using fill(2,3) False
      by (simp add: match_order_fill [OF assms(1-4) x] fill_of_def q [symmetric] fill_disposition_def)
  qed
qed

lemma demo_valid: "validate demo_advanced = Ok ()"
  by (simp add: validate_Ok_iff demo_advanced_def demo_intent_def)

theorem engines_agree_on_fills_witness:
  "(\<exists>res out eng. match_order bounded_ops demo_advanced demo_book 0 5 SessionContinuous = Ok res
     \<and> match_once bounded_ops 1 (sim_market_of demo_book 5 SessionContinuous) 0
         [1 \<mapsto> fresh_record 1 demo_advanced] = (Ok out, eng)
     \<and> filled_of 1 eng = mr_filled_quantity res)
   \<and> (\<exists>res out eng. match_order bounded_ops demo_advanced demo_book 0 5 SessionClosed = Ok res
     \<and> match_once bounded_ops 1 (sim_market_of demo_book 5 SessionClosed) 0
         [1 \<mapsto> fresh_record 1 demo_advanced] = (Ok out, eng)
     \<and> fill_of out = None \<and> mr_filled_quantity res = 10)"
proof -
  have ll: "lossless bounded_ops 0" by (rule lossless_bounded_ops) simp
  have "match_executes demo_advanced demo_book 0 5 SessionContinuous"
    using demo_valid
    by (simp add: match_executes_def session_gate_def crosses_def executable_quantity_def available_def
        reduce_only_capacity_def demo_advanced_def demo_book_def demo_intent_def)
  from match_order_fill [OF ll demo_on_scale representable_zero this]
  have full: "\<exists>res. match_order bounded_ops demo_advanced demo_book 0 5 SessionContinuous = Ok res \<and> mr_filled_quantity res = 10"
    by (simp add: executable_quantity_def available_def reduce_only_capacity_def demo_advanced_def demo_book_def demo_intent_def)
  have tif: "ao_time_in_force demo_advanced = Fok" by (simp add: demo_advanced_def)
  show ?thesis
    using engines_agree_on_fills [OF ll demo_on_scale representable_zero demo_valid, of 5 SessionContinuous 1]
      engines_agree_on_fills [OF ll demo_on_scale representable_zero demo_valid, of 5 SessionClosed 1] full
    by (force simp: tif)
qed

text \<open>
  The engines differ on an immediate order that does not cross: \<open>match_order\<close> cancels an
  \<open>Ioc\<close> or \<open>Fok\<close> order, while the \<open>pg-sim\<close> engine reports it as resting and keeps it live, so
  that a later matching step can still fill it.
\<close>

theorem immediate_order_rests_in_sim:
  assumes "validate ord = Ok ()" "ao_time_in_force ord \<in> {Ioc, Fok}" "\<not> crosses ord tp"
    and "oi_effect (ao_base ord) = Increase" "session \<notin> {SessionPreOpen, SessionClosed}"
  shows "(\<exists>res. match_order ar ord tp position now_ns session = Ok res \<and> mr_disposition res = DCanceled)
    \<and> match_once ar k (sim_market_of tp now_ns session) position [k \<mapsto> fresh_record k ord]
        = (Ok MResting, [k \<mapsto> fresh_record k ord])"
proof -
  let ?so = "sim_order_of k ord" and ?m = "sim_market_of tp now_ns session"
  have gate: "session_gate ord now_ns session = None" using assms(2) by (auto simp: session_gate_def)
  then have "\<not> is_expired ?so ?m" "phase_allows ?so (sim_phase_of session)"
    using gate_eq [OF assms(5), of ord now_ns k tp] by simp_all
  moreover have "\<not> sim_crosses ?so ?m" using assms(3) by (simp add: crosses_eq)
  ultimately have "match_record ar k (fresh_record k ord) ?m position = Ok (MResting, fresh_record k ord, NoPeer)"
    by (simp add: match_record_def)
  then show ?thesis using gate assms
    by (auto simp: match_order_def match_once_def apply_peer_effect_def cancel_result_def)
qed

theorem immediate_order_rests_in_sim_witness:
  "match_once bounded_ops 1 (sim_market_of (demo_book\<lparr>tb_ask_price := 200\<rparr>) 5 SessionContinuous) 0
     [1 \<mapsto> fresh_record 1 demo_advanced] = (Ok MResting, [1 \<mapsto> fresh_record 1 demo_advanced])"
proof -
  have "ao_time_in_force demo_advanced \<in> {Ioc, Fok}" "\<not> crosses demo_advanced (demo_book\<lparr>tb_ask_price := 200\<rparr>)"
    "oi_effect (ao_base demo_advanced) = Increase" "SessionContinuous \<notin> {SessionPreOpen, SessionClosed}"
    by (simp_all add: demo_advanced_def demo_book_def demo_intent_def crosses_def)
  from immediate_order_rests_in_sim [OF demo_valid this] show ?thesis by blast
qed

section \<open>Composite groups\<close>

definition register_all ::
  "(uuid \<Rightarrow> string) \<Rightarrow> advanced_order_intent list \<Rightarrow> composite_coordinator" where
  "register_all simple ords = fold (coordinator_register simple) ords default_coordinator"

definition group_of :: "composite_instruction \<Rightarrow> string option" where
  "group_of instr = (case instr of Oco g \<Rightarrow> Some g | Ouo g \<Rightarrow> Some g | _ \<Rightarrow> None)"

lemma set_insert_id [simp]: "set (insert_id x xs) = insert x (set xs)"
  by (simp add: insert_id_def set_insort_key insert_absorb)

lemma members_entry_insert:
  "set (members (entry_insert m key x) key') = (if key' = key then insert x (set (members m key)) else set (members m key'))"
  by (cases "m key"; cases "key' = key") (simp_all add: members_def entry_insert_def)

lemma coordinator_register_groups:
  "set (members (cc_groups (coordinator_register simple ord c)) g) =
     (if group_of (ao_composite ord) = Some g then {client_order_id simple (ao_base ord)} else {})
     \<union> set (members (cc_groups c) g)"
  by (auto simp: coordinator_register_def Let_def members_entry_insert group_of_def
      split: composite_instruction.split if_splits)

lemma coordinator_register_children:
  "set (members (cc_children_by_parent (coordinator_register simple ord c)) p) =
     (if ao_composite ord = Oto p then {client_order_id simple (ao_base ord)} else {})
     \<union> set (members (cc_children_by_parent c) p)"
  by (auto simp: coordinator_register_def Let_def members_entry_insert
      split: composite_instruction.split if_splits)

lemma coordinator_register_quantity:
  "cc_quantity_by_client (coordinator_register simple ord c) =
     (cc_quantity_by_client c)(client_order_id simple (ao_base ord) \<mapsto> oi_quantity (ao_base ord))"
  "cc_instruction_by_client (coordinator_register simple ord c) =
     (cc_instruction_by_client c)(client_order_id simple (ao_base ord) \<mapsto> ao_composite ord)"
  by (simp_all add: coordinator_register_def Let_def split: composite_instruction.split)

lemma fold_register_members:
  "set (members (cc_groups (fold (coordinator_register simple) ords c)) g) =
     {client_order_id simple (ao_base ord) | ord. ord \<in> set ords \<and> group_of (ao_composite ord) = Some g}
     \<union> set (members (cc_groups c) g)"
  "set (members (cc_children_by_parent (fold (coordinator_register simple) ords c)) p) =
     {client_order_id simple (ao_base ord) | ord. ord \<in> set ords \<and> ao_composite ord = Oto p}
     \<union> set (members (cc_children_by_parent c) p)"
  by (induction ords arbitrary: c)
    (auto simp: coordinator_register_groups coordinator_register_children)

lemma fold_register_lookup:
  assumes "distinct (map (client_order_id simple \<circ> ao_base) ords)" "ord \<in> set ords"
  shows "cc_quantity_by_client (fold (coordinator_register simple) ords c) (client_order_id simple (ao_base ord))
       = Some (oi_quantity (ao_base ord))
    \<and> cc_instruction_by_client (fold (coordinator_register simple) ords c) (client_order_id simple (ao_base ord))
       = Some (ao_composite ord)"
  using assms
proof (induction ords rule: rev_induct)
  case (snoc x xs)
  have "client_order_id simple (ao_base ord) \<noteq> client_order_id simple (ao_base x)" if "ord \<in> set xs"
    using snoc.prems(1) imageI [OF that, of "client_order_id simple \<circ> ao_base"] by auto
  then show ?case using snoc by (auto simp: coordinator_register_quantity)
qed simp

lemma resize_actions_exact:
  assumes "lossless ar s" "representable s filled" "0 \<le> filled"
    and "\<forall>peer\<in>set peers. \<exists>q. quantities peer = Some q \<and> 0 \<le> q \<and> representable s q"
  shows "resize_actions ar quantities filled peers =
    Ok (map (\<lambda>peer. ResizePeerAct peer (max (the (quantities peer) - filled) 0)) peers)"
  using assms(4)
proof (induction peers)
  case (Cons peer peers)
  then obtain q where q: "quantities peer = Some q" "0 \<le> q" "representable s q" by auto
  then show ?case using Cons lossless_sub_nonneg [OF assms(1) q(3) assms(2) q(2) assms(3)] by simp
qed simp

text \<open>
  After any sequence of registrations with distinct client ids, a fill of a registered order
  acts on exactly its composite partners and never on itself: an OCO fill cancels every other
  member of its group, an OUO fill resizes every other member to its registered quantity less
  the cumulative fill (at least zero), and a single or OTO order activates exactly its registered
  children, once its cumulative fill reaches its quantity.
\<close>

theorem coordinator_targets:
  assumes "lossless ar s" "distinct (map (client_order_id simple \<circ> ao_base) ords)" "ord \<in> set ords"
    and "0 \<le> filled" "representable s filled"
    and "\<forall>x\<in>set ords. 0 < oi_quantity (ao_base x) \<and> representable s (oi_quantity (ao_base x))"
  defines "cid \<equiv> \<lambda>x. client_order_id simple (ao_base x)"
  shows "\<exists>actions. coordinator_on_fill ar (cid ord) filled (register_all simple ords) = Ok actions
    \<and> set actions =
       (case ao_composite ord of
          Oco g \<Rightarrow> {CancelPeerAct (cid x) | x. x \<in> set ords \<and> group_of (ao_composite x) = Some g \<and> cid x \<noteq> cid ord}
        | Ouo g \<Rightarrow> {ResizePeerAct (cid x) (max (oi_quantity (ao_base x) - filled) 0) | x.
                     x \<in> set ords \<and> group_of (ao_composite x) = Some g \<and> cid x \<noteq> cid ord}
        | _ \<Rightarrow> {ActivateChildAct (cid x) | x. x \<in> set ords \<and> ao_composite x = Oto (cid ord)
                   \<and> oi_quantity (ao_base ord) \<le> filled})"
proof -
  let ?c = "register_all simple ords"
  have look: "cc_quantity_by_client ?c (cid x) = Some (oi_quantity (ao_base x))"
    "cc_instruction_by_client ?c (cid x) = Some (ao_composite x)" if "x \<in> set ords" for x
    using fold_register_lookup [OF assms(2) that] by (simp_all add: register_all_def cid_def)
  have grp: "set (members (cc_groups ?c) g) = cid ` {x \<in> set ords. group_of (ao_composite x) = Some g}" for g
    using fold_register_members(1) [of simple ords default_coordinator g]
    by (auto simp: register_all_def cid_def default_coordinator_def members_def)
  have kids: "set (members (cc_children_by_parent ?c) p) = cid ` {x \<in> set ords. ao_composite x = Oto p}" for p
    using fold_register_members(2) [of simple ords default_coordinator p]
    by (auto simp: register_all_def cid_def default_coordinator_def members_def)
  have qty: "\<forall>peer\<in>set (filter (\<lambda>p. p \<noteq> cid ord) (members (cc_groups ?c) g)).
      \<exists>q. cc_quantity_by_client ?c peer = Some q \<and> 0 \<le> q \<and> representable s q" for g
    using look(1) assms(6) by (auto simp: grp less_imp_le)
  note resize = resize_actions_exact [OF assms(1,5,4) qty]
  show ?thesis
  proof (cases "ao_composite ord")
    case (Ouo g)
    have "the (cc_quantity_by_client ?c (cid x)) = oi_quantity (ao_base x)" if "x \<in> set ords" for x
      using look(1) [OF that] by simp
    then show ?thesis using look [OF assms(3)] resize [of g] Ouo
      by (auto simp: coordinator_on_fill_def grp image_iff)
  qed (use look [OF assms(3)] in \<open>auto simp: coordinator_on_fill_def grp kids\<close>)
qed

definition demo_group :: "advanced_order_intent list" where
  "demo_group = [demo_advanced\<lparr>ao_composite := Oco ''g''\<rparr>,
     demo_advanced\<lparr>ao_base := demo_intent\<lparr>oi_intent_id := 8\<rparr>, ao_composite := Oco ''g''\<rparr>]"

theorem coordinator_targets_witness:
  "\<exists>actions. coordinator_on_fill bounded_ops (client_order_id uuid_hex demo_intent) 10
      (register_all uuid_hex demo_group) = Ok actions
    \<and> CancelPeerAct (client_order_id uuid_hex (demo_intent\<lparr>oi_intent_id := 8\<rparr>)) \<in> set actions"
proof -
  let ?x = "demo_advanced\<lparr>ao_composite := Oco ''g''\<rparr>"
  let ?y = "demo_advanced\<lparr>ao_base := demo_intent\<lparr>oi_intent_id := 8\<rparr>, ao_composite := Oco ''g''\<rparr>"
  have id: "client_order_id uuid_hex i = client_order_id uuid_hex j \<longleftrightarrow> oi_intent_id i = oi_intent_id j" for i j
    by (rule client_order_id_eq_iff [OF uuid_hex_ok])
  have ids: "oi_intent_id (ao_base ?x) = 7" "oi_intent_id (ao_base ?y) = 8"
    "oi_quantity (ao_base ?x) = 10" "oi_quantity (ao_base ?y) = 10"
    by (simp_all add: demo_advanced_def demo_intent_def)
  have d: "distinct (map (client_order_id uuid_hex \<circ> ao_base) demo_group)"
    using ids by (simp add: demo_group_def id)
  have q: "\<forall>x\<in>set demo_group. 0 < oi_quantity (ao_base x) \<and> representable 0 (oi_quantity (ao_base x))"
    using ids by (simp add: demo_group_def representable_numeral)
  have mem: "?x \<in> set demo_group" "?y \<in> set demo_group" by (simp_all add: demo_group_def)
  have ll: "lossless bounded_ops 0" and ten: "0 \<le> (10::rat)" "representable 0 10"
    by (simp_all add: lossless_bounded_ops representable_numeral)
  have same: "client_order_id uuid_hex (ao_base ?x) = client_order_id uuid_hex demo_intent"
    by (simp add: client_order_id_def demo_advanced_def)
  have cy: "CancelPeerAct (client_order_id uuid_hex (ao_base ?y)) \<in> {CancelPeerAct (client_order_id uuid_hex (ao_base x)) | x.
      x \<in> set demo_group \<and> group_of (ao_composite x) = Some ''g''
      \<and> client_order_id uuid_hex (ao_base x) \<noteq> client_order_id uuid_hex (ao_base ?x)}"
    using mem(2) ids by (auto simp: id group_of_def intro!: exI [of _ ?y])
  from coordinator_targets [OF ll d mem(1) ten q] cy same show ?thesis by auto
qed

end
