(* ===== verification/OrderedMap.thy ===== *)
theory OrderedMap
  imports Prelude
begin

text \<open>
  The standard library's \<open>BTreeMap\<close> where the program iterates it: an association list with
  strictly increasing keys. \<open>ordered_map\<close> is the interface the components use, and its lemmas
  cover the two ways the program builds such maps: collecting pairs, where the last one wins, and
  merging duplicates, where the first one is kept and a conflicting one is an error.
\<close>

section \<open>Operations\<close>

type_synonym ('k, 'v) omap = "('k \<times> 'v) list"

fun om_insert :: "'k::linorder \<Rightarrow> 'v \<Rightarrow> ('k, 'v) omap \<Rightarrow> ('k, 'v) omap" where
  "om_insert k v [] = [(k, v)]"
| "om_insert k v ((k', v') # m) =
     (if k < k' then (k, v) # (k', v') # m
      else if k = k' then (k, v) # m
      else (k', v') # om_insert k v m)"

definition om_get :: "'k \<Rightarrow> ('k, 'v) omap \<Rightarrow> 'v option" where
  "om_get k m = map_of m k"

definition om_remove :: "'k \<Rightarrow> ('k, 'v) omap \<Rightarrow> ('k, 'v) omap" where
  "om_remove k m = filter (\<lambda>e. fst e \<noteq> k) m"

definition om_keys :: "('k, 'v) omap \<Rightarrow> 'k list" where
  "om_keys m = map fst m"

definition om_values :: "('k, 'v) omap \<Rightarrow> 'v list" where
  "om_values m = map snd m"

definition om_sorted :: "('k::linorder, 'v) omap \<Rightarrow> bool" where
  "om_sorted m \<longleftrightarrow> sorted_wrt (<) (map fst m)"

definition om_collect :: "('k::linorder \<times> 'v) list \<Rightarrow> ('k, 'v) omap" where
  "om_collect kvs = fold (\<lambda>(k, v). om_insert k v) kvs []"

text \<open>Insert a pair unless the key is there; a kept value the new one conflicts with is an error.\<close>

fun merge_pairs ::
  "('k \<Rightarrow> 'm \<Rightarrow> 'v option) \<Rightarrow> ('k \<Rightarrow> 'v \<Rightarrow> 'm \<Rightarrow> 'm) \<Rightarrow> ('v \<Rightarrow> 'v \<Rightarrow> bool) \<Rightarrow> ('k \<times> 'v) list \<Rightarrow> 'm \<Rightarrow> 'k + 'm" where
  "merge_pairs get put agree [] m = Inr m"
| "merge_pairs get put agree ((k, v) # kvs) m =
     (case get k m of
        Some kept \<Rightarrow> if agree kept v then merge_pairs get put agree kvs m else Inl k
      | None \<Rightarrow> merge_pairs get put agree kvs (put k v m))"

section \<open>Interface\<close>

locale ordered_map =
  fixes nothing :: "'m"
    and get :: "'k \<Rightarrow> 'm \<Rightarrow> 'v option"
    and put :: "'k \<Rightarrow> 'v \<Rightarrow> 'm \<Rightarrow> 'm"
    and entries :: "'m \<Rightarrow> ('k \<times> 'v) list"
    and inv :: "'m \<Rightarrow> bool"
  assumes get_nothing: "get k nothing = None"
    and get_put: "inv m \<Longrightarrow> get k' (put k v m) = (if k' = k then Some v else get k' m)"
    and inv_nothing: "inv nothing"
    and inv_put: "inv m \<Longrightarrow> inv (put k v m)"
    and entries_get: "inv m \<Longrightarrow> (k, v) \<in> set (entries m) \<longleftrightarrow> get k m = Some v"
begin

lemma inv_fold: "inv m \<Longrightarrow> inv (fold (\<lambda>(k, v). put k v) kvs m)"
  by (induction kvs arbitrary: m) (auto simp: inv_put)

lemma get_fold:
  "inv m \<Longrightarrow> get k (fold (\<lambda>(k, v). put k v) kvs m) =
     (case map_of (rev kvs) k of Some v \<Rightarrow> Some v | None \<Rightarrow> get k m)"
  by (induction kvs rule: rev_induct) (auto simp: inv_fold get_put split: option.split)

text \<open>\<open>collect()\<close> from an iterator of pairs: the last pair of a key wins.\<close>

lemma get_collect: "get k (fold (\<lambda>(k, v). put k v) kvs nothing) = map_of (rev kvs) k"
  by (simp add: get_fold inv_nothing get_nothing split: option.split)

lemma collect_values:
  "(k, v) \<in> set (entries (fold (\<lambda>(k, v). put k v) kvs nothing)) \<longleftrightarrow> map_of (rev kvs) k = Some v"
  by (simp add: entries_get inv_fold inv_nothing get_collect)

text \<open>A successful merge keeps the first pair of every key, and every pair agrees with it.\<close>

lemma merge_ok:
  assumes "inv m" "merge_pairs get put agree kvs m = Inr m'"
  shows "inv m' \<and> (\<forall>k. get k m' = (case get k m of Some v \<Rightarrow> Some v | None \<Rightarrow> map_of kvs k))
    \<and> (\<forall>(k, v)\<in>set kvs. \<exists>kept. get k m' = Some kept \<and> (kept = v \<or> agree kept v))"
  using assms
proof (induction kvs arbitrary: m)
  case Nil
  then show ?case by (auto split: option.split)
next
  case (Cons kv kvs)
  obtain k v where kv: "kv = (k, v)" by (cases kv)
  show ?case
  proof (cases "get k m")
    case None
    with Cons.prems kv have "merge_pairs get put agree kvs (put k v m) = Inr m'" by simp
    with Cons.IH [OF inv_put [OF Cons.prems(1)]]
    have ih: "inv m'" "\<forall>j. get j m' = (case get j (put k v m) of Some v \<Rightarrow> Some v | None \<Rightarrow> map_of kvs j)"
      "\<forall>(k, v)\<in>set kvs. \<exists>kept. get k m' = Some kept \<and> (kept = v \<or> agree kept v)" by blast+
    moreover have "get k m' = Some v" using ih(2) by (simp add: get_put Cons.prems(1))
    ultimately show ?thesis using None kv by (auto simp: get_put Cons.prems(1) split: option.split)
  next
    case (Some kept)
    with Cons.prems kv have a: "agree kept v" "merge_pairs get put agree kvs m = Inr m'" by (auto split: if_splits)
    with Cons.IH [OF Cons.prems(1)] have ih: "inv m'"
      "\<forall>j. get j m' = (case get j m of Some v \<Rightarrow> Some v | None \<Rightarrow> map_of kvs j)"
      "\<forall>(k, v)\<in>set kvs. \<exists>kept. get k m' = Some kept \<and> (kept = v \<or> agree kept v)" by blast+
    moreover have "get k m' = Some kept" using ih(2) Some by simp
    ultimately show ?thesis using Some kv a(1) by (auto split: option.split)
  qed
qed

end

section \<open>The implementation\<close>

lemma set_om_insert: "fst ` set (om_insert k v m) = insert k (fst ` set m)"
  by (induction k v m rule: om_insert.induct) auto

lemma om_insert_sorted: "om_sorted m \<Longrightarrow> om_sorted (om_insert k v m)"
proof (induction k v m rule: om_insert.induct)
  case (2 k v k' v' m)
  have "\<forall>x\<in>fst ` set (om_insert k v m). k' < x" if "k' < k" "\<forall>x\<in>fst ` set m. k' < x"
    unfolding set_om_insert using that by simp
  with 2 show ?case by (auto simp: om_sorted_def)
qed (simp add: om_sorted_def)

lemma om_get_insert:
  "om_sorted m \<Longrightarrow> om_get k' (om_insert k v m) = (if k' = k then Some v else om_get k' m)"
  by (induction k v m rule: om_insert.induct) (auto simp: om_get_def om_sorted_def)

lemma om_sorted_distinct: "om_sorted m \<Longrightarrow> distinct (map fst m)"
  by (simp add: om_sorted_def strict_sorted_iff)

lemma om_entries_get: "om_sorted m \<Longrightarrow> (k, v) \<in> set m \<longleftrightarrow> om_get k m = Some v"
  by (simp add: om_get_def om_sorted_distinct)

lemma om_get_remove: "om_get k' (om_remove k m) = (if k' = k then None else om_get k' m)"
  by (induction m) (auto simp: om_get_def om_remove_def)

lemma om_remove_sorted: "om_sorted m \<Longrightarrow> om_sorted (om_remove k m)"
  unfolding om_sorted_def om_remove_def sorted_wrt_map by (rule sorted_wrt_filter)

interpretation om: ordered_map "[]" om_get om_insert "\<lambda>m. m" om_sorted
  by unfold_locales
    (simp_all add: om_get_insert om_insert_sorted om_entries_get, simp_all add: om_get_def om_sorted_def)

lemma om_get_collect: "om_get k (om_collect kvs) = map_of (rev kvs) k"
  unfolding om_collect_def by (rule om.get_collect)

end
