(* ===== verification/Execution.thy ===== *)
theory Execution
  imports PgTypes OrderedMap
begin

text \<open>
  The venue-facing contract of \<open>rust/crates/pg-execution/src/lib.rs\<close>: order, position, fill and
  account snapshots, execution errors, and the \<open>ExecutionAdapter\<close> trait. An adapter object is a
  state together with one record of operations; every call returns the adapter state after it.
\<close>

section \<open>Data\<close>

record venue_order_ack =
  va_venue_order_id :: string
  va_client_order_id :: string

datatype venue_order_state = VOpen | VPartiallyFilled | VFilled | VCanceled | VRejected | VUnknown

record venue_order_snapshot =
  vo_venue_order_id :: string
  vo_client_order_id :: "string option"
  vo_asset :: string
  vo_side :: side
  vo_requested_quantity :: decimal
  vo_filled_quantity :: decimal
  vo_limit_price :: "decimal option"
  vo_state :: venue_order_state

record venue_position_snapshot =
  vp_asset :: string
  vp_quantity :: decimal

record venue_fill_snapshot =
  vf_account_scope :: string
  vf_venue_fill_id :: string
  vf_legacy_trade_id :: "int option"
  vf_venue_order_id :: string
  vf_client_order_id :: "string option"
  vf_asset :: string
  vf_side :: side
  vf_quantity :: decimal
  vf_price :: decimal
  vf_commission :: "decimal option"
  vf_commission_asset :: "string option"
  vf_realized_pnl :: "decimal option"
  vf_trade_time_ms :: "int option"
  vf_venue_time :: "string option"

record account_snapshot =
  as_venue :: venue
  as_account_id :: "string option"
  as_currency :: "string option"
  as_account_value :: "decimal option"
  as_available_funds :: "decimal option"
  as_withdrawable :: "decimal option"
  as_buying_power :: "decimal option"
  as_initial_margin :: "decimal option"
  as_maintenance_margin :: "decimal option"
  as_margin_used :: "decimal option"
  as_gross_position_value :: "decimal option"
  as_raw_usd :: "decimal option"

record order_locator =
  ol_asset :: string
  ol_venue_order_id :: "string option"
  ol_client_order_id :: string

datatype execution_error =
  ExRejected string | ExUnknown string | ExTransport string | ExAuthentication string
| ExConversion string | ExUnsupported string

fun execution_error_message :: "execution_error \<Rightarrow> string" where
  "execution_error_message (ExRejected m) = ''venue rejected order: '' @ m"
| "execution_error_message (ExUnknown m) = ''venue outcome is unknown: '' @ m"
| "execution_error_message (ExTransport m) = ''transport error: '' @ m"
| "execution_error_message (ExAuthentication m) = ''venue authentication failed: '' @ m"
| "execution_error_message (ExConversion m) = ''venue protocol conversion failed: '' @ m"
| "execution_error_message (ExUnsupported m) = ''operation is not supported by this venue adapter: '' @ m"

text \<open>The derived \<open>Debug\<close> texts that error messages use.\<close>

fun debug_venue :: "venue \<Rightarrow> string" where
  "debug_venue BinancePm = ''BinancePm''"
| "debug_venue Hyperliquid = ''Hyperliquid''"
| "debug_venue InteractiveBrokers = ''InteractiveBrokers''"

fun debug_venue_order_state :: "venue_order_state \<Rightarrow> string" where
  "debug_venue_order_state VOpen = ''Open''"
| "debug_venue_order_state VPartiallyFilled = ''PartiallyFilled''"
| "debug_venue_order_state VFilled = ''Filled''"
| "debug_venue_order_state VCanceled = ''Canceled''"
| "debug_venue_order_state VRejected = ''Rejected''"
| "debug_venue_order_state VUnknown = ''Unknown''"

definition venue_live :: "venue_order_snapshot \<Rightarrow> bool" where
  "venue_live v \<longleftrightarrow> vo_state v = VOpen \<or> vo_state v = VPartiallyFilled"

section \<open>The adapter trait\<close>

type_synonym ('a, 'st) call = "'st \<Rightarrow> (execution_error, 'a) outcome \<times> 'st"

record 'st adapter_ops =
  ad_submit :: "order_intent \<Rightarrow> (venue_order_ack, 'st) call"
  ad_cancel :: "order_locator \<Rightarrow> (unit, 'st) call"
  ad_open_orders :: "(venue_order_snapshot list, 'st) call"
  ad_positions :: "(venue_position_snapshot list, 'st) call"
  ad_fills :: "(venue_fill_snapshot list, 'st) call"
  ad_account_snapshot :: "(account_snapshot, 'st) call"
  ad_find_order_by_client_id :: "string \<Rightarrow> (venue_order_snapshot option, 'st) call"

text \<open>The trait's default methods.\<close>

definition default_fills :: "(venue_fill_snapshot list, 'st) call" where
  "default_fills st = (Err (ExUnsupported ''fill history is not implemented by this adapter''), st)"

definition default_account_snapshot :: "(account_snapshot, 'st) call" where
  "default_account_snapshot st =
     (Err (ExUnsupported ''account snapshot is not implemented by this adapter''), st)"

definition default_find_order_by_client_id ::
  "(venue_order_snapshot list, 'st) call \<Rightarrow> string \<Rightarrow> (venue_order_snapshot option, 'st) call" where
  "default_find_order_by_client_id open_orders cid st =
     (case open_orders st of
        (Ok orders, st') \<Rightarrow> (Ok (find (\<lambda>v. vo_client_order_id v = Some cid) orders), st')
      | (Err e, st') \<Rightarrow> (Err e, st')
      | (Panic, st') \<Rightarrow> (Panic, st'))"

section \<open>What recovery relies on\<close>

text \<open>
  The contract that lets an ambiguous submission be resolved: an acknowledged order carries the
  intent's client id and can be found by it afterwards, as an order of the intent's asset, side and
  quantity; a look-up changes nothing and only returns orders of the client id it was asked for.
  \<open>good\<close> is the adapter's own invariant and \<open>takes\<close> the intents whose client id it has not
  seen with other contents.
\<close>

locale recoverable_adapter =
  fixes ops :: "'st adapter_ops"
    and simple :: "uuid \<Rightarrow> string"
    and good :: "'st \<Rightarrow> bool"
    and takes :: "order_intent \<Rightarrow> 'st \<Rightarrow> bool"
  assumes submit_good: "good st \<Longrightarrow> ad_submit ops i st = (r, st') \<Longrightarrow> r \<noteq> Panic \<Longrightarrow> good st'"
    and submit_found: "good st \<Longrightarrow> takes i st \<Longrightarrow> ad_submit ops i st = (Ok ack, st') \<Longrightarrow>
      va_client_order_id ack = client_order_id simple i \<and>
      (\<exists>v. ad_find_order_by_client_id ops (client_order_id simple i) st' = (Ok (Some v), st')
         \<and> vo_client_order_id v = Some (client_order_id simple i)
         \<and> vo_asset v = oi_asset i \<and> vo_side v = oi_side i \<and> vo_requested_quantity v = oi_quantity i
         \<and> vo_venue_order_id v = va_venue_order_id ack)"
    and find_only: "good st \<Longrightarrow> ad_find_order_by_client_id ops cid st = (found, st') \<Longrightarrow>
      st' = st \<and> found \<noteq> Panic \<and> (\<forall>v. found = Ok (Some v) \<longrightarrow> vo_client_order_id v = Some cid)"
begin

text \<open>A second look-up gives the same answer, so recovery may be retried.\<close>

lemma find_stable:
  "good st \<Longrightarrow> ad_find_order_by_client_id ops cid st = (r, st') \<Longrightarrow>
     ad_find_order_by_client_id ops cid st' = (r, st')"
  using find_only by metis

text \<open>Submitting and then looking up, as recovery does after a lost acknowledgement.\<close>

lemma submit_then_find:
  assumes "good st" "takes i st" "ad_submit ops i st = (Ok ack, st1)"
    and "ad_find_order_by_client_id ops (client_order_id simple i) st1 = (r, st2)"
  shows "st2 = st1 \<and> (\<exists>v. r = Ok (Some v) \<and> vo_venue_order_id v = va_venue_order_id ack
     \<and> vo_client_order_id v = Some (client_order_id simple i) \<and> vo_requested_quantity v = oi_quantity i)"
  using submit_found [OF assms(1-3)] assms(4) by auto

end

end
