(* ===== verification/Shadow.thy ===== *)
theory Shadow
  imports Execution
begin

text \<open>
  The in-process venue of \<open>rust/crates/pg-execution/src/shadow.rs\<close>: its book of orders and
  positions, the reduce-only guard, submission, cancellation and the read side. The mutexes
  serialize the calls, so the model is a state passed from call to call; a panic leaves no state
  behind that a later call could read.
\<close>

section \<open>Data\<close>

datatype shadow_fill_mode = Rest | ImmediateFill

record shadow_adapter_config =
  sc_venue :: venue
  sc_fill_mode :: shadow_fill_mode

record shadow_position =
  sp_net_quantity :: decimal
  sp_average_entry_price :: "decimal option"
  sp_filled_entries :: "32 word"

record shadow_book =
  sb_orders :: "venue_order_snapshot list"
  sb_positions :: "(string, shadow_position) omap"
  sb_next_order_id :: u64

record shadow_adapter =
  sa_config :: shadow_adapter_config
  sa_book :: shadow_book
  sa_reference_price :: "decimal option"

definition new_shadow_config :: "venue \<Rightarrow> shadow_adapter_config" where
  "new_shadow_config v = \<lparr>sc_venue = v, sc_fill_mode = Rest\<rparr>"

definition with_fill_mode :: "shadow_fill_mode \<Rightarrow> shadow_adapter_config \<Rightarrow> shadow_adapter_config" where
  "with_fill_mode m c = c\<lparr>sc_fill_mode := m\<rparr>"

definition default_shadow_position :: shadow_position where
  "default_shadow_position =
     \<lparr>sp_net_quantity = 0, sp_average_entry_price = None, sp_filled_entries = 0\<rparr>"

definition new_shadow :: "shadow_adapter_config \<Rightarrow> shadow_adapter" where
  "new_shadow c = \<lparr>sa_config = c,
     sa_book = \<lparr>sb_orders = [], sb_positions = [], sb_next_order_id = 0\<rparr>,
     sa_reference_price = None\<rparr>"

section \<open>The book\<close>

definition sign_of :: "decimal \<Rightarrow> int" where
  "sign_of v = (if 0 < v then 1 else if v < 0 then - 1 else 0)"

definition book_position :: "string \<Rightarrow> shadow_book \<Rightarrow> shadow_position" where
  "book_position asset b =
     (case om_get asset (sb_positions b) of Some p \<Rightarrow> p | None \<Rightarrow> default_shadow_position)"

definition signed :: "decimal \<Rightarrow> side \<Rightarrow> decimal" where
  "signed q sd = (case sd of Buy \<Rightarrow> q | Sell \<Rightarrow> - q)"

definition average_price ::
  "dec_ops \<Rightarrow> shadow_position \<Rightarrow> decimal \<Rightarrow> decimal \<Rightarrow> decimal \<Rightarrow> (execution_error, decimal option) outcome" where
  "average_price ar pos delta resulting fill_price =
     (let previous = sp_net_quantity pos;
          avg = sp_average_entry_price pos;
          price = (if fill_price = 0 then None else Some fill_price)
      in case price of
           Some px \<Rightarrow>
             if previous = 0 then Ok (Some px)
             else if sign_of previous = sign_of delta then
               and_then (or_panic (checked_mul ar \<bar>previous\<bar> (case avg of Some a \<Rightarrow> a | None \<Rightarrow> px))) (\<lambda>previous_notional.
               and_then (or_panic (checked_mul ar \<bar>delta\<bar> px)) (\<lambda>added_notional.
               and_then (or_panic (checked_add ar previous_notional added_notional)) (\<lambda>total.
               and_then (or_panic (checked_div ar total \<bar>resulting\<bar>)) (\<lambda>mean. Ok (Some mean)))))
             else if resulting \<noteq> 0 \<and> sign_of previous \<noteq> sign_of resulting then Ok price
             else Ok avg
         | None \<Rightarrow>
             if previous \<noteq> 0 \<and> resulting \<noteq> 0 \<and> sign_of previous \<noteq> sign_of resulting then Ok price
             else Ok avg)"

definition saturating_inc32 :: "32 word \<Rightarrow> 32 word" where
  "saturating_inc32 n = (if n = - 1 then n else n + 1)"

definition shadow_apply_fill ::
  "dec_ops \<Rightarrow> string \<Rightarrow> side \<Rightarrow> decimal \<Rightarrow> decimal \<Rightarrow> shadow_book \<Rightarrow> (execution_error, shadow_book) outcome" where
  "shadow_apply_fill ar asset sd quantity price b =
     (let pos = book_position asset b; delta = signed quantity sd in
      and_then (or_panic (checked_add ar (sp_net_quantity pos) delta)) (\<lambda>resulting.
      and_then (average_price ar pos delta resulting price) (\<lambda>avg.
      Ok (b\<lparr>sb_positions := om_insert asset
               \<lparr>sp_net_quantity = resulting,
                sp_average_entry_price = (if resulting = 0 then None else avg),
                sp_filled_entries = saturating_inc32 (sp_filled_entries pos)\<rparr> (sb_positions b)\<rparr>))))"

section \<open>The adapter\<close>

definition set_reference_price :: "decimal \<Rightarrow> shadow_adapter \<Rightarrow> shadow_adapter" where
  "set_reference_price price a = (if 0 < price then a\<lparr>sa_reference_price := Some price\<rparr> else a)"

definition shadow_position_of :: "string \<Rightarrow> shadow_adapter \<Rightarrow> shadow_position" where
  "shadow_position_of asset a = book_position asset (sa_book a)"

definition order_by_client_id :: "string \<Rightarrow> shadow_adapter \<Rightarrow> venue_order_snapshot option" where
  "order_by_client_id cid a =
     find (\<lambda>v. vo_client_order_id v = Some cid) (rev (sb_orders (sa_book a)))"

definition is_client_order_live :: "string \<Rightarrow> shadow_adapter \<Rightarrow> bool" where
  "is_client_order_live cid a =
     (case order_by_client_id cid a of Some v \<Rightarrow> venue_live v | None \<Rightarrow> False)"

definition resting_order_count :: "shadow_adapter \<Rightarrow> nat" where
  "resting_order_count a = length (filter venue_live (sb_orders (sa_book a)))"

fun decimal_sum :: "dec_ops \<Rightarrow> decimal \<Rightarrow> decimal list \<Rightarrow> (execution_error, decimal) outcome" where
  "decimal_sum ar acc [] = Ok acc"
| "decimal_sum ar acc (q # qs) = and_then (or_panic (checked_add ar acc q)) (\<lambda>s. decimal_sum ar s qs)"

definition shadow_filled_quantity :: "dec_ops \<Rightarrow> string \<Rightarrow> shadow_adapter \<Rightarrow> (execution_error, decimal) outcome" where
  "shadow_filled_quantity ar cid a =
     decimal_sum ar 0 (map vo_filled_quantity
       (filter (\<lambda>v. vo_client_order_id v = Some cid) (sb_orders (sa_book a))))"

definition guard_reduce_only ::
  "dec_ops \<Rightarrow> string \<Rightarrow> side \<Rightarrow> decimal \<Rightarrow> shadow_adapter \<Rightarrow> (execution_error, unit) outcome" where
  "guard_reduce_only ar asset sd quantity a =
     (let current = sp_net_quantity (shadow_position_of asset a);
          delta = signed quantity sd;
          prefix = ''reduce-only order for '' @ asset @ '' rejected: ''
      in if quantity \<le> 0 then Err (ExRejected ''reduce-only quantity must be positive'')
         else if current = 0 then Err (ExRejected (prefix @ ''position is flat''))
         else if sign_of current = sign_of delta then Err (ExRejected (prefix @ ''would increase exposure''))
         else and_then (or_panic (checked_add ar current delta)) (\<lambda>after.
           if sign_of after = sign_of delta
           then Err (ExRejected (prefix @ ''would cross through flat'')) else Ok ()))"

definition new_order_snapshot :: "(uuid \<Rightarrow> string) \<Rightarrow> order_intent \<Rightarrow> string \<Rightarrow> bool \<Rightarrow> venue_order_snapshot" where
  "new_order_snapshot simple i vid fills_immediately =
     \<lparr>vo_venue_order_id = vid, vo_client_order_id = Some (client_order_id simple i),
      vo_asset = oi_asset i, vo_side = oi_side i, vo_requested_quantity = oi_quantity i,
      vo_filled_quantity = (if fills_immediately then oi_quantity i else 0),
      vo_limit_price = oi_limit_price i,
      vo_state = (if fills_immediately then VFilled else VOpen)\<rparr>"

definition placed_id :: "shadow_adapter \<Rightarrow> string" where
  "placed_id a = ''shadow-'' @ show_nat (unat (saturating_add (sb_next_order_id (sa_book a)) 1))"

definition placed_book :: "(uuid \<Rightarrow> string) \<Rightarrow> order_intent \<Rightarrow> shadow_adapter \<Rightarrow> shadow_book" where
  "placed_book simple i a =
     (sa_book a)\<lparr>sb_next_order_id := saturating_add (sb_next_order_id (sa_book a)) 1,
        sb_orders := sb_orders (sa_book a)
          @ [new_order_snapshot simple i (placed_id a) (sc_fill_mode (sa_config a) = ImmediateFill)]\<rparr>"

definition fill_price_of :: "order_intent \<Rightarrow> shadow_adapter \<Rightarrow> decimal" where
  "fill_price_of i a =
     (case oi_limit_price i of
        Some p \<Rightarrow> p
      | None \<Rightarrow> (case sa_reference_price a of Some p \<Rightarrow> p | None \<Rightarrow> 0))"

definition place_order ::
  "dec_ops \<Rightarrow> (uuid \<Rightarrow> string) \<Rightarrow> order_intent \<Rightarrow> shadow_adapter
     \<Rightarrow> (execution_error, venue_order_ack) outcome \<times> shadow_adapter" where
  "place_order ar simple i a =
     (let ack = \<lparr>va_venue_order_id = placed_id a, va_client_order_id = client_order_id simple i\<rparr>
      in if sc_fill_mode (sa_config a) = ImmediateFill then
           (case shadow_apply_fill ar (oi_asset i) (oi_side i) (oi_quantity i) (fill_price_of i a)
                   (placed_book simple i a) of
              Ok b \<Rightarrow> (Ok ack, a\<lparr>sa_book := b\<rparr>)
            | Err e \<Rightarrow> (Err e, a)
            | Panic \<Rightarrow> (Panic, a))
         else (Ok ack, a\<lparr>sa_book := placed_book simple i a\<rparr>))"

definition shadow_submit ::
  "dec_ops \<Rightarrow> (uuid \<Rightarrow> string) \<Rightarrow> order_intent \<Rightarrow> (venue_order_ack, shadow_adapter) call" where
  "shadow_submit ar simple i a =
     (if oi_venue i \<noteq> sc_venue (sa_config a) then
        (Err (ExUnsupported (''shadow adapter for '' @ debug_venue (sc_venue (sa_config a))
           @ '' received an intent for '' @ debug_venue (oi_venue i))), a)
      else if oi_quantity i \<le> 0 then (Err (ExRejected ''order quantity must be positive''), a)
      else case (if oi_effect i = ReduceOnly
                 then guard_reduce_only ar (oi_asset i) (oi_side i) (oi_quantity i) a else Ok ()) of
             Err e \<Rightarrow> (Err e, a)
           | Panic \<Rightarrow> (Panic, a)
           | Ok _ \<Rightarrow>
               (case find (\<lambda>v. vo_client_order_id v = Some (client_order_id simple i)) (sb_orders (sa_book a)) of
                  Some existing \<Rightarrow>
                    (Ok \<lparr>va_venue_order_id = vo_venue_order_id existing,
                         va_client_order_id = client_order_id simple i\<rparr>, a)
                | None \<Rightarrow> place_order ar simple i a))"

text \<open>\<open>iter_mut().find(..)\<close>: the first matching order is the one updated.\<close>

fun cancel_first ::
  "(venue_order_snapshot \<Rightarrow> bool) \<Rightarrow> string \<Rightarrow> venue_order_snapshot list
     \<Rightarrow> (execution_error, unit) outcome \<times> venue_order_snapshot list" where
  "cancel_first p cid [] = (Err (ExRejected (''unknown shadow order '' @ cid)), [])"
| "cancel_first p cid (v # vs) =
     (if p v then
        (if venue_live v then (Ok (), v\<lparr>vo_state := VCanceled\<rparr> # vs)
         else (Err (ExRejected (''shadow order '' @ cid @ '' is already ''
                 @ debug_venue_order_state (vo_state v))), v # vs))
      else (case cancel_first p cid vs of (r, vs') \<Rightarrow> (r, v # vs')))"

definition shadow_cancel :: "order_locator \<Rightarrow> (unit, shadow_adapter) call" where
  "shadow_cancel loc a =
     (case cancel_first (\<lambda>v. vo_client_order_id v = Some (ol_client_order_id loc)
                \<or> (case ol_venue_order_id loc of Some x \<Rightarrow> vo_venue_order_id v = x | None \<Rightarrow> False))
              (ol_client_order_id loc) (sb_orders (sa_book a)) of
        (r, vs) \<Rightarrow> (r, a\<lparr>sa_book := (sa_book a)\<lparr>sb_orders := vs\<rparr>\<rparr>))"

definition shadow_open_orders :: "(venue_order_snapshot list, shadow_adapter) call" where
  "shadow_open_orders a = (Ok (filter venue_live (sb_orders (sa_book a))), a)"

definition shadow_positions :: "(venue_position_snapshot list, shadow_adapter) call" where
  "shadow_positions a =
     (Ok (map (\<lambda>(asset, p). \<lparr>vp_asset = asset, vp_quantity = sp_net_quantity p\<rparr>)
            (filter (\<lambda>(asset, p). sp_net_quantity p \<noteq> 0) (sb_positions (sa_book a)))), a)"

definition shadow_find :: "string \<Rightarrow> (venue_order_snapshot option, shadow_adapter) call" where
  "shadow_find cid a = (Ok (order_by_client_id cid a), a)"

definition shadow_ops :: "dec_ops \<Rightarrow> (uuid \<Rightarrow> string) \<Rightarrow> shadow_adapter adapter_ops" where
  "shadow_ops ar simple =
     \<lparr>ad_submit = shadow_submit ar simple, ad_cancel = shadow_cancel,
      ad_open_orders = shadow_open_orders, ad_positions = shadow_positions,
      ad_fills = default_fills, ad_account_snapshot = default_account_snapshot,
      ad_find_order_by_client_id = shadow_find\<rparr>"

text \<open>The fault helpers of the reconciliation tests.\<close>

definition inject_unmatched_position_for_test :: "string \<Rightarrow> decimal \<Rightarrow> shadow_adapter \<Rightarrow> shadow_adapter" where
  "inject_unmatched_position_for_test asset quantity a =
     (let b = sa_book a in
      a\<lparr>sa_book := b\<lparr>sb_positions :=
          (if quantity = 0 then om_remove asset (sb_positions b)
           else om_insert asset \<lparr>sp_net_quantity = quantity, sp_average_entry_price = None,
                  sp_filled_entries = 0\<rparr> (sb_positions b))\<rparr>\<rparr>)"

definition inject_unmatched_order_for_test :: "string \<Rightarrow> decimal \<Rightarrow> shadow_adapter \<Rightarrow> shadow_adapter" where
  "inject_unmatched_order_for_test asset quantity a =
     (let b = sa_book a; n = saturating_add (sb_next_order_id b) 1 in
      a\<lparr>sa_book := b\<lparr>sb_next_order_id := n,
          sb_orders := sb_orders b @
            [\<lparr>vo_venue_order_id = ''fault-'' @ show_nat (unat n),
              vo_client_order_id = Some ''fault-unowned-client'', vo_asset = asset, vo_side = Buy,
              vo_requested_quantity = \<bar>quantity\<bar>, vo_filled_quantity = 0, vo_limit_price = Some 1,
              vo_state = VOpen\<rparr>]\<rparr>\<rparr>)"

section \<open>Book invariant\<close>

definition orders_net :: "string \<Rightarrow> venue_order_snapshot list \<Rightarrow> decimal" where
  "orders_net asset vs =
     sum_list (map (\<lambda>v. signed (vo_filled_quantity v) (vo_side v)) (filter (\<lambda>v. vo_asset v = asset) vs))"

definition requested_total :: "shadow_adapter \<Rightarrow> decimal" where
  "requested_total a = sum_list (map vo_requested_quantity (sb_orders (sa_book a)))"

definition snapshot_ok :: "venue_order_snapshot \<Rightarrow> bool" where
  "snapshot_ok v \<longleftrightarrow>
     0 < vo_requested_quantity v \<and> vo_client_order_id v \<noteq> None
     \<and> (vo_state v = VFilled \<and> vo_filled_quantity v = vo_requested_quantity v
        \<or> vo_state v \<in> {VOpen, VCanceled} \<and> vo_filled_quantity v = 0)"

definition shadow_inv :: "nat \<Rightarrow> shadow_adapter \<Rightarrow> bool" where
  "shadow_inv s a \<longleftrightarrow>
     om_sorted (sb_positions (sa_book a))
     \<and> distinct (map vo_client_order_id (sb_orders (sa_book a)))
     \<and> list_all snapshot_ok (sb_orders (sa_book a))
     \<and> (\<forall>asset. sp_net_quantity (shadow_position_of asset a) = orders_net asset (sb_orders (sa_book a))
           \<and> representable s (orders_net asset (sb_orders (sa_book a))))"

lemma orders_net_snoc:
  "orders_net asset (vs @ [v]) =
     orders_net asset vs + (if vo_asset v = asset then signed (vo_filled_quantity v) (vo_side v) else 0)"
  by (simp add: orders_net_def)

lemma orders_net_Cons:
  "orders_net asset (v # vs) =
     (if vo_asset v = asset then signed (vo_filled_quantity v) (vo_side v) else 0) + orders_net asset vs"
  by (simp add: orders_net_def)

lemma orders_net_bound:
  "list_all snapshot_ok vs \<Longrightarrow> \<bar>orders_net asset vs\<bar> \<le> sum_list (map vo_requested_quantity vs)"
proof (induction vs)
  case (Cons v vs)
  then have "\<bar>if vo_asset v = asset then signed (vo_filled_quantity v) (vo_side v) else 0\<bar> \<le> vo_requested_quantity v"
    by (auto simp: snapshot_ok_def signed_def split: side.split)
  moreover have "\<bar>orders_net asset vs\<bar> \<le> sum_list (map vo_requested_quantity vs)" using Cons by simp
  ultimately show ?case unfolding orders_net_Cons by simp
qed (simp add: orders_net_def)

lemma shadow_apply_fill_net:
  assumes "shadow_apply_fill ar asset sd q px b = Ok b'" "om_sorted (sb_positions b)"
  shows "\<exists>r. checked_add ar (sp_net_quantity (book_position asset b)) (signed q sd) = Some r
    \<and> om_sorted (sb_positions b') \<and> sb_orders b' = sb_orders b
    \<and> (\<forall>x. sp_net_quantity (book_position x b') = (if x = asset then r else sp_net_quantity (book_position x b)))"
  using assms
  by (auto simp: shadow_apply_fill_def Let_def outcome_simps om_insert_sorted book_position_def om_get_insert
      split: option.splits)

lemma distinct_snoc_find:
  assumes "distinct (map vo_client_order_id vs)"
    and "find (\<lambda>v. vo_client_order_id v = Some cid) vs = None" "vo_client_order_id w = Some cid"
  shows "distinct (map vo_client_order_id (vs @ [w]))"
  using assms by (auto simp: find_None_iff)

lemma place_order_cases:
  assumes "place_order ar simple i a = (r, a')" "r \<noteq> Panic"
  obtains (rest) "sc_fill_mode (sa_config a) = Rest" "a' = a\<lparr>sa_book := placed_book simple i a\<rparr>"
      "r = Ok \<lparr>va_venue_order_id = placed_id a, va_client_order_id = client_order_id simple i\<rparr>"
  | (filled) b where "sc_fill_mode (sa_config a) = ImmediateFill" "a' = a\<lparr>sa_book := b\<rparr>"
      "shadow_apply_fill ar (oi_asset i) (oi_side i) (oi_quantity i) (fill_price_of i a) (placed_book simple i a) = Ok b"
      "r = Ok \<lparr>va_venue_order_id = placed_id a, va_client_order_id = client_order_id simple i\<rparr>"
  | (failed) e where "a' = a" "r = Err e"
  using assms
  by (cases "sc_fill_mode (sa_config a)";
      cases "shadow_apply_fill ar (oi_asset i) (oi_side i) (oi_quantity i) (fill_price_of i a) (placed_book simple i a)")
    (auto simp: place_order_def)

definition placed_snapshot :: "(uuid \<Rightarrow> string) \<Rightarrow> order_intent \<Rightarrow> shadow_adapter \<Rightarrow> venue_order_snapshot" where
  "placed_snapshot simple i a =
     new_order_snapshot simple i (placed_id a) (sc_fill_mode (sa_config a) = ImmediateFill)"

lemma placed_book_simps [simp]:
  "sb_orders (placed_book simple i a) = sb_orders (sa_book a) @ [placed_snapshot simple i a]"
  "sb_positions (placed_book simple i a) = sb_positions (sa_book a)"
  "book_position x (placed_book simple i a) = book_position x (sa_book a)"
  by (simp_all add: placed_book_def placed_snapshot_def book_position_def)

lemma placed_snapshot_simps [simp]:
  "vo_client_order_id (placed_snapshot simple i a) = Some (client_order_id simple i)"
  "vo_asset (placed_snapshot simple i a) = oi_asset i" "vo_side (placed_snapshot simple i a) = oi_side i"
  "vo_requested_quantity (placed_snapshot simple i a) = oi_quantity i"
  "vo_venue_order_id (placed_snapshot simple i a) = placed_id a"
  "0 < oi_quantity i \<Longrightarrow> snapshot_ok (placed_snapshot simple i a)"
  "signed (vo_filled_quantity (placed_snapshot simple i a)) sd =
     (if sc_fill_mode (sa_config a) = ImmediateFill then signed (oi_quantity i) sd else 0)"
  by (simp_all add: placed_snapshot_def new_order_snapshot_def snapshot_ok_def signed_def split: side.split)

lemma shadow_invD:
  assumes "shadow_inv s a"
  shows "om_sorted (sb_positions (sa_book a))" "distinct (map vo_client_order_id (sb_orders (sa_book a)))"
    "list_all snapshot_ok (sb_orders (sa_book a))"
    "sp_net_quantity (book_position x (sa_book a)) = orders_net x (sb_orders (sa_book a))"
    "representable s (orders_net x (sb_orders (sa_book a)))"
  using assms by (auto simp: shadow_inv_def shadow_position_of_def)

lemma placed_net_representable:
  assumes "shadow_inv s a" "0 < oi_quantity i" "representable s (oi_quantity i)"
    and "representable s B" "requested_total a + oi_quantity i \<le> B"
  shows "representable s (orders_net (oi_asset i) (sb_orders (sa_book a)) + signed (oi_quantity i) (oi_side i))"
proof -
  let ?n = "orders_net (oi_asset i) (sb_orders (sa_book a))" and ?d = "signed (oi_quantity i) (oi_side i)"
  have "\<bar>?n\<bar> \<le> requested_total a"
    unfolding requested_total_def by (rule orders_net_bound [OF shadow_invD(3) [OF assms(1)]])
  moreover have "\<bar>?d\<bar> = oi_quantity i" using assms(2) by (simp add: signed_def split: side.split)
  ultimately have "\<bar>?n + ?d\<bar> \<le> \<bar>B\<bar>" using assms(5) by linarith
  moreover have "representable s ?d" using assms(3) by (simp add: signed_def split: side.split)
  ultimately show ?thesis
    using representable_between [OF shadow_invD(5) [OF assms(1)] _ assms(4)] by (simp add: abs_le_iff)
qed

lemma place_order_inv:
  assumes "lossless ar s" "shadow_inv s a" "0 < oi_quantity i" "representable s (oi_quantity i)"
    and "representable s B" "requested_total a + oi_quantity i \<le> B"
    and new: "find (\<lambda>v. vo_client_order_id v = Some (client_order_id simple i)) (sb_orders (sa_book a)) = None"
    and place: "place_order ar simple i a = (r, a')" "r \<noteq> Panic"
  shows "shadow_inv s a' \<and> requested_total a' \<le> requested_total a + oi_quantity i"
  using place
proof (cases rule: place_order_cases)
  case rest
  have "distinct (map vo_client_order_id (sb_orders (sa_book a) @ [placed_snapshot simple i a]))"
    by (rule distinct_snoc_find [OF shadow_invD(2) [OF assms(2)] new]) simp
  then show ?thesis using rest shadow_invD [OF assms(2)] assms(3)
    by (simp add: shadow_inv_def shadow_position_of_def orders_net_snoc requested_total_def)
next
  case (filled b)
  let ?n = "orders_net (oi_asset i) (sb_orders (sa_book a))" and ?d = "signed (oi_quantity i) (oi_side i)"
  have "representable s ?d" using assms(4) by (simp add: signed_def split: side.split)
  note rep = placed_net_representable [OF assms(2-6)] this
  have dist: "distinct (map vo_client_order_id (sb_orders (sa_book a) @ [placed_snapshot simple i a]))"
    by (rule distinct_snoc_find [OF shadow_invD(2) [OF assms(2)] new]) simp
  obtain r1 where r1: "checked_add ar ?n ?d = Some r1" "om_sorted (sb_positions b)"
      "sb_orders b = sb_orders (sa_book a) @ [placed_snapshot simple i a]"
      "\<And>x. sp_net_quantity (book_position x b) =
         (if x = oi_asset i then r1 else sp_net_quantity (book_position x (sa_book a)))"
    using shadow_apply_fill_net [OF filled(3)] shadow_invD(1,4) [OF assms(2)] by auto
  have "r1 = ?n + ?d" using r1(1) lossless_add [OF assms(1) shadow_invD(5) [OF assms(2)] rep(2,1)] by simp
  then show ?thesis using filled(1,2) shadow_invD [OF assms(2)] dist r1 rep(1) assms(3)
    by (simp add: shadow_inv_def shadow_position_of_def orders_net_snoc requested_total_def)
next
  case failed
  then show ?thesis using assms(2,3) by simp
qed

section \<open>Calls keep the invariant\<close>

definition same_client :: "(uuid \<Rightarrow> string) \<Rightarrow> order_intent \<Rightarrow> venue_order_snapshot \<Rightarrow> bool" where
  "same_client simple i v \<longleftrightarrow> vo_client_order_id v = Some (client_order_id simple i)"

definition passes_guard :: "dec_ops \<Rightarrow> order_intent \<Rightarrow> shadow_adapter \<Rightarrow> bool" where
  "passes_guard ar i a \<longleftrightarrow>
     oi_venue i = sc_venue (sa_config a) \<and> 0 < oi_quantity i
     \<and> (oi_effect i = ReduceOnly \<longrightarrow> guard_reduce_only ar (oi_asset i) (oi_side i) (oi_quantity i) a = Ok ())"

lemma shadow_submit_cases:
  assumes "shadow_submit ar simple i a = (r, a')" "r \<noteq> Panic"
  obtains (refused) e where "r = Err e" "a' = a" "\<not> passes_guard ar i a"
  | (adopted) v where "passes_guard ar i a" "find (same_client simple i) (sb_orders (sa_book a)) = Some v"
      "r = Ok \<lparr>va_venue_order_id = vo_venue_order_id v, va_client_order_id = client_order_id simple i\<rparr>" "a' = a"
  | (placed) "passes_guard ar i a" "find (same_client simple i) (sb_orders (sa_book a)) = None"
      "place_order ar simple i a = (r, a')"
proof (cases "passes_guard ar i a")
  case True
  then have "shadow_submit ar simple i a =
      (case find (same_client simple i) (sb_orders (sa_book a)) of
         Some existing \<Rightarrow>
           (Ok \<lparr>va_venue_order_id = vo_venue_order_id existing, va_client_order_id = client_order_id simple i\<rparr>, a)
       | None \<Rightarrow> place_order ar simple i a)"
    by (simp add: shadow_submit_def passes_guard_def same_client_def [abs_def])
  then show thesis using assms True that by (auto split: option.splits)
next
  case False
  then have "\<exists>e. r = Err e \<and> a' = a"
    using assms by (auto simp: shadow_submit_def passes_guard_def split: if_splits outcome.splits)
  with False refused show thesis by blast
qed

lemma shadow_submit_inv:
  assumes "lossless ar s" "shadow_inv s a" "representable s (oi_quantity i)"
    and "representable s B" "requested_total a + max (oi_quantity i) 0 \<le> B"
    and "shadow_submit ar simple i a = (r, a')" "r \<noteq> Panic"
  shows "shadow_inv s a' \<and> requested_total a' \<le> requested_total a + max (oi_quantity i) 0"
  using assms(6,7)
proof (cases rule: shadow_submit_cases)
  case placed
  then have "0 < oi_quantity i" by (simp add: passes_guard_def)
  then show ?thesis
    using place_order_inv [OF assms(1,2) _ assms(3,4) _ _ placed(3) assms(7)] assms(5) placed(2)
    by (simp add: same_client_def [abs_def])
qed (use assms(2) in simp_all)

lemma cancel_first_facts:
  assumes "cancel_first p cid vs = (r, vs')"
  shows "map vo_client_order_id vs' = map vo_client_order_id vs
    \<and> map vo_requested_quantity vs' = map vo_requested_quantity vs
    \<and> orders_net x vs' = orders_net x vs \<and> (list_all snapshot_ok vs \<longrightarrow> list_all snapshot_ok vs')"
  using assms
proof (induction vs arbitrary: r vs')
  case (Cons v vs)
  show ?case
  proof (cases "p v")
    case True
    have "venue_live v \<Longrightarrow> snapshot_ok v \<Longrightarrow> snapshot_ok (v\<lparr>vo_state := VCanceled\<rparr>)"
      by (auto simp: snapshot_ok_def venue_live_def)
    then show ?thesis using Cons.prems True by (auto simp: orders_net_Cons split: if_splits)
  next
    case False
    then obtain ws where "cancel_first p cid vs = (r, ws)" "vs' = v # ws"
      using Cons.prems by (auto split: prod.splits)
    then show ?thesis using Cons.IH by (simp add: orders_net_Cons)
  qed
qed simp

lemma shadow_cancel_inv:
  "shadow_inv s a \<Longrightarrow> shadow_inv s (snd (shadow_cancel loc a))
     \<and> requested_total (snd (shadow_cancel loc a)) = requested_total a"
  unfolding shadow_cancel_def
  using cancel_first_facts
  by (simp add: shadow_inv_def shadow_position_of_def book_position_def requested_total_def split: prod.split)

section \<open>Runs\<close>

datatype shadow_op = SubmitOp order_intent | CancelOp order_locator | PriceOp decimal

definition shadow_exec ::
  "dec_ops \<Rightarrow> (uuid \<Rightarrow> string) \<Rightarrow> shadow_op \<Rightarrow> shadow_adapter \<Rightarrow> shadow_adapter option" where
  "shadow_exec ar simple op a =
     (case op of
        SubmitOp i \<Rightarrow> (case shadow_submit ar simple i a of (Panic, _) \<Rightarrow> None | (_, a') \<Rightarrow> Some a')
      | CancelOp loc \<Rightarrow> Some (snd (shadow_cancel loc a))
      | PriceOp p \<Rightarrow> Some (set_reference_price p a))"

text \<open>A run that no call panicked in.\<close>

fun shadow_run ::
  "dec_ops \<Rightarrow> (uuid \<Rightarrow> string) \<Rightarrow> shadow_op list \<Rightarrow> shadow_adapter \<Rightarrow> shadow_adapter option" where
  "shadow_run ar simple [] a = Some a"
| "shadow_run ar simple (op # ops) a =
     (case shadow_exec ar simple op a of Some a' \<Rightarrow> shadow_run ar simple ops a' | None \<Rightarrow> None)"

definition op_quantity :: "shadow_op \<Rightarrow> decimal" where
  "op_quantity op = (case op of SubmitOp i \<Rightarrow> max (oi_quantity i) 0 | _ \<Rightarrow> 0)"

definition shadow_op_on_scale :: "nat \<Rightarrow> shadow_op \<Rightarrow> bool" where
  "shadow_op_on_scale s op = (case op of SubmitOp i \<Rightarrow> representable s (oi_quantity i) | _ \<Rightarrow> True)"

lemma op_quantity_nonneg: "0 \<le> op_quantity op"
  by (simp add: op_quantity_def split: shadow_op.split)

lemma shadow_exec_inv:
  assumes "lossless ar s" "shadow_inv s a" "shadow_op_on_scale s op" "representable s B"
    and "requested_total a + op_quantity op \<le> B" "shadow_exec ar simple op a = Some a'"
  shows "shadow_inv s a' \<and> requested_total a' \<le> requested_total a + op_quantity op"
proof (cases op)
  case (SubmitOp i)
  obtain r where r: "shadow_submit ar simple i a = (r, a')" "r \<noteq> Panic"
    using assms(6) SubmitOp by (auto simp: shadow_exec_def split: prod.splits outcome.splits)
  then show ?thesis
    using shadow_submit_inv [OF assms(1,2) _ assms(4) _ r] assms(3,5) SubmitOp
    by (simp add: shadow_op_on_scale_def op_quantity_def)
next
  case (CancelOp loc)
  then show ?thesis using shadow_cancel_inv [OF assms(2), of loc] assms(6)
    by (auto simp: shadow_exec_def op_quantity_def)
next
  case (PriceOp p)
  then show ?thesis using assms(2,6)
    by (auto simp: shadow_exec_def op_quantity_def set_reference_price_def shadow_inv_def
        shadow_position_of_def requested_total_def)
qed

lemma shadow_run_inv:
  assumes "lossless ar s" "representable s B"
    and "shadow_inv s a" "\<forall>op\<in>set ops. shadow_op_on_scale s op"
    and "requested_total a + sum_list (map op_quantity ops) \<le> B" "shadow_run ar simple ops a = Some a'"
  shows "shadow_inv s a'"
  using assms(3-6)
proof (induction ops arbitrary: a)
  case (Cons op ops)
  obtain a1 where a1: "shadow_exec ar simple op a = Some a1" "shadow_run ar simple ops a1 = Some a'"
    using Cons.prems(4) by (auto split: option.splits)
  have "0 \<le> sum_list (map op_quantity ops)" by (rule sum_list_nonneg) (auto simp: op_quantity_nonneg)
  then have "requested_total a + op_quantity op \<le> B" using Cons.prems(3) by simp
  then have s1: "shadow_inv s a1 \<and> requested_total a1 \<le> requested_total a + op_quantity op"
    using shadow_exec_inv [OF assms(1) Cons.prems(1) _ assms(2) _ a1(1)] Cons.prems(2) by simp
  then have "requested_total a1 + sum_list (map op_quantity ops) \<le> B" using Cons.prems(3) by simp
  then show ?case using Cons.IH [of a1] s1 Cons.prems(2) a1(2) by simp
qed simp

lemma new_shadow_inv: "shadow_inv s (new_shadow c)" "requested_total (new_shadow c) = 0"
  by (simp_all add: shadow_inv_def new_shadow_def om_sorted_def shadow_position_of_def book_position_def
      om_get_def default_shadow_position_def orders_net_def requested_total_def)

lemma shadow_submit_rest:
  assumes "sc_fill_mode (sa_config a) = Rest" "shadow_submit ar simple i a = (r, a')" "r \<noteq> Panic"
  shows "sa_config a' = sa_config a \<and> sb_positions (sa_book a') = sb_positions (sa_book a)"
  using assms(2,3)
proof (cases rule: shadow_submit_cases)
  case placed
  from placed(3) assms(3) show ?thesis by (cases rule: place_order_cases) (use assms(1) in simp_all)
qed simp_all

lemma shadow_run_rest:
  assumes "sc_fill_mode (sa_config a) = Rest" "shadow_run ar simple ops a = Some a'"
  shows "sb_positions (sa_book a') = sb_positions (sa_book a)"
  using assms
proof (induction ops arbitrary: a)
  case (Cons op ops)
  obtain a1 where a1: "shadow_exec ar simple op a = Some a1" "shadow_run ar simple ops a1 = Some a'"
    using Cons.prems(2) by (auto split: option.splits)
  have "sa_config a1 = sa_config a \<and> sb_positions (sa_book a1) = sb_positions (sa_book a)"
  proof (cases op)
    case (SubmitOp i)
    obtain r where "shadow_submit ar simple i a = (r, a1)" "r \<noteq> Panic"
      using a1(1) SubmitOp by (auto simp: shadow_exec_def split: prod.splits outcome.splits)
    then show ?thesis using shadow_submit_rest [OF Cons.prems(1)] by blast
  qed (use a1(1) in \<open>auto simp: shadow_exec_def shadow_cancel_def set_reference_price_def split: prod.splits\<close>)
  then show ?case using Cons.IH [of a1] Cons.prems(1) a1(2) by simp
qed simp

section \<open>Recovery contract\<close>

definition client_ids_ok :: "shadow_adapter \<Rightarrow> bool" where
  "client_ids_ok a \<longleftrightarrow> distinct (map vo_client_order_id (sb_orders (sa_book a)))"

definition shadow_takes :: "(uuid \<Rightarrow> string) \<Rightarrow> order_intent \<Rightarrow> shadow_adapter \<Rightarrow> bool" where
  "shadow_takes simple i a \<longleftrightarrow>
     (\<forall>v\<in>set (sb_orders (sa_book a)). same_client simple i v \<longrightarrow>
        vo_asset v = oi_asset i \<and> vo_side v = oi_side i \<and> vo_requested_quantity v = oi_quantity i)"

lemma find_distinct:
  assumes "distinct (map f vs)" "v \<in> set vs" "f v = c"
  shows "find (\<lambda>v. f v = c) vs = Some v"
  using assms by (induction vs) auto

lemma order_by_client_id_mem:
  assumes "client_ids_ok a" "v \<in> set (sb_orders (sa_book a))" "vo_client_order_id v = Some cid"
  shows "order_by_client_id cid a = Some v"
  unfolding order_by_client_id_def
  by (rule find_distinct) (use assms in \<open>simp_all add: client_ids_ok_def rev_map [symmetric]\<close>)

lemma place_order_orders:
  assumes "place_order ar simple i a = (r, a')" "r \<noteq> Panic"
  shows "(\<exists>e. r = Err e) \<and> a' = a
    \<or> r = Ok \<lparr>va_venue_order_id = placed_id a, va_client_order_id = client_order_id simple i\<rparr>
      \<and> sb_orders (sa_book a') = sb_orders (sa_book a) @ [placed_snapshot simple i a]
      \<and> sa_config a' = sa_config a"
  using assms
proof (cases rule: place_order_cases)
  case (filled b)
  then have "sb_orders b = sb_orders (placed_book simple i a)"
    by (auto simp: shadow_apply_fill_def Let_def outcome_simps)
  with filled show ?thesis by simp
qed simp_all

lemma shadow_submit_ids:
  assumes "client_ids_ok a" "shadow_submit ar simple i a = (r, a')" "r \<noteq> Panic"
  shows "client_ids_ok a'"
  using assms(2,3)
proof (cases rule: shadow_submit_cases)
  case placed
  have "distinct (map vo_client_order_id (sb_orders (sa_book a) @ [placed_snapshot simple i a]))"
    using assms(1) placed(2)
    by (intro distinct_snoc_find [where cid = "client_order_id simple i"])
      (simp_all add: client_ids_ok_def same_client_def [abs_def])
  then show ?thesis using place_order_orders [OF placed(3) assms(3)] assms(1) by (auto simp: client_ids_ok_def)
qed (use assms(1) in simp_all)

lemma shadow_submit_found:
  assumes "client_ids_ok a" "shadow_takes simple i a" "shadow_submit ar simple i a = (Ok ack, a')"
  shows "va_client_order_id ack = client_order_id simple i
    \<and> (\<exists>v. order_by_client_id (client_order_id simple i) a' = Some v
         \<and> vo_client_order_id v = Some (client_order_id simple i)
         \<and> vo_asset v = oi_asset i \<and> vo_side v = oi_side i \<and> vo_requested_quantity v = oi_quantity i
         \<and> vo_venue_order_id v = va_venue_order_id ack)"
proof -
  have ids: "client_ids_ok a'" using shadow_submit_ids [OF assms(1,3)] by simp
  from assms(3) have "Ok ack \<noteq> Panic" by simp
  from assms(3) this show ?thesis
  proof (cases rule: shadow_submit_cases)
    case (adopted v)
    then have v: "v \<in> set (sb_orders (sa_book a))" "same_client simple i v"
      by (auto simp: find_Some_iff)
    then have "order_by_client_id (client_order_id simple i) a' = Some v"
      using order_by_client_id_mem [OF ids] adopted(4) by (simp add: same_client_def)
    then show ?thesis using adopted v assms(2) by (auto simp: shadow_takes_def same_client_def)
  next
    case placed
    then have p: "ack = \<lparr>va_venue_order_id = placed_id a, va_client_order_id = client_order_id simple i\<rparr>"
      "sb_orders (sa_book a') = sb_orders (sa_book a) @ [placed_snapshot simple i a]"
      using place_order_orders [OF placed(3)] by auto
    then have "order_by_client_id (client_order_id simple i) a' = Some (placed_snapshot simple i a)"
      by (intro order_by_client_id_mem [OF ids]) simp_all
    then show ?thesis using p(1) by simp
  qed simp
qed

interpretation shadow: recoverable_adapter "shadow_ops ar simple" simple client_ids_ok "shadow_takes simple"
  for ar simple
proof (unfold_locales, goal_cases)
  case (1 st i r st')
  then show ?case using shadow_submit_ids by (simp add: shadow_ops_def)
next
  case (2 st i ack st')
  then show ?case using shadow_submit_found [OF 2(1,2)] by (auto simp: shadow_ops_def shadow_find_def)
next
  case (3 st cid found st')
  then show ?case by (auto simp: shadow_ops_def shadow_find_def order_by_client_id_def find_Some_iff)
qed

section \<open>Properties\<close>

text \<open>
  C6. Whatever is submitted, cancelled or repriced, the shadow venue's position in every asset is
  exactly the signed sum of the fills of its orders, no two orders share a client id, and in
  \<open>Rest\<close> mode no position is ever reported.
\<close>

theorem shadow_book_exact:
  assumes "lossless ar s" "representable s B" "\<forall>op\<in>set ops. shadow_op_on_scale s op"
    and "sum_list (map op_quantity ops) \<le> B" "shadow_run ar simple ops (new_shadow c) = Some a"
  shows "(\<forall>asset. sp_net_quantity (shadow_position_of asset a) = orders_net asset (sb_orders (sa_book a)))
    \<and> distinct (map vo_client_order_id (sb_orders (sa_book a)))
    \<and> (sc_fill_mode c = Rest \<longrightarrow> shadow_positions a = (Ok [], a))"
proof -
  have inv: "shadow_inv s a"
    using shadow_run_inv [OF assms(1,2) new_shadow_inv(1) assms(3) _ assms(5)] assms(4)
    by (simp add: new_shadow_inv(2))
  have "shadow_positions a = (Ok [], a)" if "sc_fill_mode c = Rest"
    using shadow_run_rest [OF _ assms(5)] that by (simp add: new_shadow_def shadow_positions_def)
  with inv show ?thesis by (simp add: shadow_inv_def)
qed

definition demo_shadow :: shadow_adapter where
  "demo_shadow = new_shadow (with_fill_mode ImmediateFill (new_shadow_config Hyperliquid))"

lemmas shadow_eval = shadow_run.simps shadow_exec_def shadow_submit_def guard_reduce_only_def place_order_def placed_book_def
  placed_id_def fill_price_of_def new_order_snapshot_def shadow_apply_fill_def average_price_def
  book_position_def shadow_position_of_def default_shadow_position_def sign_of_def signed_def
  om_get_def bounded_ops_def in_range_def demo_shadow_def new_shadow_def with_fill_mode_def
  new_shadow_config_def demo_intent_def Let_def

theorem shadow_book_exact_witness:
  "\<exists>a. shadow_run bounded_ops uuid_hex [SubmitOp demo_intent] demo_shadow = Some a
     \<and> sp_net_quantity (shadow_position_of ''HYPE'' a) = orders_net ''HYPE'' (sb_orders (sa_book a))"
proof -
  have ll: "lossless bounded_ops 0" by (rule lossless_bounded_ops) simp
  have "\<exists>a. shadow_run bounded_ops uuid_hex [SubmitOp demo_intent] demo_shadow = Some a"
    by (simp add: shadow_eval)
  then obtain a where a: "shadow_run bounded_ops uuid_hex [SubmitOp demo_intent] demo_shadow = Some a" by blast
  have q: "oi_quantity demo_intent = 10" by (simp add: demo_intent_def)
  have "\<forall>op\<in>set [SubmitOp demo_intent]. shadow_op_on_scale 0 op" "sum_list (map op_quantity [SubmitOp demo_intent]) \<le> 10"
    "representable 0 10"
    by (simp_all add: shadow_op_on_scale_def op_quantity_def q representable_numeral)
  from shadow_book_exact [OF ll this(3,1,2) a [unfolded demo_shadow_def]] a show ?thesis by blast
qed

text \<open>
  Submission is idempotent for orders that may increase exposure: repeating an acknowledged
  intent returns the same acknowledgement and changes nothing.
\<close>

theorem shadow_submit_idempotent:
  assumes "shadow_submit ar simple i a = (Ok ack, a')" "oi_effect i = Increase"
  shows "shadow_submit ar simple i a' = (Ok ack, a')"
proof -
  from assms(1) have "Ok ack \<noteq> Panic" by simp
  from assms(1) this show ?thesis
  proof (cases rule: shadow_submit_cases)
    case (adopted v)
    then show ?thesis using assms(1) by simp
  next
    case placed
    have p: "ack = \<lparr>va_venue_order_id = placed_id a, va_client_order_id = client_order_id simple i\<rparr>"
      "sb_orders (sa_book a') = sb_orders (sa_book a) @ [placed_snapshot simple i a]" "sa_config a' = sa_config a"
      using place_order_orders [OF placed(3)] by auto
    have "find (same_client simple i) (sb_orders (sa_book a')) = Some (placed_snapshot simple i a)"
      using placed(2) unfolding p(2)
      by (auto simp: find_Some_iff find_None_iff same_client_def nth_append intro!: exI [of _ "length (sb_orders (sa_book a))"])
    then show ?thesis using placed(1) p assms(2)
      by (simp add: shadow_submit_def passes_guard_def same_client_def [abs_def])
  qed simp
qed

theorem shadow_submit_idempotent_witness:
  "\<exists>ack a. shadow_submit bounded_ops uuid_hex demo_intent demo_shadow = (Ok ack, a)
     \<and> shadow_submit bounded_ops uuid_hex demo_intent a = (Ok ack, a)"
proof -
  have "\<exists>ack a. shadow_submit bounded_ops uuid_hex demo_intent demo_shadow = (Ok ack, a)"
    by (simp add: shadow_eval)
  moreover have "oi_effect demo_intent = Increase" by (simp add: demo_intent_def)
  ultimately show ?thesis using shadow_submit_idempotent by blast
qed

lemma guard_reduce_only_Ok:
  assumes "guard_reduce_only ar asset sd q a = Ok ()"
    and "checked_add ar (sp_net_quantity (shadow_position_of asset a)) (signed q sd) = Some after"
    and "after = sp_net_quantity (shadow_position_of asset a) + signed q sd"
  shows "let n = sp_net_quantity (shadow_position_of asset a) in
    n \<noteq> 0 \<and> (0 \<le> after \<and> after < n \<or> n < after \<and> after \<le> 0)"
  using assms
  by (auto simp: guard_reduce_only_def Let_def sign_of_def signed_def split: if_splits side.splits)

lemma submit_reduce_only_net:
  assumes "lossless ar s" "shadow_inv s a" "representable s (oi_quantity i)" "representable s B"
    and "requested_total a + max (oi_quantity i) 0 \<le> B"
    and "shadow_submit ar simple i a = (Ok ack, a')" "oi_effect i = ReduceOnly"
  shows "let n = sp_net_quantity (shadow_position_of (oi_asset i) a); n1 = n + signed (oi_quantity i) (oi_side i) in
    n \<noteq> 0 \<and> (0 \<le> n1 \<and> n1 < n \<or> n < n1 \<and> n1 \<le> 0)"
proof -
  have g: "passes_guard ar i a"
    using assms(6) by (cases rule: shadow_submit_cases [OF assms(6)]) simp_all
  then have q: "0 < oi_quantity i" and go: "guard_reduce_only ar (oi_asset i) (oi_side i) (oi_quantity i) a = Ok ()"
    using assms(7) by (simp_all add: passes_guard_def)
  have rd: "representable s (signed (oi_quantity i) (oi_side i))"
    using assms(3) by (simp add: signed_def split: side.split)
  have net: "sp_net_quantity (shadow_position_of (oi_asset i) a) = orders_net (oi_asset i) (sb_orders (sa_book a))"
    using shadow_invD(4) [OF assms(2)] by (simp add: shadow_position_of_def)
  have "representable s (orders_net (oi_asset i) (sb_orders (sa_book a)) + signed (oi_quantity i) (oi_side i))"
    using placed_net_representable [OF assms(2) q assms(3,4)] assms(5) by simp
  then have "checked_add ar (sp_net_quantity (shadow_position_of (oi_asset i) a)) (signed (oi_quantity i) (oi_side i))
      = Some (sp_net_quantity (shadow_position_of (oi_asset i) a) + signed (oi_quantity i) (oi_side i))"
    unfolding net by (rule lossless_add [OF assms(1) shadow_invD(5) [OF assms(2)] rd])
  from guard_reduce_only_Ok [OF go this refl] show ?thesis by (simp add: Let_def)
qed

lemma placed_net:
  assumes "lossless ar s" "shadow_inv s a" "0 < oi_quantity i" "representable s (oi_quantity i)" "representable s B"
    and "requested_total a + oi_quantity i \<le> B" "place_order ar simple i a = (Ok ack, a')"
    and "find (same_client simple i) (sb_orders (sa_book a)) = None"
  shows "sp_net_quantity (shadow_position_of (oi_asset i) a') = sp_net_quantity (shadow_position_of (oi_asset i) a)
    + (if sc_fill_mode (sa_config a) = ImmediateFill then signed (oi_quantity i) (oi_side i) else 0)"
proof -
  have "shadow_inv s a'"
    using place_order_inv [OF assms(1-6) _ assms(7)] assms(8) by (simp add: same_client_def [abs_def])
  moreover have "sb_orders (sa_book a') = sb_orders (sa_book a) @ [placed_snapshot simple i a]"
    using place_order_orders [OF assms(7)] by auto
  ultimately show ?thesis
    using shadow_invD(4) [OF assms(2)] shadow_invD(4) by (simp add: shadow_position_of_def orders_net_snoc)
qed

text \<open>
  An accepted reduce-only order shrinks an existing position and never takes it through flat:
  the position after the call lies between zero and the position before it.
\<close>

theorem shadow_reduce_only_safe:
  assumes "lossless ar s" "shadow_inv s a" "representable s (oi_quantity i)" "representable s B"
    and "requested_total a + max (oi_quantity i) 0 \<le> B"
    and "shadow_submit ar simple i a = (Ok ack, a')" "oi_effect i = ReduceOnly"
  defines "n \<equiv> sp_net_quantity (shadow_position_of (oi_asset i) a)"
    and "n' \<equiv> sp_net_quantity (shadow_position_of (oi_asset i) a')"
  shows "n \<noteq> 0 \<and> (n' = n \<or> 0 \<le> n' \<and> n' < n \<or> n < n' \<and> n' \<le> 0)"
proof -
  note net = submit_reduce_only_net [OF assms(1-7), unfolded Let_def, folded n_def]
  from assms(6) have "Ok ack \<noteq> Panic" by simp
  from assms(6) this show ?thesis
  proof (cases rule: shadow_submit_cases)
    case placed
    have "0 < oi_quantity i" using placed(1) by (simp add: passes_guard_def)
    then have "n' = n + (if sc_fill_mode (sa_config a) = ImmediateFill then signed (oi_quantity i) (oi_side i) else 0)"
      using placed_net [OF assms(1,2) _ assms(3,4) _ placed(3,2)] assms(5) by (simp add: n_def n'_def)
    then show ?thesis using net by auto
  qed (use net in \<open>simp_all add: n_def n'_def\<close>)
qed

definition demo_close :: order_intent where
  "demo_close = demo_intent\<lparr>oi_intent_id := 8, oi_side := Sell, oi_effect := ReduceOnly\<rparr>"

definition demo_long :: shadow_adapter where
  "demo_long = snd (shadow_submit bounded_ops uuid_hex demo_intent demo_shadow)"

lemma demo_long_facts:
  "shadow_inv 0 demo_long" "requested_total demo_long \<le> 10"
  "sp_net_quantity (shadow_position_of ''HYPE'' demo_long) = 10" "sc_fill_mode (sa_config demo_long) = ImmediateFill"
  "shadow_submit bounded_ops uuid_hex demo_intent demo_shadow =
     (Ok \<lparr>va_venue_order_id = ''shadow-1'', va_client_order_id = client_order_id uuid_hex demo_intent\<rparr>, demo_long)"
proof -
  have sub: "fst (shadow_submit bounded_ops uuid_hex demo_intent demo_shadow)
     = Ok \<lparr>va_venue_order_id = ''shadow-1'', va_client_order_id = client_order_id uuid_hex demo_intent\<rparr>"
    by (simp add: shadow_eval saturating_add_def show_nat.simps)
  then show e: "shadow_submit bounded_ops uuid_hex demo_intent demo_shadow =
     (Ok \<lparr>va_venue_order_id = ''shadow-1'', va_client_order_id = client_order_id uuid_hex demo_intent\<rparr>, demo_long)"
    by (simp add: demo_long_def prod_eq_iff)
  have q: "oi_quantity demo_intent = 10" by (simp add: demo_intent_def)
  have ll: "lossless bounded_ops 0" by (rule lossless_bounded_ops) simp
  have "shadow_inv 0 demo_long \<and> requested_total demo_long \<le> 0 + max (oi_quantity demo_intent) 0"
    using shadow_submit_inv [OF ll new_shadow_inv(1) _ _ _ e [unfolded demo_shadow_def], of 10] q
    by (simp add: new_shadow_inv(2) representable_numeral)
  then show "shadow_inv 0 demo_long" "requested_total demo_long \<le> 10" by (simp_all add: q)
  show "sp_net_quantity (shadow_position_of ''HYPE'' demo_long) = 10" "sc_fill_mode (sa_config demo_long) = ImmediateFill"
    by (simp_all add: demo_long_def shadow_eval)
qed

lemma demo_close_accepted: "\<exists>ack a. shadow_submit bounded_ops uuid_hex demo_close demo_long = (Ok ack, a)"
  by (simp add: demo_long_def demo_close_def shadow_eval client_order_id_eq_iff [OF uuid_hex_ok])

lemma demo_close_simps [simp]:
  "oi_quantity demo_close = 10" "oi_effect demo_close = ReduceOnly" "oi_asset demo_close = ''HYPE''"
  by (simp_all add: demo_close_def demo_intent_def)

theorem shadow_reduce_only_safe_witness:
  "\<exists>ack a. shadow_submit bounded_ops uuid_hex demo_close demo_long = (Ok ack, a)
     \<and> sp_net_quantity (shadow_position_of ''HYPE'' a) \<in> {0..10}"
proof -
  obtain ack a where sub: "shadow_submit bounded_ops uuid_hex demo_close demo_long = (Ok ack, a)"
    using demo_close_accepted by blast
  have ll: "lossless bounded_ops 0" by (rule lossless_bounded_ops) simp
  have "representable 0 (oi_quantity demo_close)" "representable 0 20"
    "requested_total demo_long + max (oi_quantity demo_close) 0 \<le> 20"
    using demo_long_facts(2) by (simp_all add: representable_numeral)
  from shadow_reduce_only_safe [OF ll demo_long_facts(1) this sub] demo_long_facts(3) sub
  show ?thesis by auto
qed

text \<open>
  Idempotency does not extend to reduce-only orders: once a reduce-only order has closed the
  position, submitting the same intent again is rejected as flat instead of adopting the
  existing order, because the reduce-only guard runs before the client id is looked up.
\<close>

theorem shadow_reduce_only_replay_rejected:
  assumes "lossless ar s" "shadow_inv s a" "representable s (oi_quantity i)" "representable s B"
    and "requested_total a + max (oi_quantity i) 0 \<le> B" "sc_fill_mode (sa_config a) = ImmediateFill"
    and "find (same_client simple i) (sb_orders (sa_book a)) = None" "oi_effect i = ReduceOnly"
    and "oi_quantity i = \<bar>sp_net_quantity (shadow_position_of (oi_asset i) a)\<bar>"
    and "shadow_submit ar simple i a = (Ok ack, a')"
  shows "shadow_submit ar simple i a' =
      (Err (ExRejected (''reduce-only order for '' @ oi_asset i @ '' rejected: '' @ ''position is flat'')), a')
    \<and> order_by_client_id (client_order_id simple i) a' \<noteq> None"
proof -
  let ?n = "sp_net_quantity (shadow_position_of (oi_asset i) a)"
  have net: "?n \<noteq> 0 \<and> (0 \<le> ?n + signed (oi_quantity i) (oi_side i) \<and> ?n + signed (oi_quantity i) (oi_side i) < ?n
      \<or> ?n < ?n + signed (oi_quantity i) (oi_side i) \<and> ?n + signed (oi_quantity i) (oi_side i) \<le> 0)"
    using submit_reduce_only_net [OF assms(1-5,10,8)] by (simp add: Let_def)
  have placed: "place_order ar simple i a = (Ok ack, a')" "passes_guard ar i a"
    using assms(10) by (cases rule: shadow_submit_cases [OF assms(10)]; use assms(7) in simp)+
  have q: "0 < oi_quantity i" using placed(2) by (simp add: passes_guard_def)
  have "?n + signed (oi_quantity i) (oi_side i) = 0"
    using net assms(9) by (auto simp: signed_def split: side.splits)
  then have flat: "sp_net_quantity (shadow_position_of (oi_asset i) a') = 0"
    using placed_net [OF assms(1,2) q assms(3,4) _ placed(1) assms(7)] assms(5,6) q by simp
  have orders: "sb_orders (sa_book a') = sb_orders (sa_book a) @ [placed_snapshot simple i a]"
      "sa_config a' = sa_config a"
    using place_order_orders [OF placed(1)] by auto
  have "order_by_client_id (client_order_id simple i) a' \<noteq> None"
    by (simp add: order_by_client_id_def orders)
  moreover have "oi_venue i = sc_venue (sa_config a')"
    using placed(2) orders(2) by (simp add: passes_guard_def)
  ultimately show ?thesis using flat q assms(8)
    by (simp add: shadow_submit_def guard_reduce_only_def Let_def)
qed

theorem shadow_reduce_only_replay_rejected_witness:
  "\<exists>ack a e. shadow_submit bounded_ops uuid_hex demo_close demo_long = (Ok ack, a)
     \<and> shadow_submit bounded_ops uuid_hex demo_close a = (Err (ExRejected e), a)"
proof -
  obtain ack a where sub: "shadow_submit bounded_ops uuid_hex demo_close demo_long = (Ok ack, a)"
    using demo_close_accepted by blast
  have ll: "lossless bounded_ops 0" by (rule lossless_bounded_ops) simp
  have "representable 0 (oi_quantity demo_close)" "representable 0 20"
    "requested_total demo_long + max (oi_quantity demo_close) 0 \<le> 20"
    using demo_long_facts(2) by (simp_all add: representable_numeral)
  moreover have "find (same_client uuid_hex demo_close) (sb_orders (sa_book demo_long)) = None"
    by (simp add: demo_long_def demo_close_def shadow_eval same_client_def client_order_id_eq_iff [OF uuid_hex_ok])
  ultimately show ?thesis
    using shadow_reduce_only_replay_rejected [OF ll demo_long_facts(1) _ _ _ demo_long_facts(4) _ _ _ sub, of 20]
      demo_long_facts(3) sub by auto
qed

end
