(* ===== verification/Composite.thy ===== *)
theory Composite
  imports Shadow
begin

text \<open>
  The per-instrument router of \<open>rust/crates/pg-execution/src/composite.rs\<close>. The children are
  adapter states of one operations record; the composite is an adapter again, over the map of its
  children.
\<close>

section \<open>Data and administration\<close>

record 'st composite =
  ca_venue :: "venue option"
  ca_per_asset :: "(string, 'st) omap"

definition new_composite :: "venue \<Rightarrow> 'st composite" where
  "new_composite v = \<lparr>ca_venue = Some v, ca_per_asset = []\<rparr>"

definition register_instrument :: "string \<Rightarrow> 'st \<Rightarrow> 'st composite \<Rightarrow> 'st composite" where
  "register_instrument asset child c = c\<lparr>ca_per_asset := om_insert asset child (ca_per_asset c)\<rparr>"

definition remove_instrument :: "string \<Rightarrow> 'st composite \<Rightarrow> 'st option \<times> 'st composite" where
  "remove_instrument asset c =
     (om_get asset (ca_per_asset c), c\<lparr>ca_per_asset := om_remove asset (ca_per_asset c)\<rparr>)"

definition composite_assets :: "'st composite \<Rightarrow> string list" where
  "composite_assets c = om_keys (ca_per_asset c)"

definition composite_len :: "'st composite \<Rightarrow> nat" where
  "composite_len c = length (ca_per_asset c)"

definition composite_is_empty :: "'st composite \<Rightarrow> bool" where
  "composite_is_empty c \<longleftrightarrow> composite_len c = 0"

fun debug_venue_option :: "venue option \<Rightarrow> string" where
  "debug_venue_option None = ''None''"
| "debug_venue_option (Some v) = ''Some('' @ debug_venue v @ '')''"

definition no_adapter_error :: "string \<Rightarrow> 'st composite \<Rightarrow> execution_error" where
  "no_adapter_error asset c =
     ExUnsupported (''no execution adapter is registered for asset '' @ asset
       @ '' on venue '' @ debug_venue_option (ca_venue c))"

section \<open>Routing\<close>

text \<open>One call on the child registered for the asset.\<close>

definition route :: "string \<Rightarrow> ('a, 'st) call \<Rightarrow> ('a, 'st composite) call" where
  "route asset f c =
     (case om_get asset (ca_per_asset c) of
        None \<Rightarrow> (Err (no_adapter_error asset c), c)
      | Some child \<Rightarrow>
          (case f child of
             (r, child') \<Rightarrow> (r, c\<lparr>ca_per_asset := om_insert asset child' (ca_per_asset c)\<rparr>)))"

definition composite_submit :: "'st adapter_ops \<Rightarrow> order_intent \<Rightarrow> (venue_order_ack, 'st composite) call" where
  "composite_submit ops i c =
     (case ca_venue c of
        Some v \<Rightarrow>
          if oi_venue i \<noteq> v then
            (Err (ExUnsupported (''composite adapter for '' @ debug_venue v
               @ '' received an intent for '' @ debug_venue (oi_venue i))), c)
          else route (oi_asset i) (ad_submit ops i) c
      | None \<Rightarrow> route (oi_asset i) (ad_submit ops i) c)"

definition composite_cancel :: "'st adapter_ops \<Rightarrow> order_locator \<Rightarrow> (unit, 'st composite) call" where
  "composite_cancel ops loc c = route (ol_asset loc) (ad_cancel ops loc) c"

section \<open>Reading the children\<close>

text \<open>
  Reads the children in key order and merges what they report; the first error or conflict ends
  the loop.
\<close>

fun merge_children ::
  "('x list, 'st) call \<Rightarrow> ('x \<Rightarrow> 'k::linorder) \<Rightarrow> ('x \<Rightarrow> 'x \<Rightarrow> bool) \<Rightarrow> ('k \<Rightarrow> execution_error)
     \<Rightarrow> (string, 'st) omap \<Rightarrow> ('k, 'x) omap \<Rightarrow> (execution_error, ('k, 'x) omap) outcome \<times> (string, 'st) omap" where
  "merge_children read key agree conflict [] unique = (Ok unique, [])"
| "merge_children read key agree conflict ((asset, child) # cs) unique =
     (case read child of
        (Ok xs, child') \<Rightarrow>
          (case merge_pairs om_get om_insert agree (map (\<lambda>x. (key x, x)) xs) unique of
             Inl k \<Rightarrow> (Err (conflict k), (asset, child') # cs)
           | Inr unique' \<Rightarrow>
               (case merge_children read key agree conflict cs unique' of
                  (r, cs') \<Rightarrow> (r, (asset, child') # cs')))
      | (Err e, child') \<Rightarrow> (Err e, (asset, child') # cs)
      | (Panic, child') \<Rightarrow> (Panic, (asset, child') # cs))"

definition merged_values ::
  "(execution_error, ('k, 'x) omap) outcome \<Rightarrow> (execution_error, 'x list) outcome" where
  "merged_values r = and_then r (\<lambda>m. Ok (om_values m))"

definition open_order_key :: "venue_order_snapshot \<Rightarrow> string" where
  "open_order_key v =
     (case vo_client_order_id v of Some cid \<Rightarrow> cid | None \<Rightarrow> ''venue:'' @ vo_venue_order_id v)"

definition open_orders_agree :: "venue_order_snapshot \<Rightarrow> venue_order_snapshot \<Rightarrow> bool" where
  "open_orders_agree existing ord \<longleftrightarrow>
     \<not> (vo_asset existing \<noteq> vo_asset ord
        \<or> vo_requested_quantity existing \<noteq> vo_requested_quantity ord
        \<or> vo_filled_quantity existing \<noteq> vo_filled_quantity ord
        \<or> vo_state existing \<noteq> vo_state ord)"

definition composite_open_orders :: "'st adapter_ops \<Rightarrow> (venue_order_snapshot list, 'st composite) call" where
  "composite_open_orders ops c =
     (case merge_children (ad_open_orders ops) open_order_key open_orders_agree
             (\<lambda>k. ExUnknown (''conflicting composite order snapshots for '' @ k)) (ca_per_asset c) [] of
        (r, cs) \<Rightarrow> (merged_values r, c\<lparr>ca_per_asset := cs\<rparr>))"

definition first_child :: "('a, 'st) call \<Rightarrow> ('a, 'st composite) call" where
  "first_child f c =
     (case ca_per_asset c of
        [] \<Rightarrow> (Err (ExUnsupported ''composite has no instrument adapters''), c)
      | (asset, child) # cs \<Rightarrow>
          (case f child of (r, child') \<Rightarrow> (r, c\<lparr>ca_per_asset := (asset, child') # cs\<rparr>)))"

definition composite_positions :: "'st adapter_ops \<Rightarrow> (venue_position_snapshot list, 'st composite) call" where
  "composite_positions ops c = first_child (ad_positions ops) c"

text \<open>A pair key, ordered component by component as the derived order of a Rust pair.\<close>

datatype fill_key = FillKey (fk_asset: string) (fk_fill: string)

instantiation fill_key :: linorder
begin

definition less_eq_fill_key :: "fill_key \<Rightarrow> fill_key \<Rightarrow> bool" where
  "less_eq_fill_key a b \<longleftrightarrow> fk_asset a < fk_asset b \<or> fk_asset a = fk_asset b \<and> fk_fill a \<le> fk_fill b"

definition less_fill_key :: "fill_key \<Rightarrow> fill_key \<Rightarrow> bool" where
  "less_fill_key a b \<longleftrightarrow> fk_asset a < fk_asset b \<or> fk_asset a = fk_asset b \<and> fk_fill a < fk_fill b"

instance
  by standard (auto simp: less_eq_fill_key_def less_fill_key_def fill_key.expand)

end

definition composite_fills :: "'st adapter_ops \<Rightarrow> (venue_fill_snapshot list, 'st composite) call" where
  "composite_fills ops c =
     (case merge_children (ad_fills ops) (\<lambda>f. FillKey (vf_asset f) (vf_venue_fill_id f)) (\<lambda>x y. x = y)
             (\<lambda>k. ExUnknown (''conflicting composite fill snapshots for '' @ fk_asset k @ '':'' @ fk_fill k))
             (ca_per_asset c) [] of
        (r, cs) \<Rightarrow> (merged_values r, c\<lparr>ca_per_asset := cs\<rparr>))"

definition composite_account_snapshot :: "'st adapter_ops \<Rightarrow> (account_snapshot, 'st composite) call" where
  "composite_account_snapshot ops c = first_child (ad_account_snapshot ops) c"

fun find_in_children ::
  "'st adapter_ops \<Rightarrow> string \<Rightarrow> (string, 'st) omap
     \<Rightarrow> (execution_error, venue_order_snapshot option) outcome \<times> (string, 'st) omap" where
  "find_in_children ops cid [] = (Ok None, [])"
| "find_in_children ops cid ((asset, child) # cs) =
     (case ad_find_order_by_client_id ops cid child of
        (Ok (Some v), child') \<Rightarrow> (Ok (Some v), (asset, child') # cs)
      | (Ok None, child') \<Rightarrow>
          (case find_in_children ops cid cs of (r, cs') \<Rightarrow> (r, (asset, child') # cs'))
      | (Err e, child') \<Rightarrow> (Err e, (asset, child') # cs)
      | (Panic, child') \<Rightarrow> (Panic, (asset, child') # cs))"

definition composite_find :: "'st adapter_ops \<Rightarrow> string \<Rightarrow> (venue_order_snapshot option, 'st composite) call" where
  "composite_find ops cid c =
     (case find_in_children ops cid (ca_per_asset c) of (r, cs) \<Rightarrow> (r, c\<lparr>ca_per_asset := cs\<rparr>))"

definition composite_ops :: "'st adapter_ops \<Rightarrow> 'st composite adapter_ops" where
  "composite_ops ops =
     \<lparr>ad_submit = composite_submit ops, ad_cancel = composite_cancel ops,
      ad_open_orders = composite_open_orders ops, ad_positions = composite_positions ops,
      ad_fills = composite_fills ops, ad_account_snapshot = composite_account_snapshot ops,
      ad_find_order_by_client_id = composite_find ops\<rparr>"

section \<open>Lemmas\<close>

lemma route_frame:
  assumes "om_sorted (ca_per_asset c)" "route asset f c = (r, c')" "other \<noteq> asset"
  shows "om_get other (ca_per_asset c') = om_get other (ca_per_asset c)"
  using assms by (auto simp: route_def om_get_insert split: option.splits prod.splits)

text \<open>Reads that leave the children as they are, as the adapters' read methods do.\<close>

lemma merge_children_ok:
  assumes "merge_children read key agree conflict cs unique = (Ok m, cs')" "om_sorted unique"
    and "\<And>child. snd (read child) = child"
  shows "om_sorted m \<and> cs' = cs
    \<and> (\<forall>k x. om_get k unique = Some x \<longrightarrow> om_get k m = Some x)
    \<and> (\<forall>(asset, child)\<in>set cs. \<exists>xs. fst (read child) = Ok xs
         \<and> (\<forall>x\<in>set xs. \<exists>kept. om_get (key x) m = Some kept \<and> (kept = x \<or> agree kept x)))
    \<and> (\<forall>k x. om_get k m = Some x \<longrightarrow> om_get k unique = Some x
         \<or> (\<exists>(asset, child)\<in>set cs. \<exists>xs. fst (read child) = Ok xs \<and> x \<in> set xs \<and> key x = k))"
  using assms(1,2)
proof (induction cs arbitrary: unique cs')
  case (Cons ac cs)
  obtain asset child where ac: "ac = (asset, child)" by (cases ac)
  obtain xs u cs1 where s: "read child = (Ok xs, child)"
      "merge_pairs om_get om_insert agree (map (\<lambda>x. (key x, x)) xs) unique = Inr u"
      "merge_children read key agree conflict cs u = (Ok m, cs1)" "cs' = (asset, child) # cs1"
    using Cons.prems(1) ac assms(3) [of child]
    by (auto split: prod.splits outcome.splits sum.splits)
  note mg = om.merge_ok [OF Cons.prems(2) s(2)]
  note ih = Cons.IH [OF s(3)]
  have get_u: "om_get k u = (case om_get k unique of Some v \<Rightarrow> Some v | None \<Rightarrow> map_of (map (\<lambda>x. (key x, x)) xs) k)" for k
    using mg by blast
  have new: "map_of (map (\<lambda>x. (key x, x)) xs) k = Some x \<Longrightarrow> x \<in> set xs \<and> key x = k" for k x
    by (auto dest!: map_of_SomeD)
  have keep: "om_get k unique = Some x \<Longrightarrow> om_get k m = Some x" for k x
    using ih mg get_u [of k] by auto
  have all: "\<exists>kept. om_get (key x) m = Some kept \<and> (kept = x \<or> agree kept x)" if "x \<in> set xs" for x
    using mg ih that by fastforce
  have from_c: "om_get k unique = Some x \<or> (\<exists>(a, ch)\<in>set (ac # cs). \<exists>xs. fst (read ch) = Ok xs \<and> x \<in> set xs \<and> key x = k)"
    if "om_get k m = Some x" for k x
  proof -
    have "om_get k u = Some x \<or> (\<exists>(a, ch)\<in>set cs. \<exists>xs. fst (read ch) = Ok xs \<and> x \<in> set xs \<and> key x = k)"
      using ih mg that by blast
    then show ?thesis using get_u [of k] new [of k x] s(1) ac by (auto split: option.splits)
  qed
  show ?case using ih mg keep all from_c s(1,4) ac by auto
qed (auto split: option.splits)

section \<open>A composite of recoverable adapters is recoverable\<close>

definition composite_good :: "('st \<Rightarrow> bool) \<Rightarrow> 'st composite \<Rightarrow> bool" where
  "composite_good good c \<longleftrightarrow>
     om_sorted (ca_per_asset c) \<and> (\<forall>a ch. om_get a (ca_per_asset c) = Some ch \<longrightarrow> good ch)"

text \<open>No other instrument's adapter knows the client id.\<close>

definition composite_takes ::
  "'st adapter_ops \<Rightarrow> (uuid \<Rightarrow> string) \<Rightarrow> (order_intent \<Rightarrow> 'st \<Rightarrow> bool) \<Rightarrow> order_intent \<Rightarrow> 'st composite \<Rightarrow> bool" where
  "composite_takes ops simple takes i c \<longleftrightarrow>
     (\<forall>a ch. om_get a (ca_per_asset c) = Some ch \<longrightarrow>
        (if a = oi_asset i then takes i ch
         else fst (ad_find_order_by_client_id ops (client_order_id simple i) ch) = Ok None))"

lemma find_in_children_unique:
  assumes "om_sorted cs" "om_get asset cs = Some ch"
    and "\<forall>a ch. om_get a cs = Some ch \<longrightarrow> snd (ad_find_order_by_client_id ops cid ch) = ch"
    and "fst (ad_find_order_by_client_id ops cid ch) = Ok (Some v)"
    and "\<forall>a ch. om_get a cs = Some ch \<and> a \<noteq> asset \<longrightarrow> fst (ad_find_order_by_client_id ops cid ch) = Ok None"
  shows "find_in_children ops cid cs = (Ok (Some v), cs)"
  using assms
proof (induction cs)
  case (Cons x cs)
  obtain a c where x: "x = (a, c)" by (cases x)
  have sorted: "om_sorted cs" "om_get a cs = None"
    using Cons.prems(1) x by (auto simp: om_sorted_def om_get_def map_of_eq_None_iff)
  have sub: "om_get b cs = Some d \<Longrightarrow> om_get b (x # cs) = Some d \<and> b \<noteq> a" for b d
    using sorted(2) x by (auto simp: om_get_def)
  have ax: "om_get a (x # cs) = Some c" by (simp add: x om_get_def)
  then have c: "snd (ad_find_order_by_client_id ops cid c) = c" using Cons.prems(3) by blast
  show ?case
  proof (cases "a = asset")
    case True
    then have "ad_find_order_by_client_id ops cid c = (Ok (Some v), c)"
      using Cons.prems(2,4) ax c by (simp add: prod_eq_iff)
    then show ?thesis using x by simp
  next
    case False
    then have "fst (ad_find_order_by_client_id ops cid c) = Ok None"
      using Cons.prems(5) ax by blast
    then have "ad_find_order_by_client_id ops cid c = (Ok None, c)" using c by (simp add: prod_eq_iff)
    moreover have "find_in_children ops cid cs = (Ok (Some v), cs)"
    proof (rule Cons.IH [OF sorted(1)])
      show "om_get asset cs = Some ch" using Cons.prems(2) False x by (simp add: om_get_def)
    qed (use Cons.prems(3,4,5) sub in blast)+
    ultimately show ?thesis using x by simp
  qed
qed (simp add: om_get_def)

lemma find_in_children_only:
  assumes "\<forall>(a, ch)\<in>set cs. good ch"
    and pure: "\<And>ch r ch'. good ch \<Longrightarrow> ad_find_order_by_client_id ops cid ch = (r, ch') \<Longrightarrow>
      ch' = ch \<and> r \<noteq> Panic \<and> (\<forall>v. r = Ok (Some v) \<longrightarrow> vo_client_order_id v = Some cid)"
    and "find_in_children ops cid cs = (r, cs')"
  shows "cs' = cs \<and> r \<noteq> Panic \<and> (\<forall>v. r = Ok (Some v) \<longrightarrow> vo_client_order_id v = Some cid)"
  using assms(1,3)
proof (induction cs arbitrary: r cs')
  case (Cons x cs)
  obtain a c where x: "x = (a, c)" by (cases x)
  obtain r1 c1 where f: "ad_find_order_by_client_id ops cid c = (r1, c1)"
    by (cases "ad_find_order_by_client_id ops cid c")
  have p: "c1 = c" "r1 \<noteq> Panic" "\<forall>v. r1 = Ok (Some v) \<longrightarrow> vo_client_order_id v = Some cid"
    using pure [OF _ f] Cons.prems(1) x by auto
  obtain r2 cs2 where g: "find_in_children ops cid cs = (r2, cs2)" by (cases "find_in_children ops cid cs")
  have ih: "cs2 = cs \<and> r2 \<noteq> Panic \<and> (\<forall>v. r2 = Ok (Some v) \<longrightarrow> vo_client_order_id v = Some cid)"
    using Cons.IH [OF _ g] Cons.prems(1) by simp
  show ?case using Cons.prems(2) x f g p ih by (auto split: outcome.splits option.splits)
qed simp

context recoverable_adapter
begin

lemma composite_submit_route:
  assumes "composite_submit ops i c = (r, c')"
  shows "c' = c \<and> (\<exists>e. r = Err e) \<or> (\<exists>ch ch'. om_get (oi_asset i) (ca_per_asset c) = Some ch
    \<and> ad_submit ops i ch = (r, ch') \<and> c' = c\<lparr>ca_per_asset := om_insert (oi_asset i) ch' (ca_per_asset c)\<rparr>)"
  using assms by (auto simp: composite_submit_def route_def split: option.splits if_splits prod.splits)

lemma composite_submit_good:
  assumes "composite_good good c" "composite_submit ops i c = (r, c')" "r \<noteq> Panic"
  shows "composite_good good c'"
  using composite_submit_route [OF assms(2)] assms(1,3) submit_good
  by (auto simp: composite_good_def om_get_insert om_insert_sorted split: if_splits) blast+

lemma composite_find_pure:
  assumes "composite_good good c" "composite_find ops cid c = (r, c')"
  shows "c' = c \<and> r \<noteq> Panic \<and> (\<forall>v. r = Ok (Some v) \<longrightarrow> vo_client_order_id v = Some cid)"
proof -
  obtain cs where cs: "find_in_children ops cid (ca_per_asset c) = (r, cs)" "c' = c\<lparr>ca_per_asset := cs\<rparr>"
    using assms(2) by (auto simp: composite_find_def split: prod.splits)
  have "\<forall>(a, ch)\<in>set (ca_per_asset c). good ch"
    using assms(1) om_entries_get [of "ca_per_asset c"] by (auto simp: composite_good_def)
  from find_in_children_only [OF this find_only cs(1)] cs(2) show ?thesis by auto
qed

lemma composite_submit_found:
  assumes "composite_good good c" "composite_takes ops simple takes i c" "composite_submit ops i c = (Ok ack, c')"
  shows "va_client_order_id ack = client_order_id simple i \<and>
    (\<exists>v. composite_find ops (client_order_id simple i) c' = (Ok (Some v), c')
       \<and> vo_client_order_id v = Some (client_order_id simple i)
       \<and> vo_asset v = oi_asset i \<and> vo_side v = oi_side i \<and> vo_requested_quantity v = oi_quantity i
       \<and> vo_venue_order_id v = va_venue_order_id ack)"
proof -
  let ?cid = "client_order_id simple i"
  obtain ch ch' where ch: "om_get (oi_asset i) (ca_per_asset c) = Some ch" "ad_submit ops i ch = (Ok ack, ch')"
      "c' = c\<lparr>ca_per_asset := om_insert (oi_asset i) ch' (ca_per_asset c)\<rparr>"
    using composite_submit_route [OF assms(3)] by auto
  have sorted: "om_sorted (ca_per_asset c)" and g: "good ch" and t: "takes i ch"
    using assms(1,2) ch(1) by (auto simp: composite_good_def composite_takes_def)
  obtain v where v: "va_client_order_id ack = ?cid" "ad_find_order_by_client_id ops ?cid ch' = (Ok (Some v), ch')"
      "vo_client_order_id v = Some ?cid" "vo_asset v = oi_asset i" "vo_side v = oi_side i"
      "vo_requested_quantity v = oi_quantity i" "vo_venue_order_id v = va_venue_order_id ack"
    using submit_found [OF g t ch(2)] by blast
  have get: "om_get a (ca_per_asset c') = (if a = oi_asset i then Some ch' else om_get a (ca_per_asset c))" for a
    using ch(3) sorted by (simp add: om_get_insert)
  have good': "composite_good good c'" using composite_submit_good [OF assms(1,3)] by simp
  have pure: "snd (ad_find_order_by_client_id ops ?cid d) = d" if "om_get a (ca_per_asset c') = Some d" for a d
  proof -
    have "good d" using good' that by (simp add: composite_good_def)
    then show ?thesis using find_only [of d ?cid] by (metis prod.collapse)
  qed
  have "find_in_children ops ?cid (ca_per_asset c') = (Ok (Some v), ca_per_asset c')"
  proof (rule find_in_children_unique [where asset = "oi_asset i" and ch = ch'])
    show "\<forall>a d. om_get a (ca_per_asset c') = Some d \<and> a \<noteq> oi_asset i \<longrightarrow>
        fst (ad_find_order_by_client_id ops ?cid d) = Ok None"
      using assms(2) by (auto simp: get composite_takes_def)
  qed (use v(2) pure get good' in \<open>auto simp: composite_good_def\<close>)
  then have "composite_find ops ?cid c' = (Ok (Some v), c')" by (simp add: composite_find_def)
  with v show ?thesis by blast
qed

lemma composite_recoverable:
  "recoverable_adapter (composite_ops ops) simple (composite_good good) (composite_takes ops simple takes)"
proof (unfold_locales, goal_cases)
  case (1 st i r st')
  then show ?case using composite_submit_good by (simp add: composite_ops_def)
next
  case (2 st i ack st')
  then show ?case using composite_submit_found by (simp add: composite_ops_def)
next
  case (3 st cid found st')
  then show ?case using composite_find_pure by (simp add: composite_ops_def)
qed

end

interpretation composite_shadow: recoverable_adapter "composite_ops (shadow_ops ar simple)" simple
    "composite_good client_ids_ok" "composite_takes (shadow_ops ar simple) simple (shadow_takes simple)"
  for ar simple
  by (rule shadow.composite_recoverable)

section \<open>Properties\<close>

text \<open>
  Orders are routed by their own asset and nothing else: a submission gives exactly the answer
  of the adapter registered for the intent's asset, leaves every other adapter as it was, and an
  unregistered asset or a foreign venue is an error that changes nothing.
\<close>

theorem composite_routes_by_asset:
  assumes "om_sorted (ca_per_asset c)" "composite_submit ops i c = (r, c')"
  shows "(case om_get (oi_asset i) (ca_per_asset c) of
            Some ch \<Rightarrow> (\<forall>v. ca_venue c = Some v \<longrightarrow> v = oi_venue i) \<longrightarrow>
              ad_submit ops i ch = (r, the (om_get (oi_asset i) (ca_per_asset c')))
          | None \<Rightarrow> (\<exists>why. r = Err (ExUnsupported why)) \<and> c' = c)
    \<and> (\<forall>v. ca_venue c = Some v \<and> v \<noteq> oi_venue i \<longrightarrow> (\<exists>why. r = Err (ExUnsupported why)) \<and> c' = c)
    \<and> (\<forall>other. other \<noteq> oi_asset i \<longrightarrow> om_get other (ca_per_asset c') = om_get other (ca_per_asset c))"
proof (cases "\<exists>v. ca_venue c = Some v \<and> v \<noteq> oi_venue i")
  case True
  then show ?thesis using assms(2) by (auto simp: composite_submit_def split: option.split)
next
  case False
  then have rt: "route (oi_asset i) (ad_submit ops i) c = (r, c')"
    using assms(2) by (auto simp: composite_submit_def split: option.splits)
  have "om_get other (ca_per_asset c') = om_get other (ca_per_asset c)" if "other \<noteq> oi_asset i" for other
    by (rule route_frame [OF assms(1) rt that])
  moreover have "case om_get (oi_asset i) (ca_per_asset c) of
            Some ch \<Rightarrow> ad_submit ops i ch = (r, the (om_get (oi_asset i) (ca_per_asset c')))
          | None \<Rightarrow> (\<exists>why. r = Err (ExUnsupported why)) \<and> c' = c"
    using rt assms(1) by (auto simp: route_def no_adapter_error_def om_get_insert split: option.splits prod.splits)
  ultimately show ?thesis using False by (auto split: option.splits)
qed

definition demo_composite :: "shadow_adapter composite" where
  "demo_composite = register_instrument ''HYPE'' demo_shadow
     (register_instrument ''BTC'' demo_shadow (new_composite Hyperliquid))"

theorem composite_routes_by_asset_witness:
  "om_get ''BTC'' (ca_per_asset (snd (composite_submit (shadow_ops bounded_ops uuid_hex) demo_intent demo_composite)))
     = om_get ''BTC'' (ca_per_asset demo_composite)"
proof -
  have "om_sorted (ca_per_asset demo_composite)"
    by (simp add: demo_composite_def register_instrument_def new_composite_def om_insert_sorted del: om_insert.simps)
      (simp add: om_sorted_def)
  then show ?thesis
    using composite_routes_by_asset [of demo_composite "shadow_ops bounded_ops uuid_hex" demo_intent]
    by (cases "composite_submit (shadow_ops bounded_ops uuid_hex) demo_intent demo_composite")
      (auto simp: demo_intent_def)
qed

text \<open>
  The merged open orders are complete, sound and unambiguous: when every adapter's read leaves
  it unchanged and the merge succeeds, each order any adapter reported is represented by a
  snapshot of the same key that agrees on asset, quantities and state, each returned snapshot was
  reported by some adapter, and no key is returned twice. An adapter's read error is never
  swallowed.
\<close>

theorem composite_open_orders_exact:
  assumes "\<And>ch. snd (ad_open_orders ops ch) = ch" "composite_open_orders ops c = (Ok vs, c')"
  shows "c' = c \<and> distinct (map open_order_key vs)
    \<and> (\<forall>(a, ch)\<in>set (ca_per_asset c). \<exists>xs. fst (ad_open_orders ops ch) = Ok xs
         \<and> (\<forall>x\<in>set xs. \<exists>v\<in>set vs. open_order_key v = open_order_key x \<and> open_orders_agree v x))
    \<and> (\<forall>v\<in>set vs. \<exists>(a, ch)\<in>set (ca_per_asset c). \<exists>xs. fst (ad_open_orders ops ch) = Ok xs \<and> v \<in> set xs)"
proof -
  obtain m cs where m: "merge_children (ad_open_orders ops) open_order_key open_orders_agree
        (\<lambda>k. ExUnknown (''conflicting composite order snapshots for '' @ k)) (ca_per_asset c) [] = (Ok m, cs)"
      "vs = om_values m" "c' = c\<lparr>ca_per_asset := cs\<rparr>"
    using assms(2) by (auto simp: composite_open_orders_def merged_values_def outcome_simps split: prod.splits)
  have "om_sorted ([] :: (string, venue_order_snapshot) omap)" by (simp add: om_sorted_def)
  note ok = merge_children_ok [OF m(1) this assms(1)]
  have sm: "om_sorted m" using ok by (rule conjunct1)
  have cs: "cs = ca_per_asset c" using ok by simp
  have src: "\<exists>(a, ch)\<in>set (ca_per_asset c). \<exists>xs. fst (ad_open_orders ops ch) = Ok xs \<and> v \<in> set xs \<and> open_order_key v = k"
    if "om_get k m = Some v" for k v
    using ok that by (simp add: om_get_def)
  have entry: "(k, v) \<in> set m \<longleftrightarrow> om_get k m = Some v" for k v
    by (rule om_entries_get [OF sm])
  have key: "open_order_key v = k" if "(k, v) \<in> set m" for k v
    using src that entry by blast
  have vals: "v \<in> set vs \<longleftrightarrow> (open_order_key v, v) \<in> set m" for v
    using key by (force simp: m(2) om_values_def)
  have "map open_order_key vs = map fst m"
    using key by (auto simp: m(2) om_values_def)
  then have "distinct (map open_order_key vs)" using om_sorted_distinct [OF sm] by simp
  moreover have "\<exists>(a, ch)\<in>set (ca_per_asset c). \<exists>xs. fst (ad_open_orders ops ch) = Ok xs \<and> v \<in> set xs" if "v \<in> set vs" for v
    using src that vals entry by blast
  moreover have "\<exists>xs. fst (ad_open_orders ops ch) = Ok xs
      \<and> (\<forall>x\<in>set xs. \<exists>v\<in>set vs. open_order_key v = open_order_key x \<and> open_orders_agree v x)"
    if mem: "(a, ch) \<in> set (ca_per_asset c)" for a ch
  proof -
    obtain xs where xs: "fst (ad_open_orders ops ch) = Ok xs"
        "\<forall>x\<in>set xs. \<exists>kept. om_get (open_order_key x) m = Some kept \<and> (kept = x \<or> open_orders_agree kept x)"
      using ok mem by fast
    have "\<exists>v\<in>set vs. open_order_key v = open_order_key x \<and> open_orders_agree v x" if x: "x \<in> set xs" for x
    proof -
      obtain kept where "om_get (open_order_key x) m = Some kept" "kept = x \<or> open_orders_agree kept x"
        using xs(2) x by blast
      then show ?thesis using entry vals key by (metis open_orders_agree_def)
    qed
    with xs(1) show ?thesis by blast
  qed
  ultimately show ?thesis using m(3) cs by auto
qed

theorem composite_open_orders_exact_witness:
  "\<exists>vs. composite_open_orders (shadow_ops bounded_ops uuid_hex) demo_composite = (Ok vs, demo_composite)
     \<and> distinct (map open_order_key vs)"
proof -
  have "\<exists>vs c. composite_open_orders (shadow_ops bounded_ops uuid_hex) demo_composite = (Ok vs, c)"
    by (simp add: composite_open_orders_def demo_composite_def register_instrument_def new_composite_def
        shadow_ops_def shadow_open_orders_def merged_values_def demo_shadow_def new_shadow_def
        om_values_def)
  then obtain vs c where vs: "composite_open_orders (shadow_ops bounded_ops uuid_hex) demo_composite = (Ok vs, c)"
    by blast
  have "snd (ad_open_orders (shadow_ops bounded_ops uuid_hex) ch) = ch" for ch
    by (simp add: shadow_ops_def shadow_open_orders_def)
  from composite_open_orders_exact [OF this vs] vs show ?thesis by blast
qed

end
