(* ===== verification/Reconcile.thy ===== *)
theory Reconcile
  imports Oms Execution
begin

text \<open>
  Reconciliation of local orders and positions against a venue snapshot,
  \<open>rust/crates/pg-reconcile\<close>: the issues found and the assets put on hold.
\<close>

section \<open>Data\<close>

datatype ownership = Strategy string | Manual | OwnerUnknown

record venue_position =
  ps_venue :: venue
  ps_asset :: string
  ps_quantity :: decimal
  ps_ownership :: ownership

definition position_key :: "venue_position \<Rightarrow> asset_key" where
  "position_key p = AssetKey (ps_venue p) (ps_asset p)"

datatype reconcile_issue =
  UnknownPositionOwnership asset_key decimal
| LocalOrderMissingAtVenue asset_key string order_state
| VenueOrderMissingLocally asset_key "string option" string
| FilledQuantityMismatch asset_key string decimal decimal
| UnresolvedOrderState asset_key string
| OrderContractMismatch asset_key string string

fun issue_key :: "reconcile_issue \<Rightarrow> asset_key" where
  "issue_key (UnknownPositionOwnership key _) = key"
| "issue_key (LocalOrderMissingAtVenue key _ _) = key"
| "issue_key (VenueOrderMissingLocally key _ _) = key"
| "issue_key (FilledQuantityMismatch key _ _ _) = key"
| "issue_key (UnresolvedOrderState key _) = key"
| "issue_key (OrderContractMismatch key _ _) = key"

record reconcile_report =
  rr_issues :: "reconcile_issue list"
  rr_safe_hold_assets :: "asset_key set"

section \<open>Operations\<close>

definition may_open_new_exposure :: "venue_position list \<Rightarrow> bool" where
  "may_open_new_exposure ps \<longleftrightarrow> \<not> list_ex (\<lambda>p. ps_ownership p = OwnerUnknown) ps"

definition may_open_new_exposure_for :: "venue_position list \<Rightarrow> venue \<Rightarrow> string \<Rightarrow> bool" where
  "may_open_new_exposure_for ps v asset \<longleftrightarrow>
     \<not> list_ex (\<lambda>p. ps_venue p = v \<and> ps_asset p = asset \<and> ps_ownership p = OwnerUnknown) ps"

definition report_clean :: "reconcile_report \<Rightarrow> bool" where
  "report_clean rep \<longleftrightarrow> rr_issues rep = []"

definition report_blocks :: "venue \<Rightarrow> string \<Rightarrow> reconcile_report \<Rightarrow> bool" where
  "report_blocks v asset rep \<longleftrightarrow> AssetKey v asset \<in> rr_safe_hold_assets rep"

definition push_issue :: "reconcile_issue \<Rightarrow> reconcile_report \<Rightarrow> reconcile_report" where
  "push_issue issue rep =
     \<lparr>rr_issues = rr_issues rep @ [issue],
      rr_safe_hold_assets = insert (issue_key issue) (rr_safe_hold_assets rep)\<rparr>"

definition position_issues :: "venue \<Rightarrow> venue_position list \<Rightarrow> reconcile_issue list" where
  "position_issues v ps =
     concat (map (\<lambda>p. if ps_ownership p = OwnerUnknown \<and> ps_quantity p \<noteq> 0
                      then [UnknownPositionOwnership (position_key p) (ps_quantity p)] else [])
       (filter (\<lambda>p. ps_venue p = v) ps))"

definition contract_mismatch :: "order_record \<Rightarrow> venue_order_snapshot \<Rightarrow> bool" where
  "contract_mismatch loc remote \<longleftrightarrow>
     vo_asset remote \<noteq> or_asset loc
     \<or> or_side loc \<noteq> Some (vo_side remote)
     \<or> vo_requested_quantity remote \<noteq> or_requested_quantity loc
     \<or> (case or_venue_order_id loc of Some x \<Rightarrow> x \<noteq> vo_venue_order_id remote | None \<Rightarrow> False)
     \<or> vo_venue_order_id remote = ''''"

definition matched_issues :: "venue \<Rightarrow> order_record \<Rightarrow> venue_order_snapshot \<Rightarrow> reconcile_issue list" where
  "matched_issues v loc remote =
     (let key = AssetKey (or_venue loc) (or_asset loc); cid = or_client_order_id loc in
      (if vo_filled_quantity remote \<noteq> or_filled_quantity loc
       then [FilledQuantityMismatch key cid (or_filled_quantity loc) (vo_filled_quantity remote)] else [])
      @ (if or_state loc = Unknown \<or> vo_state remote = VUnknown
         then [UnresolvedOrderState key cid] else [])
      @ (if contract_mismatch loc remote
         then OrderContractMismatch key cid (vo_asset remote)
              # (if vo_asset remote \<noteq> or_asset loc
                 then [OrderContractMismatch (AssetKey v (vo_asset remote)) cid (vo_asset remote)] else [])
         else []))"

definition venue_by_client :: "venue_order_snapshot list \<Rightarrow> (string, venue_order_snapshot) omap" where
  "venue_by_client vs =
     om_collect (concat (map (\<lambda>v. case vo_client_order_id v of Some cid \<Rightarrow> [(cid, v)] | None \<Rightarrow> []) vs))"

definition local_issues ::
  "venue \<Rightarrow> order_record list \<Rightarrow> venue_order_snapshot list \<Rightarrow> reconcile_issue list" where
  "local_issues v locals vs =
     concat (map (\<lambda>loc. case om_get (or_client_order_id loc) (venue_by_client vs) of
                Some remote \<Rightarrow> matched_issues v loc remote
              | None \<Rightarrow> [LocalOrderMissingAtVenue (AssetKey (or_venue loc) (or_asset loc))
                           (or_client_order_id loc) (or_state loc)])
       (filter (\<lambda>loc. or_venue loc = v \<and> \<not> is_terminal loc) locals))"

definition local_by_client :: "venue \<Rightarrow> order_record list \<Rightarrow> (string, order_record) omap" where
  "local_by_client v locals =
     om_collect (map (\<lambda>loc. (or_client_order_id loc, loc)) (filter (\<lambda>loc. or_venue loc = v) locals))"

definition remote_issues ::
  "venue \<Rightarrow> order_record list \<Rightarrow> venue_order_snapshot list \<Rightarrow> reconcile_issue list" where
  "remote_issues v locals vs =
     concat (map (\<lambda>remote.
         let known = (case vo_client_order_id remote of
                        Some cid \<Rightarrow> om_get cid (local_by_client v locals) \<noteq> None | None \<Rightarrow> False)
         in if known then [] else
              [VenueOrderMissingLocally (AssetKey v (vo_asset remote)) (vo_client_order_id remote)
                 (vo_venue_order_id remote)]) vs)"

definition reconcile ::
  "venue \<Rightarrow> order_record list \<Rightarrow> venue_order_snapshot list \<Rightarrow> venue_position list \<Rightarrow> reconcile_report" where
  "reconcile v locals vs ps =
     fold push_issue (position_issues v ps @ local_issues v locals vs @ remote_issues v locals vs)
       \<lparr>rr_issues = [], rr_safe_hold_assets = {}\<rparr>"

section \<open>Lemmas\<close>

lemma fold_push_issue:
  "fold push_issue xs rep =
     \<lparr>rr_issues = rr_issues rep @ xs, rr_safe_hold_assets = rr_safe_hold_assets rep \<union> issue_key ` set xs\<rparr>"
  by (induction xs arbitrary: rep) (auto simp: push_issue_def)

lemma reconcile_issues:
  "rr_issues (reconcile v locals vs ps) = position_issues v ps @ local_issues v locals vs @ remote_issues v locals vs"
  "rr_safe_hold_assets (reconcile v locals vs ps) = issue_key ` set (rr_issues (reconcile v locals vs ps))"
  by (simp_all add: reconcile_def fold_push_issue image_Un Un_assoc)

text \<open>The snapshot a local order is compared with: the last one reported under its client id.\<close>

definition latest_snapshot :: "string \<Rightarrow> venue_order_snapshot list \<Rightarrow> venue_order_snapshot option" where
  "latest_snapshot cid vs = find (\<lambda>w. vo_client_order_id w = Some cid) (rev vs)"

lemma latest_snapshot_snoc:
  "latest_snapshot cid (vs @ [w]) = (if vo_client_order_id w = Some cid then Some w else latest_snapshot cid vs)"
  by (simp add: latest_snapshot_def)

lemma venue_by_client_get: "om_get cid (venue_by_client vs) = latest_snapshot cid vs"
proof (induction vs rule: rev_induct)
  case Nil
  show ?case by (simp add: venue_by_client_def om_get_collect latest_snapshot_def)
next
  case (snoc w vs)
  then show ?case
    by (cases "vo_client_order_id w") (auto simp: venue_by_client_def om_get_collect latest_snapshot_snoc)
qed

lemma local_by_client_known:
  "om_get cid (local_by_client v locals) \<noteq> None \<longleftrightarrow>
     (\<exists>loc\<in>set locals. or_venue loc = v \<and> or_client_order_id loc = cid)"
  by (auto simp: local_by_client_def om_get_collect map_of_eq_None_iff image_iff simp flip: rev_map)

text \<open>What it means that a snapshot settles an order: every field of the contract, the fill and the state, one by one.\<close>

definition order_settled :: "order_record \<Rightarrow> venue_order_snapshot \<Rightarrow> bool" where
  "order_settled loc remote \<longleftrightarrow>
     vo_asset remote = or_asset loc \<and> or_side loc = Some (vo_side remote)
     \<and> vo_requested_quantity remote = or_requested_quantity loc
     \<and> vo_venue_order_id remote \<noteq> '''' \<and> or_venue_order_id loc \<in> {None, Some (vo_venue_order_id remote)}
     \<and> vo_filled_quantity remote = or_filled_quantity loc
     \<and> or_state loc \<noteq> Unknown \<and> vo_state remote \<noteq> VUnknown"

lemma order_settled_iff:
  "order_settled loc remote \<longleftrightarrow>
     vo_filled_quantity remote = or_filled_quantity loc \<and> or_state loc \<noteq> Unknown \<and> vo_state remote \<noteq> VUnknown
     \<and> \<not> contract_mismatch loc remote"
  by (auto simp: order_settled_def contract_mismatch_def split: option.splits)

lemma matched_issues_empty: "matched_issues v loc remote = [] \<longleftrightarrow> order_settled loc remote"
  by (auto simp: matched_issues_def Let_def order_settled_iff)

lemma matched_issues_keys:
  assumes v: "or_venue loc = v"
  shows "issue_key ` set (matched_issues v loc remote) =
     (if order_settled loc remote then {} else {AssetKey v (or_asset loc)})
     \<union> (if vo_asset remote \<noteq> or_asset loc then {AssetKey v (vo_asset remote)} else {})"
proof -
  have "vo_asset remote \<noteq> or_asset loc \<Longrightarrow> contract_mismatch loc remote"
    by (simp add: contract_mismatch_def)
  then show ?thesis using v
    by (cases "contract_mismatch loc remote"; cases "vo_asset remote = or_asset loc")
      (auto simp: matched_issues_def Let_def order_settled_iff)
qed

lemma local_issues_empty:
  "local_issues v locals vs = [] \<longleftrightarrow>
    (\<forall>loc\<in>set locals. or_venue loc = v \<and> \<not> is_terminal loc \<longrightarrow>
       (\<exists>remote. latest_snapshot (or_client_order_id loc) vs = Some remote \<and> order_settled loc remote))"
  unfolding local_issues_def venue_by_client_get
  by (auto simp: matched_issues_empty split: option.splits)

lemma remote_known:
  "(case vo_client_order_id remote of
      Some cid \<Rightarrow> om_get cid (local_by_client v locals) \<noteq> None | None \<Rightarrow> False) \<longleftrightarrow>
   (\<exists>loc\<in>set locals. or_venue loc = v \<and> vo_client_order_id remote = Some (or_client_order_id loc))"
  by (cases "vo_client_order_id remote") (auto simp: local_by_client_known simp del: not_None_eq)

lemma remote_issues_alt:
  "remote_issues v locals vs = concat (map (\<lambda>remote.
     if \<exists>loc\<in>set locals. or_venue loc = v \<and> vo_client_order_id remote = Some (or_client_order_id loc) then []
     else [VenueOrderMissingLocally (AssetKey v (vo_asset remote)) (vo_client_order_id remote)
             (vo_venue_order_id remote)]) vs)"
  unfolding remote_issues_def Let_def remote_known ..

lemma remote_issues_empty:
  "remote_issues v locals vs = [] \<longleftrightarrow>
    (\<forall>remote\<in>set vs. \<exists>loc\<in>set locals. or_venue loc = v \<and> vo_client_order_id remote = Some (or_client_order_id loc))"
  by (induction vs) (auto simp: remote_issues_alt)

lemma position_issues_empty:
  "position_issues v ps = [] \<longleftrightarrow>
     (\<forall>p\<in>set ps. ps_venue p = v \<and> ps_ownership p = OwnerUnknown \<longrightarrow> ps_quantity p = 0)"
  by (auto simp: position_issues_def)

section \<open>Properties\<close>

text \<open>
  C7. Reconciliation is exact. The report is clean precisely when every non-flat position of the venue has a known owner,
  every local order that is not terminal is settled by the last snapshot reported under its client id (the same
  instrument, side and requested quantity, a venue id that is not empty and not another one, the same fill, and no
  unknown state on either side), and every snapshot names the client id of some local order of the venue. The last part
  asks for no more than the name: a snapshot of an order that is terminal locally, or an earlier snapshot under a
  repeated client id, is accepted without being compared.
\<close>

theorem reconcile_clean_exact:
  "report_clean (reconcile v locals vs ps) \<longleftrightarrow>
    (\<forall>p\<in>set ps. ps_venue p = v \<and> ps_ownership p = OwnerUnknown \<longrightarrow> ps_quantity p = 0)
    \<and> (\<forall>loc\<in>set locals. or_venue loc = v \<and> \<not> is_terminal loc \<longrightarrow>
         (\<exists>remote. latest_snapshot (or_client_order_id loc) vs = Some remote \<and> order_settled loc remote))
    \<and> (\<forall>remote\<in>set vs. \<exists>loc\<in>set locals. or_venue loc = v \<and> vo_client_order_id remote = Some (or_client_order_id loc))"
  by (simp add: report_clean_def reconcile_issues position_issues_empty local_issues_empty remote_issues_empty)

definition demo_settling :: venue_order_snapshot where
  "demo_settling =
     \<lparr>vo_venue_order_id = ''9'', vo_client_order_id = Some (client_order_id uuid_hex demo_intent), vo_asset = ''HYPE'', vo_side = Buy,
      vo_requested_quantity = 10, vo_filled_quantity = 0, vo_limit_price = None, vo_state = VOpen\<rparr>"

theorem reconcile_clean_exact_witness:
  "report_clean (reconcile Hyperliquid [from_intent uuid_hex 1 demo_intent] [demo_settling] [])
   \<and> \<not> report_clean (reconcile Hyperliquid [from_intent uuid_hex 1 demo_intent] [demo_settling\<lparr>vo_side := Sell\<rparr>] [])"
  using reconcile_clean_exact [of Hyperliquid "[from_intent uuid_hex 1 demo_intent]" "[demo_settling]" "[]"]
    reconcile_clean_exact [of Hyperliquid "[from_intent uuid_hex 1 demo_intent]" "[demo_settling\<lparr>vo_side := Sell\<rparr>]" "[]"]
  by (simp add: from_intent_def demo_intent_def demo_settling_def is_terminal_def latest_snapshot_def order_settled_def)

lemma local_issues_keys:
  "AssetKey v asset \<in> issue_key ` set (local_issues v locals vs) \<longleftrightarrow>
    (\<exists>loc\<in>set locals. or_venue loc = v \<and> \<not> is_terminal loc \<and>
       (or_asset loc = asset \<and>
          \<not> (\<exists>remote. latest_snapshot (or_client_order_id loc) vs = Some remote \<and> order_settled loc remote)
        \<or> (\<exists>remote. latest_snapshot (or_client_order_id loc) vs = Some remote
             \<and> vo_asset remote = asset \<and> or_asset loc \<noteq> asset)))"
proof -
  have "AssetKey v asset \<in> issue_key ` set (case latest_snapshot (or_client_order_id loc) vs of
            Some remote \<Rightarrow> matched_issues v loc remote
          | None \<Rightarrow> [LocalOrderMissingAtVenue (AssetKey (or_venue loc) (or_asset loc)) (or_client_order_id loc) (or_state loc)])
      \<longleftrightarrow> (or_asset loc = asset \<and>
          \<not> (\<exists>remote. latest_snapshot (or_client_order_id loc) vs = Some remote \<and> order_settled loc remote)
        \<or> (\<exists>remote. latest_snapshot (or_client_order_id loc) vs = Some remote
             \<and> vo_asset remote = asset \<and> or_asset loc \<noteq> asset))" if v: "or_venue loc = v" for loc
  proof (cases "latest_snapshot (or_client_order_id loc) vs")
    case (Some remote)
    then show ?thesis by (auto simp: matched_issues_keys [OF v])
  qed (use v in auto)
  then show ?thesis unfolding local_issues_def venue_by_client_get by (auto simp: image_UN)
qed

lemma position_issues_keys:
  "AssetKey v asset \<in> issue_key ` set (position_issues v ps) \<longleftrightarrow>
     (\<exists>p\<in>set ps. ps_venue p = v \<and> ps_asset p = asset \<and> ps_ownership p = OwnerUnknown \<and> ps_quantity p \<noteq> 0)"
  by (force simp: position_issues_def image_UN position_key_def split: if_splits)

lemma remote_issues_keys:
  "AssetKey v asset \<in> issue_key ` set (remote_issues v locals vs) \<longleftrightarrow>
     (\<exists>remote\<in>set vs. vo_asset remote = asset
        \<and> \<not> (\<exists>loc\<in>set locals. or_venue loc = v \<and> vo_client_order_id remote = Some (or_client_order_id loc)))"
  by (induction vs) (auto simp: remote_issues_alt)

text \<open>
  The hold is exact per asset: an asset of the reconciled venue is blocked if and only if it
  has a non-flat position of unknown owner, a local order that is not terminal and that its latest
  snapshot does not settle, a latest snapshot that belongs to a local order of another asset, or a
  snapshot that belongs to no local order.
\<close>

theorem reconcile_blocks_exact:
  "report_blocks v asset (reconcile v locals vs ps) \<longleftrightarrow>
    (\<exists>p\<in>set ps. ps_venue p = v \<and> ps_asset p = asset \<and> ps_ownership p = OwnerUnknown \<and> ps_quantity p \<noteq> 0)
    \<or> (\<exists>loc\<in>set locals. or_venue loc = v \<and> \<not> is_terminal loc \<and>
       (or_asset loc = asset \<and>
          \<not> (\<exists>remote. latest_snapshot (or_client_order_id loc) vs = Some remote \<and> order_settled loc remote)
        \<or> (\<exists>remote. latest_snapshot (or_client_order_id loc) vs = Some remote
             \<and> vo_asset remote = asset \<and> or_asset loc \<noteq> asset)))
    \<or> (\<exists>remote\<in>set vs. vo_asset remote = asset
        \<and> \<not> (\<exists>loc\<in>set locals. or_venue loc = v \<and> vo_client_order_id remote = Some (or_client_order_id loc)))"
  unfolding report_blocks_def reconcile_issues set_append image_Un Un_iff position_issues_keys
    local_issues_keys remote_issues_keys by blast

text \<open>
  What reconciliation does not look at: a snapshot that is still open at the venue under the client id of an order that
  is terminal locally, and every snapshot but the last under one client id.
\<close>

theorem reconcile_skips_terminal_and_repeated:
  "or_venue loc = v \<Longrightarrow> is_terminal loc \<Longrightarrow> vo_client_order_id w = Some (or_client_order_id loc) \<Longrightarrow>
     report_clean (reconcile v [loc] [w] [])"
  "or_venue loc = v \<Longrightarrow> vo_client_order_id w = Some (or_client_order_id loc) \<Longrightarrow>
     vo_client_order_id u = Some (or_client_order_id loc) \<Longrightarrow> order_settled loc w \<Longrightarrow> report_clean (reconcile v [loc] [u, w] [])"
  by (simp_all add: report_clean_def reconcile_issues position_issues_empty local_issues_empty remote_issues_empty
      latest_snapshot_def)

end
