(* ===== verification/Runtime.thy ===== *)
theory Runtime
  imports OrderedMap
begin

text \<open>
  Run configuration and startup gates, \<open>rust/crates/pg-runtime\<close>. The environment is an argument:
  \<open>env k\<close> is the value of variable \<open>k\<close>, or \<open>None\<close> where \<open>env::var\<close> fails.
\<close>

section \<open>Data\<close>

datatype run_mode = ShadowMode | PaperMode | LiveMode

datatype shutdown_policy = Preserve | CancelResting | FlattenOwned

datatype incident_mode = NormalMode | SafeHold | Halt

datatype config_error = Missing string | InvalidValue string string | LiveTradingNotEnabled

record run_config =
  rc_environment :: string
  rc_instance_id :: string
  rc_mode :: run_mode
  rc_live_trading_enabled :: bool
  rc_shutdown_policy :: shutdown_policy
  rc_max_market_staleness_ms :: u64
  rc_lease_ttl_seconds :: u64

section \<open>Parsing\<close>

definition to_ascii_lowercase :: "string \<Rightarrow> string" where
  "to_ascii_lowercase s =
     map (\<lambda>c. let n = (of_char c :: nat) in if 65 \<le> n \<and> n \<le> 90 then char_of (n + 32) else c) s"

definition parse_run_mode :: "string \<Rightarrow> (config_error, run_mode) outcome" where
  "parse_run_mode v =
     (let l = to_ascii_lowercase v in
      if l = ''shadow'' then Ok ShadowMode
      else if l = ''paper'' then Ok PaperMode
      else if l = ''live'' then Ok LiveMode
      else Err (InvalidValue ''PG_RUN_MODE'' l))"

definition parse_shutdown_policy :: "string \<Rightarrow> (config_error, shutdown_policy) outcome" where
  "parse_shutdown_policy v =
     (let l = to_ascii_lowercase v in
      if l = ''preserve'' then Ok Preserve
      else if l = ''cancel_resting'' then Ok CancelResting
      else if l = ''flatten_owned'' then Ok FlattenOwned
      else Err (InvalidValue ''PG_SHUTDOWN_POLICY'' l))"

definition parse_bool :: "(string \<Rightarrow> string option) \<Rightarrow> string \<Rightarrow> bool \<Rightarrow> (config_error, bool) outcome" where
  "parse_bool env key dflt =
     (case env key of
        None \<Rightarrow> Ok dflt
      | Some v \<Rightarrow>
          (let l = to_ascii_lowercase v in
           if l \<in> {''1'', ''true'', ''yes'', ''on''} then Ok True
           else if l \<in> {''0'', ''false'', ''no'', ''off''} then Ok False
           else Err (InvalidValue key v)))"

definition parse_u64 :: "(string \<Rightarrow> string option) \<Rightarrow> string \<Rightarrow> u64 \<Rightarrow> (config_error, u64) outcome" where
  "parse_u64 env key dflt =
     (case env key of
        None \<Rightarrow> Ok dflt
      | Some v \<Rightarrow> (case parse_u64_str v of Some n \<Rightarrow> Ok n | None \<Rightarrow> Err (InvalidValue key v)))"

definition var_or :: "(string \<Rightarrow> string option) \<Rightarrow> string \<Rightarrow> string \<Rightarrow> string" where
  "var_or env key dflt = (case env key of Some v \<Rightarrow> v | None \<Rightarrow> dflt)"

definition from_env :: "(string \<Rightarrow> string option) \<Rightarrow> (config_error, run_config) outcome" where
  "from_env env =
     and_then (ok_or (env ''PG_INSTANCE_ID'') (Missing ''PG_INSTANCE_ID'')) (\<lambda>instance_id.
     if is_blank instance_id then Err (InvalidValue ''PG_INSTANCE_ID'' instance_id)
     else and_then (parse_run_mode (var_or env ''PG_RUN_MODE'' ''shadow'')) (\<lambda>mode.
     and_then (parse_bool env ''PG_LIVE_TRADING'' False) (\<lambda>live.
     if mode = LiveMode \<and> \<not> live then Err LiveTradingNotEnabled
     else and_then (parse_shutdown_policy (var_or env ''PG_SHUTDOWN_POLICY'' ''cancel_resting'')) (\<lambda>policy.
     and_then (parse_u64 env ''PG_MAX_MARKET_STALENESS_MS'' 3000) (\<lambda>staleness.
     and_then (parse_u64 env ''PG_LEASE_TTL_SECONDS'' 15) (\<lambda>ttl.
     if staleness = 0 \<or> ttl < 5
     then Err (InvalidValue ''PG_MAX_MARKET_STALENESS_MS/PG_LEASE_TTL_SECONDS''
                 (show_nat (unat staleness) @ ''/'' @ show_nat (unat ttl)))
     else Ok \<lparr>rc_environment = var_or env ''PG_ENV'' ''dev'', rc_instance_id = instance_id,
              rc_mode = mode, rc_live_trading_enabled = live, rc_shutdown_policy = policy,
              rc_max_market_staleness_ms = staleness, rc_lease_ttl_seconds = ttl\<rparr>))))))"

definition routes_to_real_venue :: "run_config \<Rightarrow> bool" where
  "routes_to_real_venue c \<longleftrightarrow> rc_mode c = LiveMode \<and> rc_live_trading_enabled c"

section \<open>Startup gates\<close>

datatype startup_gate =
  JournalWritable | DatabaseReachable | RuntimeLeaseAcquired | VenueAuthenticated
| MarketDataSynchronized | OpenOrdersLoaded | PositionsLoaded | OwnershipReconciled
| UnknownStateClear | StrategyAllowlistLoaded | LiveTradingExplicitlyEnabled

datatype gate_status = Pending | Passed | Failed string

type_synonym startup_checklist = "startup_gate \<rightharpoonup> gate_status"

definition all_gates :: "startup_gate list" where
  "all_gates = [JournalWritable, DatabaseReachable, RuntimeLeaseAcquired, VenueAuthenticated,
     MarketDataSynchronized, OpenOrdersLoaded, PositionsLoaded, OwnershipReconciled,
     UnknownStateClear, StrategyAllowlistLoaded, LiveTradingExplicitlyEnabled]"

definition required_gates :: "run_mode \<Rightarrow> startup_gate list" where
  "required_gates mode =
     (case mode of
        ShadowMode \<Rightarrow> [JournalWritable, DatabaseReachable, RuntimeLeaseAcquired,
          MarketDataSynchronized, StrategyAllowlistLoaded]
      | PaperMode \<Rightarrow> [JournalWritable, DatabaseReachable, RuntimeLeaseAcquired,
          MarketDataSynchronized, StrategyAllowlistLoaded]
      | LiveMode \<Rightarrow> all_gates)"

definition new_checklist :: startup_checklist where
  "new_checklist = map_of (map (\<lambda>g. (g, Pending)) all_gates)"

definition pass_gate :: "startup_gate \<Rightarrow> startup_checklist \<Rightarrow> startup_checklist" where
  "pass_gate g c = c(g \<mapsto> Passed)"

definition fail_gate :: "startup_gate \<Rightarrow> string \<Rightarrow> startup_checklist \<Rightarrow> startup_checklist" where
  "fail_gate g reason c = c(g \<mapsto> Failed reason)"

definition gate_status_of :: "startup_gate \<Rightarrow> startup_checklist \<Rightarrow> (unit, gate_status) outcome" where
  "gate_status_of g c = or_panic (c g)"

text \<open>\<open>all\<close> stops at the first gate that has not passed.\<close>

fun all_passed :: "startup_gate list \<Rightarrow> startup_checklist \<Rightarrow> (unit, bool) outcome" where
  "all_passed [] c = Ok True"
| "all_passed (g # gs) c =
     and_then (gate_status_of g c) (\<lambda>st. if st = Passed then all_passed gs c else Ok False)"

definition ready_for :: "run_mode \<Rightarrow> startup_checklist \<Rightarrow> (unit, bool) outcome" where
  "ready_for mode c = all_passed (required_gates mode) c"

fun blocking_among :: "startup_gate list \<Rightarrow> startup_checklist \<Rightarrow> (unit, (startup_gate \<times> gate_status) list) outcome" where
  "blocking_among [] c = Ok []"
| "blocking_among (g # gs) c =
     and_then (gate_status_of g c) (\<lambda>st.
     and_then (blocking_among gs c) (\<lambda>rest. Ok (if st \<noteq> Passed then (g, st) # rest else rest)))"

definition blocking_gates :: "run_mode \<Rightarrow> startup_checklist \<Rightarrow> (unit, (startup_gate \<times> gate_status) list) outcome" where
  "blocking_gates mode c = blocking_among (required_gates mode) c"

section \<open>Lemmas\<close>

text \<open>The checklists a program can produce.\<close>

datatype gate_op = PassOp startup_gate | FailOp startup_gate string

fun gate_exec :: "gate_op \<Rightarrow> startup_checklist \<Rightarrow> startup_checklist" where
  "gate_exec (PassOp g) c = pass_gate g c"
| "gate_exec (FailOp g reason) c = fail_gate g reason c"

fun gate_of :: "gate_op \<Rightarrow> startup_gate" where
  "gate_of (PassOp g) = g"
| "gate_of (FailOp g reason) = g"

definition complete_list :: "startup_checklist \<Rightarrow> bool" where
  "complete_list c \<longleftrightarrow> (\<forall>g. c g \<noteq> None)"

lemma new_checklist_complete: "complete_list new_checklist"
proof -
  have "new_checklist g \<noteq> None" for g by (cases g) (simp_all add: new_checklist_def all_gates_def)
  then show ?thesis by (simp add: complete_list_def)
qed

lemma gate_exec_complete: "complete_list c \<Longrightarrow> complete_list (gate_exec op c)"
  by (cases op) (auto simp: complete_list_def pass_gate_def fail_gate_def)

lemma fold_gate_complete: "complete_list c \<Longrightarrow> complete_list (fold gate_exec ops c)"
  by (induction ops arbitrary: c) (auto simp: gate_exec_complete)

lemma all_passed_complete: "complete_list c \<Longrightarrow> all_passed gs c = Ok (\<forall>g\<in>set gs. c g = Some Passed)"
proof (induction gs)
  case (Cons g gs)
  then obtain st where "c g = Some st" unfolding complete_list_def by blast
  with Cons show ?case by (simp add: gate_status_of_def)
qed simp

lemma blocking_complete:
  "complete_list c \<Longrightarrow> blocking_among gs c =
     Ok (map (\<lambda>g. (g, the (c g))) (filter (\<lambda>g. c g \<noteq> Some Passed) gs))"
proof (induction gs)
  case (Cons g gs)
  then obtain st where "c g = Some st" unfolding complete_list_def by blast
  with Cons show ?case by (simp add: gate_status_of_def)
qed simp

text \<open>The last operation on a gate decides its status.\<close>

lemma last_word_passed:
  "fold gate_exec ops new_checklist g = Some Passed \<longleftrightarrow>
     (\<exists>before after. ops = before @ PassOp g # after \<and> (\<forall>op\<in>set after. gate_of op \<noteq> g))"
proof (induction ops rule: rev_induct)
  case Nil
  then show ?case by (cases g) (simp_all add: new_checklist_def all_gates_def)
next
  case (snoc op ops)
  have split: "(\<exists>before after. ops @ [op] = before @ PassOp g # after \<and> (\<forall>op\<in>set after. gate_of op \<noteq> g)) \<longleftrightarrow>
      op = PassOp g \<or> gate_of op \<noteq> g \<and> (\<exists>before after. ops = before @ PassOp g # after \<and> (\<forall>op\<in>set after. gate_of op \<noteq> g))"
    (is "?L \<longleftrightarrow> ?R")
  proof
    assume ?L
    then obtain before after where a: "ops @ [op] = before @ PassOp g # after" "\<forall>op\<in>set after. gate_of op \<noteq> g" by blast
    then show ?R by (cases after rule: rev_cases) auto
  next
    assume ?R
    then show ?L
    proof
      assume "op = PassOp g"
      then have "ops @ [op] = ops @ PassOp g # []" by simp
      then show ?L by (intro exI [of _ ops] exI [of _ "[]"]) simp
    next
      assume "gate_of op \<noteq> g \<and> (\<exists>before after. ops = before @ PassOp g # after \<and> (\<forall>op\<in>set after. gate_of op \<noteq> g))"
      then obtain before after where "ops = before @ PassOp g # after" "\<forall>op\<in>set after. gate_of op \<noteq> g" "gate_of op \<noteq> g"
        by blast
      then show ?L by (intro exI [of _ before] exI [of _ "after @ [op]"]) auto
    qed
  qed
  show ?case unfolding split using snoc by (cases op) (auto simp: pass_gate_def fail_gate_def)
qed

lemma from_env_Ok:
  assumes "from_env env = Ok c"
  shows "(rc_mode c = LiveMode \<longrightarrow> rc_live_trading_enabled c) \<and> 0 < rc_max_market_staleness_ms c
    \<and> 5 \<le> rc_lease_ttl_seconds c \<and> \<not> is_blank (rc_instance_id c) \<and> env ''PG_INSTANCE_ID'' = Some (rc_instance_id c)
    \<and> (rc_live_trading_enabled c \<longrightarrow> env ''PG_LIVE_TRADING'' \<noteq> None)"
proof -
  have word: "(x :: u64) \<noteq> 0 \<longleftrightarrow> 0 < x" for x by (simp add: word_neq_0_conv)
  have live: "parse_bool env k False = Ok True \<Longrightarrow> env k \<noteq> None" for k
    by (auto simp: parse_bool_def split: option.splits)
  show ?thesis using assms
    by (auto simp: from_env_def outcome_simps word not_less dest: live split: if_splits)
qed

section \<open>Properties\<close>

text \<open>
  A configuration that loads is safe by construction: live mode implies that live trading was
  switched on explicitly in the environment, the instance id is present and not blank, the
  staleness bound is positive and the lease lasts at least five seconds; and with no variables
  set but the instance id, the mode is shadow and nothing is routed to a real venue.
\<close>

theorem config_fail_closed:
  "(from_env env = Ok c \<longrightarrow>
      (rc_mode c = LiveMode \<longrightarrow> rc_live_trading_enabled c) \<and> 0 < rc_max_market_staleness_ms c
      \<and> 5 \<le> rc_lease_ttl_seconds c \<and> \<not> is_blank (rc_instance_id c)
      \<and> (routes_to_real_venue c \<longrightarrow> env ''PG_LIVE_TRADING'' \<noteq> None))
   \<and> (\<not> is_blank name \<longrightarrow> (\<exists>d. from_env [''PG_INSTANCE_ID'' \<mapsto> name] = Ok d
        \<and> rc_mode d = ShadowMode \<and> \<not> routes_to_real_venue d))"
  using from_env_Ok [of env c]
  by (auto simp: routes_to_real_venue_def from_env_def var_or_def parse_run_mode_def parse_bool_def
      parse_shutdown_policy_def parse_u64_def to_ascii_lowercase_def)

theorem config_fail_closed_witness:
  "\<exists>d. from_env [''PG_INSTANCE_ID'' \<mapsto> ''pg-1''] = Ok d \<and> \<not> routes_to_real_venue d"
  using config_fail_closed [of "\<lambda>_. None" _ "''pg-1''"] by (auto simp: is_blank_def)

text \<open>
  Startup is fail-closed: whatever gates were passed or failed, in whatever order, the
  checklist never panics; it is ready for a mode exactly when nothing blocks that mode, exactly
  when the last word on every required gate was a pass; and readiness for live trading requires
  every gate and implies readiness for every other mode.
\<close>

theorem startup_gates_exact:
  "(ready_for mode (fold gate_exec ops new_checklist) = Ok True \<longleftrightarrow>
      blocking_gates mode (fold gate_exec ops new_checklist) = Ok [])
    \<and> (ready_for mode (fold gate_exec ops new_checklist) = Ok True \<longleftrightarrow>
        (\<forall>g\<in>set (required_gates mode).
           \<exists>before after. ops = before @ PassOp g # after \<and> (\<forall>op\<in>set after. gate_of op \<noteq> g)))
    \<and> ready_for mode (fold gate_exec ops new_checklist) \<noteq> Panic
    \<and> blocking_gates mode (fold gate_exec ops new_checklist) \<noteq> Panic
    \<and> (ready_for LiveMode (fold gate_exec ops new_checklist) = Ok True \<longrightarrow>
        ready_for mode (fold gate_exec ops new_checklist) = Ok True)"
proof -
  have cl: "complete_list (fold gate_exec ops new_checklist)"
    by (rule fold_gate_complete [OF new_checklist_complete])
  have "set (required_gates mode) \<subseteq> set (required_gates LiveMode)"
    by (cases mode) (auto simp: required_gates_def all_gates_def)
  then show ?thesis
    by (auto simp: ready_for_def blocking_gates_def all_passed_complete [OF cl] blocking_complete [OF cl]
        last_word_passed filter_empty_conv)
qed

theorem startup_gates_exact_witness:
  "ready_for LiveMode (fold gate_exec (map PassOp all_gates @ [FailOp OwnershipReconciled ''unknown'']) new_checklist)
     \<noteq> Panic"
  using startup_gates_exact [of LiveMode "map PassOp all_gates @ [FailOp OwnershipReconciled ''unknown'']"] by blast

end
