(* ===== verification/Store.thy ===== *)
theory Store
  imports Reconcile
begin

text \<open>
  The durable store of \<open>rust/crates/pg-store/src/lib.rs\<close> over the tables of its migrations:
  fenced runtime leases, the event journal, checkpoints, order records, position ownership,
  reconcile runs and the command audit. Every statement runs in an environment that supplies the
  transaction time, the fresh identifiers, the journal numbers lost to rolled-back inserts, and a
  fault: the connection may fail before the statement takes effect or after it.

  JSON columns hold the values that were encoded, and text columns compare bytewise. Timestamps are
  microseconds; \<open>i64\<close> and \<open>i32\<close> are integers with the range checks of the columns written out.
\<close>

named_theorems store_defs \<open>definitions of the store statements\<close>

section \<open>Data\<close>

datatype store_error =
  Database string | Serialization string | LeaseUnavailable | StoreFencingLost | InvalidLeaseTtl

fun store_error_message :: "store_error \<Rightarrow> string" where
  "store_error_message (Database m) = m"
| "store_error_message (Serialization m) = m"
| "store_error_message LeaseUnavailable = ''runtime lease is currently owned by another live instance''"
| "store_error_message StoreFencingLost = ''runtime fencing token is no longer valid''"
| "store_error_message InvalidLeaseTtl = ''lease TTL must be between 5 and 300 seconds''"

record runtime_lease =
  rl_lease_key :: string
  rl_holder_id :: string
  rl_fencing_token :: int
  rl_ttl_seconds :: int

datatype lease_health = Healthy | Lost string | Stopped

record execution_fill =
  ef_account_scope :: string
  ef_venue :: venue
  ef_symbol :: string
  ef_trade_id :: int
  ef_venue_fill_id :: string
  ef_venue_order_id :: string
  ef_client_order_id :: string
  ef_side :: side
  ef_quantity :: decimal
  ef_price :: decimal
  ef_commission :: "decimal option"
  ef_commission_asset :: "string option"
  ef_realized_pnl :: "decimal option"
  ef_trade_time_ms :: "int option"
  ef_venue_time :: "string option"

text \<open>JSON objects, with the program's own structures as values.\<close>

datatype jvalue =
  JStr string | JInt int | JDec decimal | JIntent order_intent | JOrder order_record
| JOrders "order_record list" | JSnapshot venue_order_snapshot
| JSnapshots "venue_order_snapshot list" | JReport reconcile_report | JState order_state
| JFill execution_fill

type_synonym jobject = "(string \<times> jvalue) list"

text \<open>One record per table row.\<close>

record lease_row =
  lr_holder_id :: string
  lr_fencing_token :: int
  lr_lease_expires_at :: int

record journal_row =
  jr_sequence :: int
  jr_event_id :: uuid
  jr_stream_id :: string
  jr_event_type :: string
  jr_payload :: jobject
  jr_fencing_token :: int

record checkpoint_row =
  cr_journal_sequence :: int
  cr_state :: jobject
  cr_fencing_token :: int

record order_row =
  ow_venue :: string
  ow_asset :: string
  ow_owner_strategy_id :: string
  ow_state :: order_record
  ow_fencing_token :: int
  ow_updated_at :: int

record position_row =
  pw_state :: venue_position
  pw_fencing_token :: int

record reconcile_row =
  rw_reconcile_id :: uuid
  rw_venue :: string
  rw_report :: reconcile_report
  rw_fencing_token :: int

record audit_row =
  au_request_id :: string
  au_actor_user_id :: int
  au_chat_id :: int
  au_command :: jobject
  au_outcome :: string
  au_fencing_token :: "int option"

record fill_row =
  fw_venue_fill_id :: string
  fw_fill :: execution_fill
  fw_fencing_token :: int
  fw_created_at :: int

record db =
  db_leases :: "string \<Rightarrow> lease_row option"
  db_journal :: "journal_row list"
  db_checkpoints :: "string \<Rightarrow> checkpoint_row option"
  db_orders :: "(string, order_row) omap"
  db_positions :: "(asset_key, position_row) omap"
  db_reconciles :: "reconcile_row list"
  db_audit :: "audit_row list"
  db_fills :: "fill_row list"

definition empty_db :: db where
  "empty_db = \<lparr>db_leases = (\<lambda>_. None), db_journal = [], db_checkpoints = (\<lambda>_. None), db_orders = [],
     db_positions = [], db_reconciles = [], db_audit = [], db_fills = []\<rparr>"

section \<open>Statements and faults\<close>

datatype fault = NoFault | FailedBefore string | FailedAfter string

record env =
  env_now :: int
  env_fault :: fault
  env_ids :: "nat \<Rightarrow> uuid"
  env_gaps :: "nat \<Rightarrow> nat"

type_synonym ('e, 'a) statement = "db \<Rightarrow> ('e, 'a) outcome \<times> db"

text \<open>Run one statement or transaction; a fault is the given database error.\<close>

definition execute :: "env \<Rightarrow> (string \<Rightarrow> 'e) \<Rightarrow> ('e, 'a) statement \<Rightarrow> ('e, 'a) statement" where
  "execute en dberr stmt db =
     (case env_fault en of
        NoFault \<Rightarrow> stmt db
      | FailedBefore m \<Rightarrow> (Err (dberr m), db)
      | FailedAfter m \<Rightarrow> (Err (dberr m), snd (stmt db)))"

definition bigint_max :: int where
  "bigint_max = 2 ^ 63 - 1"

fun venue_key :: "venue \<Rightarrow> string" where
  "venue_key BinancePm = ''BINANCE_PM''"
| "venue_key Hyperliquid = ''HYPERLIQUID''"
| "venue_key InteractiveBrokers = ''IBKR''"

definition validate_ttl :: "int \<Rightarrow> (store_error, unit) outcome" where
  "validate_ttl ttl = (if \<not> (5 \<le> ttl \<and> ttl \<le> 300) then Err InvalidLeaseTtl else Ok ())"

section \<open>Leases\<close>

definition lease_expiry :: "int \<Rightarrow> int \<Rightarrow> int" where
  "lease_expiry now ttl = now + ttl * 1000000"

text \<open>The row the lease describes exists and has not expired.\<close>

definition lease_valid :: "int \<Rightarrow> runtime_lease \<Rightarrow> db \<Rightarrow> bool" where
  "lease_valid now l db \<longleftrightarrow>
     (case db_leases db (rl_lease_key l) of
        Some row \<Rightarrow> lr_holder_id row = rl_holder_id l \<and> lr_fencing_token row = rl_fencing_token l
          \<and> now < lr_lease_expires_at row
      | None \<Rightarrow> False)"

definition acquire_stmt :: "int \<Rightarrow> string \<Rightarrow> string \<Rightarrow> int \<Rightarrow> (store_error, runtime_lease) statement" where
  "acquire_stmt now key holder ttl db =
     (let put = (\<lambda>token. (Ok \<lparr>rl_lease_key = key, rl_holder_id = holder, rl_fencing_token = token,
                              rl_ttl_seconds = ttl\<rparr>,
                 db\<lparr>db_leases := (db_leases db)(key \<mapsto>
                      \<lparr>lr_holder_id = holder, lr_fencing_token = token,
                       lr_lease_expires_at = lease_expiry now ttl\<rparr>)\<rparr>))
      in case db_leases db key of
        None \<Rightarrow> put 1
      | Some row \<Rightarrow>
          if lr_lease_expires_at row \<le> now \<or> lr_holder_id row = holder
          then if lr_holder_id row = holder then put (lr_fencing_token row)
               else if lr_fencing_token row = bigint_max
                 then (Err (Database ''bigint out of range''), db)
               else put (lr_fencing_token row + 1)
          else (Err LeaseUnavailable, db))"

definition acquire_lease :: "env \<Rightarrow> string \<Rightarrow> string \<Rightarrow> int \<Rightarrow> (store_error, runtime_lease) statement" where
  "acquire_lease en key holder ttl db =
     (case validate_ttl ttl of
        Ok _ \<Rightarrow> execute en Database (acquire_stmt (env_now en) key holder ttl) db
      | Err e \<Rightarrow> (Err e, db) | Panic \<Rightarrow> (Panic, db))"

definition assert_lease :: "env \<Rightarrow> runtime_lease \<Rightarrow> (store_error, unit) statement" where
  "assert_lease en l =
     execute en Database (\<lambda>db. (if lease_valid (env_now en) l db then Ok () else Err StoreFencingLost, db))"

definition renew_stmt :: "int \<Rightarrow> runtime_lease \<Rightarrow> (store_error, unit) statement" where
  "renew_stmt now l db =
     (if lease_valid now l db
      then (Ok (), db\<lparr>db_leases := (db_leases db)(rl_lease_key l \<mapsto>
              \<lparr>lr_holder_id = rl_holder_id l, lr_fencing_token = rl_fencing_token l,
               lr_lease_expires_at = lease_expiry now (rl_ttl_seconds l)\<rparr>)\<rparr>)
      else (Err StoreFencingLost, db))"

definition renew_lease :: "env \<Rightarrow> runtime_lease \<Rightarrow> (store_error, unit) statement" where
  "renew_lease en l db =
     (case validate_ttl (rl_ttl_seconds l) of
        Ok _ \<Rightarrow> execute en Database (renew_stmt (env_now en) l) db
      | Err e \<Rightarrow> (Err e, db) | Panic \<Rightarrow> (Panic, db))"

text \<open>A release deletes the row, expired or not.\<close>

definition release_stmt :: "runtime_lease \<Rightarrow> (store_error, unit) statement" where
  "release_stmt l db =
     (case db_leases db (rl_lease_key l) of
        Some row \<Rightarrow>
          if lr_holder_id row = rl_holder_id l \<and> lr_fencing_token row = rl_fencing_token l
          then (Ok (), db\<lparr>db_leases := (db_leases db)(rl_lease_key l := None)\<rparr>)
          else (Err StoreFencingLost, db)
      | None \<Rightarrow> (Err StoreFencingLost, db))"

definition release_lease :: "env \<Rightarrow> runtime_lease \<Rightarrow> (store_error, unit) statement" where
  "release_lease en l = execute en Database (release_stmt l)"

subsection \<open>The heartbeat task\<close>

text \<open>
  The task's two wake-ups: the shutdown channel changed (or closed), or the interval ticked. The
  interval is a third of the lease time, at least a second.
\<close>

datatype heartbeat_event = ShutdownChanged bool bool | Tick env

definition renew_every :: "runtime_lease \<Rightarrow> int" where
  "renew_every l = max ((rl_ttl_seconds l mod 2 ^ 64) div 3) 1"

fun lease_heartbeat :: "runtime_lease \<Rightarrow> heartbeat_event list \<Rightarrow> db \<Rightarrow> lease_health \<times> db" where
  "lease_heartbeat l [] db = (Healthy, db)"
| "lease_heartbeat l (ShutdownChanged gone flag # evs) db =
     (if gone \<or> flag then (Stopped, db) else lease_heartbeat l evs db)"
| "lease_heartbeat l (Tick en # evs) db =
     (case renew_lease en l db of
        (Err e, db') \<Rightarrow> (Lost (store_error_message e), db')
      | (Ok _, db') \<Rightarrow> lease_heartbeat l evs db'
      | (Panic, db') \<Rightarrow> (Healthy, db'))"

section \<open>Journal and checkpoints\<close>

definition last_sequence :: "db \<Rightarrow> int" where
  "last_sequence db = (if db_journal db = [] then 0 else jr_sequence (last (db_journal db)))"

definition insert_event ::
  "env \<Rightarrow> nat \<Rightarrow> (string \<Rightarrow> 'e) \<Rightarrow> string \<Rightarrow> string \<Rightarrow> jobject \<Rightarrow> int \<Rightarrow> ('e, int) statement" where
  "insert_event en k dberr stream_id event_type payload token db =
     (let sequence = last_sequence db + 1 + int (env_gaps en k) in
      if bigint_max < sequence then (Err (dberr ''nextval: reached maximum value of sequence''), db)
      else if token \<le> 0 then (Err (dberr ''event_journal_fencing_token_check''), db)
      else if list_ex (\<lambda>r. jr_event_id r = env_ids en k) (db_journal db)
        then (Err (dberr ''event_journal_event_id_key''), db)
      else (Ok sequence, db\<lparr>db_journal := db_journal db @
              [\<lparr>jr_sequence = sequence, jr_event_id = env_ids en k, jr_stream_id = stream_id,
                jr_event_type = event_type, jr_payload = payload, jr_fencing_token = token\<rparr>]\<rparr>))"

definition append_event :: "env \<Rightarrow> string \<Rightarrow> string \<Rightarrow> jobject \<Rightarrow> int \<Rightarrow> (store_error, int) statement" where
  "append_event en stream_id event_type payload token =
     execute en Database (insert_event en 0 Database stream_id event_type payload token)"

definition checkpoint_stmt :: "string \<Rightarrow> int \<Rightarrow> jobject \<Rightarrow> int \<Rightarrow> (store_error, unit) statement" where
  "checkpoint_stmt stream_id journal_sequence state token db =
     (let put = (Ok (), db\<lparr>db_checkpoints := (db_checkpoints db)(stream_id \<mapsto>
            \<lparr>cr_journal_sequence = journal_sequence, cr_state = state, cr_fencing_token = token\<rparr>)\<rparr>)
      in if journal_sequence < 0 then (Err (Database ''checkpoints_journal_sequence_check''), db)
         else if token \<le> 0 then (Err (Database ''checkpoints_fencing_token_check''), db)
         else case db_checkpoints db stream_id of
           None \<Rightarrow> put
         | Some row \<Rightarrow>
             if cr_journal_sequence row \<le> journal_sequence \<and> cr_fencing_token row \<le> token
             then put else (Ok (), db))"

definition save_checkpoint :: "env \<Rightarrow> string \<Rightarrow> int \<Rightarrow> jobject \<Rightarrow> int \<Rightarrow> (store_error, unit) statement" where
  "save_checkpoint en stream_id journal_sequence state token =
     execute en Database (checkpoint_stmt stream_id journal_sequence state token)"

definition load_checkpoint :: "env \<Rightarrow> string \<Rightarrow> (store_error, (int \<times> jobject \<times> int) option) statement" where
  "load_checkpoint en stream_id =
     execute en Database (\<lambda>db. (Ok (map_option (\<lambda>row.
        (cr_journal_sequence row, cr_state row, cr_fencing_token row)) (db_checkpoints db stream_id)), db))"

section \<open>Order records and positions\<close>

definition order_row_of :: "int \<Rightarrow> order_record \<Rightarrow> int \<Rightarrow> order_row" where
  "order_row_of now r token =
     \<lparr>ow_venue = venue_key (or_venue r), ow_asset = or_asset r,
      ow_owner_strategy_id = or_owner_strategy_id r, ow_state = r, ow_fencing_token = token,
      ow_updated_at = now\<rparr>"

text \<open>
  The trigger \<open>pg_order_intent_once\<close> of migration 0003 raises on every update to a
  \<open>Created\<close> state.
\<close>

definition save_order_stmt :: "int \<Rightarrow> order_record \<Rightarrow> int \<Rightarrow> (store_error, unit) statement" where
  "save_order_stmt now r token db =
     (let put = (Ok (), db\<lparr>db_orders := om_insert (or_client_order_id r) (order_row_of now r token) (db_orders db)\<rparr>)
      in case om_get (or_client_order_id r) (db_orders db) of
        None \<Rightarrow> put
      | Some row \<Rightarrow>
          if ow_fencing_token row \<le> token
          then if or_state r = Created
               then (Err (Database (''duplicate durable order intent: '' @ or_client_order_id r)), db)
               else put
          else (Err StoreFencingLost, db))"

definition save_order_record :: "env \<Rightarrow> order_record \<Rightarrow> int \<Rightarrow> (store_error, unit) statement" where
  "save_order_record en r token = execute en Database (save_order_stmt (env_now en) r token)"

definition orders_of_venue :: "venue \<Rightarrow> db \<Rightarrow> order_record list" where
  "orders_of_venue v db =
     map ow_state (sort_key ow_updated_at (filter (\<lambda>row. ow_venue row = venue_key v) (om_values (db_orders db))))"

definition load_orders_for_venue :: "env \<Rightarrow> venue \<Rightarrow> (store_error, order_record list) statement" where
  "load_orders_for_venue en v = execute en Database (\<lambda>db. (Ok (orders_of_venue v db), db))"

definition save_position_stmt :: "venue_position \<Rightarrow> int \<Rightarrow> (store_error, unit) statement" where
  "save_position_stmt p token db =
     (let put = (Ok (), db\<lparr>db_positions := om_insert (position_key p)
                   \<lparr>pw_state = p, pw_fencing_token = token\<rparr> (db_positions db)\<rparr>)
      in case om_get (position_key p) (db_positions db) of
        None \<Rightarrow> put
      | Some row \<Rightarrow> if pw_fencing_token row \<le> token then put else (Err StoreFencingLost, db))"

definition save_position_state :: "env \<Rightarrow> venue_position \<Rightarrow> int \<Rightarrow> (store_error, unit) statement" where
  "save_position_state en p token = execute en Database (save_position_stmt p token)"

definition positions_of_venue :: "venue \<Rightarrow> db \<Rightarrow> venue_position list" where
  "positions_of_venue v db =
     map (pw_state \<circ> snd) (filter (\<lambda>(key, row). ak_venue key = v) (db_positions db))"

definition load_position_states :: "env \<Rightarrow> venue \<Rightarrow> (store_error, venue_position list) statement" where
  "load_position_states en v = execute en Database (\<lambda>db. (Ok (positions_of_venue v db), db))"

section \<open>Reconcile runs and the audit\<close>

definition reconcile_stmt :: "uuid \<Rightarrow> venue \<Rightarrow> reconcile_report \<Rightarrow> int \<Rightarrow> (store_error, uuid) statement" where
  "reconcile_stmt reconcile_id v rep token db =
     (if list_ex (\<lambda>r. rw_reconcile_id r = reconcile_id) (db_reconciles db)
      then (Err (Database ''reconcile_runs_pkey''), db)
      else (Ok reconcile_id, db\<lparr>db_reconciles := db_reconciles db @
              [\<lparr>rw_reconcile_id = reconcile_id, rw_venue = venue_key v, rw_report = rep,
                rw_fencing_token = token\<rparr>]\<rparr>))"

definition save_reconcile_report :: "env \<Rightarrow> venue \<Rightarrow> reconcile_report \<Rightarrow> int \<Rightarrow> (store_error, uuid) statement" where
  "save_reconcile_report en v rep token = execute en Database (reconcile_stmt (env_ids en 0) v rep token)"

text \<open>The first outcome recorded for a request id stays.\<close>

definition audit_stmt :: "audit_row \<Rightarrow> (store_error, unit) statement" where
  "audit_stmt row db =
     (if list_ex (\<lambda>r. au_request_id r = au_request_id row) (db_audit db) then (Ok (), db)
      else (Ok (), db\<lparr>db_audit := db_audit db @ [row]\<rparr>))"

definition audit_command :: "env \<Rightarrow> audit_row \<Rightarrow> (store_error, unit) statement" where
  "audit_command en row = execute en Database (audit_stmt row)"

lemmas [store_defs] = execute_def acquire_lease_def acquire_stmt_def assert_lease_def renew_lease_def renew_stmt_def
  release_lease_def release_stmt_def append_event_def insert_event_def save_checkpoint_def checkpoint_stmt_def
  load_checkpoint_def save_order_record_def save_order_stmt_def load_orders_for_venue_def
  save_position_state_def save_position_stmt_def load_position_states_def save_reconcile_report_def
  reconcile_stmt_def audit_command_def audit_stmt_def

section \<open>Invariant and history\<close>

definition appended :: "'a list \<Rightarrow> 'a list \<Rightarrow> bool" where
  "appended xs ys \<longleftrightarrow> (\<exists>zs. ys = xs @ zs)"

lemma appended_refl [simp]: "appended xs xs"
  by (simp add: appended_def)

lemma appended_app [simp]: "appended xs (xs @ zs)"
  by (simp add: appended_def)

lemma appended_trans: "appended xs ys \<Longrightarrow> appended ys zs \<Longrightarrow> appended xs zs"
  by (auto simp: appended_def)

text \<open>
  Rows only move forward: a fencing token never decreases, a row never disappears, and an order
  that left \<open>Created\<close> never returns to it.
\<close>

definition order_row_le :: "order_row \<Rightarrow> order_row \<Rightarrow> bool" where
  "order_row_le a b \<longleftrightarrow> ow_fencing_token a \<le> ow_fencing_token b
     \<and> (or_state (ow_state a) \<noteq> Created \<longrightarrow> or_state (ow_state b) \<noteq> Created)"

definition position_row_le :: "position_row \<Rightarrow> position_row \<Rightarrow> bool" where
  "position_row_le a b \<longleftrightarrow> pw_fencing_token a \<le> pw_fencing_token b"

definition checkpoint_row_le :: "checkpoint_row \<Rightarrow> checkpoint_row \<Rightarrow> bool" where
  "checkpoint_row_le a b \<longleftrightarrow> cr_journal_sequence a \<le> cr_journal_sequence b \<and> cr_fencing_token a \<le> cr_fencing_token b"

definition table_le :: "('r \<Rightarrow> 'r \<Rightarrow> bool) \<Rightarrow> ('k \<Rightarrow> 'r option) \<Rightarrow> ('k \<Rightarrow> 'r option) \<Rightarrow> bool" where
  "table_le le m m' \<longleftrightarrow> (\<forall>k r. m k = Some r \<longrightarrow> (\<exists>r'. m' k = Some r' \<and> le r r'))"

definition evolves :: "db \<Rightarrow> db \<Rightarrow> bool" where
  "evolves a b \<longleftrightarrow>
     appended (db_journal a) (db_journal b) \<and> appended (db_fills a) (db_fills b)
     \<and> appended (db_reconciles a) (db_reconciles b) \<and> appended (db_audit a) (db_audit b)
     \<and> table_le order_row_le (\<lambda>k. om_get k (db_orders a)) (\<lambda>k. om_get k (db_orders b))
     \<and> table_le position_row_le (\<lambda>k. om_get k (db_positions a)) (\<lambda>k. om_get k (db_positions b))
     \<and> table_le checkpoint_row_le (db_checkpoints a) (db_checkpoints b)"

definition journal_ok :: "journal_row list \<Rightarrow> bool" where
  "journal_ok js \<longleftrightarrow> sorted_wrt (<) (map jr_sequence js) \<and> distinct (map jr_event_id js)
     \<and> (\<forall>j\<in>set js. 0 < jr_sequence j \<and> jr_sequence j \<le> bigint_max \<and> 0 < jr_fencing_token j)"

definition order_row_ok :: "string \<Rightarrow> order_row \<Rightarrow> bool" where
  "order_row_ok cid row \<longleftrightarrow> or_client_order_id (ow_state row) = cid
     \<and> ow_venue row = venue_key (or_venue (ow_state row)) \<and> ow_asset row = or_asset (ow_state row)
     \<and> ow_owner_strategy_id row = or_owner_strategy_id (ow_state row)"

definition db_inv :: "db \<Rightarrow> bool" where
  "db_inv db \<longleftrightarrow>
     om_sorted (db_orders db) \<and> om_sorted (db_positions db)
     \<and> (\<forall>cid row. om_get cid (db_orders db) = Some row \<longrightarrow> order_row_ok cid row)
     \<and> (\<forall>key row. om_get key (db_positions db) = Some row \<longrightarrow> position_key (pw_state row) = key)
     \<and> journal_ok (db_journal db)
     \<and> (\<forall>key row. db_leases db key = Some row \<longrightarrow> 0 < lr_fencing_token row \<and> lr_fencing_token row \<le> bigint_max)"

subsection \<open>Generic facts\<close>

lemma execute_eq_Ok: "execute en dberr stmt db = (Ok x, db') \<longleftrightarrow> env_fault en = NoFault \<and> stmt db = (Ok x, db')"
  by (auto simp: execute_def split: fault.splits)

lemma execute_snd: "snd (execute en dberr stmt db) = db \<or> snd (execute en dberr stmt db) = snd (stmt db)"
  by (auto simp: execute_def split: fault.splits)

lemma execute_keeps: "P db \<Longrightarrow> P (snd (stmt db)) \<Longrightarrow> P (snd (execute en dberr stmt db))"
  using execute_snd [of en dberr stmt db] by metis

lemma table_le_refl: "(\<And>r. le r r) \<Longrightarrow> table_le le m m"
  by (auto simp: table_le_def)

lemma table_le_trans:
  "(\<And>a b c. le a b \<Longrightarrow> le b c \<Longrightarrow> le a c) \<Longrightarrow> table_le le m m' \<Longrightarrow> table_le le m' m'' \<Longrightarrow> table_le le m m''"
  unfolding table_le_def by blast

lemma table_le_put:
  "(\<And>r. le r r) \<Longrightarrow> (\<And>r. m k = Some r \<Longrightarrow> le r v) \<Longrightarrow> table_le le m (\<lambda>j. if j = k then Some v else m j)"
  by (auto simp: table_le_def)

lemma row_le_refl [simp]: "order_row_le r r" "position_row_le p p" "checkpoint_row_le c c"
  by (simp_all add: order_row_le_def position_row_le_def checkpoint_row_le_def)

lemma row_tables_refl [simp]:
  "table_le order_row_le m1 m1" "table_le position_row_le m2 m2" "table_le checkpoint_row_le m3 m3"
  by (simp_all add: table_le_refl)

lemma evolves_refl [simp]: "evolves a a"
  by (simp add: evolves_def)

lemma evolves_trans: "evolves a b \<Longrightarrow> evolves b c \<Longrightarrow> evolves a c"
  unfolding evolves_def
  by (auto elim: appended_trans
      elim!: table_le_trans [rotated] simp: order_row_le_def position_row_le_def checkpoint_row_le_def)

text \<open>A call result that keeps both the invariant and the history.\<close>

definition keeps :: "db \<Rightarrow> db \<Rightarrow> bool" where
  "keeps a b \<longleftrightarrow> db_inv a \<longrightarrow> db_inv b \<and> evolves a b"

lemma keeps_refl [simp]: "keeps a a"
  by (simp add: keeps_def)

lemma keeps_trans: "keeps a b \<Longrightarrow> keeps b c \<Longrightarrow> keeps a c"
  by (auto simp: keeps_def intro: evolves_trans)

lemma keeps_execute: "keeps db (snd (stmt db)) \<Longrightarrow> keeps db (snd (execute en dberr stmt db))"
  by (rule execute_keeps [where P = "keeps db"]) simp_all

lemma keeps_bind:
  assumes "keeps db (snd (m db))" "\<And>x db'. m db = (Ok x, db') \<Longrightarrow> keeps db' (snd (f x db'))"
  shows "keeps db (snd (bind m f db))"
proof (cases "m db")
  case (Pair r db')
  with assms show ?thesis by (cases r) (auto simp: bind_def intro: keeps_trans)
qed

subsection \<open>Statements keep the invariant and the history\<close>

lemma keeps_leases:
  assumes "\<And>key row. ls key = Some row \<Longrightarrow> db_inv db \<Longrightarrow> 0 < lr_fencing_token row \<and> lr_fencing_token row \<le> bigint_max"
  shows "keeps db (db\<lparr>db_leases := ls\<rparr>)"
  using assms by (auto simp: keeps_def db_inv_def evolves_def)

lemma db_inv_lease:
  "db_inv db \<Longrightarrow> db_leases db key = Some row \<Longrightarrow> 0 < lr_fencing_token row \<and> lr_fencing_token row \<le> bigint_max"
  by (simp add: db_inv_def)

lemma keeps_lease_put:
  assumes "db_inv db \<Longrightarrow> 0 < t \<and> t \<le> bigint_max"
  shows "keeps db (db\<lparr>db_leases := (db_leases db)(key \<mapsto> \<lparr>lr_holder_id = h, lr_fencing_token = t, lr_lease_expires_at = e\<rparr>)\<rparr>)"
  by (rule keeps_leases) (use assms in \<open>auto simp: db_inv_lease split: if_splits\<close>)

lemma keeps_acquire: "keeps db (snd (acquire_stmt now key holder ttl db))"
proof (cases "db_leases db key")
  case None
  then show ?thesis by (auto simp: acquire_stmt_def Let_def bigint_max_def intro: keeps_lease_put)
next
  case (Some row)
  have "db_inv db \<Longrightarrow> 0 < lr_fencing_token row \<and> lr_fencing_token row \<le> bigint_max"
    using Some by (rule db_inv_lease [rotated])
  then show ?thesis using Some by (force simp: acquire_stmt_def Let_def intro!: keeps_lease_put)
qed

lemma keeps_renew: "keeps db (snd (renew_stmt now l db))"
proof -
  have "0 < rl_fencing_token l \<and> rl_fencing_token l \<le> bigint_max" if "lease_valid now l db" "db_inv db"
    using that db_inv_lease [of db "rl_lease_key l"] by (auto simp: lease_valid_def split: option.splits)
  then show ?thesis by (auto simp: renew_stmt_def intro!: keeps_lease_put)
qed

lemma keeps_release: "keeps db (snd (release_stmt l db))"
  by (auto simp: release_stmt_def split: option.splits if_splits intro!: keeps_leases dest: db_inv_lease)

lemma last_sequence_ge: "journal_ok (db_journal db) \<Longrightarrow> j \<in> set (db_journal db) \<Longrightarrow> jr_sequence j \<le> last_sequence db"
  by (cases "db_journal db" rule: rev_cases) (auto simp: journal_ok_def last_sequence_def sorted_wrt_append)

lemma last_sequence_nonneg: "journal_ok (db_journal db) \<Longrightarrow> 0 \<le> last_sequence db"
  by (cases "db_journal db" rule: rev_cases) (auto simp: journal_ok_def last_sequence_def)

lemma keeps_insert_event: "keeps db (snd (insert_event en k dberr stream ty payload token db))"
proof -
  let ?seq = "last_sequence db + 1 + int (env_gaps en k)"
  have "journal_ok (db_journal db @ [j])"
    if "journal_ok (db_journal db)" "jr_sequence j = ?seq" "?seq \<le> bigint_max" "0 < jr_fencing_token j"
      "jr_event_id j = env_ids en k" "\<not> list_ex (\<lambda>r. jr_event_id r = env_ids en k) (db_journal db)" for j
    using that last_sequence_ge [OF that(1)] last_sequence_nonneg [OF that(1)]
    by (force simp: journal_ok_def sorted_wrt_append list_ex_iff)
  then show ?thesis
    by (auto simp: insert_event_def Let_def keeps_def db_inv_def evolves_def not_less not_le)
qed

lemma keeps_checkpoint: "keeps db (snd (checkpoint_stmt stream sq st token db))"
  by (auto simp: checkpoint_stmt_def Let_def keeps_def db_inv_def evolves_def fun_upd_def checkpoint_row_le_def
      split: option.splits intro!: table_le_put)

lemma order_row_of_ok: "order_row_ok (or_client_order_id r) (order_row_of now r token)"
  by (simp add: order_row_ok_def order_row_of_def)

lemma keeps_order_put:
  assumes "order_row_ok cid row" "\<And>old. om_get cid (db_orders db) = Some old \<Longrightarrow> order_row_le old row"
  shows "keeps db (db\<lparr>db_orders := om_insert cid row (db_orders db)\<rparr>)"
  using assms
  by (auto simp: keeps_def db_inv_def evolves_def om_get_insert om_insert_sorted intro!: table_le_put)

lemma keeps_save_order: "keeps db (snd (save_order_stmt now r token db))"
  by (auto simp: save_order_stmt_def Let_def order_row_of_ok order_row_le_def split: option.splits
      intro!: keeps_order_put) (simp_all add: order_row_of_def)

lemma keeps_save_position: "keeps db (snd (save_position_stmt p token db))"
  by (auto simp: save_position_stmt_def Let_def keeps_def db_inv_def evolves_def om_get_insert om_insert_sorted
      position_row_le_def split: option.splits intro!: table_le_put)

lemma keeps_reconcile: "keeps db (snd (reconcile_stmt i v rep token db))"
  by (auto simp: reconcile_stmt_def keeps_def db_inv_def evolves_def)

lemma keeps_audit: "keeps db (snd (audit_stmt row db))"
  by (auto simp: audit_stmt_def keeps_def db_inv_def evolves_def)

subsection \<open>Leases\<close>

text \<open>
  A lease is superseded once its key is held under a higher token, or under the same token by
  somebody else. Only a release of the key can undo that.
\<close>

definition superseded :: "runtime_lease \<Rightarrow> db \<Rightarrow> bool" where
  "superseded l db \<longleftrightarrow>
     (case db_leases db (rl_lease_key l) of
        Some row \<Rightarrow> rl_fencing_token l < lr_fencing_token row
          \<or> rl_fencing_token l = lr_fencing_token row \<and> rl_holder_id l \<noteq> lr_holder_id row
      | None \<Rightarrow> False)"

lemma superseded_not_valid: "superseded l db \<Longrightarrow> \<not> lease_valid now l db"
  by (auto simp: superseded_def lease_valid_def split: option.splits)

lemma superseded_leases_eq: "db_leases db' = db_leases db \<Longrightarrow> superseded l db' = superseded l db"
  by (simp add: superseded_def)

lemma superseded_acquire: "superseded l db \<Longrightarrow> superseded l (snd (acquire_stmt now key holder ttl db))"
  by (auto simp: acquire_stmt_def superseded_def Let_def split: option.splits)

lemma superseded_renew: "superseded l db \<Longrightarrow> superseded l (snd (renew_stmt now l' db))"
  by (auto simp: renew_stmt_def superseded_def lease_valid_def split: option.splits)

lemma superseded_release:
  "superseded l db \<Longrightarrow> rl_lease_key l' \<noteq> rl_lease_key l \<Longrightarrow> superseded l (snd (release_stmt l' db))"
  by (auto simp: release_stmt_def superseded_def split: option.splits)

lemma superseded_execute:
  "superseded l db \<Longrightarrow> superseded l (snd (stmt db)) \<Longrightarrow> superseded l (snd (execute en dberr stmt db))"
  by (rule execute_keeps)

lemma leases_frame:
  "db_leases (snd (insert_event en k dberr stream ty payload token db)) = db_leases db"
  "db_leases (snd (checkpoint_stmt stream sq st token db)) = db_leases db"
  "db_leases (snd (save_order_stmt now r token db)) = db_leases db"
  "db_leases (snd (save_position_stmt p token db)) = db_leases db"
  "db_leases (snd (reconcile_stmt i v rep token db)) = db_leases db"
  "db_leases (snd (audit_stmt row db)) = db_leases db"
  by (simp_all add: insert_event_def checkpoint_stmt_def save_order_stmt_def save_position_stmt_def
      reconcile_stmt_def audit_stmt_def Let_def split: option.split)

lemma acquire_Ok:
  assumes "acquire_lease en key holder ttl db = (Ok l, db')"
  shows "env_fault en = NoFault" "5 \<le> ttl" "ttl \<le> 300"
    "l = \<lparr>rl_lease_key = key, rl_holder_id = holder, rl_fencing_token = rl_fencing_token l, rl_ttl_seconds = ttl\<rparr>"
    "db' = db\<lparr>db_leases := (db_leases db)(key \<mapsto> \<lparr>lr_holder_id = holder,
       lr_fencing_token = rl_fencing_token l, lr_lease_expires_at = lease_expiry (env_now en) ttl\<rparr>)\<rparr>"
    "db_leases db key = None \<Longrightarrow> rl_fencing_token l = 1"
    "\<And>row. db_leases db key = Some row \<Longrightarrow> lr_holder_id row = holder \<Longrightarrow> rl_fencing_token l = lr_fencing_token row"
    "\<And>row. db_leases db key = Some row \<Longrightarrow> lr_holder_id row \<noteq> holder \<Longrightarrow>
       lr_lease_expires_at row \<le> env_now en \<and> rl_fencing_token l = lr_fencing_token row + 1"
  using assms
  by (auto simp: acquire_lease_def validate_ttl_def execute_eq_Ok acquire_stmt_def Let_def
      split: if_splits option.splits)

text \<open>
  C8. Mutual exclusion of the runtime lease. When a lease is granted its time to live is within the
  allowed range, it is valid at once, no lease of another holder on that key was still running, and
  from then on every valid lease on the key names the new holder and its token. A takeover from
  another holder raises the token by one; a holder that re-acquires keeps its own.
\<close>

theorem lease_exclusive:
  assumes "acquire_lease en key holder ttl db = (Ok l, db')"
  shows "5 \<le> ttl \<and> ttl \<le> 300 \<and> rl_lease_key l = key \<and> rl_holder_id l = holder
    \<and> lease_valid (env_now en) l db'
    \<and> (\<forall>l2 now. rl_lease_key l2 = key \<and> lease_valid now l2 db' \<longrightarrow>
         rl_holder_id l2 = holder \<and> rl_fencing_token l2 = rl_fencing_token l \<and> now < env_now en + ttl * 1000000)
    \<and> (\<forall>l2. rl_lease_key l2 = key \<and> lease_valid (env_now en) l2 db \<longrightarrow> rl_holder_id l2 = holder)
    \<and> (\<forall>row. db_leases db key = Some row \<longrightarrow>
         rl_fencing_token l = lr_fencing_token row + (if lr_holder_id row = holder then 0 else 1))"
proof (intro conjI)
  note facts = acquire_Ok [OF assms]
  show "5 \<le> ttl" "ttl \<le> 300" by (rule facts)+
  show key: "rl_lease_key l = key" and holder: "rl_holder_id l = holder"
    using facts(4) by (metis runtime_lease.select_convs(1,2))+
  show "lease_valid (env_now en) l db'"
    using facts(2) by (simp add: lease_valid_def lease_expiry_def facts(5) key holder)
  show "\<forall>l2 now. rl_lease_key l2 = key \<and> lease_valid now l2 db' \<longrightarrow>
      rl_holder_id l2 = holder \<and> rl_fencing_token l2 = rl_fencing_token l \<and> now < env_now en + ttl * 1000000"
    by (simp add: lease_valid_def lease_expiry_def facts(5))
  show "\<forall>l2. rl_lease_key l2 = key \<and> lease_valid (env_now en) l2 db \<longrightarrow> rl_holder_id l2 = holder"
    using facts(8) by (fastforce simp: lease_valid_def split: option.splits)
  show "\<forall>row. db_leases db key = Some row \<longrightarrow>
      rl_fencing_token l = lr_fencing_token row + (if lr_holder_id row = holder then 0 else 1)"
    using facts(7,8) by simp
qed

definition demo_env :: "int \<Rightarrow> env" where
  "demo_env now = \<lparr>env_now = now, env_fault = NoFault, env_ids = of_nat, env_gaps = (\<lambda>_. 0)\<rparr>"

definition demo_lease :: runtime_lease where
  "demo_lease = \<lparr>rl_lease_key = ''pg'', rl_holder_id = ''a'', rl_fencing_token = 1, rl_ttl_seconds = 15\<rparr>"

definition demo_leased_db :: db where
  "demo_leased_db = empty_db\<lparr>db_leases := [''pg'' \<mapsto> \<lparr>lr_holder_id = ''a'', lr_fencing_token = 1,
     lr_lease_expires_at = 15000000\<rparr>]\<rparr>"

lemma demo_takeover:
  "acquire_lease (demo_env 20000000) ''pg'' ''b'' 15 demo_leased_db =
     (Ok \<lparr>rl_lease_key = ''pg'', rl_holder_id = ''b'', rl_fencing_token = 2, rl_ttl_seconds = 15\<rparr>,
      demo_leased_db\<lparr>db_leases := [''pg'' \<mapsto> \<lparr>lr_holder_id = ''b'', lr_fencing_token = 2,
        lr_lease_expires_at = 35000000\<rparr>]\<rparr>)"
  by (simp add: acquire_lease_def acquire_stmt_def execute_def demo_env_def demo_leased_db_def empty_db_def
      validate_ttl_def lease_expiry_def bigint_max_def)

theorem lease_exclusive_witness:
  "\<not> lease_valid 20000000 demo_lease demo_leased_db
   \<and> (\<forall>now. \<not> lease_valid now demo_lease (snd (acquire_lease (demo_env 20000000) ''pg'' ''b'' 15 demo_leased_db)))"
proof -
  note ex = lease_exclusive [OF demo_takeover]
  have demo: "rl_lease_key demo_lease = ''pg''" "rl_holder_id demo_lease = ''a''" "env_now (demo_env 20000000) = 20000000"
    by (simp_all add: demo_lease_def demo_env_def)
  have differ: "''a'' \<noteq> ''b''" by simp
  from ex have "\<forall>l2. rl_lease_key l2 = ''pg'' \<and> lease_valid 20000000 l2 demo_leased_db \<longrightarrow> rl_holder_id l2 = ''b''"
    unfolding demo(3) by blast
  then have "\<not> lease_valid 20000000 demo_lease demo_leased_db" using demo differ by fastforce
  moreover have "\<not> lease_valid now demo_lease (snd (acquire_lease (demo_env 20000000) ''pg'' ''b'' 15 demo_leased_db))" for now
    unfolding demo_takeover snd_conv using ex demo(1,2) differ by fastforce
  ultimately show ?thesis by blast
qed

subsection \<open>Order rows\<close>

lemma venue_key_inj [simp]: "venue_key v = venue_key w \<longleftrightarrow> v = w"
  by (cases v; cases w) simp_all

lemma db_inv_order: "db_inv db \<Longrightarrow> om_get cid (db_orders db) = Some row \<Longrightarrow> order_row_ok cid row"
  by (simp add: db_inv_def)

lemma db_inv_order_client: "db_inv db \<Longrightarrow> om_get cid (db_orders db) = Some row \<Longrightarrow> or_client_order_id (ow_state row) = cid"
  by (drule (1) db_inv_order) (simp add: order_row_ok_def)

lemma orders_of_venue_iff:
  assumes "db_inv db"
  shows "r \<in> set (orders_of_venue v db) \<longleftrightarrow>
    or_venue r = v \<and> (\<exists>row. om_get (or_client_order_id r) (db_orders db) = Some row \<and> ow_state row = r)"
proof -
  have sorted: "om_sorted (db_orders db)" using assms by (simp add: db_inv_def)
  have "r \<in> set (orders_of_venue v db) \<longleftrightarrow>
      (\<exists>cid row. om_get cid (db_orders db) = Some row \<and> ow_venue row = venue_key v \<and> ow_state row = r)"
    unfolding orders_of_venue_def om_values_def om_entries_get [OF sorted, symmetric] by force
  also have "\<dots> \<longleftrightarrow> or_venue r = v \<and> (\<exists>row. om_get (or_client_order_id r) (db_orders db) = Some row \<and> ow_state row = r)"
    using db_inv_order [OF assms] unfolding order_row_ok_def by auto
  finally show ?thesis .
qed

lemma orders_of_venue_distinct:
  assumes "db_inv db"
  shows "distinct (map or_client_order_id (orders_of_venue v db))"
proof -
  have ok: "\<forall>(cid, row)\<in>set (db_orders db). or_client_order_id (ow_state row) = cid"
    using assms db_inv_order_client [OF assms] om_entries_get by (fastforce simp: db_inv_def)
  then have eq: "map (or_client_order_id \<circ> ow_state) (om_values (db_orders db)) = map fst (db_orders db)"
    unfolding om_values_def by auto
  have "distinct (map (or_client_order_id \<circ> ow_state) (om_values (db_orders db)))"
    unfolding eq using assms by (simp add: db_inv_def om_sorted_distinct)
  then have "distinct (map (or_client_order_id \<circ> ow_state) (filter (\<lambda>row. ow_venue row = venue_key v) (om_values (db_orders db))))"
    by (rule distinct_map_filter)
  then show ?thesis
    unfolding orders_of_venue_def map_map by (simp add: distinct_map)
qed

lemma save_order_Ok:
  assumes "save_order_record en r token db = (Ok (), db')"
  shows "db' = db\<lparr>db_orders := om_insert (or_client_order_id r) (order_row_of (env_now en) r token) (db_orders db)\<rparr>"
    "\<And>row. om_get (or_client_order_id r) (db_orders db) = Some row \<Longrightarrow>
       ow_fencing_token row \<le> token \<and> or_state r \<noteq> Created"
  using assms
  by (auto simp: save_order_record_def execute_eq_Ok save_order_stmt_def Let_def split: option.splits if_splits)

lemma save_order_get:
  assumes "save_order_record en r token db = (Ok (), db')" "db_inv db"
  shows "om_get cid (db_orders db') =
    (if cid = or_client_order_id r then Some (order_row_of (env_now en) r token) else om_get cid (db_orders db))"
  using assms(2) by (simp add: save_order_Ok(1) [OF assms(1)] om_get_insert db_inv_def)

lemma save_order_keeps: "keeps db (snd (save_order_record en r token db))"
  unfolding save_order_record_def by (intro keeps_execute keeps_save_order)

lemma save_order_inv: "save_order_record en r token db = (res, db') \<Longrightarrow> db_inv db \<Longrightarrow> db_inv db'"
  using save_order_keeps [of db en r token] by (simp add: keeps_def)

lemma save_order_refused:
  assumes "om_get (or_client_order_id r) (db_orders db) = Some row" "token < ow_fencing_token row \<or> or_state r = Created"
  shows "fst (save_order_record en r token db) \<noteq> Ok () \<and> snd (save_order_record en r token db) = db"
  using assms by (auto simp: save_order_record_def execute_def save_order_stmt_def Let_def split: fault.split)

lemma load_orders_Ok: "load_orders_for_venue en v db = (Ok rs, db') \<longleftrightarrow> env_fault en = NoFault \<and> rs = orders_of_venue v db \<and> db' = db"
  by (auto simp: load_orders_for_venue_def execute_eq_Ok)

lemma load_after_save:
  assumes "db_inv db" "save_order_record en r token db = (Ok (), db1)"
  shows "distinct (map or_client_order_id (orders_of_venue v db1))
    \<and> (\<forall>x. x \<in> set (orders_of_venue v db1) \<longleftrightarrow>
         (if or_client_order_id x = or_client_order_id r then x = r \<and> or_venue r = v
          else x \<in> set (orders_of_venue v db)))"
proof -
  have inv: "db_inv db1" using save_order_inv assms by blast
  show ?thesis
    using orders_of_venue_distinct [OF inv]
    by (auto simp: orders_of_venue_iff [OF inv] orders_of_venue_iff [OF assms(1)]
        save_order_get [OF assms(2,1)] order_row_of_def)
qed

text \<open>
  C9. Order records round-trip and are fenced. Loading a venue's orders after a successful save
  returns every client id once: the saved record under its own id, and every other order as before.
  A save under a lower fencing token than the stored row's, or of a fresh record whose client id is
  already durable, never succeeds and changes nothing.
\<close>

theorem order_save_load:
  assumes "db_inv db"
  shows "(\<forall>db1 v en' rs db2. save_order_record en r token db = (Ok (), db1) \<and> load_orders_for_venue en' v db1 = (Ok rs, db2) \<longrightarrow>
      db2 = db1 \<and> distinct (map or_client_order_id rs)
      \<and> (\<forall>x. x \<in> set rs \<longleftrightarrow>
           (if or_client_order_id x = or_client_order_id r then x = r \<and> or_venue r = v
            else x \<in> set (orders_of_venue v db))))
    \<and> (\<forall>row. om_get (or_client_order_id r) (db_orders db) = Some row
         \<and> (token < ow_fencing_token row \<or> or_state r = Created) \<longrightarrow>
         fst (save_order_record en r token db) \<noteq> Ok () \<and> snd (save_order_record en r token db) = db)"
proof (intro conjI allI impI; (elim conjE)?)
  fix db1 v en' rs db2
  assume saved: "save_order_record en r token db = (Ok (), db1)" and "load_orders_for_venue en' v db1 = (Ok rs, db2)"
  then have rs: "rs = orders_of_venue v db1" "db2 = db1" by (auto simp: load_orders_Ok)
  show "db2 = db1" by (rule rs)
  show "distinct (map or_client_order_id rs)" "x \<in> set rs \<longleftrightarrow>
     (if or_client_order_id x = or_client_order_id r then x = r \<and> or_venue r = v else x \<in> set (orders_of_venue v db))" for x
    unfolding rs using load_after_save [OF assms saved] by blast+
qed (use save_order_refused in blast)+

lemma empty_db_inv: "db_inv empty_db"
  by (simp add: db_inv_def empty_db_def om_sorted_def om_get_def journal_ok_def)

definition demo_record :: order_record where
  "demo_record = from_intent uuid_hex 9 demo_intent"

definition demo_saved_db :: db where
  "demo_saved_db = empty_db\<lparr>db_orders := [(or_client_order_id demo_record, order_row_of 5 demo_record 1)]\<rparr>"

lemma demo_save: "save_order_record (demo_env 5) demo_record 1 empty_db = (Ok (), demo_saved_db)"
  by (simp add: save_order_record_def execute_def demo_env_def save_order_stmt_def empty_db_def om_get_def demo_saved_db_def)

lemma demo_record_venue: "or_venue demo_record = Hyperliquid"
  by (simp add: demo_record_def from_intent_def demo_intent_def)

lemma demo_load:
  "load_orders_for_venue (demo_env 6) Hyperliquid demo_saved_db = (Ok [demo_record], demo_saved_db)"
  by (simp add: load_orders_for_venue_def execute_def demo_env_def orders_of_venue_def demo_saved_db_def om_values_def
      order_row_of_def demo_record_venue)

theorem order_save_load_witness:
  "db_inv empty_db \<and> db_inv demo_saved_db
   \<and> (\<forall>x. x \<in> set [demo_record] \<longleftrightarrow>
        (if or_client_order_id x = or_client_order_id demo_record then x = demo_record \<and> or_venue demo_record = Hyperliquid
         else x \<in> set (orders_of_venue Hyperliquid empty_db)))
   \<and> fst (save_order_record (demo_env 7) demo_record 1 demo_saved_db) \<noteq> Ok ()"
proof -
  have inv: "db_inv demo_saved_db" using save_order_inv [OF demo_save] empty_db_inv by blast
  have created: "or_state demo_record = Created" by (simp add: demo_record_def from_intent_def)
  have "\<forall>x. x \<in> set [demo_record] \<longleftrightarrow>
        (if or_client_order_id x = or_client_order_id demo_record then x = demo_record \<and> or_venue demo_record = Hyperliquid
         else x \<in> set (orders_of_venue Hyperliquid empty_db))"
    using order_save_load [OF empty_db_inv, of "demo_env 5" demo_record 1] demo_save demo_load by blast
  moreover have "fst (save_order_record (demo_env 7) demo_record 1 demo_saved_db) \<noteq> Ok ()"
    using order_save_load [OF inv, of "demo_env 7" demo_record 1] created
    by (auto simp: demo_saved_db_def om_get_def)
  ultimately show ?thesis using inv empty_db_inv by blast
qed

end
