(* ===== verification/FillLedger.thy ===== *)
theory FillLedger
  imports Store "HOL-Library.Multiset"
begin

text \<open>
  The immutable fill ledger and the settlement transaction, \<open>rust/crates/pg-store/src/fill_ledger.rs\<close>
  and \<open>fill_ledger/settlement.rs\<close>. A transaction is a sequence of statements that leaves the
  database as it was unless every one of them succeeds; row locks make transactions of one order
  run one after the other.
\<close>

named_theorems ledger_defs \<open>definitions of the ledger transactions\<close>

section \<open>Data\<close>

datatype fill_insert_outcome = Inserted | Duplicate

datatype ledger_error =
  LedgerDatabase string | LedgerSerialization string | LedgerFencingLost | Invalid string | Conflict
| Unowned

record complete_order_history =
  ch_account_scope :: string
  ch_client_order_id :: string
  ch_venue_order_id :: string
  ch_authoritative_filled :: decimal
  ch_authoritative_state :: order_state
  ch_trades :: "execution_fill list"

record settlement_receipt =
  sr_client_order_id :: string
  sr_filled_quantity :: decimal
  sr_inserted_trades :: nat

section \<open>Validation of a fill\<close>

definition venue_fill_key :: "execution_fill \<Rightarrow> string" where
  "venue_fill_key f = (if ef_venue_fill_id f = [] then show_int (ef_trade_id f) else ef_venue_fill_id f)"

definition valid_identifier :: "string \<Rightarrow> nat \<Rightarrow> bool" where
  "valid_identifier value max_len \<longleftrightarrow>
     value \<noteq> [] \<and> length value \<le> max_len
     \<and> list_all (\<lambda>ch. is_ascii_alphanumeric ch \<or> ch \<in> set ''_-.:/'') value"

definition valid_time :: "execution_fill \<Rightarrow> bool" where
  "valid_time f \<longleftrightarrow>
     (case ef_trade_time_ms f of Some t \<Rightarrow> 0 < t | None \<Rightarrow> False)
     \<or> (case ef_venue_time f of
          Some v \<Rightarrow> \<not> is_blank v \<and> length v \<le> 128
            \<and> list_all (\<lambda>ch. is_ascii_graphic ch \<or> ch = CHR '' '') v
        | None \<Rightarrow> False)"

text \<open>\<open>client_order_id[2..]\<close> is only read after the prefix test.\<close>

definition valid_order_identity :: "execution_fill \<Rightarrow> bool" where
  "valid_order_identity f \<longleftrightarrow>
     (case parse_u64_str (ef_venue_order_id f) of Some n \<Rightarrow> 0 < n | None \<Rightarrow> False)
     \<and> length (ef_client_order_id f) = 34
     \<and> starts_with ''pg'' (ef_client_order_id f)
     \<and> list_all is_ascii_hexdigit (drop 2 (ef_client_order_id f))"

definition validate_fill :: "execution_fill \<Rightarrow> (ledger_error, unit) outcome" where
  "validate_fill f =
     (if is_blank (ef_account_scope f) \<or> 128 < length (ef_account_scope f)
        then Err (Invalid ''invalid account scope'')
      else if \<not> valid_identifier (ef_symbol f) 64 then Err (Invalid ''invalid symbol'')
      else if (case ef_commission_asset f of Some a \<Rightarrow> \<not> valid_identifier a 32 | None \<Rightarrow> False)
          \<or> (ef_commission f \<noteq> None) \<noteq> (ef_commission_asset f \<noteq> None)
        then Err (Invalid ''invalid commission evidence'')
      else if ef_trade_id f < 0 \<or> \<not> valid_time f \<or> venue_fill_key f = []
          \<or> 160 < length (venue_fill_key f) \<or> \<not> list_all is_ascii_graphic (venue_fill_key f)
        then Err (Invalid ''invalid trade identity/time'')
      else if \<not> valid_order_identity f then Err (Invalid ''invalid durable order identity'')
      else if ef_quantity f \<le> 0 \<or> ef_price f \<le> 0 then Err (Invalid ''invalid quantity/price'')
      else Ok ())"

definition belongs_to :: "execution_fill \<Rightarrow> order_record \<Rightarrow> bool" where
  "belongs_to f r \<longleftrightarrow>
     or_venue r = ef_venue f \<and> or_asset r = ef_symbol f
     \<and> or_client_order_id r = ef_client_order_id f
     \<and> or_venue_order_id r = Some (ef_venue_order_id f)
     \<and> or_side r = Some (ef_side f)
     \<and> \<not> is_blank (or_owner_strategy_id r)
     \<and> 0 < or_requested_quantity r
     \<and> ef_quantity f \<le> or_requested_quantity r"

section \<open>Transactions\<close>

definition transaction :: "('e, 'a) statement \<Rightarrow> ('e, 'a) statement" where
  "transaction stmt db = (case stmt db of (Ok x, db') \<Rightarrow> (Ok x, db') | (r, _) \<Rightarrow> (r, db))"

definition lock_lease :: "env \<Rightarrow> runtime_lease \<Rightarrow> (ledger_error, unit) statement" where
  "lock_lease en l db = (if lease_valid (env_now en) l db then Ok () else Err LedgerFencingLost, db)"

definition lock_order :: "string \<Rightarrow> (ledger_error, order_record) statement" where
  "lock_order cid db = (ok_or (map_option ow_state (om_get cid (db_orders db))) Unowned, db)"

text \<open>Primary key of \<open>execution_fills\<close> after migration 0004.\<close>

definition fill_pk :: "execution_fill \<Rightarrow> string \<times> venue \<times> string \<times> string" where
  "fill_pk f = (ef_account_scope f, ef_venue f, ef_symbol f, venue_fill_key f)"

definition stored_fill :: "execution_fill \<Rightarrow> db \<Rightarrow> execution_fill option" where
  "stored_fill f db = find (\<lambda>g. fill_pk g = fill_pk f) (map fw_fill (db_fills db))"

definition fills_of_order :: "string \<Rightarrow> db \<Rightarrow> execution_fill list" where
  "fills_of_order cid db = filter (\<lambda>f. ef_client_order_id f = cid) (map fw_fill (db_fills db))"

definition fill_row_of :: "env \<Rightarrow> execution_fill \<Rightarrow> int \<Rightarrow> fill_row" where
  "fill_row_of en f token =
     \<lparr>fw_venue_fill_id = venue_fill_key f, fw_fill = f, fw_fencing_token = token, fw_created_at = env_now en\<rparr>"

definition insert_fill_row :: "env \<Rightarrow> execution_fill \<Rightarrow> int \<Rightarrow> (ledger_error, unit) statement" where
  "insert_fill_row en f token db =
     (if token \<le> 0 then (Err (LedgerDatabase ''execution_fills_fencing_token_check''), db)
      else if stored_fill f db \<noteq> None then (Err Conflict, db)
      else (Ok (), db\<lparr>db_fills := db_fills db @ [fill_row_of en f token]\<rparr>))"

definition order_stream :: "string \<Rightarrow> string" where
  "order_stream cid = ''order:'' @ cid"

fun sum_fills :: "dec_ops \<Rightarrow> (execution_fill \<Rightarrow> bool) \<Rightarrow> execution_fill list \<Rightarrow> decimal \<Rightarrow> (ledger_error, decimal) outcome" where
  "sum_fills ar agrees [] tot = Ok tot"
| "sum_fills ar agrees (f # fs) tot =
     (if \<not> agrees f then Err Conflict
      else and_then (ok_or (checked_add ar tot (ef_quantity f)) Conflict) (sum_fills ar agrees fs))"

definition same_order_evidence :: "execution_fill \<Rightarrow> execution_fill \<Rightarrow> bool" where
  "same_order_evidence f old \<longleftrightarrow>
     ef_account_scope old = ef_account_scope f \<and> ef_venue old = ef_venue f \<and> ef_symbol old = ef_symbol f
     \<and> ef_venue_order_id old = ef_venue_order_id f \<and> ef_side old = ef_side f"

text \<open>The total of the order's fills with the new one, if it stays within the requested quantity.\<close>

definition bounded_total :: "dec_ops \<Rightarrow> execution_fill \<Rightarrow> order_record \<Rightarrow> (ledger_error, unit) statement" where
  "bounded_total ar f r db =
     (and_then (sum_fills ar (same_order_evidence f) (fills_of_order (ef_client_order_id f) db) 0) (\<lambda>tot.
        and_then (ok_or (checked_add ar tot (ef_quantity f)) Conflict) (\<lambda>tot.
          if or_requested_quantity r < tot then Err Conflict else Ok ())), db)"

definition fill_recorded_payload :: "execution_fill \<Rightarrow> jobject" where
  "fill_recorded_payload f =
     [(''account_scope'', JStr (ef_account_scope f)), (''symbol'', JStr (ef_symbol f)),
      (''trade_id'', JInt (ef_trade_id f)), (''venue_fill_id'', JStr (venue_fill_key f)), (''fill'', JFill f)]"

definition insert_fill_tx :: "dec_ops \<Rightarrow> env \<Rightarrow> runtime_lease \<Rightarrow> execution_fill \<Rightarrow> (ledger_error, fill_insert_outcome) statement" where
  "insert_fill_tx ar en l f =
     bind (lock_lease en l) (\<lambda>_. bind (lock_order (ef_client_order_id f)) (\<lambda>r db.
       if \<not> belongs_to f r then (Err Conflict, db)
       else case stored_fill f db of
         Some previous \<Rightarrow> (if previous = f then Ok Duplicate else Err Conflict, db)
       | None \<Rightarrow>
           bind (bounded_total ar f r) (\<lambda>_.
           bind (insert_fill_row en f (rl_fencing_token l)) (\<lambda>_.
           bind (insert_event en 0 LedgerDatabase (order_stream (ef_client_order_id f)) ''order.fill.recorded''
                   (fill_recorded_payload f) (rl_fencing_token l)) (\<lambda>_. give (Ok Inserted)))) db))"

definition insert_execution_fill ::
  "dec_ops \<Rightarrow> env \<Rightarrow> runtime_lease \<Rightarrow> execution_fill \<Rightarrow> (ledger_error, fill_insert_outcome) statement" where
  "insert_execution_fill ar en l f =
     bind (give (validate_fill f)) (\<lambda>_. execute en LedgerDatabase (transaction (insert_fill_tx ar en l f)))"

section \<open>Reads\<close>

definition by_creation :: "fill_row list \<Rightarrow> execution_fill list" where
  "by_creation rows = map fw_fill (sort_key fw_created_at (sort_key fw_venue_fill_id rows))"

definition position_fills :: "venue \<Rightarrow> string \<Rightarrow> string \<Rightarrow> db \<Rightarrow> execution_fill list" where
  "position_fills v symbol owner db =
     by_creation (filter (\<lambda>row. ef_venue (fw_fill row) = v \<and> ef_symbol (fw_fill row) = symbol
        \<and> (case om_get (ef_client_order_id (fw_fill row)) (db_orders db) of
             Some orow \<Rightarrow> ow_owner_strategy_id orow = owner | None \<Rightarrow> False)) (db_fills db))"

definition load_execution_fills_for_position ::
  "env \<Rightarrow> env \<Rightarrow> runtime_lease \<Rightarrow> venue \<Rightarrow> string \<Rightarrow> string \<Rightarrow> (ledger_error, execution_fill list) statement" where
  "load_execution_fills_for_position en en' l v symbol owner =
     bind (lift_call (\<lambda>_. LedgerFencingLost) (assert_lease en l)) (\<lambda>_.
       execute en' LedgerDatabase (\<lambda>db. (Ok (position_fills v symbol owner db), db)))"

definition recorded_fill_quantity ::
  "dec_ops \<Rightarrow> env \<Rightarrow> env \<Rightarrow> runtime_lease \<Rightarrow> string \<Rightarrow> (ledger_error, decimal) statement" where
  "recorded_fill_quantity ar en en' l cid =
     bind (lift_call (\<lambda>_. LedgerFencingLost) (assert_lease en l)) (\<lambda>_.
     bind (execute en' LedgerDatabase
            (\<lambda>db. (Ok (by_creation (filter (\<lambda>row. ef_client_order_id (fw_fill row) = cid) (db_fills db))), db)))
       (\<lambda>stored. give (sum_fills ar (\<lambda>_. True) stored 0)))"

section \<open>Settlement of a complete order history\<close>

definition history_state_ok :: "order_state \<Rightarrow> decimal \<Rightarrow> decimal \<Rightarrow> bool" where
  "history_state_ok st quantity requested =
     (case st of
        Open \<Rightarrow> quantity = 0
      | PartiallyFilled \<Rightarrow> 0 < quantity \<and> quantity < requested
      | Filled \<Rightarrow> quantity = requested
      | Canceled \<Rightarrow> quantity \<le> requested
      | Rejected \<Rightarrow> quantity = 0
      | _ \<Rightarrow> False)"

definition validate_transition :: "order_record \<Rightarrow> complete_order_history \<Rightarrow> (ledger_error, unit) outcome" where
  "validate_transition r h =
     (if or_client_order_id r \<noteq> ch_client_order_id h
         \<or> or_venue_order_id r \<noteq> Some (ch_venue_order_id h)
         \<or> is_blank (or_owner_strategy_id r)
         \<or> or_side r = None
         \<or> or_requested_quantity r \<le> 0
         \<or> ch_account_scope h = [] \<or> 128 < length (ch_account_scope h)
         \<or> ch_authoritative_filled h < or_filled_quantity r
         \<or> or_requested_quantity r < ch_authoritative_filled h
         \<or> or_state r = Created then Err Conflict
      else if is_terminal r \<and> or_state r \<noteq> ch_authoritative_state h then Err Conflict
      else if \<not> history_state_ok (ch_authoritative_state h) (ch_authoritative_filled h) (or_requested_quantity r)
        then Err Conflict
      else Ok ())"

fun collect_trades ::
  "dec_ops \<Rightarrow> complete_order_history \<Rightarrow> order_record \<Rightarrow> execution_fill list \<Rightarrow> (string, execution_fill) omap \<Rightarrow> decimal \<Rightarrow> (ledger_error, (string, execution_fill) omap \<times> decimal) outcome" where
  "collect_trades ar h r [] incoming tot = Ok (incoming, tot)"
| "collect_trades ar h r (f # fs) incoming tot =
     and_then (validate_fill f) (\<lambda>_.
       if ef_account_scope f \<noteq> ch_account_scope h
          \<or> ef_venue_order_id f \<noteq> ch_venue_order_id h
          \<or> ef_client_order_id f \<noteq> ch_client_order_id h
          \<or> \<not> belongs_to f r
          \<or> om_get (venue_fill_key f) incoming \<noteq> None then Err Conflict
       else and_then (ok_or (checked_add ar tot (ef_quantity f)) Conflict)
              (collect_trades ar h r fs (om_insert (venue_fill_key f) f incoming)))"

fun check_existing ::
  "complete_order_history \<Rightarrow> (string, execution_fill) omap \<Rightarrow> execution_fill list \<Rightarrow> (string, execution_fill) omap \<Rightarrow> (ledger_error, (string, execution_fill) omap) outcome" where
  "check_existing h incoming [] stored = Ok stored"
| "check_existing h incoming (f # fs) stored =
     (if ef_account_scope f \<noteq> ch_account_scope h
         \<or> om_get (venue_fill_key f) incoming \<noteq> Some f
         \<or> om_get (venue_fill_key f) stored \<noteq> None then Err Conflict
      else check_existing h incoming fs (om_insert (venue_fill_key f) f stored))"

definition settled_fill_payload :: "complete_order_history \<Rightarrow> string \<Rightarrow> execution_fill \<Rightarrow> jobject" where
  "settled_fill_payload h key f =
     [(''account_scope'', JStr (ch_account_scope h)), (''trade_id'', JInt (ef_trade_id f)),
      (''venue_fill_id'', JStr key), (''fill'', JFill f)]"

text \<open>The insertion loop; the counter also numbers the identifiers drawn so far.\<close>

fun insert_trades ::
  "env \<Rightarrow> int \<Rightarrow> complete_order_history \<Rightarrow> (string, execution_fill) omap \<Rightarrow> (string \<times> execution_fill) list \<Rightarrow> nat \<Rightarrow> (ledger_error, nat) statement" where
  "insert_trades en token h stored [] inserted = give (Ok inserted)"
| "insert_trades en token h stored ((key, f) # rest) inserted =
     (if om_get key stored \<noteq> None then insert_trades en token h stored rest inserted
      else bind (insert_fill_row en f token) (\<lambda>_.
        bind (insert_event en inserted LedgerDatabase (order_stream (ch_client_order_id h)) ''order.fill.recorded''
                (settled_fill_payload h key f) token) (\<lambda>_.
        insert_trades en token h stored rest (Suc inserted))))"

definition update_order_state :: "int \<Rightarrow> string \<Rightarrow> order_record \<Rightarrow> int \<Rightarrow> (ledger_error, unit) statement" where
  "update_order_state now cid r token db =
     (case om_get cid (db_orders db) of
        None \<Rightarrow> (Err LedgerFencingLost, db)
      | Some row \<Rightarrow>
          if token < ow_fencing_token row then (Err LedgerFencingLost, db)
          else if or_state r = Created
            then (Err (LedgerDatabase (''duplicate durable order intent: '' @ cid)), db)
          else (Ok (), db\<lparr>db_orders := om_insert cid (row\<lparr>ow_state := r, ow_fencing_token := token,
                                                      ow_updated_at := now\<rparr>) (db_orders db)\<rparr>))"

definition settled_record :: "order_record \<Rightarrow> complete_order_history \<Rightarrow> decimal \<Rightarrow> order_record" where
  "settled_record r h tot = r\<lparr>or_filled_quantity := tot, or_state := ch_authoritative_state h\<rparr>"

definition settlement_payload :: "complete_order_history \<Rightarrow> decimal \<Rightarrow> nat \<Rightarrow> jobject" where
  "settlement_payload h tot inserted =
     [(''account_scope'', JStr (ch_account_scope h)), (''filled_quantity'', JDec tot),
      (''state'', JState (ch_authoritative_state h)), (''trades'', JInt (int (length (ch_trades h)))),
      (''inserted'', JInt (int inserted))]"

definition settle_tx ::
  "dec_ops \<Rightarrow> env \<Rightarrow> runtime_lease \<Rightarrow> complete_order_history \<Rightarrow> (ledger_error, settlement_receipt) statement" where
  "settle_tx ar en l h =
     bind (lock_lease en l) (\<lambda>_.
     bind (lock_order (ch_client_order_id h)) (\<lambda>r.
     bind (give (validate_transition r h)) (\<lambda>_.
     bind (give (collect_trades ar h r (ch_trades h) [] 0)) (\<lambda>(incoming, tot).
     bind (give (if tot \<noteq> ch_authoritative_filled h then Err Conflict else Ok ())) (\<lambda>_.
     bind (\<lambda>db. (check_existing h incoming (fills_of_order (ch_client_order_id h) db) [], db)) (\<lambda>stored.
     bind (insert_trades en (rl_fencing_token l) h stored incoming 0) (\<lambda>inserted.
     bind (update_order_state (env_now en) (ch_client_order_id h) (settled_record r h tot) (rl_fencing_token l)) (\<lambda>_.
     bind (insert_event en inserted LedgerDatabase (order_stream (ch_client_order_id h)) ''order.settlement.verified''
             (settlement_payload h tot inserted) (rl_fencing_token l)) (\<lambda>_.
     give (Ok \<lparr>sr_client_order_id = ch_client_order_id h, sr_filled_quantity = tot,
               sr_inserted_trades = inserted\<rparr>))))))))))"

definition settle_complete_order_history ::
  "dec_ops \<Rightarrow> env \<Rightarrow> runtime_lease \<Rightarrow> complete_order_history \<Rightarrow> (ledger_error, settlement_receipt) statement" where
  "settle_complete_order_history ar en l h =
     (if 1000 < length (ch_trades h) then give (Err (Invalid ''order history batch exceeds limit''))
      else execute en LedgerDatabase (transaction (settle_tx ar en l h)))"

section \<open>Successful transactions\<close>

lemma transaction_eq_Ok: "transaction stmt db = (Ok x, db') \<longleftrightarrow> stmt db = (Ok x, db')"
  by (auto simp: transaction_def split: prod.splits outcome.splits)

lemma transaction_rollback: "fst (transaction stmt db) \<noteq> Ok x \<Longrightarrow> stmt db = (Ok x, db') \<Longrightarrow> False"
  by (simp add: transaction_def)

lemma transaction_snd: "snd (transaction stmt db) = db \<or> (\<exists>x. stmt db = (Ok x, snd (transaction stmt db)))"
  by (auto simp: transaction_def split: prod.splits outcome.splits)

text \<open>A property that the database has and that every successful transaction establishes.\<close>

lemma transaction_keeps:
  "P db \<Longrightarrow> (\<And>x db'. stmt db = (Ok x, db') \<Longrightarrow> P db') \<Longrightarrow> P (snd (execute en dberr (transaction stmt) db))"
  by (rule execute_keeps) (use transaction_snd [of stmt db] in \<open>auto dest: sym\<close>)

lemma lock_lease_Ok: "lock_lease en l db = (Ok x, db') \<longleftrightarrow> lease_valid (env_now en) l db \<and> db' = db"
  by (auto simp: lock_lease_def)

lemma lock_order_Ok:
  "lock_order cid db = (Ok r, db') \<longleftrightarrow> (\<exists>row. om_get cid (db_orders db) = Some row \<and> r = ow_state row) \<and> db' = db"
  by (auto simp: lock_order_def ok_or_eq_Ok)

lemma insert_event_Ok:
  assumes "insert_event en k dberr stream ty payload token db = (Ok sq, db')"
  obtains j where "db' = db\<lparr>db_journal := db_journal db @ [j]\<rparr>" "jr_stream_id j = stream" "jr_event_type j = ty"
    "jr_payload j = payload" "jr_fencing_token j = token" "jr_sequence j = sq" "0 < token"
  using assms that by (fastforce simp: insert_event_def Let_def split: if_splits)

lemma insert_fill_row_Ok:
  "insert_fill_row en f token db = (Ok x, db') \<longleftrightarrow>
     0 < token \<and> stored_fill f db = None \<and> db' = db\<lparr>db_fills := db_fills db @ [fill_row_of en f token]\<rparr>"
  by (auto simp: insert_fill_row_def)

lemma stored_fill_None: "stored_fill f db = None \<longleftrightarrow> fill_pk f \<notin> fill_pk ` fw_fill ` set (db_fills db)"
  by (simp add: stored_fill_def find_None_iff image_iff) metis

lemma stored_fill_Some: "stored_fill f db = Some g \<Longrightarrow> g \<in> fw_fill ` set (db_fills db) \<and> fill_pk g = fill_pk f"
  by (auto simp: stored_fill_def find_Some_iff)

lemma fw_fill_row_of [simp]: "fw_fill (fill_row_of en f token) = f" "fw_venue_fill_id (fill_row_of en f token) = venue_fill_key f"
  by (simp_all add: fill_row_of_def)

lemma fills_of_order_app:
  "fills_of_order cid (db\<lparr>db_fills := db_fills db @ rows, db_journal := js\<rparr>) =
     fills_of_order cid db @ filter (\<lambda>f. ef_client_order_id f = cid) (map fw_fill rows)"
  by (simp add: fills_of_order_def)

lemma fills_of_order_eq: "db_fills db' = db_fills db \<Longrightarrow> fills_of_order cid db' = fills_of_order cid db"
  by (simp add: fills_of_order_def)

lemma insert_fill_tx_Ok:
  assumes "insert_fill_tx ar en l f db = (Ok oc, db')"
  obtains (duplicate) row where "lease_valid (env_now en) l db"
      "om_get (ef_client_order_id f) (db_orders db) = Some row" "belongs_to f (ow_state row)"
      "oc = Duplicate" "stored_fill f db = Some f" "db' = db"
  | (inserted) row j where "lease_valid (env_now en) l db"
      "om_get (ef_client_order_id f) (db_orders db) = Some row" "belongs_to f (ow_state row)"
      "oc = Inserted" "stored_fill f db = None" "fst (bounded_total ar f (ow_state row) db) = Ok ()"
      "0 < rl_fencing_token l" "jr_payload j = fill_recorded_payload f"
      "db' = db\<lparr>db_fills := db_fills db @ [fill_row_of en f (rl_fencing_token l)], db_journal := db_journal db @ [j]\<rparr>"
proof -
  from assms obtain row where lv: "lease_valid (env_now en) l db"
    and row: "om_get (ef_client_order_id f) (db_orders db) = Some row"
    and rest: "(if \<not> belongs_to f (ow_state row) then (Err Conflict, db)
       else case stored_fill f db of
         Some previous \<Rightarrow> (if previous = f then Ok Duplicate else Err Conflict, db)
       | None \<Rightarrow>
           bind (bounded_total ar f (ow_state row)) (\<lambda>_.
           bind (insert_fill_row en f (rl_fencing_token l)) (\<lambda>_.
           bind (insert_event en 0 LedgerDatabase (order_stream (ef_client_order_id f)) ''order.fill.recorded''
                   (fill_recorded_payload f) (rl_fencing_token l)) (\<lambda>_. give (Ok Inserted)))) db) = (Ok oc, db')"
    by (auto simp: insert_fill_tx_def bind_eq_Ok lock_lease_Ok lock_order_Ok)
  from rest have b: "belongs_to f (ow_state row)" by (auto split: if_splits)
  show thesis
  proof (cases "stored_fill f db")
    case (Some g)
    with rest b have "g = f" "oc = Duplicate" "db' = db" by (auto split: if_splits)
    with Some show thesis using duplicate lv row b by blast
  next
    case None
    with rest b obtain db1 db2 sq where t: "bounded_total ar f (ow_state row) db = (Ok (), db1)"
      and i: "insert_fill_row en f (rl_fencing_token l) db1 = (Ok (), db2)"
      and e: "insert_event en 0 LedgerDatabase (order_stream (ef_client_order_id f)) ''order.fill.recorded''
                   (fill_recorded_payload f) (rl_fencing_token l) db2 = (Ok sq, db')"
      and oc: "oc = Inserted"
      by (auto simp: bind_eq_Ok)
    from t have db1: "db1 = db" by (simp add: bounded_total_def)
    from e obtain j where j: "db' = db2\<lparr>db_journal := db_journal db2 @ [j]\<rparr>" "jr_payload j = fill_recorded_payload f"
      by (rule insert_event_Ok) blast
    from i j have "db' = db\<lparr>db_fills := db_fills db @ [fill_row_of en f (rl_fencing_token l)], db_journal := db_journal db @ [j]\<rparr>"
      "0 < rl_fencing_token l"
      by (auto simp: insert_fill_row_Ok db1)
    then show thesis using inserted lv row b oc None t j(2) by simp
  qed
qed

lemma insert_execution_fill_Ok:
  "insert_execution_fill ar en l f db = (Ok oc, db') \<longleftrightarrow>
     validate_fill f = Ok () \<and> env_fault en = NoFault \<and> insert_fill_tx ar en l f db = (Ok oc, db')"
  by (auto simp: insert_execution_fill_def bind_eq_Ok execute_eq_Ok transaction_eq_Ok)

section \<open>Exact sums\<close>

definition fill_total :: "execution_fill list \<Rightarrow> decimal" where
  "fill_total fs = sum_list (map ef_quantity fs)"

lemma fill_total_simps [simp]:
  "fill_total [] = 0" "fill_total (f # fs) = ef_quantity f + fill_total fs"
  "fill_total (fs @ gs) = fill_total fs + fill_total gs"
  by (simp_all add: fill_total_def)

definition fill_on_scale :: "nat \<Rightarrow> execution_fill \<Rightarrow> bool" where
  "fill_on_scale s f \<longleftrightarrow> 0 < ef_quantity f \<and> representable s (ef_quantity f)"

lemma fill_total_nonneg: "\<forall>f\<in>set fs. fill_on_scale s f \<Longrightarrow> 0 \<le> fill_total fs"
  by (induction fs) (auto simp: fill_on_scale_def)

lemma checked_prefix:
  assumes "lossless ar s" "representable s tot" "0 \<le> tot" "fill_on_scale s f" "\<forall>g\<in>set fs. fill_on_scale s g"
    and "representable s (tot + fill_total (f # fs))"
  shows "checked_add ar tot (ef_quantity f) = Some (tot + ef_quantity f)" "representable s (tot + ef_quantity f)"
proof -
  have q: "representable s (ef_quantity f)" "0 < ef_quantity f" using assms(4) by (auto simp: fill_on_scale_def)
  have le: "tot + ef_quantity f \<le> tot + fill_total (f # fs)" using fill_total_nonneg [OF assms(5)] by simp
  show "representable s (tot + ef_quantity f)"
    by (rule representable_add_le [OF assms(2) q(1) assms(6) _ le]) (use assms(3) q(2) in simp)
  then show "checked_add ar tot (ef_quantity f) = Some (tot + ef_quantity f)"
    by (rule lossless_add [OF assms(1,2) q(1)])
qed

lemma sum_fills_exact:
  assumes "lossless ar s" "representable s tot" "0 \<le> tot" "\<forall>f\<in>set fs. fill_on_scale s f"
    and "representable s (tot + fill_total fs)"
  shows "sum_fills ar agrees fs tot = (if list_all agrees fs then Ok (tot + fill_total fs) else Err Conflict)"
  using assms
proof (induction fs arbitrary: tot)
  case (Cons f fs)
  then have "fill_on_scale s f" "\<forall>g\<in>set fs. fill_on_scale s g" by auto
  note c = checked_prefix [OF Cons.prems(1-3) this Cons.prems(5)]
  show ?case
  proof (cases "agrees f")
    case True
    have "sum_fills ar agrees fs (tot + ef_quantity f) =
        (if list_all agrees fs then Ok (tot + ef_quantity f + fill_total fs) else Err Conflict)"
      by (rule Cons.IH) (use Cons.prems c \<open>fill_on_scale s f\<close> in \<open>auto simp: fill_on_scale_def add.assoc\<close>)
    then show ?thesis using True c by (simp add: add.assoc)
  qed simp
qed simp

lemma fill_total_representable:
  assumes "\<forall>f\<in>set fs. fill_on_scale s f" "fill_total fs \<le> z" "representable s z"
  shows "representable s (fill_total fs)"
  using assms(1,2)
proof (induction fs)
  case (Cons f fs)
  have f: "representable s (ef_quantity f)" "0 < ef_quantity f" using Cons.prems(1) by (auto simp: fill_on_scale_def)
  have "0 \<le> fill_total fs" using Cons.prems(1) by (intro fill_total_nonneg) auto
  moreover from this have "representable s (fill_total fs)" using Cons f(2) by simp
  ultimately show ?case using representable_add_le [OF f(1) _ assms(3)] Cons.prems(2) f(2) by simp
qed simp

lemma bounded_total_iff:
  assumes "lossless ar s" "representable s (or_requested_quantity r)" "fill_on_scale s f"
    and "\<forall>g\<in>set (fills_of_order (ef_client_order_id f) db). fill_on_scale s g"
    and "0 \<le> or_requested_quantity r"
    and "fill_total (fills_of_order (ef_client_order_id f) db) \<le> or_requested_quantity r"
  shows "fst (bounded_total ar f r db) = Ok () \<longleftrightarrow>
    list_all (same_order_evidence f) (fills_of_order (ef_client_order_id f) db)
    \<and> fill_total (fills_of_order (ef_client_order_id f) db) + ef_quantity f \<le> or_requested_quantity r"
proof -
  let ?fs = "fills_of_order (ef_client_order_id f) db"
  have rep: "representable s (fill_total ?fs)" by (rule fill_total_representable [OF assms(4,6,2)])
  have nn: "0 \<le> fill_total ?fs" by (rule fill_total_nonneg [OF assms(4)])
  have q: "representable s (ef_quantity f)" "0 < ef_quantity f" using assms(3) by (auto simp: fill_on_scale_def)
  have sum: "sum_fills ar (same_order_evidence f) ?fs 0 =
      (if list_all (same_order_evidence f) ?fs then Ok (fill_total ?fs) else Err Conflict)"
    using sum_fills_exact [OF assms(1) _ _ assms(4), of 0] rep by simp
  have pos: "0 \<le> fill_total ?fs + ef_quantity f" using nn q(2) by simp
  have a: "checked_add ar (fill_total ?fs) (ef_quantity f) = Some w \<Longrightarrow> w \<le> or_requested_quantity r \<Longrightarrow>
      fill_total ?fs + ef_quantity f \<le> or_requested_quantity r" for w
    by (rule lossless_add_bounded(2) [OF assms(1) rep q(1) assms(2) pos])
  have b: "fill_total ?fs + ef_quantity f \<le> or_requested_quantity r \<Longrightarrow>
      checked_add ar (fill_total ?fs) (ef_quantity f) = Some (fill_total ?fs + ef_quantity f)"
    by (rule lossless_add_le [OF assms(1) rep q(1) assms(2) pos])
  show ?thesis
  proof (cases "checked_add ar (fill_total ?fs) (ef_quantity f)")
    case None
    then have "\<not> fill_total ?fs + ef_quantity f \<le> or_requested_quantity r" using b by auto
    then show ?thesis by (simp add: bounded_total_def sum None)
  next
    case (Some w)
    then have "w \<le> or_requested_quantity r \<longleftrightarrow> fill_total ?fs + ef_quantity f \<le> or_requested_quantity r"
      using a b by (metis option.inject)
    then show ?thesis by (auto simp: bounded_total_def sum Some not_less)
  qed
qed

section \<open>Invariant of the ledger\<close>

text \<open>What a later save of the order may not change.\<close>

definition same_contract :: "order_record \<Rightarrow> order_record \<Rightarrow> bool" where
  "same_contract a b \<longleftrightarrow> or_client_order_id b = or_client_order_id a \<and> or_venue b = or_venue a
     \<and> or_asset b = or_asset a \<and> or_side b = or_side a \<and> or_requested_quantity b = or_requested_quantity a"

definition evidence_of :: "execution_fill \<Rightarrow> order_record \<Rightarrow> bool" where
  "evidence_of f r \<longleftrightarrow> ef_client_order_id f = or_client_order_id r \<and> ef_venue f = or_venue r
     \<and> ef_symbol f = or_asset r \<and> or_side r = Some (ef_side f)"

definition fill_row_ok :: "nat \<Rightarrow> fill_row \<Rightarrow> bool" where
  "fill_row_ok s row \<longleftrightarrow> fw_venue_fill_id row = venue_fill_key (fw_fill row)
     \<and> validate_fill (fw_fill row) = Ok () \<and> fill_on_scale s (fw_fill row)"

text \<open>The rows of one order, against the record that owns them.\<close>

definition order_ledger_ok :: "nat \<Rightarrow> order_record \<Rightarrow> execution_fill list \<Rightarrow> bool" where
  "order_ledger_ok s r fs \<longleftrightarrow> representable s (or_requested_quantity r)
     \<and> (\<forall>f\<in>set fs. evidence_of f r)
     \<and> (fs \<noteq> [] \<longrightarrow> fill_total fs \<le> or_requested_quantity r)"

definition ledger_inv :: "nat \<Rightarrow> db \<Rightarrow> bool" where
  "ledger_inv s db \<longleftrightarrow>
     db_inv db
     \<and> distinct (map (fill_pk \<circ> fw_fill) (db_fills db))
     \<and> (\<forall>row\<in>set (db_fills db). fill_row_ok s row)
     \<and> (\<forall>cid row. om_get cid (db_orders db) = Some row \<longrightarrow> order_ledger_ok s (ow_state row) (fills_of_order cid db))
     \<and> (\<forall>cid. fills_of_order cid db \<noteq> [] \<longrightarrow> om_get cid (db_orders db) \<noteq> None)"

lemma ledger_inv_db: "ledger_inv s db \<Longrightarrow> db_inv db"
  by (simp add: ledger_inv_def)

lemma ledger_inv_order:
  "ledger_inv s db \<Longrightarrow> om_get cid (db_orders db) = Some row \<Longrightarrow> order_ledger_ok s (ow_state row) (fills_of_order cid db)"
  by (simp add: ledger_inv_def)

lemma ledger_inv_on_scale: "ledger_inv s db \<Longrightarrow> \<forall>f\<in>set (fills_of_order cid db). fill_on_scale s f"
  by (auto simp: ledger_inv_def fills_of_order_def fill_row_ok_def)

lemma empty_ledger_inv: "ledger_inv s empty_db"
  by (simp add: ledger_inv_def empty_db_inv) (simp add: empty_db_def om_get_def fills_of_order_def)

lemma order_ledger_bound:
  assumes "ledger_inv s db" "om_get cid (db_orders db) = Some row" "0 \<le> or_requested_quantity (ow_state row)"
  shows "fill_total (fills_of_order cid db) \<le> or_requested_quantity (ow_state row)"
  using ledger_inv_order [OF assms(1,2)] assms(3) by (cases "fills_of_order cid db = []") (auto simp: order_ledger_ok_def)

lemma validate_fill_quantity: "validate_fill f = Ok () \<Longrightarrow> 0 < ef_quantity f"
  by (auto simp: validate_fill_def split: if_splits)

lemma stored_fill_mem:
  assumes "distinct (map (fill_pk \<circ> fw_fill) (db_fills db))" "f \<in> fw_fill ` set (db_fills db)"
  shows "stored_fill f db = Some f"
proof -
  obtain g where g: "stored_fill f db = Some g" using assms(2) stored_fill_None by fastforce
  with stored_fill_Some have "g \<in> fw_fill ` set (db_fills db)" "fill_pk g = fill_pk f" by auto
  with assms have "g = f" by (auto simp: distinct_map inj_on_def)
  with g show ?thesis by simp
qed

text \<open>Adding one row of an order within its bound.\<close>

lemma belongs_evidence: "belongs_to f r \<Longrightarrow> evidence_of f r"
  by (auto simp: belongs_to_def evidence_of_def)

lemma insert_fill_total:
  assumes "lossless ar s" "ledger_inv s db" "fill_on_scale s f" "om_get (ef_client_order_id f) (db_orders db) = Some row"
    and "belongs_to f (ow_state row)"
  shows "fst (bounded_total ar f (ow_state row) db) = Ok () \<longleftrightarrow>
    list_all (same_order_evidence f) (fills_of_order (ef_client_order_id f) db)
    \<and> fill_total (fills_of_order (ef_client_order_id f) db) + ef_quantity f \<le> or_requested_quantity (ow_state row)"
proof (rule bounded_total_iff [OF assms(1) _ assms(3) ledger_inv_on_scale [OF assms(2)]])
  show "representable s (or_requested_quantity (ow_state row))"
    using ledger_inv_order [OF assms(2,4)] by (simp add: order_ledger_ok_def)
  show nn: "0 \<le> or_requested_quantity (ow_state row)" using assms(5) by (simp add: belongs_to_def)
  show "fill_total (fills_of_order (ef_client_order_id f) db) \<le> or_requested_quantity (ow_state row)"
    by (rule order_ledger_bound [OF assms(2,4) nn])
qed

section \<open>Preservation\<close>

lemma keeps_insert_fill_row: "keeps db (snd (insert_fill_row en f token db))"
  by (auto simp: insert_fill_row_def keeps_def db_inv_def evolves_def)

lemma keeps_insert_fill_tx: "keeps db (snd (insert_fill_tx ar en l f db))"
  unfolding insert_fill_tx_def
proof (intro keeps_bind)
  fix x r db1 db2
  assume "lock_lease en l db = (Ok x, db1)" "lock_order (ef_client_order_id f) db1 = (Ok r, db2)"
  let ?body = "bind (bounded_total ar f r) (\<lambda>_. bind (insert_fill_row en f (rl_fencing_token l)) (\<lambda>_.
     bind (insert_event en 0 LedgerDatabase (order_stream (ef_client_order_id f)) ''order.fill.recorded''
             (fill_recorded_payload f) (rl_fencing_token l)) (\<lambda>_. give (Ok Inserted))))"
  have "keeps db2 (snd (?body db2))"
    by (intro keeps_bind keeps_insert_fill_row keeps_insert_event) (simp_all add: bounded_total_def give_def)
  then show "keeps db2 (snd (if \<not> belongs_to f r then (Err Conflict, db2)
      else case stored_fill f db2 of
        None \<Rightarrow> ?body db2 | Some previous \<Rightarrow> (if previous = f then Ok Duplicate else Err Conflict, db2)))"
    by (simp split: option.split)
qed (simp_all add: lock_lease_def lock_order_def)

lemma ledger_inv_orders_kept:
  assumes "ledger_inv s db" "db_inv db'" "db_orders db' = db_orders db" "db_fills db' = db_fills db"
  shows "ledger_inv s db'"
  using assms by (simp add: ledger_inv_def fills_of_order_def)

lemma order_ledger_snoc:
  assumes "order_ledger_ok s r fs" "evidence_of f r" "fill_total fs + ef_quantity f \<le> or_requested_quantity r"
  shows "order_ledger_ok s r (fs @ [f])"
  using assms by (simp add: order_ledger_ok_def)

lemma ledger_inv_insert:
  assumes "lossless ar s" "ledger_inv s db" "representable s (ef_quantity f)" "validate_fill f = Ok ()"
    and tx: "insert_fill_tx ar en l f db = (Ok oc, db')"
  shows "ledger_inv s db'"
  using tx
proof (cases rule: insert_fill_tx_Ok)
  case (duplicate row)
  then show ?thesis using assms(2) by simp
next
  case (inserted row j)
  have f: "fill_on_scale s f" using assms(3,4) by (simp add: fill_on_scale_def validate_fill_quantity)
  have tot: "fill_total (fills_of_order (ef_client_order_id f) db) + ef_quantity f \<le> or_requested_quantity (ow_state row)"
    using insert_fill_total [OF assms(1,2) f inserted(2,3)] inserted(6) by blast
  have inv: "db_inv db'"
    using keeps_insert_fill_tx [of db ar en l f] ledger_inv_db [OF assms(2)] by (simp add: tx keeps_def)
  have fills: "fills_of_order cid db' = fills_of_order cid db @ (if cid = ef_client_order_id f then [f] else [])" for cid
    by (simp add: inserted(9) fills_of_order_def)
  have orders: "db_orders db' = db_orders db" by (simp add: inserted(9))
  have "order_ledger_ok s (ow_state row') (fills_of_order cid db')"
    if "om_get cid (db_orders db) = Some row'" for cid row'
    using ledger_inv_order [OF assms(2) that] that inserted(2) tot belongs_evidence [OF inserted(3)]
    by (auto simp: fills intro: order_ledger_snoc)
  then show ?thesis
    using assms(2,4) inv inserted(2,5) f unfolding ledger_inv_def orders fills
    by (auto simp: inserted(9) stored_fill_None fill_row_ok_def image_image)
qed

text \<open>
  C10. A fill is recorded once, and only as evidence of a durable order under a valid lease. A
  successful call found the order, with the fill's venue, instrument, side and ids, and left the
  order's recorded quantity within what was requested. \<open>Inserted\<close> appends exactly this fill and
  one journal event and touches nothing else; \<open>Duplicate\<close> changes nothing; and repeating the call
  with any valid lease of the same holder then reports \<open>Duplicate\<close> and changes nothing.
\<close>

theorem fill_recorded_once:
  assumes "lossless ar s" "ledger_inv s db" "representable s (ef_quantity f)"
    and "insert_execution_fill ar en l f db = (Ok oc, db')"
  shows "lease_valid (env_now en) l db
    \<and> (\<exists>row. om_get (ef_client_order_id f) (db_orders db) = Some row \<and> belongs_to f (ow_state row)
         \<and> fill_total (fills_of_order (ef_client_order_id f) db') \<le> or_requested_quantity (ow_state row))
    \<and> (oc = Inserted \<longrightarrow> map fw_fill (db_fills db') = map fw_fill (db_fills db) @ [f]
         \<and> db_orders db' = db_orders db \<and> db_leases db' = db_leases db
         \<and> (\<exists>j. db_journal db' = db_journal db @ [j] \<and> jr_payload j = fill_recorded_payload f))
    \<and> (oc = Duplicate \<longrightarrow> db' = db \<and> f \<in> set (fills_of_order (ef_client_order_id f) db))
    \<and> (\<forall>en'. env_fault en' = NoFault \<and> lease_valid (env_now en') l db' \<longrightarrow>
         insert_execution_fill ar en' l f db' = (Ok Duplicate, db'))"
proof -
  from assms(4) have val: "validate_fill f = Ok ()" and tx: "insert_fill_tx ar en l f db = (Ok oc, db')"
    by (simp_all add: insert_execution_fill_Ok)
  have inv: "ledger_inv s db'" by (rule ledger_inv_insert [OF assms(1-3) val tx])
  have core: "lease_valid (env_now en) l db" "db_orders db' = db_orders db" "f \<in> fw_fill ` set (db_fills db')"
    "\<exists>row. om_get (ef_client_order_id f) (db_orders db) = Some row \<and> belongs_to f (ow_state row)"
    using tx by (cases rule: insert_fill_tx_Ok; auto dest: stored_fill_Some)+
  from core(4) obtain row where row: "om_get (ef_client_order_id f) (db_orders db) = Some row"
    and b: "belongs_to f (ow_state row)" by blast
  have bound: "fill_total (fills_of_order (ef_client_order_id f) db') \<le> or_requested_quantity (ow_state row)"
    by (rule order_ledger_bound [OF inv]) (use row b core(2) in \<open>auto simp: belongs_to_def\<close>)
  have stored: "stored_fill f db' = Some f"
    using inv core(3) by (intro stored_fill_mem) (simp_all add: ledger_inv_def)
  have again: "insert_execution_fill ar en' l f db' = (Ok Duplicate, db')"
    if "env_fault en' = NoFault" "lease_valid (env_now en') l db'" for en'
    using that row b core(2) stored val
    by (simp add: insert_execution_fill_Ok insert_fill_tx_def bind_def lock_lease_def lock_order_def)
  have ins: "oc = Inserted \<longrightarrow> map fw_fill (db_fills db') = map fw_fill (db_fills db) @ [f]
      \<and> db_orders db' = db_orders db \<and> db_leases db' = db_leases db
      \<and> (\<exists>j. db_journal db' = db_journal db @ [j] \<and> jr_payload j = fill_recorded_payload f)"
    using tx by (cases rule: insert_fill_tx_Ok) simp_all
  have dup: "oc = Duplicate \<longrightarrow> db' = db \<and> f \<in> set (fills_of_order (ef_client_order_id f) db)"
    using tx core(3) by (cases rule: insert_fill_tx_Ok) (auto simp: fills_of_order_def)
  show ?thesis using core(1) row b bound again ins dup by blast
qed

section \<open>Settlement\<close>

lemma mset_om_insert:
  "om_sorted m \<Longrightarrow> om_get k m = None \<Longrightarrow> mset (om_values (om_insert k v m)) = add_mset v (mset (om_values m))"
  by (induction k v m rule: om_insert.induct) (auto simp: om_values_def om_get_def om_sorted_def split: if_splits)

definition trade_ok :: "complete_order_history \<Rightarrow> order_record \<Rightarrow> execution_fill \<Rightarrow> bool" where
  "trade_ok h r f \<longleftrightarrow> validate_fill f = Ok () \<and> ef_account_scope f = ch_account_scope h
     \<and> ef_venue_order_id f = ch_venue_order_id h \<and> ef_client_order_id f = ch_client_order_id h \<and> belongs_to f r"

definition keyed :: "(string, execution_fill) omap \<Rightarrow> bool" where
  "keyed m \<longleftrightarrow> om_sorted m \<and> (\<forall>k f. om_get k m = Some f \<longrightarrow> venue_fill_key f = k)"

lemma keyed_insert: "keyed m \<Longrightarrow> keyed (om_insert (venue_fill_key f) f m)"
  by (auto simp: keyed_def om_get_insert om_insert_sorted split: if_splits)

lemma keyed_mem: "keyed m \<Longrightarrow> f \<in> set (om_values m) \<longleftrightarrow> om_get (venue_fill_key f) m = Some f"
  by (force simp: keyed_def om_values_def om_entries_get [symmetric])

lemma collect_trades_Ok:
  assumes "collect_trades ar h r fs incoming tot = Ok (incoming', tot')" "keyed incoming"
  shows "keyed incoming' \<and> mset (om_values incoming') = mset (om_values incoming) + mset fs
    \<and> (\<forall>f\<in>set fs. trade_ok h r f)"
  using assms
proof (induction fs arbitrary: incoming tot)
  case (Cons f fs)
  from Cons.prems(1) obtain t where ok: "trade_ok h r f" "om_get (venue_fill_key f) incoming = None"
    and rest: "collect_trades ar h r fs (om_insert (venue_fill_key f) f incoming) t = Ok (incoming', tot')"
    by (auto simp: and_then_eq_Ok ok_or_eq_Ok trade_ok_def split: if_splits)
  from Cons.IH [OF rest keyed_insert [OF Cons.prems(2)]] ok Cons.prems(2)
  show ?case by (auto simp: mset_om_insert keyed_def)
qed simp

lemma collect_trades_total:
  assumes "lossless ar s" "representable s tot" "0 \<le> tot" "\<forall>f\<in>set fs. fill_on_scale s f"
    and "representable s (tot + fill_total fs)" "collect_trades ar h r fs incoming tot = Ok (incoming', tot')"
  shows "tot' = tot + fill_total fs"
  using assms
proof (induction fs arbitrary: incoming tot)
  case (Cons f fs)
  then have "fill_on_scale s f" "\<forall>g\<in>set fs. fill_on_scale s g" by auto
  note c = checked_prefix [OF Cons.prems(1-3) this Cons.prems(5)]
  have "tot' = (tot + ef_quantity f) + fill_total fs"
    by (rule Cons.IH [of "tot + ef_quantity f" "om_insert (venue_fill_key f) f incoming"])
      (use Cons.prems c \<open>fill_on_scale s f\<close> in \<open>auto simp: fill_on_scale_def add.assoc and_then_eq_Ok split: if_splits\<close>)
  then show ?case by (simp add: add.assoc)
qed simp

lemma check_existing_Ok:
  assumes "check_existing h incoming fs stored = Ok stored'" "keyed stored" "keyed incoming"
  shows "keyed stored' \<and> mset (om_values stored') = mset (om_values stored) + mset fs
    \<and> (\<forall>f\<in>set fs. f \<in> set (om_values incoming))"
  using assms
proof (induction fs arbitrary: stored)
  case (Cons f fs)
  from Cons.prems(1) have ok: "om_get (venue_fill_key f) incoming = Some f" "om_get (venue_fill_key f) stored = None"
    and rest: "check_existing h incoming fs (om_insert (venue_fill_key f) f stored) = Ok stored'"
    by (auto split: if_splits)
  have sorted: "om_sorted stored" using Cons.prems(2) by (simp add: keyed_def)
  have "f \<in> set (om_values incoming)" using keyed_mem [OF Cons.prems(3)] ok(1) by simp
  then show ?case using Cons.IH [OF rest keyed_insert [OF Cons.prems(2)] Cons.prems(3)]
    by (simp add: mset_om_insert [OF sorted ok(2)])
qed simp

text \<open>The trades that are not stored yet, in key order.\<close>

definition new_trades :: "(string, execution_fill) omap \<Rightarrow> (string \<times> execution_fill) list \<Rightarrow> execution_fill list" where
  "new_trades stored incoming = map snd (filter (\<lambda>(k, f). om_get k stored = None) incoming)"

lemma mset_new_trades:
  assumes "keyed incoming" "keyed stored" "mset (om_values stored) = mset fs" "\<forall>f\<in>set fs. f \<in> set (om_values incoming)"
  shows "mset fs + mset (new_trades stored incoming) = mset (om_values incoming)"
proof -
  have dist: "distinct (map snd m)" if "keyed m" for m
  proof -
    have "\<forall>(k, f)\<in>set m. venue_fill_key f = k" using that by (auto simp: keyed_def om_entries_get)
    then have "map venue_fill_key (map snd m) = map fst m" by auto
    moreover have "distinct (map fst m)" using that by (simp add: keyed_def om_sorted_distinct)
    ultimately have "distinct (map venue_fill_key (map snd m))" by (simp only:)
    then show ?thesis unfolding distinct_map [of venue_fill_key] by blast
  qed
  have set_fs: "set fs = set (om_values stored)" using assms(3) by (metis mset_eq_setD)
  have in_stored: "om_get k stored \<noteq> None \<longleftrightarrow> f \<in> set fs" if "(k, f) \<in> set incoming" for k f
  proof -
    have kf: "om_get k incoming = Some f" "venue_fill_key f = k"
      using that assms(1) by (auto simp: keyed_def om_entries_get)
    show ?thesis
    proof
      assume "om_get k stored \<noteq> None"
      then obtain g where g: "om_get k stored = Some g" by blast
      then have "g \<in> set fs" using assms(2) set_fs keyed_mem [OF assms(2)] by (auto simp: keyed_def)
      then have "om_get k incoming = Some g" using assms(4) keyed_mem [OF assms(1)] g assms(2) by (auto simp: keyed_def)
      then show "f \<in> set fs" using kf \<open>g \<in> set fs\<close> by simp
    next
      assume "f \<in> set fs"
      then show "om_get k stored \<noteq> None" using set_fs keyed_mem [OF assms(2)] kf by auto
    qed
  qed
  define isold where "isold = (\<lambda>kf :: string \<times> execution_fill. om_get (fst kf) stored \<noteq> None)"
  have old: "mset (map snd (filter isold incoming)) = mset fs"
  proof -
    have "distinct (map snd (filter isold incoming))"
      by (rule distinct_map_filter [OF dist [OF assms(1)]])
    moreover have "distinct fs"
      using dist [OF assms(2)] mset_eq_imp_distinct_iff [OF assms(3)] by (simp add: om_values_def)
    moreover have "x \<in> set (map snd (filter isold incoming)) \<longleftrightarrow> x \<in> set fs" for x
    proof
      assume "x \<in> set (map snd (filter isold incoming))"
      then obtain k where "(k, x) \<in> set incoming" "om_get k stored \<noteq> None" by (auto simp: isold_def)
      then show "x \<in> set fs" using in_stored by blast
    next
      assume "x \<in> set fs"
      then obtain k where "(k, x) \<in> set incoming" using assms(4) by (fastforce simp: om_values_def)
      moreover from this have "om_get k stored \<noteq> None" using in_stored \<open>x \<in> set fs\<close> by blast
      ultimately show "x \<in> set (map snd (filter isold incoming))" by (force simp: isold_def)
    qed
    ultimately show ?thesis by (metis set_eq_iff_mset_eq_distinct subset_antisym subsetI)
  qed
  have "new_trades stored incoming = map snd (filter (\<lambda>kf. \<not> isold kf) incoming)"
    by (simp add: new_trades_def isold_def case_prod_unfold)
  then have "mset fs + mset (new_trades stored incoming) = image_mset snd (mset (filter isold incoming) + mset (filter (\<lambda>kf. \<not> isold kf) incoming))"
    unfolding old [symmetric] by (simp only: mset_map image_mset_union)
  moreover have "mset (filter isold incoming) + mset (filter (\<lambda>kf. \<not> isold kf) incoming) = mset incoming"
    by (simp add: multiset_partition [symmetric])
  ultimately show ?thesis by (simp add: om_values_def)
qed

lemma insert_trades_Ok:
  assumes "insert_trades en token h stored kvs n db = (Ok m, db')"
  shows "\<exists>js. m = n + length (new_trades stored kvs) \<and> length js = length (new_trades stored kvs)
    \<and> db' = db\<lparr>db_fills := db_fills db @ map (\<lambda>f. fill_row_of en f token) (new_trades stored kvs),
               db_journal := db_journal db @ js\<rparr>"
  using assms
proof (induction kvs arbitrary: n db)
  case Nil
  then show ?case by (simp add: new_trades_def)
next
  case (Cons kv kvs)
  obtain k f where kv: "kv = (k, f)" by (cases kv)
  show ?case
  proof (cases "om_get k stored")
    case (Some g)
    with Cons kv show ?thesis by (simp add: new_trades_def)
  next
    case None
    with Cons.prems kv obtain db1 db2 sq where i: "insert_fill_row en f token db = (Ok (), db1)"
      and e: "insert_event en n LedgerDatabase (order_stream (ch_client_order_id h)) ''order.fill.recorded''
                (settled_fill_payload h k f) token db1 = (Ok sq, db2)"
      and rest: "insert_trades en token h stored kvs (Suc n) db2 = (Ok m, db')"
      by (auto simp: bind_eq_Ok)
    from e obtain j where j: "db2 = db1\<lparr>db_journal := db_journal db1 @ [j]\<rparr>" by (rule insert_event_Ok) blast
    from Cons.IH [OF rest] obtain js where "m = Suc n + length (new_trades stored kvs)"
      "length js = length (new_trades stored kvs)"
      "db' = db2\<lparr>db_fills := db_fills db2 @ map (\<lambda>f. fill_row_of en f token) (new_trades stored kvs),
               db_journal := db_journal db2 @ js\<rparr>" by blast
    then show ?thesis using i j None kv
      by (intro exI [of _ "j # js"]) (auto simp: insert_fill_row_Ok new_trades_def)
  qed
qed

lemma update_order_state_Ok:
  "update_order_state now cid r token db = (Ok x, db') \<longleftrightarrow>
     (\<exists>row. om_get cid (db_orders db) = Some row \<and> ow_fencing_token row \<le> token \<and> or_state r \<noteq> Created
        \<and> db' = db\<lparr>db_orders := om_insert cid (row\<lparr>ow_state := r, ow_fencing_token := token, ow_updated_at := now\<rparr>) (db_orders db)\<rparr>)"
  by (auto simp: update_order_state_def split: option.splits)

definition settled_row :: "env \<Rightarrow> int \<Rightarrow> complete_order_history \<Rightarrow> order_row \<Rightarrow> order_row" where
  "settled_row en token h row = row\<lparr>ow_state := settled_record (ow_state row) h (ch_authoritative_filled h),
     ow_fencing_token := token, ow_updated_at := env_now en\<rparr>"

lemma keeps_insert_trades: "keeps db (snd (insert_trades en token h stored kvs n db))"
proof (induction kvs arbitrary: n db)
  case (Cons kv kvs)
  obtain k f where kv: "kv = (k, f)" by (cases kv)
  have "keeps db (snd (bind (insert_fill_row en f token) (\<lambda>_.
        bind (insert_event en n LedgerDatabase (order_stream (ch_client_order_id h)) ''order.fill.recorded''
                (settled_fill_payload h k f) token) (\<lambda>_.
        insert_trades en token h stored kvs (Suc n))) db))"
    by (intro keeps_bind keeps_insert_fill_row keeps_insert_event Cons.IH)
  then show ?case using Cons.IH by (simp add: kv)
qed (simp add: give_def)

lemma keeps_update_order:
  assumes "db_inv db \<Longrightarrow> \<exists>row. om_get cid (db_orders db) = Some row
      \<and> same_contract (ow_state row) r \<and> or_owner_strategy_id r = or_owner_strategy_id (ow_state row)"
  shows "keeps db (snd (update_order_state now cid r token db))"
proof (cases "update_order_state now cid r token db")
  case (Pair res db')
  show ?thesis
  proof (cases "res = Ok ()")
    case True
    with Pair obtain row where row: "om_get cid (db_orders db) = Some row" "ow_fencing_token row \<le> token" "or_state r \<noteq> Created"
      and db': "db' = db\<lparr>db_orders := om_insert cid (row\<lparr>ow_state := r, ow_fencing_token := token, ow_updated_at := now\<rparr>) (db_orders db)\<rparr>"
      by (auto simp: update_order_state_Ok)
    have "keeps db db'" if inv: "db_inv db"
      unfolding db'
    proof (rule keeps_order_put)
      show "order_row_ok cid (row\<lparr>ow_state := r, ow_fencing_token := token, ow_updated_at := now\<rparr>)"
        using assms [OF inv] db_inv_order [OF inv row(1)] row(1) by (auto simp: order_row_ok_def same_contract_def)
    qed (use row in \<open>auto simp: order_row_le_def\<close>)
    then show ?thesis by (auto simp: Pair keeps_def)
  next
    case False
    with Pair show ?thesis by (auto simp: update_order_state_def split: option.splits if_splits)
  qed
qed

lemma settle_tx_Ok:
  assumes "settle_tx ar en l h db = (Ok rc, db')"
  obtains row incoming stored js where
    "lease_valid (env_now en) l db" "om_get (ch_client_order_id h) (db_orders db) = Some row"
    "validate_transition (ow_state row) h = Ok ()"
    "collect_trades ar h (ow_state row) (ch_trades h) [] 0 = Ok (incoming, ch_authoritative_filled h)"
    "check_existing h incoming (fills_of_order (ch_client_order_id h) db) [] = Ok stored"
    "ow_fencing_token row \<le> rl_fencing_token l"
    "length js = Suc (length (new_trades stored incoming))" "keeps db db'"
    "db' = db\<lparr>db_fills := db_fills db @ map (\<lambda>f. fill_row_of en f (rl_fencing_token l)) (new_trades stored incoming),
       db_orders := om_insert (ch_client_order_id h) (settled_row en (rl_fencing_token l) h row) (db_orders db),
       db_journal := db_journal db @ js\<rparr>"
    "rc = \<lparr>sr_client_order_id = ch_client_order_id h, sr_filled_quantity = ch_authoritative_filled h,
       sr_inserted_trades = length (new_trades stored incoming)\<rparr>"
proof -
  from assms obtain row incoming stored inserted db1 db2 sq where
    a: "lease_valid (env_now en) l db" "om_get (ch_client_order_id h) (db_orders db) = Some row"
      "validate_transition (ow_state row) h = Ok ()"
      "collect_trades ar h (ow_state row) (ch_trades h) [] 0 = Ok (incoming, ch_authoritative_filled h)"
      "check_existing h incoming (fills_of_order (ch_client_order_id h) db) [] = Ok stored"
    and i: "insert_trades en (rl_fencing_token l) h stored incoming 0 db = (Ok inserted, db1)"
    and u: "update_order_state (env_now en) (ch_client_order_id h)
              (settled_record (ow_state row) h (ch_authoritative_filled h)) (rl_fencing_token l) db1 = (Ok (), db2)"
    and e: "insert_event en inserted LedgerDatabase (order_stream (ch_client_order_id h)) ''order.settlement.verified''
             (settlement_payload h (ch_authoritative_filled h) inserted) (rl_fencing_token l) db2 = (Ok sq, db')"
    and rc: "rc = \<lparr>sr_client_order_id = ch_client_order_id h, sr_filled_quantity = ch_authoritative_filled h,
               sr_inserted_trades = inserted\<rparr>"
    unfolding settle_tx_def bind_eq_Ok lock_lease_Ok lock_order_Ok
    by (auto simp: bind_eq_Ok split: if_splits)
  from insert_trades_Ok [OF i] obtain js where js: "inserted = length (new_trades stored incoming)"
    "length js = length (new_trades stored incoming)"
    "db1 = db\<lparr>db_fills := db_fills db @ map (\<lambda>f. fill_row_of en f (rl_fencing_token l)) (new_trades stored incoming),
               db_journal := db_journal db @ js\<rparr>" by auto
  from u js(3) a(2) have tok: "ow_fencing_token row \<le> rl_fencing_token l"
    and db2: "db2 = db1\<lparr>db_orders := om_insert (ch_client_order_id h) (settled_row en (rl_fencing_token l) h row) (db_orders db)\<rparr>"
    by (auto simp: update_order_state_Ok settled_row_def)
  from e obtain j where j: "db' = db2\<lparr>db_journal := db_journal db2 @ [j]\<rparr>" by (rule insert_event_Ok) blast
  have "keeps db db1" using keeps_insert_trades [of db en "rl_fencing_token l" h stored incoming 0] by (simp add: i)
  moreover have "keeps db1 (snd (update_order_state (env_now en) (ch_client_order_id h)
              (settled_record (ow_state row) h (ch_authoritative_filled h)) (rl_fencing_token l) db1))"
    by (rule keeps_update_order) (use a(2) in \<open>simp add: js(3) settled_record_def same_contract_def\<close>)
  then have "keeps db1 db2" unfolding u by simp
  moreover have "keeps db2 db'"
    using keeps_insert_event [of db2 en inserted LedgerDatabase "order_stream (ch_client_order_id h)"] e by (metis snd_conv)
  ultimately have "keeps db db'" by (blast intro: keeps_trans)
  then show thesis
    by (intro that [of row incoming stored "js @ [j]"]) (use a tok js rc j db2 in simp_all)
qed

lemma settled_row_facts:
  assumes "validate_transition (ow_state row) h = Ok ()" "ow_fencing_token row \<le> token"
  shows "order_row_ok cid row \<Longrightarrow> order_row_ok cid (settled_row en token h row)"
    "order_row_le row (settled_row en token h row)"
    "same_contract (ow_state row) (ow_state (settled_row en token h row))"
  using assms
  by (auto simp: order_row_ok_def order_row_le_def settled_row_def settled_record_def same_contract_def
      validate_transition_def history_state_ok_def split: if_splits)

lemma insert_trades_distinct:
  "distinct (map (fill_pk \<circ> fw_fill) (db_fills db)) \<Longrightarrow> insert_trades en token h stored kvs n db = (Ok m, db') \<Longrightarrow>
     distinct (map (fill_pk \<circ> fw_fill) (db_fills db'))"
proof (induction kvs arbitrary: n db)
  case (Cons kv kvs)
  obtain k f where kv: "kv = (k, f)" by (cases kv)
  show ?case
  proof (cases "om_get k stored")
    case None
    with Cons.prems kv obtain db1 db2 sq where i: "insert_fill_row en f token db = (Ok (), db1)"
      and e: "insert_event en n LedgerDatabase (order_stream (ch_client_order_id h)) ''order.fill.recorded''
                (settled_fill_payload h k f) token db1 = (Ok sq, db2)"
      and rest: "insert_trades en token h stored kvs (Suc n) db2 = (Ok m, db')"
      by (auto simp: bind_eq_Ok)
    from e have "db_fills db2 = db_fills db1" by (rule insert_event_Ok) simp
    then have "distinct (map (fill_pk \<circ> fw_fill) (db_fills db2))"
      using i Cons.prems(1) by (auto simp: insert_fill_row_Ok stored_fill_None image_image comp_def)
    then show ?thesis using Cons.IH rest by blast
  qed (use Cons kv in simp)
qed simp

lemma settle_tx_distinct:
  assumes "distinct (map (fill_pk \<circ> fw_fill) (db_fills db))" "settle_tx ar en l h db = (Ok rc, db')"
  shows "distinct (map (fill_pk \<circ> fw_fill) (db_fills db'))"
proof -
  from assms(2) obtain stored incoming inserted db1 db2 r sq p where
    "insert_trades en (rl_fencing_token l) h stored incoming 0 db = (Ok inserted, db1)"
    and u: "update_order_state (env_now en) (ch_client_order_id h) r (rl_fencing_token l) db1 = (Ok (), db2)"
    and e: "insert_event en inserted LedgerDatabase (order_stream (ch_client_order_id h)) ''order.settlement.verified''
             p (rl_fencing_token l) db2 = (Ok sq, db')"
    unfolding settle_tx_def bind_eq_Ok lock_lease_Ok lock_order_Ok
    by (auto simp: bind_eq_Ok split: if_splits)
  then have "distinct (map (fill_pk \<circ> fw_fill) (db_fills db1))" using insert_trades_distinct assms(1) by blast
  moreover have "db_fills db' = db_fills db2" using e by (rule insert_event_Ok) simp
  ultimately show ?thesis using u by (auto simp: update_order_state_Ok)
qed

text \<open>What a settlement commits, stated over the ledger of the order.\<close>

lemma settle_tx_ledger:
  assumes "settle_tx ar en l h db = (Ok rc, db')"
  obtains row news js where
    "lease_valid (env_now en) l db" "om_get (ch_client_order_id h) (db_orders db) = Some row"
    "validate_transition (ow_state row) h = Ok ()" "\<forall>f\<in>set (ch_trades h). trade_ok h (ow_state row) f"
    "mset (fills_of_order (ch_client_order_id h) db) + mset news = mset (ch_trades h)"
    "ow_fencing_token row \<le> rl_fencing_token l" "keeps db db'" "length js = Suc (length news)"
    "db' = db\<lparr>db_fills := db_fills db @ map (\<lambda>f. fill_row_of en f (rl_fencing_token l)) news,
       db_orders := om_insert (ch_client_order_id h) (settled_row en (rl_fencing_token l) h row) (db_orders db),
       db_journal := db_journal db @ js\<rparr>"
    "rc = \<lparr>sr_client_order_id = ch_client_order_id h, sr_filled_quantity = ch_authoritative_filled h,
       sr_inserted_trades = length news\<rparr>"
    "\<exists>incoming. collect_trades ar h (ow_state row) (ch_trades h) [] 0 = Ok (incoming, ch_authoritative_filled h)"
proof (rule settle_tx_Ok [OF assms])
  fix row incoming stored js
  assume a: "lease_valid (env_now en) l db" "om_get (ch_client_order_id h) (db_orders db) = Some row"
    "validate_transition (ow_state row) h = Ok ()"
    and c: "collect_trades ar h (ow_state row) (ch_trades h) [] 0 = Ok (incoming, ch_authoritative_filled h)"
    and x: "check_existing h incoming (fills_of_order (ch_client_order_id h) db) [] = Ok stored"
    and b: "ow_fencing_token row \<le> rl_fencing_token l" "length js = Suc (length (new_trades stored incoming))" "keeps db db'"
      "db' = db\<lparr>db_fills := db_fills db @ map (\<lambda>f. fill_row_of en f (rl_fencing_token l)) (new_trades stored incoming),
       db_orders := om_insert (ch_client_order_id h) (settled_row en (rl_fencing_token l) h row) (db_orders db),
       db_journal := db_journal db @ js\<rparr>"
      "rc = \<lparr>sr_client_order_id = ch_client_order_id h, sr_filled_quantity = ch_authoritative_filled h,
       sr_inserted_trades = length (new_trades stored incoming)\<rparr>"
  have nil: "keyed []" by (simp add: keyed_def om_sorted_def om_get_def)
  from collect_trades_Ok [OF c nil] have i: "keyed incoming" "mset (om_values incoming) = mset (ch_trades h)"
    "\<forall>f\<in>set (ch_trades h). trade_ok h (ow_state row) f" by (simp_all add: om_values_def)
  from check_existing_Ok [OF x nil i(1)] have st: "keyed stored"
    "mset (om_values stored) = mset (fills_of_order (ch_client_order_id h) db)"
    "\<forall>f\<in>set (fills_of_order (ch_client_order_id h) db). f \<in> set (om_values incoming)" by (simp_all add: om_values_def)
  have "mset (fills_of_order (ch_client_order_id h) db) + mset (new_trades stored incoming) = mset (ch_trades h)"
    using mset_new_trades [OF i(1) st] i(2) by simp
  with a b c i show thesis by (intro that [of row "new_trades stored incoming" js]) blast+
qed

lemma validate_transition_bounds:
  "validate_transition r h = Ok () \<Longrightarrow> or_client_order_id r = ch_client_order_id h \<and> 0 < or_requested_quantity r
     \<and> or_filled_quantity r \<le> ch_authoritative_filled h \<and> ch_authoritative_filled h \<le> or_requested_quantity r
     \<and> or_state r \<noteq> Created
     \<and> history_state_ok (ch_authoritative_state h) (ch_authoritative_filled h) (or_requested_quantity r)
     \<and> (is_terminal r \<longrightarrow> ch_authoritative_state h = or_state r)"
  by (auto simp: validate_transition_def split: if_splits)

lemma settle_fills:
  assumes "mset (fills_of_order (ch_client_order_id h) db) + mset news = mset (ch_trades h)"
    and "\<forall>f\<in>set (ch_trades h). ef_client_order_id f = ch_client_order_id h"
    and "db_fills db' = db_fills db @ map (\<lambda>f. fill_row_of en f token) news"
  shows "fills_of_order cid db' = fills_of_order cid db @ (if cid = ch_client_order_id h then news else [])"
proof -
  have "set news \<subseteq> set (ch_trades h)"
    using assms(1) by (metis mset_subset_eq_add_right set_mset_mono set_mset_mset)
  then have "\<forall>f\<in>set news. ef_client_order_id f = ch_client_order_id h" using assms(2) by blast
  then have "filter (\<lambda>f. ef_client_order_id f = cid) news = (if cid = ch_client_order_id h then news else [])"
    by (induction news) auto
  then show ?thesis by (simp add: fills_of_order_def assms(3) comp_def)
qed

lemma fill_total_mset: "mset fs = mset gs \<Longrightarrow> fill_total fs = fill_total gs"
  unfolding fill_total_def by (metis mset_map sum_mset_sum_list)

definition history_on_scale :: "nat \<Rightarrow> complete_order_history \<Rightarrow> bool" where
  "history_on_scale s h \<longleftrightarrow> (\<forall>f\<in>set (ch_trades h). representable s (ef_quantity f))
     \<and> representable s (fill_total (ch_trades h))"

lemma trade_on_scale:
  "history_on_scale s h \<Longrightarrow> \<forall>f\<in>set (ch_trades h). trade_ok h r f \<Longrightarrow> \<forall>f\<in>set (ch_trades h). fill_on_scale s f"
  by (simp add: history_on_scale_def fill_on_scale_def trade_ok_def validate_fill_quantity)

lemma settle_total:
  assumes "lossless ar s" "history_on_scale s h" "\<forall>f\<in>set (ch_trades h). trade_ok h r f"
    and "collect_trades ar h r (ch_trades h) [] 0 = Ok (incoming, tot)"
  shows "tot = fill_total (ch_trades h)"
  using collect_trades_total [OF assms(1) _ _ trade_on_scale [OF assms(2,3)] _ assms(4)] assms(2)
  by (simp add: history_on_scale_def)

lemma ledger_inv_settle:
  assumes "lossless ar s" "ledger_inv s db" "history_on_scale s h" "settle_tx ar en l h db = (Ok rc, db')"
  shows "ledger_inv s db'"
proof -
  let ?cid = "ch_client_order_id h"
  from settle_tx_ledger [OF assms(4)] obtain row news js where
    row: "om_get ?cid (db_orders db) = Some row" and vt: "validate_transition (ow_state row) h = Ok ()"
    and ok: "\<forall>f\<in>set (ch_trades h). trade_ok h (ow_state row) f"
    and ms: "mset (fills_of_order ?cid db) + mset news = mset (ch_trades h)"
    and tok: "ow_fencing_token row \<le> rl_fencing_token l" and keeps: "keeps db db'"
    and db': "db' = db\<lparr>db_fills := db_fills db @ map (\<lambda>f. fill_row_of en f (rl_fencing_token l)) news,
       db_orders := om_insert ?cid (settled_row en (rl_fencing_token l) h row) (db_orders db),
       db_journal := db_journal db @ js\<rparr>"
    and c: "\<exists>incoming. collect_trades ar h (ow_state row) (ch_trades h) [] 0 = Ok (incoming, ch_authoritative_filled h)"
    by metis
  have inv: "db_inv db'" using keeps ledger_inv_db [OF assms(2)] by (simp add: keeps_def)
  have tot: "ch_authoritative_filled h = fill_total (ch_trades h)" using c settle_total [OF assms(1,3) ok] by blast
  have cids: "\<forall>f\<in>set (ch_trades h). ef_client_order_id f = ?cid" using ok by (simp add: trade_ok_def)
  have fills: "fills_of_order cid db' = fills_of_order cid db @ (if cid = ?cid then news else [])" for cid
    by (rule settle_fills [OF ms cids, of db' en "rl_fencing_token l"]) (simp add: db')
  have mine: "mset (fills_of_order ?cid db') = mset (ch_trades h)" by (simp add: fills ms)
  have news: "set news \<subseteq> set (ch_trades h)" using ms by (metis mset_subset_eq_add_right set_mset_mono set_mset_mset)
  have orders: "om_get cid (db_orders db') = (if cid = ?cid then Some (settled_row en (rl_fencing_token l) h row) else om_get cid (db_orders db))" for cid
    using ledger_inv_db [OF assms(2)] by (simp add: db' om_get_insert db_inv_def)
  have same: "same_contract (ow_state row) (ow_state (settled_row en (rl_fencing_token l) h row))"
    by (rule settled_row_facts(3) [OF vt tok])
  have "order_ledger_ok s (ow_state (settled_row en (rl_fencing_token l) h row)) (fills_of_order ?cid db')"
  proof -
    have "fill_total (fills_of_order ?cid db') = ch_authoritative_filled h" using fill_total_mset [OF mine] tot by simp
    moreover have "f \<in> set (fills_of_order ?cid db') \<Longrightarrow> evidence_of f (ow_state row)" for f
      using ok mset_eq_setD [OF mine] by (auto simp: trade_ok_def intro: belongs_evidence)
    ultimately show ?thesis
      using ledger_inv_order [OF assms(2) row] validate_transition_bounds [OF vt] same
      by (auto simp: order_ledger_ok_def same_contract_def evidence_of_def)
  qed
  moreover have "order_ledger_ok s (ow_state row') (fills_of_order cid db')"
    if "cid \<noteq> ?cid" "om_get cid (db_orders db) = Some row'" for cid row'
    using ledger_inv_order [OF assms(2) that(2)] that(1) by (simp add: fills)
  moreover have "fill_row_ok s (fill_row_of en f token)" if "f \<in> set news" for f token
    using that news ok trade_on_scale [OF assms(3) ok] by (auto simp: fill_row_ok_def trade_ok_def)
  moreover have "distinct (map (fill_pk \<circ> fw_fill) (db_fills db'))"
    using settle_tx_distinct [OF _ assms(4)] assms(2) by (simp add: ledger_inv_def)
  moreover have "om_get cid (db_orders db') \<noteq> None" if "fills_of_order cid db' \<noteq> []" for cid
    using that assms(2) by (auto simp: orders fills ledger_inv_def split: if_splits)
  ultimately show ?thesis
    using assms(2) inv unfolding ledger_inv_def orders by (auto simp: db' split: if_splits)
qed

lemma settle_eq_Ok:
  "settle_complete_order_history ar en l h db = (Ok rc, db') \<longleftrightarrow>
     length (ch_trades h) \<le> 1000 \<and> env_fault en = NoFault \<and> settle_tx ar en l h db = (Ok rc, db')"
  by (auto simp: settle_complete_order_history_def execute_eq_Ok transaction_eq_Ok)

lemma settle_commits:
  assumes "lossless ar s" "ledger_inv s db" "history_on_scale s h"
    and "settle_complete_order_history ar en l h db = (Ok rc, db')"
  shows "mset (fills_of_order (ch_client_order_id h) db') = mset (ch_trades h)
    \<and> fill_total (ch_trades h) = ch_authoritative_filled h
    \<and> sr_inserted_trades rc = length (ch_trades h) - length (fills_of_order (ch_client_order_id h) db)
    \<and> length (db_journal db') = length (db_journal db) + sr_inserted_trades rc + 1
    \<and> (\<exists>row row'. om_get (ch_client_order_id h) (db_orders db) = Some row
         \<and> om_get (ch_client_order_id h) (db_orders db') = Some row'
         \<and> or_filled_quantity (ow_state row) \<le> ch_authoritative_filled h
         \<and> ch_authoritative_filled h \<le> or_requested_quantity (ow_state row)
         \<and> (is_terminal (ow_state row) \<longrightarrow> ch_authoritative_state h = or_state (ow_state row))
         \<and> ow_state row' = (ow_state row)\<lparr>or_filled_quantity := ch_authoritative_filled h,
                                        or_state := ch_authoritative_state h\<rparr>)
    \<and> (\<forall>cid. cid \<noteq> ch_client_order_id h \<longrightarrow>
         om_get cid (db_orders db') = om_get cid (db_orders db) \<and> fills_of_order cid db' = fills_of_order cid db)"
proof -
  let ?cid = "ch_client_order_id h"
  from assms(4) have tx: "settle_tx ar en l h db = (Ok rc, db')" by (simp add: settle_eq_Ok)
  from settle_tx_ledger [OF tx] obtain row news js where
    row: "om_get ?cid (db_orders db) = Some row" and vt: "validate_transition (ow_state row) h = Ok ()"
    and ok: "\<forall>f\<in>set (ch_trades h). trade_ok h (ow_state row) f"
    and ms: "mset (fills_of_order ?cid db) + mset news = mset (ch_trades h)"
    and js: "length js = Suc (length news)"
    and db': "db' = db\<lparr>db_fills := db_fills db @ map (\<lambda>f. fill_row_of en f (rl_fencing_token l)) news,
       db_orders := om_insert ?cid (settled_row en (rl_fencing_token l) h row) (db_orders db),
       db_journal := db_journal db @ js\<rparr>"
    and rc: "rc = \<lparr>sr_client_order_id = ch_client_order_id h, sr_filled_quantity = ch_authoritative_filled h,
       sr_inserted_trades = length news\<rparr>"
    and c: "\<exists>incoming. collect_trades ar h (ow_state row) (ch_trades h) [] 0 = Ok (incoming, ch_authoritative_filled h)"
    by metis
  have cids: "\<forall>f\<in>set (ch_trades h). ef_client_order_id f = ?cid" using ok by (simp add: trade_ok_def)
  have fills: "fills_of_order cid db' = fills_of_order cid db @ (if cid = ?cid then news else [])" for cid
    by (rule settle_fills [OF ms cids, of db' en "rl_fencing_token l"]) (simp add: db')
  have "length (fills_of_order ?cid db) + length news = length (ch_trades h)"
    using ms by (metis size_mset size_union)
  moreover have "om_get cid (db_orders db') = (if cid = ?cid then Some (settled_row en (rl_fencing_token l) h row) else om_get cid (db_orders db))" for cid
    using ledger_inv_db [OF assms(2)] by (simp add: db' om_get_insert db_inv_def)
  moreover have "ch_authoritative_filled h = fill_total (ch_trades h)" using c settle_total [OF assms(1,3) ok] by blast
  moreover have "length (db_journal db') = length (db_journal db) + length js" by (simp add: db')
  ultimately show ?thesis
    using row js rc ms validate_transition_bounds [OF vt] by (auto simp: fills settled_row_def settled_record_def)
qed

lemma settle_replay:
  assumes "lossless ar s" "ledger_inv s db" "history_on_scale s h"
    and one: "settle_complete_order_history ar en l h db = (Ok rc, db')"
    and two: "settle_complete_order_history ar en' l h db' = (Ok rc', db'')"
  shows "sr_inserted_trades rc' = 0 \<and> mset (fills_of_order cid db'') = mset (fills_of_order cid db')
    \<and> map_option ow_state (om_get cid (db_orders db'')) = map_option ow_state (om_get cid (db_orders db'))"
proof -
  from one have "settle_tx ar en l h db = (Ok rc, db')" by (simp add: settle_eq_Ok)
  then have inv': "ledger_inv s db'" by (rule ledger_inv_settle [OF assms(1-3)])
  note c1 = settle_commits [OF assms(1-3) one] and c2 = settle_commits [OF assms(1) inv' assms(3) two]
  have "length (fills_of_order (ch_client_order_id h) db') = length (ch_trades h)" using c1 by (metis size_mset)
  then have zero: "sr_inserted_trades rc' = 0" using c2 by simp
  show ?thesis
  proof (cases "cid = ch_client_order_id h")
    case True
    have "mset (fills_of_order cid db'') = mset (fills_of_order cid db')" using c1 c2 True by simp
    moreover from c1 c2 have "map_option ow_state (om_get cid (db_orders db'')) = map_option ow_state (om_get cid (db_orders db'))"
      unfolding True by (elim conjE exE) simp
    ultimately show ?thesis using zero by blast
  next
    case False
    then show ?thesis using c2 zero by simp
  qed
qed

lemma settle_failed:
  assumes "settle_complete_order_history ar en l h db = (res, db')" "\<forall>rc. res \<noteq> Ok rc" "\<forall>m. env_fault en \<noteq> FailedAfter m"
  shows "db' = db"
  using assms
  by (auto simp: settle_complete_order_history_def execute_def transaction_def
      split: if_splits fault.splits prod.splits outcome.splits)

text \<open>
  C11. Settlement is exact, atomic and idempotent. A committed settlement leaves the order's ledger
  equal to the submitted history, sets the order's filled quantity to the history's exact total and
  its state to the authoritative one, never lowers the fill, never exceeds the request, never leaves
  a terminal state, journals one event per new trade and one for the settlement, and touches no other
  order. Settling the same history again inserts nothing and leaves every ledger and the record as
  they are. A call that reports an error has changed nothing, unless the connection failed after the
  commit.
\<close>

theorem settlement_exact:
  assumes "lossless ar s" "ledger_inv s db" "history_on_scale s h"
    and "settle_complete_order_history ar en l h db = (res, db')"
  shows "(\<forall>rc. res = Ok rc \<longrightarrow>
      mset (fills_of_order (ch_client_order_id h) db') = mset (ch_trades h)
      \<and> sr_filled_quantity rc = fill_total (ch_trades h)
      \<and> length (db_journal db') = length (db_journal db) + sr_inserted_trades rc + 1
      \<and> (\<exists>row row'. om_get (ch_client_order_id h) (db_orders db) = Some row
         \<and> om_get (ch_client_order_id h) (db_orders db') = Some row'
         \<and> or_filled_quantity (ow_state row) \<le> fill_total (ch_trades h)
         \<and> fill_total (ch_trades h) \<le> or_requested_quantity (ow_state row)
         \<and> (is_terminal (ow_state row) \<longrightarrow> ch_authoritative_state h = or_state (ow_state row))
         \<and> ow_state row' = (ow_state row)\<lparr>or_filled_quantity := fill_total (ch_trades h),
                                        or_state := ch_authoritative_state h\<rparr>)
      \<and> (\<forall>cid. cid \<noteq> ch_client_order_id h \<longrightarrow>
           om_get cid (db_orders db') = om_get cid (db_orders db) \<and> fills_of_order cid db' = fills_of_order cid db)
      \<and> (\<forall>en' rc' db''. settle_complete_order_history ar en' l h db' = (Ok rc', db'') \<longrightarrow>
           sr_inserted_trades rc' = 0
           \<and> (\<forall>cid. mset (fills_of_order cid db'') = mset (fills_of_order cid db'))
           \<and> (\<forall>cid. map_option ow_state (om_get cid (db_orders db'')) = map_option ow_state (om_get cid (db_orders db')))))
    \<and> ((\<forall>rc. res \<noteq> Ok rc) \<and> (\<forall>m. env_fault en \<noteq> FailedAfter m) \<longrightarrow> db' = db)"
proof (rule conjI; (intro allI impI)?)
  fix rc
  assume "res = Ok rc"
  with assms(4) have one: "settle_complete_order_history ar en l h db = (Ok rc, db')" by simp
  then have tx: "settle_tx ar en l h db = (Ok rc, db')" by (simp add: settle_eq_Ok)
  have rc: "sr_filled_quantity rc = ch_authoritative_filled h" by (rule settle_tx_ledger [OF tx]) simp
  note c1 = settle_commits [OF assms(1-3) one]
  then have tot: "ch_authoritative_filled h = fill_total (ch_trades h)" by simp
  show "mset (fills_of_order (ch_client_order_id h) db') = mset (ch_trades h)
      \<and> sr_filled_quantity rc = fill_total (ch_trades h)
      \<and> length (db_journal db') = length (db_journal db) + sr_inserted_trades rc + 1
      \<and> (\<exists>row row'. om_get (ch_client_order_id h) (db_orders db) = Some row
         \<and> om_get (ch_client_order_id h) (db_orders db') = Some row'
         \<and> or_filled_quantity (ow_state row) \<le> fill_total (ch_trades h)
         \<and> fill_total (ch_trades h) \<le> or_requested_quantity (ow_state row)
         \<and> (is_terminal (ow_state row) \<longrightarrow> ch_authoritative_state h = or_state (ow_state row))
         \<and> ow_state row' = (ow_state row)\<lparr>or_filled_quantity := fill_total (ch_trades h),
                                        or_state := ch_authoritative_state h\<rparr>)
      \<and> (\<forall>cid. cid \<noteq> ch_client_order_id h \<longrightarrow>
           om_get cid (db_orders db') = om_get cid (db_orders db) \<and> fills_of_order cid db' = fills_of_order cid db)
      \<and> (\<forall>en' rc' db''. settle_complete_order_history ar en' l h db' = (Ok rc', db'') \<longrightarrow>
           sr_inserted_trades rc' = 0
           \<and> (\<forall>cid. mset (fills_of_order cid db'') = mset (fills_of_order cid db'))
           \<and> (\<forall>cid. map_option ow_state (om_get cid (db_orders db'')) = map_option ow_state (om_get cid (db_orders db'))))"
    using c1 rc settle_replay [OF assms(1-3) one] unfolding tot by blast
next
  assume "(\<forall>rc. res \<noteq> Ok rc) \<and> (\<forall>m. env_fault en \<noteq> FailedAfter m)"
  then show "db' = db" using settle_failed [OF assms(4)] by blast
qed

section \<open>Worked instances\<close>

lemma client_order_id_shape:
  assumes "uuid_simple_ok simple"
  shows "length (client_order_id simple i) = 34 \<and> starts_with ''pg'' (client_order_id simple i)
    \<and> list_all is_ascii_hexdigit (drop 2 (client_order_id simple i))"
proof -
  let ?u = "simple (oi_intent_id i)"
  have u: "length ?u = 32" "set ?u \<subseteq> set ''0123456789abcdef''"
    using assms unfolding uuid_simple_ok_def by blast+
  have "''0123456789abcdefABCDEF'' = ''0123456789abcdef'' @ ''ABCDEF''" by simp
  then have "is_ascii_hexdigit c" if "c \<in> set ''0123456789abcdef''" for c
    using that unfolding is_ascii_hexdigit_def by (metis UnI1 set_append)
  then have "list_all is_ascii_hexdigit ?u" unfolding list_all_iff using u(2) by blast
  then show ?thesis using u(1) by (simp add: client_order_id_def starts_with_def)
qed

definition demo_open_record :: order_record where
  "demo_open_record = demo_record\<lparr>or_venue_order_id := Some ''1'', or_state := Open\<rparr>"

definition demo_fill :: execution_fill where
  "demo_fill = \<lparr>ef_account_scope = ''acct'', ef_venue = Hyperliquid, ef_symbol = ''HYPE'', ef_trade_id = 5,
     ef_venue_fill_id = [], ef_venue_order_id = ''1'', ef_client_order_id = client_order_id uuid_hex demo_intent,
     ef_side = Buy, ef_quantity = 4, ef_price = 3, ef_commission = None, ef_commission_asset = None,
     ef_realized_pnl = None, ef_trade_time_ms = Some 1, ef_venue_time = None\<rparr>"

definition demo_ledger_db :: db where
  "demo_ledger_db = demo_leased_db\<lparr>db_orders := [(client_order_id uuid_hex demo_intent, order_row_of 5 demo_open_record 1)]\<rparr>"

definition demo_history :: complete_order_history where
  "demo_history = \<lparr>ch_account_scope = ''acct'', ch_client_order_id = client_order_id uuid_hex demo_intent,
     ch_venue_order_id = ''1'', ch_authoritative_filled = 4, ch_authoritative_state = PartiallyFilled,
     ch_trades = [demo_fill]\<rparr>"

lemma demo_open_record_simps [simp]:
  "or_client_order_id demo_open_record = client_order_id uuid_hex demo_intent" "or_venue demo_open_record = Hyperliquid"
  "or_asset demo_open_record = ''HYPE''" "or_side demo_open_record = Some Buy" "or_requested_quantity demo_open_record = 10"
  "or_venue_order_id demo_open_record = Some ''1''" "or_owner_strategy_id demo_open_record = ''demo''"
  "or_filled_quantity demo_open_record = 0" "or_state demo_open_record = Open"
  by (simp_all add: demo_open_record_def demo_record_def from_intent_def demo_intent_def)

lemma demo_fill_key: "venue_fill_key demo_fill = ''5''"
  by (simp add: venue_fill_key_def demo_fill_def show_int_def show_nat.simps)

lemma demo_fill_valid: "validate_fill demo_fill = Ok ()"
proof -
  have "valid_order_identity demo_fill"
    using client_order_id_shape [OF uuid_hex_ok, of demo_intent]
    by (simp add: valid_order_identity_def demo_fill_def parse_u64_str_def is_ascii_digit_def digits_value_def)
  moreover have "valid_time demo_fill" by (simp add: valid_time_def demo_fill_def)
  ultimately show ?thesis
    unfolding validate_fill_def demo_fill_key
    by (simp add: demo_fill_def is_blank_def valid_identifier_def is_ascii_alphanumeric_def is_ascii_graphic_def)
qed

lemma demo_ledger_inv: "ledger_inv 0 demo_ledger_db"
proof -
  have "db_inv demo_ledger_db"
    by (simp add: db_inv_def demo_ledger_db_def demo_leased_db_def empty_db_def om_sorted_def om_get_def journal_ok_def
        bigint_max_def order_row_ok_def order_row_of_def)
  then show ?thesis
    by (simp add: ledger_inv_def demo_ledger_db_def demo_leased_db_def empty_db_def om_get_def fills_of_order_def
        order_ledger_ok_def order_row_of_def representable_numeral)
qed

lemma demo_belongs: "belongs_to demo_fill demo_open_record"
  by (simp add: belongs_to_def demo_fill_def is_blank_def)

lemma demo_lookup:
  "lease_valid 6 demo_lease demo_ledger_db" "lease_valid 7 demo_lease demo_ledger_db"
  "om_get (client_order_id uuid_hex demo_intent) (db_orders demo_ledger_db) = Some (order_row_of 5 demo_open_record 1)"
  "fills_of_order cid demo_ledger_db = []" "stored_fill demo_fill demo_ledger_db = None"
  "db_journal demo_ledger_db = []" "db_fills demo_ledger_db = []"
  by (simp_all add: lease_valid_def demo_lease_def demo_ledger_db_def demo_leased_db_def empty_db_def om_get_def
      fills_of_order_def stored_fill_def)

lemma demo_insert: "fst (insert_execution_fill bounded_ops (demo_env 6) demo_lease demo_fill demo_ledger_db) = Ok Inserted"
proof -
  have cid: "ef_client_order_id demo_fill = client_order_id uuid_hex demo_intent" "ef_quantity demo_fill = 4"
    by (simp_all add: demo_fill_def)
  have b: "bounded_total bounded_ops demo_fill demo_open_record demo_ledger_db = (Ok (), demo_ledger_db)"
    by (simp add: bounded_total_def demo_lookup cid bounded_ops_def in_range_def)
  have r: "insert_fill_row (demo_env 6) demo_fill 1 demo_ledger_db =
      (Ok (), demo_ledger_db\<lparr>db_fills := [fill_row_of (demo_env 6) demo_fill 1]\<rparr>)"
    by (simp add: insert_fill_row_def demo_lookup)
  show ?thesis
    by (simp add: insert_execution_fill_def demo_fill_valid execute_def transaction_def insert_fill_tx_def
        bind_def lock_lease_def lock_order_def demo_lookup cid order_row_of_def demo_belongs demo_env_def [of 6] b
        r [unfolded demo_env_def] demo_lease_def [THEN arg_cong [where f = rl_fencing_token]] insert_event_def
        last_sequence_def bigint_max_def give_def)
qed

theorem fill_recorded_once_witness:
  "\<exists>db'. insert_execution_fill bounded_ops (demo_env 6) demo_lease demo_fill demo_ledger_db = (Ok Inserted, db')
     \<and> insert_execution_fill bounded_ops (demo_env 7) demo_lease demo_fill db' = (Ok Duplicate, db')"
proof -
  obtain db' where i: "insert_execution_fill bounded_ops (demo_env 6) demo_lease demo_fill demo_ledger_db = (Ok Inserted, db')"
    using demo_insert by (metis prod.collapse)
  have "representable 0 (ef_quantity demo_fill)" by (simp add: demo_fill_def representable_numeral)
  note f = fill_recorded_once [OF lossless_bounded_ops demo_ledger_inv this i]
  from f have "db_leases db' = db_leases demo_ledger_db" by simp
  then have "lease_valid 7 demo_lease db'" using demo_lookup(2) by (simp add: lease_valid_def)
  with f i show ?thesis by (auto simp: demo_env_def)
qed

lemma demo_transition: "validate_transition demo_open_record demo_history = Ok ()"
  by (simp add: validate_transition_def demo_history_def is_blank_def is_terminal_def history_state_ok_def)

lemma demo_collect:
  "collect_trades bounded_ops demo_history demo_open_record [demo_fill] [] 0 = Ok ([(''5'', demo_fill)], 4)"
proof -
  have "checked_add bounded_ops 0 (ef_quantity demo_fill) = Some 4"
    by (simp add: bounded_ops_def in_range_def demo_fill_def)
  moreover have "ef_account_scope demo_fill = ch_account_scope demo_history"
    "ef_venue_order_id demo_fill = ch_venue_order_id demo_history" "ef_client_order_id demo_fill = ch_client_order_id demo_history"
    by (simp_all add: demo_fill_def demo_history_def)
  ultimately show ?thesis
    by (simp add: demo_fill_valid demo_belongs demo_fill_key om_get_def)
qed

lemma demo_settle:
  "\<exists>db'. settle_complete_order_history bounded_ops (demo_env 6) demo_lease demo_history demo_ledger_db =
     (Ok \<lparr>sr_client_order_id = client_order_id uuid_hex demo_intent, sr_filled_quantity = 4, sr_inserted_trades = 1\<rparr>, db')"
proof -
  let ?D = demo_ledger_db and ?cid = "client_order_id uuid_hex demo_intent"
  have h: "ch_client_order_id demo_history = ?cid" "ch_authoritative_filled demo_history = 4"
    "ch_authoritative_state demo_history = PartiallyFilled" "ch_trades demo_history = [demo_fill]"
    by (simp_all add: demo_history_def)
  have l: "rl_fencing_token demo_lease = 1" "env_now (demo_env 6) = 6" "env_fault (demo_env 6) = NoFault"
    "env_gaps (demo_env 6) k = 0" "env_ids (demo_env 6) k = of_nat k" for k
    by (simp_all add: demo_lease_def demo_env_def)
  have 1: "lock_lease (demo_env 6) demo_lease ?D = (Ok (), ?D)" by (simp add: lock_lease_def l demo_lookup)
  have 2: "lock_order ?cid ?D = (Ok demo_open_record, ?D)" by (simp add: lock_order_def demo_lookup order_row_of_def)
  have 3: "(check_existing demo_history [(''5'', demo_fill)] (fills_of_order ?cid ?D) [], ?D) = (Ok [], ?D)"
    by (simp add: demo_lookup)
  obtain D1 where 4: "insert_trades (demo_env 6) 1 demo_history [] [(''5'', demo_fill)] 0 ?D = (Ok 1, D1)"
    and j: "length (db_journal D1) = 1" "\<forall>r\<in>set (db_journal D1). jr_event_id r = 0 \<and> jr_sequence r = 1"
    and o1: "db_orders D1 = db_orders ?D"
    by (simp add: om_get_def bind_def insert_fill_row_def insert_event_def demo_lookup l last_sequence_def bigint_max_def give_def)
  obtain D2 where 5: "update_order_state 6 ?cid (settled_record demo_open_record demo_history 4) 1 D1 = (Ok (), D2)"
    and j2: "db_journal D2 = db_journal D1"
    by (simp add: update_order_state_def o1 demo_lookup order_row_of_def settled_record_def h)
  have ls: "last_sequence D2 = 1" using j by (cases "db_journal D1") (auto simp: last_sequence_def j2)
  have "\<not> list_ex (\<lambda>r. jr_event_id r = env_ids (demo_env 6) 1) (db_journal D2)"
    using j(2) by (auto simp: list_ex_iff j2 l)
  then obtain D3 where 6: "insert_event (demo_env 6) 1 LedgerDatabase (order_stream ?cid) ''order.settlement.verified''
      (settlement_payload demo_history 4 1) 1 D2 = (Ok 2, D3)"
    by (simp add: insert_event_def ls l bigint_max_def)
  have "settle_tx bounded_ops (demo_env 6) demo_lease demo_history ?D =
      (Ok \<lparr>sr_client_order_id = ?cid, sr_filled_quantity = 4, sr_inserted_trades = 1\<rparr>, D3)"
    using 3 by (simp add: settle_tx_def bind_eq_Ok h l 1 2 4 5 6 [unfolded One_nat_def] demo_transition demo_collect
        del: collect_trades.simps insert_trades.simps)
  then show ?thesis by (simp add: settle_complete_order_history_def execute_def transaction_def h l)
qed

theorem settlement_exact_witness:
  "\<exists>db'. settle_complete_order_history bounded_ops (demo_env 6) demo_lease demo_history demo_ledger_db =
     (Ok \<lparr>sr_client_order_id = client_order_id uuid_hex demo_intent, sr_filled_quantity = 4, sr_inserted_trades = 1\<rparr>, db')
     \<and> mset (fills_of_order (client_order_id uuid_hex demo_intent) db') = {#demo_fill#}"
proof -
  obtain db' where d: "settle_complete_order_history bounded_ops (demo_env 6) demo_lease demo_history demo_ledger_db =
     (Ok \<lparr>sr_client_order_id = client_order_id uuid_hex demo_intent, sr_filled_quantity = 4, sr_inserted_trades = 1\<rparr>, db')"
    using demo_settle by blast
  have "history_on_scale 0 demo_history"
    by (simp add: history_on_scale_def demo_history_def demo_fill_def representable_numeral)
  from settlement_exact [OF lossless_bounded_ops demo_ledger_inv this d]
  have "mset (fills_of_order (ch_client_order_id demo_history) db') = mset (ch_trades demo_history)" by simp
  with d show ?thesis by (auto simp: demo_history_def)
qed

end
