(* ===== verification/StoreHistory.thy ===== *)
theory StoreHistory
  imports FillLedger
begin

text \<open>
  Histories of the store: any processes, with any leases, run any of the store's writes in any
  order, faults included. The theorems hold for every such history: rows only move forward and the
  journal and the ledger are append-only, a superseded lease stays powerless until its key is
  released, and no order is ever overfilled.
\<close>

section \<open>Operations as data\<close>

datatype db_op =
  OpAcquire env string string int
| OpRenew env runtime_lease
| OpRelease env runtime_lease
| OpAppend env string string jobject int
| OpCheckpoint env string int jobject int
| OpSaveOrder env order_record int
| OpSavePosition env venue_position int
| OpSaveReport env venue reconcile_report int
| OpAudit env audit_row
| OpInsertFill env runtime_lease execution_fill
| OpSettle env runtime_lease complete_order_history

fun db_exec :: "dec_ops \<Rightarrow> db_op \<Rightarrow> db \<Rightarrow> db" where
  "db_exec ar (OpAcquire en key holder ttl) db = snd (acquire_lease en key holder ttl db)"
| "db_exec ar (OpRenew en l) db = snd (renew_lease en l db)"
| "db_exec ar (OpRelease en l) db = snd (release_lease en l db)"
| "db_exec ar (OpAppend en stream ty payload token) db = snd (append_event en stream ty payload token db)"
| "db_exec ar (OpCheckpoint en stream sq state token) db = snd (save_checkpoint en stream sq state token db)"
| "db_exec ar (OpSaveOrder en r token) db = snd (save_order_record en r token db)"
| "db_exec ar (OpSavePosition en p token) db = snd (save_position_state en p token db)"
| "db_exec ar (OpSaveReport en v rep token) db = snd (save_reconcile_report en v rep token db)"
| "db_exec ar (OpAudit en row) db = snd (audit_command en row db)"
| "db_exec ar (OpInsertFill en l f) db = snd (insert_execution_fill ar en l f db)"
| "db_exec ar (OpSettle en l h) db = snd (settle_complete_order_history ar en l h db)"

definition db_run :: "dec_ops \<Rightarrow> db_op list \<Rightarrow> db \<Rightarrow> db" where
  "db_run ar ops db = fold (db_exec ar) ops db"

lemma db_run_simps [simp]: "db_run ar [] db = db" "db_run ar (op # ops) db = db_run ar ops (db_exec ar op db)"
  by (simp_all add: db_run_def)

section \<open>Append-only history\<close>

lemma keeps_insert_execution_fill: "keeps db (snd (insert_execution_fill ar en l f db))"
  unfolding insert_execution_fill_def
proof (rule keeps_bind)
  show "keeps db (snd (give (validate_fill f) db))" by (simp add: give_def)
  fix x db1
  assume "give (validate_fill f) db = (Ok x, db1)"
  show "keeps db1 (snd (execute en LedgerDatabase (transaction (insert_fill_tx ar en l f)) db1))"
    by (rule transaction_keeps) (use keeps_insert_fill_tx [of db1 ar en l f] in auto)
qed

lemma keeps_settle: "keeps db (snd (settle_complete_order_history ar en l h db))"
proof -
  have "keeps db (snd (execute en LedgerDatabase (transaction (settle_tx ar en l h)) db))"
    by (rule transaction_keeps) (auto elim: settle_tx_ledger)
  then show ?thesis by (simp add: settle_complete_order_history_def give_def)
qed

lemma keeps_exec: "keeps db (db_exec ar op db)"
  by (cases op)
    (simp_all add: keeps_insert_execution_fill keeps_settle acquire_lease_def renew_lease_def release_lease_def
      append_event_def save_checkpoint_def save_order_record_def save_position_state_def save_reconcile_report_def
      audit_command_def keeps_execute keeps_acquire keeps_renew keeps_release keeps_insert_event keeps_checkpoint
      keeps_save_order keeps_save_position keeps_reconcile keeps_audit split: outcome.split)

lemma keeps_run: "keeps db (db_run ar ops db)"
proof (induction ops arbitrary: db)
  case (Cons op ops)
  show ?case using keeps_trans [OF keeps_exec Cons.IH] by simp
qed simp

text \<open>
  C12. The store's history is append-only and fenced, whatever the processes do and wherever the
  connections fail. From any well-formed database, every sequence of writes leaves a well-formed
  database (strictly increasing journal numbers, unique event ids, row keys that match their
  contents) in which the journal, the fills, the reconcile runs and the audit extend the old ones, no
  order, position or checkpoint row has disappeared or carries a lower fencing token, no checkpoint
  moved back in the journal, and no order that left \<open>Created\<close> is \<open>Created\<close> again.
\<close>

theorem store_history_append_only:
  assumes "db_inv db"
  shows "db_inv (db_run ar ops db) \<and> evolves db (db_run ar ops db)"
  using keeps_run [of db ar ops] assms by (simp add: keeps_def)

theorem store_history_append_only_witness:
  "db_inv demo_ledger_db \<and> evolves demo_ledger_db (db_run bounded_ops [OpInsertFill (demo_env 6) demo_lease demo_fill] demo_ledger_db)
   \<and> db_fills (db_run bounded_ops [OpInsertFill (demo_env 6) demo_lease demo_fill] demo_ledger_db) \<noteq> []"
proof -
  have inv: "db_inv demo_ledger_db" by (rule ledger_inv_db [OF demo_ledger_inv])
  obtain db' where i: "insert_execution_fill bounded_ops (demo_env 6) demo_lease demo_fill demo_ledger_db = (Ok Inserted, db')"
    using demo_insert by (metis prod.collapse)
  then have "db_fills db' \<noteq> []" by (auto simp: insert_execution_fill_Ok elim!: insert_fill_tx_Ok)
  then show ?thesis using i inv store_history_append_only [OF inv, of bounded_ops "[OpInsertFill (demo_env 6) demo_lease demo_fill]"]
    by auto
qed

section \<open>Fencing of superseded leases\<close>

text \<open>A release that could delete the row of the key after the lease \<open>l\<close> was superseded: not one by \<open>l\<close> itself or an older lease.\<close>

fun releases_later :: "runtime_lease \<Rightarrow> db_op \<Rightarrow> bool" where
  "releases_later l (OpRelease en l') = (rl_lease_key l' = rl_lease_key l \<and> \<not> rl_fencing_token l' < rl_fencing_token l
     \<and> \<not> (rl_fencing_token l' = rl_fencing_token l \<and> rl_holder_id l' = rl_holder_id l))"
| "releases_later l _ = False"

lemma leases_insert_fill: "db_leases (snd (insert_execution_fill ar en l f db)) = db_leases db"
proof -
  have "db_leases (snd (execute en LedgerDatabase (transaction (insert_fill_tx ar en l f)) db)) = db_leases db"
    by (rule transaction_keeps) (auto elim!: insert_fill_tx_Ok)
  then show ?thesis by (cases "validate_fill f") (simp_all add: insert_execution_fill_def give_def)
qed

lemma leases_settle: "db_leases (snd (settle_complete_order_history ar en l h db)) = db_leases db"
proof -
  have "db_leases (snd (execute en LedgerDatabase (transaction (settle_tx ar en l h)) db)) = db_leases db"
    by (rule transaction_keeps) (auto elim!: settle_tx_ledger)
  then show ?thesis by (simp add: settle_complete_order_history_def give_def)
qed

lemma leases_execute: "db_leases (snd (stmt db)) = db_leases db \<Longrightarrow> db_leases (snd (execute en dberr stmt db)) = db_leases db"
  by (rule execute_keeps [where P = "\<lambda>d. db_leases d = db_leases db"]) simp_all

lemma leases_exec:
  "case op of OpAcquire _ _ _ _ \<Rightarrow> True | OpRenew _ _ \<Rightarrow> True | OpRelease _ _ \<Rightarrow> True
   | _ \<Rightarrow> db_leases (db_exec ar op db) = db_leases db"
  by (cases op)
    (simp_all add: leases_insert_fill leases_settle leases_execute leases_frame append_event_def save_checkpoint_def
      save_order_record_def save_position_state_def save_reconcile_report_def audit_command_def)

lemma superseded_exec:
  assumes "superseded l db" "\<not> releases_later l op"
  shows "superseded l (db_exec ar op db)"
proof (cases op)
  case (OpAcquire en key holder ttl)
  then show ?thesis using assms(1)
    by (simp add: acquire_lease_def superseded_execute superseded_acquire split: outcome.split)
next
  case (OpRenew en l')
  then show ?thesis using assms(1)
    by (simp add: renew_lease_def superseded_execute superseded_renew split: outcome.split)
next
  case (OpRelease en l')
  have "superseded l (snd (release_stmt l' db))"
    using assms OpRelease by (auto simp: release_stmt_def superseded_def split: option.splits)
  then show ?thesis using assms(1) OpRelease by (simp add: release_lease_def superseded_execute)
qed (use assms(1) leases_exec [where op = op and ar = ar and db = db] in \<open>simp_all add: superseded_def\<close>)

lemma superseded_run:
  "superseded l db \<Longrightarrow> \<forall>op\<in>set ops. \<not> releases_later l op \<Longrightarrow> superseded l (db_run ar ops db)"
  by (induction ops arbitrary: db) (simp_all add: superseded_exec)

lemma superseded_powerless:
  assumes "superseded l db"
  shows "fst (assert_lease en l db) \<noteq> Ok ()" "fst (renew_lease en l db) \<noteq> Ok ()"
    "fst (insert_execution_fill ar en l f db) \<noteq> Ok oc" "fst (settle_complete_order_history ar en l h db) \<noteq> Ok rc"
    "fst (release_lease en l db) \<noteq> Ok ()"
proof -
  have nv: "\<not> lease_valid now l db" for now by (rule superseded_not_valid [OF assms])
  have "fst (release_stmt l db) \<noteq> Ok ()" using assms by (auto simp: release_stmt_def superseded_def split: option.splits)
  then show "fst (release_lease en l db) \<noteq> Ok ()"
    by (cases "release_stmt l db") (auto simp: release_lease_def execute_def split: fault.split)
  show "fst (assert_lease en l db) \<noteq> Ok ()" by (simp add: assert_lease_def execute_def nv split: fault.split)
  show "fst (renew_lease en l db) \<noteq> Ok ()"
    by (simp add: renew_lease_def execute_def renew_stmt_def nv split: fault.split outcome.split)
  show "fst (insert_execution_fill ar en l f db) \<noteq> Ok oc"
  proof
    assume "fst (insert_execution_fill ar en l f db) = Ok oc"
    then obtain db' where "insert_execution_fill ar en l f db = (Ok oc, db')" by (metis prod.collapse)
    then show False by (auto simp: insert_execution_fill_Ok nv elim!: insert_fill_tx_Ok)
  qed
  show "fst (settle_complete_order_history ar en l h db) \<noteq> Ok rc"
  proof
    assume "fst (settle_complete_order_history ar en l h db) = Ok rc"
    then obtain db' where "settle_tx ar en l h db = (Ok rc, db')" by (metis prod.collapse settle_eq_Ok)
    then show False by (rule settle_tx_ledger) (simp add: nv)
  qed
qed

text \<open>
  C13. A fenced instance stays fenced. Once another holder has taken the key over, then as long as no holder that came
  later releases it, no later sequence of writes, renewals, acquisitions and releases by the old lease itself or by older
  ones lets the old lease pass a lease check, renew or release itself, record a fill or settle an order. (Saves of orders,
  positions and events do not look at the lease; they are fenced by the token of their row.)
\<close>

theorem superseded_lease_stays_fenced:
  assumes "superseded l db" "\<forall>op\<in>set ops. \<not> releases_later l op"
  shows "fst (assert_lease en l (db_run ar ops db)) \<noteq> Ok ()
    \<and> fst (renew_lease en l (db_run ar ops db)) \<noteq> Ok ()
    \<and> fst (release_lease en l (db_run ar ops db)) \<noteq> Ok ()
    \<and> (\<forall>oc. fst (insert_execution_fill ar en l f (db_run ar ops db)) \<noteq> Ok oc)
    \<and> (\<forall>rc. fst (settle_complete_order_history ar en l h (db_run ar ops db)) \<noteq> Ok rc)"
  using superseded_powerless [OF superseded_run [OF assms]] by blast

theorem superseded_lease_stays_fenced_witness:
  "fst (assert_lease (demo_env 1) demo_lease
     (db_run bounded_ops [OpAcquire (demo_env 20000000) ''pg'' ''b'' 15, OpRelease (demo_env 20000001) demo_lease,
        OpAcquire (demo_env 90000000) ''pg'' ''a'' 15] demo_leased_db)) \<noteq> Ok ()"
proof -
  let ?db = "db_exec bounded_ops (OpAcquire (demo_env 20000000) ''pg'' ''b'' 15) demo_leased_db"
  have "superseded demo_lease ?db" by (simp add: demo_takeover superseded_def demo_lease_def)
  from superseded_lease_stays_fenced [OF this, of "[OpRelease (demo_env 20000001) demo_lease, OpAcquire (demo_env 90000000) ''pg'' ''a'' 15]"]
  show ?thesis by simp
qed

section \<open>No order is overfilled\<close>

text \<open>
  Writes on the scale \<open>s\<close>: quantities have at most \<open>s\<close> fractional digits, and a save keeps the
  instrument, side and requested quantity of an order that is already durable.
\<close>

fun op_ok :: "nat \<Rightarrow> db_op \<Rightarrow> db \<Rightarrow> bool" where
  "op_ok s (OpSaveOrder en r token) db \<longleftrightarrow> representable s (or_requested_quantity r)
     \<and> (\<forall>row. om_get (or_client_order_id r) (db_orders db) = Some row \<longrightarrow> same_contract (ow_state row) r)"
| "op_ok s (OpInsertFill en l f) db \<longleftrightarrow> representable s (ef_quantity f)"
| "op_ok s (OpSettle en l h) db \<longleftrightarrow> history_on_scale s h"
| "op_ok s _ db \<longleftrightarrow> True"

fun ops_ok :: "dec_ops \<Rightarrow> nat \<Rightarrow> db_op list \<Rightarrow> db \<Rightarrow> bool" where
  "ops_ok ar s [] db \<longleftrightarrow> True"
| "ops_ok ar s (op # ops) db \<longleftrightarrow> op_ok s op db \<and> ops_ok ar s ops (db_exec ar op db)"

lemma ledger_inv_saved:
  assumes "ledger_inv s db" "op_ok s (OpSaveOrder en r token) db"
    and sv: "save_order_record en r token db = (Ok (), db')"
  shows "ledger_inv s db'"
proof -
  have get: "om_get cid (db_orders db') = (if cid = or_client_order_id r then Some (order_row_of (env_now en) r token)
      else om_get cid (db_orders db))" for cid
    by (rule save_order_get [OF sv ledger_inv_db [OF assms(1)]])
  have fills: "db_fills db' = db_fills db" by (simp add: save_order_Ok(1) [OF sv])
  then have of_order: "fills_of_order cid db' = fills_of_order cid db" for cid by (rule fills_of_order_eq)
  have mine: "order_ledger_ok s r (fills_of_order (or_client_order_id r) db)"
  proof (cases "om_get (or_client_order_id r) (db_orders db)")
    case None
    then have "fills_of_order (or_client_order_id r) db = []" using assms(1) by (auto simp: ledger_inv_def)
    then show ?thesis using assms(2) by (simp add: order_ledger_ok_def)
  next
    case (Some row)
    then have "same_contract (ow_state row) r" using assms(2) by simp
    then show ?thesis using ledger_inv_order [OF assms(1) Some] by (auto simp: order_ledger_ok_def same_contract_def evidence_of_def)
  qed
  have inv: "db_inv db'" by (rule save_order_inv [OF sv ledger_inv_db [OF assms(1)]])
  show ?thesis using assms(1) inv mine unfolding ledger_inv_def get
    by (auto simp: fills of_order order_row_of_def split: if_splits)
qed

lemma ledger_inv_save_order:
  assumes "ledger_inv s db" "op_ok s (OpSaveOrder en r token) db"
  shows "ledger_inv s (snd (save_order_record en r token db))"
  unfolding save_order_record_def
proof (rule execute_keeps [where P = "ledger_inv s"])
  show "ledger_inv s (snd (save_order_stmt (env_now en) r token db))"
  proof (cases "fst (save_order_stmt (env_now en) r token db) = Ok ()")
    case True
    let ?en = "en\<lparr>env_fault := NoFault\<rparr>"
    have "save_order_record ?en r token db = (Ok (), snd (save_order_stmt (env_now en) r token db))"
      using True by (simp add: save_order_record_def execute_def prod_eq_iff)
    then show ?thesis using ledger_inv_saved [OF assms(1), of ?en r token] assms(2) by simp
  next
    case False
    then have "snd (save_order_stmt (env_now en) r token db) = db"
      by (auto simp: save_order_stmt_def Let_def split: option.splits if_splits)
    then show ?thesis using assms(1) by simp
  qed
qed (rule assms(1))

lemma ledger_inv_keeps:
  assumes "ledger_inv s db" "keeps db db'" "db_orders db' = db_orders db" "db_fills db' = db_fills db"
  shows "ledger_inv s db'"
  using ledger_inv_orders_kept [OF assms(1) _ assms(3,4)] assms(1,2) by (simp add: keeps_def ledger_inv_db)

lemma frame_execute:
  "db_orders (snd (stmt db)) = db_orders db \<and> db_fills (snd (stmt db)) = db_fills db \<Longrightarrow>
     db_orders (snd (execute en dberr stmt db)) = db_orders db \<and> db_fills (snd (execute en dberr stmt db)) = db_fills db"
  by (rule execute_keeps [where P = "\<lambda>d. db_orders d = db_orders db \<and> db_fills d = db_fills db"]) simp_all

lemma frame_stmts:
  "db_orders (snd (acquire_stmt now key holder ttl db)) = db_orders db \<and> db_fills (snd (acquire_stmt now key holder ttl db)) = db_fills db"
  "db_orders (snd (renew_stmt now l db)) = db_orders db \<and> db_fills (snd (renew_stmt now l db)) = db_fills db"
  "db_orders (snd (release_stmt l db)) = db_orders db \<and> db_fills (snd (release_stmt l db)) = db_fills db"
  "db_orders (snd (insert_event en k dberr stream ty payload token db)) = db_orders db
     \<and> db_fills (snd (insert_event en k dberr stream ty payload token db)) = db_fills db"
  "db_orders (snd (checkpoint_stmt stream sq st token db)) = db_orders db
     \<and> db_fills (snd (checkpoint_stmt stream sq st token db)) = db_fills db"
  "db_orders (snd (save_position_stmt p token db)) = db_orders db \<and> db_fills (snd (save_position_stmt p token db)) = db_fills db"
  "db_orders (snd (reconcile_stmt i v rep token db)) = db_orders db \<and> db_fills (snd (reconcile_stmt i v rep token db)) = db_fills db"
  "db_orders (snd (audit_stmt row db)) = db_orders db \<and> db_fills (snd (audit_stmt row db)) = db_fills db"
  by (simp_all add: acquire_stmt_def renew_stmt_def release_stmt_def insert_event_def checkpoint_stmt_def
      save_position_stmt_def reconcile_stmt_def audit_stmt_def Let_def split: option.split)

lemma frame_exec:
  "case op of OpSaveOrder _ _ _ \<Rightarrow> True | OpInsertFill _ _ _ \<Rightarrow> True | OpSettle _ _ _ \<Rightarrow> True
   | _ \<Rightarrow> db_orders (db_exec ar op db) = db_orders db \<and> db_fills (db_exec ar op db) = db_fills db"
  by (cases op)
    (simp_all add: frame_execute frame_stmts acquire_lease_def renew_lease_def release_lease_def append_event_def
      save_checkpoint_def save_position_state_def save_reconcile_report_def audit_command_def split: outcome.split)

lemma ledger_inv_exec:
  assumes "lossless ar s" "ledger_inv s db" "op_ok s op db"
  shows "ledger_inv s (db_exec ar op db)"
proof (cases op)
  case (OpSaveOrder en r token)
  then show ?thesis using ledger_inv_save_order assms(2,3) by simp
next
  case (OpInsertFill en l f)
  have "ledger_inv s (snd (execute en LedgerDatabase (transaction (insert_fill_tx ar en l f)) db))"
    if "validate_fill f = Ok ()"
    by (rule transaction_keeps [where P = "ledger_inv s"])
      (use that assms(1-3) OpInsertFill in \<open>auto intro: ledger_inv_insert\<close>)
  then show ?thesis using OpInsertFill assms(2) by (cases "validate_fill f") (simp_all add: insert_execution_fill_def give_def)
next
  case (OpSettle en l h)
  have "ledger_inv s (snd (execute en LedgerDatabase (transaction (settle_tx ar en l h)) db))"
    by (rule transaction_keeps [where P = "ledger_inv s"]) (use assms OpSettle in \<open>auto intro: ledger_inv_settle\<close>)
  then show ?thesis using OpSettle assms(2) by (simp add: settle_complete_order_history_def give_def)
qed (use ledger_inv_keeps [OF assms(2) keeps_exec [of db ar op]] frame_exec [where op = op and ar = ar and db = db] in simp_all)

lemma ledger_inv_owner:
  "ledger_inv s db \<Longrightarrow> f \<in> set (fills_of_order cid db) \<Longrightarrow> \<exists>row. om_get cid (db_orders db) = Some row"
  by (auto simp: ledger_inv_def dest!: spec [of _ cid])

lemma ledger_inv_run:
  "lossless ar s \<Longrightarrow> ledger_inv s db \<Longrightarrow> ops_ok ar s ops db \<Longrightarrow> ledger_inv s (db_run ar ops db)"
  by (induction ops arbitrary: db) (simp_all add: ledger_inv_exec)

text \<open>
  C14. No history overfills an order. Starting from the empty database, after any sequence of writes
  that keeps the contract of durable orders, every recorded fill belongs to a durable order of the
  same venue, instrument and side, no two fills share the venue's identity, and the recorded fills of
  an order add up to at most its requested quantity.
\<close>

theorem ledger_never_overfills:
  assumes "lossless ar s" "ops_ok ar s ops empty_db" "f \<in> fw_fill ` set (db_fills (db_run ar ops empty_db))"
  shows "\<exists>row. om_get (ef_client_order_id f) (db_orders (db_run ar ops empty_db)) = Some row
    \<and> evidence_of f (ow_state row)
    \<and> fill_total (fills_of_order (ef_client_order_id f) (db_run ar ops empty_db)) \<le> or_requested_quantity (ow_state row)
    \<and> stored_fill f (db_run ar ops empty_db) = Some f"
proof -
  let ?db = "db_run ar ops empty_db"
  have inv: "ledger_inv s ?db" by (rule ledger_inv_run [OF assms(1) empty_ledger_inv assms(2)])
  have mem: "f \<in> set (fills_of_order (ef_client_order_id f) ?db)" using assms(3) by (auto simp: fills_of_order_def)
  then obtain row where row: "om_get (ef_client_order_id f) (db_orders ?db) = Some row"
    using ledger_inv_owner [OF inv] by blast
  have "order_ledger_ok s (ow_state row) (fills_of_order (ef_client_order_id f) ?db)" by (rule ledger_inv_order [OF inv row])
  moreover have "stored_fill f ?db = Some f" using inv assms(3) by (intro stored_fill_mem) (simp_all add: ledger_inv_def)
  ultimately show ?thesis using row mem by (fastforce simp: order_ledger_ok_def)
qed

definition demo_ops :: "db_op list" where
  "demo_ops = [OpAcquire (demo_env 0) ''pg'' ''a'' 15, OpSaveOrder (demo_env 5) demo_open_record 1,
     OpInsertFill (demo_env 6) demo_lease demo_fill]"

lemma demo_acquired: "snd (acquire_lease (demo_env 0) ''pg'' ''a'' 15 empty_db) = demo_leased_db"
  by (simp add: acquire_lease_def acquire_stmt_def execute_def demo_env_def demo_leased_db_def empty_db_def
      validate_ttl_def lease_expiry_def)

lemma demo_opened: "snd (save_order_record (demo_env 5) demo_open_record 1 demo_leased_db) = demo_ledger_db"
  by (simp add: save_order_record_def execute_def demo_env_def save_order_stmt_def demo_leased_db_def empty_db_def
      om_get_def demo_ledger_db_def)

theorem ledger_never_overfills_witness:
  "fill_total (fills_of_order (client_order_id uuid_hex demo_intent) (db_run bounded_ops demo_ops empty_db)) \<le> 10
   \<and> fills_of_order (client_order_id uuid_hex demo_intent) (db_run bounded_ops demo_ops empty_db) = [demo_fill]"
proof -
  let ?db = "db_run bounded_ops demo_ops empty_db" and ?cid = "client_order_id uuid_hex demo_intent"
  have "representable 0 (ef_quantity demo_fill)" by (simp add: demo_fill_def representable_numeral)
  then have ok: "ops_ok bounded_ops 0 demo_ops empty_db"
    by (simp add: demo_ops_def demo_acquired representable_numeral) (simp add: demo_leased_db_def empty_db_def om_get_def)
  obtain db' where i: "insert_execution_fill bounded_ops (demo_env 6) demo_lease demo_fill demo_ledger_db = (Ok Inserted, db')"
    using demo_insert by (metis prod.collapse)
  then have db: "?db = db'" by (simp add: demo_ops_def demo_acquired demo_opened)
  have f: "map fw_fill (db_fills db') = [demo_fill]" and od: "db_orders db' = db_orders demo_ledger_db"
    using i by (auto simp: insert_execution_fill_Ok demo_lookup elim!: insert_fill_tx_Ok)
  have cid: "ef_client_order_id demo_fill = ?cid" by (simp add: demo_fill_def)
  have "demo_fill \<in> fw_fill ` set (db_fills ?db)" using f unfolding db by (metis list.set_intros(1) set_map)
  from ledger_never_overfills [OF lossless_bounded_ops ok this]
  have "fill_total (fills_of_order ?cid ?db) \<le> 10"
    by (auto simp: cid db od demo_lookup order_row_of_def)
  moreover have "fills_of_order ?cid ?db = [demo_fill]" by (simp add: fills_of_order_def db f cid)
  ultimately show ?thesis by blast
qed

section \<open>Releasing a lease restarts its tokens\<close>

text \<open>
  A clean shutdown resets the fence. Releasing a lease deletes its row, so the next instance
  starts again at token 1, whatever token was released; every order row that was written under a
  higher token then refuses all of that instance's saves.
\<close>

theorem release_restarts_fencing:
  assumes "release_lease en l db = (Ok (), db1)" "acquire_lease en' (rl_lease_key l) holder ttl db1 = (Ok l', db2)"
  shows "rl_fencing_token l' = 1
    \<and> (\<forall>r row en''. om_get (or_client_order_id r) (db_orders db) = Some row \<and> 1 < ow_fencing_token row \<longrightarrow>
         fst (save_order_record en'' r (rl_fencing_token l') db2) \<noteq> Ok ()
         \<and> snd (save_order_record en'' r (rl_fencing_token l') db2) = db2)"
proof -
  from assms(1) have gone: "db_leases db1 (rl_lease_key l) = None" and o1: "db_orders db1 = db_orders db"
    by (auto simp: release_lease_def execute_eq_Ok release_stmt_def split: option.splits if_splits)
  note a = acquire_Ok [OF assms(2)]
  have t: "rl_fencing_token l' = 1" by (rule a(6) [OF gone])
  have "db_orders db2 = db_orders db" by (simp add: a(5) o1)
  then show ?thesis using t save_order_refused [where db = db2 and token = 1] by simp
qed

definition demo_restarted_db :: db where
  "demo_restarted_db = empty_db\<lparr>db_leases := [''pg'' \<mapsto> \<lparr>lr_holder_id = ''a'', lr_fencing_token = 2,
     lr_lease_expires_at = 15000000\<rparr>], db_orders := [(client_order_id uuid_hex demo_intent, order_row_of 5 demo_open_record 2)]\<rparr>"

theorem release_restarts_fencing_witness:
  "\<exists>db1 l' db2. release_lease (demo_env 6) (demo_lease\<lparr>rl_fencing_token := 2\<rparr>) demo_restarted_db = (Ok (), db1)
     \<and> acquire_lease (demo_env 7) ''pg'' ''b'' 15 db1 = (Ok l', db2)
     \<and> fst (save_order_record (demo_env 8) demo_open_record (rl_fencing_token l') db2) \<noteq> Ok ()"
proof -
  have r: "release_lease (demo_env 6) (demo_lease\<lparr>rl_fencing_token := 2\<rparr>) demo_restarted_db =
      (Ok (), demo_restarted_db\<lparr>db_leases := (\<lambda>_. None)\<rparr>)"
    by (simp add: release_lease_def execute_def demo_env_def release_stmt_def demo_restarted_db_def demo_lease_def fun_eq_iff)
  have a: "acquire_lease (demo_env 7) (rl_lease_key (demo_lease\<lparr>rl_fencing_token := 2\<rparr>)) ''b'' 15 (demo_restarted_db\<lparr>db_leases := (\<lambda>_. None)\<rparr>) =
      (Ok \<lparr>rl_lease_key = ''pg'', rl_holder_id = ''b'', rl_fencing_token = 1, rl_ttl_seconds = 15\<rparr>,
       demo_restarted_db\<lparr>db_leases := [''pg'' \<mapsto> \<lparr>lr_holder_id = ''b'', lr_fencing_token = 1, lr_lease_expires_at = 15000007\<rparr>]\<rparr>)"
    by (simp add: acquire_lease_def execute_def demo_env_def acquire_stmt_def demo_lease_def validate_ttl_def lease_expiry_def)
  have row: "om_get (or_client_order_id demo_open_record) (db_orders demo_restarted_db) = Some (order_row_of 5 demo_open_record 2)"
    "1 < ow_fencing_token (order_row_of 5 demo_open_record 2)"
    by (simp_all add: demo_restarted_db_def om_get_def order_row_of_def)
  have "rl_lease_key (demo_lease\<lparr>rl_fencing_token := 2\<rparr>) = ''pg''" by (simp add: demo_lease_def)
  then show ?thesis using r a release_restarts_fencing [OF r a] row by metis
qed

end
