(* ===== verification/Orchestrator.thy ===== *)
theory Orchestrator
  imports StoreHistory
begin

text \<open>
  Durable execution, \<open>rust/crates/pg-orchestrator\<close>: dispatch, cancellation, recovery of ambiguous
  orders and reconciliation, over the \<open>RuntimeStore\<close> trait and a registry of venue adapters.

  A world is the state of the store and the state of all venues; a call of the store or of an
  adapter returns the world after it. \<open>postgres_ops\<close> is the trait's implementation by the Postgres
  store, where other processes may write between any two calls.
\<close>

section \<open>The store trait\<close>

datatype runtime_store_error = RsFencingLost | RsOther string

fun map_store_error :: "store_error \<Rightarrow> runtime_store_error" where
  "map_store_error StoreFencingLost = RsFencingLost"
| "map_store_error other = RsOther (store_error_message other)"

type_synonym ('x, 's) store_call = "(runtime_store_error, 'x, 's) stateful"

record 's store_ops =
  so_assert_lease :: "runtime_lease \<Rightarrow> (unit, 's) store_call"
  so_append_event :: "string \<Rightarrow> string \<Rightarrow> jobject \<Rightarrow> int \<Rightarrow> (int, 's) store_call"
  so_save_order_record :: "order_record \<Rightarrow> int \<Rightarrow> (unit, 's) store_call"
  so_load_orders_for_venue :: "venue \<Rightarrow> (order_record list, 's) store_call"
  so_load_position_states :: "venue \<Rightarrow> (venue_position list, 's) store_call"
  so_save_position_state :: "venue_position \<Rightarrow> int \<Rightarrow> (unit, 's) store_call"
  so_save_reconcile_report :: "venue \<Rightarrow> reconcile_report \<Rightarrow> int \<Rightarrow> (uuid, 's) store_call"

subsection \<open>Postgres behind the trait\<close>

text \<open>
  The state counts the calls made so far: call number \<open>n\<close> runs in the environment \<open>envs n\<close>, after
  the writes \<open>others n\<close> of other processes.
\<close>

record pg_state =
  pg_calls :: nat
  pg_db :: db

record surroundings =
  sr_envs :: "nat \<Rightarrow> env"
  sr_others :: "nat \<Rightarrow> db_op list"

definition pg_call :: "dec_ops \<Rightarrow> surroundings \<Rightarrow> (env \<Rightarrow> (store_error, 'x) statement) \<Rightarrow> ('x, pg_state) store_call" where
  "pg_call ar sr f st =
     (case f (sr_envs sr (pg_calls st)) (db_run ar (sr_others sr (pg_calls st)) (pg_db st)) of
        (r, db') \<Rightarrow> (map_error map_store_error r, \<lparr>pg_calls = Suc (pg_calls st), pg_db = db'\<rparr>))"

definition postgres_ops :: "dec_ops \<Rightarrow> surroundings \<Rightarrow> pg_state store_ops" where
  "postgres_ops ar sr =
     \<lparr>so_assert_lease = (\<lambda>l. pg_call ar sr (\<lambda>en. assert_lease en l)),
      so_append_event = (\<lambda>stream ty payload token. pg_call ar sr (\<lambda>en. append_event en stream ty payload token)),
      so_save_order_record = (\<lambda>r token. pg_call ar sr (\<lambda>en. save_order_record en r token)),
      so_load_orders_for_venue = (\<lambda>v. pg_call ar sr (\<lambda>en. load_orders_for_venue en v)),
      so_load_position_states = (\<lambda>v. pg_call ar sr (\<lambda>en. load_position_states en v)),
      so_save_position_state = (\<lambda>p token. pg_call ar sr (\<lambda>en. save_position_state en p token)),
      so_save_reconcile_report = (\<lambda>v rep token. pg_call ar sr (\<lambda>en. save_reconcile_report en v rep token))\<rparr>"

section \<open>Adapters, errors and reports\<close>

type_synonym 'a adapter_registry = "(venue, 'a adapter_ops) omap"

definition register :: "venue \<Rightarrow> 'a adapter_ops \<Rightarrow> 'a adapter_registry \<Rightarrow> 'a adapter_registry" where
  "register v ad reg = om_insert v ad reg"

definition registry_get :: "venue \<Rightarrow> 'a adapter_registry \<Rightarrow> 'a adapter_ops option" where
  "registry_get v reg = om_get v reg"

definition registry_venues :: "'a adapter_registry \<Rightarrow> venue list" where
  "registry_venues reg = om_keys reg"

datatype orchestrator_error =
  OrStore runtime_store_error | MissingAdapter venue | OrOms string
| Ambiguous string string | OrExecution execution_error

record recovery_item =
  ri_venue :: venue
  ri_asset :: string
  ri_client_order_id :: string
  ri_state :: order_state
  ri_venue_order_id :: "string option"
  ri_filled_quantity :: decimal
  ri_resolved :: bool

record recovery_report =
  rp_venue :: "venue option"
  rp_items :: "recovery_item list"

record reconcile_cycle =
  rc_venue :: venue
  rc_report :: reconcile_report
  rc_orders :: "order_record list"
  rc_positions :: "venue_position list"

record ('s, 'a) durable_execution =
  de_store :: "'s store_ops"
  de_lease :: runtime_lease
  de_adapters :: "'a adapter_registry"

record ('s, 'a) world =
  w_store :: 's
  w_venues :: 'a

type_synonym ('x, 's, 'a) action = "(orchestrator_error, 'x, ('s, 'a) world) stateful"

definition on_store :: "('x, 's) store_call \<Rightarrow> ('x, 's, 'a) action" where
  "on_store m w = (case m (w_store w) of (r, s') \<Rightarrow> (map_error OrStore r, w\<lparr>w_store := s'\<rparr>))"

text \<open>An adapter call, and the same call under the question mark operator.\<close>

definition on_venue :: "('x, 'a) call \<Rightarrow> (execution_error, 'x, ('s, 'a) world) stateful" where
  "on_venue m w = (case m (w_venues w) of (r, a') \<Rightarrow> (r, w\<lparr>w_venues := a'\<rparr>))"

definition ask_venue :: "('x, 'a) call \<Rightarrow> ('x, 's, 'a) action" where
  "ask_venue m = lift_call OrExecution (on_venue m)"

text \<open>The derived \<open>Debug\<close> texts of the order state machine.\<close>

fun debug_order_state :: "order_state \<Rightarrow> string" where
  "debug_order_state Created = ''Created''"
| "debug_order_state PendingSubmit = ''PendingSubmit''"
| "debug_order_state Open = ''Open''"
| "debug_order_state PartiallyFilled = ''PartiallyFilled''"
| "debug_order_state PendingCancel = ''PendingCancel''"
| "debug_order_state Filled = ''Filled''"
| "debug_order_state Canceled = ''Canceled''"
| "debug_order_state Rejected = ''Rejected''"
| "debug_order_state Unknown = ''Unknown''"

fun debug_order_event :: "order_event \<Rightarrow> string" where
  "debug_order_event SubmitRequested = ''SubmitRequested''"
| "debug_order_event Accepted = ''Accepted''"
| "debug_order_event CancelRequested = ''CancelRequested''"
| "debug_order_event EvCanceled = ''Canceled''"
| "debug_order_event EvRejected = ''Rejected''"
| "debug_order_event LostState = ''LostState''"

fun transition_error_message :: "transition_error \<Rightarrow> string" where
  "transition_error_message (TransitionError st ev) =
     ''illegal order transition from '' @ debug_order_state st @ '' on '' @ debug_order_event ev"

text \<open>A state machine step of the record the handler holds.\<close>

fun oms_step :: "(transition_error, unit) outcome \<times> order_record \<Rightarrow> (orchestrator_error, order_record) outcome" where
  "oms_step (Ok _, r) = Ok r"
| "oms_step (Err e, r) = Err (OrOms (transition_error_message e))"
| "oms_step (Panic, r) = Panic"

section \<open>Snapshots\<close>

definition contract_ok :: "order_record \<Rightarrow> venue_order_snapshot \<Rightarrow> bool" where
  "contract_ok r v \<longleftrightarrow>
     vo_asset v = or_asset r \<and> or_side r = Some (vo_side v)
     \<and> vo_requested_quantity v = or_requested_quantity r \<and> vo_venue_order_id v \<noteq> []
     \<and> (case or_venue_order_id r of Some i \<Rightarrow> i = vo_venue_order_id v | None \<Rightarrow> True)"

fun same_terminal :: "order_state \<Rightarrow> venue_order_state \<Rightarrow> bool" where
  "same_terminal Filled VFilled = True"
| "same_terminal Canceled VCanceled = True"
| "same_terminal Rejected VRejected = True"
| "same_terminal _ _ = False"

definition validate_snapshot :: "order_record \<Rightarrow> venue_order_snapshot \<Rightarrow> (string, unit) outcome" where
  "validate_snapshot r v =
     (if vo_client_order_id v \<noteq> Some (or_client_order_id r) then Err ''client order id mismatch or absent''
      else if \<not> contract_ok r v then Err ''order contract or venue id mismatch''
      else if vo_filled_quantity v < 0 \<or> or_requested_quantity r < vo_filled_quantity v
          \<or> vo_filled_quantity v \<noteq> or_filled_quantity r
        then Err ''cumulative fill mismatch: reconcile trade IDs and fees first''
      else if vo_state v = VUnknown then Err ''unknown order state requires explicit recovery evidence''
      else if is_terminal r \<and> \<not> same_terminal (or_state r) (vo_state v)
        then Err ''terminal order state conflict or resurrection''
      else if vo_state v = VFilled \<and> vo_filled_quantity v \<noteq> or_requested_quantity r
        then Err ''filled status without full quantity''
      else if vo_state v = VPartiallyFilled
          \<and> (vo_filled_quantity v \<le> 0 \<or> or_requested_quantity r \<le> vo_filled_quantity v)
        then Err ''partial fill status contradicts cumulative quantity''
      else if or_state r = Created \<and> vo_state v \<noteq> VRejected
        then Err ''unsubmitted local order found remotely''
      else Ok ())"

fun order_state_of :: "venue_order_state \<Rightarrow> order_state" where
  "order_state_of VOpen = Open"
| "order_state_of VPartiallyFilled = PartiallyFilled"
| "order_state_of VFilled = Filled"
| "order_state_of VCanceled = Canceled"
| "order_state_of VRejected = Rejected"
| "order_state_of VUnknown = Unknown"

definition apply_snapshot :: "order_record \<Rightarrow> venue_order_snapshot \<Rightarrow> order_record" where
  "apply_snapshot r v =
     r\<lparr>or_venue_order_id := Some (vo_venue_order_id v), or_filled_quantity := vo_filled_quantity v,
       or_state := order_state_of (vo_state v)\<rparr>"

definition push_snapshot_conflict :: "order_record \<Rightarrow> string \<Rightarrow> reconcile_report \<Rightarrow> reconcile_report" where
  "push_snapshot_conflict loc remote_asset rep =
     (let key = AssetKey (or_venue loc) (or_asset loc); remote_key = AssetKey (or_venue loc) remote_asset;
          rep1 = \<lparr>rr_issues = rr_issues rep @ [OrderContractMismatch key (or_client_order_id loc) remote_asset],
                  rr_safe_hold_assets = insert key (rr_safe_hold_assets rep)\<rparr>
      in if remote_asset \<noteq> or_asset loc
         then \<lparr>rr_issues = rr_issues rep1 @ [OrderContractMismatch remote_key (or_client_order_id loc) remote_asset],
               rr_safe_hold_assets = insert remote_key (rr_safe_hold_assets rep1)\<rparr>
         else rep1)"

section \<open>Position ownership\<close>

definition signed_fill :: "side \<Rightarrow> order_record \<Rightarrow> decimal" where
  "signed_fill sd r = (case sd of Buy \<Rightarrow> or_filled_quantity r | Sell \<Rightarrow> - or_filled_quantity r)"

text \<open>The per-strategy sums; an overflowing addition panics.\<close>

fun sum_by_strategy ::
  "dec_ops \<Rightarrow> order_record list \<Rightarrow> (string, decimal) omap \<Rightarrow> (orchestrator_error, (string, decimal) omap) outcome" where
  "sum_by_strategy ar [] m = Ok m"
| "sum_by_strategy ar (r # rs) m =
     (case or_side r of
        None \<Rightarrow> Panic
      | Some sd \<Rightarrow>
          and_then (or_panic (checked_add ar (case om_get (or_owner_strategy_id r) m of Some q \<Rightarrow> q | None \<Rightarrow> 0)
                                (signed_fill sd r)))
            (\<lambda>q. sum_by_strategy ar rs (om_insert (or_owner_strategy_id r) q m)))"

definition ownership_from_order_evidence ::
  "dec_ops \<Rightarrow> string \<Rightarrow> decimal \<Rightarrow> order_record list \<Rightarrow> ownership option \<Rightarrow> (orchestrator_error, ownership) outcome" where
  "ownership_from_order_evidence ar asset venue_quantity orders previous =
     (if venue_quantity = 0 then Ok (case previous of Some p \<Rightarrow> p | None \<Rightarrow> OwnerUnknown)
      else let relevant = filter (\<lambda>r. or_asset r = asset \<and> 0 < or_filled_quantity r) orders
      in if relevant = [] then Ok (case previous of Some p \<Rightarrow> p | None \<Rightarrow> Manual)
         else if list_ex (\<lambda>r. or_side r = None) relevant then Ok OwnerUnknown
         else and_then (sum_by_strategy ar relevant []) (\<lambda>m.
           Ok (case filter (\<lambda>(_, q). q \<noteq> 0) m of
                 [(strategy_id, q)] \<Rightarrow> if q = venue_quantity then Strategy strategy_id else OwnerUnknown
               | _ \<Rightarrow> OwnerUnknown)))"

fun infer_from_snapshots ::
  "dec_ops \<Rightarrow> venue \<Rightarrow> venue_position_snapshot list \<Rightarrow> order_record list \<Rightarrow> (string, ownership) omap \<Rightarrow> (orchestrator_error, venue_position list) outcome" where
  "infer_from_snapshots ar v [] orders previous =
     Ok (map (\<lambda>(asset, own). \<lparr>ps_venue = v, ps_asset = asset, ps_quantity = 0, ps_ownership = own\<rparr>) previous)"
| "infer_from_snapshots ar v (p # ps) orders previous =
     and_then (ownership_from_order_evidence ar (vp_asset p) (vp_quantity p) orders (om_get (vp_asset p) previous)) (\<lambda>own.
     and_then (infer_from_snapshots ar v ps orders (om_remove (vp_asset p) previous)) (\<lambda>rest.
       Ok (\<lparr>ps_venue = v, ps_asset = vp_asset p, ps_quantity = vp_quantity p, ps_ownership = own\<rparr> # rest)))"

definition infer_position_ownership ::
  "dec_ops \<Rightarrow> venue \<Rightarrow> venue_position_snapshot list \<Rightarrow> order_record list \<Rightarrow> (string, ownership) omap \<Rightarrow> (orchestrator_error, venue_position list) outcome" where
  "infer_position_ownership = infer_from_snapshots"

section \<open>Handlers\<close>

definition check_lease :: "('s, 'a) durable_execution \<Rightarrow> (unit, 's, 'a) action" where
  "check_lease d = on_store (so_assert_lease (de_store d) (de_lease d))"

definition save_order :: "('s, 'a) durable_execution \<Rightarrow> order_record \<Rightarrow> (unit, 's, 'a) action" where
  "save_order d r = on_store (so_save_order_record (de_store d) r (rl_fencing_token (de_lease d)))"

definition emit :: "('s, 'a) durable_execution \<Rightarrow> string \<Rightarrow> string \<Rightarrow> jobject \<Rightarrow> (int, 's, 'a) action" where
  "emit d stream ty payload =
     on_store (so_append_event (de_store d) stream ty payload (rl_fencing_token (de_lease d)))"

definition find_adapter :: "('s, 'a) durable_execution \<Rightarrow> venue \<Rightarrow> ('a adapter_ops, 's, 'a) action" where
  "find_adapter d v = give (ok_or (registry_get v (de_adapters d)) (MissingAdapter v))"

subsection \<open>Dispatch\<close>

text \<open>Everything before the venue is touched: from the durable intent on, and from the start.\<close>

definition dispatch_started ::
  "(uuid \<Rightarrow> string) \<Rightarrow> uuid \<Rightarrow> ('s, 'a) durable_execution \<Rightarrow> order_intent \<Rightarrow> 'a adapter_ops \<Rightarrow> ('a adapter_ops \<times> order_record, 's, 'a) action" where
  "dispatch_started simple new_id d i ad =
     (let stream = order_stream (client_order_id simple i); record = from_intent simple new_id i in
      bind (emit d stream ''order.intent.persisted''
              [(''intent'', JIntent i), (''client_order_id'', JStr (or_client_order_id record))]) (\<lambda>_.
      bind (give (oms_step (apply_event SubmitRequested record))) (\<lambda>record.
      bind (save_order d record) (\<lambda>_.
      bind (emit d stream ''order.dispatch.started''
              [(''client_order_id'', JStr (or_client_order_id record))]) (\<lambda>_.
      bind (check_lease d) (\<lambda>_. give (Ok (ad, record))))))))"

definition dispatch_prepare ::
  "(uuid \<Rightarrow> string) \<Rightarrow> uuid \<Rightarrow> ('s, 'a) durable_execution \<Rightarrow> order_intent \<Rightarrow> ('a adapter_ops \<times> order_record, 's, 'a) action" where
  "dispatch_prepare simple new_id d i =
     bind (check_lease d) (\<lambda>_.
     bind (find_adapter d (oi_venue i)) (\<lambda>ad.
     bind (save_order d (from_intent simple new_id i)) (\<lambda>_.
     dispatch_started simple new_id d i ad)))"

definition dispatch_acknowledged ::
  "('s, 'a) durable_execution \<Rightarrow> order_record \<Rightarrow> venue_order_ack \<Rightarrow> (order_record, 's, 'a) action" where
  "dispatch_acknowledged d record ack =
     bind (give (oms_step (accept (va_venue_order_id ack) record))) (\<lambda>record.
     bind (save_order d record) (\<lambda>_.
     bind (emit d (order_stream (or_client_order_id record)) ''order.dispatch.acknowledged''
             [(''client_order_id'', JStr (va_client_order_id ack)), (''venue_order_id'', JStr (va_venue_order_id ack))]) (\<lambda>_.
     give (Ok record))))"

definition dispatch_failed ::
  "('s, 'a) durable_execution \<Rightarrow> order_record \<Rightarrow> order_event \<Rightarrow> string \<Rightarrow> execution_error \<Rightarrow> orchestrator_error \<Rightarrow> (order_record, 's, 'a) action" where
  "dispatch_failed d record ev ty e result =
     bind (give (oms_step (apply_event ev record))) (\<lambda>record.
     bind (save_order d record) (\<lambda>_.
     bind (emit d (order_stream (or_client_order_id record)) ty
             [(''client_order_id'', JStr (or_client_order_id record)), (''reason'', JStr (execution_error_message e))]) (\<lambda>_.
     give (Err result))))"

fun ambiguous_error :: "execution_error \<Rightarrow> bool" where
  "ambiguous_error (ExUnknown _) = True"
| "ambiguous_error (ExTransport _) = True"
| "ambiguous_error _ = False"

definition dispatch_result ::
  "('s, 'a) durable_execution \<Rightarrow> order_record \<Rightarrow> (execution_error, venue_order_ack) outcome \<Rightarrow> (order_record, 's, 'a) action" where
  "dispatch_result d record res =
     (case res of
        Ok ack \<Rightarrow> dispatch_acknowledged d record ack
      | Err e \<Rightarrow>
          if ambiguous_error e
          then dispatch_failed d record LostState ''order.dispatch.unknown'' e
                 (Ambiguous (or_client_order_id record) (execution_error_message e))
          else dispatch_failed d record EvRejected ''order.dispatch.rejected'' e (OrExecution e)
      | Panic \<Rightarrow> give Panic)"

definition dispatch ::
  "(uuid \<Rightarrow> string) \<Rightarrow> uuid \<Rightarrow> ('s, 'a) durable_execution \<Rightarrow> order_intent \<Rightarrow> (order_record, 's, 'a) action" where
  "dispatch simple new_id d i =
     bind (dispatch_prepare simple new_id d i) (\<lambda>(ad, record) w.
       case on_venue (ad_submit ad i) w of (res, w') \<Rightarrow> dispatch_result d record res w')"

subsection \<open>Checked snapshots\<close>

definition checked_snapshot ::
  "('s, 'a) durable_execution \<Rightarrow> order_record \<Rightarrow> venue_order_snapshot \<Rightarrow> string \<Rightarrow> (order_record, 's, 'a) action" where
  "checked_snapshot d record snapshot stream =
     (case validate_snapshot record snapshot of
        Err reason \<Rightarrow>
          bind (emit d stream ''order.snapshot.conflict''
                  [(''reason'', JStr reason), (''local'', JOrder record), (''remote'', JSnapshot snapshot),
                   (''action'', JStr ''safe_hold_no_overwrite'')]) (\<lambda>_.
          give (Err (Ambiguous (or_client_order_id record) reason)))
      | Ok _ \<Rightarrow> give (Ok (apply_snapshot record snapshot))
      | Panic \<Rightarrow> give Panic)"

subsection \<open>Cancellation\<close>

text \<open>The first half resolves an order whose venue state is unknown; it may already be the end.\<close>

definition cancel_resolve ::
  "('s, 'a) durable_execution \<Rightarrow> 'a adapter_ops \<Rightarrow> order_record \<Rightarrow> (order_record, 's, 'a) action" where
  "cancel_resolve d ad record =
     (if or_state record = PendingSubmit \<or> or_state record = Unknown
      then bind (ask_venue (ad_find_order_by_client_id ad (or_client_order_id record))) (\<lambda>remote.
        case remote of
          None \<Rightarrow>
            bind (save_order d (record\<lparr>or_state := Unknown\<rparr>)) (\<lambda>_.
            give (Err (Ambiguous (or_client_order_id record) ''cannot prove a cancelable venue order exists'')))
        | Some snapshot \<Rightarrow> checked_snapshot d record snapshot (order_stream (or_client_order_id record)))
      else give (Ok record))"

definition cancel_request :: "('s, 'a) durable_execution \<Rightarrow> order_record \<Rightarrow> (order_record, 's, 'a) action" where
  "cancel_request d record =
     (if or_state record = Open \<or> or_state record = PartiallyFilled
      then bind (give (oms_step (apply_event CancelRequested record))) (\<lambda>record.
        bind (save_order d record) (\<lambda>_.
        bind (emit d (order_stream (or_client_order_id record)) ''order.cancel.started''
                [(''client_order_id'', JStr (or_client_order_id record))]) (\<lambda>_.
        give (Ok record))))
      else give (Ok record))"

definition cancel_confirm :: "('s, 'a) durable_execution \<Rightarrow> 'a adapter_ops \<Rightarrow> order_record \<Rightarrow> (order_record, 's, 'a) action" where
  "cancel_confirm d ad record =
     (let stream = order_stream (or_client_order_id record) in
      bind (ask_venue (ad_find_order_by_client_id ad (or_client_order_id record))) (\<lambda>remote.
      bind (case remote of
              Some snapshot \<Rightarrow> checked_snapshot d record snapshot stream
            | None \<Rightarrow>
                bind (emit d stream ''order.cancel.unresolved''
                        [(''client_order_id'', JStr (or_client_order_id record)),
                         (''reason'', JStr ''terminal order history unavailable'')]) (\<lambda>_.
                give (Err (Ambiguous (or_client_order_id record) ''terminal order history unavailable after cancel'')))) (\<lambda>record.
      bind (save_order d record) (\<lambda>_.
      bind (emit d stream ''order.cancel.reconciled'' [(''state'', JState (or_state record))]) (\<lambda>_.
      give (Ok record))))))"

definition cancel_at_venue :: "('s, 'a) durable_execution \<Rightarrow> 'a adapter_ops \<Rightarrow> order_record \<Rightarrow> (order_record, 's, 'a) action" where
  "cancel_at_venue d ad record w =
     (case on_venue (ad_cancel ad \<lparr>ol_asset = or_asset record, ol_venue_order_id = or_venue_order_id record,
                                  ol_client_order_id = or_client_order_id record\<rparr>) w of
        (Ok _, w') \<Rightarrow> cancel_confirm d ad record w'
      | (Err e, w') \<Rightarrow>
          if ambiguous_error e
          then bind (give (oms_step (apply_event LostState record))) (\<lambda>record.
               bind (save_order d record) (\<lambda>_.
               bind (emit d (order_stream (or_client_order_id record)) ''order.cancel.unknown''
                       [(''reason'', JStr (execution_error_message e))]) (\<lambda>_.
               give (Err (Ambiguous (or_client_order_id record) (execution_error_message e)))))) w'
          else (Err (OrExecution e), w')
      | (Panic, w') \<Rightarrow> (Panic, w'))"

definition cancel_order :: "('s, 'a) durable_execution \<Rightarrow> order_record \<Rightarrow> (order_record, 's, 'a) action" where
  "cancel_order d input =
     bind (check_lease d) (\<lambda>_.
       if is_terminal input then give (Ok input)
       else bind (find_adapter d (or_venue input)) (\<lambda>ad.
         bind (cancel_resolve d ad input) (\<lambda>record.
           if (or_state input = PendingSubmit \<or> or_state input = Unknown) \<and> is_terminal record
           then bind (save_order d record) (\<lambda>_. give (Ok record))
           else bind (cancel_request d record) (\<lambda>record.
             if or_state record \<noteq> PendingCancel
             then give (Err (Ambiguous (or_client_order_id record)
                    (''order is not safely cancelable from '' @ debug_order_state (or_state record))))
             else bind (check_lease d) (\<lambda>_. cancel_at_venue d ad record)))))"

subsection \<open>Recovery\<close>

definition ambiguous_order :: "order_record \<Rightarrow> bool" where
  "ambiguous_order r \<longleftrightarrow> or_state r = PendingSubmit \<or> or_state r = Unknown"

definition recovery_item_of :: "order_record \<Rightarrow> bool \<Rightarrow> recovery_item" where
  "recovery_item_of r resolved =
     \<lparr>ri_venue = or_venue r, ri_asset = or_asset r, ri_client_order_id = or_client_order_id r,
      ri_state = or_state r, ri_venue_order_id = or_venue_order_id r,
      ri_filled_quantity = or_filled_quantity r, ri_resolved = resolved\<rparr>"

definition recover_one :: "('s, 'a) durable_execution \<Rightarrow> 'a adapter_ops \<Rightarrow> order_record \<Rightarrow> (recovery_item, 's, 'a) action" where
  "recover_one d ad record =
     (let stream = order_stream (or_client_order_id record) in
      bind (ask_venue (ad_find_order_by_client_id ad (or_client_order_id record))) (\<lambda>remote.
      bind (case remote of
              Some snapshot \<Rightarrow>
                bind (checked_snapshot d record snapshot stream) (\<lambda>record.
                bind (emit d stream ''order.recovery.resolved'' [(''snapshot'', JSnapshot snapshot)]) (\<lambda>_.
                give (Ok (record, True))))
            | None \<Rightarrow>
                bind (emit d stream ''order.recovery.unresolved''
                        [(''client_order_id'', JStr (or_client_order_id record)),
                         (''action'', JStr ''safe_hold_no_resubmit'')]) (\<lambda>_.
                give (Ok (record\<lparr>or_state := Unknown\<rparr>, False)))) (\<lambda>(record, resolved).
      bind (save_order d record) (\<lambda>_.
      give (Ok (recovery_item_of record resolved))))))"

fun recover_all :: "('s, 'a) durable_execution \<Rightarrow> 'a adapter_ops \<Rightarrow> order_record list \<Rightarrow> (recovery_item list, 's, 'a) action" where
  "recover_all d ad [] = give (Ok [])"
| "recover_all d ad (r # rs) =
     bind (recover_one d ad r) (\<lambda>item. bind (recover_all d ad rs) (\<lambda>items. give (Ok (item # items))))"

definition recover_ambiguous :: "('s, 'a) durable_execution \<Rightarrow> venue \<Rightarrow> (recovery_report, 's, 'a) action" where
  "recover_ambiguous d v =
     bind (check_lease d) (\<lambda>_.
     bind (find_adapter d v) (\<lambda>ad.
     bind (on_store (so_load_orders_for_venue (de_store d) v)) (\<lambda>orders.
     bind (recover_all d ad (filter ambiguous_order orders)) (\<lambda>items.
     give (Ok \<lparr>rp_venue = Some v, rp_items = items\<rparr>)))))"

subsection \<open>Reconciliation\<close>

definition names_client :: "string \<Rightarrow> venue_order_snapshot \<Rightarrow> bool" where
  "names_client cid v \<longleftrightarrow> vo_client_order_id v = Some cid"

fun complete_venue_orders ::
  "'a adapter_ops \<Rightarrow> order_record list \<Rightarrow> venue_order_snapshot list \<Rightarrow> (venue_order_snapshot list, 's, 'a) action" where
  "complete_venue_orders ad [] vs = give (Ok vs)"
| "complete_venue_orders ad (r # rs) vs =
     (if is_terminal r \<or> list_ex (names_client (or_client_order_id r)) vs then complete_venue_orders ad rs vs
      else bind (ask_venue (ad_find_order_by_client_id ad (or_client_order_id r))) (\<lambda>remote.
        case remote of
          Some v \<Rightarrow> complete_venue_orders ad rs (vs @ [v])
        | None \<Rightarrow> complete_venue_orders ad rs vs))"

text \<open>The further conflicts of one local order with the venue orders that name it.\<close>

definition local_conflicts :: "venue_order_snapshot list \<Rightarrow> order_record \<Rightarrow> reconcile_report \<Rightarrow> reconcile_report" where
  "local_conflicts vs loc rep =
     (let matching = filter (names_client (or_client_order_id loc)) vs;
          rep1 = (if 1 < length matching then push_snapshot_conflict loc (or_asset loc) rep else rep)
      in fold (\<lambda>remote rp. if validate_snapshot loc remote = Ok () then rp
                            else push_snapshot_conflict loc (vo_asset remote) rp) matching rep1)"

definition preflight_report ::
  "venue \<Rightarrow> order_record list \<Rightarrow> venue_order_snapshot list \<Rightarrow> venue_position list \<Rightarrow> reconcile_report" where
  "preflight_report v locals vs ps = fold (local_conflicts vs) locals (reconcile v locals vs ps)"

fun apply_venue_orders ::
  "('s, 'a) durable_execution \<Rightarrow> venue_order_snapshot list \<Rightarrow> order_record list \<Rightarrow> (order_record list, 's, 'a) action" where
  "apply_venue_orders d vs [] = give (Ok [])"
| "apply_venue_orders d vs (r # rs) =
     (case find (names_client (or_client_order_id r)) vs of
        Some remote \<Rightarrow>
          bind (save_order d (apply_snapshot r remote)) (\<lambda>_.
          bind (apply_venue_orders d vs rs) (\<lambda>done. give (Ok (apply_snapshot r remote # done))))
      | None \<Rightarrow> bind (apply_venue_orders d vs rs) (\<lambda>done. give (Ok (r # done))))"

fun save_positions :: "('s, 'a) durable_execution \<Rightarrow> venue_position list \<Rightarrow> (unit, 's, 'a) action" where
  "save_positions d [] = give (Ok ())"
| "save_positions d (p # ps) =
     bind (on_store (so_save_position_state (de_store d) p (rl_fencing_token (de_lease d)))) (\<lambda>_. save_positions d ps)"

definition reconcile_commit ::
  "('s, 'a) durable_execution \<Rightarrow> venue \<Rightarrow> reconcile_report \<Rightarrow> order_record list \<Rightarrow> venue_order_snapshot list \<Rightarrow> venue_position list \<Rightarrow> (reconcile_cycle, 's, 'a) action" where
  "reconcile_commit d v rep locals vs ps =
     (if \<not> report_clean rep
      then give (Ok \<lparr>rc_venue = v, rc_report = rep, rc_orders = locals, rc_positions = ps\<rparr>)
      else bind (check_lease d) (\<lambda>_.
        bind (apply_venue_orders d vs locals) (\<lambda>locals.
        bind (save_positions d ps) (\<lambda>_.
        give (Ok \<lparr>rc_venue = v, rc_report = rep, rc_orders = locals, rc_positions = ps\<rparr>)))))"

definition reconcile_observe ::
  "dec_ops \<Rightarrow> ('s, 'a) durable_execution \<Rightarrow> venue \<Rightarrow> (order_record list \<times> venue_order_snapshot list \<times> venue_position list, 's, 'a) action" where
  "reconcile_observe ar d v =
     bind (check_lease d) (\<lambda>_.
     bind (find_adapter d v) (\<lambda>ad.
     bind (on_store (so_load_orders_for_venue (de_store d) v)) (\<lambda>locals.
     bind (ask_venue (ad_open_orders ad)) (\<lambda>open_orders.
     bind (complete_venue_orders ad locals open_orders) (\<lambda>vs.
     bind (on_store (so_load_position_states (de_store d) v)) (\<lambda>stored.
     bind (ask_venue (ad_positions ad)) (\<lambda>snapshots.
     bind (give (infer_position_ownership ar v snapshots locals
                  (om_collect (map (\<lambda>p. (ps_asset p, ps_ownership p)) stored)))) (\<lambda>ps.
     give (Ok (locals, vs, ps))))))))))"

definition reconcile_once :: "dec_ops \<Rightarrow> ('s, 'a) durable_execution \<Rightarrow> venue \<Rightarrow> (reconcile_cycle, 's, 'a) action" where
  "reconcile_once ar d v =
     bind (reconcile_observe ar d v) (\<lambda>(locals, vs, ps).
     let rep = preflight_report v locals vs ps in
     bind (check_lease d) (\<lambda>_.
     bind (on_store (so_save_reconcile_report (de_store d) v rep (rl_fencing_token (de_lease d)))) (\<lambda>_.
     bind (emit d (''reconcile:'' @ debug_venue v) ''reconcile.completed''
             [(''report'', JReport rep), (''local_before'', JOrders locals), (''remote'', JSnapshots vs)]) (\<lambda>_.
     reconcile_commit d v rep locals vs ps))))"

end
