(* ===== verification/Durable.thy ===== *)
theory Durable
  imports Orchestrator Shadow
begin

text \<open>
  What the orchestrator needs from its store, as an interface: calls keep the store's invariant and
  never lose a durable order, a successful save makes its order durable, and a fresh order is refused
  when its client id is durable already. From these laws alone dispatch touches the venue at most
  once per client id. The Postgres store provides them, with any writes of other processes between
  the calls.
\<close>

section \<open>Store-only actions\<close>

definition stable_call :: "('s \<Rightarrow> bool) \<Rightarrow> (string \<Rightarrow> 's \<Rightarrow> bool) \<Rightarrow> ('e, 'x, 's) stateful \<Rightarrow> bool" where
  "stable_call good has m \<longleftrightarrow> (\<forall>s. good s \<longrightarrow> good (snd (m s)) \<and> (\<forall>c. has c s \<longrightarrow> has c (snd (m s))))"

text \<open>An action of the orchestrator that leaves the venues alone and is stable on the store.\<close>

definition store_only :: "('s \<Rightarrow> bool) \<Rightarrow> (string \<Rightarrow> 's \<Rightarrow> bool) \<Rightarrow> ('x, 's, 'a) action \<Rightarrow> bool" where
  "store_only good has m \<longleftrightarrow> (\<forall>w. w_venues (snd (m w)) = w_venues w
     \<and> (good (w_store w) \<longrightarrow> good (w_store (snd (m w))) \<and> (\<forall>c. has c (w_store w) \<longrightarrow> has c (w_store (snd (m w))))))"

lemma store_only_on_store: "stable_call good has m \<Longrightarrow> store_only good has (on_store m)"
  unfolding store_only_def stable_call_def on_store_def
  by (auto split: prod.split)

lemma store_only_give [simp]: "store_only good has (give r)"
  by (simp add: store_only_def give_def)

lemma store_only_bind:
  assumes "store_only good has m" "\<And>x. store_only good has (f x)"
  shows "store_only good has (bind m f)"
  unfolding store_only_def
proof
  fix w
  obtain r w1 where m: "m w = (r, w1)" by (cases "m w")
  have a: "w_venues w1 = w_venues w \<and> (good (w_store w) \<longrightarrow> good (w_store w1) \<and> (\<forall>c. has c (w_store w) \<longrightarrow> has c (w_store w1)))"
    using assms(1) m unfolding store_only_def by (metis snd_conv)
  show "w_venues (snd (bind m f w)) = w_venues w \<and>
     (good (w_store w) \<longrightarrow> good (w_store (snd (bind m f w))) \<and> (\<forall>c. has c (w_store w) \<longrightarrow> has c (w_store (snd (bind m f w)))))"
  proof (cases r)
    case (Ok x)
    have "w_venues (snd (f x w1)) = w_venues w1 \<and> (good (w_store w1) \<longrightarrow> good (w_store (snd (f x w1)))
        \<and> (\<forall>c. has c (w_store w1) \<longrightarrow> has c (w_store (snd (f x w1)))))"
      using assms(2) unfolding store_only_def by blast
    then show ?thesis using a m Ok by (simp add: bind_def)
  qed (use a m in \<open>simp_all add: bind_def\<close>)
qed

section \<open>The interface\<close>

locale durable_store =
  fixes ops :: "'s store_ops"
    and good :: "'s \<Rightarrow> bool"
    and has :: "string \<Rightarrow> 's \<Rightarrow> bool"
  assumes assert_stable: "stable_call good has (so_assert_lease ops l)"
    and append_stable: "stable_call good has (so_append_event ops stream ty payload token)"
    and save_stable: "stable_call good has (so_save_order_record ops r token)"
    and load_orders_stable: "stable_call good has (so_load_orders_for_venue ops v)"
    and load_positions_stable: "stable_call good has (so_load_position_states ops v)"
    and save_position_stable: "stable_call good has (so_save_position_state ops p token)"
    and save_report_stable: "stable_call good has (so_save_reconcile_report ops v rep token)"
    and save_durable: "good s \<Longrightarrow> so_save_order_record ops r token s = (Ok u, s') \<Longrightarrow> has (or_client_order_id r) s'"
    and save_refuses: "good s \<Longrightarrow> has (or_client_order_id r) s \<Longrightarrow> or_state r = Created \<Longrightarrow>
      fst (so_save_order_record ops r token s) \<noteq> Ok u"
begin

lemma check_lease_only: "de_store d = ops \<Longrightarrow> store_only good has (check_lease d)"
  by (simp add: check_lease_def store_only_on_store assert_stable)

lemma save_order_only: "de_store d = ops \<Longrightarrow> store_only good has (save_order d r)"
  by (simp add: save_order_def store_only_on_store save_stable)

lemma emit_only: "de_store d = ops \<Longrightarrow> store_only good has (emit d stream ty payload)"
  by (simp add: emit_def store_only_on_store append_stable)

lemmas only_intros = store_only_bind check_lease_only save_order_only emit_only

lemma save_order_world:
  assumes "de_store d = ops" "good (w_store w)" "save_order d r w = (Ok u, w')"
  shows "has (or_client_order_id r) (w_store w')" "or_state r = Created \<Longrightarrow> \<not> has (or_client_order_id r) (w_store w)"
proof -
  from assms(1,3) obtain s' where sv: "so_save_order_record ops r (rl_fencing_token (de_lease d)) (w_store w) = (Ok u, s')"
    and w': "w' = w\<lparr>w_store := s'\<rparr>"
    by (auto simp: save_order_def on_store_def map_error_eq_Ok split: prod.splits)
  show "has (or_client_order_id r) (w_store w')" using save_durable [OF assms(2) sv] by (simp add: w')
  show "or_state r = Created \<Longrightarrow> \<not> has (or_client_order_id r) (w_store w)"
    using save_refuses [OF assms(2), of r "rl_fencing_token (de_lease d)" u] sv by auto
qed

lemma only_world:
  assumes "store_only good has m" "m w = (r, w')"
  shows "w_venues w' = w_venues w" "good (w_store w) \<Longrightarrow> good (w_store w')"
    "good (w_store w) \<Longrightarrow> has c (w_store w) \<Longrightarrow> has c (w_store w')"
  using assms unfolding store_only_def by (metis snd_conv)+

lemma started_only:
  assumes "de_store d = ops"
  shows "store_only good has (dispatch_started simple new_id d i ad)"
  unfolding dispatch_started_def Let_def by (intro only_intros store_only_give assms)

lemma prepare_only:
  assumes "de_store d = ops"
  shows "store_only good has (dispatch_prepare simple new_id d i)"
  unfolding dispatch_prepare_def find_adapter_def by (intro only_intros store_only_give started_only assms)

lemma result_only:
  assumes "de_store d = ops"
  shows "store_only good has (dispatch_result d record res)"
  by (cases res)
    (simp_all add: dispatch_result_def dispatch_acknowledged_def dispatch_failed_def only_intros assms)

text \<open>Preparing a dispatch makes the client id durable, and it was not before.\<close>

lemma prepare_durable:
  assumes "de_store d = ops" "good (w_store w)" "dispatch_prepare simple new_id d i w = (Ok p, w')"
  shows "\<not> has (client_order_id simple i) (w_store w)" "has (client_order_id simple i) (w_store w')"
proof -
  let ?r = "from_intent simple new_id i"
  from assms(3) obtain u u' w1 w2 ad where c: "check_lease d w = (Ok u, w1)"
    and s: "save_order d ?r w1 = (Ok u', w2)" and f: "dispatch_started simple new_id d i ad w2 = (Ok p, w')"
    by (auto simp: dispatch_prepare_def bind_eq_Ok find_adapter_def)
  note w1 = only_world [OF check_lease_only [OF assms(1)] c]
  have fresh: "or_state ?r = Created" "or_client_order_id ?r = client_order_id simple i" by (simp_all add: from_intent_def)
  note sv = save_order_world [OF assms(1) w1(2) [OF assms(2)] s, unfolded fresh]
  show "\<not> has (client_order_id simple i) (w_store w)" using sv(2) w1(3) [OF assms(2)] by blast
  have "good (w_store w2)" using only_world(2) [OF save_order_only [OF assms(1)] s] w1(2) assms(2) by blast
  then show "has (client_order_id simple i) (w_store w')"
    using only_world(3) [OF started_only [OF assms(1)] f] sv(1) by blast
qed

text \<open>Dispatch calls the venue's submit at most once and touches it in no other way.\<close>

lemma dispatch_touch:
  assumes "de_store d = ops" "dispatch simple new_id d i w = (r, w')"
  shows "(\<forall>p. fst (dispatch_prepare simple new_id d i w) \<noteq> Ok p) \<and> (\<forall>x. r \<noteq> Ok x) \<and> w_venues w' = w_venues w
    \<or> (\<exists>ad record w1. dispatch_prepare simple new_id d i w = (Ok (ad, record), w1) \<and> w_venues w1 = w_venues w
         \<and> w_venues w' = snd (ad_submit ad i (w_venues w))
         \<and> (good (w_store w) \<longrightarrow> has (client_order_id simple i) (w_store w')))"
proof -
  obtain pr w1 where p: "dispatch_prepare simple new_id d i w = (pr, w1)" by (cases "dispatch_prepare simple new_id d i w")
  have v1: "w_venues w1 = w_venues w" by (rule only_world(1) [OF prepare_only [OF assms(1)] p])
  show ?thesis
  proof (cases pr)
    case (Ok x)
    obtain ad rec where x: "x = (ad, rec)" by (cases x)
    obtain res a where sub: "ad_submit ad i (w_venues w1) = (res, a)" by (cases "ad_submit ad i (w_venues w1)")
    have r: "dispatch_result d rec res (w1\<lparr>w_venues := a\<rparr>) = (r, w')"
      using assms(2) p Ok x sub by (simp add: dispatch_def bind_def on_venue_def)
    note only = only_world [OF result_only [OF assms(1)] r]
    have "has (client_order_id simple i) (w_store w')" if "good (w_store w)"
      using only(3) prepare_durable(2) [OF assms(1) that p [unfolded Ok]]
        only_world(2) [OF prepare_only [OF assms(1)] p that] by simp
    then show ?thesis using p Ok x v1 sub only(1) by auto
  qed (use assms(2) p v1 in \<open>auto simp: dispatch_def bind_def\<close>)
qed

lemma dispatch_good:
  assumes "de_store d = ops" "good (w_store w)" "dispatch simple new_id d i w = (r, w')"
  shows "good (w_store w')"
proof -
  obtain pr w1 where p: "dispatch_prepare simple new_id d i w = (pr, w1)" by (cases "dispatch_prepare simple new_id d i w")
  have g1: "good (w_store w1)" by (rule only_world(2) [OF prepare_only [OF assms(1)] p assms(2)])
  show ?thesis
  proof (cases pr)
    case (Ok x)
    obtain ad rec where x: "x = (ad, rec)" by (cases x)
    obtain res a where sub: "ad_submit ad i (w_venues w1) = (res, a)" by (cases "ad_submit ad i (w_venues w1)")
    have "dispatch_result d rec res (w1\<lparr>w_venues := a\<rparr>) = (r, w')"
      using assms(3) p Ok x sub by (simp add: dispatch_def bind_def on_venue_def)
    from only_world(2) [OF result_only [OF assms(1)] this] g1 show ?thesis by simp
  qed (use assms(3) p g1 in \<open>auto simp: dispatch_def bind_def\<close>)
qed

text \<open>Once a client id is durable, no dispatch of it gets as far as the venue.\<close>

lemma dispatch_refused:
  assumes "de_store d = ops" "good (w_store w)" "has (client_order_id simple i) (w_store w)"
    and "dispatch simple new_id d i w = (r, w')"
  shows "(\<forall>p. fst (dispatch_prepare simple new_id d i w) \<noteq> Ok p) \<and> (\<forall>x. r \<noteq> Ok x) \<and> w_venues w' = w_venues w"
  using dispatch_touch [OF assms(1,4)] prepare_durable(1) [OF assms(1,2)] assms(3) by blast

end

section \<open>The Postgres store provides it\<close>

abbreviation pg_good :: "pg_state \<Rightarrow> bool" where
  "pg_good st \<equiv> db_inv (pg_db st)"

abbreviation pg_has :: "string \<Rightarrow> pg_state \<Rightarrow> bool" where
  "pg_has cid st \<equiv> om_get cid (db_orders (pg_db st)) \<noteq> None"

lemma evolves_has: "evolves a b \<Longrightarrow> om_get cid (db_orders a) \<noteq> None \<Longrightarrow> om_get cid (db_orders b) \<noteq> None"
  unfolding evolves_def table_le_def by blast

lemma pg_call_keeps:
  assumes "\<And>en db. keeps db (snd (f en db))"
  shows "keeps (pg_db st) (pg_db (snd (pg_call ar sr f st)))"
proof -
  let ?db = "db_run ar (sr_others sr (pg_calls st)) (pg_db st)"
  have "keeps (pg_db st) (snd (f (sr_envs sr (pg_calls st)) ?db))" by (rule keeps_trans [OF keeps_run assms])
  then show ?thesis by (simp add: pg_call_def case_prod_unfold)
qed

lemma pg_call_stable:
  assumes "\<And>en db. keeps db (snd (f en db))"
  shows "stable_call pg_good pg_has (pg_call ar sr f)"
  unfolding stable_call_def
  using pg_call_keeps [where f = f, OF assms] evolves_has unfolding keeps_def by blast

lemma read_keeps: "keeps db (snd (execute en dberr (\<lambda>db. (r db, db)) db))"
  by (rule keeps_execute) simp

lemma keeps_calls:
  "keeps db (snd (assert_lease en l db))" "keeps db (snd (append_event en stream ty payload token db))"
  "keeps db (snd (save_order_record en r token db))" "keeps db (snd (load_orders_for_venue en v db))"
  "keeps db (snd (load_position_states en v db))" "keeps db (snd (save_position_state en p token db))"
  "keeps db (snd (save_reconcile_report en v rep token db))"
  by (simp_all add: assert_lease_def append_event_def save_order_record_def load_orders_for_venue_def
      load_position_states_def save_position_state_def save_reconcile_report_def read_keeps
      keeps_execute keeps_insert_event keeps_save_order keeps_save_position keeps_reconcile)

lemma pg_call_Ok:
  "pg_call ar sr f st = (Ok x, st') \<longleftrightarrow>
     f (sr_envs sr (pg_calls st)) (db_run ar (sr_others sr (pg_calls st)) (pg_db st)) = (Ok x, pg_db st')
     \<and> pg_calls st' = Suc (pg_calls st)"
  by (cases st') (auto simp: pg_call_def map_error_eq_Ok split: prod.splits)

interpretation pg: durable_store "postgres_ops ar sr" pg_good pg_has for ar sr
proof (unfold_locales, unfold postgres_ops_def store_ops.simps)
  show "om_get (or_client_order_id r) (db_orders (pg_db s')) \<noteq> None"
    if "db_inv (pg_db s)" "pg_call ar sr (\<lambda>en. save_order_record en r token) s = (Ok u, s')" for s r token u s'
  proof -
    let ?db = "db_run ar (sr_others sr (pg_calls s)) (pg_db s)"
    have "db_inv ?db" using keeps_run [of "pg_db s" ar "sr_others sr (pg_calls s)"] that(1) by (simp add: keeps_def)
    then show ?thesis using that(2) save_order_get [of "sr_envs sr (pg_calls s)" r token ?db "pg_db s'"]
      by (simp add: pg_call_Ok)
  qed
  show "fst (pg_call ar sr (\<lambda>en. save_order_record en r token) s) \<noteq> Ok u"
    if "db_inv (pg_db s)" "om_get (or_client_order_id r) (db_orders (pg_db s)) \<noteq> None" "or_state r = Created" for s r token u
  proof -
    let ?db = "db_run ar (sr_others sr (pg_calls s)) (pg_db s)"
    have "evolves (pg_db s) ?db" using keeps_run [of "pg_db s" ar "sr_others sr (pg_calls s)"] that(1) by (simp add: keeps_def)
    then have "\<exists>row. om_get (or_client_order_id r) (db_orders ?db) = Some row" using that(2) evolves_has by blast
    then obtain row where "om_get (or_client_order_id r) (db_orders ?db) = Some row" by blast
    then show ?thesis using save_order_refused [of r ?db row token] that(3)
      by (auto simp: pg_call_def map_error_eq_Ok split: prod.splits) (metis fst_conv)
  qed
qed (rule pg_call_stable, rule keeps_calls)+

text \<open>
  C15. An order reaches the venue at most once. If a dispatch got as far as submitting an intent,
  then after any further writes of any process, no dispatch of an intent with the same client order
  id, by this or a restarted instance under any lease, submits anything: it fails before the venue is
  touched. This holds with other processes writing between every two store calls and with connections
  failing before or after any statement.
\<close>

theorem dispatch_at_most_once:
  assumes "db_inv (pg_db (w_store w))" "de_store d = postgres_ops ar sr"
    and "fst (dispatch_prepare simple id1 d i w) = Ok p" "dispatch simple id1 d i w = (r1, w1)"
    and "pg_db (w_store w2) = db_run ar ops (pg_db (w_store w1))"
    and "de_store d' = postgres_ops ar sr'" "client_order_id simple j = client_order_id simple i"
    and "dispatch simple id2 d' j w2 = (r2, w3)"
  shows "w_venues w3 = w_venues w2 \<and> (\<forall>x. r2 \<noteq> Ok x) \<and> (\<forall>q. fst (dispatch_prepare simple id2 d' j w2) \<noteq> Ok q)"
proof -
  have has1: "pg_has (client_order_id simple i) (w_store w1)"
    using pg.dispatch_touch [OF assms(2,4)] assms(1,3) by auto
  have good1: "pg_good (w_store w1)" by (rule pg.dispatch_good [OF assms(2) assms(1) assms(4)])
  have "keeps (pg_db (w_store w1)) (pg_db (w_store w2))" unfolding assms(5) by (rule keeps_run)
  then have "pg_good (w_store w2)" "pg_has (client_order_id simple j) (w_store w2)"
    using good1 has1 evolves_has assms(7) by (auto simp: keeps_def)
  from pg.dispatch_refused [OF assms(6) this assms(8)] show ?thesis by blast
qed

subsection \<open>A worked instance\<close>

definition demo_sr :: surroundings where
  "demo_sr = \<lparr>sr_envs = (\<lambda>n. (demo_env (int n))\<lparr>env_ids := (\<lambda>k. of_nat (n + k))\<rparr>), sr_others = (\<lambda>_. [])\<rparr>"

definition demo_execution :: "(pg_state, shadow_adapter) durable_execution" where
  "demo_execution = \<lparr>de_store = postgres_ops bounded_ops demo_sr, de_lease = demo_lease,
     de_adapters = [(Hyperliquid, shadow_ops bounded_ops uuid_hex)]\<rparr>"

definition demo_world :: "(pg_state, shadow_adapter) world" where
  "demo_world = \<lparr>w_store = \<lparr>pg_calls = 0, pg_db = demo_leased_db\<rparr>,
     w_venues = new_shadow (new_shadow_config Hyperliquid)\<rparr>"

lemma demo_leased_inv: "db_inv demo_leased_db"
  by (simp add: db_inv_def demo_leased_db_def empty_db_def om_sorted_def om_get_def journal_ok_def bigint_max_def)

lemma demo_prepare: "\<exists>p. fst (dispatch_prepare uuid_hex 9 demo_execution demo_intent demo_world) = Ok p"
  by (simp add: dispatch_prepare_def dispatch_started_def bind_def check_lease_def save_order_def emit_def find_adapter_def
      on_store_def demo_execution_def demo_world_def postgres_ops_def pg_call_def demo_sr_def demo_env_def
      assert_lease_def execute_def lease_valid_def demo_leased_db_def empty_db_def demo_lease_def give_def
      registry_get_def om_get_def demo_intent_def Let_def save_order_record_def save_order_stmt_def append_event_def
      insert_event_def from_intent_def apply_event_def last_sequence_def bigint_max_def order_row_of_def)

theorem dispatch_at_most_once_witness:
  "\<exists>p r1 w1 r2. fst (dispatch_prepare uuid_hex 9 demo_execution demo_intent demo_world) = Ok p
     \<and> dispatch uuid_hex 9 demo_execution demo_intent demo_world = (r1, w1)
     \<and> fst (dispatch uuid_hex 10 demo_execution demo_intent w1) = r2 \<and> (\<forall>x. r2 \<noteq> Ok x)
     \<and> w_venues (snd (dispatch uuid_hex 10 demo_execution demo_intent w1)) = w_venues w1"
proof -
  obtain p where p: "fst (dispatch_prepare uuid_hex 9 demo_execution demo_intent demo_world) = Ok p"
    using demo_prepare by blast
  obtain r1 w1 where d1: "dispatch uuid_hex 9 demo_execution demo_intent demo_world = (r1, w1)"
    by (cases "dispatch uuid_hex 9 demo_execution demo_intent demo_world")
  obtain r2 w2 where d2: "dispatch uuid_hex 10 demo_execution demo_intent w1 = (r2, w2)"
    by (cases "dispatch uuid_hex 10 demo_execution demo_intent w1")
  have inv: "db_inv (pg_db (w_store demo_world))" by (simp add: demo_world_def demo_leased_inv)
  have st: "de_store demo_execution = postgres_ops bounded_ops demo_sr" by (simp add: demo_execution_def)
  have "pg_db (w_store w1) = db_run bounded_ops [] (pg_db (w_store w1))" by simp
  from dispatch_at_most_once [OF inv st p d1 this st refl d2] p d1 d2 show ?thesis by auto
qed

section \<open>Dispatch on the Postgres store\<close>

abbreviation db_of :: "(pg_state, 'a) world \<Rightarrow> db" where
  "db_of w \<equiv> pg_db (w_store w)"

definition stored_order :: "string \<Rightarrow> (pg_state, 'a) world \<Rightarrow> order_record option" where
  "stored_order cid w = map_option ow_state (om_get cid (db_orders (db_of w)))"

definition journaled :: "runtime_lease \<Rightarrow> string \<Rightarrow> string \<Rightarrow> jobject \<Rightarrow> db \<Rightarrow> bool" where
  "journaled l stream ty payload db \<longleftrightarrow> (\<exists>j\<in>set (db_journal db). jr_stream_id j = stream \<and> jr_event_type j = ty
     \<and> jr_payload j = payload \<and> jr_fencing_token j = rl_fencing_token l)"

lemma on_store_pg_Ok:
  assumes "on_store (pg_call ar sr f) w = (Ok x, w')"
  obtains en where "f en (db_run ar (sr_others sr (pg_calls (w_store w))) (db_of w)) = (Ok x, db_of w')" "w_venues w' = w_venues w"
  using assms that by (fastforce simp: on_store_def map_error_eq_Ok pg_call_Ok split: prod.splits)

lemma on_store_pg_keeps:
  assumes "\<And>en db. keeps db (snd (f en db))" "on_store (pg_call ar sr f) w = (r, w')"
  shows "keeps (db_of w) (db_of w')"
  using pg_call_keeps [where f = f and st = "w_store w" and ar = ar and sr = sr, OF assms(1)] assms(2)
  by (auto simp: on_store_def split: prod.splits)

lemma postgres_sel:
  "so_assert_lease (postgres_ops ar sr) l = pg_call ar sr (\<lambda>en. assert_lease en l)"
  "so_append_event (postgres_ops ar sr) stream ty payload token = pg_call ar sr (\<lambda>en. append_event en stream ty payload token)"
  "so_save_order_record (postgres_ops ar sr) r token = pg_call ar sr (\<lambda>en. save_order_record en r token)"
  "so_load_orders_for_venue (postgres_ops ar sr) v = pg_call ar sr (\<lambda>en. load_orders_for_venue en v)"
  "so_load_position_states (postgres_ops ar sr) v = pg_call ar sr (\<lambda>en. load_position_states en v)"
  "so_save_position_state (postgres_ops ar sr) p token = pg_call ar sr (\<lambda>en. save_position_state en p token)"
  "so_save_reconcile_report (postgres_ops ar sr) v rep token = pg_call ar sr (\<lambda>en. save_reconcile_report en v rep token)"
  by (simp_all add: postgres_ops_def)

lemma call_keeps:
  assumes "de_store d = postgres_ops ar sr"
  shows "check_lease d w = (r1, w') \<Longrightarrow> keeps (db_of w) (db_of w')"
    "save_order d rec w = (r1, w') \<Longrightarrow> keeps (db_of w) (db_of w')"
    "emit d stream ty payload w = (r3, w') \<Longrightarrow> keeps (db_of w) (db_of w')"
  unfolding check_lease_def save_order_def emit_def assms postgres_sel
  by (erule on_store_pg_keeps [rotated], rule keeps_calls)+

lemma db_inv_run: "db_inv db \<Longrightarrow> db_inv (db_run ar ops db)"
  using keeps_run [of db ar ops] by (simp add: keeps_def)

lemma save_order_pg:
  assumes "de_store d = postgres_ops ar sr" "db_inv (db_of w)" "save_order d r w = (Ok u, w')"
  shows "\<exists>row. om_get (or_client_order_id r) (db_orders (db_of w')) = Some row \<and> ow_state row = r
    \<and> ow_fencing_token row = rl_fencing_token (de_lease d)"
proof -
  from assms(3) obtain en where "save_order_record en r (rl_fencing_token (de_lease d))
      (db_run ar (sr_others sr (pg_calls (w_store w))) (db_of w)) = (Ok (), db_of w')"
    unfolding save_order_def assms(1) postgres_sel by (rule on_store_pg_Ok) simp
  from save_order_get [OF this db_inv_run [OF assms(2)], of "or_client_order_id r"] show ?thesis
    by (simp add: order_row_of_def)
qed

lemma emit_pg:
  assumes "de_store d = postgres_ops ar sr" "emit d stream ty payload w = (Ok u, w')"
  shows "journaled (de_lease d) stream ty payload (db_of w')"
proof -
  from assms(2) obtain en where "append_event en stream ty payload (rl_fencing_token (de_lease d))
      (db_run ar (sr_others sr (pg_calls (w_store w))) (db_of w)) = (Ok u, db_of w')"
    unfolding emit_def assms(1) postgres_sel by (rule on_store_pg_Ok) simp
  then show ?thesis
    unfolding append_event_def execute_eq_Ok journaled_def by (elim conjE insert_event_Ok) (auto intro: bexI)
qed

lemma check_lease_pg:
  assumes "de_store d = postgres_ops ar sr" "check_lease d w = (Ok u, w')"
  shows "\<exists>now. lease_valid now (de_lease d) (db_of w')"
proof -
  from assms(2) obtain en where "assert_lease en (de_lease d)
      (db_run ar (sr_others sr (pg_calls (w_store w))) (db_of w)) = (Ok u, db_of w')"
    unfolding check_lease_def assms(1) postgres_sel by (rule on_store_pg_Ok) simp
  then show ?thesis by (auto simp: assert_lease_def execute_eq_Ok split: if_splits)
qed

lemma journaled_evolves: "evolves a b \<Longrightarrow> journaled l stream ty payload a \<Longrightarrow> journaled l stream ty payload b"
  by (auto simp: evolves_def journaled_def appended_def)

lemma row_evolves:
  "evolves a b \<Longrightarrow> om_get cid (db_orders a) = Some row \<Longrightarrow> \<exists>row'. om_get cid (db_orders b) = Some row' \<and> order_row_le row row'"
  unfolding evolves_def table_le_def by blast

lemma prepare_pg:
  assumes d: "de_store d = postgres_ops ar sr" and inv: "db_inv (db_of w)"
    and p: "dispatch_prepare simple new_id d i w = (Ok (ad, rec), w')"
  shows "registry_get (oi_venue i) (de_adapters d) = Some ad
    \<and> rec = (from_intent simple new_id i)\<lparr>or_state := PendingSubmit\<rparr>
    \<and> db_inv (db_of w') \<and> w_venues w' = w_venues w
    \<and> (\<exists>now. lease_valid now (de_lease d) (db_of w'))
    \<and> (\<exists>row. om_get (client_order_id simple i) (db_orders (db_of w')) = Some row
         \<and> or_state (ow_state row) \<noteq> Created \<and> rl_fencing_token (de_lease d) \<le> ow_fencing_token row)
    \<and> journaled (de_lease d) (order_stream (client_order_id simple i)) ''order.intent.persisted''
         [(''intent'', JIntent i), (''client_order_id'', JStr (client_order_id simple i))] (db_of w')
    \<and> journaled (de_lease d) (order_stream (client_order_id simple i)) ''order.dispatch.started''
         [(''client_order_id'', JStr (client_order_id simple i))] (db_of w')"
proof -
  let ?r = "from_intent simple new_id i" and ?s = "order_stream (client_order_id simple i)"
  let ?r' = "?r\<lparr>or_state := PendingSubmit\<rparr>"
  have r: "or_client_order_id ?r = client_order_id simple i" "or_client_order_id ?r' = client_order_id simple i"
    "apply_event SubmitRequested ?r = (Ok (), ?r')" by (simp_all add: from_intent_def apply_event_def)
  from p obtain u1 w1 u2 w2 u3 w3 u4 w4 u5 w5 u6 where
    c1: "check_lease d w = (Ok u1, w1)" and ad: "registry_get (oi_venue i) (de_adapters d) = Some ad"
    and s1: "save_order d ?r w1 = (Ok u2, w2)"
    and e1: "emit d ?s ''order.intent.persisted'' [(''intent'', JIntent i), (''client_order_id'', JStr (client_order_id simple i))] w2 = (Ok u3, w3)"
    and s2: "save_order d ?r' w3 = (Ok u4, w4)"
    and e2: "emit d ?s ''order.dispatch.started'' [(''client_order_id'', JStr (client_order_id simple i))] w4 = (Ok u5, w5)"
    and c2: "check_lease d w5 = (Ok u6, w')" and rec: "rec = ?r'"
    by (auto simp: dispatch_prepare_def dispatch_started_def Let_def bind_eq_Ok find_adapter_def ok_or_eq_Ok r)
  note k = call_keeps [OF d]
  have inv3: "db_inv (db_of w3)" using inv k(1) [OF c1] k(2) [OF s1] k(3) [OF e1] by (simp add: keeps_def)
  have k4: "keeps (db_of w4) (db_of w')" using k(3) [OF e2] k(1) [OF c2] by (blast intro: keeps_trans)
  have k3: "keeps (db_of w3) (db_of w')" using k(2) [OF s2] k4 by (blast intro: keeps_trans)
  have inv4: "db_inv (db_of w4)" using inv3 k(2) [OF s2] by (simp add: keeps_def)
  have inv5: "db_inv (db_of w5)" using inv4 k(3) [OF e2] by (simp add: keeps_def)
  have ev: "evolves (db_of w3) (db_of w')" "evolves (db_of w4) (db_of w')" "evolves (db_of w5) (db_of w')"
    using k3 inv3 k4 inv4 k(1) [OF c2] inv5 by (simp_all add: keeps_def)
  from save_order_pg [OF d inv3 s2] obtain row where row: "om_get (client_order_id simple i) (db_orders (db_of w4)) = Some row"
    "ow_state row = ?r'" "ow_fencing_token row = rl_fencing_token (de_lease d)" by (auto simp: r)
  have "\<exists>row'. om_get (client_order_id simple i) (db_orders (db_of w')) = Some row' \<and> order_row_le row row'"
    by (rule row_evolves [OF ev(2) row(1)])
  then have "\<exists>row. om_get (client_order_id simple i) (db_orders (db_of w')) = Some row
         \<and> or_state (ow_state row) \<noteq> Created \<and> rl_fencing_token (de_lease d) \<le> ow_fencing_token row"
    using row by (auto simp: order_row_le_def)
  moreover have "journaled (de_lease d) ?s ''order.intent.persisted''
         [(''intent'', JIntent i), (''client_order_id'', JStr (client_order_id simple i))] (db_of w')"
    by (rule journaled_evolves [OF ev(1) emit_pg [OF d e1]])
  moreover have "journaled (de_lease d) ?s ''order.dispatch.started''
         [(''client_order_id'', JStr (client_order_id simple i))] (db_of w')"
    by (rule journaled_evolves [OF ev(3) emit_pg [OF d e2]])
  moreover have "db_inv (db_of w')" using k(1) [OF c2] inv5 by (simp add: keeps_def)
  moreover have "w_venues w' = w_venues w" by (rule pg.only_world(1) [OF pg.prepare_only [OF d] p])
  ultimately show ?thesis using ad rec check_lease_pg [OF d c2] by blast
qed

text \<open>
  C16. Write-ahead dispatch. Dispatch either fails without touching the venue, or it submits exactly
  this intent, once, through the adapter of its venue, and at that moment the order is durable in a
  state past \<open>Created\<close> under this lease's token or a later one, the intent and the start of the
  dispatch are in the journal under this lease's token, and the lease has just been checked. Other
  processes may write at any time in between.
\<close>

theorem dispatch_write_ahead:
  assumes "de_store d = postgres_ops ar sr" "db_inv (db_of w)" "dispatch simple new_id d i w = (r, w')"
  shows "w_venues w' = w_venues w \<and> (\<forall>x. r \<noteq> Ok x) \<and> (\<forall>p. fst (dispatch_prepare simple new_id d i w) \<noteq> Ok p)
    \<or> (\<exists>ad w1 now row. registry_get (oi_venue i) (de_adapters d) = Some ad
         \<and> w_venues w' = snd (ad_submit ad i (w_venues w))
         \<and> fst (dispatch_prepare simple new_id d i w) = Ok (ad, (from_intent simple new_id i)\<lparr>or_state := PendingSubmit\<rparr>)
         \<and> snd (dispatch_prepare simple new_id d i w) = w1
         \<and> lease_valid now (de_lease d) (db_of w1)
         \<and> om_get (client_order_id simple i) (db_orders (db_of w1)) = Some row
         \<and> or_state (ow_state row) \<noteq> Created \<and> rl_fencing_token (de_lease d) \<le> ow_fencing_token row
         \<and> journaled (de_lease d) (order_stream (client_order_id simple i)) ''order.intent.persisted''
              [(''intent'', JIntent i), (''client_order_id'', JStr (client_order_id simple i))] (db_of w1)
         \<and> journaled (de_lease d) (order_stream (client_order_id simple i)) ''order.dispatch.started''
              [(''client_order_id'', JStr (client_order_id simple i))] (db_of w1))"
  using pg.dispatch_touch [OF assms(1,3)]
proof (elim disjE exE conjE)
  fix ad rec w1
  assume p: "dispatch_prepare simple new_id d i w = (Ok (ad, rec), w1)"
    and v: "w_venues w' = snd (ad_submit ad i (w_venues w))"
  show ?thesis using prepare_pg [OF assms(1,2) p] v unfolding p fst_conv snd_conv by blast
qed blast

theorem dispatch_write_ahead_witness:
  "\<exists>r w'. dispatch uuid_hex 9 demo_execution demo_intent demo_world = (r, w')
     \<and> journaled demo_lease (order_stream (client_order_id uuid_hex demo_intent)) ''order.dispatch.started''
         [(''client_order_id'', JStr (client_order_id uuid_hex demo_intent))]
         (db_of (snd (dispatch_prepare uuid_hex 9 demo_execution demo_intent demo_world)))"
proof -
  obtain r w' where d1: "dispatch uuid_hex 9 demo_execution demo_intent demo_world = (r, w')"
    by (cases "dispatch uuid_hex 9 demo_execution demo_intent demo_world")
  obtain p where p: "fst (dispatch_prepare uuid_hex 9 demo_execution demo_intent demo_world) = Ok p"
    using demo_prepare by blast
  have inv: "db_inv (db_of demo_world)" by (simp add: demo_world_def demo_leased_inv)
  have st: "de_store demo_execution = postgres_ops bounded_ops demo_sr" "de_lease demo_execution = demo_lease"
    by (simp_all add: demo_execution_def)
  show ?thesis using dispatch_write_ahead [OF st(1) inv d1] p d1 unfolding st(2) by auto
qed

end
