(* ===== verification/Recovery.thy ===== *)
theory Recovery
  imports Durable
begin

text \<open>
  After the venue has answered: what a dispatch leaves in the store, when a venue snapshot may
  change a durable order, that recovery and reconciliation never trade, and what recovery reports.
\<close>

section \<open>Snapshots\<close>

lemma validate_snapshot_Ok:
  "validate_snapshot r v = Ok () \<longleftrightarrow>
     vo_client_order_id v = Some (or_client_order_id r) \<and> contract_ok r v
     \<and> 0 \<le> vo_filled_quantity v \<and> vo_filled_quantity v \<le> or_requested_quantity r
     \<and> vo_filled_quantity v = or_filled_quantity r \<and> vo_state v \<noteq> VUnknown
     \<and> (is_terminal r \<longrightarrow> same_terminal (or_state r) (vo_state v))
     \<and> (vo_state v = VFilled \<longrightarrow> vo_filled_quantity v = or_requested_quantity r)
     \<and> (vo_state v = VPartiallyFilled \<longrightarrow> 0 < vo_filled_quantity v \<and> vo_filled_quantity v < or_requested_quantity r)
     \<and> (or_state r = Created \<longrightarrow> vo_state v = VRejected)"
  by (auto simp: validate_snapshot_def not_less not_le)

lemma same_terminal_state: "same_terminal st v \<Longrightarrow> order_state_of v = st"
  by (cases st; cases v) simp_all

lemma same_contract_refl [simp]: "same_contract r r"
  by (simp add: same_contract_def)

lemma same_contract_trans: "same_contract a b \<Longrightarrow> same_contract b c \<Longrightarrow> same_contract a c"
  by (simp add: same_contract_def)

lemma apply_snapshot_contract: "same_contract r (apply_snapshot r v)"
  by (simp add: same_contract_def apply_snapshot_def)

lemma apply_snapshot_client [simp]: "or_client_order_id (apply_snapshot r v) = or_client_order_id r"
  by (simp add: apply_snapshot_def)

text \<open>
  C23. A venue snapshot changes a durable order only where it is safe. When validation accepts a
  snapshot, applying it keeps the order's invariant, identity, contract, owner and filled quantity,
  never leaves a terminal state, never replaces a known venue id and never yields \<open>Created\<close> or
  \<open>Unknown\<close>; and accepting the same snapshot again changes nothing.
\<close>

theorem snapshot_apply_safe:
  assumes "oms_inv r" "validate_snapshot r v = Ok ()"
  shows "oms_inv (apply_snapshot r v) \<and> same_contract r (apply_snapshot r v)
    \<and> or_owner_strategy_id (apply_snapshot r v) = or_owner_strategy_id r
    \<and> or_filled_quantity (apply_snapshot r v) = or_filled_quantity r
    \<and> (is_terminal r \<longrightarrow> or_state (apply_snapshot r v) = or_state r)
    \<and> (or_venue_order_id r \<noteq> None \<longrightarrow> or_venue_order_id (apply_snapshot r v) = or_venue_order_id r)
    \<and> or_state (apply_snapshot r v) \<notin> {Created, PendingSubmit, PendingCancel, Unknown}
    \<and> validate_snapshot (apply_snapshot r v) v = Ok ()
    \<and> apply_snapshot (apply_snapshot r v) v = apply_snapshot r v"
proof (intro conjI)
  note ok = assms(2) [unfolded validate_snapshot_Ok]
  have tm: "is_terminal r \<Longrightarrow> order_state_of (vo_state v) = or_state r" using ok same_terminal_state by blast
  have "or_filled_quantity r = or_requested_quantity r \<Longrightarrow> vo_state v = VFilled"
    using assms(1) ok tm by (cases "vo_state v") (auto simp: oms_inv_def is_terminal_def)
  then show "oms_inv (apply_snapshot r v)"
    using assms(1) ok by (cases "vo_state v") (auto simp: oms_inv_def apply_snapshot_def)
  show "or_state (apply_snapshot r v) \<notin> {Created, PendingSubmit, PendingCancel, Unknown}"
    using ok by (cases "vo_state v") (simp_all add: apply_snapshot_def)
  show "validate_snapshot (apply_snapshot r v) v = Ok ()"
    using ok by (cases "vo_state v") (auto simp: validate_snapshot_Ok apply_snapshot_def contract_ok_def is_terminal_def)
  show "is_terminal r \<longrightarrow> or_state (apply_snapshot r v) = or_state r" using tm by (simp add: apply_snapshot_def)
  show "or_venue_order_id r \<noteq> None \<longrightarrow> or_venue_order_id (apply_snapshot r v) = or_venue_order_id r"
    using ok by (auto simp: apply_snapshot_def contract_ok_def)
  show "or_filled_quantity (apply_snapshot r v) = or_filled_quantity r" using ok by (simp add: apply_snapshot_def)
qed (simp_all add: apply_snapshot_contract, simp_all add: apply_snapshot_def)

definition demo_snapshot :: venue_order_snapshot where
  "demo_snapshot = \<lparr>vo_venue_order_id = ''1'', vo_client_order_id = Some (client_order_id uuid_hex demo_intent),
     vo_asset = ''HYPE'', vo_side = Buy, vo_requested_quantity = 10, vo_filled_quantity = 0, vo_limit_price = None,
     vo_state = VCanceled\<rparr>"

theorem snapshot_apply_safe_witness:
  "oms_inv (apply_snapshot demo_open_record demo_snapshot)
   \<and> or_state (apply_snapshot demo_open_record demo_snapshot) = Canceled"
proof -
  have "oms_inv demo_open_record" by (simp add: oms_inv_def)
  moreover have "validate_snapshot demo_open_record demo_snapshot = Ok ()"
    by (simp add: validate_snapshot_Ok demo_snapshot_def contract_ok_def is_terminal_def)
  ultimately have "oms_inv (apply_snapshot demo_open_record demo_snapshot)" using snapshot_apply_safe by blast
  then show ?thesis by (simp add: apply_snapshot_def demo_snapshot_def)
qed

section \<open>What a dispatch leaves behind\<close>

definition quiet :: "surroundings \<Rightarrow> bool" where
  "quiet sr \<longleftrightarrow> (\<forall>n. sr_others sr n = [])"

definition store_failure :: "(orchestrator_error, 'x) outcome \<Rightarrow> bool" where
  "store_failure r \<longleftrightarrow> r = Panic \<or> (\<exists>e. r = Err (OrStore e))"

lemma on_store_failure: "on_store m w = (r, w') \<Longrightarrow> (\<forall>x. r \<noteq> Ok x) \<Longrightarrow> store_failure r"
  by (cases "m (w_store w)"; cases "fst (m (w_store w))") (auto simp: on_store_def store_failure_def)

lemma emit_orders:
  assumes "de_store d = postgres_ops ar sr" "quiet sr" "emit d stream ty payload w = (r, w')"
  shows "db_orders (db_of w') = db_orders (db_of w)" "db_positions (db_of w') = db_positions (db_of w)"
proof -
  have "db_orders (snd (append_event en stream ty payload token db)) = db_orders db
      \<and> db_positions (snd (append_event en stream ty payload token db)) = db_positions db" for en token db
    unfolding append_event_def
    by (rule execute_keeps [where P = "\<lambda>x. db_orders x = db_orders db \<and> db_positions x = db_positions db"])
      (simp_all add: insert_event_def Let_def)
  then show "db_orders (db_of w') = db_orders (db_of w)" "db_positions (db_of w') = db_positions (db_of w)"
    using assms(2,3) unfolding emit_def assms(1) postgres_sel
    by (auto simp: on_store_def pg_call_def quiet_def split: prod.splits) (metis snd_conv)+
qed

lemma save_order_stored:
  assumes "de_store d = postgres_ops ar sr" "db_inv (db_of w)" "save_order d r w = (Ok u, w')"
  shows "stored_order (or_client_order_id r) w' = Some r"
  using save_order_pg [OF assms] by (auto simp: stored_order_def)

text \<open>Every branch of dispatch ends by saving the record and journaling the outcome.\<close>

lemma save_emit:
  assumes "de_store d = postgres_ops ar sr" "quiet sr" "db_inv (db_of w)"
    and "bind (save_order d rec) (\<lambda>_. bind (emit d stream ty payload) (\<lambda>_. give res)) w = (q, w')"
  shows "store_failure q \<or> q = res \<and> stored_order (or_client_order_id rec) w' = Some rec"
proof -
  obtain q1 w1 where s: "save_order d rec w = (q1, w1)" by (cases "save_order d rec w")
  show ?thesis
  proof (cases q1)
    case (Ok u)
    obtain q2 w2 where e: "emit d stream ty payload w1 = (q2, w2)" by (cases "emit d stream ty payload w1")
    have "stored_order (or_client_order_id rec) w2 = Some rec"
      using save_order_stored [OF assms(1,3) s [unfolded Ok]] emit_orders [OF assms(1,2) e] by (simp add: stored_order_def)
    moreover have "(\<forall>x. q2 \<noteq> Ok x) \<Longrightarrow> store_failure q2" using e unfolding emit_def by (rule on_store_failure)
    ultimately show ?thesis using assms(4) s e Ok
      by (cases q2) (auto simp: bind_def give_def store_failure_def)
  next
    case (Err x)
    then show ?thesis using assms(4) s on_store_failure [of _ w q1 w1] unfolding save_order_def
      by (auto simp: bind_def store_failure_def)
  next
    case Panic
    then show ?thesis using assms(4) s by (auto simp: bind_def store_failure_def)
  qed
qed

lemma dispatch_result_outcome:
  assumes d: "de_store d = postgres_ops ar sr" "quiet sr" "db_inv (db_of w)"
    and rec: "or_state rec = PendingSubmit" and res: "dispatch_result d rec res w = (q, w')"
  shows "store_failure q
    \<or> (\<exists>ack. res = Ok ack \<and> q = Ok (rec\<lparr>or_state := Open, or_venue_order_id := Some (va_venue_order_id ack)\<rparr>)
         \<and> stored_order (or_client_order_id rec) w' = Some (rec\<lparr>or_state := Open, or_venue_order_id := Some (va_venue_order_id ack)\<rparr>))
    \<or> (\<exists>e. res = Err e \<and> ambiguous_error e \<and> q = Err (Ambiguous (or_client_order_id rec) (execution_error_message e))
         \<and> stored_order (or_client_order_id rec) w' = Some (rec\<lparr>or_state := Unknown\<rparr>))
    \<or> (\<exists>e. res = Err e \<and> \<not> ambiguous_error e \<and> q = Err (OrExecution e)
         \<and> stored_order (or_client_order_id rec) w' = Some (rec\<lparr>or_state := Rejected\<rparr>))"
proof -
  note se = save_emit [OF d]
  have ev: "oms_step (apply_event LostState rec) = Ok (rec\<lparr>or_state := Unknown\<rparr>)"
    "oms_step (apply_event EvRejected rec) = Ok (rec\<lparr>or_state := Rejected\<rparr>)"
    "oms_step (accept i rec) = Ok (rec\<lparr>or_state := Open, or_venue_order_id := Some i\<rparr>)" for i
    using rec by (simp_all add: apply_event_def accept_def)
  show ?thesis
  proof (cases res)
    case (Ok ack)
    have "bind (save_order d (rec\<lparr>or_state := Open, or_venue_order_id := Some (va_venue_order_id ack)\<rparr>)) (\<lambda>_.
       bind (emit d (order_stream (or_client_order_id rec)) ''order.dispatch.acknowledged''
             [(''client_order_id'', JStr (va_client_order_id ack)), (''venue_order_id'', JStr (va_venue_order_id ack))]) (\<lambda>_.
       give (Ok (rec\<lparr>or_state := Open, or_venue_order_id := Some (va_venue_order_id ack)\<rparr>)))) w = (q, w')"
      using res by (simp add: Ok dispatch_result_def dispatch_acknowledged_def ev)
    from se [OF this] show ?thesis by (simp add: Ok)
  next
    case (Err e)
    show ?thesis
    proof (cases "ambiguous_error e")
      case True
      have "bind (save_order d (rec\<lparr>or_state := Unknown\<rparr>)) (\<lambda>_.
         bind (emit d (order_stream (or_client_order_id rec)) ''order.dispatch.unknown''
             [(''client_order_id'', JStr (or_client_order_id rec)), (''reason'', JStr (execution_error_message e))]) (\<lambda>_.
         give (Err (Ambiguous (or_client_order_id rec) (execution_error_message e))))) w = (q, w')"
        using res by (simp add: Err True dispatch_result_def dispatch_failed_def ev)
      from se [OF this] show ?thesis by (simp add: Err True)
    next
      case False
      have "bind (save_order d (rec\<lparr>or_state := Rejected\<rparr>)) (\<lambda>_.
         bind (emit d (order_stream (or_client_order_id rec)) ''order.dispatch.rejected''
             [(''client_order_id'', JStr (or_client_order_id rec)), (''reason'', JStr (execution_error_message e))]) (\<lambda>_.
         give (Err (OrExecution e)))) w = (q, w')"
        using res by (simp add: Err False dispatch_result_def dispatch_failed_def ev)
      from se [OF this] show ?thesis by (simp add: Err False)
    qed
  next
    case Panic
    then show ?thesis using res by (simp add: dispatch_result_def store_failure_def)
  qed
qed

text \<open>
  C24. The durable record tells how a dispatch ended. When nothing else writes meanwhile and the
  intent was submitted, then, unless a store call fails (also one after the venue has answered, in which
  case that answer is lost to the store), the stored record is \<open>Open\<close> with the
  acknowledged venue id and is the one returned, or it is \<open>Unknown\<close> and the caller is told the
  outcome is ambiguous because the venue's answer was lost, or it is \<open>Rejected\<close> and the caller gets
  the venue's definite error. In no case has it a fill.
\<close>

theorem dispatch_outcome_recorded:
  assumes "de_store d = postgres_ops ar sr" "quiet sr" "db_inv (db_of w)"
    and "dispatch_prepare simple new_id d i w = (Ok (ad, rec), w1)" "dispatch simple new_id d i w = (q, w')"
  shows "store_failure q \<or> (\<exists>stored. stored_order (client_order_id simple i) w' = Some stored
      \<and> or_filled_quantity stored = 0 \<and> or_requested_quantity stored = oi_quantity i
      \<and> (case fst (ad_submit ad i (w_venues w)) of
           Ok ack \<Rightarrow> q = Ok stored \<and> or_state stored = Open \<and> or_venue_order_id stored = Some (va_venue_order_id ack)
         | Err e \<Rightarrow> if ambiguous_error e
             then q = Err (Ambiguous (client_order_id simple i) (execution_error_message e)) \<and> or_state stored = Unknown
             else q = Err (OrExecution e) \<and> or_state stored = Rejected
         | Panic \<Rightarrow> False))"
proof -
  note p = prepare_pg [OF assms(1,3,4)]
  let ?r = "(from_intent simple new_id i)\<lparr>or_state := PendingSubmit\<rparr>"
  have rec: "rec = ?r" and v: "w_venues w1 = w_venues w" and inv: "db_inv (db_of w1)" using p by blast+
  have r: "or_state ?r = PendingSubmit" "or_client_order_id ?r = client_order_id simple i" "or_filled_quantity ?r = 0"
    "or_requested_quantity ?r = oi_quantity i" by (simp_all add: from_intent_def)
  obtain res a where sub: "ad_submit ad i (w_venues w) = (res, a)" by (cases "ad_submit ad i (w_venues w)")
  have "dispatch_result d ?r res (w1\<lparr>w_venues := a\<rparr>) = (q, w')"
    using assms(4,5) sub v rec by (simp add: dispatch_def bind_def on_venue_def)
  from dispatch_result_outcome [OF assms(1,2) _ r(1) this] inv
  have "store_failure q
    \<or> (\<exists>ack. res = Ok ack \<and> q = Ok (?r\<lparr>or_state := Open, or_venue_order_id := Some (va_venue_order_id ack)\<rparr>)
         \<and> stored_order (client_order_id simple i) w' = Some (?r\<lparr>or_state := Open, or_venue_order_id := Some (va_venue_order_id ack)\<rparr>))
    \<or> (\<exists>e. res = Err e \<and> ambiguous_error e \<and> q = Err (Ambiguous (client_order_id simple i) (execution_error_message e))
         \<and> stored_order (client_order_id simple i) w' = Some (?r\<lparr>or_state := Unknown\<rparr>))
    \<or> (\<exists>e. res = Err e \<and> \<not> ambiguous_error e \<and> q = Err (OrExecution e)
         \<and> stored_order (client_order_id simple i) w' = Some (?r\<lparr>or_state := Rejected\<rparr>))"
    unfolding r(2) by simp
  then show ?thesis unfolding sub fst_conv using r(3,4)
    by (elim disjE exE conjE) simp_all
qed

lemma demo_dispatch: "\<exists>r. fst (dispatch uuid_hex 9 demo_execution demo_intent demo_world) = Ok r"
  by (simp add: dispatch_def dispatch_result_def dispatch_acknowledged_def accept_def on_venue_def
      dispatch_prepare_def dispatch_started_def bind_def check_lease_def save_order_def emit_def find_adapter_def
      on_store_def demo_execution_def demo_world_def postgres_ops_def pg_call_def demo_sr_def demo_env_def
      assert_lease_def execute_def lease_valid_def demo_leased_db_def empty_db_def demo_lease_def give_def
      registry_get_def demo_intent_def save_order_record_def save_order_stmt_def append_event_def
      insert_event_def from_intent_def apply_event_def last_sequence_def bigint_max_def order_row_of_def shadow_ops_def shadow_eval)

theorem dispatch_outcome_recorded_witness:
  "\<exists>stored. fst (dispatch uuid_hex 9 demo_execution demo_intent demo_world) = Ok stored
     \<and> stored_order (client_order_id uuid_hex demo_intent) (snd (dispatch uuid_hex 9 demo_execution demo_intent demo_world)) = Some stored
     \<and> or_state stored = Open"
proof -
  obtain q w' where d: "dispatch uuid_hex 9 demo_execution demo_intent demo_world = (q, w')"
    by (cases "dispatch uuid_hex 9 demo_execution demo_intent demo_world")
  obtain r where r: "q = Ok r" using demo_dispatch d by auto
  obtain ad rec w1 where p: "dispatch_prepare uuid_hex 9 demo_execution demo_intent demo_world = (Ok (ad, rec), w1)"
    using demo_prepare by (metis prod.exhaust fst_conv)
  have inv: "db_inv (db_of demo_world)" by (simp add: demo_world_def demo_leased_inv)
  have st: "de_store demo_execution = postgres_ops bounded_ops demo_sr" "quiet demo_sr"
    by (simp_all add: demo_execution_def quiet_def demo_sr_def)
  from dispatch_outcome_recorded [OF st inv p d] r d show ?thesis
    by (cases "fst (ad_submit ad demo_intent (w_venues demo_world))") (auto simp: store_failure_def split: if_splits)
qed

section \<open>Recovery and reconciliation never trade\<close>

text \<open>The registry with every adapter's trading operations replaced.\<close>

definition trading_replaced ::
  "(order_intent \<Rightarrow> (venue_order_ack, 'a) call) \<Rightarrow> (order_locator \<Rightarrow> (unit, 'a) call) \<Rightarrow> ('s, 'a) durable_execution \<Rightarrow> ('s, 'a) durable_execution" where
  "trading_replaced submit cancel d =
     d\<lparr>de_adapters := map (\<lambda>(v, ad). (v, ad\<lparr>ad_submit := submit, ad_cancel := cancel\<rparr>)) (de_adapters d)\<rparr>"

lemma registry_replaced:
  "registry_get v (de_adapters (trading_replaced submit cancel d)) =
     map_option (\<lambda>ad. ad\<lparr>ad_submit := submit, ad_cancel := cancel\<rparr>) (registry_get v (de_adapters d))"
proof -
  have "map_of (map (\<lambda>(v, ad). (v, ad\<lparr>ad_submit := submit, ad_cancel := cancel\<rparr>)) m) v =
      map_option (\<lambda>ad. ad\<lparr>ad_submit := submit, ad_cancel := cancel\<rparr>) (map_of m v)" for m
    by (induction m) auto
  then show ?thesis by (simp add: registry_get_def om_get_def trading_replaced_def)
qed

lemma replaced_calls:
  "check_lease (trading_replaced submit cancel d) = check_lease d"
  "save_order (trading_replaced submit cancel d) = save_order d"
  "emit (trading_replaced submit cancel d) = emit d"
  "de_store (trading_replaced submit cancel d) = de_store d" "de_lease (trading_replaced submit cancel d) = de_lease d"
  by (simp_all add: fun_eq_iff check_lease_def save_order_def emit_def trading_replaced_def)

lemma replaced_snapshot: "checked_snapshot (trading_replaced submit cancel d) = checked_snapshot d"
  by (simp add: fun_eq_iff checked_snapshot_def replaced_calls split: outcome.split)

lemma replaced_recover_all:
  "recover_all (trading_replaced submit cancel d) (ad\<lparr>ad_submit := submit, ad_cancel := cancel\<rparr>) rs = recover_all d ad rs"
proof -
  have "recover_one (trading_replaced submit cancel d) (ad\<lparr>ad_submit := submit, ad_cancel := cancel\<rparr>) = recover_one d ad"
    by (simp add: fun_eq_iff recover_one_def replaced_calls replaced_snapshot cong: option.case_cong)
  then show ?thesis by (induction rs) simp_all
qed

lemma replaced_complete:
  "complete_venue_orders (ad\<lparr>ad_submit := submit, ad_cancel := cancel\<rparr>) rs vs = complete_venue_orders ad rs vs"
  by (induction rs arbitrary: vs) simp_all

lemma replaced_apply: "apply_venue_orders (trading_replaced submit cancel d) vs rs = apply_venue_orders d vs rs"
  by (induction rs) (simp_all add: replaced_calls split: option.split)

lemma replaced_positions: "save_positions (trading_replaced submit cancel d) ps = save_positions d ps"
  by (induction ps) (simp_all add: replaced_calls)

lemma replaced_commit: "reconcile_commit (trading_replaced submit cancel d) = reconcile_commit d"
  by (simp add: fun_eq_iff reconcile_commit_def replaced_calls replaced_apply replaced_positions)

lemma find_adapter_replaced:
  "bind (find_adapter (trading_replaced submit cancel d) v) f =
     bind (find_adapter d v) (\<lambda>ad. f (ad\<lparr>ad_submit := submit, ad_cancel := cancel\<rparr>))"
  by (cases "registry_get v (de_adapters d)") (simp_all add: find_adapter_def registry_replaced)

text \<open>
  Recovery and reconciliation never submit or cancel anything. Whatever the adapters' submit and
  cancel operations would do, replacing them by any others changes neither the result of recovering
  ambiguous orders or of a reconciliation cycle nor the world it leaves.
\<close>

theorem recovery_never_trades:
  shows "recover_ambiguous (trading_replaced submit cancel d) v w = recover_ambiguous d v w
    \<and> reconcile_once ar (trading_replaced submit cancel d) v w = reconcile_once ar d v w"
proof
  show "recover_ambiguous (trading_replaced submit cancel d) v w = recover_ambiguous d v w"
    by (simp add: recover_ambiguous_def replaced_calls find_adapter_replaced replaced_recover_all)
  have "reconcile_observe ar (trading_replaced submit cancel d) v = reconcile_observe ar d v"
    by (simp add: reconcile_observe_def replaced_calls find_adapter_replaced replaced_complete)
  then show "reconcile_once ar (trading_replaced submit cancel d) v w = reconcile_once ar d v w"
    by (simp add: reconcile_once_def replaced_calls replaced_commit)
qed

section \<open>What recovery reports\<close>

lemma recover_one_Ok:
  assumes "recover_one d ad r w = (Ok item, w')"
  shows "\<exists>r' b. item = recovery_item_of r' b \<and> same_contract r r' \<and> or_filled_quantity r' = or_filled_quantity r
    \<and> (if b then or_state r' \<notin> {Created, PendingSubmit, PendingCancel, Unknown} else or_state r' = Unknown)"
proof -
  from assms obtain remote w1 r' b w2 where
    c: "(case remote of
              Some snapshot \<Rightarrow>
                bind (checked_snapshot d r snapshot (order_stream (or_client_order_id r))) (\<lambda>record.
                bind (emit d (order_stream (or_client_order_id r)) ''order.recovery.resolved'' [(''snapshot'', JSnapshot snapshot)]) (\<lambda>_.
                give (Ok (record, True))))
            | None \<Rightarrow>
                bind (emit d (order_stream (or_client_order_id r)) ''order.recovery.unresolved''
                        [(''client_order_id'', JStr (or_client_order_id r)),
                         (''action'', JStr ''safe_hold_no_resubmit'')]) (\<lambda>_.
                give (Ok (r\<lparr>or_state := Unknown\<rparr>, False)))) w1 = (Ok (r', b), w2)"
    and item: "item = recovery_item_of r' b"
    unfolding recover_one_def Let_def bind_eq_Ok by (auto simp: bind_eq_Ok)
  show ?thesis
  proof (cases remote)
    case None
    then show ?thesis using c item by (auto simp: bind_eq_Ok same_contract_def intro!: exI [of _ r'] exI [of _ b])
  next
    case (Some v)
    then have v: "validate_snapshot r v = Ok ()" "r' = apply_snapshot r v" "b"
      using c by (auto simp: bind_eq_Ok checked_snapshot_def split: outcome.splits)
    then have "vo_state v \<noteq> VUnknown" "vo_filled_quantity v = or_filled_quantity r" by (simp_all add: validate_snapshot_Ok)
    then show ?thesis using v item apply_snapshot_contract [of r v]
      by (intro exI [of _ r'] exI [of _ b]) (cases "vo_state v"; simp add: apply_snapshot_def)
  qed
qed

lemma recover_all_Ok:
  "recover_all d ad rs w = (Ok items, w') \<Longrightarrow>
     list_all2 (\<lambda>r item. ri_client_order_id item = or_client_order_id r \<and> ri_asset item = or_asset r
       \<and> ri_filled_quantity item = or_filled_quantity r
       \<and> (if ri_resolved item then ri_state item \<notin> {Created, PendingSubmit, PendingCancel, Unknown} else ri_state item = Unknown)) rs items"
proof (induction rs arbitrary: items w)
  case (Cons r rs)
  then obtain item w1 rest where one: "recover_one d ad r w = (Ok item, w1)"
    and rest: "recover_all d ad rs w1 = (Ok rest, w')" "items = item # rest" by (auto simp: bind_eq_Ok)
  from recover_one_Ok [OF one] obtain r' b where "item = recovery_item_of r' b" "same_contract r r'"
    "or_filled_quantity r' = or_filled_quantity r"
    "if b then or_state r' \<notin> {Created, PendingSubmit, PendingCancel, Unknown} else or_state r' = Unknown" by blast
  then have "ri_client_order_id item = or_client_order_id r \<and> ri_asset item = or_asset r
    \<and> ri_filled_quantity item = or_filled_quantity r
    \<and> (if ri_resolved item then ri_state item \<notin> {Created, PendingSubmit, PendingCancel, Unknown} else ri_state item = Unknown)"
    by (cases b) (simp_all add: recovery_item_of_def same_contract_def)
  then show ?case using Cons.IH [OF rest(1)] unfolding rest(2) list_all2_Cons by (rule conjI)
qed simp

text \<open>
  Recovery accounts for every ambiguous order and invents nothing. A successful recovery reports
  exactly the venue's stored orders in \<open>PendingSubmit\<close> or \<open>Unknown\<close>, one item each and in order; every
  item carries the order's own filled quantity; a resolved item is in a definite state and an
  unresolved one is \<open>Unknown\<close>.
\<close>

theorem recovery_report_exact:
  assumes "recover_ambiguous d v w = (Ok rep, w')"
  shows "\<exists>u w1 orders w2. check_lease d w = (Ok u, w1)
    \<and> on_store (so_load_orders_for_venue (de_store d) v) w1 = (Ok orders, w2)
    \<and> rp_venue rep = Some v
    \<and> list_all2 (\<lambda>r item. ri_client_order_id item = or_client_order_id r \<and> ri_asset item = or_asset r
       \<and> ri_filled_quantity item = or_filled_quantity r
       \<and> (if ri_resolved item then ri_state item \<notin> {Created, PendingSubmit, PendingCancel, Unknown} else ri_state item = Unknown))
       (filter ambiguous_order orders) (rp_items rep)"
proof -
  from assms obtain u w1 ad orders w2 items where c: "check_lease d w = (Ok u, w1)"
    and l: "on_store (so_load_orders_for_venue (de_store d) v) w1 = (Ok orders, w2)"
    and r: "recover_all d ad (filter ambiguous_order orders) w2 = (Ok items, w')"
    and rep: "rep = \<lparr>rp_venue = Some v, rp_items = items\<rparr>"
    by (auto simp: recover_ambiguous_def bind_eq_Ok find_adapter_def)
  show ?thesis using recover_all_Ok [OF r] c l unfolding rep recovery_report.select_convs by blast
qed

text \<open>An order whose submission was lost before it reached the venue.\<close>

definition demo_lost_world :: "(pg_state, shadow_adapter) world" where
  "demo_lost_world = demo_world\<lparr>w_store := \<lparr>pg_calls = 0, pg_db = demo_leased_db\<lparr>db_orders :=
     [(client_order_id uuid_hex demo_intent, order_row_of 5 (demo_open_record\<lparr>or_state := PendingSubmit\<rparr>) 1)]\<rparr>\<rparr>\<rparr>"

lemmas demo_recover_eval = recover_ambiguous_def bind_def check_lease_def find_adapter_def on_store_def demo_execution_def
  demo_world_def demo_lost_world_def postgres_ops_def pg_call_def demo_sr_def demo_env_def assert_lease_def execute_def
  lease_valid_def demo_leased_db_def empty_db_def demo_lease_def give_def registry_get_def om_get_def
  load_orders_for_venue_def orders_of_venue_def om_values_def order_row_of_def ambiguous_order_def recover_one_def
  ask_venue_def on_venue_def lift_call_def emit_def append_event_def insert_event_def last_sequence_def bigint_max_def
  save_order_def save_order_record_def save_order_stmt_def shadow_ops_def shadow_find_def order_by_client_id_def

lemma demo_recover:
  "\<exists>item. fst (recover_ambiguous demo_execution Hyperliquid demo_lost_world) = Ok \<lparr>rp_venue = Some Hyperliquid, rp_items = [item]\<rparr>
     \<and> \<not> ri_resolved item"
  by (simp add: demo_recover_eval shadow_eval recovery_item_of_def)

theorem recovery_report_exact_witness:
  "\<exists>rep item. fst (recover_ambiguous demo_execution Hyperliquid demo_lost_world) = Ok rep \<and> rp_items rep = [item]
     \<and> ri_state item = Unknown"
proof -
  from demo_recover obtain item w' where r: "recover_ambiguous demo_execution Hyperliquid demo_lost_world =
      (Ok \<lparr>rp_venue = Some Hyperliquid, rp_items = [item]\<rparr>, w')" and u: "\<not> ri_resolved item" by (metis prod.collapse)
  from recovery_report_exact [OF r] u have "ri_state item = Unknown" by (auto simp: list_all2_Cons2)
  with r show ?thesis by simp
qed

end
