(* ===== verification/Cycle.thy ===== *)
theory Cycle
  imports Recovery
begin

text \<open>
  One reconciliation cycle on the Postgres store, and the attribution of positions. While no other process writes
  orders or positions, a cycle never changes the contract, the owner, the filled quantity or the terminal state of a
  durable order, whatever it returns and wherever it fails; and a cycle that found a contradiction saves its report and
  its journal event but no order and no position. An order that another process writes between the cycle's read and its
  save is overwritten with the state of the read (the last section gives an instance).
\<close>

section \<open>Reads and venue calls leave the store alone\<close>

lemma bind_elim:
  assumes "bind m f s = (q, s')"
  obtains (ok) x s1 where "m s = (Ok x, s1)" "f x s1 = (q, s')"
  | (fail) q1 where "m s = (q1, s')" "\<forall>x. q1 \<noteq> Ok x" "\<forall>y. q \<noteq> Ok y"
proof (cases "m s")
  case (Pair r s1)
  then show thesis using assms ok fail by (cases r) (auto simp: bind_def)
qed

text \<open>
  Other processes may write events, leases, fills, reports and audit rows between any two store calls of the cycle, but
  no order and no position.
\<close>

definition bystanders :: "dec_ops \<Rightarrow> surroundings \<Rightarrow> bool" where
  "bystanders ar sr \<longleftrightarrow> (\<forall>n db. db_orders (db_run ar (sr_others sr n) db) = db_orders db
     \<and> db_positions (db_run ar (sr_others sr n) db) = db_positions db)"

definition same_tables :: "db \<Rightarrow> db \<Rightarrow> bool" where
  "same_tables a b \<longleftrightarrow> db_orders b = db_orders a \<and> db_positions b = db_positions a \<and> (db_inv a \<longrightarrow> db_inv b)"

lemma same_tables_refl [simp]: "same_tables a a"
  by (simp add: same_tables_def)

lemma same_tables_trans: "same_tables a b \<Longrightarrow> same_tables b c \<Longrightarrow> same_tables a c"
  by (simp add: same_tables_def)

lemma orders_of_venue_same: "same_tables a b \<Longrightarrow> orders_of_venue v b = orders_of_venue v a"
  by (simp add: same_tables_def orders_of_venue_def)

lemma on_store_pg_any:
  assumes "on_store (pg_call ar sr f) w = (q, w')"
  obtains en db q0 where "db = db_run ar (sr_others sr (pg_calls (w_store w))) (db_of w)" "f en db = (q0, db_of w')"
    "\<forall>x. q = Ok x \<longrightarrow> q0 = Ok x"
proof -
  let ?db = "db_run ar (sr_others sr (pg_calls (w_store w))) (db_of w)"
  obtain q0 db' where f: "f (sr_envs sr (pg_calls (w_store w))) ?db = (q0, db')" by fastforce
  with assms have "db_of w' = db'" "\<forall>x. q = Ok x \<longrightarrow> q0 = Ok x"
    by (auto simp: on_store_def pg_call_def map_error_eq_Ok)
  then show thesis using that [OF refl] f by auto
qed

lemma bystanders_same: "bystanders ar sr \<Longrightarrow> same_tables db (db_run ar (sr_others sr n) db)"
  using keeps_run [of db ar "sr_others sr n"] by (simp add: bystanders_def same_tables_def keeps_def)

lemma on_store_pg_same:
  assumes "bystanders ar sr" "\<And>en db. same_tables db (snd (f en db))" "on_store (pg_call ar sr f) w = (q, w')"
  shows "same_tables (db_of w) (db_of w')"
  using assms(3)
proof (rule on_store_pg_any)
  fix en db q0
  assume "db = db_run ar (sr_others sr (pg_calls (w_store w))) (db_of w)" "f en db = (q0, db_of w')"
  then show ?thesis using bystanders_same [OF assms(1)] assms(2) [of db en] same_tables_trans by (metis snd_conv)
qed

lemma same_read: "same_tables db (snd (execute en dberr (\<lambda>db. (g en db, db)) db))"
  by (rule execute_keeps [where P = "same_tables db"]) simp_all

lemma same_calls:
  "same_tables db (snd (assert_lease en l db))" "same_tables db (snd (load_orders_for_venue en v db))"
  "same_tables db (snd (load_position_states en v db))" "same_tables db (snd (save_reconcile_report en v rep t db))"
  "same_tables db (snd (append_event en stream ty payload t db))"
proof -
  have "db_orders (snd (save_reconcile_report en v rep t db)) = db_orders db
      \<and> db_positions (snd (save_reconcile_report en v rep t db)) = db_positions db"
    unfolding save_reconcile_report_def
    by (rule execute_keeps [where P = "\<lambda>x. db_orders x = db_orders db \<and> db_positions x = db_positions db"])
      (simp_all add: reconcile_stmt_def)
  then show "same_tables db (snd (save_reconcile_report en v rep t db))"
    using keeps_calls(7) [of db en v rep t] by (simp add: same_tables_def keeps_def)
  have "db_orders (snd (append_event en stream ty payload t db)) = db_orders db
      \<and> db_positions (snd (append_event en stream ty payload t db)) = db_positions db"
    unfolding append_event_def
    by (rule execute_keeps [where P = "\<lambda>x. db_orders x = db_orders db \<and> db_positions x = db_positions db"])
      (simp_all add: insert_event_def Let_def)
  then show "same_tables db (snd (append_event en stream ty payload t db))"
    using keeps_calls(2) [of db en stream ty payload t] by (simp add: same_tables_def keeps_def)
qed (unfold assert_lease_def load_orders_for_venue_def load_position_states_def, (rule same_read)+)

lemma ask_venue_store: "ask_venue m w = (q, w') \<Longrightarrow> w_store w' = w_store w"
  by (auto simp: ask_venue_def lift_call_def on_venue_def split: prod.splits)

lemma complete_venue_orders_store: "complete_venue_orders ad rs vs w = (q, w') \<Longrightarrow> w_store w' = w_store w"
proof (induction rs arbitrary: vs w)
  case (Cons r rs)
  show ?case
  proof (cases "is_terminal r \<or> list_ex (names_client (or_client_order_id r)) vs")
    case True
    then show ?thesis using Cons by auto
  next
    case False
    with Cons.prems have "bind (ask_venue (ad_find_order_by_client_id ad (or_client_order_id r))) (\<lambda>remote.
        case remote of Some v \<Rightarrow> complete_venue_orders ad rs (vs @ [v]) | None \<Rightarrow> complete_venue_orders ad rs vs) w = (q, w')"
      by (simp split: if_splits)
    then show ?thesis
    proof (cases rule: bind_elim)
      case (ok remote w1)
      then show ?thesis using Cons.IH ask_venue_store [OF ok(1)] by (auto split: option.splits)
    qed (simp add: ask_venue_store)
  qed
qed simp

text \<open>Actions that leave the orders and positions as they found them; sequences of them do too.\<close>

definition untouched :: "('x, pg_state, 'a) action \<Rightarrow> bool" where
  "untouched m \<longleftrightarrow> (\<forall>w q w'. m w = (q, w') \<longrightarrow> same_tables (db_of w) (db_of w'))"

lemma bind_relates:
  assumes "\<And>w q w'. m w = (q, w') \<Longrightarrow> R (db_of w) (db_of w')" "\<And>x w q w'. f x w = (q, w') \<Longrightarrow> R (db_of w) (db_of w')"
    and trans: "\<And>a b c. R a b \<Longrightarrow> R b c \<Longrightarrow> R a c" and "bind m f w = (q, w')"
  shows "R (db_of w) (db_of w')"
  using assms(4)
proof (cases rule: bind_elim)
  case (ok x w1)
  then show ?thesis using assms(1,2) trans by blast
qed (rule assms(1))

lemma untouched_bind: "untouched m \<Longrightarrow> (\<And>x. untouched (f x)) \<Longrightarrow> untouched (bind m f)"
  unfolding untouched_def
  by (intro allI impI, rule bind_relates [of m same_tables f]) (auto intro: same_tables_trans)

lemma untouched_give: "untouched (give r)"
  by (simp add: untouched_def give_eq)

lemma untouched_venue: "untouched (ask_venue m)" "untouched (complete_venue_orders ad rs vs)"
  unfolding untouched_def using ask_venue_store complete_venue_orders_store same_tables_refl by metis+

lemma untouched_store:
  assumes "de_store d = postgres_ops ar sr" "bystanders ar sr"
  shows "untouched (check_lease d)" "untouched (on_store (so_load_orders_for_venue (de_store d) v))"
    "untouched (on_store (so_load_position_states (de_store d) v))"
    "untouched (on_store (so_save_reconcile_report (de_store d) v rep t))" "untouched (emit d stream ty payload)"
  unfolding untouched_def check_lease_def emit_def assms(1) postgres_sel
  by (intro allI impI, erule on_store_pg_same [OF assms(2), rotated], rule same_calls)+

lemma load_orders_read:
  assumes "de_store d = postgres_ops ar sr" "bystanders ar sr" "on_store (so_load_orders_for_venue (de_store d) v) w = (Ok rs, w')"
  shows "rs = orders_of_venue v (db_of w)"
  using assms(3) unfolding assms(1) postgres_sel
proof (rule on_store_pg_any)
  fix en db q0
  assume db: "db = db_run ar (sr_others sr (pg_calls (w_store w))) (db_of w)" and "load_orders_for_venue en v db = (q0, db_of w')"
    and "\<forall>x. Ok rs = Ok x \<longrightarrow> q0 = Ok x"
  then have "rs = orders_of_venue v db" by (auto simp: load_orders_for_venue_def execute_def split: fault.splits)
  then show ?thesis using orders_of_venue_same [OF bystanders_same [OF assms(2)]] db by simp
qed

lemma reconcile_observe_db:
  assumes d: "de_store d = postgres_ops ar sr" "bystanders ar sr" and ob: "reconcile_observe ar' d v w = (q, w')"
  shows "same_tables (db_of w) (db_of w') \<and> (\<forall>locals vs ps. q = Ok (locals, vs, ps) \<longrightarrow> locals = orders_of_venue v (db_of w))"
proof -
  have "untouched (reconcile_observe ar' d v)"
    unfolding reconcile_observe_def find_adapter_def
    by (intro untouched_bind untouched_give untouched_venue untouched_store [OF d])
  then have "same_tables (db_of w) (db_of w')" using ob by (simp add: untouched_def)
  moreover have "ls = orders_of_venue v (db_of w)" if "q = Ok (ls, vs, ps)" for ls vs ps
  proof -
    from ob that obtain u w1 w2 where "check_lease d w = (Ok u, w1)"
      "on_store (so_load_orders_for_venue (de_store d) v) w1 = (Ok ls, w2)"
      unfolding reconcile_observe_def find_adapter_def by (auto simp: bind_eq_Ok give_eq)
    then show ?thesis using load_orders_read [OF d] untouched_store(1) [OF d] orders_of_venue_same
      by (metis untouched_def)
  qed
  ultimately show ?thesis by blast
qed

section \<open>Clean reports\<close>

lemma push_conflict_not_clean: "\<not> report_clean (push_snapshot_conflict loc a rep)"
  by (simp add: push_snapshot_conflict_def report_clean_def Let_def)

lemma fold_conflicts_clean:
  "report_clean (fold (\<lambda>remote rp. if P remote then rp else push_snapshot_conflict loc (f remote) rp) vs rep) \<Longrightarrow>
     report_clean rep \<and> (\<forall>v\<in>set vs. P v)"
proof (induction vs arbitrary: rep)
  case (Cons v vs)
  from Cons.prems have "report_clean (fold (\<lambda>remote rp. if P remote then rp else push_snapshot_conflict loc (f remote) rp) vs
      (if P v then rep else push_snapshot_conflict loc (f v) rep))" by simp
  from Cons.IH [OF this] show ?case by (cases "P v") (simp_all add: push_conflict_not_clean)
qed simp

lemma local_conflicts_clean:
  "report_clean (local_conflicts vs loc rep) \<Longrightarrow> report_clean rep
     \<and> (\<forall>v\<in>set vs. names_client (or_client_order_id loc) v \<longrightarrow> validate_snapshot loc v = Ok ())"
  by (auto simp: local_conflicts_def Let_def push_conflict_not_clean dest!: fold_conflicts_clean split: if_splits)

lemma preflight_clean:
  assumes "report_clean (preflight_report v locals vs ps)"
  shows "\<forall>loc\<in>set locals. \<forall>x\<in>set vs. names_client (or_client_order_id loc) x \<longrightarrow> validate_snapshot loc x = Ok ()"
proof -
  have "report_clean (fold (local_conflicts vs) ls rep) \<Longrightarrow> report_clean rep \<and>
      (\<forall>loc\<in>set ls. \<forall>x\<in>set vs. names_client (or_client_order_id loc) x \<longrightarrow> validate_snapshot loc x = Ok ())" for ls rep
    by (induction ls arbitrary: rep) (auto dest: local_conflicts_clean)
  with assms show ?thesis unfolding preflight_report_def by blast
qed

section \<open>What a cycle may write\<close>

definition order_kept :: "order_record \<Rightarrow> order_record \<Rightarrow> bool" where
  "order_kept a b \<longleftrightarrow> same_contract a b \<and> or_filled_quantity b = or_filled_quantity a
     \<and> or_owner_strategy_id b = or_owner_strategy_id a \<and> (is_terminal a \<longrightarrow> or_state b = or_state a)"

definition orders_kept :: "db \<Rightarrow> db \<Rightarrow> bool" where
  "orders_kept a b \<longleftrightarrow> (\<forall>cid. rel_option (\<lambda>x y. order_kept (ow_state x) (ow_state y))
     (om_get cid (db_orders a)) (om_get cid (db_orders b)))"

lemma orders_kept_refl: "db_orders b = db_orders a \<Longrightarrow> orders_kept a b"
  by (simp add: orders_kept_def option.rel_refl order_kept_def)

lemma apply_snapshot_kept: "validate_snapshot r v = Ok () \<Longrightarrow> order_kept r (apply_snapshot r v)"
  by (auto simp: order_kept_def same_contract_def validate_snapshot_Ok apply_snapshot_def same_terminal_state)

lemma save_order_any:
  assumes "de_store d = postgres_ops ar sr" "bystanders ar sr" "save_order d r w = (q, w')"
  shows "db_orders (db_of w') = db_orders (db_of w)
    \<or> (\<exists>now. db_orders (db_of w') = om_insert (or_client_order_id r) (order_row_of now r (rl_fencing_token (de_lease d))) (db_orders (db_of w)))"
proof -
  have "db_orders (snd (save_order_record en r token db)) = db_orders db
      \<or> db_orders (snd (save_order_record en r token db)) = om_insert (or_client_order_id r) (order_row_of (env_now en) r token) (db_orders db)"
    for en token db
    unfolding save_order_record_def
    by (rule execute_keeps [where P = "\<lambda>x. db_orders x = db_orders db \<or> db_orders x = om_insert (or_client_order_id r) (order_row_of (env_now en) r token) (db_orders db)"])
      (simp_all add: save_order_stmt_def Let_def split: option.split)
  note step = this
  show ?thesis using assms(3) unfolding save_order_def assms(1) postgres_sel
  proof (rule on_store_pg_any)
    fix en db q0
    assume db: "db = db_run ar (sr_others sr (pg_calls (w_store w))) (db_of w)"
      and f: "save_order_record en r (rl_fencing_token (de_lease d)) db = (q0, db_of w')"
    have "db_orders db = db_orders (db_of w)" using assms(2) by (simp add: db bystanders_def)
    then show ?thesis using step [of en "rl_fencing_token (de_lease d)" db] f by auto
  qed
qed

lemma save_order_db_inv:
  assumes "de_store d = postgres_ops ar sr" "db_inv (db_of w)" "save_order d r w = (q, w')"
  shows "db_inv (db_of w')"
  using call_keeps(2) [OF assms(1,3)] assms(2) by (simp add: keeps_def)

lemma save_order_kept:
  assumes d: "de_store d = postgres_ops ar sr" "bystanders ar sr" and inv: "db_inv (db_of w)" and kept: "orders_kept db0 (db_of w)"
    and r: "om_get (or_client_order_id r) (db_orders db0) = Some row0" "order_kept (ow_state row0) r"
    and s: "save_order d r w = (q, w')"
  shows "orders_kept db0 (db_of w')"
  using save_order_any [OF d s]
proof (elim disjE exE)
  assume "db_orders (db_of w') = db_orders (db_of w)"
  then show ?thesis using kept by (simp add: orders_kept_def)
next
  fix now
  assume *: "db_orders (db_of w') = om_insert (or_client_order_id r) (order_row_of now r (rl_fencing_token (de_lease d))) (db_orders (db_of w))"
  have "om_get cid (db_orders (db_of w')) = (if cid = or_client_order_id r
      then Some (order_row_of now r (rl_fencing_token (de_lease d))) else om_get cid (db_orders (db_of w)))" for cid
    using inv by (simp add: * om_get_insert db_inv_def)
  then show ?thesis using kept r unfolding orders_kept_def by (auto simp: order_row_of_def)
qed

lemma apply_venue_orders_kept:
  assumes d: "de_store d = postgres_ops ar sr" "bystanders ar sr"
    and ok: "\<forall>r\<in>set rs. (\<exists>row0. om_get (or_client_order_id r) (db_orders db0) = Some row0 \<and> ow_state row0 = r)
       \<and> (\<forall>x\<in>set vs. names_client (or_client_order_id r) x \<longrightarrow> validate_snapshot r x = Ok ())"
    and "db_inv (db_of w)" "orders_kept db0 (db_of w)" "apply_venue_orders d vs rs w = (q, w')"
  shows "orders_kept db0 (db_of w') \<and> db_inv (db_of w')"
  using assms(3-)
proof (induction rs arbitrary: w q)
  case (Cons r rs)
  show ?case
  proof (cases "find (names_client (or_client_order_id r)) vs")
    case None
    with Cons.prems have "bind (apply_venue_orders d vs rs) (\<lambda>done. give (Ok (r # done))) w = (q, w')" by simp
    then show ?thesis using Cons by (elim bind_elim) auto
  next
    case (Some remote)
    then have remote: "remote \<in> set vs" "names_client (or_client_order_id r) remote" by (auto simp: find_Some_iff)
    then have val: "validate_snapshot r remote = Ok ()" using Cons.prems(1) by simp
    obtain row0 where row0: "om_get (or_client_order_id r) (db_orders db0) = Some row0" "ow_state row0 = r"
      using Cons.prems(1) by auto
    from Some Cons.prems(4) have "bind (save_order d (apply_snapshot r remote)) (\<lambda>_.
          bind (apply_venue_orders d vs rs) (\<lambda>done. give (Ok (apply_snapshot r remote # done)))) w = (q, w')" by simp
    then show ?thesis
    proof (cases rule: bind_elim)
      case (ok u w1)
      have "orders_kept db0 (db_of w1)" "db_inv (db_of w1)"
        using save_order_kept [OF d Cons.prems(2,3) _ _ ok(1)] save_order_db_inv [OF d(1) Cons.prems(2) ok(1)]
          row0 apply_snapshot_kept [OF val] by auto
      then show ?thesis using ok(2) Cons.IH Cons.prems(1) by (elim bind_elim) auto
    next
      case (fail q1)
      then show ?thesis
        using save_order_kept [OF d Cons.prems(2,3) _ _ fail(1)] save_order_db_inv [OF d(1) Cons.prems(2) fail(1)]
          row0 apply_snapshot_kept [OF val] by auto
    qed
  qed
qed simp

lemma save_positions_orders:
  assumes d: "de_store d = postgres_ops ar sr" "bystanders ar sr"
  shows "save_positions d ps w = (q, w') \<Longrightarrow> db_orders (db_of w') = db_orders (db_of w)"
proof (induction ps arbitrary: w q)
  case (Cons p ps)
  have one: "db_orders (db_of w2) = db_orders (db_of w1)"
    if "on_store (so_save_position_state (de_store d) p t) w1 = (q', w2)" for w1 w2 q' t
  proof -
    have step: "db_orders (snd (save_position_state en p t db)) = db_orders db" for en db
      unfolding save_position_state_def
      by (rule execute_keeps [where P = "\<lambda>x. db_orders x = db_orders db"]) (simp_all add: save_position_stmt_def Let_def split: option.split)
    show ?thesis using that unfolding d(1) postgres_sel
    proof (rule on_store_pg_any)
      fix en db q0
      assume "db = db_run ar (sr_others sr (pg_calls (w_store w1))) (db_of w1)" "save_position_state en p t db = (q0, db_of w2)"
      then show ?thesis using step [of en db] d(2) by (simp add: bystanders_def)
    qed
  qed
  from Cons.prems have "bind (on_store (so_save_position_state (de_store d) p (rl_fencing_token (de_lease d))))
      (\<lambda>_. save_positions d ps) w = (q, w')" by simp
  then show ?case
  proof (cases rule: bind_elim)
    case (ok u w1)
    then show ?thesis using one [OF ok(1)] Cons.IH [OF ok(2)] by simp
  qed (rule one)
qed simp

lemma reconcile_commit_kept:
  assumes d: "de_store d = postgres_ops ar sr" "bystanders ar sr" and inv: "db_inv db0"
    and same: "same_tables db0 (db_of w)" and ls: "locals = orders_of_venue v db0"
    and rep: "rep = preflight_report v locals vs ps" and c: "reconcile_commit d v rep locals vs ps w = (q, w')"
  shows "orders_kept db0 (db_of w')"
proof (cases "report_clean rep")
  case False
  then show ?thesis using c same by (simp add: reconcile_commit_def give_eq orders_kept_refl same_tables_def)
next
  case True
  with c have "bind (check_lease d) (\<lambda>_. bind (apply_venue_orders d vs locals) (\<lambda>locals. bind (save_positions d ps) (\<lambda>_.
      give (Ok \<lparr>rc_venue = v, rc_report = rep, rc_orders = locals, rc_positions = ps\<rparr>)))) w = (q, w')"
    by (simp add: reconcile_commit_def)
  then show ?thesis
  proof (cases rule: bind_elim)
    case (ok u w1)
    have w1: "same_tables db0 (db_of w1)"
      using untouched_store(1) [OF d] ok(1) same same_tables_trans by (metis untouched_def)
    have stored: "\<forall>r\<in>set locals. (\<exists>row0. om_get (or_client_order_id r) (db_orders db0) = Some row0 \<and> ow_state row0 = r)
       \<and> (\<forall>x\<in>set vs. names_client (or_client_order_id r) x \<longrightarrow> validate_snapshot r x = Ok ())"
      using preflight_clean True orders_of_venue_iff [OF inv] unfolding rep ls by blast
    have pre: "db_inv (db_of w1)" "orders_kept db0 (db_of w1)" using w1 inv by (simp_all add: orders_kept_refl same_tables_def)
    note applied = apply_venue_orders_kept [OF d stored pre]
    from ok(2) show ?thesis
    proof (cases rule: bind_elim)
      case (ok rs w2)
      from ok(2) have "db_orders (db_of w') = db_orders (db_of w2)"
        by (elim bind_elim) (auto simp: give_eq dest: save_positions_orders [OF d])
      then show ?thesis using applied [OF ok(1)] by (simp add: orders_kept_def)
    qed (use applied in blast)
  next
    case (fail q1)
    then have "same_tables db0 (db_of w')" using untouched_store(1) [OF d] same same_tables_trans by (metis untouched_def)
    then show ?thesis by (simp add: orders_kept_refl same_tables_def)
  qed
qed

text \<open>Whoever else is writing, every call of a cycle keeps the tables well formed, append-only and fenced.\<close>

definition evolving :: "('x, pg_state, 'a) action \<Rightarrow> bool" where
  "evolving m \<longleftrightarrow> (\<forall>w q w'. m w = (q, w') \<longrightarrow> keeps (db_of w) (db_of w'))"

lemma evolving_bind: "evolving m \<Longrightarrow> (\<And>x. evolving (f x)) \<Longrightarrow> evolving (bind m f)"
  unfolding evolving_def by (intro allI impI, rule bind_relates [of m keeps f]) (auto intro: keeps_trans)

lemma evolving_steps:
  "evolving (give r)" "evolving (ask_venue m)" "evolving (complete_venue_orders ad rs vs)"
  unfolding evolving_def using ask_venue_store complete_venue_orders_store keeps_refl by (metis give_eq)+

lemma evolving_store:
  assumes "de_store d = postgres_ops ar sr"
  shows "evolving (check_lease d)" "evolving (save_order d r)" "evolving (emit d stream ty payload)"
    "evolving (on_store (so_load_orders_for_venue (de_store d) v))" "evolving (on_store (so_load_position_states (de_store d) v))"
    "evolving (on_store (so_save_position_state (de_store d) p t))" "evolving (on_store (so_save_reconcile_report (de_store d) v rep t))"
  unfolding evolving_def check_lease_def save_order_def emit_def assms postgres_sel
  by (intro allI impI, erule on_store_pg_keeps [rotated], rule keeps_calls)+

lemma evolving_apply: "de_store d = postgres_ops ar sr \<Longrightarrow> evolving (apply_venue_orders d vs rs)"
  by (induction rs) (auto intro!: evolving_bind evolving_steps evolving_store split: option.split)

lemma evolving_positions:
  assumes "de_store d = postgres_ops ar sr"
  shows "evolving (save_positions d ps)"
  by (induction ps) (simp_all add: evolving_steps evolving_bind evolving_store [OF assms])

lemma reconcile_evolving:
  assumes "de_store d = postgres_ops ar sr"
  shows "evolving (reconcile_once ar' d v)"
  unfolding reconcile_once_def reconcile_observe_def reconcile_commit_def find_adapter_def Let_def
  by (auto intro!: evolving_bind evolving_steps evolving_store evolving_apply evolving_positions assms)

text \<open>
  C25. What a reconciliation cycle on a Postgres store can write. Whatever the venue reports, whoever else is writing, and
  whether the cycle succeeds, fails half way or panics, no row disappears, no token goes back and the logs only grow. And
  while no other process writes an order or a position between its calls (they may write anything else), no durable order
  appears, changes its contract, its owner or its filled quantity, and a terminal order keeps its state; a cycle that
  returns a report with any issue has then left every order and position as it was (it has saved the report and its
  journal event) and returns the stored orders.
\<close>

theorem reconcile_keeps_history:
  assumes "de_store d = postgres_ops ar sr" "db_inv (db_of w)" "reconcile_once ar' d v w = (q, w')"
  shows "db_inv (db_of w') \<and> evolves (db_of w) (db_of w')
    \<and> (bystanders ar sr \<longrightarrow> orders_kept (db_of w) (db_of w')
        \<and> (\<forall>cycle. q = Ok cycle \<and> \<not> report_clean (rc_report cycle) \<longrightarrow>
             db_orders (db_of w') = db_orders (db_of w) \<and> db_positions (db_of w') = db_positions (db_of w)
             \<and> rc_orders cycle = orders_of_venue v (db_of w)))"
proof -
  have "keeps (db_of w) (db_of w')" using reconcile_evolving [OF assms(1)] assms(3) by (simp add: evolving_def)
  moreover have "orders_kept (db_of w) (db_of w')
      \<and> (\<forall>cycle. q = Ok cycle \<and> \<not> report_clean (rc_report cycle) \<longrightarrow>
           same_tables (db_of w) (db_of w') \<and> rc_orders cycle = orders_of_venue v (db_of w))" if alone: "bystanders ar sr"
  proof -
    note d = assms(1) alone
    have kept: "same_tables (db_of w) x \<Longrightarrow> orders_kept (db_of w) x" for x by (simp add: orders_kept_refl same_tables_def)
    note same = untouched_store [OF d, unfolded untouched_def, rule_format]
    from assms(3) show ?thesis unfolding reconcile_once_def
    proof (cases rule: bind_elim)
      case (ok seen w1)
      obtain ls vs ps where seen: "seen = (ls, vs, ps)" by (cases seen)
      let ?rep = "preflight_report v ls vs ps"
      have w1: "same_tables (db_of w) (db_of w1)" "ls = orders_of_venue v (db_of w)"
        using reconcile_observe_db [OF d ok(1)] seen by simp_all
      from ok(2) have "bind (check_lease d) (\<lambda>_.
         bind (on_store (so_save_reconcile_report (de_store d) v ?rep (rl_fencing_token (de_lease d)))) (\<lambda>_.
         bind (emit d (''reconcile:'' @ debug_venue v) ''reconcile.completed''
               [(''report'', JReport ?rep), (''local_before'', JOrders ls), (''remote'', JSnapshots vs)]) (\<lambda>_.
         reconcile_commit d v ?rep ls vs ps))) w1 = (q, w')"
        by (simp add: seen Let_def)
      then show ?thesis
      proof (cases rule: bind_elim)
        case (ok u2 w2)
        have w2: "same_tables (db_of w) (db_of w2)" by (rule same_tables_trans [OF w1(1) same(1) [OF ok(1)]])
        from ok(2) show ?thesis
        proof (cases rule: bind_elim)
          case (ok u3 w3)
          have w3: "same_tables (db_of w) (db_of w3)" by (rule same_tables_trans [OF w2 same(4) [OF ok(1)]])
          from ok(2) show ?thesis
          proof (cases rule: bind_elim)
            case (ok u4 w4)
            have w4: "same_tables (db_of w) (db_of w4)" by (rule same_tables_trans [OF w3 same(5) [OF ok(1)]])
            have "orders_kept (db_of w) (db_of w')"
              by (rule reconcile_commit_kept [OF d assms(2) w4 w1(2) refl ok(2)])
            moreover have "rc_report cycle = ?rep" if "q = Ok cycle" for cycle
              using ok(2) that unfolding reconcile_commit_def by (auto simp: give_eq bind_eq_Ok split: if_splits)
            ultimately show ?thesis using ok(2) w4 w1(2) by (auto simp: reconcile_commit_def give_eq)
          qed (use same(5) same_tables_trans [OF w3] kept in blast)
        qed (use same(4) same_tables_trans [OF w2] kept in blast)
      qed (use same(1) same_tables_trans [OF w1(1)] kept in blast)
    qed (use reconcile_observe_db [OF d] kept in blast)
  qed
  ultimately show ?thesis using assms(2) by (auto simp: keeps_def same_tables_def)
qed

lemma demo_lost_inv: "db_inv (db_of demo_lost_world)"
  by (simp add: db_inv_def demo_lost_world_def demo_world_def demo_leased_db_def empty_db_def om_sorted_def om_get_def
      journal_ok_def bigint_max_def order_row_ok_def order_row_of_def)

theorem reconcile_keeps_history_witness:
  "orders_kept (db_of demo_lost_world) (db_of (snd (reconcile_once bounded_ops demo_execution Hyperliquid demo_lost_world)))"
proof -
  have "de_store demo_execution = postgres_ops bounded_ops demo_sr" "bystanders bounded_ops demo_sr"
    by (simp_all add: demo_execution_def bystanders_def demo_sr_def)
  with reconcile_keeps_history [OF this(1) demo_lost_inv surjective_pairing] show ?thesis by blast
qed

section \<open>Who owns a position\<close>

definition net_fill :: "order_record \<Rightarrow> decimal" where
  "net_fill r = (case or_side r of Some sd \<Rightarrow> signed_fill sd r | None \<Rightarrow> 0)"

definition strategy_net :: "order_record list \<Rightarrow> string \<Rightarrow> decimal" where
  "strategy_net rs sid = sum_list (map net_fill (filter (\<lambda>r. or_owner_strategy_id r = sid) rs))"

definition evidence :: "string \<Rightarrow> order_record list \<Rightarrow> order_record list" where
  "evidence asset orders = filter (\<lambda>r. or_asset r = asset \<and> 0 < or_filled_quantity r) orders"

abbreviation held :: "(string, decimal) omap \<Rightarrow> string \<Rightarrow> decimal" where
  "held m sid \<equiv> (case om_get sid m of Some q \<Rightarrow> q | None \<Rightarrow> 0)"

lemma singleton_of_set: "distinct xs \<Longrightarrow> xs = [x] \<longleftrightarrow> set xs = {x}"
  by (metis distinct_card card_1_singleton_iff length_Suc_conv length_0_conv list.set_intros(1) One_nat_def empty_set
      list.simps(15) singletonD)

lemma nonzero_entries:
  assumes "om_sorted m"
  shows "filter (\<lambda>(_, q). q \<noteq> 0) m = [(sid, q)] \<longleftrightarrow> q \<noteq> 0 \<and> (\<forall>k. held m k = (if k = sid then q else (0::decimal)))"
proof -
  have "distinct (filter (\<lambda>(_, q). q \<noteq> 0) m)"
    using om_sorted_distinct [OF assms] by (simp add: distinct_map)
  then have "filter (\<lambda>(_, q). q \<noteq> 0) m = [(sid, q)] \<longleftrightarrow> set (filter (\<lambda>(_, q). q \<noteq> 0) m) = {(sid, q)}"
    by (rule singleton_of_set)
  also have "\<dots> \<longleftrightarrow> (\<forall>k x. om_get k m = Some x \<and> x \<noteq> 0 \<longleftrightarrow> k = sid \<and> x = q)"
    by (auto simp: set_eq_iff om_entries_get [OF assms])
  also have "\<dots> \<longleftrightarrow> (\<forall>k x. held m k = x \<and> x \<noteq> 0 \<longleftrightarrow> k = sid \<and> x = q)"
    by (intro iff_allI) (auto split: option.splits)
  also have "\<dots> \<longleftrightarrow> q \<noteq> 0 \<and> (\<forall>k. held m k = (if k = sid then q else 0))"
    by metis
  finally show ?thesis .
qed

lemma sum_by_strategy_exact:
  assumes ar: "lossless ar s" and B: "representable s B"
  shows "om_sorted m \<Longrightarrow> \<forall>r\<in>set rs. or_side r \<noteq> None \<and> 0 < or_filled_quantity r \<and> representable s (or_filled_quantity r) \<Longrightarrow>
     \<forall>k. representable s (held m k) \<and> \<bar>held m k\<bar> + sum_list (map or_filled_quantity rs) \<le> B \<Longrightarrow>
     \<exists>m'. sum_by_strategy ar rs m = Ok m' \<and> om_sorted m' \<and> (\<forall>k. held m' k = held m k + strategy_net rs k)"
proof (induction rs arbitrary: m)
  case Nil
  then show ?case by (simp add: strategy_net_def)
next
  case (Cons r rs)
  let ?k = "or_owner_strategy_id r" and ?q = "held m (or_owner_strategy_id r) + net_fill r"
  from Cons.prems(2) obtain sd where sd: "or_side r = Some sd" by auto
  have fill: "0 < or_filled_quantity r" "representable s (or_filled_quantity r)" using Cons.prems(2) by auto
  have net: "net_fill r = signed_fill sd r" "\<bar>net_fill r\<bar> = or_filled_quantity r" "representable s (net_fill r)"
    using fill by (simp_all add: net_fill_def sd signed_fill_def split: side.split)
  have rest: "0 \<le> sum_list (map or_filled_quantity rs)"
    using Cons.prems(2) by (intro sum_list_nonneg) (auto intro: less_imp_le)
  have bound: "\<bar>held m k\<bar> + (or_filled_quantity r + sum_list (map or_filled_quantity rs)) \<le> B" for k
    using Cons.prems(3) by simp
  have "\<bar>?q\<bar> \<le> \<bar>held m ?k\<bar> + or_filled_quantity r" using abs_triangle_ineq [of "held m ?k" "net_fill r"] net(2) by simp
  then have qB: "\<bar>?q\<bar> + sum_list (map or_filled_quantity rs) \<le> B" using bound [of ?k] by linarith
  have rep: "representable s ?q"
    using representable_between [OF _ net(3) B, of "held m ?k"] Cons.prems(3) qB rest by fastforce
  have add: "checked_add ar (held m ?k) (net_fill r) = Some ?q"
    using lossless_add [OF ar _ net(3) rep] Cons.prems(3) by blast
  let ?m = "om_insert ?k ?q m"
  have held: "held ?m k = (if k = ?k then ?q else held m k)" for k by (simp add: om_get_insert [OF Cons.prems(1)])
  have less: "\<bar>held m k\<bar> + sum_list (map or_filled_quantity rs) \<le> B" for k using bound [of k] fill(1) by linarith
  have "\<forall>k. representable s (held ?m k) \<and> \<bar>held ?m k\<bar> + sum_list (map or_filled_quantity rs) \<le> B"
    unfolding held using rep qB Cons.prems(3) less bound by simp
  from Cons.IH [OF om_insert_sorted [OF Cons.prems(1)] _ this] Cons.prems(2) obtain m' where
    m': "sum_by_strategy ar rs ?m = Ok m'" "om_sorted m'" "\<forall>k. held m' k = held ?m k + strategy_net rs k" by auto
  have "sum_by_strategy ar (r # rs) m = Ok m'" using add m'(1) by (simp add: sd net(1))
  moreover have "\<forall>k. held m' k = held m k + strategy_net (r # rs) k"
    unfolding m'(3) [rule_format] held by (simp add: strategy_net_def)
  ultimately show ?case using m'(2) by blast
qed

text \<open>
  C26. Who owns a position, in every case. With durable fills on the asset and a position that is not flat, the inference
  names strategy \<open>s\<close> if and only if every such order has a known side, the signed fills of \<open>s\<close> net to the venue quantity
  and those of every other strategy net to zero, and otherwise it answers \<open>Unknown\<close>, whatever was believed before. Without
  that evidence it keeps what was believed before, be it a strategy: for a flat position (\<open>Unknown\<close> if nothing was
  believed) and for a position with no filled order (then \<open>Manual\<close>). It does not panic on decimals of the scale.
\<close>

theorem ownership_exact:
  assumes "lossless ar s" "representable s B"
    and "\<forall>r\<in>set (evidence asset orders). representable s (or_filled_quantity r)"
    and "sum_list (map or_filled_quantity (evidence asset orders)) \<le> B"
  shows "\<exists>own. ownership_from_order_evidence ar asset qty orders previous = Ok own
    \<and> (if qty = 0 then own = (case previous of Some p \<Rightarrow> p | None \<Rightarrow> OwnerUnknown)
       else if evidence asset orders = [] then own = (case previous of Some p \<Rightarrow> p | None \<Rightarrow> Manual)
       else (\<forall>sid. own = Strategy sid \<longleftrightarrow>
               (\<forall>r\<in>set (evidence asset orders). or_side r \<noteq> None)
               \<and> (\<forall>k. strategy_net (evidence asset orders) k = (if k = sid then qty else 0)))
            \<and> (own = OwnerUnknown \<or> (\<exists>sid. own = Strategy sid)))"
proof -
  let ?rs = "evidence asset orders"
  consider (flat) "qty = 0" | (none) "qty \<noteq> 0" "?rs = []" | (sideless) "qty \<noteq> 0" "?rs \<noteq> []" "\<exists>r\<in>set ?rs. or_side r = None"
    | (proved) "qty \<noteq> 0" "?rs \<noteq> []" "\<forall>r\<in>set ?rs. or_side r \<noteq> None" by (metis)
  then show ?thesis
  proof cases
    case proved
    have "\<forall>r\<in>set ?rs. or_side r \<noteq> None \<and> 0 < or_filled_quantity r \<and> representable s (or_filled_quantity r)"
      using assms(3) proved(3) by (auto simp: evidence_def)
    from sum_by_strategy_exact [OF assms(1,2) _ this, of "[]"] assms(4) obtain m where
      m: "sum_by_strategy ar ?rs [] = Ok m" "om_sorted m" "\<forall>k. held m k = strategy_net ?rs k"
      by (auto simp: om_sorted_def om_get_def)
    let ?own = "case filter (\<lambda>(_, q). q \<noteq> 0) m of [(sid, q)] \<Rightarrow> if q = qty then Strategy sid else OwnerUnknown | _ \<Rightarrow> OwnerUnknown"
    have "ownership_from_order_evidence ar asset qty orders previous = Ok ?own"
      using proved m(1) by (auto simp: ownership_from_order_evidence_def evidence_def Let_def list_ex_iff)
    moreover have "?own = Strategy sid \<longleftrightarrow> filter (\<lambda>(_, q). q \<noteq> 0) m = [(sid, qty)]" for sid
      by (auto split: list.splits if_splits)
    moreover have "?own = OwnerUnknown \<or> (\<exists>sid. ?own = Strategy sid)"
      by (auto split: list.splits if_splits)
    ultimately show ?thesis using nonzero_entries [OF m(2)] m(3) proved by auto
  qed (auto simp: ownership_from_order_evidence_def evidence_def Let_def list_ex_iff filter_empty_conv)
qed

theorem ownership_exact_witness:
  "ownership_from_order_evidence bounded_ops ''HYPE'' 4 [demo_open_record\<lparr>or_filled_quantity := 4\<rparr>] None = Ok (Strategy ''demo'')"
proof -
  let ?rs = "[demo_open_record\<lparr>or_filled_quantity := 4\<rparr>]"
  have facts: "or_asset demo_open_record = ''HYPE''" "or_side demo_open_record = Some Buy"
    "or_owner_strategy_id demo_open_record = ''demo''"
    by (simp_all add: demo_open_record_def demo_record_def from_intent_def demo_intent_def)
  have e: "evidence ''HYPE'' ?rs = ?rs" by (simp add: evidence_def facts)
  have net: "strategy_net ?rs k = (if k = ''demo'' then 4 else 0)" for k
    by (simp add: strategy_net_def net_fill_def signed_fill_def facts)
  have l: "lossless bounded_ops 0" by (rule lossless_bounded_ops) simp
  have b: "representable 0 (4::decimal)" by (simp add: representable_numeral)
  have f: "\<forall>r\<in>set (evidence ''HYPE'' ?rs). representable 0 (or_filled_quantity r)"
    "sum_list (map or_filled_quantity (evidence ''HYPE'' ?rs)) \<le> 4"
    unfolding e by (simp_all add: facts representable_numeral)
  have "evidence ''HYPE'' ?rs \<noteq> []" "(4::decimal) \<noteq> 0" "\<forall>r\<in>set (evidence ''HYPE'' ?rs). or_side r \<noteq> None"
    unfolding e by (simp_all add: facts)
  with ownership_exact [OF l b f, of 4 None] obtain own
    where own: "ownership_from_order_evidence bounded_ops ''HYPE'' 4 ?rs None = Ok own"
    and iff: "\<forall>sid. own = Strategy sid \<longleftrightarrow>
      (\<forall>k. strategy_net (evidence ''HYPE'' ?rs) k = (if k = sid then 4 else 0))"
    by (simp only: if_False simp_thms) (elim exE conjE, blast)
  have "\<forall>k. strategy_net (evidence ''HYPE'' ?rs) k = (if k = ''demo'' then 4 else 0)" unfolding e using net by blast
  then have "own = Strategy ''demo''" using iff by blast
  with own show ?thesis by (simp only:)
qed

section \<open>A save that is lost\<close>

text \<open>
  The cycle saves the orders it read at its start. Here another process under the same token records a fill of 4 after the
  read and before the save, the venue reports the order as canceled, and the cycle puts the order back to a fill of 0.
\<close>

definition demo_race_ops :: "unit adapter_ops" where
  "demo_race_ops = \<lparr>ad_submit = (\<lambda>_ st. (Err (ExTransport ''''), st)), ad_cancel = (\<lambda>_ st. (Ok (), st)),
     ad_open_orders = (\<lambda>st. (Ok [demo_snapshot], st)), ad_positions = (\<lambda>st. (Ok [], st)),
     ad_fills = default_fills, ad_account_snapshot = default_account_snapshot,
     ad_find_order_by_client_id = (\<lambda>_ st. (Ok None, st))\<rparr>"

definition demo_race_sr :: surroundings where
  "demo_race_sr = demo_sr\<lparr>sr_others := (\<lambda>n. if n = 6
     then [OpSaveOrder (demo_env 6) (demo_open_record\<lparr>or_state := PartiallyFilled, or_filled_quantity := 4\<rparr>) 1] else [])\<rparr>"

definition demo_race_world :: "(pg_state, unit) world" where
  "demo_race_world = \<lparr>w_store = \<lparr>pg_calls = 0, pg_db = demo_leased_db\<lparr>db_orders :=
     [(client_order_id uuid_hex demo_intent, order_row_of 5 demo_open_record 1)]\<rparr>\<rparr>, w_venues = ()\<rparr>"

definition demo_race_execution :: "(pg_state, unit) durable_execution" where
  "demo_race_execution = \<lparr>de_store = postgres_ops bounded_ops demo_race_sr, de_lease = demo_lease,
     de_adapters = [(Hyperliquid, demo_race_ops)]\<rparr>"

lemmas demo_race_eval = stored_order_def demo_race_execution_def demo_race_world_def demo_race_sr_def demo_race_ops_def reconcile_once_def reconcile_observe_def
  reconcile_commit_def bind_def check_lease_def find_adapter_def on_store_def postgres_ops_def pg_call_def demo_sr_def demo_env_def
  assert_lease_def execute_def lease_valid_def demo_leased_db_def empty_db_def demo_lease_def give_def registry_get_def om_get_def
  load_orders_for_venue_def orders_of_venue_def om_values_def order_row_of_def ask_venue_def on_venue_def lift_call_def emit_def
  append_event_def insert_event_def last_sequence_def bigint_max_def save_order_def save_order_record_def save_order_stmt_def
  load_position_states_def positions_of_venue_def save_reconcile_report_def reconcile_stmt_def

lemma demo_race_facts:
  "\<not> is_terminal demo_open_record" "or_client_order_id demo_open_record = client_order_id uuid_hex demo_intent"
  "names_client (client_order_id uuid_hex demo_intent) demo_snapshot"
  "infer_position_ownership ar v [] rs (om_collect []) = Ok []"
  "report_clean (preflight_report Hyperliquid [demo_open_record] [demo_snapshot] [])"
  "apply_snapshot demo_open_record demo_snapshot = demo_open_record\<lparr>or_state := Canceled\<rparr>"
proof -
  show id: "or_client_order_id demo_open_record = client_order_id uuid_hex demo_intent"
    by (simp add: demo_open_record_def demo_record_def from_intent_def)
  show t: "\<not> is_terminal demo_open_record" by (simp add: is_terminal_def)
  show n: "names_client (client_order_id uuid_hex demo_intent) demo_snapshot" by (simp add: names_client_def demo_snapshot_def)
  show "infer_position_ownership ar v [] rs (om_collect []) = Ok []"
    by (simp add: infer_position_ownership_def om_collect_def)
  have v: "validate_snapshot demo_open_record demo_snapshot = Ok ()"
    by (simp add: validate_snapshot_Ok demo_snapshot_def contract_ok_def is_terminal_def)
  have "report_clean (reconcile Hyperliquid [demo_open_record] [demo_snapshot] [])"
    using n by (simp add: report_clean_def reconcile_issues position_issues_empty local_issues_empty remote_issues_empty
        latest_snapshot_def order_settled_def names_client_def demo_snapshot_def)
  then show "report_clean (preflight_report Hyperliquid [demo_open_record] [demo_snapshot] [])"
    using n v by (simp add: preflight_report_def local_conflicts_def)
  show "apply_snapshot demo_open_record demo_snapshot = demo_open_record\<lparr>or_state := Canceled\<rparr>"
    by (simp add: apply_snapshot_def demo_snapshot_def demo_open_record_def demo_record_def from_intent_def)
qed

theorem cycle_overwrites_racing_fill:
  "\<exists>cycle w'. reconcile_once bounded_ops demo_race_execution Hyperliquid demo_race_world = (Ok cycle, w')
     \<and> map_option (\<lambda>row. or_filled_quantity (ow_state row)) (om_get (client_order_id uuid_hex demo_intent)
          (db_orders (db_run bounded_ops (sr_others demo_race_sr 6) (db_of demo_race_world)))) = Some 4
     \<and> stored_order (client_order_id uuid_hex demo_intent) w' = Some (demo_open_record\<lparr>or_state := Canceled\<rparr>)
     \<and> or_filled_quantity (demo_open_record\<lparr>or_state := Canceled\<rparr>) = 0"
  by (simp add: demo_race_eval demo_race_facts Let_def)

end
