(* ===== verification/MarketData.thy ===== *)
theory MarketData
  imports Execution
begin

text \<open>
  Market data events, \<open>rust/crates/pg-marketdata/src/lib.rs\<close> and \<open>latest_cache.rs\<close>, \<open>hot_cache.rs\<close>:
  sequence tracking, the candle resolutions of each venue, freshness, aggregation of trades into
  candles and the caches of latest events. Unsigned additions wrap, as in the release builds that are
  shipped; decimal additions panic on overflow. A lock that is never poisoned and the sharing of
  values are not visible in the model: a cache is its map.
\<close>

section \<open>Sequence tracking\<close>

datatype sequence_error = SeqGap (sg_expected: u64) (sg_actual: u64)

record sequence_tracker =
  st_last :: "u64 option"

definition tracker_apply :: "u64 \<Rightarrow> sequence_tracker \<Rightarrow> (sequence_error, unit) outcome \<times> sequence_tracker" where
  "tracker_apply sequence t =
     (case st_last t of
        Some prev \<Rightarrow>
          if sequence \<noteq> prev + 1 then (Err (SeqGap (prev + 1) sequence), t)
          else (Ok (), t\<lparr>st_last := Some sequence\<rparr>)
      | None \<Rightarrow> (Ok (), t\<lparr>st_last := Some sequence\<rparr>))"

definition tracker_reset :: "u64 \<Rightarrow> sequence_tracker \<Rightarrow> sequence_tracker" where
  "tracker_reset snapshot_sequence t = t\<lparr>st_last := Some snapshot_sequence\<rparr>"

section \<open>Events\<close>

datatype aggressor_side = AgBuy | AgSell | AgUnknown

record trade_tick =
  tt_venue :: venue
  tt_asset :: string
  tt_ts_event_ns :: u64
  tt_ts_recv_ns :: u64
  tt_price :: decimal
  tt_quantity :: decimal
  tt_aggressor :: aggressor_side
  tt_sequence :: "u64 option"

record best_bid_ask =
  bb_venue :: venue
  bb_asset :: string
  bb_ts_event_ns :: u64
  bb_ts_recv_ns :: u64
  bb_bid_price :: decimal
  bb_bid_quantity :: decimal
  bb_ask_price :: decimal
  bb_ask_quantity :: decimal
  bb_sequence :: "u64 option"

record book_level =
  bl_price :: decimal
  bl_quantity :: decimal
  bl_order_count :: "u64 option"

record l2_book =
  lb_venue :: venue
  lb_asset :: string
  lb_ts_event_ns :: u64
  lb_ts_recv_ns :: u64
  lb_bids :: "book_level list"
  lb_asks :: "book_level list"
  lb_sequence :: "u64 option"
  lb_is_snapshot :: bool

record candle =
  cd_venue :: venue
  cd_asset :: string
  cd_interval_ns :: u64
  cd_start_ns :: u64
  cd_end_ns :: u64
  cd_ts_recv_ns :: u64
  cd_open :: decimal
  cd_high :: decimal
  cd_low :: decimal
  cd_close :: decimal
  cd_volume :: decimal
  cd_trades :: u64

datatype market_event =
  MTrade trade_tick | MBestBidAsk best_bid_ask | ML2Book l2_book | MCandle candle

fun event_asset_key :: "market_event \<Rightarrow> asset_key" where
  "event_asset_key (MTrade e) = AssetKey (tt_venue e) (tt_asset e)"
| "event_asset_key (MBestBidAsk e) = AssetKey (bb_venue e) (bb_asset e)"
| "event_asset_key (ML2Book e) = AssetKey (lb_venue e) (lb_asset e)"
| "event_asset_key (MCandle e) = AssetKey (cd_venue e) (cd_asset e)"

fun event_ts_recv_ns :: "market_event \<Rightarrow> u64" where
  "event_ts_recv_ns (MTrade e) = tt_ts_recv_ns e"
| "event_ts_recv_ns (MBestBidAsk e) = bb_ts_recv_ns e"
| "event_ts_recv_ns (ML2Book e) = lb_ts_recv_ns e"
| "event_ts_recv_ns (MCandle e) = cd_ts_recv_ns e"

section \<open>Feeds and candle resolutions\<close>

datatype feed_kind = FkTrades | FkBestBidAsk | FkL2Book | FkCandle (fk_interval_ns: u64)

record feed_spec =
  fs_venue :: venue
  fs_asset :: string
  fs_kind :: feed_kind

definition hyperliquid_candle_intervals_ns :: "u64 list" where
  "hyperliquid_candle_intervals_ns =
     [60000000000, 180000000000, 300000000000, 900000000000, 1800000000000, 3600000000000,
      7200000000000, 14400000000000, 28800000000000, 43200000000000, 86400000000000]"

definition ibkr_candle_intervals_ns :: "u64 list" where
  "ibkr_candle_intervals_ns = [5000000000]"

definition binance_candle_intervals_ns :: "u64 list" where
  "binance_candle_intervals_ns =
     [60000000000, 180000000000, 300000000000, 900000000000, 1800000000000, 3600000000000,
      14400000000000, 86400000000000]"

fun supported_candle_intervals :: "venue \<Rightarrow> u64 list" where
  "supported_candle_intervals Hyperliquid = hyperliquid_candle_intervals_ns"
| "supported_candle_intervals InteractiveBrokers = ibkr_candle_intervals_ns"
| "supported_candle_intervals BinancePm = binance_candle_intervals_ns"

definition candle_interval_supported :: "venue \<Rightarrow> u64 \<Rightarrow> bool" where
  "candle_interval_supported v interval_ns = List.member (supported_candle_intervals v) interval_ns"

definition default_candle_interval :: "venue \<Rightarrow> (unit, u64) outcome" where
  "default_candle_interval v =
     (case supported_candle_intervals v of i # _ \<Rightarrow> Ok i | [] \<Rightarrow> Panic)"

definition describe_candle_interval :: "u64 \<Rightarrow> string" where
  "describe_candle_interval i =
     (let n = unat i; second = 1000000000; minute = 60 * second; hour = 60 * minute; day = 24 * hour in
      if n mod day = 0 then show_nat (n div day) @ ''d''
      else if n mod hour = 0 then show_nat (n div hour) @ ''h''
      else if n mod minute = 0 then show_nat (n div minute) @ ''m''
      else show_nat (n div second) @ ''s'')"

fun join :: "string \<Rightarrow> string list \<Rightarrow> string" where
  "join sep [] = []"
| "join sep [x] = x"
| "join sep (x # xs) = x @ sep @ join sep xs"

definition describe_candle_intervals :: "venue \<Rightarrow> string" where
  "describe_candle_intervals v = join '', '' (map describe_candle_interval (supported_candle_intervals v))"

section \<open>Freshness\<close>

datatype market_data_error =
  MdSubscription string | MdDisconnected string
| MdStale (ms_last_recv_ns: u64) (ms_now_ns: u64) | MdConversion string

record feed_freshness =
  ff_max_staleness_ns :: u64
  ff_last_recv_ns :: "u64 option"

definition new_freshness :: "u64 \<Rightarrow> (unit, feed_freshness) outcome" where
  "new_freshness max_staleness_ns =
     (if 0 < max_staleness_ns
      then Ok \<lparr>ff_max_staleness_ns = max_staleness_ns, ff_last_recv_ns = None\<rparr> else Panic)"

definition freshness_observe :: "market_event \<Rightarrow> feed_freshness \<Rightarrow> feed_freshness" where
  "freshness_observe e f = f\<lparr>ff_last_recv_ns := Some (event_ts_recv_ns e)\<rparr>"

definition ensure_fresh :: "u64 \<Rightarrow> feed_freshness \<Rightarrow> (market_data_error, unit) outcome" where
  "ensure_fresh now_ns f =
     and_then (ok_or (ff_last_recv_ns f) (MdStale 0 now_ns)) (\<lambda>last_recv_ns.
       if ff_max_staleness_ns f < saturating_sub now_ns last_recv_ns
       then Err (MdStale last_recv_ns now_ns) else Ok ())"

section \<open>Candle aggregation\<close>

datatype candle_error =
  InvalidInterval | OutOfOrder (ce_bucket_start: u64) (ce_event_ts: u64)

record candle_aggregator =
  ag_interval_ns :: u64
  ag_current :: "candle option"

definition new_aggregator :: "u64 \<Rightarrow> (candle_error, candle_aggregator) outcome" where
  "new_aggregator interval_ns =
     (if interval_ns = 0 then Err InvalidInterval
      else Ok \<lparr>ag_interval_ns = interval_ns, ag_current = None\<rparr>)"

definition open_candle :: "u64 \<Rightarrow> u64 \<Rightarrow> trade_tick \<Rightarrow> candle" where
  "open_candle interval_ns bucket_start t =
     \<lparr>cd_venue = tt_venue t, cd_asset = tt_asset t, cd_interval_ns = interval_ns,
      cd_start_ns = bucket_start, cd_end_ns = bucket_start + interval_ns,
      cd_ts_recv_ns = tt_ts_recv_ns t, cd_open = tt_price t, cd_high = tt_price t,
      cd_low = tt_price t, cd_close = tt_price t, cd_volume = tt_quantity t, cd_trades = 1\<rparr>"

text \<open>The assignments of the same-bucket branch; a panic in the volume keeps the ones before it.\<close>

definition extend_candle :: "dec_ops \<Rightarrow> trade_tick \<Rightarrow> candle \<Rightarrow> (candle_error, unit) outcome \<times> candle" where
  "extend_candle ar t c =
     (let c1 = c\<lparr>cd_high := max (cd_high c) (tt_price t), cd_low := min (cd_low c) (tt_price t),
                 cd_close := tt_price t\<rparr>
      in case checked_add ar (cd_volume c1) (tt_quantity t) of
           None \<Rightarrow> (Panic, c1)
         | Some v \<Rightarrow> (Ok (), c1\<lparr>cd_volume := v, cd_trades := cd_trades c1 + 1, cd_ts_recv_ns := tt_ts_recv_ns t\<rparr>))"

definition push_trade ::
  "dec_ops \<Rightarrow> trade_tick \<Rightarrow> candle_aggregator \<Rightarrow> (candle_error, candle option) outcome \<times> candle_aggregator" where
  "push_trade ar t a =
     (let bucket_start = tt_ts_event_ns t div ag_interval_ns a * ag_interval_ns a;
          restart = a\<lparr>ag_current := Some (open_candle (ag_interval_ns a) bucket_start t)\<rparr>
      in case ag_current a of
           Some current \<Rightarrow>
             if bucket_start < cd_start_ns current
             then (Err (OutOfOrder (cd_start_ns current) (tt_ts_event_ns t)), a)
             else if bucket_start = cd_start_ns current
             then (case extend_candle ar t current of
                     (Ok _, c) \<Rightarrow> (Ok None, a\<lparr>ag_current := Some c\<rparr>)
                   | (Err e, c) \<Rightarrow> (Err e, a\<lparr>ag_current := Some c\<rparr>)
                   | (Panic, c) \<Rightarrow> (Panic, a\<lparr>ag_current := Some c\<rparr>))
             else (Ok (Some current), restart)
         | None \<Rightarrow> (Ok None, restart))"

section \<open>Caches of the latest event\<close>

type_synonym latest_event_cache = "(asset_key, market_event) omap"

definition latest_insert :: "market_event \<Rightarrow> latest_event_cache \<Rightarrow> market_event \<times> latest_event_cache" where
  "latest_insert e m = (e, om_insert (event_asset_key e) e m)"

definition latest_get :: "asset_key \<Rightarrow> latest_event_cache \<Rightarrow> market_event option" where
  "latest_get k m = om_get k m"

definition latest_remove :: "asset_key \<Rightarrow> latest_event_cache \<Rightarrow> market_event option \<times> latest_event_cache" where
  "latest_remove k m = (om_get k m, om_remove k m)"

definition latest_len :: "latest_event_cache \<Rightarrow> nat" where
  "latest_len m = length m"

definition latest_is_empty :: "latest_event_cache \<Rightarrow> bool" where
  "latest_is_empty m \<longleftrightarrow> latest_len m = 0"

text \<open>The value of a watch channel is the last event sent on it, \<open>None\<close> before the first.\<close>

type_synonym hot_market_cache = "(asset_key, market_event option) omap"

definition hot_entry :: "asset_key \<Rightarrow> hot_market_cache \<Rightarrow> hot_market_cache" where
  "hot_entry k m = (case om_get k m of None \<Rightarrow> om_insert k None m | Some _ \<Rightarrow> m)"

definition hot_publish :: "asset_key \<Rightarrow> market_event \<Rightarrow> hot_market_cache \<Rightarrow> hot_market_cache" where
  "hot_publish k e m = om_insert k (Some e) (hot_entry k m)"

definition hot_latest :: "asset_key \<Rightarrow> hot_market_cache \<Rightarrow> market_event option" where
  "hot_latest k m = (case om_get k m of None \<Rightarrow> None | Some v \<Rightarrow> v)"

definition hot_subscribe :: "asset_key \<Rightarrow> hot_market_cache \<Rightarrow> market_event option \<times> hot_market_cache" where
  "hot_subscribe k m = (hot_latest k (hot_entry k m), hot_entry k m)"

definition hot_tracked_assets :: "hot_market_cache \<Rightarrow> nat" where
  "hot_tracked_assets m = length m"

section \<open>What the candles are\<close>

text \<open>A stream of trades; one out of order is refused and the stream goes on.\<close>

fun candle_feed ::
  "dec_ops \<Rightarrow> trade_tick list \<Rightarrow> candle_aggregator \<Rightarrow> (candle_error, candle list) outcome \<times> candle_aggregator" where
  "candle_feed ar [] a = (Ok [], a)"
| "candle_feed ar (t # ts) a =
     (case push_trade ar t a of
        (Ok out, a') \<Rightarrow>
          (case candle_feed ar ts a' of
             (Ok cs, a'') \<Rightarrow> (Ok (case out of Some c \<Rightarrow> c # cs | None \<Rightarrow> cs), a'')
           | r \<Rightarrow> r)
      | (Err e, a') \<Rightarrow> candle_feed ar ts a'
      | (Panic, a') \<Rightarrow> (Panic, a'))"

definition bucket :: "u64 \<Rightarrow> trade_tick \<Rightarrow> u64" where
  "bucket iv t = tt_ts_event_ns t div iv * iv"

text \<open>The trades that are not older than the bucket the stream has reached.\<close>

fun in_order :: "u64 \<Rightarrow> u64 \<Rightarrow> trade_tick list \<Rightarrow> trade_tick list" where
  "in_order iv reached [] = []"
| "in_order iv reached (t # ts) =
     (if bucket iv t < reached then in_order iv reached ts else t # in_order iv (bucket iv t) ts)"

text \<open>The candle of a non-empty run of trades of one bucket.\<close>

definition candle_of :: "u64 \<Rightarrow> trade_tick list \<Rightarrow> candle" where
  "candle_of iv g =
     \<lparr>cd_venue = tt_venue (hd g), cd_asset = tt_asset (hd g), cd_interval_ns = iv,
      cd_start_ns = bucket iv (hd g), cd_end_ns = bucket iv (hd g) + iv,
      cd_ts_recv_ns = tt_ts_recv_ns (last g), cd_open = tt_price (hd g),
      cd_high = Max (tt_price ` set g), cd_low = Min (tt_price ` set g), cd_close = tt_price (last g),
      cd_volume = sum_list (map tt_quantity g), cd_trades = of_nat (length g)\<rparr>"

definition one_bucket :: "u64 \<Rightarrow> trade_tick list \<Rightarrow> bool" where
  "one_bucket iv g \<longleftrightarrow> g \<noteq> [] \<and> (\<exists>b. \<forall>t\<in>set g. bucket iv t = b)"

definition buckets_ok :: "u64 \<Rightarrow> trade_tick list list \<Rightarrow> bool" where
  "buckets_ok iv groups \<longleftrightarrow> list_all (one_bucket iv) groups
     \<and> sorted_wrt (<) (map (\<lambda>g. bucket iv (hd g)) groups)"

definition aggregating :: "u64 \<Rightarrow> trade_tick list \<Rightarrow> candle_aggregator" where
  "aggregating iv g = \<lparr>ag_interval_ns = iv, ag_current = Some (candle_of iv g)\<rparr>"

lemma open_candle_of: "open_candle iv (bucket iv t) t = candle_of iv [t]"
  by (simp add: open_candle_def candle_of_def)

lemma extend_candle_of:
  assumes "g \<noteq> []" "checked_add ar (sum_list (map tt_quantity g)) (tt_quantity t) = Some (sum_list (map tt_quantity (g @ [t])))"
  shows "extend_candle ar t (candle_of iv g) = (Ok (), candle_of iv (g @ [t]))"
  using assms by (simp add: extend_candle_def candle_of_def max.commute min.commute)

lemma push_trade_of:
  assumes "g \<noteq> []" "checked_add ar (sum_list (map tt_quantity g)) (tt_quantity t) = Some (sum_list (map tt_quantity (g @ [t])))"
  shows "push_trade ar t (aggregating iv g) =
    (if bucket iv t < bucket iv (hd g)
     then (Err (OutOfOrder (bucket iv (hd g)) (tt_ts_event_ns t)), aggregating iv g)
     else if bucket iv t = bucket iv (hd g) then (Ok None, aggregating iv (g @ [t]))
     else (Ok (Some (candle_of iv g)), aggregating iv [t]))"
proof -
  have "cd_start_ns (candle_of iv g) = bucket iv (hd g)" by (simp add: candle_of_def)
  then show ?thesis
    using extend_candle_of [OF assms, of iv] open_candle_of [of iv t]
    by (simp add: push_trade_def aggregating_def bucket_def [symmetric] Let_def)
qed

lemma one_bucket_single [simp]: "one_bucket iv [t]"
  by (auto simp: one_bucket_def)

lemma one_bucket_snoc: "one_bucket iv g \<Longrightarrow> bucket iv t = bucket iv (hd g) \<Longrightarrow> one_bucket iv (g @ [t])"
  unfolding one_bucket_def by (metis Un_iff empty_iff hd_in_set insert_iff list.set(1,2) set_append snoc_eq_iff_butlast)

lemma candle_feed_from:
  assumes ar: "lossless ar s" "representable s B"
  shows "g \<noteq> [] \<Longrightarrow> one_bucket iv g \<Longrightarrow>
    representable s (sum_list (map tt_quantity g)) \<Longrightarrow> 0 \<le> sum_list (map tt_quantity g) \<Longrightarrow>
    \<forall>t\<in>set ts. representable s (tt_quantity t) \<and> 0 \<le> tt_quantity t \<Longrightarrow>
    sum_list (map tt_quantity (g @ ts)) \<le> B \<Longrightarrow>
    \<exists>out cur groups. candle_feed ar ts (aggregating iv g) = (Ok out, aggregating iv cur)
      \<and> groups \<noteq> [] \<and> bucket iv (hd (hd groups)) = bucket iv (hd g)
      \<and> concat groups = g @ in_order iv (bucket iv (hd g)) ts \<and> buckets_ok iv groups
      \<and> map (candle_of iv) groups = out @ [candle_of iv cur]"
proof (induction ts arbitrary: g)
  case Nil
  then show ?case by (intro exI [of _ "[]"] exI [of _ g] exI [of _ "[g]"]) (simp add: buckets_ok_def)
next
  case (Cons t ts)
  let ?sum = "\<lambda>g. sum_list (map tt_quantity g)"
  have t: "representable s (tt_quantity t)" "0 \<le> tt_quantity t" using Cons.prems(5) by auto
  have rest: "0 \<le> ?sum ts" using Cons.prems(5) by (intro sum_list_nonneg) auto
  have le: "?sum g + tt_quantity t \<le> B" using Cons.prems(6) rest by simp
  have add: "checked_add ar (?sum g) (tt_quantity t) = Some (?sum (g @ [t]))"
    using lossless_add_le [OF ar(1) Cons.prems(3) t(1) ar(2)] le Cons.prems(4) t(2) by simp
  have rep: "representable s (?sum (g @ [t]))"
    using representable_add_le [OF Cons.prems(3) t(1) ar(2)] le Cons.prems(4) t(2) by simp
  note step = push_trade_of [OF Cons.prems(1) add, of iv]
  consider (old) "bucket iv t < bucket iv (hd g)" | (same) "bucket iv t = bucket iv (hd g)"
    | (later) "bucket iv (hd g) < bucket iv t" by (rule linorder_cases)
  then show ?case
  proof cases
    case old
    have "?sum (g @ ts) \<le> B" using Cons.prems(6) t(2) by simp
    then show ?thesis using Cons.IH [OF Cons.prems(1-4)] Cons.prems(5) old by (simp add: step)
  next
    case same
    have "bucket iv (hd (g @ [t])) = bucket iv (hd g)" using Cons.prems(1) by simp
    moreover have "one_bucket iv (g @ [t])" using one_bucket_snoc [OF Cons.prems(2)] same by simp
    ultimately show ?thesis
      using Cons.IH [of "g @ [t]"] Cons.prems(1,4-6) t(2) rep same by (auto simp: step) blast
  next
    case later
    have "?sum ([t] @ ts) \<le> B" using Cons.prems(4,6) by simp
    then obtain out cur groups where feed: "candle_feed ar ts (aggregating iv [t]) = (Ok out, aggregating iv cur)"
      and gs: "groups \<noteq> []" "bucket iv (hd (hd groups)) = bucket iv t" "concat groups = t # in_order iv (bucket iv t) ts"
      "buckets_ok iv groups" "map (candle_of iv) groups = out @ [candle_of iv cur]"
      using Cons.IH [of "[t]"] t Cons.prems(5) by auto
    have "\<forall>h\<in>set groups. bucket iv (hd g) < bucket iv (hd h)"
      using gs(1,2,4) later by (cases groups) (auto simp: buckets_ok_def intro: less_trans)
    then have "buckets_ok iv (g # groups)" using gs(4) Cons.prems(1,2) by (simp add: buckets_ok_def)
    moreover have "candle_feed ar (t # ts) (aggregating iv g) = (Ok (candle_of iv g # out), aggregating iv cur)"
      using later feed by (auto simp: step)
    ultimately show ?thesis using gs(3,5) later
      by (intro exI [of _ "candle_of iv g # out"] exI [of _ cur] exI [of _ "g # groups"]) auto
  qed
qed

text \<open>
  C27. Candles are exact. Over any stream of trades, some of them late, the aggregator keeps exactly
  the trades that are not older than the bucket reached, splits them into runs of one bucket with
  strictly increasing starts, and has emitted for each finished run, and holds for the last, the
  candle with its first, highest, lowest and last price, its total volume and its trade count. It
  does not panic while the volume fits.
\<close>

theorem candles_exact:
  assumes "lossless ar s" "representable s B" "new_aggregator iv = Ok a0"
    and "\<forall>t\<in>set ts. representable s (tt_quantity t) \<and> 0 \<le> tt_quantity t" "sum_list (map tt_quantity ts) \<le> B"
  shows "\<exists>out a groups. candle_feed ar ts a0 = (Ok out, a) \<and> concat groups = in_order iv 0 ts \<and> buckets_ok iv groups
    \<and> map (candle_of iv) groups = out @ (case ag_current a of Some c \<Rightarrow> [c] | None \<Rightarrow> [])"
proof (cases ts)
  case Nil
  then show ?thesis using assms(3)
    by (intro exI [of _ "[]"] exI [of _ a0]) (auto simp: new_aggregator_def buckets_ok_def split: if_splits)
next
  case (Cons t rest)
  have "a0 = \<lparr>ag_interval_ns = iv, ag_current = None\<rparr>" using assms(3) by (simp add: new_aggregator_def split: if_splits)
  then have "push_trade ar t a0 = (Ok None, aggregating iv [t])"
    using open_candle_of [of iv t] by (simp add: push_trade_def aggregating_def bucket_def [symmetric] Let_def)
  moreover obtain out cur groups where "candle_feed ar rest (aggregating iv [t]) = (Ok out, aggregating iv cur)"
    "concat groups = t # in_order iv (bucket iv t) rest" "buckets_ok iv groups"
    "map (candle_of iv) groups = out @ [candle_of iv cur]"
    using candle_feed_from [OF assms(1,2), of "[t]" iv rest] assms(4,5) unfolding Cons by auto
  ultimately show ?thesis unfolding Cons
    by (intro exI [of _ out] exI [of _ "aggregating iv cur"] exI [of _ groups]) (simp add: aggregating_def)
qed

definition demo_trade :: "u64 \<Rightarrow> decimal \<Rightarrow> trade_tick" where
  "demo_trade ts price = \<lparr>tt_venue = Hyperliquid, tt_asset = ''HYPE'', tt_ts_event_ns = ts, tt_ts_recv_ns = ts,
     tt_price = price, tt_quantity = 2, tt_aggressor = AgBuy, tt_sequence = None\<rparr>"

theorem candles_exact_witness:
  "\<exists>out a groups. candle_feed bounded_ops [demo_trade 11 5, demo_trade 3 9, demo_trade 12 7] \<lparr>ag_interval_ns = 10, ag_current = None\<rparr> = (Ok out, a)
     \<and> concat groups = [demo_trade 11 5, demo_trade 12 7]
     \<and> map (candle_of 10) groups = out @ (case ag_current a of Some c \<Rightarrow> [c] | None \<Rightarrow> [])"
proof -
  let ?ts = "[demo_trade 11 5, demo_trade 3 9, demo_trade 12 7]" and ?a = "\<lparr>ag_interval_ns = 10, ag_current = None\<rparr>"
  have l: "lossless bounded_ops 0" by (rule lossless_bounded_ops) simp
  have B: "representable 0 (6::decimal)" by (simp add: representable_numeral)
  have a: "new_aggregator 10 = Ok ?a" by (simp add: new_aggregator_def)
  have q: "\<forall>t\<in>set ?ts. representable 0 (tt_quantity t) \<and> 0 \<le> tt_quantity t" "sum_list (map tt_quantity ?ts) \<le> 6"
    by (simp_all add: demo_trade_def representable_numeral)
  have kept: "in_order 10 0 ?ts = [demo_trade 11 5, demo_trade 12 7]"
    by (simp add: bucket_def demo_trade_def)
  from candles_exact [OF l B a q] show ?thesis unfolding kept by (elim exE conjE) (intro exI conjI)
qed

end
