(* ===== verification/Depth.thy ===== *)
theory Depth
  imports MarketData "HOL-Library.Sublist"
begin

text \<open>
  The depth bridge of \<open>rust/crates/pg-marketdata/src/binance_depth.rs\<close>: it buffers incremental updates
  until a snapshot is installed, replays them, and from then on follows the stream. \<open>Decimal::from_str\<close>
  belongs to \<open>rust_decimal\<close> and is the parameter \<open>pd\<close>. The refinement theorem says what a ready book is:
  the snapshot overwritten by an unbroken chain of updates that were received.
\<close>

section \<open>Data\<close>

type_synonym raw_level = "string \<times> string"

record depth_snapshot =
  dn_last_update_id :: u64
  dn_bids :: "raw_level list"
  dn_asks :: "raw_level list"

record depth_delta =
  dd_symbol :: string
  dd_event_time_ms :: u64
  dd_first_update_id :: u64
  dd_final_update_id :: u64
  dd_pu :: u64
  dd_bids :: "raw_level list"
  dd_asks :: "raw_level list"

datatype depth_error = InvalidEvent | InvalidLevel | SequenceGap | BufferFull | InvalidBook

type_synonym book_side = "(decimal, decimal) omap"

record depth_bridge =
  br_symbol :: string
  br_bids :: book_side
  br_asks :: book_side
  br_last_update_id :: "u64 option"
  br_bridged :: bool
  br_buffered :: "(depth_delta \<times> u64) list"

type_synonym depth_result = "(depth_error, l2_book option) outcome"

definition max_buffer :: nat where
  "max_buffer = 2048"

definition published_levels :: nat where
  "published_levels = 50"

section \<open>Operations\<close>

definition new_bridge :: "string \<Rightarrow> depth_bridge" where
  "new_bridge symbol =
     \<lparr>br_symbol = symbol, br_bids = [], br_asks = [], br_last_update_id = None, br_bridged = False, br_buffered = []\<rparr>"

definition is_ready :: "depth_bridge \<Rightarrow> bool" where
  "is_ready b = br_bridged b"

definition invalidate :: "depth_bridge \<Rightarrow> depth_bridge" where
  "invalidate b =
     b\<lparr>br_bids := [], br_asks := [], br_last_update_id := None, br_bridged := False, br_buffered := []\<rparr>"

fun parse_updates :: "(string \<Rightarrow> decimal option) \<Rightarrow> raw_level list \<Rightarrow> (depth_error, (decimal \<times> decimal) list) outcome" where
  "parse_updates pd [] = Ok []"
| "parse_updates pd ((price, quantity) # levels) =
     and_then (ok_or (pd price) InvalidLevel) (\<lambda>p.
     and_then (ok_or (pd quantity) InvalidLevel) (\<lambda>q.
       if p \<le> 0 \<or> q < 0 then Err InvalidLevel
       else and_then (parse_updates pd levels) (\<lambda>rest. Ok ((p, q) # rest))))"

definition parse_levels :: "(string \<Rightarrow> decimal option) \<Rightarrow> raw_level list \<Rightarrow> (depth_error, book_side) outcome" where
  "parse_levels pd levels =
     and_then (parse_updates pd levels) (\<lambda>us.
       Ok (fold (\<lambda>(p, q) m. if q = 0 then m else om_insert p q m) us []))"

definition update_side :: "(decimal \<times> decimal) list \<Rightarrow> book_side \<Rightarrow> book_side" where
  "update_side us m = fold (\<lambda>(p, q) m. if q = 0 then om_remove p m else om_insert p q m) us m"

definition valid_book :: "depth_bridge \<Rightarrow> bool" where
  "valid_book b \<longleftrightarrow> br_bids b \<noteq> [] \<and> br_asks b \<noteq> [] \<and> fst (last (br_bids b)) < fst (hd (br_asks b))"

definition levels_of :: "(decimal \<times> decimal) list \<Rightarrow> book_level list" where
  "levels_of m = map (\<lambda>(p, q). \<lparr>bl_price = p, bl_quantity = q, bl_order_count = None\<rparr>) (take published_levels m)"

definition published_book :: "depth_bridge \<Rightarrow> depth_delta \<Rightarrow> u64 \<Rightarrow> l2_book" where
  "published_book b d received_ns =
     \<lparr>lb_venue = BinancePm, lb_asset = br_symbol b, lb_ts_event_ns = dd_event_time_ms d * 1000000,
      lb_ts_recv_ns = received_ns, lb_bids = levels_of (rev (br_bids b)), lb_asks = levels_of (br_asks b),
      lb_sequence = Some (dd_final_update_id d), lb_is_snapshot = False\<rparr>"

definition sequence_valid :: "depth_bridge \<Rightarrow> u64 \<Rightarrow> depth_delta \<Rightarrow> bool" where
  "sequence_valid b prev d \<longleftrightarrow>
     (if br_bridged b then dd_pu d = prev else dd_first_update_id d \<le> prev \<and> prev \<le> dd_final_update_id d)"

definition depth_apply ::
  "(string \<Rightarrow> decimal option) \<Rightarrow> depth_delta \<Rightarrow> u64 \<Rightarrow> depth_bridge \<Rightarrow> depth_result \<times> depth_bridge" where
  "depth_apply pd d received_ns b =
     (case br_last_update_id b of
        None \<Rightarrow> (Err SequenceGap, b)
      | Some prev \<Rightarrow>
          if br_bridged b \<and> dd_final_update_id d \<le> prev \<or> \<not> br_bridged b \<and> dd_final_update_id d < prev
          then (Ok None, b)
          else if \<not> sequence_valid b prev d then (Err SequenceGap, invalidate b)
          else case parse_updates pd (dd_bids d) of
            Err e \<Rightarrow> (Err e, invalidate b)
          | Panic \<Rightarrow> (Panic, b)
          | Ok bids \<Rightarrow>
              (case parse_updates pd (dd_asks d) of
                 Err e \<Rightarrow> (Err e, invalidate b)
               | Panic \<Rightarrow> (Panic, b)
               | Ok asks \<Rightarrow>
                   let b1 = b\<lparr>br_bids := update_side bids (br_bids b), br_asks := update_side asks (br_asks b)\<rparr>
                   in if \<not> valid_book b1 then (Err InvalidBook, invalidate b1)
                      else let b2 = b1\<lparr>br_bridged := True, br_last_update_id := Some (dd_final_update_id d)\<rparr>
                      in (Ok (Some (published_book b2 d received_ns)), b2)))"

definition malformed :: "depth_delta \<Rightarrow> u64 \<Rightarrow> depth_bridge \<Rightarrow> bool" where
  "malformed d received_ns b \<longleftrightarrow>
     dd_symbol d \<noteq> br_symbol b \<or> dd_first_update_id d = 0 \<or> dd_final_update_id d < dd_first_update_id d
     \<or> dd_event_time_ms d = 0 \<or> 2 ^ 64 \<le> unat (dd_event_time_ms d) * 1000000 \<or> received_ns = 0"

definition depth_push ::
  "(string \<Rightarrow> decimal option) \<Rightarrow> depth_delta \<Rightarrow> u64 \<Rightarrow> depth_bridge \<Rightarrow> depth_result \<times> depth_bridge" where
  "depth_push pd d received_ns b =
     (if malformed d received_ns b then (Err InvalidEvent, invalidate b)
      else if br_last_update_id b = None
      then if max_buffer \<le> length (br_buffered b) then (Err BufferFull, invalidate b)
           else (Ok None, b\<lparr>br_buffered := br_buffered b @ [(d, received_ns)]\<rparr>)
      else depth_apply pd d received_ns b)"

lemma depth_apply_buffered:
  "br_buffered (snd (depth_apply pd d t b)) = br_buffered b \<or> br_buffered (snd (depth_apply pd d t b)) = []"
  by (simp add: depth_apply_def invalidate_def Let_def split: option.split outcome.split)

text \<open>The replay loop pops the buffer; it ends because applying an update never adds to it.\<close>

function drain :: "(string \<Rightarrow> decimal option) \<Rightarrow> l2_book option \<Rightarrow> depth_bridge \<Rightarrow> depth_result \<times> depth_bridge" where
  "drain pd latest b =
     (case br_buffered b of
        [] \<Rightarrow> (Ok latest, b)
      | (d, received_ns) # rest \<Rightarrow>
          (case depth_apply pd d received_ns (b\<lparr>br_buffered := rest\<rparr>) of
             (Ok out, b') \<Rightarrow> drain pd (case out of Some book \<Rightarrow> Some book | None \<Rightarrow> latest) b'
           | (Err e, b') \<Rightarrow> (Err e, b')
           | (Panic, b') \<Rightarrow> (Panic, b')))"
  by pat_completeness auto
termination
proof (relation "measure (\<lambda>(_, _, b). length (br_buffered b))", simp)
  fix pd latest b x rest d t r b' out
  assume *: "br_buffered b = x # rest" "(d, t) = x" "(r, b') = depth_apply pd d t (b\<lparr>br_buffered := rest\<rparr>)"
  have "br_buffered b' = rest \<or> br_buffered b' = []"
    using depth_apply_buffered [of pd d t "b\<lparr>br_buffered := rest\<rparr>"] by (simp add: *(3) [symmetric])
  then show "((pd, case out of Some book \<Rightarrow> Some book | None \<Rightarrow> latest, b'), pd, latest, b) \<in> measure (\<lambda>(_, _, b). length (br_buffered b))"
    using *(1) by auto
qed

declare drain.simps [simp del]

definition install_snapshot ::
  "(string \<Rightarrow> decimal option) \<Rightarrow> depth_snapshot \<Rightarrow> depth_bridge \<Rightarrow> depth_result \<times> depth_bridge" where
  "install_snapshot pd s b =
     (if dn_last_update_id s = 0 then (Err InvalidEvent, invalidate b)
      else case parse_levels pd (dn_bids s) of
        Err e \<Rightarrow> (Err e, invalidate b)
      | Panic \<Rightarrow> (Panic, b)
      | Ok bids \<Rightarrow>
          (case parse_levels pd (dn_asks s) of
             Err e \<Rightarrow> (Err e, invalidate b)
           | Panic \<Rightarrow> (Panic, b)
           | Ok asks \<Rightarrow>
               let b1 = b\<lparr>br_bids := bids, br_asks := asks, br_last_update_id := Some (dn_last_update_id s), br_bridged := False\<rparr>
               in if \<not> valid_book b1 then (Err InvalidBook, invalidate b1) else drain pd None b1))"

section \<open>Abstract view\<close>

text \<open>Sides of a book as functions from prices; an update overwrites, and a zero quantity deletes.\<close>

definition updates_of :: "(string \<Rightarrow> decimal option) \<Rightarrow> raw_level list \<Rightarrow> (decimal \<times> decimal) list" where
  "updates_of pd raw = (case parse_updates pd raw of Ok us \<Rightarrow> us | Err _ \<Rightarrow> [] | Panic \<Rightarrow> [])"

definition overwrite :: "(decimal \<times> decimal) list \<Rightarrow> (decimal \<rightharpoonup> decimal) \<Rightarrow> (decimal \<rightharpoonup> decimal)" where
  "overwrite us f = fold (\<lambda>(p, q) f. f(p := if q = 0 then None else Some q)) us f"

definition snapshot_side :: "(string \<Rightarrow> decimal option) \<Rightarrow> raw_level list \<Rightarrow> (decimal \<rightharpoonup> decimal)" where
  "snapshot_side pd raw = map_of (rev (filter (\<lambda>(p, q). q \<noteq> 0) (updates_of pd raw)))"

definition replay_side ::
  "(string \<Rightarrow> decimal option) \<Rightarrow> (depth_delta \<Rightarrow> raw_level list) \<Rightarrow> raw_level list \<Rightarrow> depth_delta list \<Rightarrow> (decimal \<rightharpoonup> decimal)" where
  "replay_side pd sel raw ds = fold (\<lambda>d. overwrite (updates_of pd (sel d))) ds (snapshot_side pd raw)"

text \<open>The first update spans the snapshot; each later one names its predecessor and goes beyond it.\<close>

definition linked :: "depth_snapshot \<Rightarrow> depth_delta list \<Rightarrow> bool" where
  "linked s ds \<longleftrightarrow>
     (ds \<noteq> [] \<longrightarrow> dd_first_update_id (hd ds) \<le> dn_last_update_id s \<and> dn_last_update_id s \<le> dd_final_update_id (hd ds))
     \<and> successively (\<lambda>a b. dd_pu b = dd_final_update_id a \<and> dd_final_update_id a < dd_final_update_id b) ds"

definition last_id :: "depth_snapshot \<Rightarrow> depth_delta list \<Rightarrow> u64" where
  "last_id s ds = (if ds = [] then dn_last_update_id s else dd_final_update_id (last ds))"

definition replays :: "(string \<Rightarrow> decimal option) \<Rightarrow> depth_snapshot \<Rightarrow> depth_delta list \<Rightarrow> depth_bridge \<Rightarrow> bool" where
  "replays pd s ds b \<longleftrightarrow>
     linked s ds \<and> br_last_update_id b = Some (last_id s ds) \<and> (br_bridged b \<longleftrightarrow> ds \<noteq> [])
     \<and> (\<forall>p. om_get p (br_bids b) = replay_side pd dd_bids (dn_bids s) ds p)
     \<and> (\<forall>p. om_get p (br_asks b) = replay_side pd dd_asks (dn_asks s) ds p)"

section \<open>Sides\<close>

definition side_ok :: "book_side \<Rightarrow> bool" where
  "side_ok m \<longleftrightarrow> om_sorted m \<and> (\<forall>p q. om_get p m = Some q \<longrightarrow> 0 < p \<and> 0 < q)"

lemma side_ok_Nil [simp]: "side_ok []"
  by (simp add: side_ok_def om_sorted_def om_get_def)

lemma side_ok_put: "side_ok m \<Longrightarrow> 0 < p \<Longrightarrow> 0 \<le> q \<Longrightarrow> q \<noteq> 0 \<Longrightarrow> side_ok (om_insert p q m)"
  by (auto simp: side_ok_def om_insert_sorted om_get_insert)

lemma side_ok_remove: "side_ok m \<Longrightarrow> side_ok (om_remove p m)"
  by (auto simp: side_ok_def om_remove_sorted om_get_remove split: if_splits)

lemma parse_updates_ok:
  "parse_updates pd raw = Ok us \<Longrightarrow> \<forall>(p, q)\<in>set us. 0 < p \<and> 0 \<le> q"
proof (induction raw arbitrary: us)
  case (Cons r raw)
  then show ?case by (cases r) (force simp: outcome_simps split: if_splits)
qed simp

lemma parse_updates_not_Panic: "parse_updates pd raw \<noteq> Panic"
proof (induction raw rule: parse_updates.induct)
  case (2 pd price quantity levels)
  then show ?case by (cases "pd price"; cases "pd quantity"; cases "parse_updates pd levels") auto
qed simp

lemma update_side_ok:
  "side_ok m \<Longrightarrow> \<forall>(p, q)\<in>set us. 0 < p \<and> 0 \<le> q \<Longrightarrow>
     side_ok (update_side us m) \<and> (\<forall>p. om_get p (update_side us m) = overwrite us (\<lambda>p. om_get p m) p)"
proof (induction us arbitrary: m)
  case (Cons u us)
  obtain p q where u: "u = (p, q)" by (cases u)
  let ?m = "if q = 0 then om_remove p m else om_insert p q m"
  have ok: "side_ok ?m" using Cons.prems u side_ok_put side_ok_remove by auto
  have view: "(\<lambda>x. om_get x ?m) = (\<lambda>x. om_get x m)(p := if q = 0 then None else Some q)"
    using Cons.prems(1) by (auto simp: side_ok_def om_get_insert om_get_remove)
  have "update_side (u # us) m = update_side us ?m" by (simp add: update_side_def u)
  moreover have "overwrite (u # us) (\<lambda>x. om_get x m) = overwrite us (\<lambda>x. om_get x ?m)"
    unfolding view by (simp add: overwrite_def u)
  ultimately show ?case using Cons.IH [OF ok] Cons.prems(2) by simp
qed (simp add: update_side_def overwrite_def)

lemma parse_levels_ok:
  assumes "parse_levels pd raw = Ok m"
  shows "side_ok m \<and> (\<forall>p. om_get p m = snapshot_side pd raw p)"
proof -
  from assms obtain us where us: "parse_updates pd raw = Ok us"
    and m: "m = fold (\<lambda>(p, q) m. if q = 0 then m else om_insert p q m) us []"
    by (auto simp: parse_levels_def outcome_simps)
  have "side_ok m0 \<Longrightarrow> side_ok (fold (\<lambda>(p, q) m. if q = 0 then m else om_insert p q m) us m0)
      \<and> (\<forall>x. om_get x (fold (\<lambda>(p, q) m. if q = 0 then m else om_insert p q m) us m0)
         = (case map_of (rev (filter (\<lambda>(p, q). q \<noteq> 0) us)) x of Some q \<Rightarrow> Some q | None \<Rightarrow> om_get x m0))" for m0
    using parse_updates_ok [OF us]
  proof (induction us arbitrary: m0)
    case (Cons u us)
    obtain p q where u: "u = (p, q)" by (cases u)
    show ?case
    proof (cases "q = 0")
      case False
      then have "side_ok (om_insert p q m0)" using Cons.prems u side_ok_put by auto
      from Cons.IH [OF this] Cons.prems u False show ?thesis
        by (auto simp: map_add_def side_ok_def om_get_insert split: option.splits)
    qed (use Cons u in simp)
  qed simp
  from this [of "[]"] show ?thesis by (simp add: m snapshot_side_def updates_of_def us om_get_def split: option.split)
qed

lemma replay_side_snoc:
  assumes "side_ok m" "\<forall>p. om_get p m = replay_side pd sel raw ds p" "parse_updates pd (sel d) = Ok us"
  shows "side_ok (update_side us m) \<and> (\<forall>p. om_get p (update_side us m) = replay_side pd sel raw (ds @ [d]) p)"
proof -
  have "(\<lambda>p. om_get p m) = replay_side pd sel raw ds" using assms(2) by blast
  then show ?thesis using update_side_ok [OF assms(1) parse_updates_ok [OF assms(3)]]
    by (simp add: replay_side_def updates_of_def assms(3))
qed

section \<open>Well-formed bridges and what they track\<close>

definition bridge_ok :: "depth_bridge \<Rightarrow> bool" where
  "bridge_ok b \<longleftrightarrow>
     side_ok (br_bids b) \<and> side_ok (br_asks b)
     \<and> (if br_last_update_id b = None then br_bids b = [] \<and> br_asks b = [] \<and> \<not> br_bridged b else valid_book b)
     \<and> length (br_buffered b) \<le> max_buffer \<and> (\<forall>(d, t)\<in>set (br_buffered b). \<not> malformed d t b)"

lemma invalidate_ok [simp]: "bridge_ok (invalidate b)"
  unfolding bridge_ok_def invalidate_def by simp

lemma invalidate_sel [simp]:
  "br_symbol (invalidate b) = br_symbol b" "br_bids (invalidate b) = []" "br_asks (invalidate b) = []"
  "br_last_update_id (invalidate b) = None" "\<not> br_bridged (invalidate b)" "br_buffered (invalidate b) = []"
  by (simp_all add: invalidate_def)

lemma malformed_upd [simp]:
  "malformed d t (b\<lparr>br_bids := x\<rparr>) = malformed d t b" "malformed d t (b\<lparr>br_asks := y\<rparr>) = malformed d t b"
  "malformed d t (b\<lparr>br_last_update_id := l\<rparr>) = malformed d t b" "malformed d t (b\<lparr>br_bridged := g\<rparr>) = malformed d t b"
  "malformed d t (b\<lparr>br_buffered := u\<rparr>) = malformed d t b"
  by (simp_all add: malformed_def)

definition following ::
  "(string \<Rightarrow> decimal option) \<Rightarrow> depth_snapshot set \<Rightarrow> depth_delta list \<Rightarrow> depth_bridge \<Rightarrow> bool" where
  "following pd S seen b \<longleftrightarrow>
     br_last_update_id b = None \<or> (\<exists>s\<in>S. \<exists>ds. subseq ds seen \<and> replays pd s ds b)"

definition tracked ::
  "(string \<Rightarrow> decimal option) \<Rightarrow> depth_snapshot set \<Rightarrow> depth_delta list \<Rightarrow> depth_bridge \<Rightarrow> bool" where
  "tracked pd S ps b \<longleftrightarrow>
     bridge_ok b \<and> (\<exists>seen. subseq (seen @ map fst (br_buffered b)) ps \<and> following pd S seen b)"

lemma tracked_invalidate: "tracked pd S ps (invalidate b)"
  unfolding tracked_def by (auto simp: following_def intro!: exI [of _ "[]"])

lemma replays_buffered [simp]: "replays pd s ds (b\<lparr>br_buffered := x\<rparr>) = replays pd s ds b"
  by (simp add: replays_def)

text \<open>Three outcomes: the update is old and ignored, the bridge starts over, or the chain grows by one.\<close>

lemma depth_apply_cases:
  assumes ok: "bridge_ok b" and rep: "replays pd s ds b" and ap: "depth_apply pd d t b = (r, b')"
  obtains (old) "r = Ok None" "b' = b"
  | (reset) e where "r = Err e" "\<exists>b1. b' = invalidate b1 \<and> br_symbol b1 = br_symbol b"
  | (grown) "r = Ok (Some (published_book b' d t))" "bridge_ok b'" "replays pd s (ds @ [d]) b'"
      "br_buffered b' = br_buffered b" "br_symbol b' = br_symbol b"
proof -
  have l: "br_last_update_id b = Some (last_id s ds)" and br: "br_bridged b \<longleftrightarrow> ds \<noteq> []" and lk: "linked s ds"
    using rep by (simp_all add: replays_def)
  let ?skip = "br_bridged b \<and> dd_final_update_id d \<le> last_id s ds \<or> \<not> br_bridged b \<and> dd_final_update_id d < last_id s ds"
  show thesis
  proof (cases "?skip \<or> \<not> sequence_valid b (last_id s ds) d")
    case True
    then show thesis using ap old reset by (auto simp: depth_apply_def l split: if_splits)
  next
    case False
    then have nosk: "\<not> ?skip" and sv: "sequence_valid b (last_id s ds) d" by blast+
    have linked': "linked s (ds @ [d])"
      using lk sv nosk br by (auto simp: linked_def sequence_valid_def last_id_def successively_append_iff split: if_splits)
    consider (bad) e where "parse_updates pd (dd_bids d) = Err e \<or> parse_updates pd (dd_asks d) = Err e"
      | (good) bids asks where "parse_updates pd (dd_bids d) = Ok bids" "parse_updates pd (dd_asks d) = Ok asks"
      using parse_updates_not_Panic by (metis outcome.exhaust)
    then show thesis
    proof cases
      case bad
      then have "\<exists>e. r = Err e \<and> b' = invalidate b"
        using ap sv parse_updates_not_Panic [of pd "dd_bids d"]
        by (auto simp: depth_apply_def l nosk split: outcome.splits)
      then show thesis using reset by blast
    next
      case good
      let ?b1 = "b\<lparr>br_bids := update_side bids (br_bids b), br_asks := update_side asks (br_asks b)\<rparr>"
      let ?b2 = "?b1\<lparr>br_bridged := True, br_last_update_id := Some (dd_final_update_id d)\<rparr>"
      have ap': "(r, b') = (if \<not> valid_book ?b1 then (Err InvalidBook, invalidate ?b1) else (Ok (Some (published_book ?b2 d t)), ?b2))"
        using ap [symmetric] sv by (simp add: depth_apply_def l nosk good Let_def)
      have sides: "side_ok (br_bids b)" "side_ok (br_asks b)" using ok unfolding bridge_ok_def by blast+
      have views: "\<forall>p. om_get p (br_bids b) = replay_side pd dd_bids (dn_bids s) ds p"
        "\<forall>p. om_get p (br_asks b) = replay_side pd dd_asks (dn_asks s) ds p" using rep unfolding replays_def by blast+
      have bids: "side_ok (update_side bids (br_bids b)) \<and> (\<forall>p. om_get p (update_side bids (br_bids b)) = replay_side pd dd_bids (dn_bids s) (ds @ [d]) p)"
        by (rule replay_side_snoc [OF sides(1) views(1) good(1)])
      have asks: "side_ok (update_side asks (br_asks b)) \<and> (\<forall>p. om_get p (update_side asks (br_asks b)) = replay_side pd dd_asks (dn_asks s) (ds @ [d]) p)"
        by (rule replay_side_snoc [OF sides(2) views(2) good(2)])
      show thesis
      proof (cases "valid_book ?b1")
        case True
        then have b2: "r = Ok (Some (published_book ?b2 d t))" and b': "b' = ?b2" using ap' by simp_all
        have "bridge_ok b'" using ok bids asks True unfolding b' by (auto simp: bridge_ok_def valid_book_def)
        moreover have "replays pd s (ds @ [d]) b'"
          using linked' bids asks unfolding b' by (simp add: replays_def last_id_def)
        ultimately show thesis using grown b2 b' by simp
      next
        case False
        then have "r = Err InvalidBook" "b' = invalidate ?b1" using ap' by simp_all
        then show thesis by (intro reset exI [of _ ?b1] conjI) simp_all
      qed
    qed
  qed
qed

lemma subseq_skip: "subseq (xs @ d # ys) zs \<Longrightarrow> subseq (xs @ ys) zs"
  by (erule subseq_order.trans [rotated]) (intro list_emb_append_mono list_emb_Cons subseq_order.refl)

lemma apply_tracked:
  assumes "bridge_ok b" "following pd S seen b" "subseq (seen @ d # map fst (br_buffered b)) ps"
    and "depth_apply pd d t b = (r, b')"
  shows "tracked pd S ps b'"
proof (cases "br_last_update_id b")
  case None
  then have "b' = b" using assms(4) by (simp add: depth_apply_def)
  moreover have "subseq (seen @ map fst (br_buffered b)) ps"
    using assms(3) by (rule subseq_skip)
  ultimately show ?thesis using assms(1,2) by (auto simp: tracked_def)
next
  case (Some i)
  then obtain s ds where s: "s \<in> S" "subseq ds seen" "replays pd s ds b" using assms(2) by (auto simp: following_def)
  have drop: "subseq (seen @ map fst (br_buffered b)) ps"
    using assms(3) by (rule subseq_skip)
  from assms(1) s(3) assms(4) show ?thesis
  proof (cases rule: depth_apply_cases)
    case old
    then show ?thesis using assms(1,2) drop by (auto simp: tracked_def)
  next
    case (reset e)
    then show ?thesis using tracked_invalidate by auto
  next
    case grown
    have "subseq (ds @ [d]) (seen @ [d])" using s(2) by (simp add: list_emb_append_mono)
    moreover have "subseq ((seen @ [d]) @ map fst (br_buffered b')) ps" using assms(3) grown(4) by simp
    ultimately show ?thesis using grown(2,3) s(1) unfolding tracked_def following_def by blast
  qed
qed

section \<open>Books that were shown\<close>

definition shown :: "depth_bridge \<Rightarrow> depth_delta \<Rightarrow> u64 \<Rightarrow> l2_book \<Rightarrow> bool" where
  "shown b d t book \<longleftrightarrow>
     book = published_book b d t \<and> br_bridged b \<and> br_last_update_id b = Some (dd_final_update_id d) \<and> \<not> malformed d t b"

lemma shown_buffered [simp]: "shown (b\<lparr>br_buffered := x\<rparr>) d t book = shown b d t book"
  by (simp add: shown_def published_book_def)

lemma grown_shown:
  assumes "replays pd s (ds @ [d]) b'" "br_symbol b' = br_symbol b" "\<not> malformed d t b"
  shows "shown b' d t (published_book b' d t)"
  using assms by (simp add: shown_def replays_def last_id_def malformed_def)

lemma following_replays:
  assumes "following pd S seen b" "br_last_update_id b \<noteq> None"
  obtains s ds where "s \<in> S" "subseq ds seen" "replays pd s ds b"
  using assms by (auto simp: following_def)

lemma subseq_mem:
  assumes "subseq (xs @ d # ys) ps"
  shows "d \<in> set ps"
  using list_emb_set [OF assms, of d] by auto

text \<open>What every operation on a bridge leaves behind.\<close>

definition settled :: "depth_bridge \<Rightarrow> bool" where
  "settled b \<longleftrightarrow> (br_last_update_id b \<noteq> None \<longrightarrow> br_buffered b = [])"

definition left_by ::
  "(string \<Rightarrow> decimal option) \<Rightarrow> depth_snapshot set \<Rightarrow> depth_delta list \<Rightarrow> string \<Rightarrow> depth_result \<Rightarrow> depth_bridge \<Rightarrow> bool" where
  "left_by pd S ps symb r b \<longleftrightarrow>
     tracked pd S ps b \<and> settled b \<and> br_symbol b = symb \<and> r \<noteq> Panic
     \<and> (\<forall>book. r = Ok (Some book) \<longrightarrow> (\<exists>d\<in>set ps. \<exists>t. shown b d t book))
     \<and> (\<forall>e. r = Err e \<longrightarrow> (\<exists>b1. b = invalidate b1))"

lemma left_by_reset: "br_symbol b = symb \<Longrightarrow> left_by pd S ps symb (Err e) (invalidate b)"
  by (auto simp: left_by_def settled_def tracked_invalidate)

lemma drain_left:
  "tracked pd S ps b \<Longrightarrow> br_last_update_id b \<noteq> None \<Longrightarrow> br_symbol b = symb \<Longrightarrow>
   (\<forall>book. latest = Some book \<longrightarrow> (\<exists>d\<in>set ps. \<exists>t. shown b d t book)) \<Longrightarrow>
   drain pd latest b = (r, b') \<Longrightarrow> left_by pd S ps symb r b'"
proof (induction pd latest b rule: drain.induct)
  case (1 pd latest b)
  show ?case
  proof (cases "br_buffered b")
    case Nil
    then have "r = Ok latest" "b' = b" using "1.prems"(5) by (simp_all add: drain.simps)
    then show ?thesis using Nil "1.prems" by (simp add: left_by_def settled_def)
  next
    case (Cons x rest)
    obtain d t where x: "x = (d, t)" by (cases x)
    let ?b = "b\<lparr>br_buffered := rest\<rparr>"
    obtain r1 b1 where ap: "depth_apply pd d t ?b = (r1, b1)" by (cases "depth_apply pd d t ?b")
    have ok: "bridge_ok ?b" and wf: "\<not> malformed d t ?b"
      using "1.prems"(1) Cons x by (auto simp: tracked_def bridge_ok_def valid_book_def)
    obtain seen where sub: "subseq (seen @ d # map fst (br_buffered ?b)) ps" and fl: "following pd S seen ?b"
      using "1.prems"(1) Cons x by (auto simp: tracked_def following_def)
    have l: "br_last_update_id ?b \<noteq> None" using "1.prems"(2) by simp
    obtain s ds where rep: "replays pd s ds ?b" using following_replays [OF fl l] by blast
    have tr: "tracked pd S ps b1" by (rule apply_tracked [OF ok fl sub ap])
    have step: "drain pd latest b = (case (r1, b1) of
        (Ok out, b') \<Rightarrow> drain pd (case out of Some book \<Rightarrow> Some book | None \<Rightarrow> latest) b'
      | (Err e, b') \<Rightarrow> (Err e, b') | (Panic, b') \<Rightarrow> (Panic, b'))"
      by (subst drain.simps) (simp add: Cons x ap)
    note IH = "1.IH" [OF Cons x [symmetric] ap [symmetric]]
    from ok rep ap show ?thesis
    proof (cases rule: depth_apply_cases)
      case old
      have "drain pd latest b1 = (r, b')" using "1.prems"(5) step old by simp
      then show ?thesis using IH [OF old(1)] old tr "1.prems"(2-4) by simp
    next
      case (reset e)
      then have "r = Err e" "b' = b1" using "1.prems"(5) step by simp_all
      then show ?thesis using reset(2) left_by_reset "1.prems"(3) by auto
    next
      case grown
      have "\<exists>d'\<in>set ps. \<exists>u. shown b1 d' u (published_book b1 d t)"
        using grown_shown [OF grown(3,5) wf] subseq_mem [OF sub] by blast
      moreover have "drain pd (Some (published_book b1 d t)) b1 = (r, b')" using "1.prems"(5) step grown(1) by simp
      moreover have "br_last_update_id b1 \<noteq> None" using grown(3) by (simp add: replays_def)
      ultimately show ?thesis using IH [OF grown(1)] grown(5) tr "1.prems"(3) by simp
    qed
  qed
qed

lemma push_left:
  assumes tr: "tracked pd S ps b" and st: "settled b" and sy: "br_symbol b = symb"
    and p: "depth_push pd d t b = (r, b')"
  shows "left_by pd S (ps @ [d]) symb r b'"
proof (cases "malformed d t b \<or> br_last_update_id b = None \<and> max_buffer \<le> length (br_buffered b)")
  case True
  then have "\<exists>e. r = Err e \<and> b' = invalidate b" using p by (auto simp: depth_push_def split: if_splits)
  then show ?thesis using left_by_reset sy by auto
next
  case False
  then have wf: "\<not> malformed d t b" by blast
  obtain seen where sub: "subseq (seen @ map fst (br_buffered b)) ps" and fl: "following pd S seen b" and ok: "bridge_ok b"
    using tr by (auto simp: tracked_def)
  show ?thesis
  proof (cases "br_last_update_id b")
    case None
    then have b': "r = Ok None" "b' = b\<lparr>br_buffered := br_buffered b @ [(d, t)]\<rparr>"
      using p False by (simp_all add: depth_push_def)
    have "bridge_ok b'" using ok wf None False unfolding b'(2) by (auto simp: bridge_ok_def)
    moreover have "subseq (seen @ map fst (br_buffered b')) (ps @ [d])"
      using list_emb_append_mono [OF sub subseq_order.refl, of "[d]"] by (simp add: b'(2))
    moreover have "following pd S seen b'" using None by (simp add: b'(2) following_def)
    ultimately show ?thesis using None b' sy unfolding left_by_def tracked_def by (auto simp: settled_def)
  next
    case (Some i)
    then have ap: "depth_apply pd d t b = (r, b')" using p wf by (simp add: depth_push_def)
    have buf: "br_buffered b = []" using st Some by (simp add: settled_def)
    have sub': "subseq (seen @ d # map fst (br_buffered b)) (ps @ [d])"
      using list_emb_append_mono [OF sub subseq_order.refl, of "[d]"] buf by simp
    have tr': "tracked pd S (ps @ [d]) b'" by (rule apply_tracked [OF ok fl sub' ap])
    obtain s ds where rep: "replays pd s ds b" using following_replays [OF fl] Some by blast
    from ok rep ap show ?thesis
    proof (cases rule: depth_apply_cases)
      case old
      then show ?thesis using tr' buf sy by (simp add: left_by_def settled_def)
    next
      case (reset e)
      then show ?thesis using left_by_reset sy by auto
    next
      case grown
      then show ?thesis using tr' buf sy grown_shown [OF grown(3,5) wf] by (auto simp: left_by_def settled_def)
    qed
  qed
qed

lemma install_left:
  assumes tr: "tracked pd S ps b" and sy: "br_symbol b = symb" and p: "install_snapshot pd s b = (r, b')"
  shows "left_by pd (insert s S) ps symb r b'"
proof -
  have no: "parse_levels pd raw \<noteq> Panic" for raw
    using parse_updates_not_Panic [of pd raw] by (cases "parse_updates pd raw") (simp_all add: parse_levels_def)
  consider (bad) e where "r = Err e" "b' = invalidate b"
    | (good) bids asks where "parse_levels pd (dn_bids s) = Ok bids" "parse_levels pd (dn_asks s) = Ok asks"
    using p no by (auto simp: install_snapshot_def split: outcome.splits if_splits)
  then show ?thesis
  proof cases
    case bad
    then show ?thesis using left_by_reset sy by auto
  next
    case good
    let ?b1 = "b\<lparr>br_bids := bids, br_asks := asks, br_last_update_id := Some (dn_last_update_id s), br_bridged := False\<rparr>"
    show ?thesis
    proof (cases "dn_last_update_id s \<noteq> 0 \<and> valid_book ?b1")
      case False
      then have "\<exists>e b1. r = Err e \<and> b' = invalidate b1 \<and> br_symbol b1 = br_symbol b"
        using p good by (auto simp: install_snapshot_def Let_def split: if_splits)
      then show ?thesis using left_by_reset sy by auto
    next
      case True
      then have dr: "drain pd None ?b1 = (r, b')" using p good by (simp add: install_snapshot_def Let_def)
      obtain seen where sub: "subseq (seen @ map fst (br_buffered b)) ps" and ok: "bridge_ok b"
        using tr by (auto simp: tracked_def)
      note bids = parse_levels_ok [OF good(1)] and asks = parse_levels_ok [OF good(2)]
      have "bridge_ok ?b1" using ok bids asks True by (auto simp: bridge_ok_def)
      moreover have "replays pd s [] ?b1" using bids asks by (simp add: replays_def linked_def last_id_def replay_side_def)
      ultimately have "tracked pd (insert s S) ps ?b1"
        using sub unfolding tracked_def following_def
        by (intro conjI exI [of _ seen] disjI2 bexI [of _ s] exI [of _ "[]"]) simp_all
      from drain_left [OF this _ _ _ dr] show ?thesis using sy by simp
    qed
  qed
qed

section \<open>Runs\<close>

datatype depth_op = DPush depth_delta u64 | DInstall depth_snapshot | DInvalidate

fun depth_exec :: "(string \<Rightarrow> decimal option) \<Rightarrow> depth_op \<Rightarrow> depth_bridge \<Rightarrow> depth_result \<times> depth_bridge" where
  "depth_exec pd (DPush d t) b = depth_push pd d t b"
| "depth_exec pd (DInstall s) b = install_snapshot pd s b"
| "depth_exec pd DInvalidate b = (Ok None, invalidate b)"

definition depth_run :: "(string \<Rightarrow> decimal option) \<Rightarrow> depth_op list \<Rightarrow> depth_bridge \<Rightarrow> depth_bridge" where
  "depth_run pd ops b = fold (\<lambda>op b. snd (depth_exec pd op b)) ops b"

fun pushed :: "depth_op list \<Rightarrow> depth_delta list" where
  "pushed [] = []"
| "pushed (DPush d t # ops) = d # pushed ops"
| "pushed (_ # ops) = pushed ops"

definition installed :: "depth_op list \<Rightarrow> depth_snapshot set" where
  "installed ops = {s. DInstall s \<in> set ops}"

lemma pushed_append [simp]: "pushed (xs @ ys) = pushed xs @ pushed ys"
  by (induction xs rule: pushed.induct) simp_all

lemma installed_append: "installed (ops @ [op]) = (case op of DInstall s \<Rightarrow> insert s (installed ops) | _ \<Rightarrow> installed ops)"
  by (auto simp: installed_def split: depth_op.split)

lemma exec_left:
  assumes "tracked pd (installed ops) (pushed ops) b" "settled b" "br_symbol b = symb" "depth_exec pd op b = (r, b')"
  shows "left_by pd (installed (ops @ [op])) (pushed (ops @ [op])) symb r b'"
proof (cases op)
  case (DPush d t)
  then show ?thesis using push_left [OF assms(1-3)] assms(4) by (simp add: installed_append)
next
  case (DInstall s)
  then show ?thesis using install_left [OF assms(1,3)] assms(4) by (simp add: installed_append)
next
  case DInvalidate
  then have "r = Ok None" "b' = invalidate b" using assms(4) by simp_all
  then show ?thesis using assms(3) tracked_invalidate by (simp add: left_by_def settled_def)
qed

lemma run_left:
  "tracked pd (installed ops) (pushed ops) (depth_run pd ops (new_bridge symb))
   \<and> settled (depth_run pd ops (new_bridge symb)) \<and> br_symbol (depth_run pd ops (new_bridge symb)) = symb"
proof (induction ops rule: rev_induct)
  case Nil
  have "invalidate (new_bridge symb) = new_bridge symb" by (simp add: new_bridge_def invalidate_def)
  with tracked_invalidate [of pd "installed []" "pushed []" "new_bridge symb"]
  have "tracked pd (installed []) (pushed []) (new_bridge symb)" by (simp only:)
  then show ?case by (simp add: depth_run_def settled_def) (simp add: new_bridge_def)
next
  case (snoc op ops)
  let ?b = "depth_run pd ops (new_bridge symb)"
  have "left_by pd (installed (ops @ [op])) (pushed (ops @ [op])) symb (fst (depth_exec pd op ?b)) (snd (depth_exec pd op ?b))"
    using snoc by (intro exec_left [of pd ops ?b]) simp_all
  then show ?case by (simp add: left_by_def depth_run_def)
qed

text \<open>
  C28. A ready book is the venue's book. After any sequence of updates, snapshots and disconnects, if
  the bridge is ready then it was given a snapshot and a chain of updates, received in that order,
  whose first one spans the snapshot and each later one names its predecessor; every price of either
  side has exactly the quantity that the snapshot overwritten by those updates gives it, and the
  bridge remembers the chain's last update id.
\<close>

theorem depth_book_replays:
  assumes "is_ready (depth_run pd ops (new_bridge symb))"
  shows "\<exists>s ds. DInstall s \<in> set ops \<and> subseq ds (pushed ops) \<and> ds \<noteq> [] \<and> linked s ds
    \<and> br_last_update_id (depth_run pd ops (new_bridge symb)) = Some (dd_final_update_id (last ds))
    \<and> (\<forall>p. om_get p (br_bids (depth_run pd ops (new_bridge symb))) = replay_side pd dd_bids (dn_bids s) ds p)
    \<and> (\<forall>p. om_get p (br_asks (depth_run pd ops (new_bridge symb))) = replay_side pd dd_asks (dn_asks s) ds p)"
proof -
  let ?b = "depth_run pd ops (new_bridge symb)"
  obtain seen where ok: "bridge_ok ?b" and sub: "subseq (seen @ map fst (br_buffered ?b)) (pushed ops)"
    and fl: "following pd (installed ops) seen ?b" using run_left [of pd ops symb] by (auto simp: tracked_def)
  have "br_last_update_id ?b \<noteq> None" using ok assms by (auto simp: bridge_ok_def is_ready_def split: if_splits)
  then obtain s ds where s: "s \<in> installed ops" "subseq ds seen" "replays pd s ds ?b" using following_replays [OF fl] by blast
  have "subseq ds (pushed ops)" using s(2) sub by (meson list_emb_append2 subseq_order.trans subseq_rev_drop_many)
  moreover have "ds \<noteq> []" using s(3) assms by (simp add: replays_def is_ready_def)
  ultimately show ?thesis using s(1,3) unfolding replays_def last_id_def installed_def by auto
qed

definition book_wf :: "l2_book \<Rightarrow> bool" where
  "book_wf book \<longleftrightarrow>
     lb_bids book \<noteq> [] \<and> lb_asks book \<noteq> [] \<and> bl_price (hd (lb_bids book)) < bl_price (hd (lb_asks book))
     \<and> sorted_wrt (>) (map bl_price (lb_bids book)) \<and> sorted_wrt (<) (map bl_price (lb_asks book))
     \<and> (\<forall>l\<in>set (lb_bids book) \<union> set (lb_asks book). 0 < bl_price l \<and> 0 < bl_quantity l)
     \<and> length (lb_bids book) \<le> published_levels \<and> length (lb_asks book) \<le> published_levels"

lemma published_book_wf:
  assumes "bridge_ok b" "br_last_update_id b \<noteq> None"
  shows "book_wf (published_book b d t)"
proof -
  have v: "br_bids b \<noteq> []" "br_asks b \<noteq> []" "fst (last (br_bids b)) < fst (hd (br_asks b))"
    using assms by (simp_all add: bridge_ok_def valid_book_def)
  have so: "om_sorted (br_bids b)" "om_sorted (br_asks b)" using assms(1) by (simp_all add: bridge_ok_def side_ok_def)
  have prices: "map bl_price (levels_of m) = take published_levels (map fst m)" for m
    by (simp add: levels_of_def take_map case_prod_unfold)
  have pos: "\<forall>l\<in>set (levels_of m). 0 < bl_price l \<and> 0 < bl_quantity l"
    if "\<forall>(p, q)\<in>set m. 0 < p \<and> 0 < q" for m
    using that by (fastforce simp: levels_of_def dest: in_set_takeD)
  have entries: "\<forall>(p, q)\<in>set (br_bids b). 0 < p \<and> 0 < q" "\<forall>(p, q)\<in>set (br_asks b). 0 < p \<and> 0 < q"
    using assms(1) by (auto simp: bridge_ok_def side_ok_def om_entries_get)
  have hd: "bl_price (hd (levels_of m)) = fst (hd m)" "levels_of m \<noteq> []" if "m \<noteq> []" for m
    using that by (cases m; simp add: levels_of_def published_levels_def case_prod_unfold)+
  have "sorted_wrt (>) (map fst (rev (br_bids b)))"
    using so(1) unfolding om_sorted_def rev_map [symmetric] sorted_wrt_rev .
  then show ?thesis unfolding book_wf_def published_book_def l2_book.select_convs prices
    using v hd [of "rev (br_bids b)"] hd [of "br_asks b"] so(2) pos [of "rev (br_bids b)"] pos [of "br_asks b"] entries
    by (auto simp: hd_rev om_sorted_def sorted_wrt_take levels_of_def)
qed

text \<open>
  What the bridge publishes is well formed, and it fails closed. Whatever happened before, a book
  that an operation returns has at most fifty levels a side, bids strictly falling, asks strictly
  rising, the best bid below the best ask and positive prices and quantities; it shows the state the
  bridge is left in, carries the update id of a received update and that update's event time without
  overflow, and the bridge is ready. An operation that fails leaves the bridge empty and not ready;
  none panics.
\<close>

theorem depth_published_sound:
  assumes "depth_exec pd op (depth_run pd ops (new_bridge symb)) = (r, b')"
  shows "r \<noteq> Panic
    \<and> (\<forall>book. r = Ok (Some book) \<longrightarrow>
         is_ready b' \<and> book_wf book \<and> lb_asset book = symb
         \<and> lb_bids book = levels_of (rev (br_bids b')) \<and> lb_asks book = levels_of (br_asks b')
         \<and> (\<exists>d\<in>set (pushed (ops @ [op])). lb_sequence book = Some (dd_final_update_id d)
              \<and> br_last_update_id b' = Some (dd_final_update_id d)
              \<and> unat (lb_ts_event_ns book) = unat (dd_event_time_ms d) * 1000000))
    \<and> (\<forall>e. r = Err e \<longrightarrow> \<not> is_ready b' \<and> br_bids b' = [] \<and> br_asks b' = [] \<and> br_buffered b' = []
         \<and> br_last_update_id b' = None)"
proof -
  have left: "left_by pd (installed (ops @ [op])) (pushed (ops @ [op])) symb r b'"
    using exec_left [OF _ _ _ assms] run_left [of pd ops symb] by blast
  have book: "is_ready b' \<and> book_wf book \<and> lb_asset book = symb
         \<and> lb_bids book = levels_of (rev (br_bids b')) \<and> lb_asks book = levels_of (br_asks b')
         \<and> (\<exists>d\<in>set (pushed (ops @ [op])). lb_sequence book = Some (dd_final_update_id d)
              \<and> br_last_update_id b' = Some (dd_final_update_id d)
              \<and> unat (lb_ts_event_ns book) = unat (dd_event_time_ms d) * 1000000)" if r: "r = Ok (Some book)" for book
  proof -
    obtain d t where d: "d \<in> set (pushed (ops @ [op]))" and sh: "shown b' d t book"
      using left r unfolding left_by_def by blast
    have bk: "book = published_book b' d t" and st: "br_bridged b'" "br_last_update_id b' = Some (dd_final_update_id d)"
      and wf: "\<not> malformed d t b'" using sh by (simp_all add: shown_def)
    have "bridge_ok b'" "br_symbol b' = symb" using left by (simp_all add: left_by_def tracked_def)
    moreover have "unat (dd_event_time_ms d * 1000000) = unat (dd_event_time_ms d) * 1000000"
      using wf unat_mult_lem [of "dd_event_time_ms d" 1000000] by (simp add: malformed_def)
    ultimately show ?thesis using d st published_book_wf [of b' d t] unfolding bk
      by (auto simp: is_ready_def published_book_def)
  qed
  have "r \<noteq> Panic" "\<forall>e. r = Err e \<longrightarrow> (\<exists>b1. b' = invalidate b1)" using left by (simp_all add: left_by_def)
  then show ?thesis using book by (auto simp: is_ready_def)
qed

section \<open>A concrete feed\<close>

definition demo_pd :: "string \<Rightarrow> decimal option" where
  "demo_pd = map_of [(''99'', 99), (''100'', 100), (''101'', 101), (''1'', 1), (''2'', 2), (''3'', 3), (''0'', 0)]"

definition demo_depth_snapshot :: depth_snapshot where
  "demo_depth_snapshot = \<lparr>dn_last_update_id = 100, dn_bids = [(''99'', ''2'')], dn_asks = [(''101'', ''3'')]\<rparr>"

definition demo_delta :: depth_delta where
  "demo_delta = \<lparr>dd_symbol = ''BTC'', dd_event_time_ms = 1700, dd_first_update_id = 99, dd_final_update_id = 101,
     dd_pu = 98, dd_bids = [(''100'', ''1''), (''99'', ''0'')], dd_asks = []\<rparr>"

lemmas demo_depth_eval = demo_pd_def demo_depth_snapshot_def demo_delta_def depth_run_def new_bridge_def install_snapshot_def
  parse_levels_def valid_book_def drain.simps depth_push_def malformed_def depth_apply_def sequence_valid_def
  update_side_def om_remove_def published_book_def is_ready_def Let_def

theorem depth_book_replays_witness:
  "is_ready (depth_run demo_pd [DPush demo_delta 5, DInstall demo_depth_snapshot] (new_bridge ''BTC''))
   \<and> (\<exists>s ds. linked s ds \<and> subseq ds [demo_delta] \<and> ds \<noteq> [])"
proof -
  let ?ops = "[DPush demo_delta 5, DInstall demo_depth_snapshot]"
  have r: "is_ready (depth_run demo_pd ?ops (new_bridge ''BTC''))" by (simp add: demo_depth_eval max_buffer_def)
  from depth_book_replays [OF r] have "\<exists>s ds. linked s ds \<and> subseq ds (pushed ?ops) \<and> ds \<noteq> []" by blast
  with r show ?thesis by simp
qed

theorem depth_published_sound_witness:
  "\<exists>book b'. depth_exec demo_pd (DPush demo_delta 5) (depth_run demo_pd [DInstall demo_depth_snapshot] (new_bridge ''BTC''))
     = (Ok (Some book), b') \<and> book_wf book"
proof -
  let ?b = "depth_run demo_pd [DInstall demo_depth_snapshot] (new_bridge ''BTC'')"
  have "\<exists>book b'. depth_exec demo_pd (DPush demo_delta 5) ?b = (Ok (Some book), b')" by (simp add: demo_depth_eval)
  then obtain book b' where e: "depth_exec demo_pd (DPush demo_delta 5) ?b = (Ok (Some book), b')" by blast
  from depth_published_sound [OF e] e show ?thesis by blast
qed

end
