(* ===== verification/TextUtil.thy ===== *)
theory TextUtil
  imports Prelude
begin

text \<open>
  The string operations of the standard library that the control plane, the strategies and the venue
  adapters use, on UTF-8 byte lists.
\<close>

section \<open>White space and splitting\<close>


text \<open>The length of the white-space character a UTF-8 text starts with, zero if it starts with none.\<close>

fun ws_bytes :: "nat list \<Rightarrow> nat" where
  "ws_bytes [] = 0"
| "ws_bytes (b # bs) =
     (if (9 \<le> b \<and> b \<le> 13) \<or> b = 32 then 1
      else case bs of
        [] \<Rightarrow> 0
      | c # cs \<Rightarrow>
          if b = 194 \<and> (c = 133 \<or> c = 160) then 2
          else case cs of
            [] \<Rightarrow> 0
          | d # ds \<Rightarrow>
              if b = 225 \<and> c = 154 \<and> d = 128
                 \<or> b = 226 \<and> c = 128 \<and> (128 \<le> d \<and> d \<le> 138 \<or> d = 168 \<or> d = 169 \<or> d = 175)
                 \<or> b = 226 \<and> c = 129 \<and> d = 159
                 \<or> b = 227 \<and> c = 128 \<and> d = 128
              then 3 else 0)"

definition ws_len :: "string \<Rightarrow> nat" where
  "ws_len s = ws_bytes (map of_char s)"

fun split_ws :: "string \<Rightarrow> string \<Rightarrow> string list" where
  "split_ws token [] = (if token = [] then [] else [token])"
| "split_ws token (c # cs) =
     (if ws_len (c # cs) = 0 then split_ws (token @ [c]) cs
      else (if token = [] then [] else [token]) @ split_ws [] (drop (ws_len (c # cs) - 1) cs))"

fun trim_start :: "string \<Rightarrow> string" where
  "trim_start [] = []"
| "trim_start (c # cs) =
     (if ws_len (c # cs) = 0 then c # cs else trim_start (drop (ws_len (c # cs) - 1) cs))"

text \<open>\<open>str::parse\<close> of an unsigned integer below a bound.\<close>

definition parse_below :: "nat \<Rightarrow> string \<Rightarrow> nat option" where
  "parse_below bound s =
     (let digits = (case s of c # cs \<Rightarrow> if c = CHR ''+'' then cs else s | [] \<Rightarrow> [])
      in if digits \<noteq> [] \<and> list_all is_ascii_digit digits \<and> digits_value digits < bound
         then Some (digits_value digits) else None)"

text \<open>A suffix that starts inside a character is never blank, so the blank tail is found bytewise.\<close>

fun trim_end :: "string \<Rightarrow> string" where
  "trim_end [] = []"
| "trim_end (c # cs) = (if is_blank (c # cs) then [] else c # trim_end cs)"

definition trim :: "string \<Rightarrow> string" where
  "trim s = trim_end (trim_start s)"

fun split_char :: "char \<Rightarrow> string \<Rightarrow> string list" where
  "split_char sep [] = [[]]"
| "split_char sep (c # cs) =
     (if c = sep then [] # split_char sep cs
      else case split_char sep cs of piece # pieces \<Rightarrow> (c # piece) # pieces | [] \<Rightarrow> [[c]])"

text \<open>\<open>s.chars().any(char::is_whitespace)\<close> and \<open>s.split_once(c)\<close>.\<close>

fun has_whitespace :: "string \<Rightarrow> bool" where
  "has_whitespace [] = False"
| "has_whitespace (c # cs) = (ws_len (c # cs) \<noteq> 0 \<or> has_whitespace cs)"

definition split_once :: "char \<Rightarrow> string \<Rightarrow> (string \<times> string) option" where
  "split_once sep s =
     (case dropWhile (\<lambda>c. c \<noteq> sep) s of
        [] \<Rightarrow> None
      | _ # rest \<Rightarrow> Some (takeWhile (\<lambda>c. c \<noteq> sep) s, rest))"

section \<open>Printed numbers\<close>

lemma split_at_last:
  assumes "xs @ a # x = ys @ a # y" "\<forall>c\<in>set x. P c" "\<forall>c\<in>set y. P c" "\<not> P a"
  shows "x = y \<and> xs = ys"
proof -
  have tw: "takeWhile P (rev (zs @ a # z)) = rev z" if "\<forall>c\<in>set z. P c" for zs z
    using that assms(4) by (simp add: takeWhile_tail takeWhile_eq_all_conv)
  have "rev x = rev y" using tw [OF assms(2), of xs] tw [OF assms(3), of ys] assms(1) by simp
  then show ?thesis using assms(1) by simp
qed

lemma show_nat_digits: "c \<in> set (show_nat n) \<Longrightarrow> is_ascii_digit c"
proof (induction n rule: show_nat.induct)
  case (1 n)
  have digit: "m < 10 \<Longrightarrow> is_ascii_digit (''0123456789'' ! m)" for m
    unfolding is_ascii_digit_def by (rule nth_mem) simp
  show ?case
  proof (cases "n < 10")
    case True
    then show ?thesis using "1.prems" digit by (simp add: show_nat.simps [of n])
  next
    case False
    then consider "c \<in> set (show_nat (n div 10))" | "c = ''0123456789'' ! (n mod 10)"
      using "1.prems" by (auto simp: show_nat.simps [of n])
    then show ?thesis using "1.IH" [OF False] digit [of "n mod 10"] by cases simp_all
  qed
qed

end
