(* ===== verification/Subscriptions.thy ===== *)
theory Subscriptions
  imports MarketData TextUtil "HOL-Library.Product_Lexorder" "HOL-Library.Multiset"
begin

text \<open>
  Feed supervision and the instrument universe, \<open>rust/crates/pg-marketdata/src/subscription.rs\<close>,
  \<open>supervisor_runtime.rs\<close> and \<open>universe.rs\<close>. An event channel is the list of events it delivers before
  it closes; the backoff sleep has no effect on the state.
\<close>

section \<open>Supervisor\<close>

datatype subscription_state = SsConnected | SsDegraded | SsReconnecting | SsStale | SsFailed

record subscription_status =
  su_state :: subscription_state
  su_reconnect_count :: u64
  su_last_event_ns :: "u64 option"

record subscription_supervisor =
  sv_feeds :: "(string, feed_spec) omap"
  sv_statuses :: "(string, subscription_status) omap"

definition new_supervisor :: subscription_supervisor where
  "new_supervisor = \<lparr>sv_feeds = [], sv_statuses = []\<rparr>"

fun debug_feed_kind :: "feed_kind \<Rightarrow> string" where
  "debug_feed_kind FkTrades = ''Trades''"
| "debug_feed_kind FkBestBidAsk = ''BestBidAsk''"
| "debug_feed_kind FkL2Book = ''L2Book''"
| "debug_feed_kind (FkCandle i) = ''Candle { interval_ns: '' @ show_nat (unat i) @ '' }''"

definition feed_key :: "feed_spec \<Rightarrow> string" where
  "feed_key spec = debug_venue (fs_venue spec) @ '':'' @ fs_asset spec @ '':'' @ debug_feed_kind (fs_kind spec)"

fun feed_spec_for_event :: "market_event \<Rightarrow> feed_spec" where
  "feed_spec_for_event (MTrade e) = \<lparr>fs_venue = tt_venue e, fs_asset = tt_asset e, fs_kind = FkTrades\<rparr>"
| "feed_spec_for_event (MBestBidAsk e) = \<lparr>fs_venue = bb_venue e, fs_asset = bb_asset e, fs_kind = FkBestBidAsk\<rparr>"
| "feed_spec_for_event (ML2Book e) = \<lparr>fs_venue = lb_venue e, fs_asset = lb_asset e, fs_kind = FkL2Book\<rparr>"
| "feed_spec_for_event (MCandle e) =
     \<lparr>fs_venue = cd_venue e, fs_asset = cd_asset e, fs_kind = FkCandle (cd_interval_ns e)\<rparr>"

definition fresh_status :: subscription_status where
  "fresh_status = \<lparr>su_state = SsReconnecting, su_reconnect_count = 0, su_last_event_ns = None\<rparr>"

definition apply_derived_feeds :: "feed_spec list \<Rightarrow> subscription_supervisor \<Rightarrow> subscription_supervisor" where
  "apply_derived_feeds specs s =
     (let (statuses, next_feeds) =
            fold (\<lambda>spec (statuses, next_feeds).
                    (case om_get (feed_key spec) statuses of
                       None \<Rightarrow> om_insert (feed_key spec) fresh_status statuses | Some _ \<Rightarrow> statuses,
                     om_insert (feed_key spec) spec next_feeds)) specs (sv_statuses s, [])
      in \<lparr>sv_feeds = next_feeds, sv_statuses = filter (\<lambda>(k, _). om_get k next_feeds \<noteq> None) statuses\<rparr>)"

definition feed_count :: "subscription_supervisor \<Rightarrow> nat" where
  "feed_count s = length (sv_feeds s)"

definition connected_count :: "subscription_supervisor \<Rightarrow> nat" where
  "connected_count s = length (filter (\<lambda>st. su_state st = SsConnected) (om_values (sv_statuses s)))"

definition all_connected :: "subscription_supervisor \<Rightarrow> bool" where
  "all_connected s \<longleftrightarrow> sv_feeds s \<noteq> [] \<and> connected_count s = length (sv_feeds s)"

definition supervisor_statuses :: "subscription_supervisor \<Rightarrow> (feed_spec \<times> subscription_status) list" where
  "supervisor_statuses s =
     List.map_filter (\<lambda>(k, spec). map_option (\<lambda>st. (spec, st)) (om_get k (sv_statuses s))) (sv_feeds s)"

definition status_of :: "feed_spec \<Rightarrow> subscription_supervisor \<Rightarrow> subscription_status option" where
  "status_of spec s = om_get (feed_key spec) (sv_statuses s)"

text \<open>\<open>get_mut\<close> on a status: \<open>false\<close> when there is none, otherwise the update.\<close>

definition with_status ::
  "string \<Rightarrow> (subscription_status \<Rightarrow> subscription_status) \<Rightarrow> subscription_supervisor \<Rightarrow> bool \<times> subscription_supervisor" where
  "with_status key f s =
     (case om_get key (sv_statuses s) of
        None \<Rightarrow> (False, s)
      | Some st \<Rightarrow> (True, s\<lparr>sv_statuses := om_insert key (f st) (sv_statuses s)\<rparr>))"

definition supervisor_observe :: "market_event \<Rightarrow> subscription_supervisor \<Rightarrow> bool \<times> subscription_supervisor" where
  "supervisor_observe e =
     with_status (feed_key (feed_spec_for_event e))
       (\<lambda>st. st\<lparr>su_last_event_ns := Some (event_ts_recv_ns e), su_state := SsConnected\<rparr>)"

definition mark_reconnecting :: "feed_spec \<Rightarrow> subscription_supervisor \<Rightarrow> bool \<times> subscription_supervisor" where
  "mark_reconnecting spec =
     with_status (feed_key spec)
       (\<lambda>st. st\<lparr>su_state := SsReconnecting, su_reconnect_count := saturating_add (su_reconnect_count st) 1\<rparr>)"

definition mark_failed :: "feed_spec \<Rightarrow> subscription_supervisor \<Rightarrow> bool \<times> subscription_supervisor" where
  "mark_failed spec = with_status (feed_key spec) (\<lambda>st. st\<lparr>su_state := SsFailed\<rparr>)"

definition event_stale :: "u64 \<Rightarrow> u64 \<Rightarrow> subscription_status \<Rightarrow> bool" where
  "event_stale now_ns max_staleness_ns st \<longleftrightarrow>
     (case su_last_event_ns st of None \<Rightarrow> True | Some t \<Rightarrow> max_staleness_ns < saturating_sub now_ns t)"

definition refresh_status :: "u64 \<Rightarrow> u64 \<Rightarrow> subscription_status \<Rightarrow> subscription_status" where
  "refresh_status now_ns max_staleness_ns st =
     (if su_state st = SsFailed then st
      else if event_stale now_ns max_staleness_ns st then st\<lparr>su_state := SsStale\<rparr> else st)"

definition refresh_staleness ::
  "u64 \<Rightarrow> u64 \<Rightarrow> subscription_supervisor \<Rightarrow> (unit, unit) outcome \<times> subscription_supervisor" where
  "refresh_staleness now_ns max_staleness_ns s =
     (if 0 < max_staleness_ns
      then (Ok (), s\<lparr>sv_statuses := map (\<lambda>(k, st). (k, refresh_status now_ns max_staleness_ns st)) (sv_statuses s)\<rparr>)
      else (Panic, s))"

section \<open>Event loop\<close>

record subscription_runtime =
  rt_reconnect_backoff_ns :: nat
  rt_state :: subscription_state

definition new_subscription_runtime :: subscription_runtime where
  "new_subscription_runtime = \<lparr>rt_reconnect_backoff_ns = 1000000000, rt_state = SsReconnecting\<rparr>"

definition with_reconnect_backoff :: "nat \<Rightarrow> subscription_runtime" where
  "with_reconnect_backoff backoff = \<lparr>rt_reconnect_backoff_ns = backoff, rt_state = SsReconnecting\<rparr>"

fun consume_loop ::
  "(market_event \<Rightarrow> (market_data_error, unit, 'h) stateful) \<Rightarrow> market_event list \<Rightarrow> 'h
     \<Rightarrow> subscription_runtime \<Rightarrow> (market_data_error, unit) outcome \<times> 'h \<times> subscription_runtime" where
  "consume_loop on_event [] h rt =
     (Err (MdDisconnected ''market event channel closed; subscription restart required''), h, rt\<lparr>rt_state := SsReconnecting\<rparr>)"
| "consume_loop on_event (e # es) h rt =
     (case on_event e h of
        (Ok _, h') \<Rightarrow> consume_loop on_event es h' rt
      | (Err err, h') \<Rightarrow> (Err err, h', rt\<lparr>rt_state := SsDegraded\<rparr>)
      | (Panic, h') \<Rightarrow> (Panic, h', rt))"

definition consume_events ::
  "(market_event \<Rightarrow> (market_data_error, unit, 'h) stateful) \<Rightarrow> market_event list \<Rightarrow> 'h
     \<Rightarrow> subscription_runtime \<Rightarrow> (market_data_error, unit) outcome \<times> 'h \<times> subscription_runtime" where
  "consume_events on_event events h rt = consume_loop on_event events h (rt\<lparr>rt_state := SsConnected\<rparr>)"

section \<open>Universe\<close>

datatype product_type = Perpetual | Stock | Etf | Future | Forex | UnknownProduct

record instrument_descriptor =
  in_venue :: venue
  in_symbol :: string
  in_product_type :: product_type
  in_venue_instrument_id :: "string option"
  in_base :: "string option"
  in_quote :: "string option"
  in_exchange :: "string option"
  in_primary_exchange :: "string option"
  in_currency :: "string option"
  in_size_decimals :: "32 word option"
  in_tick_size :: "decimal option"
  in_lot_size :: "decimal option"
  in_min_size :: "decimal option"
  in_mark_price :: "decimal option"
  in_mid_price :: "decimal option"
  in_spread_bps :: "decimal option"
  in_day_notional_volume :: "decimal option"
  in_open_interest :: "decimal option"
  in_funding_rate :: "decimal option"
  in_max_leverage :: "32 word option"
  in_tradable :: bool

definition instrument_key :: "instrument_descriptor \<Rightarrow> string" where
  "instrument_key i = debug_venue (in_venue i) @ '':'' @ in_symbol i"

record universe_snapshot =
  us_venue :: venue
  us_discovered_at_ns :: u64
  us_instruments :: "instrument_descriptor list"

record universe_filter =
  uf_min_day_notional_volume :: "decimal option"
  uf_min_open_interest :: "decimal option"
  uf_max_spread_bps :: "decimal option"
  uf_min_price :: "decimal option"
  uf_max_price :: "decimal option"
  uf_include_symbols :: "string set"
  uf_exclude_symbols :: "string set"
  uf_top_n :: "nat option"

definition at_least :: "decimal option \<Rightarrow> decimal option \<Rightarrow> bool" where
  "at_least minimum value = (case minimum of Some m \<Rightarrow> (case value of Some v \<Rightarrow> m \<le> v | None \<Rightarrow> False) | None \<Rightarrow> True)"

definition at_most :: "decimal option \<Rightarrow> decimal option \<Rightarrow> bool" where
  "at_most maximum value = (case maximum of Some m \<Rightarrow> (case value of Some v \<Rightarrow> v \<le> m | None \<Rightarrow> False) | None \<Rightarrow> True)"

definition instrument_price :: "instrument_descriptor \<Rightarrow> decimal option" where
  "instrument_price i = (case in_mark_price i of Some p \<Rightarrow> Some p | None \<Rightarrow> in_mid_price i)"

definition eligible :: "universe_filter \<Rightarrow> instrument_descriptor \<Rightarrow> bool" where
  "eligible f i \<longleftrightarrow>
     in_tradable i
     \<and> (uf_include_symbols f = {} \<or> in_symbol i \<in> uf_include_symbols f)
     \<and> in_symbol i \<notin> uf_exclude_symbols f
     \<and> at_least (uf_min_day_notional_volume f) (in_day_notional_volume i)
     \<and> at_least (uf_min_open_interest f) (in_open_interest i)
     \<and> at_most (uf_max_spread_bps f) (in_spread_bps i)
     \<and> at_least (uf_min_price f) (instrument_price i)
     \<and> at_most (uf_max_price f) (instrument_price i)"

definition volume_rank :: "instrument_descriptor \<Rightarrow> decimal \<times> string" where
  "volume_rank i = (- (case in_day_notional_volume i of Some v \<Rightarrow> v | None \<Rightarrow> 0), in_symbol i)"

definition filter_apply :: "universe_filter \<Rightarrow> universe_snapshot \<Rightarrow> instrument_descriptor list" where
  "filter_apply f snapshot =
     (let selected = filter (eligible f) (us_instruments snapshot);
          ranked = (if list_ex (\<lambda>i. in_day_notional_volume i \<noteq> None) selected
                    then sort_key volume_rank selected else selected)
      in case uf_top_n f of Some n \<Rightarrow> take n ranked | None \<Rightarrow> ranked)"

section \<open>Feed keys identify feeds\<close>

lemma debug_venue_prefix:
  assumes "debug_venue v @ CHR '':'' # x = debug_venue w @ CHR '':'' # y"
  shows "v = w \<and> x = y"
  using assms by (cases v; cases w) simp_all

lemma feed_kind_suffix:
  assumes "xs @ CHR '':'' # debug_feed_kind k = ys @ CHR '':'' # debug_feed_kind l"
  shows "k = l \<and> xs = ys"
proof (cases "\<exists>i j. k = FkCandle i \<and> l = FkCandle j")
  case True
  then obtain i j where k: "k = FkCandle i" "l = FkCandle j" by blast
  have eq: "(xs @ '':Candle { interval_ns:'') @ CHR '' '' # show_nat (unat i) = (ys @ '':Candle { interval_ns:'') @ CHR '' '' # show_nat (unat j)"
    using assms unfolding k by simp
  have "show_nat (unat i) = show_nat (unat j) \<and> xs @ '':Candle { interval_ns:'' = ys @ '':Candle { interval_ns:''"
    by (rule split_at_last [OF eq, where P = is_ascii_digit]) (auto dest: show_nat_digits simp: is_ascii_digit_def)
  then show ?thesis using show_nat_inj [of "unat i" "unat j"] by (auto simp: k word_unat_eq_iff)
next
  case False
  have ends: "last (debug_feed_kind k) = last (debug_feed_kind l)"
    using arg_cong [OF assms, of last] by (cases k; cases l) simp_all
  then have plain: "\<forall>c\<in>set (debug_feed_kind k). c \<noteq> CHR '':''" "\<forall>c\<in>set (debug_feed_kind l). c \<noteq> CHR '':''"
    using False by (cases k; cases l; simp)+
  have "debug_feed_kind k = debug_feed_kind l \<and> xs = ys"
    by (rule split_at_last [OF assms, where P = "\<lambda>c. c \<noteq> CHR '':''"]) (use plain in simp_all)
  then show ?thesis using False ends by (cases k; cases l) auto
qed

lemma feed_key_inj: "feed_key a = feed_key b \<Longrightarrow> a = b"
  unfolding feed_key_def
  using debug_venue_prefix [of "fs_venue a" _ "fs_venue b"] feed_kind_suffix [of "fs_asset a" "fs_kind a" "fs_asset b" "fs_kind b"]
  by (simp add: feed_spec.equality)

section \<open>Supervision over any sequence of calls\<close>

datatype supervisor_op =
  SvApply "feed_spec list" | SvObserve market_event | SvReconnecting feed_spec | SvFailed feed_spec | SvRefresh u64 u64

fun supervisor_exec :: "supervisor_op \<Rightarrow> subscription_supervisor \<Rightarrow> subscription_supervisor" where
  "supervisor_exec (SvApply specs) s = apply_derived_feeds specs s"
| "supervisor_exec (SvObserve e) s = snd (supervisor_observe e s)"
| "supervisor_exec (SvReconnecting spec) s = snd (mark_reconnecting spec s)"
| "supervisor_exec (SvFailed spec) s = snd (mark_failed spec s)"
| "supervisor_exec (SvRefresh now_ns max_ns) s = snd (refresh_staleness now_ns max_ns s)"

definition supervisor_run :: "supervisor_op list \<Rightarrow> subscription_supervisor" where
  "supervisor_run ops = fold supervisor_exec ops new_supervisor"

text \<open>A connected status carries the receive time of an event of its own feed.\<close>

definition proved_by :: "supervisor_op list \<Rightarrow> string \<Rightarrow> subscription_status \<Rightarrow> bool" where
  "proved_by ops k st \<longleftrightarrow> (su_state st = SsConnected \<longrightarrow>
     (\<exists>e. SvObserve e \<in> set ops \<and> feed_key (feed_spec_for_event e) = k \<and> su_last_event_ns st = Some (event_ts_recv_ns e)))"

definition statuses_ok :: "supervisor_op list \<Rightarrow> (string, subscription_status) omap \<Rightarrow> bool" where
  "statuses_ok ops m \<longleftrightarrow> om_sorted m \<and> (\<forall>k st. om_get k m = Some st \<longrightarrow> proved_by ops k st)"

definition feeds_ok :: "(string, feed_spec) omap \<Rightarrow> bool" where
  "feeds_ok m \<longleftrightarrow> om_sorted m \<and> (\<forall>k spec. om_get k m = Some spec \<longrightarrow> feed_key spec = k)"

definition supervisor_inv :: "supervisor_op list \<Rightarrow> subscription_supervisor \<Rightarrow> bool" where
  "supervisor_inv ops s \<longleftrightarrow>
     feeds_ok (sv_feeds s) \<and> statuses_ok ops (sv_statuses s)
     \<and> (\<forall>k. om_get k (sv_statuses s) = None \<longleftrightarrow> om_get k (sv_feeds s) = None)"

lemma proved_by_more: "proved_by ops k st \<Longrightarrow> proved_by (ops @ ops') k st"
  by (auto simp: proved_by_def)

lemma inv_more: "supervisor_inv ops s \<Longrightarrow> supervisor_inv (ops @ ops') s"
  by (auto simp: supervisor_inv_def statuses_ok_def intro: proved_by_more)

lemma statuses_ok_put: "statuses_ok ops m \<Longrightarrow> proved_by ops k st \<Longrightarrow> statuses_ok ops (om_insert k st m)"
  by (auto simp: statuses_ok_def om_insert_sorted om_get_insert)

lemma feeds_ok_put: "feeds_ok m \<Longrightarrow> feeds_ok (om_insert (feed_key spec) spec m)"
  by (auto simp: feeds_ok_def om_insert_sorted om_get_insert)

lemma with_status_inv:
  assumes "supervisor_inv ops s" "\<And>st. om_get k (sv_statuses s) = Some st \<Longrightarrow> proved_by ops k (f st)"
  shows "supervisor_inv ops (snd (with_status k f s))"
proof (cases "om_get k (sv_statuses s)")
  case None
  then show ?thesis using assms(1) by (simp add: with_status_def)
next
  case (Some st)
  have "om_get k (sv_feeds s) \<noteq> None" using assms(1) Some unfolding supervisor_inv_def by (metis option.distinct(1))
  then show ?thesis using assms(1) Some statuses_ok_put [OF _ assms(2) [OF Some], of "sv_statuses s"]
    by (auto simp: supervisor_inv_def with_status_def om_get_insert statuses_ok_def)
qed

lemma om_get_map: "om_get k (map (\<lambda>(k, v). (k, f v)) m) = map_option f (om_get k m)"
  by (simp add: om_get_def map_of_map)

lemma om_sorted_map: "om_sorted (map (\<lambda>(k, v). (k, f v)) m) = om_sorted m"
  by (simp add: om_sorted_def comp_def case_prod_unfold)

lemma om_get_filter:
  assumes "om_sorted m"
  shows "om_get k (filter (\<lambda>(k, _). P k) m) = (if P k then om_get k m else None)"
  using om_sorted_distinct [OF assms] by (induction m) (auto simp: om_get_def dest: weak_map_of_SomeI)

lemma apply_derived_inv:
  assumes "supervisor_inv ops s"
  shows "supervisor_inv ops (apply_derived_feeds specs s)"
proof -
  let ?step = "\<lambda>spec (statuses, next_feeds).
      (case om_get (feed_key spec) statuses of None \<Rightarrow> om_insert (feed_key spec) fresh_status statuses | Some _ \<Rightarrow> statuses,
       om_insert (feed_key spec) spec next_feeds)"
  have step: "statuses_ok ops (fst (fold ?step specs (m, n))) \<and> feeds_ok (snd (fold ?step specs (m, n)))
      \<and> (\<forall>k. om_get k (snd (fold ?step specs (m, n))) \<noteq> None \<longrightarrow> om_get k (fst (fold ?step specs (m, n))) \<noteq> None)"
    if "statuses_ok ops m" "feeds_ok n" "\<forall>k. om_get k n \<noteq> None \<longrightarrow> om_get k m \<noteq> None" for m n
    using that
  proof (induction specs arbitrary: m n)
    case (Cons spec specs)
    let ?m = "case om_get (feed_key spec) m of None \<Rightarrow> om_insert (feed_key spec) fresh_status m | Some _ \<Rightarrow> m"
    let ?n = "om_insert (feed_key spec) spec n"
    have "proved_by ops (feed_key spec) fresh_status" by (simp add: proved_by_def fresh_status_def)
    then have "statuses_ok ops ?m" using Cons.prems(1) statuses_ok_put by (simp split: option.split)
    moreover have "feeds_ok ?n" using Cons.prems(2) feeds_ok_put by blast
    moreover have "\<forall>k. om_get k ?n \<noteq> None \<longrightarrow> om_get k ?m \<noteq> None"
      using Cons.prems by (auto simp: statuses_ok_def feeds_ok_def om_get_insert split: option.split)
    ultimately show ?case using Cons.IH [of ?m ?n] by simp
  qed simp
  obtain m n where f: "fold ?step specs (sv_statuses s, []) = (m, n)" by (cases "fold ?step specs (sv_statuses s, [])")
  have pre: "statuses_ok ops (sv_statuses s)" "feeds_ok []"
    "\<forall>k. om_get k ([] :: (string, feed_spec) omap) \<noteq> None \<longrightarrow> om_get k (sv_statuses s) \<noteq> None"
    using assms by (simp_all add: supervisor_inv_def feeds_ok_def om_sorted_def om_get_def)
  have "statuses_ok ops m" "feeds_ok n" "\<forall>k. om_get k n \<noteq> None \<longrightarrow> om_get k m \<noteq> None"
    using step [OF pre] unfolding f by simp_all
  then have so: "om_sorted m" and pr: "\<And>k st. om_get k m = Some st \<Longrightarrow> proved_by ops k st" and fe: "feeds_ok n"
    and sub: "\<And>k. om_get k n \<noteq> None \<Longrightarrow> om_get k m \<noteq> None" by (simp_all add: statuses_ok_def)
  let ?m = "filter (\<lambda>(k, _). om_get k n \<noteq> None) m"
  have get: "om_get k ?m = (if om_get k n \<noteq> None then om_get k m else None)" for k by (rule om_get_filter [OF so])
  have "om_sorted ?m" using so unfolding om_sorted_def sorted_wrt_map by (rule sorted_wrt_filter)
  then have "statuses_ok ops ?m" unfolding statuses_ok_def get using pr by (simp split: if_splits)
  moreover have "om_get k ?m = None \<longleftrightarrow> om_get k n = None" for k using sub [of k] unfolding get by auto
  moreover have "apply_derived_feeds specs s = \<lparr>sv_feeds = n, sv_statuses = ?m\<rparr>" by (simp add: apply_derived_feeds_def f)
  ultimately show ?thesis using fe unfolding supervisor_inv_def by (simp only: subscription_supervisor.select_convs) blast
qed

lemma supervisor_exec_inv:
  assumes "supervisor_inv ops s"
  shows "supervisor_inv (ops @ [op]) (supervisor_exec op s)"
proof -
  let ?ops = "ops @ [op]"
  have inv: "supervisor_inv ?ops s" using assms by (rule inv_more)
  show ?thesis
  proof (cases op)
    case (SvApply specs)
    then show ?thesis using apply_derived_inv [OF inv] by simp
  next
    case (SvObserve e)
    then have "proved_by ?ops (feed_key (feed_spec_for_event e))
        (st\<lparr>su_last_event_ns := Some (event_ts_recv_ns e), su_state := SsConnected\<rparr>)" for st
      by (auto simp: proved_by_def)
    then show ?thesis using with_status_inv [OF inv] SvObserve by (simp add: supervisor_observe_def)
  next
    case (SvReconnecting spec)
    then show ?thesis using with_status_inv [OF inv] by (simp add: mark_reconnecting_def proved_by_def)
  next
    case (SvFailed spec)
    then show ?thesis using with_status_inv [OF inv] by (simp add: mark_failed_def proved_by_def)
  next
    case (SvRefresh now_ns max_ns)
    have "proved_by ?ops k st \<Longrightarrow> proved_by ?ops k (refresh_status now_ns max_ns st)" for k st
      by (simp add: proved_by_def refresh_status_def)
    then show ?thesis using inv SvRefresh
      by (auto simp: refresh_staleness_def supervisor_inv_def statuses_ok_def om_get_map om_sorted_map)
  qed
qed

lemma supervisor_run_inv: "supervisor_inv ops (supervisor_run ops)"
proof (induction ops rule: rev_induct)
  case Nil
  show ?case by (simp add: supervisor_run_def new_supervisor_def supervisor_inv_def feeds_ok_def statuses_ok_def om_sorted_def om_get_def)
next
  case (snoc op ops)
  then show ?case using supervisor_exec_inv by (simp add: supervisor_run_def)
qed

lemma filter_all_length: "length (filter P xs) = length xs \<longleftrightarrow> (\<forall>x\<in>set xs. P x)"
  by (induction xs) (auto simp: le_imp_less_Suc less_imp_neq dest: order.strict_implies_not_eq)

lemma all_connected_iff:
  assumes "supervisor_inv ops s"
  shows "all_connected s \<longleftrightarrow> sv_feeds s \<noteq> [] \<and> (\<forall>k st. om_get k (sv_statuses s) = Some st \<longrightarrow> su_state st = SsConnected)"
proof -
  have so: "om_sorted (sv_feeds s)" "om_sorted (sv_statuses s)"
    using assms by (simp_all add: supervisor_inv_def feeds_ok_def statuses_ok_def)
  have keys: "k \<in> fst ` set m \<longleftrightarrow> om_get k m \<noteq> None" for k and m :: "(string, 'v) omap"
    by (simp add: om_get_def map_of_eq_None_iff)
  have "fst ` set (sv_statuses s) = fst ` set (sv_feeds s)"
    using assms by (auto simp: set_eq_iff keys supervisor_inv_def)
  then have "length (sv_statuses s) = length (sv_feeds s)"
    using distinct_card [OF om_sorted_distinct [OF so(1)]] distinct_card [OF om_sorted_distinct [OF so(2)]] by simp
  then have "all_connected s \<longleftrightarrow> sv_feeds s \<noteq> [] \<and> (\<forall>st\<in>set (om_values (sv_statuses s)). su_state st = SsConnected)"
    using filter_all_length [of "\<lambda>st. su_state st = SsConnected" "om_values (sv_statuses s)"]
    by (simp add: all_connected_def connected_count_def om_values_def)
  then show ?thesis by (force simp: om_values_def om_entries_get [OF so(2), symmetric])
qed

lemma refreshed_connected:
  "su_state (refresh_status now_ns max_ns st) = SsConnected \<longleftrightarrow>
     su_state st = SsConnected \<and> (\<exists>t. su_last_event_ns st = Some t \<and> saturating_sub now_ns t \<le> max_ns)"
  by (auto simp: refresh_status_def event_stale_def not_less split: option.splits)

lemma feed_mem:
  assumes "supervisor_inv ops s"
  shows "spec \<in> set (om_values (sv_feeds s)) \<longleftrightarrow> om_get (feed_key spec) (sv_feeds s) = Some spec"
proof -
  have so: "om_sorted (sv_feeds s)" and key: "\<And>k. om_get k (sv_feeds s) = Some spec \<Longrightarrow> k = feed_key spec"
    using assms by (auto simp: supervisor_inv_def feeds_ok_def)
  have "spec \<in> set (om_values (sv_feeds s)) \<longleftrightarrow> (\<exists>k. om_get k (sv_feeds s) = Some spec)"
    unfolding om_values_def om_entries_get [OF so, symmetric] by force
  then show ?thesis using key by blast
qed

lemma status_dom:
  assumes "supervisor_inv ops s"
  shows "om_get k (sv_statuses s) \<noteq> None \<longleftrightarrow> (\<exists>spec\<in>set (om_values (sv_feeds s)). k = feed_key spec)"
  using assms unfolding feed_mem [OF assms] Bex_def supervisor_inv_def feeds_ok_def by (metis not_None_eq)

lemma each_status:
  assumes "supervisor_inv ops s"
  shows "(\<forall>k st. om_get k (sv_statuses s) = Some st \<longrightarrow> P st) \<longleftrightarrow>
    (\<forall>spec\<in>set (om_values (sv_feeds s)). \<exists>st. status_of spec s = Some st \<and> P st)"
  using status_dom [OF assms] unfolding status_of_def by (metis not_None_eq option.inject)

lemma connected_event:
  assumes "supervisor_inv ops s" "status_of spec s = Some st" "su_state st = SsConnected" "su_last_event_ns st = Some t"
  shows "\<exists>e. SvObserve e \<in> set ops \<and> feed_spec_for_event e = spec \<and> event_ts_recv_ns e = t"
  using assms feed_key_inj unfolding supervisor_inv_def statuses_ok_def proved_by_def status_of_def by (metis option.inject)

text \<open>
  The market is only called connected on fresh evidence. After any calls of the supervisor, its
  statuses belong exactly to the derived feeds; and after a staleness check, \<open>all_connected\<close> holds if
  and only if there are feeds and every one of them was connected with an event within the bound. Each
  such feed had an event of exactly that venue, asset and kind, received within the bound: an event of
  one feed never vouches for another.
\<close>

theorem supervisor_connected_exact:
  assumes "0 < max_ns" "refresh_staleness now_ns max_ns (supervisor_run ops) = (r, s)"
  shows "r = Ok () \<and> sv_feeds s = sv_feeds (supervisor_run ops)
    \<and> (\<forall>k. om_get k (sv_statuses s) \<noteq> None \<longleftrightarrow> om_get k (sv_feeds s) \<noteq> None)
    \<and> (all_connected s \<longleftrightarrow> sv_feeds s \<noteq> [] \<and> (\<forall>spec\<in>set (om_values (sv_feeds s)). \<exists>st t.
          status_of spec (supervisor_run ops) = Some st \<and> su_state st = SsConnected
          \<and> su_last_event_ns st = Some t \<and> saturating_sub now_ns t \<le> max_ns))
    \<and> (all_connected s \<longrightarrow> (\<forall>spec\<in>set (om_values (sv_feeds s)). \<exists>e. SvObserve e \<in> set ops
          \<and> feed_spec_for_event e = spec \<and> saturating_sub now_ns (event_ts_recv_ns e) \<le> max_ns))"
proof -
  let ?s = "supervisor_run ops"
  have inv: "supervisor_inv ops ?s" by (rule supervisor_run_inv)
  have s: "r = Ok ()" "s = ?s\<lparr>sv_statuses := map (\<lambda>(k, st). (k, refresh_status now_ns max_ns st)) (sv_statuses ?s)\<rparr>"
    using assms by (simp_all add: refresh_staleness_def)
  have inv': "supervisor_inv (ops @ [SvRefresh now_ns max_ns]) s"
    using supervisor_exec_inv [OF inv, of "SvRefresh now_ns max_ns"] assms by simp
  have st: "status_of spec s = map_option (refresh_status now_ns max_ns) (status_of spec ?s)" for spec
    by (simp add: s(2) om_get_map status_of_def)
  have feeds: "sv_feeds s = sv_feeds ?s" by (simp add: s(2))
  have each: "(\<exists>st. map_option (refresh_status now_ns max_ns) (status_of spec ?s) = Some st \<and> su_state st = SsConnected) \<longleftrightarrow>
      (\<exists>st t. status_of spec ?s = Some st \<and> su_state st = SsConnected \<and> su_last_event_ns st = Some t \<and> saturating_sub now_ns t \<le> max_ns)" for spec
    by (cases "status_of spec ?s") (simp_all add: refreshed_connected)
  have iff: "all_connected s \<longleftrightarrow> sv_feeds s \<noteq> [] \<and> (\<forall>spec\<in>set (om_values (sv_feeds s)). \<exists>st t.
          status_of spec ?s = Some st \<and> su_state st = SsConnected
          \<and> su_last_event_ns st = Some t \<and> saturating_sub now_ns t \<le> max_ns)"
    unfolding all_connected_iff [OF inv'] each_status [OF inv'] st each ..
  have "\<forall>k. om_get k (sv_statuses s) \<noteq> None \<longleftrightarrow> om_get k (sv_feeds s) \<noteq> None"
    using inv' unfolding supervisor_inv_def by metis
  moreover have "all_connected s \<longrightarrow> (\<forall>spec\<in>set (om_values (sv_feeds s)). \<exists>e. SvObserve e \<in> set ops
          \<and> feed_spec_for_event e = spec \<and> saturating_sub now_ns (event_ts_recv_ns e) \<le> max_ns)"
    unfolding iff using connected_event [OF inv] by metis
  ultimately show ?thesis using s(1) feeds iff by (intro conjI)
qed

theorem supervisor_connected_exact_witness:
  "all_connected (snd (refresh_staleness 20 15 (supervisor_run
     [SvApply [\<lparr>fs_venue = Hyperliquid, fs_asset = ''HYPE'', fs_kind = FkTrades\<rparr>], SvObserve (MTrade (demo_trade 11 5))])))
   \<and> saturating_sub 20 11 \<le> 15"
proof -
  let ?spec = "\<lparr>fs_venue = Hyperliquid, fs_asset = ''HYPE'', fs_kind = FkTrades\<rparr>"
  let ?ops = "[SvApply [?spec], SvObserve (MTrade (demo_trade 11 5))]"
  obtain r s where s: "refresh_staleness 20 15 (supervisor_run ?ops) = (r, s)"
    by (cases "refresh_staleness 20 15 (supervisor_run ?ops)")
  have run: "supervisor_run ?ops = \<lparr>sv_feeds = [(feed_key ?spec, ?spec)], sv_statuses = [(feed_key ?spec,
      \<lparr>su_state = SsConnected, su_reconnect_count = 0, su_last_event_ns = Some 11\<rparr>)]\<rparr>"
    by (simp add: supervisor_run_def new_supervisor_def apply_derived_feeds_def supervisor_observe_def with_status_def
        fresh_status_def om_get_def demo_trade_def)
  have fresh: "saturating_sub 20 11 \<le> (15::u64)" by (simp add: saturating_sub_def)
  have "0 < (15::u64)" by simp
  from supervisor_connected_exact [OF this s] have "sv_feeds s = sv_feeds (supervisor_run ?ops)"
    "all_connected s \<longleftrightarrow> sv_feeds s \<noteq> [] \<and> (\<forall>spec\<in>set (om_values (sv_feeds s)). \<exists>st t.
          status_of spec (supervisor_run ?ops) = Some st \<and> su_state st = SsConnected
          \<and> su_last_event_ns st = Some t \<and> saturating_sub 20 t \<le> 15)" by blast+
  then have "all_connected s" using fresh by (simp add: run om_values_def status_of_def om_get_def)
  then show ?thesis using s fresh by simp
qed

section \<open>Selection of instruments\<close>

text \<open>
  The universe is exactly the best eligible instruments. The filter returns the requested number
  of tradable instruments that meet every bound, each as often as the snapshot lists it; when any
  volume is known they come by falling volume and then by symbol, and no instrument left out ranks
  before one that is kept; otherwise they keep the provider's order.
\<close>

theorem universe_selection_exact:
  "let sel = filter (eligible f) (us_instruments snapshot); r = filter_apply f snapshot in
    mset r \<subseteq># mset sel
    \<and> length r = (case uf_top_n f of Some n \<Rightarrow> min n (length sel) | None \<Rightarrow> length sel)
    \<and> (if list_ex (\<lambda>i. in_day_notional_volume i \<noteq> None) sel
       then sorted (map volume_rank r) \<and> (\<forall>y\<in>set r. \<forall>x\<in>#mset sel - mset r. volume_rank y \<le> volume_rank x)
       else r = take (length r) sel)"
proof -
  define sel r where "sel = filter (eligible f) (us_instruments snapshot)" and "r = filter_apply f snapshot"
  define ranked where "ranked = (if list_ex (\<lambda>i. in_day_notional_volume i \<noteq> None) sel then sort_key volume_rank sel else sel)"
  define n where "n = (case uf_top_n f of Some n \<Rightarrow> min n (length sel) | None \<Rightarrow> length sel)"
  have len: "length ranked = length sel" by (simp add: ranked_def)
  have "r = (case uf_top_n f of Some n \<Rightarrow> take n ranked | None \<Rightarrow> ranked)"
    unfolding r_def filter_apply_def Let_def sel_def [symmetric] ranked_def ..
  then have r: "r = take n ranked" by (cases "uf_top_n f") (simp_all add: n_def len [symmetric] min_def)
  have split: "mset sel = mset r + mset (drop n ranked)"
    unfolding r by (simp add: ranked_def flip: mset_append)
  have lr: "length r = n" by (simp add: r len n_def split: option.split)
  have "sorted (map volume_rank ranked) \<Longrightarrow> sorted (map volume_rank r) \<and> (\<forall>y\<in>set r. \<forall>x\<in>set (drop n ranked). volume_rank y \<le> volume_rank x)"
    unfolding r using sorted_append [of "map volume_rank (take n ranked)" "map volume_rank (drop n ranked)"]
    by (simp flip: map_append)
  moreover have "mset sel - mset r = mset (drop n ranked)" by (simp add: split)
  ultimately show ?thesis using split lr unfolding Let_def sel_def [symmetric] r_def [symmetric]
    by (auto simp: ranked_def n_def [symmetric] r)
qed

definition demo_instrument :: "string \<Rightarrow> decimal \<Rightarrow> instrument_descriptor" where
  "demo_instrument symbol volume =
     \<lparr>in_venue = Hyperliquid, in_symbol = symbol, in_product_type = Perpetual, in_venue_instrument_id = None, in_base = None,
      in_quote = None, in_exchange = None, in_primary_exchange = None, in_currency = None, in_size_decimals = None,
      in_tick_size = None, in_lot_size = None, in_min_size = None, in_mark_price = None, in_mid_price = None,
      in_spread_bps = None, in_day_notional_volume = Some volume, in_open_interest = None, in_funding_rate = None,
      in_max_leverage = None, in_tradable = True\<rparr>"

definition demo_universe_filter :: universe_filter where
  "demo_universe_filter =
     \<lparr>uf_min_day_notional_volume = Some 3, uf_min_open_interest = None, uf_max_spread_bps = None, uf_min_price = None,
      uf_max_price = None, uf_include_symbols = {}, uf_exclude_symbols = {}, uf_top_n = Some 1\<rparr>"

theorem universe_selection_exact_witness:
  "\<exists>i. filter_apply demo_universe_filter \<lparr>us_venue = Hyperliquid, us_discovered_at_ns = 0,
     us_instruments = [demo_instrument ''A'' 5, demo_instrument ''B'' 2, demo_instrument ''C'' 7]\<rparr> = [i]"
proof -
  let ?snap = "\<lparr>us_venue = Hyperliquid, us_discovered_at_ns = 0,
     us_instruments = [demo_instrument ''A'' 5, demo_instrument ''B'' 2, demo_instrument ''C'' 7]\<rparr>"
  have "filter (eligible demo_universe_filter) (us_instruments ?snap) = [demo_instrument ''A'' 5, demo_instrument ''C'' 7]"
    by (simp add: eligible_def demo_universe_filter_def demo_instrument_def at_least_def at_most_def)
  with universe_selection_exact [of demo_universe_filter ?snap] have "length (filter_apply demo_universe_filter ?snap) = 1"
    by (simp add: Let_def demo_universe_filter_def)
  then show ?thesis by (simp add: length_Suc_conv)
qed

end
