(* ===== verification/Journal.thy ===== *)
theory Journal
  imports Prelude
begin

text \<open>
  The local event journal, \<open>rust/crates/pg-journal\<close>, and its reader, \<open>rust/crates/pg-replay\<close>. A file is
  its bytes; \<open>serde_json\<close> is a pair of parameters, its writer \<open>ser\<close> and its parser \<open>de\<close>. Each append may
  fail at opening, after any part of the text was written, or at the final sync.
\<close>

section \<open>Appending\<close>

datatype journal_error = OpenFailed | WriteFailed | SyncFailed

datatype journal_fault = NoJournalFault | AtOpen | AfterBytes nat | AtSync

definition newline :: char where
  "newline = CHR 0x0A"

definition return_char :: char where
  "return_char = CHR 0x0D"

definition journal_append ::
  "('v \<Rightarrow> string) \<Rightarrow> journal_fault \<Rightarrow> 'v \<Rightarrow> string \<Rightarrow> (journal_error, unit) outcome \<times> string" where
  "journal_append ser fault event contents =
     (let text = ser event @ [newline] in
      case fault of
        NoJournalFault \<Rightarrow> (Ok (), contents @ text)
      | AtOpen \<Rightarrow> (Err OpenFailed, contents)
      | AfterBytes n \<Rightarrow> (Err WriteFailed, contents @ take n text)
      | AtSync \<Rightarrow> (Err SyncFailed, contents @ text))"

section \<open>Reading\<close>

text \<open>\<open>BufRead::lines\<close>: the text between newlines, a final piece only if it is not empty, and one
  carriage return dropped before the newline.\<close>

fun split_lines :: "string \<Rightarrow> string \<Rightarrow> string list" where
  "split_lines acc [] = (if acc = [] then [] else [acc])"
| "split_lines acc (c # cs) =
     (if c = newline
      then (if acc \<noteq> [] \<and> last acc = return_char then butlast acc else acc) # split_lines [] cs
      else split_lines (acc @ [c]) cs)"

fun parse_all :: "(string \<Rightarrow> 'v option) \<Rightarrow> string list \<Rightarrow> 'v list option" where
  "parse_all de [] = Some []"
| "parse_all de (l # ls) =
     (case de l of None \<Rightarrow> None | Some v \<Rightarrow> map_option (\<lambda>vs. v # vs) (parse_all de ls))"

definition read_jsonl :: "(string \<Rightarrow> 'v option) \<Rightarrow> string \<Rightarrow> 'v list option" where
  "read_jsonl de contents = parse_all de (split_lines [] contents)"

section \<open>Round trip\<close>

text \<open>
  What is asked of the codec, and only for the events \<open>vs\<close> that are written: the compact output of an event is parsed back
  as that event, is one line and is not empty. \<open>serde_json\<close> documents this for text, integers, decimals as text and the
  other float-free data; a float reads back exactly only with its \<open>float_roundtrip\<close> feature, which is not enabled.
\<close>

definition json_codec :: "('v \<Rightarrow> string) \<Rightarrow> (string \<Rightarrow> 'v option) \<Rightarrow> 'v set \<Rightarrow> bool" where
  "json_codec ser de vs \<longleftrightarrow>
     (\<forall>v\<in>vs. de (ser v) = Some v \<and> newline \<notin> set (ser v) \<and> return_char \<notin> set (ser v) \<and> ser v \<noteq> [])"

fun journal_run :: "('v \<Rightarrow> string) \<Rightarrow> (journal_fault \<times> 'v) list \<Rightarrow> string \<Rightarrow> string" where
  "journal_run ser [] contents = contents"
| "journal_run ser ((fault, v) # calls) contents = journal_run ser calls (snd (journal_append ser fault v contents))"

text \<open>A fault that leaves no torn line behind, and the events whose line was written in full.\<close>

fun torn :: "journal_fault \<Rightarrow> bool" where
  "torn (AfterBytes n) = True"
| "torn _ = False"

fun on_disk :: "(journal_fault \<times> 'v) list \<Rightarrow> 'v list" where
  "on_disk [] = []"
| "on_disk ((AtOpen, v) # calls) = on_disk calls"
| "on_disk ((_, v) # calls) = v # on_disk calls"

lemma split_lines_line:
  "newline \<notin> set l \<Longrightarrow> return_char \<notin> set l \<Longrightarrow> return_char \<notin> set acc \<Longrightarrow>
     split_lines acc (l @ newline # rest) = (acc @ l) # split_lines [] rest"
proof (induction l arbitrary: acc)
  case Nil
  then have "\<not> (acc \<noteq> [] \<and> last acc = return_char)" using last_in_set by metis
  then show ?case by auto
next
  case (Cons c l)
  then show ?case by auto
qed

lemma on_disk_calls: "set (on_disk calls) \<subseteq> snd ` set calls"
  by (induction calls rule: on_disk.induct) auto

lemma journal_run_append:
  assumes "\<forall>(fault, v)\<in>set calls. \<not> torn fault"
  shows "journal_run ser calls contents = contents @ concat (map (\<lambda>v. ser v @ [newline]) (on_disk calls))"
  using assms
proof (induction calls arbitrary: contents)
  case (Cons c calls)
  obtain fault v where c: "c = (fault, v)" by (cases c)
  with Cons show ?case by (cases fault) (simp_all add: journal_append_def)
qed simp

lemma read_written:
  "json_codec ser de (set vs) \<Longrightarrow> read_jsonl de (concat (map (\<lambda>v. ser v @ [newline]) vs)) = Some vs"
proof (induction vs)
  case (Cons v vs)
  then have v: "de (ser v) = Some v" "newline \<notin> set (ser v)" "return_char \<notin> set (ser v)" "json_codec ser de (set vs)"
    by (simp_all add: json_codec_def)
  have "split_lines [] (concat (map (\<lambda>v. ser v @ [newline]) (v # vs))) =
      ser v # split_lines [] (concat (map (\<lambda>v. ser v @ [newline]) vs))"
    using split_lines_line [OF v(2,3), of "[]"] by simp
  with Cons.IH v(1,4) show ?case by (simp add: read_jsonl_def)
qed (simp add: read_jsonl_def)

text \<open>
  C38. The journal reads back as it was written. Starting from an empty file, after any appends of events
  that the codec reads back and that were not torn in the middle of a line, failed opens and failed syncs included, reading the journal
  returns exactly the events whose line reached the file, in the order of the appends; in particular
  every event whose append succeeded is there.
\<close>

theorem journal_round_trip:
  assumes "json_codec ser de (snd ` set calls)" "\<forall>(fault, v)\<in>set calls. \<not> torn fault"
  shows "read_jsonl de (journal_run ser calls []) = Some (on_disk calls)
    \<and> (\<forall>v. (NoJournalFault, v) \<in> set calls \<longrightarrow> v \<in> set (on_disk calls))"
proof
  show "read_jsonl de (journal_run ser calls []) = Some (on_disk calls)"
    using journal_run_append [OF assms(2), of ser "[]"] read_written [of ser de "on_disk calls"] assms(1) on_disk_calls [of calls]
    by (auto simp: json_codec_def)
  show "\<forall>v. (NoJournalFault, v) \<in> set calls \<longrightarrow> v \<in> set (on_disk calls)"
    by (induction calls rule: on_disk.induct) auto
qed

text \<open>A torn append poisons the file: the next line is glued to its remains.\<close>

lemma torn_append_poisons:
  assumes "de (take n (ser v) @ ser w) = None" "n \<le> length (ser v)" "json_codec ser de {v, w}"
  shows "read_jsonl de (journal_run ser [(AfterBytes n, v), (NoJournalFault, w)] []) = None"
proof -
  have "newline \<notin> set (take n (ser v) @ ser w)" "return_char \<notin> set (take n (ser v) @ ser w)"
    using assms(3) by (auto simp: json_codec_def dest: in_set_takeD)
  from split_lines_line [OF this, of "[]" "[]"] assms(1,2) show ?thesis
    by (simp add: journal_append_def read_jsonl_def)
qed

definition demo_ser :: "bool \<Rightarrow> string" where
  "demo_ser b = (if b then ''true'' else ''false'')"

definition demo_de :: "string \<Rightarrow> bool option" where
  "demo_de s = (if s = ''true'' then Some True else if s = ''false'' then Some False else None)"

theorem journal_round_trip_witness:
  "read_jsonl demo_de (journal_run demo_ser [(NoJournalFault, True), (AtOpen, False), (AtSync, False)] []) = Some [True, False]"
proof -
  have c: "json_codec demo_ser demo_de vs" for vs by (simp add: json_codec_def demo_ser_def demo_de_def newline_def return_char_def)
  have "\<forall>(fault, v)\<in>set [(NoJournalFault, True), (AtOpen, False), (AtSync, False)]. \<not> torn fault" by simp
  from journal_round_trip [OF c this] show ?thesis by simp
qed

end
