(* ===== verification/Control.thy ===== *)
theory Control
  imports Oms OrderedMap TextUtil
begin

text \<open>
  The operator's side: commands, authorisation, rate limits and message handling of
  \<open>rust/crates/pg-control/src/lib.rs\<close>, control scripts of \<open>script.rs\<close>, the operator bridge of
  \<open>rust/crates/pg-core/src/operator_control.rs\<close> and the entry guards of \<open>unattended_guard.rs\<close>. Instants
  and durations are nanoseconds; the chat service delivers messages as values and receives replies as
  texts. TOML decoding and the file system are parameters.
\<close>

section \<open>Commands\<close>

definition valid_script_name :: "string \<Rightarrow> bool" where
  "valid_script_name name \<longleftrightarrow>
     name \<noteq> [] \<and> length name \<le> 64 \<and> list_all (\<lambda>c. is_ascii_alphanumeric c \<or> c \<in> set ''._-'') name"

datatype control_command =
  CcStart | CcStop | CcPerformance | CcStatus | CcPositions | CcOrders | CcRisk | CcRefresh
| CcLogs nat | CcEmergencyExit | CcScripts | CcRunScript string | CcReloadScript string | CcLatency

datatype command_parse_error = CpUnknown | CpInvalidArgument

fun no_more :: "control_command \<Rightarrow> string list \<Rightarrow> (command_parse_error, control_command) outcome" where
  "no_more command [] = Ok command"
| "no_more command (_ # _) = Err CpInvalidArgument"

definition parse_logs :: "string list \<Rightarrow> (command_parse_error, control_command) outcome" where
  "parse_logs parts =
     (let arg = (case parts of p # _ \<Rightarrow> p | [] \<Rightarrow> ''50''); rest = drop 1 parts in
      and_then (ok_or (parse_below 65536 arg) CpInvalidArgument) (\<lambda>n.
        if 1 \<le> n \<and> n \<le> 200 then no_more (CcLogs n) rest else Err CpInvalidArgument))"

definition parse_script :: "(string \<Rightarrow> control_command) \<Rightarrow> string list \<Rightarrow> (command_parse_error, control_command) outcome" where
  "parse_script mk parts =
     (case parts of
        [] \<Rightarrow> Err CpInvalidArgument
      | name # rest \<Rightarrow> if \<not> valid_script_name name \<or> rest \<noteq> [] then Err CpInvalidArgument else Ok (mk name))"

definition command_parse :: "string \<Rightarrow> (command_parse_error, control_command) outcome" where
  "command_parse input =
     (case split_ws [] input of
        [] \<Rightarrow> Err CpUnknown
      | command # parts \<Rightarrow>
          let word = takeWhile (\<lambda>c. c \<noteq> CHR ''@'') command in
          if word = ''/start'' then no_more CcStart parts
          else if word = ''/stop'' then no_more CcStop parts
          else if word = ''/performance'' then no_more CcPerformance parts
          else if word = ''/status'' then no_more CcStatus parts
          else if word = ''/positions'' then no_more CcPositions parts
          else if word = ''/orders'' then no_more CcOrders parts
          else if word = ''/risk'' then no_more CcRisk parts
          else if word = ''/refresh'' then no_more CcRefresh parts
          else if word = ''/logs'' then parse_logs parts
          else if word = ''/emergency_exit'' then no_more CcEmergencyExit parts
          else if word = ''/scripts'' then no_more CcScripts parts
          else if word = ''/script'' then parse_script CcRunScript parts
          else if word = ''/reload_script'' then parse_script CcReloadScript parts
          else if word = ''/latency'' then no_more CcLatency parts
          else Err CpUnknown)"

fun command_mutates_runtime :: "control_command \<Rightarrow> bool" where
  "command_mutates_runtime CcStart = True"
| "command_mutates_runtime CcStop = True"
| "command_mutates_runtime CcRefresh = True"
| "command_mutates_runtime CcEmergencyExit = True"
| "command_mutates_runtime (CcRunScript _) = True"
| "command_mutates_runtime (CcReloadScript _) = True"
| "command_mutates_runtime _ = False"

definition is_emergency :: "control_command \<Rightarrow> bool" where
  "is_emergency c \<longleftrightarrow> c = CcEmergencyExit"

definition is_refresh :: "control_command \<Rightarrow> bool" where
  "is_refresh c \<longleftrightarrow> c = CcRefresh"

section \<open>Authorisation and rate limits\<close>

record telegram_authorizer =
  ta_allowed_user_ids :: "int set"
  ta_allowed_chat_ids :: "int set"

definition new_authorizer :: "int list \<Rightarrow> int list \<Rightarrow> telegram_authorizer" where
  "new_authorizer users chats = \<lparr>ta_allowed_user_ids = set users, ta_allowed_chat_ids = set chats\<rparr>"

definition authorized :: "int \<Rightarrow> int \<Rightarrow> telegram_authorizer \<Rightarrow> bool" where
  "authorized user_id chat_id a \<longleftrightarrow> user_id \<in> ta_allowed_user_ids a \<and> chat_id \<in> ta_allowed_chat_ids a"

definition authorizer_is_empty :: "telegram_authorizer \<Rightarrow> bool" where
  "authorizer_is_empty a \<longleftrightarrow> ta_allowed_user_ids a = {} \<or> ta_allowed_chat_ids a = {}"

record rate_limit_config =
  rl_normal_per_minute :: nat
  rl_refresh_cooldown :: nat
  rl_emergency_cooldown :: nat
  rl_runtime_response_timeout :: nat

definition second_ns :: nat where
  "second_ns = 1000000000"

definition default_rate_limits :: rate_limit_config where
  "default_rate_limits =
     \<lparr>rl_normal_per_minute = 10, rl_refresh_cooldown = 15 * second_ns,
      rl_emergency_cooldown = 30 * second_ns, rl_runtime_response_timeout = 30 * second_ns\<rparr>"

record rate_state =
  rs_normal :: "int \<rightharpoonup> nat list"
  rs_last_refresh :: "int \<rightharpoonup> nat"
  rs_last_emergency :: "int \<rightharpoonup> nat"

definition new_rate_state :: rate_state where
  "new_rate_state = \<lparr>rs_normal = Map.empty, rs_last_refresh = Map.empty, rs_last_emergency = Map.empty\<rparr>"

definition minute_ns :: nat where
  "minute_ns = 60 * second_ns"

definition cooling :: "nat \<Rightarrow> nat \<Rightarrow> nat option \<Rightarrow> bool" where
  "cooling now cooldown seen = (case seen of Some instant \<Rightarrow> now - instant < cooldown | None \<Rightarrow> False)"

text \<open>\<open>duration_since\<close> saturates at zero, as subtraction of natural numbers does.\<close>

definition rate_allow ::
  "rate_limit_config \<Rightarrow> nat \<Rightarrow> int \<Rightarrow> control_command \<Rightarrow> rate_state \<Rightarrow> (string, unit) outcome \<times> rate_state" where
  "rate_allow cfg now user_id command st =
     (let recent = dropWhile (\<lambda>instant. minute_ns \<le> now - instant) (case rs_normal st user_id of Some q \<Rightarrow> q | None \<Rightarrow> []);
          st1 = st\<lparr>rs_normal := (rs_normal st)(user_id \<mapsto> recent)\<rparr>
      in if rl_normal_per_minute cfg \<le> length recent then (Err ''rate limit: 10 commands/minute'', st1)
         else if is_refresh command \<and> cooling now (rl_refresh_cooldown cfg) (rs_last_refresh st1 user_id)
           then (Err ''rate limit: /refresh cooldown is 15s'', st1)
         else if is_emergency command \<and> cooling now (rl_emergency_cooldown cfg) (rs_last_emergency st1 user_id)
           then (Err ''rate limit: /emergency_exit cooldown is 30s'', st1)
         else (Ok (),
           st1\<lparr>rs_last_refresh := (if is_refresh command then (rs_last_refresh st1)(user_id \<mapsto> now) else rs_last_refresh st1),
               rs_last_emergency := (if is_emergency command then (rs_last_emergency st1)(user_id \<mapsto> now) else rs_last_emergency st1),
               rs_normal := (rs_normal st1)(user_id \<mapsto> recent @ [now])\<rparr>))"

section \<open>Messages\<close>

record control_request =
  cr_request_id :: string
  cr_actor_user_id :: int
  cr_chat_id :: int
  cr_received_at_ns :: u64
  cr_command :: control_command

datatype control_response =
  CrAccepted string | CrText string string | CrRejected string string

fun response_body :: "control_response \<Rightarrow> string" where
  "response_body (CrAccepted request_id) = ''accepted '' @ [CHR 0xC2, CHR 0xB7] @ '' '' @ request_id"
| "response_body (CrText request_id body) = body"
| "response_body (CrRejected request_id reason) = ''rejected '' @ [CHR 0xC2, CHR 0xB7] @ '' '' @ reason"

record telegram_message =
  tm_text :: "string option"
  tm_from :: "nat option"
  tm_chat_id :: int
  tm_message_id :: int

fun command_parse_message :: "command_parse_error \<Rightarrow> string" where
  "command_parse_message CpUnknown = ''unknown command''"
| "command_parse_message CpInvalidArgument = ''invalid argument''"

text \<open>
  What the bot does with a message before the runtime is asked: nothing, a reply of its own, or a
  request to the runtime. A user id is a 64-bit unsigned number that must fit a signed one.
\<close>

datatype bot_step = BotIgnores | BotReplies string | BotForwards control_request

definition bot_message ::
  "rate_limit_config \<Rightarrow> telegram_authorizer \<Rightarrow> nat \<Rightarrow> u64 \<Rightarrow> telegram_message \<Rightarrow> rate_state \<Rightarrow> bot_step \<times> rate_state" where
  "bot_message cfg auth now received_at_ns msg st =
     (case tm_text msg of
        None \<Rightarrow> (BotIgnores, st)
      | Some text \<Rightarrow>
          if \<not> starts_with ''/'' (trim_start text) then (BotIgnores, st)
          else case command_parse text of
            Err e \<Rightarrow> (BotReplies (''invalid command '' @ [CHR 0xC2, CHR 0xB7] @ '' '' @ command_parse_message e), st)
          | Panic \<Rightarrow> (BotIgnores, st)
          | Ok command \<Rightarrow>
              (case tm_from msg of
                 None \<Rightarrow> (BotReplies ''unauthorized'', st)
               | Some uid \<Rightarrow>
                   if 2 ^ 63 \<le> uid \<or> \<not> authorized (int uid) (tm_chat_id msg) auth then (BotReplies ''unauthorized'', st)
                   else case rate_allow cfg now (int uid) command st of
                     (Err reason, st') \<Rightarrow> (BotReplies reason, st')
                   | (Panic, st') \<Rightarrow> (BotIgnores, st')
                   | (Ok _, st') \<Rightarrow>
                       (BotForwards \<lparr>cr_request_id = ''tg:'' @ show_int (tm_chat_id msg) @ '':'' @ show_int (tm_message_id msg),
                          cr_actor_user_id = int uid, cr_chat_id = tm_chat_id msg,
                          cr_received_at_ns = received_at_ns, cr_command = command\<rparr>, st')))"

text \<open>The reply to a forwarded request, from what became of it in the runtime.\<close>

datatype runtime_fate = RfSendFailed | RfAnswered control_response | RfReplyDropped | RfTimeout

fun forwarded_reply :: "string \<Rightarrow> runtime_fate \<Rightarrow> string" where
  "forwarded_reply request_id RfSendFailed = ''runtime unavailable''"
| "forwarded_reply request_id (RfAnswered response) = response_body response"
| "forwarded_reply request_id RfReplyDropped = response_body (CrRejected request_id ''runtime response channel closed'')"
| "forwarded_reply request_id RfTimeout = response_body (CrRejected request_id ''runtime response timeout'')"

section \<open>Operator bridge\<close>

datatype operator_command =
  OcStart | OcStop | OcStatus | OcPositions | OcOrders | OcRisk | OcRefresh | OcEmergencyExit | OcUnsupported string

text \<open>The derived \<open>Debug\<close> text; script names hold no character that \<open>Debug\<close> escapes.\<close>

fun debug_control_command :: "control_command \<Rightarrow> string" where
  "debug_control_command CcStart = ''Start''"
| "debug_control_command CcStop = ''Stop''"
| "debug_control_command CcPerformance = ''Performance''"
| "debug_control_command CcStatus = ''Status''"
| "debug_control_command CcPositions = ''Positions''"
| "debug_control_command CcOrders = ''Orders''"
| "debug_control_command CcRisk = ''Risk''"
| "debug_control_command CcRefresh = ''Refresh''"
| "debug_control_command (CcLogs n) = ''Logs { lines: '' @ show_nat n @ '' }''"
| "debug_control_command CcEmergencyExit = ''EmergencyExit''"
| "debug_control_command CcScripts = ''Scripts''"
| "debug_control_command (CcRunScript n) = ''RunScript { name: '' @ [CHR 0x22] @ n @ [CHR 0x22] @ '' }''"
| "debug_control_command (CcReloadScript n) = ''ReloadScript { name: '' @ [CHR 0x22] @ n @ [CHR 0x22] @ '' }''"
| "debug_control_command CcLatency = ''Latency''"

fun map_command :: "control_command \<Rightarrow> operator_command" where
  "map_command CcStart = OcStart"
| "map_command CcStop = OcStop"
| "map_command CcStatus = OcStatus"
| "map_command CcPositions = OcPositions"
| "map_command CcOrders = OcOrders"
| "map_command CcRisk = OcRisk"
| "map_command CcRefresh = OcRefresh"
| "map_command CcEmergencyExit = OcEmergencyExit"
| "map_command other = OcUnsupported (debug_control_command other)"

datatype operator_reply = OrpAccepted string | OrpText string | OrpRejected string

record operator_request =
  oq_request_id :: string
  oq_actor_user_id :: int
  oq_chat_id :: int
  oq_command :: operator_command

text \<open>The bridge passes each request on under its own id and answers it from what became of it.\<close>

definition bridge_request :: "control_request \<Rightarrow> operator_request" where
  "bridge_request r =
     \<lparr>oq_request_id = cr_request_id r, oq_actor_user_id = cr_actor_user_id r, oq_chat_id = cr_chat_id r,
      oq_command = map_command (cr_command r)\<rparr>"

datatype bridge_fate = BfSendFailed | BfReplied operator_reply | BfReplyDropped

fun bridge_reply :: "string \<Rightarrow> bridge_fate \<Rightarrow> control_response" where
  "bridge_reply request_id BfSendFailed = CrRejected request_id ''runtime control channel closed''"
| "bridge_reply request_id (BfReplied (OrpAccepted body)) = CrText request_id body"
| "bridge_reply request_id (BfReplied (OrpText body)) = CrText request_id body"
| "bridge_reply request_id (BfReplied (OrpRejected reason)) = CrRejected request_id reason"
| "bridge_reply request_id BfReplyDropped = CrRejected request_id ''runtime response channel closed''"

section \<open>Entry guard\<close>

record entry_guard =
  eg_topology_blocker :: "string option"
  eg_reconcile_clean :: bool

definition new_entry_guard :: "bool \<Rightarrow> entry_guard" where
  "new_entry_guard startup_clean = \<lparr>eg_topology_blocker = None, eg_reconcile_clean = startup_clean\<rparr>"

definition begin_topology_change :: "entry_guard \<Rightarrow> entry_guard" where
  "begin_topology_change g = g\<lparr>eg_topology_blocker := Some ''topology change pending validation''\<rparr>"

definition topology_validated :: "entry_guard \<Rightarrow> entry_guard" where
  "topology_validated g = g\<lparr>eg_topology_blocker := None\<rparr>"

definition topology_failed :: "string \<Rightarrow> entry_guard \<Rightarrow> entry_guard" where
  "topology_failed reason g = g\<lparr>eg_topology_blocker := Some reason\<rparr>"

definition reconcile_result :: "bool \<Rightarrow> entry_guard \<Rightarrow> entry_guard" where
  "reconcile_result clean g = g\<lparr>eg_reconcile_clean := clean\<rparr>"

definition guard_ready :: "bool \<Rightarrow> entry_guard \<Rightarrow> bool" where
  "guard_ready checklist_ready g \<longleftrightarrow> eg_topology_blocker g = None \<and> eg_reconcile_clean g \<and> checklist_ready"

definition may_increase :: "bool \<Rightarrow> bool \<Rightarrow> bool \<Rightarrow> entry_guard \<Rightarrow> bool" where
  "may_increase operator_started checklist_ready feeds_connected g \<longleftrightarrow>
     operator_started \<and> feeds_connected \<and> guard_ready checklist_ready g"

definition policy_order_busy ::
  "string \<Rightarrow> (string, order_record) omap \<Rightarrow> (string, venue \<times> string) omap \<Rightarrow> bool \<times> (string, venue \<times> string) omap" where
  "policy_order_busy strategy_id orders attempted =
     (if list_ex (\<lambda>r. or_owner_strategy_id r = strategy_id \<and> \<not> is_terminal r) (om_values orders) then (True, attempted)
      else case om_get strategy_id attempted of
        None \<Rightarrow> (False, attempted)
      | Some (venue, client_id) \<Rightarrow>
          (case om_get client_id orders of
             Some r \<Rightarrow>
               if or_venue r = venue \<and> or_owner_strategy_id r = strategy_id \<and> is_terminal r
               then (False, om_remove strategy_id attempted) else (True, attempted)
           | None \<Rightarrow> (True, attempted)))"

section \<open>Rate limits over time\<close>

text \<open>The limiter over a sequence of calls: the calls it accepted, in order, and its state afterwards.\<close>

fun rate_run ::
  "rate_limit_config \<Rightarrow> (nat \<times> int \<times> control_command) list \<Rightarrow> rate_state \<Rightarrow> (nat \<times> int \<times> control_command) list \<times> rate_state" where
  "rate_run cfg [] st = ([], st)"
| "rate_run cfg ((now, user_id, command) # calls) st =
     (case rate_allow cfg now user_id command st of
        (Ok _, st1) \<Rightarrow> (case rate_run cfg calls st1 of (accepted, st2) \<Rightarrow> ((now, user_id, command) # accepted, st2))
      | (_, st1) \<Rightarrow> rate_run cfg calls st1)"

text \<open>The instants of a user's accepted calls, all of them or those of one kind.\<close>

definition user_times :: "int \<Rightarrow> (control_command \<Rightarrow> bool) \<Rightarrow> (nat \<times> int \<times> control_command) list \<Rightarrow> nat list" where
  "user_times user_id kind accepted = map fst (filter (\<lambda>(_, u, c). u = user_id \<and> kind c) accepted)"

abbreviation every_command :: "control_command \<Rightarrow> bool" where
  "every_command \<equiv> \<lambda>_. True"

definition last_time :: "nat list \<Rightarrow> nat option" where
  "last_time ts = (if ts = [] then None else Some (last ts))"

text \<open>
  The sliding window without a state: a call is allowed when fewer than the limit of the user's accepted
  calls are less than a minute old and the cooldown of its kind has passed since every accepted call of
  that kind.
\<close>

definition window_allows ::
  "rate_limit_config \<Rightarrow> (nat \<times> int \<times> control_command) list \<Rightarrow> nat \<Rightarrow> int \<Rightarrow> control_command \<Rightarrow> bool" where
  "window_allows cfg accepted now user_id command \<longleftrightarrow>
     length (filter (\<lambda>t. now < t + minute_ns) (user_times user_id every_command accepted)) < rl_normal_per_minute cfg
     \<and> (is_refresh command \<longrightarrow> list_all (\<lambda>t. t + rl_refresh_cooldown cfg \<le> now) (user_times user_id is_refresh accepted))
     \<and> (is_emergency command \<longrightarrow> list_all (\<lambda>t. t + rl_emergency_cooldown cfg \<le> now) (user_times user_id is_emergency accepted))"

text \<open>What the limiter's state remembers of the accepted calls at an instant.\<close>

definition rate_inv :: "nat \<Rightarrow> (nat \<times> int \<times> control_command) list \<Rightarrow> rate_state \<Rightarrow> bool" where
  "rate_inv now accepted st \<longleftrightarrow>
     sorted (map fst accepted) \<and> (\<forall>t\<in>fst ` set accepted. t \<le> now)
     \<and> (\<forall>u. \<exists>old. user_times u every_command accepted = old @ (case rs_normal st u of Some q \<Rightarrow> q | None \<Rightarrow> [])
              \<and> (\<forall>t\<in>set old. t + minute_ns \<le> now))
     \<and> (\<forall>u. rs_last_refresh st u = last_time (user_times u is_refresh accepted))
     \<and> (\<forall>u. rs_last_emergency st u = last_time (user_times u is_emergency accepted))"

lemma user_times_append:
  "user_times u kind (accepted @ [(now, v, c)]) = user_times u kind accepted @ (if v = u \<and> kind c then [now] else [])"
  by (simp add: user_times_def)

lemma user_times_sorted: "sorted (map fst accepted) \<Longrightarrow> sorted (user_times u kind accepted)"
  unfolding user_times_def by (rule sorted_filter)

lemma user_times_subset: "set (user_times u kind accepted) \<subseteq> fst ` set accepted"
  by (auto simp: user_times_def)

lemma cooling_last:
  assumes "sorted ts" "\<forall>t\<in>set ts. t \<le> now"
  shows "\<not> cooling now cooldown (last_time ts) \<longleftrightarrow> list_all (\<lambda>t. t + cooldown \<le> now) ts"
proof (cases "ts = []")
  case False
  then have l: "last ts \<in> set ts" by simp
  have m: "\<forall>t\<in>set ts. t \<le> last ts" 
    using assms(1) False by (cases ts rule: rev_cases) (auto simp: sorted_append)
  from assms(2) l have "last ts \<le> now" by simp
  then have "\<not> cooling now cooldown (last_time ts) \<longleftrightarrow> last ts + cooldown \<le> now"
    using False by (auto simp: cooling_def last_time_def)
  also have "\<dots> \<longleftrightarrow> list_all (\<lambda>t. t + cooldown \<le> now) ts"
    using l m by (fastforce simp: list_all_iff)
  finally show ?thesis .
qed (simp add: cooling_def last_time_def)

lemma dropWhile_sorted_filter:
  "sorted ts \<Longrightarrow> dropWhile (\<lambda>t. minute_ns \<le> now - t) ts = filter (\<lambda>t. now < t + minute_ns) (ts :: nat list)"
proof (induction ts)
  case (Cons t ts)
  have "now < t + minute_ns \<Longrightarrow> filter (\<lambda>t. now < t + minute_ns) ts = ts"
    using Cons.prems by (intro filter_True) auto
  moreover have "minute_ns > 0" by (simp add: minute_ns_def second_ns_def)
  ultimately show ?case using Cons by auto
qed simp

text \<open>The queue the limiter keeps after dropping old instants is the sliding window.\<close>

lemma rate_recent:
  assumes "rate_inv now accepted st" "now \<le> later"
  shows "dropWhile (\<lambda>t. minute_ns \<le> later - t) (case rs_normal st u of Some q \<Rightarrow> q | None \<Rightarrow> []) =
    filter (\<lambda>t. later < t + minute_ns) (user_times u every_command accepted)"
proof -
  obtain old where old: "user_times u every_command accepted = old @ (case rs_normal st u of Some q \<Rightarrow> q | None \<Rightarrow> [])"
      "\<forall>t\<in>set old. t + minute_ns \<le> now"
    using assms(1) unfolding rate_inv_def by blast
  have "sorted (user_times u every_command accepted)"
    using assms(1) by (simp add: rate_inv_def user_times_sorted)
  then have q: "sorted (case rs_normal st u of Some q \<Rightarrow> q | None \<Rightarrow> [])"
    unfolding old(1) by (simp only: sorted_append)
  have "filter (\<lambda>t. later < t + minute_ns) old = []"
    using old(2) assms(2) by (auto simp: filter_empty_conv)
  then show ?thesis unfolding dropWhile_sorted_filter [OF q] old(1) by simp
qed

lemma rate_allow_window:
  assumes "rate_inv before accepted st" "before \<le> now"
  shows "fst (rate_allow cfg now u c st) = Ok () \<longleftrightarrow> window_allows cfg accepted now u c"
proof -
  have s: "sorted (user_times u k accepted)" "\<forall>t\<in>set (user_times u k accepted). t \<le> now" for k
  proof -
    show "sorted (user_times u k accepted)" using assms(1) by (simp add: rate_inv_def user_times_sorted)
    have "\<forall>t\<in>fst ` set accepted. t \<le> now" using assms by (fastforce simp: rate_inv_def)
    then show "\<forall>t\<in>set (user_times u k accepted). t \<le> now" using user_times_subset [of u k accepted] by blast
  qed
  have last: "rs_last_refresh st u = last_time (user_times u is_refresh accepted)"
      "rs_last_emergency st u = last_time (user_times u is_emergency accepted)"
    using assms(1) by (auto simp: rate_inv_def)
  show ?thesis
    unfolding window_allows_def cooling_last [OF s, symmetric] last [symmetric] rate_recent [OF assms, symmetric]
    by (auto simp: rate_allow_def Let_def)
qed

lemma rate_allow_inv:
  assumes "rate_inv before accepted st" "before \<le> now"
  shows "rate_inv now (if fst (rate_allow cfg now u c st) = Ok () then accepted @ [(now, u, c)] else accepted)
    (snd (rate_allow cfg now u c st))"
proof -
  let ?recent = "dropWhile (\<lambda>t. minute_ns \<le> now - t) (case rs_normal st u of Some q \<Rightarrow> q | None \<Rightarrow> [])"
  have mono: "\<forall>t\<in>fst ` set accepted. t \<le> now" using assms by (fastforce simp: rate_inv_def)
  have queue: "\<exists>old. user_times v every_command accepted = old @ (if v = u then ?recent else case rs_normal st v of Some q \<Rightarrow> q | None \<Rightarrow> [])
      \<and> (\<forall>t\<in>set old. t + minute_ns \<le> now)" for v
  proof -
    obtain old where old: "user_times v every_command accepted = old @ (case rs_normal st v of Some q \<Rightarrow> q | None \<Rightarrow> [])"
        "\<forall>t\<in>set old. t + minute_ns \<le> before"
      using assms(1) unfolding rate_inv_def by blast
    let ?gone = "takeWhile (\<lambda>t. minute_ns \<le> now - t) (case rs_normal st u of Some q \<Rightarrow> q | None \<Rightarrow> [])"
    have "\<forall>t\<in>set ?gone. minute_ns \<le> now - t" by (auto dest: set_takeWhileD)
    moreover have "minute_ns > 0" by (simp add: minute_ns_def second_ns_def)
    ultimately have gone: "\<forall>t\<in>set ?gone. t + minute_ns \<le> now" by fastforce
    show ?thesis
    proof (cases "v = u")
      case True
      then have "user_times v every_command accepted = (old @ ?gone) @ ?recent" using old(1) by simp
      with True old(2) gone assms(2) show ?thesis by (intro exI [of _ "old @ ?gone"]) fastforce
    next
      case False
      with old assms(2) show ?thesis by (intro exI [of _ old]) fastforce
    qed
  qed
  have last: "\<forall>v. rs_last_refresh st v = last_time (user_times v is_refresh accepted)"
      "\<forall>v. rs_last_emergency st v = last_time (user_times v is_emergency accepted)"
      and s: "sorted (map fst accepted)"
    using assms(1) by (auto simp: rate_inv_def)
  show ?thesis
  proof (cases "fst (rate_allow cfg now u c st) = Ok ()")
    case True
    then have st: "snd (rate_allow cfg now u c st) =
        st\<lparr>rs_normal := (rs_normal st)(u \<mapsto> ?recent @ [now]),
          rs_last_refresh := (if is_refresh c then (rs_last_refresh st)(u \<mapsto> now) else rs_last_refresh st),
          rs_last_emergency := (if is_emergency c then (rs_last_emergency st)(u \<mapsto> now) else rs_last_emergency st)\<rparr>"
      by (auto simp: rate_allow_def Let_def split: if_splits)
    have q: "\<exists>old. user_times v every_command (accepted @ [(now, u, c)]) =
        old @ (case ((rs_normal st)(u \<mapsto> ?recent @ [now])) v of Some q \<Rightarrow> q | None \<Rightarrow> []) \<and> (\<forall>t\<in>set old. t + minute_ns \<le> now)" for v
      using queue [of v] by (auto simp: user_times_append)
    have "rate_inv now (accepted @ [(now, u, c)]) (snd (rate_allow cfg now u c st))"
      unfolding rate_inv_def st using s mono last q
      by (simp add: sorted_append user_times_append last_time_def)
    with True show ?thesis by simp
  next
    case False
    then have st: "snd (rate_allow cfg now u c st) = st\<lparr>rs_normal := (rs_normal st)(u \<mapsto> ?recent)\<rparr>"
      by (auto simp: rate_allow_def Let_def)
    have q: "\<exists>old. user_times v every_command accepted =
        old @ (case ((rs_normal st)(u \<mapsto> ?recent)) v of Some q \<Rightarrow> q | None \<Rightarrow> []) \<and> (\<forall>t\<in>set old. t + minute_ns \<le> now)" for v
      using queue [of v] by auto
    have "rate_inv now accepted (snd (rate_allow cfg now u c st))"
      unfolding rate_inv_def st using s mono last q by simp
    with False show ?thesis by simp
  qed
qed

text \<open>The calls the stateless window accepts, and the bounds any such log keeps.\<close>

fun window_run ::
  "rate_limit_config \<Rightarrow> (nat \<times> int \<times> control_command) list \<Rightarrow> (nat \<times> int \<times> control_command) list \<Rightarrow> (nat \<times> int \<times> control_command) list" where
  "window_run cfg accepted [] = accepted"
| "window_run cfg accepted ((now, u, c) # calls) =
     window_run cfg (if window_allows cfg accepted now u c then accepted @ [(now, u, c)] else accepted) calls"

lemma rate_run_window:
  "rate_inv before accepted st \<Longrightarrow> sorted (before # map fst calls) \<Longrightarrow>
     accepted @ fst (rate_run cfg calls st) = window_run cfg accepted calls"
proof (induction calls arbitrary: before accepted st)
  case (Cons call calls)
  obtain now u c where call: "call = (now, u, c)" by (cases call) auto
  with Cons.prems have le: "before \<le> now" and sorted: "sorted (now # map fst calls)" by auto
  have inv: "rate_inv now (if window_allows cfg accepted now u c then accepted @ [(now, u, c)] else accepted)
      (snd (rate_allow cfg now u c st))"
    using rate_allow_inv [OF Cons.prems(1) le] rate_allow_window [OF Cons.prems(1) le] by simp
  have "fst (rate_run cfg (call # calls) st) =
      (if window_allows cfg accepted now u c then [(now, u, c)] else []) @ fst (rate_run cfg calls (snd (rate_allow cfg now u c st)))"
    using rate_allow_window [OF Cons.prems(1) le, of cfg u c] call
    by (cases "rate_allow cfg now u c st"; cases "fst (rate_allow cfg now u c st)") (auto split: prod.split)
  with Cons.IH [OF inv sorted] call show ?case by (auto split: if_splits)
qed simp

definition window_bounded :: "rate_limit_config \<Rightarrow> (nat \<times> int \<times> control_command) list \<Rightarrow> bool" where
  "window_bounded cfg accepted \<longleftrightarrow>
     (\<forall>u w. length (filter (\<lambda>t. w \<le> t \<and> t < w + minute_ns) (user_times u every_command accepted)) \<le> rl_normal_per_minute cfg)
     \<and> (\<forall>u. sorted_wrt (\<lambda>t t'. t + rl_refresh_cooldown cfg \<le> t') (user_times u is_refresh accepted))
     \<and> (\<forall>u. sorted_wrt (\<lambda>t t'. t + rl_emergency_cooldown cfg \<le> t') (user_times u is_emergency accepted))"

lemma length_filter_weaken: "(\<And>x. P x \<Longrightarrow> Q x) \<Longrightarrow> length (filter P xs) \<le> length (filter Q xs)"
  by (induction xs) auto

lemma window_bounded_append:
  assumes "window_bounded cfg accepted" "window_allows cfg accepted now u c"
  shows "window_bounded cfg (accepted @ [(now, u, c)])"
proof -
  have "length (filter (\<lambda>t. w \<le> t \<and> t < w + minute_ns) (user_times v every_command (accepted @ [(now, u, c)])))
      \<le> rl_normal_per_minute cfg" for v w
  proof (cases "v = u \<and> w \<le> now \<and> now < w + minute_ns")
    case True
    then have "length (filter (\<lambda>t. w \<le> t \<and> t < w + minute_ns) (user_times u every_command accepted)) \<le>
        length (filter (\<lambda>t. now < t + minute_ns) (user_times u every_command accepted))"
      by (intro length_filter_weaken) auto
    also have "\<dots> < rl_normal_per_minute cfg" using assms(2) by (simp add: window_allows_def)
    finally show ?thesis using True by (simp add: user_times_append)
  next
    case False
    with assms(1) show ?thesis by (auto simp: window_bounded_def user_times_append)
  qed
  with assms show ?thesis
    by (auto simp: window_bounded_def window_allows_def user_times_append sorted_wrt_append list_all_iff)
qed

lemma window_run_bounded: "window_bounded cfg accepted \<Longrightarrow> window_bounded cfg (window_run cfg accepted calls)"
  by (induction cfg accepted calls rule: window_run.induct) (simp_all add: window_bounded_append)

section \<open>The bot over a stream of messages\<close>

fun bot_run ::
  "rate_limit_config \<Rightarrow> telegram_authorizer \<Rightarrow> (nat \<times> u64 \<times> telegram_message) list \<Rightarrow> rate_state \<Rightarrow> (nat \<times> control_request) list" where
  "bot_run cfg auth [] st = []"
| "bot_run cfg auth ((now, received_at_ns, msg) # msgs) st =
     (case bot_message cfg auth now received_at_ns msg st of
        (BotForwards request, st') \<Rightarrow> (now, request) # bot_run cfg auth msgs st'
      | (_, st') \<Rightarrow> bot_run cfg auth msgs st')"

text \<open>A message that asks for a command on behalf of an allowed user in an allowed chat.\<close>

definition admitted :: "telegram_authorizer \<Rightarrow> telegram_message \<Rightarrow> (int \<times> control_command) option" where
  "admitted auth msg =
     (case (tm_text msg, tm_from msg) of
        (Some text, Some uid) \<Rightarrow>
          (case command_parse text of
             Ok command \<Rightarrow>
               if starts_with ''/'' (trim_start text) \<and> uid < 2 ^ 63 \<and> authorized (int uid) (tm_chat_id msg) auth
               then Some (int uid, command) else None
           | _ \<Rightarrow> None)
      | _ \<Rightarrow> None)"

fun bot_calls :: "telegram_authorizer \<Rightarrow> (nat \<times> u64 \<times> telegram_message) list \<Rightarrow> (nat \<times> int \<times> control_command) list" where
  "bot_calls auth [] = []"
| "bot_calls auth ((now, _, msg) # msgs) =
     (case admitted auth msg of Some (uid, command) \<Rightarrow> [(now, uid, command)] | None \<Rightarrow> []) @ bot_calls auth msgs"

definition request_call :: "nat \<times> control_request \<Rightarrow> nat \<times> int \<times> control_command" where
  "request_call = (\<lambda>(now, r). (now, cr_actor_user_id r, cr_command r))"

lemma bot_message_admitted:
  "admitted auth msg = Some (uid, command) \<Longrightarrow> fst (rate_allow cfg now uid command st) = Ok () \<Longrightarrow>
     \<exists>request. bot_message cfg auth now at_ns msg st = (BotForwards request, snd (rate_allow cfg now uid command st))
       \<and> cr_actor_user_id request = uid \<and> cr_command request = command \<and> cr_chat_id request = tm_chat_id msg
       \<and> authorized uid (tm_chat_id msg) auth"
  by (cases "rate_allow cfg now uid command st")
     (auto simp: admitted_def bot_message_def split: option.splits outcome.splits if_splits)

lemma bot_message_limited:
  "admitted auth msg = Some (uid, command) \<Longrightarrow> fst (rate_allow cfg now uid command st) \<noteq> Ok () \<Longrightarrow>
     \<exists>step. bot_message cfg auth now at_ns msg st = (step, snd (rate_allow cfg now uid command st)) \<and> (\<forall>r. step \<noteq> BotForwards r)"
  by (cases "rate_allow cfg now uid command st")
     (auto simp: admitted_def bot_message_def split: option.splits outcome.splits if_splits)

lemma bot_message_refused:
  "admitted auth msg = None \<Longrightarrow>
     \<exists>step. bot_message cfg auth now at_ns msg st = (step, st) \<and> (\<forall>r. step \<noteq> BotForwards r)"
  by (auto simp: admitted_def bot_message_def split: option.splits outcome.splits if_splits)

lemma bot_run_calls:
  "map request_call (bot_run cfg auth msgs st) = fst (rate_run cfg (bot_calls auth msgs) st)
    \<and> (\<forall>(now, r)\<in>set (bot_run cfg auth msgs st). authorized (cr_actor_user_id r) (cr_chat_id r) auth)"
proof (induction msgs arbitrary: st)
  case (Cons m msgs)
  obtain now at_ns msg where m: "m = (now, at_ns, msg)" by (cases m) auto
  show ?case
  proof (cases "admitted auth msg")
    case None
    from bot_message_refused [OF this, of cfg now at_ns st] obtain step where
      "bot_message cfg auth now at_ns msg st = (step, st)" "\<forall>r. step \<noteq> BotForwards r" by blast
    with None m Cons [of st] show ?thesis by (cases step) auto
  next
    case (Some p)
    obtain uid command where p: "p = (uid, command)" by (cases p)
    note ad = Some [unfolded p]
    obtain res st' where r: "rate_allow cfg now uid command st = (res, st')" by (cases "rate_allow cfg now uid command st")
    show ?thesis
    proof (cases "res = Ok ()")
      case True
      with bot_message_admitted [OF ad, of cfg now st at_ns] r obtain request where
        "bot_message cfg auth now at_ns msg st = (BotForwards request, st')"
        "cr_actor_user_id request = uid" "cr_command request = command" "cr_chat_id request = tm_chat_id msg"
        "authorized uid (tm_chat_id msg) auth" by auto
      with True r ad m Cons [of st'] show ?thesis by (auto simp: request_call_def split: prod.split)
    next
      case False
      with bot_message_limited [OF ad, of cfg now st at_ns] r obtain step where
        "bot_message cfg auth now at_ns msg st = (step, st')" "\<forall>r. step \<noteq> BotForwards r" by auto
      with False r ad m Cons [of st'] show ?thesis by (cases step; cases res) auto
    qed
  qed
qed simp

lemma bot_calls_times: "sorted (map fst msgs) \<Longrightarrow> sorted (map fst (bot_calls auth msgs))"
proof (induction msgs)
  case (Cons m msgs)
  obtain now at_ns msg where m: "m = (now, at_ns, msg)" by (cases m) auto
  have "fst ` set (bot_calls auth msgs) \<subseteq> fst ` set msgs"
    by (induction auth msgs rule: bot_calls.induct) (auto split: option.splits)
  with Cons m show ?case by (fastforce split: option.splits)
qed simp

lemma rate_inv_new: "rate_inv 0 [] new_rate_state"
  by (simp add: rate_inv_def new_rate_state_def user_times_def last_time_def)

lemma bot_run_gated:
  assumes "sorted (map fst msgs)"
  shows "map request_call (bot_run cfg auth msgs new_rate_state) = window_run cfg [] (bot_calls auth msgs)
    \<and> window_bounded cfg (map request_call (bot_run cfg auth msgs new_rate_state))
    \<and> (\<forall>(now, r)\<in>set (bot_run cfg auth msgs new_rate_state). authorized (cr_actor_user_id r) (cr_chat_id r) auth)"
proof -
  have "sorted (0 # map fst (bot_calls auth msgs))" using bot_calls_times [OF assms] by simp
  from rate_run_window [OF rate_inv_new this, of cfg] bot_run_calls [of cfg auth msgs new_rate_state]
  have eq: "map request_call (bot_run cfg auth msgs new_rate_state) = window_run cfg [] (bot_calls auth msgs)" by simp
  have "window_bounded cfg []" by (simp add: window_bounded_def user_times_def)
  from window_run_bounded [OF this] eq bot_run_calls [of cfg auth msgs new_rate_state] show ?thesis by simp
qed

text \<open>
  C36. What reaches the runtime from the chat. For messages handled at non-decreasing instants, starting with
  a fresh limiter, the requests the bot forwards are exactly the calls that a stateless sliding window
  accepts among the messages that parse as a command and come from an allowed user in an allowed chat.
  So in every window of a minute a user gets at most the configured number of requests through, two
  accepted refreshes of a user are at least the refresh cooldown apart and two emergency exits at least
  the emergency cooldown, and every forwarded request is authorised.
\<close>

theorem operator_requests_gated:
  assumes "sorted (map fst msgs)"
  shows "map request_call (bot_run cfg auth msgs new_rate_state) = window_run cfg [] (bot_calls auth msgs)
    \<and> window_bounded cfg (map request_call (bot_run cfg auth msgs new_rate_state))
    \<and> (\<forall>(now, r)\<in>set (bot_run cfg auth msgs new_rate_state). authorized (cr_actor_user_id r) (cr_chat_id r) auth)"
  by (rule bot_run_gated [OF assms])

definition demo_message :: "string \<Rightarrow> nat \<Rightarrow> telegram_message" where
  "demo_message text uid = \<lparr>tm_text = Some text, tm_from = Some uid, tm_chat_id = 11, tm_message_id = 1\<rparr>"

definition demo_messages :: "(nat \<times> u64 \<times> telegram_message) list" where
  "demo_messages = [(0, 0, demo_message ''/refresh'' 7), (1, 0, demo_message ''/refresh'' 7), (2, 0, demo_message ''/status'' 8)]"

theorem operator_requests_gated_witness:
  "map request_call (bot_run default_rate_limits (new_authorizer [7] [11]) demo_messages new_rate_state) = [(0, 7, CcRefresh)]
   \<and> window_bounded default_rate_limits
       (map request_call (bot_run default_rate_limits (new_authorizer [7] [11]) demo_messages new_rate_state))"
proof -
  have s: "sorted (map fst demo_messages)" by (simp add: demo_messages_def)
  have "bot_calls (new_authorizer [7] [11]) demo_messages = [(0, 7, CcRefresh), (1, 7, CcRefresh)]"
    by (simp add: demo_messages_def admitted_def demo_message_def new_authorizer_def authorized_def command_parse_def ws_len_def starts_with_def)
  then have "window_run default_rate_limits [] (bot_calls (new_authorizer [7] [11]) demo_messages) = [(0, 7, CcRefresh)]"
    by (simp add: window_allows_def user_times_def default_rate_limits_def minute_ns_def second_ns_def is_refresh_def is_emergency_def)
  with operator_requests_gated [OF s, of default_rate_limits "new_authorizer [7] [11]"] show ?thesis by metis
qed

section \<open>Entry guard over a session\<close>

datatype guard_event = BeginChange | Validated | ChangeFailed string | Reconciled bool

fun guard_step :: "guard_event \<Rightarrow> entry_guard \<Rightarrow> entry_guard" where
  "guard_step BeginChange g = begin_topology_change g"
| "guard_step Validated g = topology_validated g"
| "guard_step (ChangeFailed reason) g = topology_failed reason g"
| "guard_step (Reconciled clean) g = reconcile_result clean g"

fun is_reconcile :: "guard_event \<Rightarrow> bool" where
  "is_reconcile (Reconciled _) = True"
| "is_reconcile _ = False"

definition last_is :: "'a \<Rightarrow> 'a list \<Rightarrow> bool \<Rightarrow> bool" where
  "last_is x xs start = (if xs = [] then start else last xs = x)"

lemma guard_fold:
  "let g = fold guard_step events (new_entry_guard startup_clean) in
     (eg_topology_blocker g = None \<longleftrightarrow> last_is Validated (filter (\<lambda>e. \<not> is_reconcile e) events) True)
     \<and> (eg_reconcile_clean g \<longleftrightarrow> last_is (Reconciled True) (filter is_reconcile events) startup_clean)"
proof (induction events rule: rev_induct)
  case (snoc e events)
  then show ?case
    by (cases e) (auto simp: Let_def last_is_def begin_topology_change_def topology_validated_def
        topology_failed_def reconcile_result_def)
qed (simp add: new_entry_guard_def last_is_def)

text \<open>An order on record that ends an attempt: the same client id and venue, owned by the strategy, terminal.\<close>

definition attempt_settled :: "string \<Rightarrow> venue \<Rightarrow> string \<Rightarrow> (string, order_record) omap \<Rightarrow> bool" where
  "attempt_settled strategy_id venue client_id orders =
     (case om_get client_id orders of
        Some r \<Rightarrow> or_venue r = venue \<and> or_owner_strategy_id r = strategy_id \<and> is_terminal r
      | None \<Rightarrow> False)"

fun busy_run ::
  "string \<Rightarrow> (string, order_record) omap list \<Rightarrow> (string, venue \<times> string) omap \<Rightarrow> bool list \<times> (string, venue \<times> string) omap" where
  "busy_run strategy_id [] attempted = ([], attempted)"
| "busy_run strategy_id (orders # snapshots) attempted =
     (case policy_order_busy strategy_id orders attempted of
        (busy, attempted') \<Rightarrow> (case busy_run strategy_id snapshots attempted' of (rest, a) \<Rightarrow> (busy # rest, a)))"

lemma busy_until_settled:
  "om_get strategy_id attempted = Some (venue, client_id) \<Longrightarrow>
     list_all (\<lambda>orders. \<not> attempt_settled strategy_id venue client_id orders) snapshots \<Longrightarrow>
     busy_run strategy_id snapshots attempted = (replicate (length snapshots) True, attempted)"
  by (induction snapshots) (auto simp: policy_order_busy_def attempt_settled_def split: option.splits)

text \<open>
  C37. When the daemon may open exposure. After any sequence of topology changes, validations, failures and
  reconciliations, a new entry is allowed exactly when the operator has started trading, the feeds are
  connected, the checklist is ready, no topology change came after the last validation, and the last
  reconciliation, or the start-up one if there was none since, was clean. And a strategy with a remembered
  attempt is busy in every snapshot until one holds the order of the attempt, terminal and owned by it,
  whether or not the venue knows the order.
\<close>

theorem entry_gates_exact:
  "(may_increase started checklist feeds (fold guard_step events (new_entry_guard startup_clean)) \<longleftrightarrow>
      started \<and> checklist \<and> feeds
      \<and> last_is Validated (filter (\<lambda>e. \<not> is_reconcile e) events) True
      \<and> last_is (Reconciled True) (filter is_reconcile events) startup_clean)
   \<and> (om_get strategy_id attempted = Some (venue, client_id) \<and>
      list_all (\<lambda>orders. \<not> attempt_settled strategy_id venue client_id orders) snapshots \<longrightarrow>
      busy_run strategy_id snapshots attempted = (replicate (length snapshots) True, attempted))"
  using guard_fold [of events startup_clean] busy_until_settled
  by (auto simp: may_increase_def guard_ready_def Let_def)

theorem entry_gates_exact_witness:
  "\<not> may_increase True True True
       (fold guard_step [BeginChange, Validated, Reconciled True, ChangeFailed ''x'', Reconciled True] (new_entry_guard True))
   \<and> busy_run ''s'' [[], []] [(''s'', (BinancePm, ''c''))] = ([True, True], [(''s'', (BinancePm, ''c''))])"
  using entry_gates_exact [of True True True "[BeginChange, Validated, Reconciled True, ChangeFailed ''x'', Reconciled True]" True
      "''s''" "[(''s'', (BinancePm, ''c''))]" BinancePm "''c''" "[[], []]"]
  by (simp add: last_is_def om_get_def attempt_settled_def)

end
