(* ===== verification/Operator.thy ===== *)
theory Operator
  imports Control Runtime
begin

text \<open>
  The operator's configuration, \<open>rust/crates/pg-core/src/secrets.rs\<close> and \<open>OperatorControl::from_env\<close> of
  \<open>operator_control.rs\<close>, and the control scripts of \<open>rust/crates/pg-control/src/script.rs\<close>. The
  environment is an argument as in the runtime configuration; \<open>files p\<close> is the text of file \<open>p\<close>, or
  \<open>None\<close> where it cannot be read, and \<open>toml\<close> the TOML decoder.
\<close>

section \<open>Environment\<close>

definition optional_secret ::
  "(string \<Rightarrow> string option) \<Rightarrow> (string \<Rightarrow> string option) \<Rightarrow> string \<Rightarrow> (string, string option) outcome" where
  "optional_secret env files name =
     (let file_key = name @ ''_FILE'' in
      case (case env file_key of Some path \<Rightarrow> if trim path \<noteq> [] then Some (trim path) else None | None \<Rightarrow> None) of
        Some path \<Rightarrow>
          (case files path of
             None \<Rightarrow> Err (''failed to read secret file configured by '' @ file_key)
           | Some value \<Rightarrow> Ok (if trim value \<noteq> [] then Some (trim value) else None))
      | None \<Rightarrow>
          Ok (case env name of Some value \<Rightarrow> if trim value \<noteq> [] then Some (trim value) else None | None \<Rightarrow> None))"

definition required_secret ::
  "(string \<Rightarrow> string option) \<Rightarrow> (string \<Rightarrow> string option) \<Rightarrow> string \<Rightarrow> (string, string) outcome" where
  "required_secret env files name =
     and_then (optional_secret env files name) (\<lambda>secret.
       ok_or secret (''missing required secret '' @ name @ '' (set '' @ name @ '' or '' @ name @ ''_FILE)''))"

definition required_value :: "(string \<Rightarrow> string option) \<Rightarrow> string \<Rightarrow> (string, string) outcome" where
  "required_value env name =
     and_then (ok_or (env name) (''missing required environment variable '' @ name)) (\<lambda>value.
       if trim value = [] then Err (''environment variable '' @ name @ '' cannot be empty'') else Ok (trim value))"

definition bool_env :: "(string \<Rightarrow> string option) \<Rightarrow> string \<Rightarrow> bool \<Rightarrow> (string, bool) outcome" where
  "bool_env env name dflt =
     (case env name of
        None \<Rightarrow> Ok dflt
      | Some value \<Rightarrow>
          (let l = to_ascii_lowercase (trim value) in
           if l \<in> {''1'', ''true'', ''yes'', ''on''} then Ok True
           else if l \<in> {''0'', ''false'', ''no'', ''off''} then Ok False
           else Err (''invalid boolean '' @ name @ ''='' @ value)))"

text \<open>\<open>str::parse::<i64>\<close>.\<close>

definition parse_i64_str :: "string \<Rightarrow> int option" where
  "parse_i64_str s =
     (let negative = (case s of c # _ \<Rightarrow> c = CHR ''-'' | [] \<Rightarrow> False);
          digits = (case s of c # cs \<Rightarrow> if c = CHR ''+'' \<or> c = CHR ''-'' then cs else s | [] \<Rightarrow> []);
          value = (if negative then - int (digits_value digits) else int (digits_value digits))
      in if digits \<noteq> [] \<and> list_all is_ascii_digit digits \<and> - (2 ^ 63) \<le> value \<and> value < 2 ^ 63
         then Some value else None)"

fun parse_ids :: "string \<Rightarrow> string list \<Rightarrow> (string, int set) outcome" where
  "parse_ids name [] = Ok {}"
| "parse_ids name (value # values) =
     (if trim value = [] then parse_ids name values
      else and_then (ok_or (parse_i64_str (trim value)) (''invalid integer in '' @ name)) (\<lambda>i.
        if i = 0 then Err (name @ '' cannot contain zero'')
        else and_then (parse_ids name values) (\<lambda>ids. Ok (insert i ids))))"

definition parse_id_set :: "(string \<Rightarrow> string option) \<Rightarrow> string \<Rightarrow> (string, int list) outcome" where
  "parse_id_set env name =
     and_then (ok_or (env name) (''missing required environment variable '' @ name)) (\<lambda>raw.
     and_then (parse_ids name (split_char (CHR '','') raw)) (\<lambda>ids. Ok (sorted_list_of_set ids)))"

text \<open>\<open>env_u64\<close> and \<open>env_usize\<close>: both types are 64 bits wide.\<close>

definition env_u64 :: "(string \<Rightarrow> string option) \<Rightarrow> string \<Rightarrow> nat \<Rightarrow> nat \<Rightarrow> nat \<Rightarrow> (string, nat) outcome" where
  "env_u64 env name dflt lo hi =
     and_then (case env name of None \<Rightarrow> Ok dflt | Some raw \<Rightarrow> ok_or (parse_below (2 ^ 64) raw) (''invalid '' @ name)) (\<lambda>value.
       if lo \<le> value \<and> value \<le> hi then Ok value
       else Err (name @ '' must be in ['' @ show_nat lo @ '', '' @ show_nat hi @ '']''))"

text \<open>
  What start-up builds for the chat: nothing when it is switched off, else the token, the authorizer and
  the limits. \<open>feature\<close> says whether the binary was built with chat control.
\<close>

definition operator_from_env ::
  "bool \<Rightarrow> (string \<Rightarrow> string option) \<Rightarrow> (string \<Rightarrow> string option) \<Rightarrow>
     (string, (string \<times> telegram_authorizer \<times> rate_limit_config) option) outcome" where
  "operator_from_env feature env files =
     and_then (bool_env env ''PG_TELEGRAM_ENABLED'' False) (\<lambda>enabled.
     if \<not> enabled then Ok None
     else if \<not> feature
       then Err ''PG_TELEGRAM_ENABLED=true but pg-core was built without the telegram-control feature''
     else and_then (required_secret env files ''TELEGRAM_BOT_TOKEN'') (\<lambda>token.
     and_then (parse_id_set env ''TELEGRAM_ALLOWED_USER_IDS'') (\<lambda>users.
     and_then (parse_id_set env ''TELEGRAM_ALLOWED_CHAT_IDS'') (\<lambda>chats.
     if users = [] \<or> chats = []
       then Err ''Telegram control requires non-empty TELEGRAM_ALLOWED_USER_IDS and TELEGRAM_ALLOWED_CHAT_IDS''
     else let authorizer = new_authorizer users chats in
     if authorizer_is_empty authorizer then Err ''Telegram control authorizer is empty''
     else and_then (env_u64 env ''TELEGRAM_RATE_LIMIT_PER_MINUTE'' 10 1 120) (\<lambda>per_minute.
     and_then (env_u64 env ''TELEGRAM_REFRESH_COOLDOWN_SECONDS'' 15 1 3600) (\<lambda>refresh.
     and_then (env_u64 env ''TELEGRAM_EMERGENCY_COOLDOWN_SECONDS'' 60 1 3600) (\<lambda>emergency.
     and_then (env_u64 env ''TELEGRAM_RUNTIME_RESPONSE_TIMEOUT_SECONDS'' 30 1 120) (\<lambda>timeout.
     Ok (Some (token, authorizer,
       \<lparr>rl_normal_per_minute = per_minute, rl_refresh_cooldown = refresh * second_ns,
        rl_emergency_cooldown = emergency * second_ns, rl_runtime_response_timeout = timeout * second_ns\<rparr>))))))))))"

section \<open>Scripts\<close>

datatype control_action =
  CaStatus | CaLatency | CaLogs nat | CaReconcile "string option" | CaReloadStrategies
| CaSafeHold "string option" "string option" | CaEmergencyFlattenOwned "string option" "string option" | CaHalt

fun action_mutates_runtime :: "control_action \<Rightarrow> bool" where
  "action_mutates_runtime CaStatus = False"
| "action_mutates_runtime CaLatency = False"
| "action_mutates_runtime (CaLogs _) = False"
| "action_mutates_runtime _ = True"

record control_script =
  cs_schema_version :: string
  cs_name :: string
  cs_enabled :: bool
  cs_description :: string
  cs_actions :: "control_action list"

datatype script_error =
  SeIo | SeToml | SeSchema string | SeInvalidName string | SeEmpty string | SeInvalidLogLines string | SeDuplicate string

fun bad_log_lines :: "control_action \<Rightarrow> bool" where
  "bad_log_lines (CaLogs n) = (\<not> (1 \<le> n \<and> n \<le> 200))"
| "bad_log_lines _ = False"

definition script_validate :: "control_script \<Rightarrow> (script_error, unit) outcome" where
  "script_validate d =
     (if cs_schema_version d \<noteq> ''control-script.v1'' then Err (SeSchema (cs_schema_version d))
      else if \<not> valid_script_name (cs_name d) then Err (SeInvalidName (cs_name d))
      else if cs_actions d = [] then Err (SeEmpty (cs_name d))
      else if list_ex bad_log_lines (cs_actions d) then Err (SeInvalidLogLines (cs_name d))
      else Ok ())"

definition script_mutates_runtime :: "control_script \<Rightarrow> bool" where
  "script_mutates_runtime d = list_ex action_mutates_runtime (cs_actions d)"

definition from_toml_str :: "(string \<Rightarrow> control_script option) \<Rightarrow> string \<Rightarrow> (script_error, control_script) outcome" where
  "from_toml_str toml input =
     and_then (ok_or (toml input) SeToml) (\<lambda>d. and_then (script_validate d) (\<lambda>_. Ok d))"

record script_registry =
  sr_scripts :: "(string, control_script) omap"
  sr_sources :: "string \<rightharpoonup> string"

definition empty_registry :: script_registry where
  "empty_registry = \<lparr>sr_scripts = [], sr_sources = Map.empty\<rparr>"

definition read_script ::
  "(string \<Rightarrow> control_script option) \<Rightarrow> (string \<Rightarrow> string option) \<Rightarrow> string \<Rightarrow> (script_error, control_script) outcome" where
  "read_script toml files path = and_then (ok_or (files path) SeIo) (from_toml_str toml)"

definition load_file ::
  "(string \<Rightarrow> control_script option) \<Rightarrow> (string \<Rightarrow> string option) \<Rightarrow> string \<Rightarrow> script_registry \<Rightarrow>
     (script_error, unit) outcome \<times> script_registry" where
  "load_file toml files path reg =
     (case read_script toml files path of
        Ok d \<Rightarrow>
          if om_get (cs_name d) (sr_scripts reg) \<noteq> None then (Err (SeDuplicate (cs_name d)), reg)
          else (Ok (), reg\<lparr>sr_scripts := om_insert (cs_name d) d (sr_scripts reg),
                          sr_sources := (sr_sources reg)(path \<mapsto> cs_name d)\<rparr>)
      | Err e \<Rightarrow> (Err e, reg)
      | Panic \<Rightarrow> (Panic, reg))"

definition reload_file ::
  "(string \<Rightarrow> control_script option) \<Rightarrow> (string \<Rightarrow> string option) \<Rightarrow> string \<Rightarrow> script_registry \<Rightarrow>
     (script_error, string) outcome \<times> script_registry" where
  "reload_file toml files path reg =
     (case read_script toml files path of
        Ok d \<Rightarrow>
          (let reg1 = (case sr_sources reg path of
                         Some old_name \<Rightarrow>
                           if old_name \<noteq> cs_name d then reg\<lparr>sr_scripts := om_remove old_name (sr_scripts reg)\<rparr> else reg
                       | None \<Rightarrow> reg)
           in case om_get (cs_name d) (sr_scripts reg1) of
                Some existing \<Rightarrow>
                  if sr_sources reg1 path \<noteq> Some (cs_name existing) then (Err (SeDuplicate (cs_name d)), reg1)
                  else (Ok (cs_name d), reg1\<lparr>sr_scripts := om_insert (cs_name d) d (sr_scripts reg1),
                                            sr_sources := (sr_sources reg1)(path \<mapsto> cs_name d)\<rparr>)
              | None \<Rightarrow> (Ok (cs_name d), reg1\<lparr>sr_scripts := om_insert (cs_name d) d (sr_scripts reg1),
                                             sr_sources := (sr_sources reg1)(path \<mapsto> cs_name d)\<rparr>))
      | Err e \<Rightarrow> (Err e, reg)
      | Panic \<Rightarrow> (Panic, reg))"

text \<open>\<open>Path::extension\<close>: what follows the last dot of a file name that does not start the name.\<close>

definition has_extension :: "string \<Rightarrow> string \<Rightarrow> bool" where
  "has_extension ext name \<longleftrightarrow>
     (let rest = dropWhile (\<lambda>c. c \<noteq> CHR ''.'') (rev name) in
      name \<noteq> ''..'' \<and> rest \<noteq> [] \<and> tl rest \<noteq> [] \<and> rev (takeWhile (\<lambda>c. c \<noteq> CHR ''.'') (rev name)) = ext)"

definition join_path :: "string \<Rightarrow> string \<Rightarrow> string" where
  "join_path dir name = (if dir = [] \<or> last dir = CHR ''/'' then dir @ name else dir @ ''/'' @ name)"

fun load_files ::
  "(string \<Rightarrow> control_script option) \<Rightarrow> (string \<Rightarrow> string option) \<Rightarrow> string list \<Rightarrow> script_registry \<Rightarrow>
     (script_error, script_registry) outcome" where
  "load_files toml files [] reg = Ok reg"
| "load_files toml files (path # paths) reg =
     (case load_file toml files path reg of
        (Ok _, reg') \<Rightarrow> load_files toml files paths reg'
      | (Err e, _) \<Rightarrow> Err e
      | (Panic, _) \<Rightarrow> Panic)"

text \<open>\<open>listing\<close> is what \<open>read_dir\<close> yields: nothing when it fails, else each entry's name or its error.\<close>

definition load_dir ::
  "(string \<Rightarrow> control_script option) \<Rightarrow> (string \<Rightarrow> string option) \<Rightarrow> string option list option \<Rightarrow> string \<Rightarrow>
     (script_error, script_registry) outcome" where
  "load_dir toml files listing dir =
     and_then (ok_or listing SeIo) (\<lambda>entries.
       load_files toml files
         (map (join_path dir) (sort (filter (has_extension ''toml'') (List.map_filter (\<lambda>e. e) entries)))) empty_registry)"

definition get_script :: "string \<Rightarrow> script_registry \<Rightarrow> control_script option" where
  "get_script name reg =
     (case om_get name (sr_scripts reg) of Some d \<Rightarrow> if cs_enabled d then Some d else None | None \<Rightarrow> None)"

definition script_names :: "script_registry \<Rightarrow> string list" where
  "script_names reg = map cs_name (filter cs_enabled (om_values (sr_scripts reg)))"

definition script_len :: "script_registry \<Rightarrow> nat" where
  "script_len reg = length (filter cs_enabled (om_values (sr_scripts reg)))"

definition registry_is_empty :: "script_registry \<Rightarrow> bool" where
  "registry_is_empty reg \<longleftrightarrow> script_len reg = 0"

section \<open>What start-up guarantees\<close>

lemma trim_required_secret: "required_secret env files name = Ok token \<Longrightarrow> token \<noteq> []"
  by (auto simp: required_secret_def optional_secret_def outcome_simps Let_def split: option.splits if_splits)

lemma parse_i64_range: "parse_i64_str s = Some i \<Longrightarrow> - (2 ^ 63) \<le> i \<and> i < 2 ^ 63"
  by (auto simp: parse_i64_str_def Let_def split: if_splits)

lemma parse_ids_range:
  "parse_ids name values = Ok ids \<Longrightarrow> finite ids \<and> 0 \<notin> ids \<and> (\<forall>i\<in>ids. - (2 ^ 63) \<le> i \<and> i < 2 ^ 63)"
proof (induction name "values" arbitrary: ids rule: parse_ids.induct)
  case (2 name v vs)
  show ?case
  proof (cases "trim v = []")
    case False
    with "2.prems" obtain i ids' where i: "parse_i64_str (trim v) = Some i" "i \<noteq> 0" "parse_ids name vs = Ok ids'" "ids = insert i ids'"
      by (auto simp: outcome_simps split: if_splits)
    with "2.IH"(2) [OF False] parse_i64_range [OF i(1)] show ?thesis by auto
  qed (use 2 in simp)
qed simp

lemma parse_id_set_range:
  "parse_id_set env name = Ok ids \<Longrightarrow> 0 \<notin> set ids \<and> (\<forall>i\<in>set ids. - (2 ^ 63) \<le> i \<and> i < 2 ^ 63)"
  by (auto simp: parse_id_set_def outcome_simps dest!: parse_ids_range)

lemma env_u64_range: "env_u64 env name dflt lo hi = Ok n \<Longrightarrow> lo \<le> n \<and> n \<le> hi"
  by (auto simp: env_u64_def outcome_simps split: if_splits)

definition limits_in_range :: "rate_limit_config \<Rightarrow> bool" where
  "limits_in_range cfg \<longleftrightarrow>
     1 \<le> rl_normal_per_minute cfg \<and> rl_normal_per_minute cfg \<le> 120
     \<and> second_ns \<le> rl_refresh_cooldown cfg \<and> rl_refresh_cooldown cfg \<le> 3600 * second_ns
     \<and> second_ns \<le> rl_emergency_cooldown cfg \<and> rl_emergency_cooldown cfg \<le> 3600 * second_ns
     \<and> second_ns \<le> rl_runtime_response_timeout cfg \<and> rl_runtime_response_timeout cfg \<le> 120 * second_ns"

text \<open>
  Chat control never starts open. When start-up succeeds with the chat switched on, the binary was built
  for it, the token is not empty, at least one user and one chat are allowed, the id zero is in neither
  list, and the limits are within their documented ranges; so over any messages at most 120 requests of a
  user are forwarded in a minute, accepted refreshes and accepted emergency exits are at least a second
  apart, and no request of the user or chat zero is forwarded.
\<close>

theorem operator_startup_bounds:
  assumes "operator_from_env feature env files = Ok (Some (token, auth, cfg))" "sorted (map fst msgs)"
  shows "feature \<and> token \<noteq> [] \<and> ta_allowed_user_ids auth \<noteq> {} \<and> ta_allowed_chat_ids auth \<noteq> {}
    \<and> 0 \<notin> ta_allowed_user_ids auth \<union> ta_allowed_chat_ids auth \<and> limits_in_range cfg
    \<and> (\<forall>u w. length (filter (\<lambda>t. w \<le> t \<and> t < w + minute_ns)
          (user_times u every_command (map request_call (bot_run cfg auth msgs new_rate_state)))) \<le> 120)
    \<and> (\<forall>(now, r)\<in>set (bot_run cfg auth msgs new_rate_state). cr_actor_user_id r \<noteq> 0 \<and> cr_chat_id r \<noteq> 0)"
proof -
  from assms(1) obtain users chats where ids: "parse_id_set env ''TELEGRAM_ALLOWED_USER_IDS'' = Ok users"
      "parse_id_set env ''TELEGRAM_ALLOWED_CHAT_IDS'' = Ok chats" "users \<noteq> []" "chats \<noteq> []"
      and auth: "auth = new_authorizer users chats"
      and token: "required_secret env files ''TELEGRAM_BOT_TOKEN'' = Ok token" and feature: feature
      and limits: "limits_in_range cfg"
    by (auto simp: operator_from_env_def outcome_simps Let_def limits_in_range_def split: if_splits dest!: env_u64_range)
  have sets: "ta_allowed_user_ids auth \<noteq> {}" "ta_allowed_chat_ids auth \<noteq> {}"
      "0 \<notin> ta_allowed_user_ids auth \<union> ta_allowed_chat_ids auth"
    using ids parse_id_set_range [OF ids(1)] parse_id_set_range [OF ids(2)] by (simp_all add: auth new_authorizer_def)
  note run = bot_run_gated [OF assms(2), of cfg auth]
  from run limits have "length (filter (\<lambda>t. w \<le> t \<and> t < w + minute_ns)
      (user_times u every_command (map request_call (bot_run cfg auth msgs new_rate_state)))) \<le> 120" for u w
    unfolding window_bounded_def limits_in_range_def by (meson order_trans)
  moreover have "\<forall>(now, r)\<in>set (bot_run cfg auth msgs new_rate_state). cr_actor_user_id r \<noteq> 0 \<and> cr_chat_id r \<noteq> 0"
    using run sets(3) by (fastforce simp: authorized_def)
  ultimately show ?thesis using feature trim_required_secret [OF token] sets limits by simp
qed

definition demo_env :: "string \<Rightarrow> string option" where
  "demo_env = map_of [(''PG_TELEGRAM_ENABLED'', ''on''), (''TELEGRAM_BOT_TOKEN'', ''t''),
     (''TELEGRAM_ALLOWED_USER_IDS'', ''7''), (''TELEGRAM_ALLOWED_CHAT_IDS'', ''11'')]"

definition demo_limits :: rate_limit_config where
  "demo_limits = \<lparr>rl_normal_per_minute = 10, rl_refresh_cooldown = 15 * second_ns,
     rl_emergency_cooldown = 60 * second_ns, rl_runtime_response_timeout = 30 * second_ns\<rparr>"

lemmas demo_parsing = trim_def is_blank_def ws_len_def to_ascii_lowercase_def parse_i64_str_def is_ascii_digit_def
  digits_value_def Let_def

lemma demo_startup:
  "operator_from_env True demo_env Map.empty = Ok (Some (''t'', new_authorizer [7] [11], demo_limits))"
proof -
  have "bool_env demo_env ''PG_TELEGRAM_ENABLED'' False = Ok True"
    by (simp add: bool_env_def demo_env_def demo_parsing char_of_def)
  moreover have "required_secret demo_env Map.empty ''TELEGRAM_BOT_TOKEN'' = Ok ''t''"
    by (simp add: required_secret_def optional_secret_def demo_env_def demo_parsing)
  moreover have "parse_id_set demo_env ''TELEGRAM_ALLOWED_USER_IDS'' = Ok [7]"
      "parse_id_set demo_env ''TELEGRAM_ALLOWED_CHAT_IDS'' = Ok [11]"
    by (simp_all add: parse_id_set_def demo_env_def demo_parsing)
  ultimately show ?thesis
    by (simp add: operator_from_env_def env_u64_def demo_env_def demo_limits_def authorizer_is_empty_def new_authorizer_def)
qed

theorem operator_startup_bounds_witness:
  "ta_allowed_user_ids (new_authorizer [7] [11]) \<noteq> {} \<and> limits_in_range demo_limits
    \<and> (\<forall>(now, r)\<in>set (bot_run demo_limits (new_authorizer [7] [11]) demo_messages new_rate_state). cr_actor_user_id r \<noteq> 0 \<and> cr_chat_id r \<noteq> 0)"
proof -
  have "sorted (map fst demo_messages)" by (simp add: demo_messages_def)
  from operator_startup_bounds [OF demo_startup this] show ?thesis by (intro conjI) (elim conjE; assumption)+
qed

section \<open>The script registry\<close>

definition registry_ok :: "script_registry \<Rightarrow> bool" where
  "registry_ok reg \<longleftrightarrow>
     om_sorted (sr_scripts reg)
     \<and> (\<forall>name d. om_get name (sr_scripts reg) = Some d \<longrightarrow> cs_name d = name \<and> script_validate d = Ok ())"

lemma read_script_valid: "read_script toml files path = Ok d \<Longrightarrow> script_validate d = Ok ()"
  by (auto simp: read_script_def from_toml_str_def outcome_simps)

lemma registry_ok_insert:
  "registry_ok reg \<Longrightarrow> script_validate d = Ok () \<Longrightarrow>
     registry_ok (reg\<lparr>sr_scripts := om_insert (cs_name d) d (sr_scripts reg), sr_sources := srcs\<rparr>)"
  by (auto simp: registry_ok_def om_insert_sorted om_get_insert)

lemma registry_ok_remove: "registry_ok reg \<Longrightarrow> registry_ok (reg\<lparr>sr_scripts := om_remove name (sr_scripts reg)\<rparr>)"
  by (auto simp: registry_ok_def om_remove_sorted om_get_remove split: if_splits)

lemma load_file_ok: "registry_ok reg \<Longrightarrow> registry_ok (snd (load_file toml files path reg))"
  by (auto simp: load_file_def registry_ok_insert read_script_valid split: outcome.split)

lemma reload_file_ok: "registry_ok reg \<Longrightarrow> registry_ok (snd (reload_file toml files path reg))"
  by (auto simp: reload_file_def Let_def registry_ok_insert registry_ok_remove read_script_valid
      split: outcome.split option.split)

lemma load_files_ok: "registry_ok reg \<Longrightarrow> load_files toml files paths reg = Ok reg' \<Longrightarrow> registry_ok reg'"
proof (induction toml files paths reg rule: load_files.induct)
  case (2 toml files path paths reg)
  from 2 load_file_ok [OF "2.prems"(1), of toml files path] show ?case
    by (auto split: prod.splits outcome.splits)
qed simp

text \<open>Directory loading puts exactly the files' scripts into the registry.\<close>

lemma load_files_get:
  "om_sorted (sr_scripts reg) \<Longrightarrow> load_files toml files paths reg = Ok reg' \<Longrightarrow>
     om_get name (sr_scripts reg') = Some d \<longleftrightarrow>
       om_get name (sr_scripts reg) = Some d \<or> (\<exists>path\<in>set paths. read_script toml files path = Ok d \<and> cs_name d = name)"
proof (induction toml files paths reg rule: load_files.induct)
  case (2 toml files path paths reg)
  from "2.prems"(2) obtain d0 where d0: "read_script toml files path = Ok d0" "om_get (cs_name d0) (sr_scripts reg) = None"
      "load_files toml files paths (reg\<lparr>sr_scripts := om_insert (cs_name d0) d0 (sr_scripts reg),
         sr_sources := (sr_sources reg)(path \<mapsto> cs_name d0)\<rparr>) = Ok reg'"
    by (auto simp: load_file_def split: outcome.splits if_splits)
  have "load_file toml files path reg = (Ok (), reg\<lparr>sr_scripts := om_insert (cs_name d0) d0 (sr_scripts reg),
         sr_sources := (sr_sources reg)(path \<mapsto> cs_name d0)\<rparr>)"
    using d0(1,2) by (simp add: load_file_def)
  from "2.IH" [OF this [symmetric] refl] d0 "2.prems"(1) show ?case
    by (auto simp: om_get_insert om_insert_sorted)
qed simp

fun reload_run :: "(string \<Rightarrow> control_script option) \<Rightarrow> ((string \<Rightarrow> string option) \<times> string) list \<Rightarrow> script_registry \<Rightarrow> script_registry" where
  "reload_run toml [] reg = reg"
| "reload_run toml ((files, path) # reloads) reg = reload_run toml reloads (snd (reload_file toml files path reg))"

lemma reload_run_ok: "registry_ok reg \<Longrightarrow> registry_ok (reload_run toml reloads reg)"
  by (induction toml reloads reg rule: reload_run.induct) (simp_all add: reload_file_ok)

lemma registry_names:
  assumes "registry_ok reg"
  shows "sorted_wrt (<) (script_names reg) \<and> (\<forall>name. name \<in> set (script_names reg) \<longleftrightarrow> get_script name reg \<noteq> None)"
proof -
  have entries: "cs_name d = k" if "(k, d) \<in> set (sr_scripts reg)" for k d
    using assms that by (auto simp: registry_ok_def om_entries_get)
  have names: "script_names reg = map fst (filter (\<lambda>(k, d). cs_enabled d) (sr_scripts reg))"
    unfolding script_names_def om_values_def using entries by (induction "sr_scripts reg") (auto simp: filter_map comp_def split_def)
  have "sorted_wrt (<) (script_names reg)"
    using assms unfolding names registry_ok_def om_sorted_def sorted_wrt_map by (intro sorted_wrt_filter) auto
  moreover have "name \<in> set (script_names reg) \<longleftrightarrow> get_script name reg \<noteq> None" for name
    using assms om_entries_get [of "sr_scripts reg" name]
    by (force simp: names get_script_def registry_ok_def image_iff split: option.split)
  ultimately show ?thesis by blast
qed

text \<open>
  Only valid scripts can ever run. Loading a directory yields exactly the scripts of its TOML files; after
  that and any number of reloads, with whatever the files hold by then and whether each reload succeeds or
  fails, a script found under a name carries that name, is enabled and passes validation, and the names
  reported to the operator are exactly the names that can be found, strictly sorted.
\<close>

theorem scripts_always_valid:
  assumes "load_dir toml files (Some entries) dir = Ok reg"
  shows "(\<forall>name d. om_get name (sr_scripts reg) = Some d \<longleftrightarrow>
        (\<exists>e. Some e \<in> set entries \<and> has_extension ''toml'' e \<and> read_script toml files (join_path dir e) = Ok d \<and> cs_name d = name))
    \<and> (\<forall>name d. get_script name (reload_run toml reloads reg) = Some d \<longrightarrow>
        cs_name d = name \<and> cs_enabled d \<and> script_validate d = Ok ())
    \<and> sorted_wrt (<) (script_names (reload_run toml reloads reg))
    \<and> (\<forall>name. name \<in> set (script_names (reload_run toml reloads reg)) \<longleftrightarrow> get_script name (reload_run toml reloads reg) \<noteq> None)"
proof -
  let ?paths = "map (join_path dir) (sort (filter (has_extension ''toml'') (List.map_filter (\<lambda>e. e) entries)))"
  from assms have load: "load_files toml files ?paths empty_registry = Ok reg" by (simp add: load_dir_def)
  have start: "registry_ok empty_registry" "om_sorted (sr_scripts empty_registry)" "om_get name (sr_scripts empty_registry) = None" for name
    by (simp_all add: registry_ok_def empty_registry_def om_get_def om_sorted_def)
  note ok = reload_run_ok [OF load_files_ok [OF start(1) load], of toml reloads]
  have "om_get name (sr_scripts reg) = Some d \<longleftrightarrow>
      (\<exists>e. Some e \<in> set entries \<and> has_extension ''toml'' e \<and> read_script toml files (join_path dir e) = Ok d \<and> cs_name d = name)" for name d
    unfolding load_files_get [OF start(2) load] start(3)
    by (auto simp: List.map_filter_def image_iff) (metis option.sel)+
  moreover have "\<forall>name d. get_script name (reload_run toml reloads reg) = Some d \<longrightarrow>
      cs_name d = name \<and> cs_enabled d \<and> script_validate d = Ok ()"
    using ok by (auto simp: get_script_def registry_ok_def split: option.splits if_splits)
  ultimately show ?thesis using registry_names [OF ok] by blast
qed

text \<open>
  A reload that is refused can still lose a script. When the file of a loaded script now holds a valid
  script under the name of another file's script, the reload fails as a duplicate, but the old script is
  gone from the registry, although its file's last good content was never replaced.
\<close>

theorem refused_reload_drops_script:
  assumes "registry_ok reg" "sr_sources reg path = Some old" "om_get old (sr_scripts reg) = Some d0"
    "read_script toml files path = Ok d" "cs_name d \<noteq> old" "om_get (cs_name d) (sr_scripts reg) = Some d1"
  shows "fst (reload_file toml files path reg) = Err (SeDuplicate (cs_name d))
    \<and> get_script old (snd (reload_file toml files path reg)) = None"
proof -
  have "cs_name d1 = cs_name d" using assms(1,6) by (auto simp: registry_ok_def)
  then show ?thesis using assms(2-6) by (simp add: reload_file_def get_script_def om_get_remove)
qed

definition demo_script :: "string \<Rightarrow> control_script" where
  "demo_script name = \<lparr>cs_schema_version = ''control-script.v1'', cs_name = name, cs_enabled = True,
     cs_description = [], cs_actions = [CaStatus]\<rparr>"

lemma demo_name: "cs_name (demo_script name) = name"
  by (simp add: demo_script_def)

definition demo_toml :: "string \<Rightarrow> control_script option" where
  "demo_toml text = Some (demo_script text)"

definition demo_files :: "string \<Rightarrow> string option" where
  "demo_files = map_of [(''d/a.toml'', ''a''), (''d/b.toml'', ''b'')]"

lemma demo_read:
  "read_script demo_toml demo_files ''d/a.toml'' = Ok (demo_script ''a'')"
  "read_script demo_toml demo_files ''d/b.toml'' = Ok (demo_script ''b'')"
  "read_script demo_toml (map_of [(''d/a.toml'', ''b'')]) ''d/a.toml'' = Ok (demo_script ''b'')"
  by (simp_all add: read_script_def demo_files_def from_toml_str_def demo_toml_def script_validate_def demo_script_def
      valid_script_name_def is_ascii_alphanumeric_def)

definition demo_registry :: script_registry where
  "demo_registry = \<lparr>sr_scripts = [(''a'', demo_script ''a''), (''b'', demo_script ''b'')],
     sr_sources = [''d/a.toml'' \<mapsto> ''a'', ''d/b.toml'' \<mapsto> ''b'']\<rparr>"

lemma demo_script_load: "load_dir demo_toml demo_files (Some [Some ''b.toml'', Some ''a.toml'', Some ''x'', None]) ''d'' = Ok demo_registry"
proof -
  have paths: "map (join_path ''d'') (sort (filter (has_extension ''toml'') (List.map_filter (\<lambda>e. e) [Some ''b.toml'', Some ''a.toml'', Some ''x'', None]))) =
      [''d/a.toml'', ''d/b.toml'']"
    by (simp add: List.map_filter_def has_extension_def join_path_def less_char_def)
  show ?thesis
    unfolding load_dir_def ok_or.simps and_then.simps paths
    by (simp add: load_file_def demo_read demo_name empty_registry_def demo_registry_def om_get_def less_char_def)
qed

theorem scripts_always_valid_witness:
  "om_get ''b'' (sr_scripts demo_registry) = Some (demo_script ''b'')
    \<and> sorted_wrt (<) (script_names (reload_run demo_toml [(Map.empty, ''d/a.toml'')] demo_registry))"
proof -
  note all = scripts_always_valid [OF demo_script_load, of "[(Map.empty, ''d/a.toml'')]"]
  have "has_extension ''toml'' ''b.toml''" "join_path ''d'' ''b.toml'' = ''d/b.toml''" "cs_name (demo_script ''b'') = ''b''"
    by (simp_all add: has_extension_def join_path_def demo_script_def)
  then have "\<exists>e. Some e \<in> set [Some ''b.toml'', Some ''a.toml'', Some ''x'', None] \<and> has_extension ''toml'' e \<and>
      read_script demo_toml demo_files (join_path ''d'' e) = Ok (demo_script ''b'') \<and> cs_name (demo_script ''b'') = ''b''"
    using demo_read(2) by (intro exI [of _ "''b.toml''"]) simp
  with all show ?thesis by blast
qed

theorem refused_reload_drops_script_witness:
  "get_script ''a'' demo_registry = Some (demo_script ''a'')
    \<and> get_script ''a'' (snd (reload_file demo_toml (map_of [(''d/a.toml'', ''b'')]) ''d/a.toml'' demo_registry)) = None"
proof -
  have ok: "registry_ok demo_registry"
    using load_files_ok [of empty_registry] demo_script_load
    by (simp add: load_dir_def registry_ok_def empty_registry_def om_sorted_def om_get_def)
  have "sr_sources demo_registry ''d/a.toml'' = Some ''a''" "om_get ''a'' (sr_scripts demo_registry) = Some (demo_script ''a'')"
      "cs_name (demo_script ''b'') \<noteq> ''a''" "om_get (cs_name (demo_script ''b'')) (sr_scripts demo_registry) = Some (demo_script ''b'')"
    by (simp_all add: demo_registry_def om_get_def demo_script_def)
  from refused_reload_drops_script [OF ok this(1,2) demo_read(3) this(3,4)] this(2) show ?thesis
    by (simp add: get_script_def demo_script_def)
qed

end
