(* ===== verification/Strategy.thy ===== *)
theory Strategy
  imports PgTypes
begin

text \<open>
  The score-driven strategy machine, \<open>rust/crates/pg-strategy/src/lib.rs\<close>. The identifier \<open>Uuid::new_v4\<close>
  draws for a new intent is an argument of the step that draws it. A decimal subtraction or addition that
  leaves the range panics.
\<close>

section \<open>Data\<close>

record strategy_config =
  sc_strategy_id :: string
  sc_asset :: string
  sc_venue :: venue
  sc_order_quantity :: decimal
  sc_entry_score :: f64
  sc_exit_score :: f64
  sc_allow_short :: bool

definition strategy_validate :: "strategy_config \<Rightarrow> (string, unit) outcome" where
  "strategy_validate c =
     (if sc_order_quantity c \<le> 0 then Err ''order_quantity must be positive''
      else if \<not> in_closed (Finite 0) (Finite 1) (sc_entry_score c) \<or> sc_entry_score c = Finite 0
        then Err ''entry_score must be in (0, 1]''
      else if \<not> (f64_le (Finite 0) (sc_exit_score c) \<and> f64_lt (sc_exit_score c) (sc_entry_score c))
        then Err ''exit_score must be in [0, entry_score)''
      else Ok ())"

datatype strategy_phase =
  SpFlat | SpEnteringLong | SpLong | SpExitingLong | SpEnteringShort | SpShort | SpExitingShort
| SpSafeHold | SpUnknown | SpHalted

record strategy_state =
  ss_phase :: strategy_phase
  ss_net_quantity :: decimal
  ss_active_intent_id :: "uuid option"
  ss_intent_start_quantity :: "decimal option"
  ss_last_signal_id :: "string option"
  ss_hold_reason :: "string option"

definition default_strategy_state :: strategy_state where
  "default_strategy_state =
     \<lparr>ss_phase = SpFlat, ss_net_quantity = 0, ss_active_intent_id = None, ss_intent_start_quantity = None,
      ss_last_signal_id = None, ss_hold_reason = None\<rparr>"

datatype strategy_decision = SdNoop | SdSubmit order_intent | SdHold string

record strategy_machine =
  sm_config :: strategy_config
  sm_state :: strategy_state

definition new_machine :: "strategy_config \<Rightarrow> (string, strategy_machine) outcome" where
  "new_machine c = and_then (strategy_validate c) (\<lambda>_. Ok \<lparr>sm_config = c, sm_state = default_strategy_state\<rparr>)"

section \<open>Signals\<close>

definition machine_intent :: "uuid \<Rightarrow> strategy_machine \<Rightarrow> signal \<Rightarrow> side \<Rightarrow> decimal \<Rightarrow> exposure_effect \<Rightarrow> order_intent" where
  "machine_intent uid m sg sd quantity effect =
     \<lparr>oi_intent_id = uid, oi_strategy_id = sc_strategy_id (sm_config m), oi_asset = sc_asset (sm_config m),
      oi_venue = sc_venue (sm_config m), oi_side = sd, oi_quantity = quantity, oi_limit_price = None,
      oi_effect = effect, oi_source_signal_id = Some (sg_signal_id sg)\<rparr>"

definition submit_entry ::
  "uuid \<Rightarrow> signal \<Rightarrow> side \<Rightarrow> strategy_phase \<Rightarrow> strategy_machine \<Rightarrow> strategy_decision \<times> strategy_machine" where
  "submit_entry uid sg sd next_phase m =
     (let i = machine_intent uid m sg sd (sc_order_quantity (sm_config m)) Increase; st = sm_state m in
      (SdSubmit i, m\<lparr>sm_state := st\<lparr>ss_intent_start_quantity := Some (ss_net_quantity st), ss_phase := next_phase,
         ss_active_intent_id := Some (oi_intent_id i)\<rparr>\<rparr>))"

definition submit_exit ::
  "uuid \<Rightarrow> signal \<Rightarrow> side \<Rightarrow> strategy_phase \<Rightarrow> strategy_machine \<Rightarrow> strategy_decision \<times> strategy_machine" where
  "submit_exit uid sg sd next_phase m =
     (let st = sm_state m; quantity = \<bar>ss_net_quantity st\<bar> in
      if quantity = 0
      then (SdHold ''position ownership mismatch'',
            m\<lparr>sm_state := st\<lparr>ss_phase := SpUnknown, ss_hold_reason := Some ''exit requested with zero owned quantity''\<rparr>\<rparr>)
      else let i = machine_intent uid m sg sd quantity ReduceOnly in
        (SdSubmit i, m\<lparr>sm_state := st\<lparr>ss_intent_start_quantity := Some (ss_net_quantity st), ss_phase := next_phase,
           ss_active_intent_id := Some (oi_intent_id i)\<rparr>\<rparr>))"

definition on_signal :: "uuid \<Rightarrow> signal \<Rightarrow> u64 \<Rightarrow> strategy_machine \<Rightarrow> strategy_decision \<times> strategy_machine" where
  "on_signal uid sg now_ns m =
     (let c = sm_config m; st = sm_state m in
      if sg_asset sg \<noteq> sc_asset c \<or> sg_venue sg \<noteq> sc_venue c then (SdNoop, m)
      else if is_expired_signal sg now_ns then (SdHold ''expired signal'', m)
      else if ss_last_signal_id st = Some (sg_signal_id sg) then (SdNoop, m)
      else
        let m1 = m\<lparr>sm_state := st\<lparr>ss_last_signal_id := Some (sg_signal_id sg)\<rparr>\<rparr> in
        if ss_phase st = SpFlat \<and> f64_le (sc_entry_score c) (sg_score sg) then submit_entry uid sg Buy SpEnteringLong m1
        else if ss_phase st = SpFlat \<and> sc_allow_short c \<and> f64_le (sg_score sg) (f64_neg (sc_entry_score c))
          then submit_entry uid sg Sell SpEnteringShort m1
        else if ss_phase st = SpLong \<and> f64_le (sg_score sg) (sc_exit_score c) then submit_exit uid sg Sell SpExitingLong m1
        else if ss_phase st = SpShort \<and> f64_le (f64_neg (sc_exit_score c)) (sg_score sg) then submit_exit uid sg Buy SpExitingShort m1
        else if ss_phase st = SpSafeHold
          then (SdHold (case ss_hold_reason st of Some r \<Rightarrow> r | None \<Rightarrow> ''strategy is in safe hold''), m1)
        else if ss_phase st = SpUnknown then (SdHold ''state is unknown; reconcile required'', m1)
        else if ss_phase st = SpHalted then (SdHold ''strategy is halted'', m1)
        else (SdNoop, m1))"

section \<open>Fills, holds and recovery\<close>

definition on_external_state_unknown :: "string \<Rightarrow> strategy_machine \<Rightarrow> strategy_machine" where
  "on_external_state_unknown reason m =
     m\<lparr>sm_state := (sm_state m)\<lparr>ss_phase := SpUnknown, ss_hold_reason := Some reason\<rparr>\<rparr>"

definition enter_safe_hold :: "string \<Rightarrow> strategy_machine \<Rightarrow> strategy_machine" where
  "enter_safe_hold reason m =
     m\<lparr>sm_state := (sm_state m)\<lparr>ss_phase := SpSafeHold, ss_hold_reason := Some reason,
         ss_active_intent_id := None, ss_intent_start_quantity := None\<rparr>\<rparr>"

definition phase_of_quantity :: "decimal \<Rightarrow> strategy_phase" where
  "phase_of_quantity q = (if 0 < q then SpLong else if q < 0 then SpShort else SpFlat)"

definition restore_after_reconcile :: "decimal \<Rightarrow> strategy_machine \<Rightarrow> strategy_machine" where
  "restore_after_reconcile q m =
     m\<lparr>sm_state := (sm_state m)\<lparr>ss_net_quantity := q, ss_active_intent_id := None, ss_intent_start_quantity := None,
         ss_hold_reason := None, ss_phase := phase_of_quantity q\<rparr>\<rparr>"

definition machine_halt :: "string \<Rightarrow> strategy_machine \<Rightarrow> strategy_machine" where
  "machine_halt reason m =
     m\<lparr>sm_state := (sm_state m)\<lparr>ss_phase := SpHalted, ss_hold_reason := Some reason,
         ss_active_intent_id := None, ss_intent_start_quantity := None\<rparr>\<rparr>"

text \<open>The quantity the active intent should fill, by phase.\<close>

definition expected_fill :: "strategy_machine \<Rightarrow> decimal option" where
  "expected_fill m =
     (let st = sm_state m; start = (case ss_intent_start_quantity st of Some q \<Rightarrow> q | None \<Rightarrow> ss_net_quantity st) in
      if ss_phase st \<in> {SpEnteringLong, SpEnteringShort} then Some (sc_order_quantity (sm_config m))
      else if ss_phase st \<in> {SpExitingLong, SpExitingShort} then Some \<bar>start\<bar>
      else None)"

definition filled_net :: "dec_ops \<Rightarrow> decimal \<Rightarrow> strategy_machine \<Rightarrow> decimal option" where
  "filled_net ar cumulative m =
     (let st = sm_state m; start = (case ss_intent_start_quantity st of Some q \<Rightarrow> q | None \<Rightarrow> ss_net_quantity st) in
      if ss_phase st = SpEnteringLong then Some cumulative
      else if ss_phase st = SpEnteringShort then Some (- cumulative)
      else if ss_phase st = SpExitingLong then checked_sub ar start cumulative
      else checked_add ar start cumulative)"

definition on_intent_fill_progress ::
  "dec_ops \<Rightarrow> uuid \<Rightarrow> decimal \<Rightarrow> bool \<Rightarrow> strategy_machine \<Rightarrow> ('e, bool) outcome \<times> strategy_machine" where
  "on_intent_fill_progress ar intent_id cumulative fully_filled m =
     (let st = sm_state m in
      if ss_active_intent_id st \<noteq> Some intent_id \<or> cumulative < 0 then (Ok False, m)
      else case expected_fill m of
        None \<Rightarrow> (Ok False, m)
      | Some expected \<Rightarrow>
          if expected < cumulative
          then (Ok False, on_external_state_unknown ''venue cumulative fill exceeds expected intent quantity'' m)
          else (case filled_net ar cumulative m of
            Some net \<Rightarrow>
              let m1 = m\<lparr>sm_state := st\<lparr>ss_net_quantity := net\<rparr>\<rparr> in
              if \<not> fully_filled then (Ok True, m1)
              else if cumulative \<noteq> expected
              then (Ok False, enter_safe_hold ''terminal fill quantity does not equal expected intent quantity'' m1)
              else (Ok True, m1\<lparr>sm_state := (sm_state m1)\<lparr>ss_phase := phase_of_quantity net,
                     ss_active_intent_id := None, ss_intent_start_quantity := None\<rparr>\<rparr>)
          | None \<Rightarrow> (Panic, m)))"

definition on_intent_filled :: "dec_ops \<Rightarrow> uuid \<Rightarrow> strategy_machine \<Rightarrow> ('e, bool) outcome \<times> strategy_machine" where
  "on_intent_filled ar intent_id m =
     (case expected_fill m of
        None \<Rightarrow> (Ok False, m)
      | Some expected \<Rightarrow> on_intent_fill_progress ar intent_id expected True m)"

section \<open>Runs of the machine\<close>

datatype machine_event =
  MeSignal uuid signal u64 | MeProgress uuid decimal bool | MeFilled uuid | MeUnknown string
| MeSafeHold string | MeRestore decimal | MeHalt string

fun machine_step :: "dec_ops \<Rightarrow> machine_event \<Rightarrow> strategy_machine \<Rightarrow> (unit, strategy_decision) outcome \<times> strategy_machine" where
  "machine_step ar (MeSignal uid sg now_ns) m = (case on_signal uid sg now_ns m of (d, m') \<Rightarrow> (Ok d, m'))"
| "machine_step ar (MeProgress iid q full) m =
     (case on_intent_fill_progress ar iid q full m of (r, m') \<Rightarrow> (and_then r (\<lambda>_. Ok SdNoop), m'))"
| "machine_step ar (MeFilled iid) m = (case on_intent_filled ar iid m of (r, m') \<Rightarrow> (and_then r (\<lambda>_. Ok SdNoop), m'))"
| "machine_step ar (MeUnknown reason) m = (Ok SdNoop, on_external_state_unknown reason m)"
| "machine_step ar (MeSafeHold reason) m = (Ok SdNoop, enter_safe_hold reason m)"
| "machine_step ar (MeRestore q) m = (Ok SdNoop, restore_after_reconcile q m)"
| "machine_step ar (MeHalt reason) m = (Ok SdNoop, machine_halt reason m)"

text \<open>
  The machines reached from a fresh one. Reported quantities have the scale of the order quantity, and a
  restored position is at most the bound in size.
\<close>

fun event_in :: "nat \<Rightarrow> decimal \<Rightarrow> machine_event \<Rightarrow> bool" where
  "event_in s bound (MeProgress iid q full) \<longleftrightarrow> representable s q"
| "event_in s bound (MeRestore q) \<longleftrightarrow> representable s q \<and> \<bar>q\<bar> \<le> bound"
| "event_in s bound _ \<longleftrightarrow> True"

inductive machine_reached :: "dec_ops \<Rightarrow> nat \<Rightarrow> decimal \<Rightarrow> strategy_config \<Rightarrow> strategy_machine \<Rightarrow> bool" for ar s bound c where
  fresh: "new_machine c = Ok m \<Longrightarrow> machine_reached ar s bound c m"
| step: "machine_reached ar s bound c m \<Longrightarrow> event_in s bound e \<Longrightarrow> machine_reached ar s bound c (snd (machine_step ar e m))"

text \<open>What each phase says of the owned quantity and of the outstanding intent.\<close>

definition phase_fits :: "strategy_config \<Rightarrow> strategy_state \<Rightarrow> bool" where
  "phase_fits c st =
     (let net = ss_net_quantity st; start = ss_intent_start_quantity st; active = ss_active_intent_id st in
      case ss_phase st of
        SpFlat \<Rightarrow> net = 0 \<and> active = None
      | SpLong \<Rightarrow> 0 < net \<and> active = None
      | SpShort \<Rightarrow> net < 0 \<and> active = None
      | SpEnteringLong \<Rightarrow> active \<noteq> None \<and> start = Some 0 \<and> 0 \<le> net \<and> net \<le> sc_order_quantity c
      | SpEnteringShort \<Rightarrow> active \<noteq> None \<and> start = Some 0 \<and> net \<le> 0 \<and> - net \<le> sc_order_quantity c \<and> sc_allow_short c
      | SpExitingLong \<Rightarrow> active \<noteq> None \<and> (\<exists>q. start = Some q \<and> 0 < q \<and> 0 \<le> net \<and> net \<le> q)
      | SpExitingShort \<Rightarrow> active \<noteq> None \<and> (\<exists>q. start = Some q \<and> q < 0 \<and> net \<le> 0 \<and> q \<le> net)
      | SpSafeHold \<Rightarrow> active = None
      | SpHalted \<Rightarrow> active = None
      | SpUnknown \<Rightarrow> True)"

definition machine_inv :: "nat \<Rightarrow> decimal \<Rightarrow> strategy_config \<Rightarrow> strategy_machine \<Rightarrow> bool" where
  "machine_inv s bound c m \<longleftrightarrow>
     sm_config m = c \<and> strategy_validate c = Ok () \<and> phase_fits c (sm_state m)
     \<and> representable s (ss_net_quantity (sm_state m)) \<and> \<bar>ss_net_quantity (sm_state m)\<bar> \<le> bound
     \<and> (\<forall>q. ss_intent_start_quantity (sm_state m) = Some q \<longrightarrow> representable s q \<and> \<bar>q\<bar> \<le> bound)"

lemma validate_positive: "strategy_validate c = Ok () \<Longrightarrow> 0 < sc_order_quantity c"
  by (auto simp: strategy_validate_def split: if_splits)

lemma phase_of_quantity_fits:
  "phase_fits c (st\<lparr>ss_net_quantity := q, ss_phase := phase_of_quantity q, ss_active_intent_id := None, ss_intent_start_quantity := start\<rparr>)"
  by (simp add: phase_fits_def phase_of_quantity_def)

lemma on_signal_inv:
  assumes inv: "machine_inv s bound c m" "sc_order_quantity c \<le> bound" "representable s (sc_order_quantity c)"
  shows "machine_inv s bound c (snd (on_signal uid sg now_ns m))"
proof -
  have pos: "0 < sc_order_quantity c" using inv(1) by (simp add: machine_inv_def validate_positive)
  show ?thesis
  proof (cases "ss_phase (sm_state m)")
    case SpFlat
    then show ?thesis using inv pos
      by (auto simp: on_signal_def Let_def machine_inv_def phase_fits_def submit_entry_def machine_intent_def)
  next
    case SpLong
    then show ?thesis using inv pos
      by (auto simp: on_signal_def Let_def machine_inv_def phase_fits_def submit_exit_def machine_intent_def)
  next
    case SpShort
    then show ?thesis using inv pos
      by (auto simp: on_signal_def Let_def machine_inv_def phase_fits_def submit_exit_def machine_intent_def)
  qed (use inv in \<open>auto simp: on_signal_def Let_def machine_inv_def phase_fits_def\<close>)
qed

text \<open>A fill within the expected quantity moves the owned quantity between the start and flat, or up from it.\<close>

lemma filled_net_bounds:
  assumes "machine_inv s bound c m" "lossless ar s" "representable s cumulative" "sc_order_quantity c \<le> bound"
    "0 \<le> cumulative" "expected_fill m = Some expected" "cumulative \<le> expected"
  obtains net where "filled_net ar cumulative m = Some net" "representable s net" "\<bar>net\<bar> \<le> bound"
    "phase_fits c ((sm_state m)\<lparr>ss_net_quantity := net\<rparr>)"
proof -
  note inv = assms(1) [unfolded machine_inv_def phase_fits_def Let_def]
  consider (el) "ss_phase (sm_state m) = SpEnteringLong" | (es) "ss_phase (sm_state m) = SpEnteringShort"
    | (xl) "ss_phase (sm_state m) = SpExitingLong" | (xs) "ss_phase (sm_state m) = SpExitingShort"
    using assms(6) by (auto simp: expected_fill_def Let_def split: if_splits)
  then show thesis
  proof cases
    case el
    with inv assms show thesis
      by (intro that [of cumulative]) (auto simp: filled_net_def expected_fill_def phase_fits_def)
  next
    case es
    with inv assms show thesis
      by (intro that [of "- cumulative"]) (auto simp: filled_net_def expected_fill_def phase_fits_def)
  next
    case xl
    with inv obtain q where q: "ss_intent_start_quantity (sm_state m) = Some q" "0 < q" "representable s q" "q \<le> bound" by auto
    have "checked_sub ar q cumulative = Some (q - cumulative)"
      using assms(2,3,5) q by (intro lossless_sub_nonneg) auto
    moreover have "representable s (q - cumulative)" using assms(3,5) q by (intro representable_diff_nonneg) auto
    ultimately show thesis using xl q inv assms(5-7)
      by (intro that [of "q - cumulative"]) (auto simp: filled_net_def expected_fill_def phase_fits_def Let_def)
  next
    case xs
    with inv obtain q where q: "ss_intent_start_quantity (sm_state m) = Some q" "q < 0" "representable s q" "- q \<le> bound" by auto
    have le: "cumulative \<le> - q" using assms(6,7) xs q by (simp add: expected_fill_def)
    have "representable s (q + cumulative)"
      using representable_between [OF q(3) assms(3) q(3)] le q(2) assms(5) by simp
    then have "checked_add ar q cumulative = Some (q + cumulative)" using assms(2,3) q(3) by (intro lossless_add)
    with \<open>representable s (q + cumulative)\<close> xs q le inv assms(5) show thesis
      by (intro that [of "q + cumulative"]) (auto simp: filled_net_def phase_fits_def Let_def)
  qed
qed

lemma machine_inv_hold:
  "machine_inv s bound c m \<Longrightarrow> machine_inv s bound c (on_external_state_unknown reason m)"
  "machine_inv s bound c m \<Longrightarrow> machine_inv s bound c (enter_safe_hold reason m)"
  "machine_inv s bound c m \<Longrightarrow> machine_inv s bound c (machine_halt reason m)"
  by (auto simp: machine_inv_def on_external_state_unknown_def enter_safe_hold_def machine_halt_def phase_fits_def)

lemma fill_progress_inv:
  assumes "machine_inv s bound c m" "lossless ar s" "representable s cumulative" "sc_order_quantity c \<le> bound"
  shows "machine_inv s bound c (snd (on_intent_fill_progress ar iid cumulative full m))
    \<and> fst (on_intent_fill_progress ar iid cumulative full m) \<noteq> Panic"
proof (cases "ss_active_intent_id (sm_state m) \<noteq> Some iid \<or> cumulative < 0 \<or> expected_fill m = None
    \<or> (\<exists>e. expected_fill m = Some e \<and> e < cumulative)")
  case True
  then show ?thesis using assms(1) machine_inv_hold(1) [OF assms(1)]
    by (auto simp: on_intent_fill_progress_def Let_def split: option.split)
next
  case False
  then obtain expected where e: "expected_fill m = Some expected" "cumulative \<le> expected" "0 \<le> cumulative"
      "ss_active_intent_id (sm_state m) = Some iid" by fastforce
  from filled_net_bounds [OF assms e(3,1,2)] obtain net where net: "filled_net ar cumulative m = Some net" "representable s net" "\<bar>net\<bar> \<le> bound"
      "phase_fits c ((sm_state m)\<lparr>ss_net_quantity := net\<rparr>)" .
  let ?m1 = "m\<lparr>sm_state := (sm_state m)\<lparr>ss_net_quantity := net\<rparr>\<rparr>"
  have m1: "machine_inv s bound c ?m1" using assms(1) net by (simp add: machine_inv_def)
  have full: "machine_inv s bound c (?m1\<lparr>sm_state := (sm_state ?m1)\<lparr>ss_phase := phase_of_quantity net,
      ss_active_intent_id := None, ss_intent_start_quantity := None\<rparr>\<rparr>)"
    using m1 net by (simp add: machine_inv_def phase_fits_def phase_of_quantity_def)
  have run: "on_intent_fill_progress ar iid cumulative full m =
      (if \<not> full then (Ok True, ?m1)
       else if cumulative \<noteq> expected then (Ok False, enter_safe_hold ''terminal fill quantity does not equal expected intent quantity'' ?m1)
       else (Ok True, ?m1\<lparr>sm_state := (sm_state ?m1)\<lparr>ss_phase := phase_of_quantity net, ss_active_intent_id := None, ss_intent_start_quantity := None\<rparr>\<rparr>))"
    using e net(1) by (simp add: on_intent_fill_progress_def Let_def)
  show ?thesis unfolding run using m1 full machine_inv_hold(2) [OF m1] by auto
qed

lemma expected_fill_representable:
  assumes "machine_inv s bound c m" "representable s (sc_order_quantity c)" "expected_fill m = Some q"
  shows "representable s q"
  using assms by (auto simp: machine_inv_def expected_fill_def Let_def split: if_splits option.splits)

lemma machine_step_inv:
  assumes "machine_inv s bound c m" "lossless ar s" "representable s (sc_order_quantity c)" "sc_order_quantity c \<le> bound" "event_in s bound e"
  shows "machine_inv s bound c (snd (machine_step ar e m)) \<and> fst (machine_step ar e m) \<noteq> Panic"
proof (cases e)
  case (MeSignal uid sg now_ns)
  with on_signal_inv [OF assms(1,4,3), of uid sg now_ns] show ?thesis by (auto split: prod.split)
next
  case (MeProgress iid q full)
  with fill_progress_inv [OF assms(1,2) _ assms(4), of q iid full, where ?'a = unit] assms(5) show ?thesis
    by (cases "fst (on_intent_fill_progress ar iid q full m :: (unit, bool) outcome \<times> _)") (auto split: prod.splits)
next
  case (MeFilled iid)
  show ?thesis
  proof (cases "expected_fill m")
    case (Some q)
    with fill_progress_inv [OF assms(1,2) expected_fill_representable [OF assms(1,3) Some] assms(4), of iid True, where ?'a = unit] MeFilled show ?thesis
      by (cases "fst (on_intent_fill_progress ar iid q True m :: (unit, bool) outcome \<times> _)") (auto simp: on_intent_filled_def split: prod.splits)
  qed (use MeFilled assms(1) in \<open>simp add: on_intent_filled_def\<close>)
next
  case (MeRestore q)
  with assms(1,5) show ?thesis
    by (simp add: machine_inv_def restore_after_reconcile_def phase_fits_def phase_of_quantity_def)
qed (use assms(1) machine_inv_hold in \<open>simp_all\<close>)

lemma machine_reached_inv:
  assumes "machine_reached ar s bound c m" "lossless ar s" "representable s (sc_order_quantity c)" "sc_order_quantity c \<le> bound"
  shows "machine_inv s bound c m"
  using assms(1)
proof (induction rule: machine_reached.induct)
  case (fresh m)
  then have "m = \<lparr>sm_config = c, sm_state = default_strategy_state\<rparr>" and ok: "strategy_validate c = Ok ()"
    by (auto simp: new_machine_def outcome_simps)
  with validate_positive [OF ok] assms(4) show ?case
    by (simp add: machine_inv_def phase_fits_def default_strategy_state_def)
next
  case (step m e)
  with machine_step_inv [OF _ assms(2-4)] show ?case by blast
qed

text \<open>When a signal leads to an order, and to which.\<close>

lemma on_signal_submit:
  assumes "on_signal uid sg now_ns m = (SdSubmit i, m')"
  shows "sg_asset sg = sc_asset (sm_config m) \<and> sg_venue sg = sc_venue (sm_config m) \<and> \<not> is_expired_signal sg now_ns
    \<and> ss_last_signal_id (sm_state m) \<noteq> Some (sg_signal_id sg)
    \<and> oi_intent_id i = uid \<and> oi_asset i = sc_asset (sm_config m) \<and> oi_venue i = sc_venue (sm_config m)
    \<and> (oi_effect i = Increase \<and> ss_phase (sm_state m) = SpFlat \<and> oi_quantity i = sc_order_quantity (sm_config m)
         \<and> (oi_side i = Buy \<and> f64_le (sc_entry_score (sm_config m)) (sg_score sg)
            \<or> oi_side i = Sell \<and> sc_allow_short (sm_config m) \<and> f64_le (sg_score sg) (f64_neg (sc_entry_score (sm_config m))))
       \<or> oi_effect i = ReduceOnly \<and> oi_quantity i = \<bar>ss_net_quantity (sm_state m)\<bar>
         \<and> (oi_side i = Sell \<and> ss_phase (sm_state m) = SpLong \<or> oi_side i = Buy \<and> ss_phase (sm_state m) = SpShort))"
  using assms
  by (auto simp: on_signal_def Let_def submit_entry_def submit_exit_def machine_intent_def split: if_splits)

text \<open>
  C29. The strategy machine keeps its books straight. In every machine reached from a validated configuration,
  whatever signals, fill reports, holds, halts and restores came before, the phase agrees with the sign of
  the owned quantity and with the outstanding intent, the quantity stays within the order quantity and the
  restored positions, and no event panics. A signal leads to an order only if it is for this instrument,
  unexpired and new, and no intent is outstanding: either an entry of the configured quantity from a flat
  position, past the entry score and short only where shorts are allowed, or a reduce-only exit of exactly
  the owned quantity on the opposite side.
\<close>

theorem strategy_machine_safe:
  assumes "machine_reached ar s bound c m" "lossless ar s" "representable s (sc_order_quantity c)" "sc_order_quantity c \<le> bound"
  shows "phase_fits c (sm_state m) \<and> \<bar>ss_net_quantity (sm_state m)\<bar> \<le> bound
    \<and> (\<forall>e. event_in s bound e \<longrightarrow> fst (machine_step ar e m) \<noteq> Panic)
    \<and> (\<forall>uid sg now_ns i m'. on_signal uid sg now_ns m = (SdSubmit i, m') \<longrightarrow>
        \<not> is_expired_signal sg now_ns \<and> sg_asset sg = sc_asset c \<and> ss_last_signal_id (sm_state m) \<noteq> Some (sg_signal_id sg)
        \<and> ss_active_intent_id (sm_state m) = None
        \<and> (oi_effect i = Increase \<and> ss_net_quantity (sm_state m) = 0 \<and> oi_quantity i = sc_order_quantity c
             \<and> (oi_side i = Buy \<and> f64_le (sc_entry_score c) (sg_score sg)
                \<or> oi_side i = Sell \<and> sc_allow_short c \<and> f64_le (sg_score sg) (f64_neg (sc_entry_score c)))
           \<or> oi_effect i = ReduceOnly \<and> oi_quantity i = \<bar>ss_net_quantity (sm_state m)\<bar> \<and> 0 < oi_quantity i
             \<and> (oi_side i = Sell \<longleftrightarrow> 0 < ss_net_quantity (sm_state m))))"
proof (intro conjI allI impI)
  note inv = machine_reached_inv [OF assms]
  then have fits: "phase_fits c (sm_state m)" and conf: "sm_config m = c" by (auto simp: machine_inv_def)
  show "phase_fits c (sm_state m)" "\<bar>ss_net_quantity (sm_state m)\<bar> \<le> bound" using inv by (auto simp: machine_inv_def)
  show "fst (machine_step ar e m) \<noteq> Panic" if "event_in s bound e" for e
    using machine_step_inv [OF inv assms(2-4) that] by blast
  fix uid sg now_ns i m'
  assume sub: "on_signal uid sg now_ns m = (SdSubmit i, m')"
  note s = on_signal_submit [OF sub, unfolded conf]
  show "\<not> is_expired_signal sg now_ns" "sg_asset sg = sc_asset c" "ss_last_signal_id (sm_state m) \<noteq> Some (sg_signal_id sg)"
    using s by auto
  show "ss_active_intent_id (sm_state m) = None" using s fits by (auto simp: phase_fits_def)
  show "oi_effect i = Increase \<and> ss_net_quantity (sm_state m) = 0 \<and> oi_quantity i = sc_order_quantity c
             \<and> (oi_side i = Buy \<and> f64_le (sc_entry_score c) (sg_score sg)
                \<or> oi_side i = Sell \<and> sc_allow_short c \<and> f64_le (sg_score sg) (f64_neg (sc_entry_score c)))
           \<or> oi_effect i = ReduceOnly \<and> oi_quantity i = \<bar>ss_net_quantity (sm_state m)\<bar> \<and> 0 < oi_quantity i
             \<and> (oi_side i = Sell \<longleftrightarrow> 0 < ss_net_quantity (sm_state m))"
    using s fits by (auto simp: phase_fits_def)
qed

section \<open>From submission to settlement\<close>

fun signed_quantity :: "decimal \<Rightarrow> side \<Rightarrow> decimal" where
  "signed_quantity q Buy = q"
| "signed_quantity q Sell = - q"

definition resting :: "strategy_phase \<Rightarrow> bool" where
  "resting p \<longleftrightarrow> p \<in> {SpFlat, SpLong, SpShort}"

fun progress_run :: "dec_ops \<Rightarrow> uuid \<Rightarrow> decimal list \<Rightarrow> strategy_machine \<Rightarrow> strategy_machine" where
  "progress_run ar iid [] m = m"
| "progress_run ar iid (q # qs) m =
     progress_run ar iid qs (snd (on_intent_fill_progress ar iid q False m :: (unit, bool) outcome \<times> strategy_machine))"

text \<open>A machine whose outstanding intent started from \<open>net0\<close> and has filled \<open>filled\<close> so far.\<close>

definition working :: "order_intent \<Rightarrow> decimal \<Rightarrow> decimal \<Rightarrow> strategy_machine \<Rightarrow> bool" where
  "working i net0 filled m \<longleftrightarrow>
     ss_active_intent_id (sm_state m) = Some (oi_intent_id i)
     \<and> ss_intent_start_quantity (sm_state m) = Some net0
     \<and> expected_fill m = Some (oi_quantity i)
     \<and> ss_net_quantity (sm_state m) = net0 + signed_quantity filled (oi_side i)
     \<and> ss_phase (sm_state m) =
         (if oi_effect i = Increase then (if oi_side i = Buy then SpEnteringLong else SpEnteringShort)
          else (if oi_side i = Sell then SpExitingLong else SpExitingShort))
     \<and> (oi_effect i = Increase \<longrightarrow> net0 = 0)
     \<and> (oi_effect i = ReduceOnly \<longrightarrow> oi_quantity i = \<bar>net0\<bar> \<and> (oi_side i = Sell \<longleftrightarrow> 0 < net0))"

lemma submit_working:
  assumes "machine_inv s bound c m" "on_signal uid sg now_ns m = (SdSubmit i, m')"
  shows "working i (ss_net_quantity (sm_state m)) 0 m'"
proof -
  from assms(1) have "phase_fits c (sm_state m)" by (simp add: machine_inv_def)
  with assms(2) show ?thesis
    by (auto simp: on_signal_def Let_def submit_entry_def submit_exit_def machine_intent_def working_def
        expected_fill_def phase_fits_def split: if_splits)
qed

lemma working_filled_net:
  assumes "working i net0 filled m" "lossless ar s" "representable s net0" "representable s q" "0 \<le> q" "q \<le> oi_quantity i"
  shows "filled_net ar q m = Some (net0 + signed_quantity q (oi_side i))"
proof (cases "oi_effect i")
  case Increase
  with assms(1) show ?thesis by (cases "oi_side i") (auto simp: working_def filled_net_def Let_def)
next
  case ReduceOnly
  show ?thesis
  proof (cases "oi_side i")
    case Sell
    with ReduceOnly assms(1) have w: "0 < net0" "ss_phase (sm_state m) = SpExitingLong" "ss_intent_start_quantity (sm_state m) = Some net0"
      by (auto simp: working_def)
    then have "checked_sub ar net0 q = Some (net0 - q)" using assms(2-5) by (intro lossless_sub_nonneg) auto
    with w Sell show ?thesis by (simp add: filled_net_def)
  next
    case Buy
    with ReduceOnly assms(1) have w: "net0 \<le> 0" "ss_phase (sm_state m) = SpExitingShort" "ss_intent_start_quantity (sm_state m) = Some net0"
        "q \<le> - net0"
      using assms(6) by (auto simp: working_def)
    have "representable s (net0 + q)"
      using representable_between [OF assms(3,4,3)] w(1,4) assms(5) by simp
    then have "checked_add ar net0 q = Some (net0 + q)" using assms(2-4) by (intro lossless_add)
    with w Buy show ?thesis by (simp add: filled_net_def)
  qed
qed

lemma progress_working:
  assumes "working i net0 filled m" "lossless ar s" "representable s net0" "representable s q" "0 \<le> q" "q \<le> oi_quantity i"
  shows "working i net0 q (snd (on_intent_fill_progress ar (oi_intent_id i) q False m))"
proof -
  let ?m = "m\<lparr>sm_state := (sm_state m)\<lparr>ss_net_quantity := net0 + signed_quantity q (oi_side i)\<rparr>\<rparr>"
  have a: "ss_active_intent_id (sm_state m) = Some (oi_intent_id i)" "expected_fill m = Some (oi_quantity i)"
      "ss_intent_start_quantity (sm_state m) = Some net0"
    using assms(1) by (auto simp: working_def)
  then have run: "snd (on_intent_fill_progress ar (oi_intent_id i) q False m) = ?m"
    using working_filled_net [OF assms] assms(5,6) by (simp add: on_intent_fill_progress_def)
  have "expected_fill ?m = expected_fill m" using a(3) by (simp add: expected_fill_def Let_def)
  with assms(1) show ?thesis unfolding run working_def by simp
qed

lemma progress_run_working:
  assumes "lossless ar s" "representable s net0"
  shows "working i net0 filled m \<Longrightarrow> \<forall>q\<in>set qs. representable s q \<and> 0 \<le> q \<and> q \<le> oi_quantity i \<Longrightarrow>
    working i net0 (last (filled # qs)) (progress_run ar (oi_intent_id i) qs m)"
proof (induction qs arbitrary: filled m)
  case (Cons q qs)
  have "working i net0 q (snd (on_intent_fill_progress ar (oi_intent_id i) q False m :: (unit, bool) outcome \<times> strategy_machine))"
    using Cons.prems by (intro progress_working [OF Cons.prems(1) assms]) auto
  from Cons.IH [OF this] Cons.prems(2) show ?case by simp
qed simp

text \<open>
  C30. Every intent settles. After a signal made the machine submit an intent, and after any number of partial
  fill reports with cumulative quantities between zero and the intent's, the owned quantity is the one
  before the signal plus the signed quantity last reported, and the intent is still outstanding. The final
  report then always succeeds: the machine owns the quantity before plus the whole signed quantity, no
  intent is outstanding and the phase is flat, long or short by the sign of what it owns; in particular an
  exit that fills leaves it flat.
\<close>

theorem strategy_intent_settles:
  assumes "machine_reached ar s bound c m" "lossless ar s" "representable s (sc_order_quantity c)" "sc_order_quantity c \<le> bound"
    "on_signal uid sg now_ns m = (SdSubmit i, m')"
    "\<forall>q\<in>set qs. representable s q \<and> 0 \<le> q \<and> q \<le> oi_quantity i"
  shows "ss_net_quantity (sm_state (progress_run ar uid qs m')) =
      ss_net_quantity (sm_state m) + signed_quantity (last (0 # qs)) (oi_side i)
    \<and> ss_active_intent_id (sm_state (progress_run ar uid qs m')) = Some uid
    \<and> (\<exists>m''. on_intent_filled ar uid (progress_run ar uid qs m') = ((Ok True :: (unit, bool) outcome), m'')
         \<and> ss_net_quantity (sm_state m'') = ss_net_quantity (sm_state m) + signed_quantity (oi_quantity i) (oi_side i)
         \<and> ss_active_intent_id (sm_state m'') = None
         \<and> ss_phase (sm_state m'') = phase_of_quantity (ss_net_quantity (sm_state m''))
         \<and> (oi_effect i = ReduceOnly \<longrightarrow> ss_phase (sm_state m'') = SpFlat))"
proof -
  let ?n = "ss_net_quantity (sm_state m)" and ?m = "progress_run ar uid qs m'"
  note inv = machine_reached_inv [OF assms(1-4)]
  have uid: "oi_intent_id i = uid" using on_signal_submit [OF assms(5)] by simp
  have rn: "representable s ?n" using inv by (simp add: machine_inv_def)
  have w: "working i ?n (last (0 # qs)) ?m"
    using progress_run_working [OF assms(2) rn submit_working [OF inv assms(5)] assms(6)] by (simp add: uid)
  have q: "representable s (oi_quantity i)" "0 \<le> oi_quantity i"
    using on_signal_submit [OF assms(5)] inv validate_positive [of c] assms(3) by (auto simp: machine_inv_def)
  note net = working_filled_net [OF w assms(2) rn q order_refl]
  have "on_intent_filled ar uid ?m = (Ok True, ?m\<lparr>sm_state := (sm_state ?m)\<lparr>ss_net_quantity := ?n + signed_quantity (oi_quantity i) (oi_side i),
      ss_phase := phase_of_quantity (?n + signed_quantity (oi_quantity i) (oi_side i)), ss_active_intent_id := None, ss_intent_start_quantity := None\<rparr>\<rparr>)"
    using w net q(2) by (simp add: on_intent_filled_def on_intent_fill_progress_def working_def uid)
  moreover have "oi_effect i = ReduceOnly \<longrightarrow> ?n + signed_quantity (oi_quantity i) (oi_side i) = 0"
    using w by (cases "oi_side i") (auto simp: working_def)
  ultimately show ?thesis using w by (auto simp: working_def uid phase_of_quantity_def)
qed

section \<open>A concrete run\<close>

definition demo_config :: strategy_config where
  "demo_config = \<lparr>sc_strategy_id = ''s'', sc_asset = ''HYPE'', sc_venue = Hyperliquid, sc_order_quantity = 2,
     sc_entry_score = Finite (1/2), sc_exit_score = Finite (1/10), sc_allow_short = False\<rparr>"

definition demo_machine :: strategy_machine where
  "demo_machine = \<lparr>sm_config = demo_config, sm_state = default_strategy_state\<rparr>"

definition demo_signal :: signal where
  "demo_signal = \<lparr>sg_schema_version = ''signal.v1'', sg_signal_id = ''a'', sg_alpha_id = ''alpha'', sg_asset = ''HYPE'',
     sg_venue = Hyperliquid, sg_score = Finite (4/5), sg_confidence = Finite 1, sg_horizon_ms = 1, sg_created_at_ns = 1,
     sg_expires_at_ns = 10, sg_model_version = None, sg_feature_set = None, sg_metadata = ''{}''\<rparr>"

lemma demo_reached: "machine_reached bounded_ops 0 2 demo_config demo_machine"
  by (rule machine_reached.fresh)
     (simp add: new_machine_def strategy_validate_def demo_config_def demo_machine_def in_closed_def)

lemma demo_facts: "lossless bounded_ops 0" "representable 0 (sc_order_quantity demo_config)" "sc_order_quantity demo_config \<le> 2"
  by (simp_all add: lossless_bounded_ops demo_config_def representable_numeral)

definition demo_intent :: order_intent where
  "demo_intent = machine_intent 7 demo_machine demo_signal Buy 2 Increase"

definition demo_submitted :: strategy_machine where
  "demo_submitted = snd (on_signal 7 demo_signal 5 demo_machine)"

lemma demo_submit: "on_signal 7 demo_signal 5 demo_machine = (SdSubmit demo_intent, demo_submitted)"
  unfolding demo_submitted_def
  by (simp add: on_signal_def demo_signal_def demo_machine_def demo_config_def default_strategy_state_def
      is_expired_signal_def submit_entry_def demo_intent_def machine_intent_def)

theorem strategy_machine_safe_witness:
  "phase_fits demo_config (sm_state demo_machine) \<and> ss_active_intent_id (sm_state demo_machine) = None \<and> oi_quantity demo_intent = 2"
proof -
  note safe = strategy_machine_safe [OF demo_reached demo_facts]
  have "ss_active_intent_id (sm_state demo_machine) = None" using safe demo_submit by blast
  with safe show ?thesis by (simp add: demo_intent_def machine_intent_def)
qed

theorem strategy_intent_settles_witness:
  "ss_net_quantity (sm_state (progress_run bounded_ops 7 [1] demo_submitted)) = 1
    \<and> (\<exists>m. on_intent_filled bounded_ops 7 (progress_run bounded_ops 7 [1] demo_submitted) = ((Ok True :: (unit, bool) outcome), m)
       \<and> ss_phase (sm_state m) = SpLong)"
proof -
  have i: "oi_quantity demo_intent = 2" "oi_side demo_intent = Buy" by (simp_all add: demo_intent_def machine_intent_def)
  have n: "ss_net_quantity (sm_state demo_machine) = 0" by (simp add: demo_machine_def default_strategy_state_def)
  have "\<forall>q\<in>set [1]. representable 0 q \<and> 0 \<le> q \<and> q \<le> oi_quantity demo_intent" by (simp add: i representable_one)
  from strategy_intent_settles [OF demo_reached demo_facts demo_submit this] show ?thesis
    unfolding i n by (auto simp: phase_of_quantity_def)
qed

end
