(* ===== verification/F64.thy ===== *)
theory F64
  imports Prelude "HOL-Library.Log_Nat"
begin

text \<open>
  Arithmetic on \<open>f64\<close>: the exact result of an operation on finite numbers, rounded to the nearest binary64
  number with ties to even, with infinities and NaN as IEEE 754 gives them. Zeros carry no sign; a
  quotient by zero takes it as positive. \<open>ln\<close>, \<open>sqrt\<close> and \<open>powi\<close> of the mathematical library are
  parameters.
\<close>

section \<open>Rounding\<close>

definition pow2 :: "int \<Rightarrow> rat" where
  "pow2 e = (if 0 \<le> e then 2 ^ nat e else 1 / 2 ^ nat (- e))"

text \<open>The exponent of a positive number: the largest \<open>e\<close> with \<open>pow2 e \<le> x\<close>.\<close>

definition exponent_of :: "rat \<Rightarrow> int" where
  "exponent_of x =
     (let (n, d) = quotient_of x; e = bitlen n - bitlen d in if pow2 e \<le> x then e else e - 1)"

definition round_half_even :: "rat \<Rightarrow> int" where
  "round_half_even q =
     (let f = \<lfloor>q\<rfloor>; r = q - of_int f in
      if r < 1/2 then f else if 1/2 < r then f + 1 else if even f then f else f + 1)"

text \<open>The result overflows when its exponent exceeds 1023, or reaches it by the rounding.\<close>

definition round64 :: "rat \<Rightarrow> f64" where
  "round64 x =
     (if x = 0 then Finite 0
      else let e = max (exponent_of \<bar>x\<bar>) (- 1022); ulp = pow2 (e - 52); m = round_half_even (\<bar>x\<bar> / ulp) in
        if 1023 < e \<or> e = 1023 \<and> m = 9007199254740992 then (if 0 < x then PosInf else NegInf)
        else Finite (if 0 < x then of_int m * ulp else - (of_int m * ulp)))"

section \<open>Operations\<close>

fun is_finite :: "f64 \<Rightarrow> bool" where
  "is_finite (Finite _) = True"
| "is_finite _ = False"

fun f64_add :: "f64 \<Rightarrow> f64 \<Rightarrow> f64" where
  "f64_add (Finite a) (Finite b) = round64 (a + b)"
| "f64_add NaN y = NaN"
| "f64_add x NaN = NaN"
| "f64_add PosInf NegInf = NaN"
| "f64_add NegInf PosInf = NaN"
| "f64_add PosInf y = PosInf"
| "f64_add NegInf y = NegInf"
| "f64_add x y = y"

definition f64_sub :: "f64 \<Rightarrow> f64 \<Rightarrow> f64" where
  "f64_sub x y = f64_add x (f64_neg y)"

fun f64_sign :: "f64 \<Rightarrow> int" where
  "f64_sign (Finite a) = (if 0 < a then 1 else if a < 0 then - 1 else 0)"
| "f64_sign PosInf = 1"
| "f64_sign NegInf = - 1"
| "f64_sign NaN = 0"

definition f64_inf :: "int \<Rightarrow> f64" where
  "f64_inf s = (if 0 < s then PosInf else if s < 0 then NegInf else NaN)"

fun f64_mul :: "f64 \<Rightarrow> f64 \<Rightarrow> f64" where
  "f64_mul (Finite a) (Finite b) = round64 (a * b)"
| "f64_mul NaN y = NaN"
| "f64_mul x NaN = NaN"
| "f64_mul x y = f64_inf (f64_sign x * f64_sign y)"

fun f64_div :: "f64 \<Rightarrow> f64 \<Rightarrow> f64" where
  "f64_div NaN y = NaN"
| "f64_div x NaN = NaN"
| "f64_div (Finite a) (Finite b) = (if b = 0 then f64_inf (f64_sign (Finite a)) else round64 (a / b))"
| "f64_div (Finite a) y = Finite 0"
| "f64_div x (Finite b) = f64_inf (f64_sign x * (if b < 0 then - 1 else 1))"
| "f64_div x y = NaN"

text \<open>\<open>f64::clamp\<close> with constant bounds, \<open>f64::max\<close>, and the sum of an iterator.\<close>

definition f64_clamp :: "f64 \<Rightarrow> f64 \<Rightarrow> f64 \<Rightarrow> f64" where
  "f64_clamp lo hi x = (if f64_lt x lo then lo else if f64_lt hi x then hi else x)"

definition f64_max :: "f64 \<Rightarrow> f64 \<Rightarrow> f64" where
  "f64_max x y = (if x = NaN then y else if y = NaN then x else if f64_lt x y then y else x)"

definition f64_sum :: "f64 list \<Rightarrow> f64" where
  "f64_sum xs = foldl f64_add (Finite 0) xs"

definition f64_of_nat :: "nat \<Rightarrow> f64" where
  "f64_of_nat n = round64 (of_nat n)"

record libm =
  lm_ln :: "f64 \<Rightarrow> f64"
  lm_sqrt :: "f64 \<Rightarrow> f64"
  lm_powi :: "f64 \<Rightarrow> nat \<Rightarrow> f64"

section \<open>Facts\<close>

lemma f64_le_not_lt: "x \<noteq> NaN \<Longrightarrow> y \<noteq> NaN \<Longrightarrow> f64_le x y \<longleftrightarrow> \<not> f64_lt y x"
  by (cases x; cases y) auto

lemma f64_le_trans: "f64_le x y \<Longrightarrow> f64_le y z \<Longrightarrow> f64_le x z"
  by (cases x; cases y; cases z) auto

lemma f64_lt_le: "f64_lt x y \<Longrightarrow> f64_le x y"
  by (cases x; cases y) auto

lemma f64_clamp_between:
  assumes "f64_le lo hi" "x \<noteq> NaN"
  shows "in_closed lo hi (f64_clamp lo hi x)"
  using assms by (cases lo; cases hi; cases x) (auto simp: f64_clamp_def in_closed_def)

lemma f64_clamp_NaN: "f64_clamp lo hi NaN = NaN"
  by (cases lo; cases hi) (simp_all add: f64_clamp_def)

lemma round64_not_NaN: "round64 x \<noteq> NaN"
  by (simp add: round64_def Let_def)

lemma round64_example: "round64 (1/10) = Finite (3602879701896397 / 36028797018963968)"
  by code_simp

lemma round64_small: "round64 1 = Finite 1" "round64 2 = Finite 2"
  by code_simp+

end
