(* ===== verification/Factors.thy ===== *)
theory Factors
  imports MarketData F64
begin

text \<open>
  The rolling factor engine of \<open>rust/crates/pg-strategy/src/factors.rs\<close>, the stand-alone formulas of
  \<open>policy/factors.rs\<close> and the entry filter of \<open>selector.rs\<close>. \<open>to_f64\<close> converts a decimal, \<open>lm\<close> is the
  mathematical library, and \<open>show6\<close> prints a double with six decimals; all other arithmetic is the
  rounded arithmetic of doubles.
\<close>

section \<open>Configuration\<close>

record factor_config =
  fc_trade_window :: nat
  fc_candle_window :: nat
  fc_book_levels :: nat
  fc_min_trade_samples :: nat
  fc_min_candle_samples :: nat
  fc_max_spread_bps :: f64
  fc_volatility_soft_cap_bps :: f64
  fc_vwap_scale_bps :: f64
  fc_momentum_scale_bps :: f64
  fc_vwap_weight :: f64
  fc_trade_imbalance_weight :: f64
  fc_book_imbalance_weight :: f64
  fc_momentum_weight :: f64

definition default_factor_config :: factor_config where
  "default_factor_config =
     \<lparr>fc_trade_window = 64, fc_candle_window = 32, fc_book_levels = 5, fc_min_trade_samples = 16,
      fc_min_candle_samples = 8, fc_max_spread_bps = Finite 25, fc_volatility_soft_cap_bps = Finite 150,
      fc_vwap_scale_bps = Finite 20, fc_momentum_scale_bps = Finite 35, fc_vwap_weight = Finite (1/4),
      fc_trade_imbalance_weight = round64 (3/10), fc_book_imbalance_weight = Finite (1/4),
      fc_momentum_weight = round64 (1/5)\<rparr>"

definition factor_validate :: "factor_config \<Rightarrow> (string, unit) outcome" where
  "factor_validate c =
     (if fc_trade_window c = 0 \<or> fc_candle_window c = 0 \<or> fc_book_levels c = 0
        then Err ''factor windows and book_levels must be positive''
      else if fc_min_trade_samples c = 0 \<or> fc_trade_window c < fc_min_trade_samples c
        then Err ''min_trade_samples must be in [1, trade_window]''
      else if fc_min_candle_samples c = 0 \<or> fc_candle_window c < fc_min_candle_samples c
        then Err ''min_candle_samples must be in [1, candle_window]''
      else if f64_le (fc_max_spread_bps c) (Finite 0) \<or> f64_le (fc_volatility_soft_cap_bps c) (Finite 0)
        \<or> f64_le (fc_vwap_scale_bps c) (Finite 0) \<or> f64_le (fc_momentum_scale_bps c) (Finite 0)
        then Err ''factor scale parameters must be positive''
      else if f64_add (f64_add (f64_add (f64_abs (fc_vwap_weight c)) (f64_abs (fc_trade_imbalance_weight c)))
          (f64_abs (fc_book_imbalance_weight c))) (f64_abs (fc_momentum_weight c)) = Finite 0
        then Err ''at least one directional factor weight must be non-zero''
      else Ok ())"

record factor_snapshot =
  fsn_ts_recv_ns :: u64
  fsn_last_price :: "f64 option"
  fsn_vwap :: "f64 option"
  fsn_vwap_deviation_bps :: "f64 option"
  fsn_trade_imbalance :: "f64 option"
  fsn_spread_bps :: "f64 option"
  fsn_book_imbalance :: "f64 option"
  fsn_momentum_bps :: "f64 option"
  fsn_realized_volatility_bps :: "f64 option"
  fsn_warmup_ratio :: f64
  fsn_score :: f64
  fsn_confidence :: f64

record trade_sample =
  ts_price :: f64
  ts_quantity :: f64
  ts_signed_quantity :: f64

record factor_engine =
  fe_config :: factor_config
  fe_trades :: "trade_sample list"
  fe_closes :: "f64 list"
  fe_last_price :: "f64 option"
  fe_bbo :: "(f64 \<times> f64 \<times> f64 \<times> f64) option"
  fe_book_totals :: "(f64 \<times> f64) option"
  fe_last_recv_ns :: u64

definition new_factor_engine :: "factor_config \<Rightarrow> (string, factor_engine) outcome" where
  "new_factor_engine c =
     and_then (factor_validate c) (\<lambda>_.
       Ok \<lparr>fe_config = c, fe_trades = [], fe_closes = [], fe_last_price = None, fe_bbo = None,
           fe_book_totals = None, fe_last_recv_ns = 0\<rparr>)"

section \<open>Factors\<close>

definition clip :: "f64 \<Rightarrow> f64" where
  "clip v = f64_clamp (Finite (- 1)) (Finite 1) v"

definition unit_clamp :: "f64 \<Rightarrow> f64" where
  "unit_clamp v = f64_clamp (Finite 0) (Finite 1) v"

definition ratio_of :: "nat \<Rightarrow> nat \<Rightarrow> f64" where
  "ratio_of current target = unit_clamp (f64_div (f64_of_nat current) (f64_of_nat target))"

definition positive :: "f64 \<Rightarrow> bool" where
  "positive v \<longleftrightarrow> f64_lt (Finite 0) v"

definition to_bps :: "f64 \<Rightarrow> f64" where
  "to_bps r = f64_mul (f64_sub r (Finite 1)) (Finite 10000)"

definition fe_vwap :: "factor_engine \<Rightarrow> f64 option" where
  "fe_vwap fe =
     (let notional = f64_sum (map (\<lambda>t. f64_mul (ts_price t) (ts_quantity t)) (fe_trades fe));
          volume = f64_sum (map ts_quantity (fe_trades fe)) in
      if positive volume then Some (f64_div notional volume) else None)"

definition fe_trade_imbalance :: "factor_engine \<Rightarrow> f64 option" where
  "fe_trade_imbalance fe =
     (let signed = f64_sum (map ts_signed_quantity (fe_trades fe)); tot = f64_sum (map ts_quantity (fe_trades fe)) in
      if positive tot then Some (clip (f64_div signed tot)) else None)"

definition fe_spread_bps :: "factor_engine \<Rightarrow> f64 option" where
  "fe_spread_bps fe =
     Option.bind (fe_bbo fe) (\<lambda>(bid, _, ask, _).
       let mid = f64_div (f64_add bid ask) (Finite 2) in
       if positive mid then Some (f64_mul (f64_div (f64_sub ask bid) mid) (Finite 10000)) else None)"

definition fe_book_imbalance :: "factor_engine \<Rightarrow> f64 option" where
  "fe_book_imbalance fe =
     Option.bind (fe_book_totals fe) (\<lambda>(bid, ask).
       let tot = f64_add bid ask in
       if positive tot then Some (clip (f64_div (f64_sub bid ask) tot)) else None)"

definition fe_momentum_bps :: "factor_engine \<Rightarrow> f64 option" where
  "fe_momentum_bps fe =
     (if fe_closes fe = [] then None
      else let first = hd (fe_closes fe); final = last (fe_closes fe) in
        if positive first then Some (to_bps (f64_div final first)) else None)"

definition log_returns :: "libm \<Rightarrow> f64 list \<Rightarrow> f64 list" where
  "log_returns lm closes =
     map (\<lambda>(l, r). lm_ln lm (f64_div r l)) (filter (\<lambda>(l, r). positive l \<and> positive r) (zip closes (drop 1 closes)))"

definition fe_realized_volatility_bps :: "libm \<Rightarrow> factor_engine \<Rightarrow> f64 option" where
  "fe_realized_volatility_bps lm fe =
     (if length (fe_closes fe) < 2 then None
      else let returns = log_returns lm (fe_closes fe) in
        if returns = [] then None
        else let mean = f64_div (f64_sum returns) (f64_of_nat (length returns));
                 variance = f64_div (f64_sum (map (\<lambda>v. let diff = f64_sub v mean in f64_mul diff diff) returns))
                   (f64_of_nat (length returns)) in
          Some (f64_mul (lm_sqrt lm variance) (Finite 10000)))"

text \<open>The directional factors with their weights.\<close>

definition directional :: "factor_engine \<Rightarrow> f64 option \<Rightarrow> (f64 option \<times> f64) list" where
  "directional fe vwap_deviation_bps =
     (let c = fe_config fe in
      [(map_option (\<lambda>v. clip (f64_div v (fc_vwap_scale_bps c))) vwap_deviation_bps, fc_vwap_weight c),
       (fe_trade_imbalance fe, fc_trade_imbalance_weight c),
       (fe_book_imbalance fe, fc_book_imbalance_weight c),
       (map_option (\<lambda>v. clip (f64_div v (fc_momentum_scale_bps c))) (fe_momentum_bps fe), fc_momentum_weight c)])"

definition available_weight :: "(f64 option \<times> f64) list \<Rightarrow> f64" where
  "available_weight ds = f64_sum (map (\<lambda>(_, w). f64_abs w) (filter (\<lambda>(v, _). v \<noteq> None) ds))"

definition weighted_sum :: "(f64 option \<times> f64) list \<Rightarrow> f64" where
  "weighted_sum ds = f64_sum (List.map_filter (\<lambda>(v, w). map_option (\<lambda>x. f64_mul x w) v) ds)"

definition fe_snapshot :: "libm \<Rightarrow> factor_engine \<Rightarrow> factor_snapshot" where
  "fe_snapshot lm fe =
     (let c = fe_config fe;
          vwap = fe_vwap fe;
          deviation = (case (fe_last_price fe, vwap) of
              (Some price, Some v) \<Rightarrow> if positive v then Some (to_bps (f64_div price v)) else None
            | _ \<Rightarrow> None);
          spread = fe_spread_bps fe;
          volatility = fe_realized_volatility_bps lm fe;
          ds = directional fe deviation;
          configured = f64_sum (map (\<lambda>(_, w). f64_abs w) ds);
          available = available_weight ds;
          score = (if positive available then clip (f64_div (weighted_sum ds) available) else Finite 0);
          trade_progress = ratio_of (length (fe_trades fe)) (fc_min_trade_samples c);
          candle_progress = ratio_of (length (fe_closes fe)) (fc_min_candle_samples c);
          bbo_progress = (if fe_bbo fe \<noteq> None then Finite 1 else Finite 0);
          book_progress = (if fe_book_totals fe \<noteq> None then Finite 1 else Finite 0);
          warmup = f64_div (f64_add (f64_add (f64_add trade_progress candle_progress) bbo_progress) book_progress) (Finite 4);
          coverage = (if positive configured then f64_div available configured else Finite 0);
          spread_quality = (case spread of
              Some s \<Rightarrow> f64_sub (Finite 1) (unit_clamp (f64_div s (fc_max_spread_bps c)))
            | None \<Rightarrow> Finite (1/2));
          volatility_quality = (case volatility of
              Some v \<Rightarrow> if f64_le v (fc_volatility_soft_cap_bps c) then Finite 1
                        else unit_clamp (f64_div (fc_volatility_soft_cap_bps c) v)
            | None \<Rightarrow> Finite (3/4));
          confidence = unit_clamp (f64_mul (f64_mul (f64_mul warmup coverage) spread_quality) volatility_quality)
      in \<lparr>fsn_ts_recv_ns = fe_last_recv_ns fe, fsn_last_price = fe_last_price fe, fsn_vwap = vwap,
          fsn_vwap_deviation_bps = deviation, fsn_trade_imbalance = fe_trade_imbalance fe,
          fsn_spread_bps = spread, fsn_book_imbalance = fe_book_imbalance fe,
          fsn_momentum_bps = fe_momentum_bps fe, fsn_realized_volatility_bps = volatility,
          fsn_warmup_ratio = warmup, fsn_score = score, fsn_confidence = confidence\<rparr>)"

section \<open>Events\<close>

text \<open>\<open>push_back\<close> followed by \<open>pop_front\<close> while the deque is longer than its window.\<close>

definition push_window :: "nat \<Rightarrow> 'a \<Rightarrow> 'a list \<Rightarrow> 'a list" where
  "push_window window x xs = (let ys = xs @ [x] in drop (length ys - window) ys)"

fun aggressor_sign :: "aggressor_side \<Rightarrow> f64" where
  "aggressor_sign AgBuy = Finite 1"
| "aggressor_sign AgSell = Finite (- 1)"
| "aggressor_sign AgUnknown = Finite 0"

definition level_total :: "(decimal \<Rightarrow> f64 option) \<Rightarrow> nat \<Rightarrow> book_level list \<Rightarrow> f64" where
  "level_total to_f64 n levels = f64_sum (List.map_filter (\<lambda>l. to_f64 (bl_quantity l)) (take n levels))"

text \<open>The state change of an event, \<open>None\<close> where the event yields no snapshot.\<close>

fun fe_absorb :: "(decimal \<Rightarrow> f64 option) \<Rightarrow> market_event \<Rightarrow> factor_engine \<Rightarrow> factor_engine option" where
  "fe_absorb to_f64 (MTrade t) fe =
     Option.bind (to_f64 (tt_price t)) (\<lambda>price. Option.bind (to_f64 (tt_quantity t)) (\<lambda>quantity.
       if \<not> is_finite price \<or> \<not> is_finite quantity \<or> f64_le price (Finite 0) \<or> f64_le quantity (Finite 0) then None
       else Some (fe\<lparr>fe_last_price := Some price,
              fe_trades := push_window (fc_trade_window (fe_config fe))
                \<lparr>ts_price = price, ts_quantity = quantity,
                 ts_signed_quantity = f64_mul quantity (aggressor_sign (tt_aggressor t))\<rparr> (fe_trades fe)\<rparr>)))"
| "fe_absorb to_f64 (MBestBidAsk q) fe =
     Option.bind (to_f64 (bb_bid_price q)) (\<lambda>bid. Option.bind (to_f64 (bb_bid_quantity q)) (\<lambda>bid_qty.
     Option.bind (to_f64 (bb_ask_price q)) (\<lambda>ask. Option.bind (to_f64 (bb_ask_quantity q)) (\<lambda>ask_qty.
       Some (if positive bid \<and> f64_le bid ask \<and> f64_le (Finite 0) bid_qty \<and> f64_le (Finite 0) ask_qty
             then fe\<lparr>fe_bbo := Some (bid, bid_qty, ask, ask_qty),
                     fe_last_price := Some (f64_div (f64_add bid ask) (Finite 2))\<rparr>
             else fe)))))"
| "fe_absorb to_f64 (ML2Book b) fe =
     (let bid_total = level_total to_f64 (fc_book_levels (fe_config fe)) (lb_bids b);
          ask_total = level_total to_f64 (fc_book_levels (fe_config fe)) (lb_asks b) in
      Some (if f64_le (Finite 0) bid_total \<and> f64_le (Finite 0) ask_total
            then fe\<lparr>fe_book_totals := Some (bid_total, ask_total)\<rparr> else fe))"
| "fe_absorb to_f64 (MCandle c) fe =
     Option.bind (to_f64 (cd_close c)) (\<lambda>close.
       if \<not> is_finite close \<or> f64_le close (Finite 0) then None
       else Some (fe\<lparr>fe_last_price := Some close,
              fe_closes := push_window (fc_candle_window (fe_config fe)) close (fe_closes fe)\<rparr>))"

definition fe_on_event ::
  "(decimal \<Rightarrow> f64 option) \<Rightarrow> libm \<Rightarrow> market_event \<Rightarrow> factor_engine \<Rightarrow> factor_snapshot option \<times> factor_engine" where
  "fe_on_event to_f64 lm e fe =
     (let fe1 = fe\<lparr>fe_last_recv_ns := event_ts_recv_ns e\<rparr> in
      case fe_absorb to_f64 e fe1 of
        Some fe2 \<Rightarrow> (Some (fe_snapshot lm fe2), fe2)
      | None \<Rightarrow> (None, fe1))"

section \<open>Formulas\<close>

definition ema_last :: "f64 list \<Rightarrow> nat \<Rightarrow> f64 option" where
  "ema_last values period =
     (if period = 0 \<or> length values < period \<or> list_ex (\<lambda>v. \<not> is_finite v) values then None
      else let seed = f64_div (f64_sum (take period values)) (f64_of_nat period);
               alpha = f64_div (Finite 2) (f64_add (f64_of_nat period) (Finite 1)) in
        Some (foldl (\<lambda>ema v. f64_add (f64_mul alpha v) (f64_mul (f64_sub (Finite 1) alpha) ema)) seed (drop period values)))"

definition momentum_bps :: "f64 list \<Rightarrow> nat \<Rightarrow> f64 option" where
  "momentum_bps values lookback =
     (if lookback = 0 \<or> length values \<le> lookback then None
      else let current = last values; previous = values ! (length values - 1 - lookback) in
        if \<not> is_finite current \<or> \<not> is_finite previous \<or> f64_le previous (Finite 0) then None
        else Some (to_bps (f64_div current previous)))"

definition ewo_percent :: "f64 list \<Rightarrow> nat \<Rightarrow> nat \<Rightarrow> f64 option" where
  "ewo_percent values fast_period slow_period =
     (if values = [] \<or> f64_le (last values) (Finite 0) then None
      else Option.bind (ema_last values fast_period) (\<lambda>fast. Option.bind (ema_last values slow_period) (\<lambda>slow.
        Some (f64_mul (f64_div (f64_sub fast slow) (last values)) (Finite 100)))))"

definition volume_ratio :: "f64 list \<Rightarrow> nat \<Rightarrow> f64 option" where
  "volume_ratio volumes prior_window =
     (if prior_window = 0 \<or> length volumes \<le> prior_window then None
      else let current = last volumes; prior = take prior_window (drop (length volumes - 1 - prior_window) volumes) in
        if list_ex (\<lambda>v. \<not> is_finite v \<or> f64_lt v (Finite 0)) prior \<or> f64_lt current (Finite 0) then None
        else let mean = f64_div (f64_sum prior) (f64_of_nat prior_window) in
          if positive mean then Some (f64_div current mean) else None)"

fun gains_losses :: "f64 list \<Rightarrow> f64 \<times> f64 \<Rightarrow> f64 \<times> f64" where
  "gains_losses (x # y # rest) (gains, losses) =
     (let delta = f64_sub y x in
      gains_losses (y # rest)
        (if f64_le (Finite 0) delta then (f64_add gains delta, losses) else (gains, f64_sub losses delta)))"
| "gains_losses _ acc = acc"

definition rsi_wilder :: "f64 list \<Rightarrow> nat \<Rightarrow> f64 option" where
  "rsi_wilder values period =
     (if period = 0 \<or> length values \<le> period \<or> list_ex (\<lambda>v. \<not> is_finite v) values then None
      else case gains_losses (drop (length values - period - 1) values) (Finite 0, Finite 0) of
        (gains, losses) \<Rightarrow>
          if losses = Finite 0 then Some (Finite 100)
          else let rs = f64_div (f64_div gains (f64_of_nat period)) (f64_div losses (f64_of_nat period)) in
            Some (f64_sub (Finite 100) (f64_div (Finite 100) (f64_add (Finite 1) rs))))"

fun vwap_loop :: "(f64 \<times> f64) list \<Rightarrow> f64 \<times> f64 \<Rightarrow> (f64 \<times> f64) option" where
  "vwap_loop [] acc = Some acc"
| "vwap_loop ((price, qty) # rest) (quote, volume) =
     (if \<not> is_finite price \<or> \<not> is_finite qty \<or> f64_le price (Finite 0) \<or> f64_lt qty (Finite 0) then None
      else vwap_loop rest (f64_add quote (f64_mul price qty), f64_add volume qty))"

definition vwap :: "f64 list \<Rightarrow> f64 list \<Rightarrow> f64 option" where
  "vwap prices volumes =
     (if length prices \<noteq> length volumes \<or> prices = [] then None
      else Option.bind (vwap_loop (zip prices volumes) (Finite 0, Finite 0)) (\<lambda>(quote, volume).
        if positive volume then Some (f64_div quote volume) else None))"

section \<open>The entry filter\<close>

record entry_filter_config =
  ef_enabled :: bool
  ef_volume_window :: nat
  ef_min_volume_samples :: nat
  ef_min_momentum_bps :: "f64 option"
  ef_min_volume_ratio :: "f64 option"
  ef_min_trade_imbalance :: "f64 option"
  ef_min_book_imbalance :: "f64 option"
  ef_max_spread_bps :: "f64 option"
  ef_max_realized_volatility_bps :: "f64 option"

definition default_entry_filter :: entry_filter_config where
  "default_entry_filter =
     \<lparr>ef_enabled = False, ef_volume_window = 24, ef_min_volume_samples = 6, ef_min_momentum_bps = None,
      ef_min_volume_ratio = None, ef_min_trade_imbalance = None, ef_min_book_imbalance = None,
      ef_max_spread_bps = None, ef_max_realized_volatility_bps = None\<rparr>"

definition is_some_and :: "'a option \<Rightarrow> ('a \<Rightarrow> bool) \<Rightarrow> bool" where
  "is_some_and x P = (case x of Some v \<Rightarrow> P v | None \<Rightarrow> False)"

definition entry_filter_validate :: "entry_filter_config \<Rightarrow> (string, unit) outcome" where
  "entry_filter_validate c =
     (if ef_volume_window c < 2 then Err ''entry filter volume_window must be >= 2''
      else if ef_min_volume_samples c < 2 \<or> ef_volume_window c < ef_min_volume_samples c
        then Err ''min_volume_samples must be in [2, volume_window]''
      else if is_some_and (ef_min_volume_ratio c) (\<lambda>v. f64_le v (Finite 0)) then Err ''min_volume_ratio must be positive''
      else if is_some_and (ef_max_spread_bps c) (\<lambda>v. f64_le v (Finite 0)) then Err ''max_spread_bps must be positive''
      else if is_some_and (ef_max_realized_volatility_bps c) (\<lambda>v. f64_le v (Finite 0))
        then Err ''max_realized_volatility_bps must be positive''
      else if is_some_and (ef_min_trade_imbalance c) (\<lambda>v. \<not> in_closed (Finite (- 1)) (Finite 1) v)
        \<or> is_some_and (ef_min_book_imbalance c) (\<lambda>v. \<not> in_closed (Finite (- 1)) (Finite 1) v)
        then Err ''imbalance thresholds must be in [-1, 1]''
      else Ok ())"

record entry_filter_snapshot =
  efs_allowed :: bool
  efs_volume_ratio :: "f64 option"
  efs_reasons :: "string list"

record volume_selector =
  vs_config :: entry_filter_config
  vs_volumes :: "f64 list"

definition new_selector :: "entry_filter_config \<Rightarrow> (string, volume_selector) outcome" where
  "new_selector c = and_then (entry_filter_validate c) (\<lambda>_. Ok \<lparr>vs_config = c, vs_volumes = []\<rparr>)"

definition selector_observe :: "(decimal \<Rightarrow> f64 option) \<Rightarrow> market_event \<Rightarrow> volume_selector \<Rightarrow> volume_selector" where
  "selector_observe to_f64 e vs =
     (case e of
        MCandle c \<Rightarrow>
          (case to_f64 (cd_volume c) of
             None \<Rightarrow> vs
           | Some volume \<Rightarrow>
               if \<not> is_finite volume \<or> f64_lt volume (Finite 0) then vs
               else vs\<lparr>vs_volumes := push_window (ef_volume_window (vs_config vs)) volume (vs_volumes vs)\<rparr>)
      | _ \<Rightarrow> vs)"

text \<open>The latest volume over the mean of the earlier ones, shared with the live feature engine.\<close>

definition window_volume_ratio :: "nat \<Rightarrow> f64 list \<Rightarrow> f64 option" where
  "window_volume_ratio min_samples volumes =
     (if length volumes < min_samples \<or> volumes = [] then None
      else let n = length volumes - 1 in
        if n = 0 then None
        else let baseline = f64_div (f64_sum (take n volumes)) (f64_of_nat n) in
          if positive baseline then Some (f64_div (last volumes) baseline) else None)"

definition selector_volume_ratio :: "volume_selector \<Rightarrow> f64 option" where
  "selector_volume_ratio vs = window_volume_ratio (ef_min_volume_samples (vs_config vs)) (vs_volumes vs)"

definition require_min :: "(f64 \<Rightarrow> string) \<Rightarrow> string \<Rightarrow> f64 option \<Rightarrow> f64 option \<Rightarrow> string list" where
  "require_min show6 name actual threshold =
     (case threshold of
        None \<Rightarrow> []
      | Some t \<Rightarrow>
          (case actual of
             Some a \<Rightarrow> if f64_le t a then [] else [name @ '' '' @ show6 a @ '' < minimum '' @ show6 t]
           | None \<Rightarrow> [name @ '' unavailable'']))"

definition require_max :: "(f64 \<Rightarrow> string) \<Rightarrow> string \<Rightarrow> f64 option \<Rightarrow> f64 option \<Rightarrow> string list" where
  "require_max show6 name actual threshold =
     (case threshold of
        None \<Rightarrow> []
      | Some t \<Rightarrow>
          (case actual of
             Some a \<Rightarrow> if f64_le a t then [] else [name @ '' '' @ show6 a @ '' > maximum '' @ show6 t]
           | None \<Rightarrow> [name @ '' unavailable'']))"

definition selector_evaluate :: "(f64 \<Rightarrow> string) \<Rightarrow> factor_snapshot \<Rightarrow> volume_selector \<Rightarrow> entry_filter_snapshot" where
  "selector_evaluate show6 sn vs =
     (let c = vs_config vs; ratio = selector_volume_ratio vs in
      if \<not> ef_enabled c then \<lparr>efs_allowed = True, efs_volume_ratio = ratio, efs_reasons = []\<rparr>
      else let reasons =
          require_min show6 ''momentum_bps'' (fsn_momentum_bps sn) (ef_min_momentum_bps c)
          @ require_min show6 ''volume_ratio'' ratio (ef_min_volume_ratio c)
          @ require_min show6 ''trade_imbalance'' (fsn_trade_imbalance sn) (ef_min_trade_imbalance c)
          @ require_min show6 ''book_imbalance'' (fsn_book_imbalance sn) (ef_min_book_imbalance c)
          @ require_max show6 ''spread_bps'' (fsn_spread_bps sn) (ef_max_spread_bps c)
          @ require_max show6 ''realized_volatility_bps'' (fsn_realized_volatility_bps sn) (ef_max_realized_volatility_bps c)
        in \<lparr>efs_allowed = (reasons = []), efs_volume_ratio = ratio, efs_reasons = reasons\<rparr>)"

section \<open>Windows\<close>

text \<open>The samples that an event contributes, and the last ones of a list.\<close>

definition sample_of :: "(decimal \<Rightarrow> f64 option) \<Rightarrow> market_event \<Rightarrow> trade_sample option" where
  "sample_of to_f64 e =
     (case e of
        MTrade t \<Rightarrow>
          (case (to_f64 (tt_price t), to_f64 (tt_quantity t)) of
             (Some (Finite p), Some (Finite q)) \<Rightarrow>
               if 0 < p \<and> 0 < q
               then Some \<lparr>ts_price = Finite p, ts_quantity = Finite q, ts_signed_quantity = f64_mul (Finite q) (aggressor_sign (tt_aggressor t))\<rparr>
               else None
           | _ \<Rightarrow> None)
      | _ \<Rightarrow> None)"

definition close_of :: "(decimal \<Rightarrow> f64 option) \<Rightarrow> market_event \<Rightarrow> f64 option" where
  "close_of to_f64 e =
     (case e of
        MCandle c \<Rightarrow> (case to_f64 (cd_close c) of Some (Finite p) \<Rightarrow> if 0 < p then Some (Finite p) else None | _ \<Rightarrow> None)
      | _ \<Rightarrow> None)"

definition last_n :: "nat \<Rightarrow> 'a list \<Rightarrow> 'a list" where
  "last_n n xs = drop (length xs - n) xs"

lemma length_last_n: "length (last_n n xs) \<le> n"
  by (simp add: last_n_def)

lemma push_window_last_n: "push_window n x (last_n n xs) = last_n n (xs @ [x])"
proof (cases "length xs < n")
  case False
  then have "length (last_n n xs) = n" by (simp add: last_n_def)
  then have "push_window n x (last_n n xs) = drop 1 (last_n n xs @ [x])" by (simp add: push_window_def Let_def)
  also have "\<dots> = last_n n (xs @ [x])"
    using False by (cases n) (simp_all add: last_n_def Suc_diff_le Suc_diff_Suc)
  finally show ?thesis .
qed (simp add: push_window_def last_n_def)

fun fe_run :: "(decimal \<Rightarrow> f64 option) \<Rightarrow> libm \<Rightarrow> market_event list \<Rightarrow> factor_engine \<Rightarrow> factor_engine" where
  "fe_run to_f64 lm [] fe = fe"
| "fe_run to_f64 lm (e # es) fe = fe_run to_f64 lm es (snd (fe_on_event to_f64 lm e fe))"

lemma not_f64_le_zero: "\<not> f64_le (Finite p) (Finite 0) \<longleftrightarrow> 0 < p"
  by auto

lemma fe_on_event_windows:
  "fe_config (snd (fe_on_event to_f64 lm e fe)) = fe_config fe
   \<and> fe_trades (snd (fe_on_event to_f64 lm e fe)) =
      (case sample_of to_f64 e of Some x \<Rightarrow> push_window (fc_trade_window (fe_config fe)) x (fe_trades fe) | None \<Rightarrow> fe_trades fe)
   \<and> fe_closes (snd (fe_on_event to_f64 lm e fe)) =
      (case close_of to_f64 e of Some x \<Rightarrow> push_window (fc_candle_window (fe_config fe)) x (fe_closes fe) | None \<Rightarrow> fe_closes fe)"
proof (cases e)
  case (MTrade t)
  then show ?thesis
    by (auto simp: fe_on_event_def sample_of_def close_of_def Let_def bind_eq_Some_conv split: option.splits f64.splits)
next
  case (MBestBidAsk q)
  then show ?thesis
    by (auto simp: fe_on_event_def sample_of_def close_of_def Let_def bind_eq_Some_conv split: option.splits)
next
  case (ML2Book b)
  then show ?thesis by (simp add: fe_on_event_def sample_of_def close_of_def Let_def)
next
  case (MCandle c)
  then show ?thesis
    by (auto simp: fe_on_event_def sample_of_def close_of_def Let_def bind_eq_Some_conv split: option.splits f64.splits)
qed

lemma fe_run_windows:
  assumes "fe_trades fe = last_n (fc_trade_window (fe_config fe)) trades"
    "fe_closes fe = last_n (fc_candle_window (fe_config fe)) closes"
  shows "fe_config (fe_run to_f64 lm es fe) = fe_config fe
    \<and> fe_trades (fe_run to_f64 lm es fe) = last_n (fc_trade_window (fe_config fe)) (trades @ List.map_filter (sample_of to_f64) es)
    \<and> fe_closes (fe_run to_f64 lm es fe) = last_n (fc_candle_window (fe_config fe)) (closes @ List.map_filter (close_of to_f64) es)"
  using assms
proof (induction es arbitrary: fe trades closes)
  case (Cons e es)
  let ?fe = "snd (fe_on_event to_f64 lm e fe)"
  let ?t = "case sample_of to_f64 e of Some x \<Rightarrow> trades @ [x] | None \<Rightarrow> trades"
  let ?c = "case close_of to_f64 e of Some x \<Rightarrow> closes @ [x] | None \<Rightarrow> closes"
  note w = fe_on_event_windows [of to_f64 lm e fe]
  have "fe_trades ?fe = last_n (fc_trade_window (fe_config ?fe)) ?t"
    using w Cons.prems(1) by (simp add: push_window_last_n split: option.split)
  moreover have "fe_closes ?fe = last_n (fc_candle_window (fe_config ?fe)) ?c"
    using w Cons.prems(2) by (simp add: push_window_last_n split: option.split)
  ultimately have "fe_config (fe_run to_f64 lm es ?fe) = fe_config ?fe
    \<and> fe_trades (fe_run to_f64 lm es ?fe) = last_n (fc_trade_window (fe_config ?fe)) (?t @ List.map_filter (sample_of to_f64) es)
    \<and> fe_closes (fe_run to_f64 lm es ?fe) = last_n (fc_candle_window (fe_config ?fe)) (?c @ List.map_filter (close_of to_f64) es)"
    by (rule Cons.IH)
  with w show ?case by (simp add: List.map_filter_def split: option.splits)
qed (simp add: List.map_filter_def)

section \<open>Bounds of the published values\<close>

definition nan_or_in :: "rat \<Rightarrow> rat \<Rightarrow> f64 \<Rightarrow> bool" where
  "nan_or_in lo hi v \<longleftrightarrow> v = NaN \<or> in_closed (Finite lo) (Finite hi) v"

lemma clip_bounds: "nan_or_in (- 1) 1 (clip v)"
  by (cases "v = NaN") (simp_all add: nan_or_in_def clip_def f64_clamp_NaN f64_clamp_between)

lemma unit_clamp_bounds: "nan_or_in 0 1 (unit_clamp v)"
  by (cases "v = NaN") (simp_all add: nan_or_in_def unit_clamp_def f64_clamp_NaN f64_clamp_between)

lemma fe_snapshot_bounds:
  "nan_or_in (- 1) 1 (fsn_score (fe_snapshot lm fe)) \<and> nan_or_in 0 1 (fsn_confidence (fe_snapshot lm fe))
   \<and> (\<forall>v. fsn_trade_imbalance (fe_snapshot lm fe) = Some v \<longrightarrow> nan_or_in (- 1) 1 v)
   \<and> (\<forall>v. fsn_book_imbalance (fe_snapshot lm fe) = Some v \<longrightarrow> nan_or_in (- 1) 1 v)"
proof -
  have "nan_or_in (- 1) 1 (Finite 0)" by (simp add: nan_or_in_def in_closed_def)
  then show ?thesis
    by (auto simp: fe_snapshot_def Let_def clip_bounds unit_clamp_bounds fe_trade_imbalance_def fe_book_imbalance_def
        bind_eq_Some_conv split: if_splits)
qed

text \<open>
  C35. The factor engine computes over exactly the recent past. After any events, the trade and candle windows
  hold the last samples the configuration allows, in order, of the trades and candles whose price and
  quantity are positive finite numbers, and nothing else; and whatever the engine publishes then, the score
  and both imbalances are in [-1, 1] and the confidence in [0, 1], unless they are not numbers.
\<close>

theorem factor_windows_exact:
  assumes "new_factor_engine c = Ok fe"
  shows "fe_trades (fe_run to_f64 lm es fe) = last_n (fc_trade_window c) (List.map_filter (sample_of to_f64) es)
    \<and> fe_closes (fe_run to_f64 lm es fe) = last_n (fc_candle_window c) (List.map_filter (close_of to_f64) es)
    \<and> (let sn = fe_snapshot lm (fe_run to_f64 lm es fe) in
        nan_or_in (- 1) 1 (fsn_score sn) \<and> nan_or_in 0 1 (fsn_confidence sn)
        \<and> (\<forall>v. fsn_trade_imbalance sn = Some v \<or> fsn_book_imbalance sn = Some v \<longrightarrow> nan_or_in (- 1) 1 v))"
proof -
  from assms have fe: "fe_config fe = c" "fe_trades fe = []" "fe_closes fe = []"
    by (auto simp: new_factor_engine_def outcome_simps)
  have start: "fe_trades fe = last_n (fc_trade_window (fe_config fe)) []" "fe_closes fe = last_n (fc_candle_window (fe_config fe)) []"
    by (simp_all add: fe last_n_def)
  from fe_run_windows [OF start, of to_f64 lm es] fe_snapshot_bounds [of lm "fe_run to_f64 lm es fe"] show ?thesis
    by (auto simp: fe Let_def)
qed

section \<open>A scale that is not a number\<close>

lemma f64_mul_NaN [simp]: "f64_mul x NaN = NaN" "f64_mul NaN x = NaN"
  by (cases x; simp)+

lemma f64_div_NaN [simp]: "f64_div x NaN = NaN" "f64_div NaN x = NaN"
  by (cases x; simp)+

lemma f64_sub_NaN [simp]: "f64_sub x NaN = NaN"
  by (cases x) (simp_all add: f64_sub_def)

lemma unit_clamp_NaN [simp]: "unit_clamp NaN = NaN"
  by (simp add: unit_clamp_def f64_clamp_NaN)

text \<open>
  A spread scale that is not a number gets through. The validation of the factor configuration rejects a
  scale that is at most zero, a comparison that is false for NaN; every snapshot with a known spread then has
  a confidence that is not a number, and no threshold on the confidence, being a less-than comparison, ever
  holds a signal back.
\<close>

theorem nan_scale_defeats_confidence:
  assumes "factor_validate c = Ok ()" "fe_config fe = c\<lparr>fc_max_spread_bps := NaN\<rparr>" "fe_spread_bps fe \<noteq> None"
  shows "factor_validate (c\<lparr>fc_max_spread_bps := NaN\<rparr>) = Ok ()
    \<and> fsn_confidence (fe_snapshot lm fe) = NaN
    \<and> (\<forall>threshold. \<not> f64_lt (fsn_confidence (fe_snapshot lm fe)) threshold)"
proof -
  obtain sp where sp: "fe_spread_bps fe = Some sp" using assms(3) by blast
  have conf: "fsn_confidence (fe_snapshot lm fe) = NaN"
    using assms(2) sp by (simp add: fe_snapshot_def Let_def)
  have "factor_validate (c\<lparr>fc_max_spread_bps := NaN\<rparr>) = Ok ()"
    using assms(1) by (auto simp: factor_validate_def split: if_splits)
  with conf show ?thesis by simp
qed

section \<open>The entry filter decides\<close>

definition meets_min :: "f64 option \<Rightarrow> f64 option \<Rightarrow> bool" where
  "meets_min actual threshold \<longleftrightarrow> (\<forall>t. threshold = Some t \<longrightarrow> (\<exists>a. actual = Some a \<and> f64_le t a))"

definition meets_max :: "f64 option \<Rightarrow> f64 option \<Rightarrow> bool" where
  "meets_max actual threshold \<longleftrightarrow> (\<forall>t. threshold = Some t \<longrightarrow> (\<exists>a. actual = Some a \<and> f64_le a t))"

lemma require_min_empty: "require_min show6 name actual threshold = [] \<longleftrightarrow> meets_min actual threshold"
  by (auto simp: require_min_def meets_min_def split: option.splits)

lemma require_max_empty: "require_max show6 name actual threshold = [] \<longleftrightarrow> meets_max actual threshold"
  by (auto simp: require_max_def meets_max_def split: option.splits)

lemma selector_allowed:
  "efs_allowed (selector_evaluate show6 sn vs) \<longleftrightarrow>
     (let c = vs_config vs in ef_enabled c \<longrightarrow>
        meets_min (fsn_momentum_bps sn) (ef_min_momentum_bps c) \<and> meets_min (selector_volume_ratio vs) (ef_min_volume_ratio c)
        \<and> meets_min (fsn_trade_imbalance sn) (ef_min_trade_imbalance c) \<and> meets_min (fsn_book_imbalance sn) (ef_min_book_imbalance c)
        \<and> meets_max (fsn_spread_bps sn) (ef_max_spread_bps c)
        \<and> meets_max (fsn_realized_volatility_bps sn) (ef_max_realized_volatility_bps c))"
  by (simp add: selector_evaluate_def Let_def require_min_empty require_max_empty)

section \<open>Concrete engines\<close>

definition demo_to_f64 :: "decimal \<Rightarrow> f64 option" where
  "demo_to_f64 d = Some (round64 d)"

definition demo_math :: libm where
  "demo_math = \<lparr>lm_ln = (\<lambda>x. x), lm_sqrt = (\<lambda>x. x), lm_powi = (\<lambda>x n. x)\<rparr>"

text \<open>One directional factor, the others weighted zero.\<close>

definition demo_factors :: factor_config where
  "demo_factors = default_factor_config\<lparr>fc_vwap_weight := Finite 1, fc_trade_imbalance_weight := Finite 0,
     fc_book_imbalance_weight := Finite 0, fc_momentum_weight := Finite 0\<rparr>"

definition demo_engine :: factor_engine where
  "demo_engine = \<lparr>fe_config = demo_factors, fe_trades = [], fe_closes = [], fe_last_price = None, fe_bbo = None,
     fe_book_totals = None, fe_last_recv_ns = 0\<rparr>"

lemma demo_factors_valid: "factor_validate demo_factors = Ok ()"
  by (simp add: factor_validate_def demo_factors_def default_factor_config_def round64_small)

theorem factor_windows_exact_witness:
  "fe_trades (fe_run demo_to_f64 demo_math [] demo_engine) = []
    \<and> nan_or_in 0 1 (fsn_confidence (fe_snapshot demo_math (fe_run demo_to_f64 demo_math [] demo_engine)))"
proof -
  have n: "new_factor_engine demo_factors = Ok demo_engine"
    by (simp add: new_factor_engine_def demo_factors_valid demo_engine_def)
  from factor_windows_exact [OF n, of demo_to_f64 demo_math "[]"] show ?thesis
    by (simp add: Let_def demo_engine_def)
qed

definition demo_nan_engine :: factor_engine where
  "demo_nan_engine = demo_engine\<lparr>fe_config := demo_factors\<lparr>fc_max_spread_bps := NaN\<rparr>,
     fe_bbo := Some (Finite 1, Finite 1, Finite 1, Finite 1)\<rparr>"

theorem nan_scale_defeats_confidence_witness:
  "fsn_confidence (fe_snapshot demo_math demo_nan_engine) = NaN
    \<and> \<not> f64_lt (fsn_confidence (fe_snapshot demo_math demo_nan_engine)) (Finite 1)"
proof -
  have "fe_spread_bps demo_nan_engine \<noteq> None"
    by (simp add: fe_spread_bps_def demo_nan_engine_def round64_small positive_def Let_def)
  moreover have "fe_config demo_nan_engine = demo_factors\<lparr>fc_max_spread_bps := NaN\<rparr>" by (simp add: demo_nan_engine_def)
  ultimately show ?thesis using nan_scale_defeats_confidence [OF demo_factors_valid] by blast
qed

end
