(* ===== verification/Automation.thy ===== *)
theory Automation
  imports Strategy Factors TextUtil
begin

text \<open>
  The automated strategy, \<open>rust/crates/pg-strategy/src/automation.rs\<close>: market events feed the factor engine
  and the entry filter, whose snapshot becomes a signal for the strategy machine. \<open>meta\<close> prints the signal's
  JSON metadata; the intent id that a submission draws is an argument.
\<close>

section \<open>Configuration\<close>

record automation_config =
  ac_factors :: factor_config
  ac_candle_interval_ns :: u64
  ac_signal_horizon_ms :: u64
  ac_signal_ttl_ms :: u64
  ac_min_confidence :: f64
  ac_min_emit_interval_ns :: u64
  ac_alpha_id :: string
  ac_entry_filter :: entry_filter_config

definition default_candle_interval_ns :: u64 where
  "default_candle_interval_ns = 60000000000"

definition default_automation_config :: automation_config where
  "default_automation_config =
     \<lparr>ac_factors = default_factor_config, ac_candle_interval_ns = default_candle_interval_ns,
      ac_signal_horizon_ms = 5000, ac_signal_ttl_ms = 2000, ac_min_confidence = round64 (45/100),
      ac_min_emit_interval_ns = 250000000, ac_alpha_id = ''alpha.live.microstructure.v1'',
      ac_entry_filter = default_entry_filter\<rparr>"

definition automation_validate :: "automation_config \<Rightarrow> (string, unit) outcome" where
  "automation_validate c =
     and_then (factor_validate (ac_factors c)) (\<lambda>_.
     and_then (entry_filter_validate (ac_entry_filter c)) (\<lambda>_.
       if ac_candle_interval_ns c = 0 then Err ''candle_interval_ns must be positive''
       else if ac_signal_horizon_ms c = 0 \<or> ac_signal_ttl_ms c = 0 then Err ''signal horizon and ttl must be positive''
       else if \<not> in_closed (Finite 0) (Finite 1) (ac_min_confidence c) then Err ''min_confidence must be in [0, 1]''
       else if is_blank (ac_alpha_id c) then Err ''alpha_id must not be empty''
       else Ok ()))"

definition config_subscriptions :: "strategy_config \<Rightarrow> automation_config \<Rightarrow> feed_spec list" where
  "config_subscriptions sc c =
     map (\<lambda>kind. \<lparr>fs_venue = sc_venue sc, fs_asset = sc_asset sc, fs_kind = kind\<rparr>)
       [FkTrades, FkBestBidAsk, FkL2Book, FkCandle (ac_candle_interval_ns c)]"

section \<open>The automated strategy\<close>

record automation_output =
  ao_factors :: "factor_snapshot option"
  ao_entry_filter :: "entry_filter_snapshot option"
  ao_signal :: "signal option"
  ao_decision :: strategy_decision

definition idle :: "factor_snapshot option \<Rightarrow> entry_filter_snapshot option \<Rightarrow> automation_output" where
  "idle fs ef = \<lparr>ao_factors = fs, ao_entry_filter = ef, ao_signal = None, ao_decision = SdNoop\<rparr>"

record automated_strategy =
  as_machine :: strategy_machine
  as_config :: automation_config
  as_factors :: factor_engine
  as_selector :: volume_selector
  as_last_emit_ns :: "u64 option"
  as_emission_sequence :: u64

definition new_automated :: "strategy_config \<Rightarrow> automation_config \<Rightarrow> (string, automated_strategy) outcome" where
  "new_automated sc c =
     and_then (automation_validate c) (\<lambda>_.
     and_then (new_factor_engine (ac_factors c)) (\<lambda>factors.
     and_then (new_selector (ac_entry_filter c)) (\<lambda>selector.
     and_then (new_machine sc) (\<lambda>machine.
       Ok \<lparr>as_machine = machine, as_config = c, as_factors = factors, as_selector = selector,
           as_last_emit_ns = None, as_emission_sequence = 0\<rparr>))))"

definition automated_subscriptions :: "automated_strategy \<Rightarrow> feed_spec list" where
  "automated_subscriptions a = config_subscriptions (sm_config (as_machine a)) (as_config a)"

fun event_scope :: "market_event \<Rightarrow> venue \<times> string \<times> u64" where
  "event_scope (MTrade e) = (tt_venue e, tt_asset e, tt_ts_recv_ns e)"
| "event_scope (MBestBidAsk e) = (bb_venue e, bb_asset e, bb_ts_recv_ns e)"
| "event_scope (ML2Book e) = (lb_venue e, lb_asset e, lb_ts_recv_ns e)"
| "event_scope (MCandle e) = (cd_venue e, cd_asset e, cd_ts_recv_ns e)"

definition saturating_mul :: "u64 \<Rightarrow> u64 \<Rightarrow> u64" where
  "saturating_mul a b = (if unat a * unat b < 2 ^ 64 then a * b else - 1)"

definition live_signal ::
  "(factor_snapshot \<Rightarrow> entry_filter_snapshot \<Rightarrow> string) \<Rightarrow> automated_strategy \<Rightarrow> factor_snapshot \<Rightarrow>
     entry_filter_snapshot \<Rightarrow> u64 \<Rightarrow> u64 \<Rightarrow> signal" where
  "live_signal meta a sn ef now_ns sequence =
     (let c = as_config a; sc = sm_config (as_machine a) in
      \<lparr>sg_schema_version = ''signal.v1'',
       sg_signal_id = ''live:'' @ sc_strategy_id sc @ '':'' @ sc_asset sc @ '':'' @ show_nat (unat now_ns) @ '':'' @ show_nat (unat sequence),
       sg_alpha_id = ac_alpha_id c, sg_asset = sc_asset sc, sg_venue = sc_venue sc, sg_score = fsn_score sn,
       sg_confidence = fsn_confidence sn, sg_horizon_ms = ac_signal_horizon_ms c, sg_created_at_ns = now_ns,
       sg_expires_at_ns = saturating_add now_ns (saturating_mul (ac_signal_ttl_ms c) 1000000),
       sg_model_version = None, sg_feature_set = Some ''live-microstructure-v1'', sg_metadata = meta sn ef\<rparr>)"

definition on_market_event ::
  "(decimal \<Rightarrow> f64 option) \<Rightarrow> libm \<Rightarrow> (f64 \<Rightarrow> string) \<Rightarrow> (factor_snapshot \<Rightarrow> entry_filter_snapshot \<Rightarrow> string) \<Rightarrow> uuid \<Rightarrow>
     market_event \<Rightarrow> automated_strategy \<Rightarrow> automation_output \<times> automated_strategy" where
  "on_market_event to_f64 lm show6 meta uid e a =
     (case event_scope e of (venue, asset, now_ns) \<Rightarrow>
      if venue \<noteq> sc_venue (sm_config (as_machine a)) \<or> asset \<noteq> sc_asset (sm_config (as_machine a)) then (idle None None, a)
      else
        let a1 = a\<lparr>as_selector := selector_observe to_f64 e (as_selector a)\<rparr> in
        case fe_on_event to_f64 lm e (as_factors a1) of (snapshot, factors) \<Rightarrow>
        let a2 = a1\<lparr>as_factors := factors\<rparr> in
        case snapshot of
          None \<Rightarrow> (idle None None, a2)
        | Some sn \<Rightarrow>
            if f64_lt (fsn_confidence sn) (ac_min_confidence (as_config a2)) then (idle (Some sn) None, a2)
            else
              let ef = selector_evaluate show6 sn (as_selector a2) in
              if ss_phase (sm_state (as_machine a2)) = SpFlat \<and> \<not> efs_allowed ef then (idle (Some sn) (Some ef), a2)
              else if (case as_last_emit_ns a2 of
                         Some last_emit_ns \<Rightarrow> saturating_sub now_ns last_emit_ns < ac_min_emit_interval_ns (as_config a2)
                       | None \<Rightarrow> False)
              then (idle (Some sn) (Some ef), a2)
              else
                let sequence = saturating_add (as_emission_sequence a2) 1;
                    sg = live_signal meta a2 sn ef now_ns sequence
                in case on_signal uid sg now_ns (as_machine a2) of (decision, machine) \<Rightarrow>
                  (\<lparr>ao_factors = Some sn, ao_entry_filter = Some ef, ao_signal = Some sg, ao_decision = decision\<rparr>,
                   a2\<lparr>as_emission_sequence := sequence, as_last_emit_ns := Some now_ns, as_machine := machine\<rparr>))"

section \<open>What is emitted\<close>

lemma on_signal_config: "sm_config (snd (on_signal uid sg now_ns m)) = sm_config m"
  by (simp add: on_signal_def submit_entry_def submit_exit_def Let_def)

lemma on_market_event_silent:
  assumes "on_market_event to_f64 lm show6 meta uid e a = (out, a')" "ao_signal out = None"
  shows "as_machine a' = as_machine a \<and> as_config a' = as_config a \<and> as_last_emit_ns a' = as_last_emit_ns a
    \<and> as_emission_sequence a' = as_emission_sequence a \<and> ao_decision out = SdNoop"
  using assms
  by (auto simp: on_market_event_def Let_def idle_def split: prod.splits option.splits if_splits)

lemma on_market_event_emits:
  assumes "on_market_event to_f64 lm show6 meta uid e a = (out, a')" "ao_signal out = Some sg"
  obtains sn ef now_ns where
    "event_scope e = (sc_venue (sm_config (as_machine a)), sc_asset (sm_config (as_machine a)), now_ns)"
    "ao_factors out = Some sn" "ao_entry_filter out = Some ef"
    "\<not> f64_lt (fsn_confidence sn) (ac_min_confidence (as_config a))"
    "ss_phase (sm_state (as_machine a)) = SpFlat \<longrightarrow> efs_allowed ef"
    "\<forall>l. as_last_emit_ns a = Some l \<longrightarrow> ac_min_emit_interval_ns (as_config a) \<le> saturating_sub now_ns l"
    "sg = live_signal meta a sn ef now_ns (saturating_add (as_emission_sequence a) 1)"
    "(ao_decision out, as_machine a') = on_signal uid sg now_ns (as_machine a)"
    "as_config a' = as_config a" "as_last_emit_ns a' = Some now_ns"
    "as_emission_sequence a' = saturating_add (as_emission_sequence a) 1"
proof -
  let ?sc = "sm_config (as_machine a)"
  obtain v asset now_ns where scope: "event_scope e = (v, asset, now_ns)" by (cases "event_scope e")
  define sel where "sel = selector_observe to_f64 e (as_selector a)"
  obtain snapshot factors where fe: "fe_on_event to_f64 lm e (as_factors a) = (snapshot, factors)" by (cases "fe_on_event to_f64 lm e (as_factors a)")
  let ?a2 = "a\<lparr>as_selector := sel, as_factors := factors\<rparr>"
  have run: "on_market_event to_f64 lm show6 meta uid e a =
     (if v \<noteq> sc_venue ?sc \<or> asset \<noteq> sc_asset ?sc then (idle None None, a)
      else case snapshot of
          None \<Rightarrow> (idle None None, ?a2)
        | Some sn \<Rightarrow>
            if f64_lt (fsn_confidence sn) (ac_min_confidence (as_config a)) then (idle (Some sn) None, ?a2)
            else
              let ef = selector_evaluate show6 sn sel in
              if ss_phase (sm_state (as_machine a)) = SpFlat \<and> \<not> efs_allowed ef then (idle (Some sn) (Some ef), ?a2)
              else if (case as_last_emit_ns a of
                         Some l \<Rightarrow> saturating_sub now_ns l < ac_min_emit_interval_ns (as_config a)
                       | None \<Rightarrow> False)
              then (idle (Some sn) (Some ef), ?a2)
              else
                let sequence = saturating_add (as_emission_sequence a) 1;
                    sg = live_signal meta a sn ef now_ns sequence
                in case on_signal uid sg now_ns (as_machine a) of (decision, machine) \<Rightarrow>
                  (\<lparr>ao_factors = Some sn, ao_entry_filter = Some ef, ao_signal = Some sg, ao_decision = decision\<rparr>,
                   ?a2\<lparr>as_emission_sequence := sequence, as_last_emit_ns := Some now_ns, as_machine := machine\<rparr>))"
    by (cases snapshot) (simp_all add: on_market_event_def scope fe sel_def live_signal_def Let_def cong: if_cong option.case_cong)
  from assms run have ok: "v = sc_venue ?sc" "asset = sc_asset ?sc" by (auto simp: idle_def split: if_splits)
  from assms run ok obtain sn where sn: "snapshot = Some sn" by (cases snapshot) (auto simp: idle_def)
  define ef where "ef = selector_evaluate show6 sn sel"
  note run = run [unfolded sn option.case Let_def ef_def [symmetric]]
  from assms run ok have gates: "\<not> f64_lt (fsn_confidence sn) (ac_min_confidence (as_config a))"
      "ss_phase (sm_state (as_machine a)) = SpFlat \<longrightarrow> efs_allowed ef"
      "\<not> (case as_last_emit_ns a of Some l \<Rightarrow> saturating_sub now_ns l < ac_min_emit_interval_ns (as_config a) | None \<Rightarrow> False)"
    by (auto simp: idle_def split: if_splits)
  obtain decision machine where sig: "on_signal uid (live_signal meta a sn ef now_ns (saturating_add (as_emission_sequence a) 1)) now_ns (as_machine a) = (decision, machine)"
    by (cases "on_signal uid (live_signal meta a sn ef now_ns (saturating_add (as_emission_sequence a) 1)) now_ns (as_machine a)")
  from run ok gates sig have "on_market_event to_f64 lm show6 meta uid e a =
      (\<lparr>ao_factors = Some sn, ao_entry_filter = Some ef,
        ao_signal = Some (live_signal meta a sn ef now_ns (saturating_add (as_emission_sequence a) 1)), ao_decision = decision\<rparr>,
       ?a2\<lparr>as_emission_sequence := saturating_add (as_emission_sequence a) 1, as_last_emit_ns := Some now_ns, as_machine := machine\<rparr>)"
    by auto
  with assms sig gates scope ok show thesis by (intro that [of now_ns sn ef]) (auto simp: not_less)
qed

section \<open>Signals over time\<close>

text \<open>The signals of a run of market events, each with the intent id drawn for it.\<close>

fun automation_run ::
  "(decimal \<Rightarrow> f64 option) \<Rightarrow> libm \<Rightarrow> (f64 \<Rightarrow> string) \<Rightarrow> (factor_snapshot \<Rightarrow> entry_filter_snapshot \<Rightarrow> string) \<Rightarrow>
     (uuid \<times> market_event) list \<Rightarrow> automated_strategy \<Rightarrow> automation_output list" where
  "automation_run to_f64 lm show6 meta [] a = []"
| "automation_run to_f64 lm show6 meta ((uid, e) # es) a =
     (case on_market_event to_f64 lm show6 meta uid e a of
        (out, a') \<Rightarrow> out # automation_run to_f64 lm show6 meta es a')"

definition emitted :: "automation_output list \<Rightarrow> signal list" where
  "emitted outs = List.map_filter ao_signal outs"

lemma emitted_Cons: "emitted (out # outs) = (case ao_signal out of Some sg \<Rightarrow> sg # emitted outs | None \<Rightarrow> emitted outs)"
  by (simp add: emitted_def List.map_filter_def split: option.split)

text \<open>The number a live signal id ends in.\<close>

definition id_sequence :: "u64 \<Rightarrow> signal \<Rightarrow> bool" where
  "id_sequence n sg \<longleftrightarrow> (\<exists>p. sg_signal_id sg = p @ '':'' @ show_nat (unat n))"

lemma id_sequence_inj:
  assumes "id_sequence m sg" "id_sequence n sg'" "sg_signal_id sg = sg_signal_id sg'"
  shows "m = n"
proof -
  from assms obtain p q where eq: "p @ CHR '':'' # show_nat (unat m) = q @ CHR '':'' # show_nat (unat n)"
    unfolding id_sequence_def by fastforce
  have digits: "\<forall>c\<in>set (show_nat k). is_ascii_digit c" for k using show_nat_digits by blast
  have "\<not> is_ascii_digit (CHR '':'')" by (simp add: is_ascii_digit_def)
  from split_at_last [OF eq digits digits this] have "show_nat (unat m) = show_nat (unat n)" ..
  then have "unat m = unat n" by (rule show_nat_inj)
  then show ?thesis by (rule unsigned_word_eqI)
qed

lemma live_signal_id: "id_sequence k (live_signal meta a sn ef now_ns k)"
  unfolding id_sequence_def
  by (rule exI [of _ "''live:'' @ sc_strategy_id (sm_config (as_machine a)) @ '':'' @ sc_asset (sm_config (as_machine a)) @ '':''
        @ show_nat (unat now_ns)"]) (simp add: live_signal_def Let_def)

lemma saturating_spaced:
  assumes "interval \<le> saturating_sub now_ns l" "0 < interval"
  shows "unat l + unat interval \<le> unat now_ns"
proof -
  have le: "l \<le> now_ns" using assms by (auto simp: saturating_sub_def split: if_splits)
  with assms have "unat interval \<le> unat (now_ns - l)" by (simp add: saturating_sub_def word_le_nat_alt split: if_splits)
  also have "\<dots> = unat now_ns - unat l" using le by (simp add: unat_sub)
  finally show ?thesis using le by (simp add: word_le_nat_alt)
qed

lemma saturating_succ: "unat n + 1 < 2 ^ 64 \<Longrightarrow> unat (saturating_add n 1) = unat n + 1"
  by (simp add: saturating_add_def unat_word_ariths)

definition spaced :: "u64 \<Rightarrow> signal \<Rightarrow> signal \<Rightarrow> bool" where
  "spaced interval sg sg' \<longleftrightarrow> unat (sg_created_at_ns sg) + unat interval \<le> unat (sg_created_at_ns sg')"

lemma automation_run_emitted:
  assumes "0 < ac_min_emit_interval_ns c"
  shows "as_config a = c \<Longrightarrow> unat (as_emission_sequence a) + length es < 2 ^ 64 \<Longrightarrow>
    (let sgs = emitted (automation_run to_f64 lm show6 meta es a) in
       sorted_wrt (spaced (ac_min_emit_interval_ns c)) sgs \<and> distinct (map sg_signal_id sgs)
       \<and> (\<forall>l. as_last_emit_ns a = Some l \<longrightarrow> (\<forall>sg\<in>set sgs. unat l + unat (ac_min_emit_interval_ns c) \<le> unat (sg_created_at_ns sg)))
       \<and> (\<forall>sg\<in>set sgs. \<exists>k. unat (as_emission_sequence a) < unat k \<and> id_sequence k sg))"
proof (induction es arbitrary: a)
  case (Cons ue es)
  obtain uid e where ue: "ue = (uid, e)" by (cases ue)
  obtain out a' where out: "on_market_event to_f64 lm show6 meta uid e a = (out, a')" by (cases "on_market_event to_f64 lm show6 meta uid e a")
  define sgs where "sgs = emitted (automation_run to_f64 lm show6 meta es a')"
  show ?case
  proof (cases "ao_signal out")
    case None
    note same = on_market_event_silent [OF out None]
    from Cons.IH [of a'] Cons.prems same have "sorted_wrt (spaced (ac_min_emit_interval_ns c)) sgs \<and> distinct (map sg_signal_id sgs)
       \<and> (\<forall>l. as_last_emit_ns a = Some l \<longrightarrow> (\<forall>sg\<in>set sgs. unat l + unat (ac_min_emit_interval_ns c) \<le> unat (sg_created_at_ns sg)))
       \<and> (\<forall>sg\<in>set sgs. \<exists>k. unat (as_emission_sequence a) < unat k \<and> id_sequence k sg)"
      by (simp add: Let_def sgs_def)
    then show ?thesis by (simp add: ue out emitted_Cons None sgs_def)
  next
    case (Some sg)
    from on_market_event_emits [OF out Some] obtain sn ef now_ns where em:
        "\<forall>l. as_last_emit_ns a = Some l \<longrightarrow> ac_min_emit_interval_ns (as_config a) \<le> saturating_sub now_ns l"
        "sg = live_signal meta a sn ef now_ns (saturating_add (as_emission_sequence a) 1)"
        "as_config a' = as_config a" "as_last_emit_ns a' = Some now_ns"
        "as_emission_sequence a' = saturating_add (as_emission_sequence a) 1"
      by metis
    have seq: "unat (as_emission_sequence a') = unat (as_emission_sequence a) + 1"
      using Cons.prems(2) unfolding em(5) by (intro saturating_succ) simp
    have rest: "sorted_wrt (spaced (ac_min_emit_interval_ns c)) sgs" "distinct (map sg_signal_id sgs)"
        "\<forall>x\<in>set sgs. unat now_ns + unat (ac_min_emit_interval_ns c) \<le> unat (sg_created_at_ns x)"
        "\<forall>x\<in>set sgs. \<exists>k. unat (as_emission_sequence a') < unat k \<and> id_sequence k x"
      using Cons.IH [of a'] Cons.prems em(3,4) seq by (simp_all add: Let_def sgs_def)
    have created: "sg_created_at_ns sg = now_ns" by (simp add: em(2) live_signal_def Let_def)
    have own: "id_sequence (as_emission_sequence a') sg" unfolding em(2,5) by (rule live_signal_id)
    have fresh: "sg_signal_id sg \<notin> sg_signal_id ` set sgs"
    proof
      assume "sg_signal_id sg \<in> sg_signal_id ` set sgs"
      then obtain x where x: "x \<in> set sgs" "sg_signal_id sg = sg_signal_id x" by auto
      with rest(4) obtain k where k: "unat (as_emission_sequence a') < unat k" "id_sequence k x" by blast
      from id_sequence_inj [OF own k(2) x(2)] k(1) show False by simp
    qed
    have early: "unat l + unat (ac_min_emit_interval_ns c) \<le> unat now_ns" if "as_last_emit_ns a = Some l" for l
      using em(1) that Cons.prems(1) assms by (intro saturating_spaced) auto
    have "sorted_wrt (spaced (ac_min_emit_interval_ns c)) (sg # sgs)" using rest(1,3) by (simp add: spaced_def created)
    moreover have "distinct (map sg_signal_id (sg # sgs))" using rest(2) fresh by simp
    moreover have "\<forall>l. as_last_emit_ns a = Some l \<longrightarrow> (\<forall>x\<in>set (sg # sgs). unat l + unat (ac_min_emit_interval_ns c) \<le> unat (sg_created_at_ns x))"
      using early rest(3) created by fastforce
    moreover have "\<forall>x\<in>set (sg # sgs). \<exists>k. unat (as_emission_sequence a) < unat k \<and> id_sequence k x"
    proof
      fix x assume "x \<in> set (sg # sgs)"
      then consider "x = sg" | "x \<in> set sgs" by auto
      then show "\<exists>k. unat (as_emission_sequence a) < unat k \<and> id_sequence k x"
      proof cases
        case 1
        with own seq show ?thesis by (intro exI [of _ "as_emission_sequence a'"]) simp
      next
        case 2
        with rest(4) obtain k where "unat (as_emission_sequence a') < unat k" "id_sequence k x" by blast
        with seq show ?thesis by (intro exI [of _ k]) simp
      qed
    qed
    ultimately show ?thesis by (simp add: ue out emitted_Cons Some sgs_def Let_def)
  qed
qed (simp add: emitted_def List.map_filter_def)

lemma automation_run_config:
  "out \<in> set (automation_run to_f64 lm show6 meta es a) \<Longrightarrow>
     \<exists>uid e b b'. on_market_event to_f64 lm show6 meta uid e b = (out, b') \<and> as_config b = as_config a \<and> sm_config (as_machine b) = sm_config (as_machine a)"
proof (induction es arbitrary: a)
  case (Cons ue es)
  obtain uid e where ue: "ue = (uid, e)" by (cases ue)
  obtain o1 a' where out: "on_market_event to_f64 lm show6 meta uid e a = (o1, a')" by (cases "on_market_event to_f64 lm show6 meta uid e a")
  have same: "as_config a' = as_config a \<and> sm_config (as_machine a') = sm_config (as_machine a)"
  proof (cases "ao_signal o1")
    case None
    with on_market_event_silent [OF out] show ?thesis by simp
  next
    case (Some sg)
    from on_market_event_emits [OF out Some] obtain now_ns where
      "(ao_decision o1, as_machine a') = on_signal uid sg now_ns (as_machine a)" "as_config a' = as_config a" by metis
    with on_signal_config [of uid sg now_ns "as_machine a"] show ?thesis by (metis snd_conv)
  qed
  from Cons.prems ue out consider "out = o1" | "out \<in> set (automation_run to_f64 lm show6 meta es a')" by auto
  then show ?case
  proof cases
    case 1
    with out show ?thesis by blast
  next
    case 2
    from Cons.IH [OF this] same show ?thesis by simp
  qed
qed simp

text \<open>
  C31. Signals are emitted under the declared gates. In a run of fewer than \<open>2^64\<close> market events from a fresh
  strategy with a positive emission interval, any two emitted signals are at least the interval apart in
  event time and in order, and their ids are all different, so none is taken for a repetition. An event
  without a signal leads to no order, and an order that opens exposure comes from a snapshot whose confidence
  is not below the threshold and that the entry filter allows, with the snapshot's score past the entry score
  on the order's side.
\<close>

theorem automation_gated:
  assumes "new_automated sc c = Ok a" "0 < ac_min_emit_interval_ns c" "length es < 2 ^ 64"
  shows "sorted_wrt (spaced (ac_min_emit_interval_ns c)) (emitted (automation_run to_f64 lm show6 meta es a))
    \<and> distinct (map sg_signal_id (emitted (automation_run to_f64 lm show6 meta es a)))
    \<and> (\<forall>out\<in>set (automation_run to_f64 lm show6 meta es a).
         (ao_signal out = None \<longrightarrow> ao_decision out = SdNoop)
         \<and> (\<forall>i. ao_decision out = SdSubmit i \<and> oi_effect i = Increase \<longrightarrow>
              (\<exists>sn ef. ao_factors out = Some sn \<and> ao_entry_filter out = Some ef \<and> efs_allowed ef
                 \<and> \<not> f64_lt (fsn_confidence sn) (ac_min_confidence c)
                 \<and> (oi_side i = Buy \<and> f64_le (sc_entry_score sc) (fsn_score sn)
                    \<or> oi_side i = Sell \<and> sc_allow_short sc \<and> f64_le (fsn_score sn) (f64_neg (sc_entry_score sc))))))"
proof -
  from assms(1) have a: "as_config a = c" "as_emission_sequence a = 0" "sm_config (as_machine a) = sc"
    by (auto simp: new_automated_def new_machine_def outcome_simps)
  note run = automation_run_emitted [OF assms(2) a(1), of es to_f64 lm show6 meta, unfolded Let_def]
  have "(ao_signal out = None \<longrightarrow> ao_decision out = SdNoop)
         \<and> (\<forall>i. ao_decision out = SdSubmit i \<and> oi_effect i = Increase \<longrightarrow>
              (\<exists>sn ef. ao_factors out = Some sn \<and> ao_entry_filter out = Some ef \<and> efs_allowed ef
                 \<and> \<not> f64_lt (fsn_confidence sn) (ac_min_confidence c)
                 \<and> (oi_side i = Buy \<and> f64_le (sc_entry_score sc) (fsn_score sn)
                    \<or> oi_side i = Sell \<and> sc_allow_short sc \<and> f64_le (fsn_score sn) (f64_neg (sc_entry_score sc)))))"
    if "out \<in> set (automation_run to_f64 lm show6 meta es a)" for out
  proof -
    from automation_run_config [OF that] a obtain uid e b b' where
      ev: "on_market_event to_f64 lm show6 meta uid e b = (out, b')" "as_config b = c" "sm_config (as_machine b) = sc" by auto
    show ?thesis
    proof (cases "ao_signal out")
      case None
      with on_market_event_silent [OF ev(1)] show ?thesis by simp
    next
      case (Some sg)
      from on_market_event_emits [OF ev(1) Some] obtain sn ef now_ns where em: "ao_factors out = Some sn" "ao_entry_filter out = Some ef"
          "\<not> f64_lt (fsn_confidence sn) (ac_min_confidence (as_config b))"
          "ss_phase (sm_state (as_machine b)) = SpFlat \<longrightarrow> efs_allowed ef"
          "sg = live_signal meta b sn ef now_ns (saturating_add (as_emission_sequence b) 1)"
          "(ao_decision out, as_machine b') = on_signal uid sg now_ns (as_machine b)" by metis
      have score: "sg_score sg = fsn_score sn" by (simp add: em(5) live_signal_def Let_def)
      show ?thesis
      proof (intro conjI allI impI)
        show "ao_decision out = SdNoop" if "ao_signal out = None" using that Some by simp
        fix i assume i: "ao_decision out = SdSubmit i \<and> oi_effect i = Increase"
        with em(6) have "on_signal uid sg now_ns (as_machine b) = (SdSubmit i, as_machine b')" by simp
        from on_signal_submit [OF this] i score em(4) ev(3) have "efs_allowed ef"
            "oi_side i = Buy \<and> f64_le (sc_entry_score sc) (fsn_score sn)
             \<or> oi_side i = Sell \<and> sc_allow_short sc \<and> f64_le (fsn_score sn) (f64_neg (sc_entry_score sc))" by auto
        with em(1-3) ev(2) show "\<exists>sn ef. ao_factors out = Some sn \<and> ao_entry_filter out = Some ef \<and> efs_allowed ef
                 \<and> \<not> f64_lt (fsn_confidence sn) (ac_min_confidence c)
                 \<and> (oi_side i = Buy \<and> f64_le (sc_entry_score sc) (fsn_score sn)
                    \<or> oi_side i = Sell \<and> sc_allow_short sc \<and> f64_le (fsn_score sn) (f64_neg (sc_entry_score sc)))" by blast
      qed
    qed
  qed
  with run assms(3) a(2) show ?thesis by simp
qed

section \<open>A concrete strategy\<close>

definition demo_automation :: automation_config where
  "demo_automation = default_automation_config\<lparr>ac_factors := demo_factors, ac_min_confidence := Finite 0\<rparr>"

definition demo_strategy :: automated_strategy where
  "demo_strategy = \<lparr>as_machine = demo_machine, as_config = demo_automation, as_factors = demo_engine,
     as_selector = \<lparr>vs_config = default_entry_filter, vs_volumes = []\<rparr>, as_last_emit_ns = None, as_emission_sequence = 0\<rparr>"

definition demo_book :: market_event where
  "demo_book = ML2Book \<lparr>lb_venue = Hyperliquid, lb_asset = ''HYPE'', lb_ts_event_ns = 5, lb_ts_recv_ns = 5, lb_bids = [], lb_asks = [],
     lb_sequence = None, lb_is_snapshot = True\<rparr>"

theorem automation_gated_witness:
  "sorted_wrt (spaced 250000000) (emitted (automation_run demo_to_f64 demo_math (\<lambda>_. []) (\<lambda>_ _. []) [(7, demo_book), (8, demo_book)] demo_strategy))
   \<and> distinct (map sg_signal_id (emitted (automation_run demo_to_f64 demo_math (\<lambda>_. []) (\<lambda>_ _. []) [(7, demo_book), (8, demo_book)] demo_strategy)))"
proof -
  have "automation_validate demo_automation = Ok ()"
    by (simp add: automation_validate_def demo_automation_def default_automation_config_def demo_factors_valid
        entry_filter_validate_def default_entry_filter_def is_some_and_def default_candle_interval_ns_def in_closed_def is_blank_def)
  moreover have "new_factor_engine (ac_factors demo_automation) = Ok demo_engine"
    by (simp add: new_factor_engine_def demo_automation_def demo_factors_valid demo_engine_def)
  moreover have "new_selector (ac_entry_filter demo_automation) = Ok \<lparr>vs_config = default_entry_filter, vs_volumes = []\<rparr>"
    by (simp add: new_selector_def demo_automation_def default_automation_config_def entry_filter_validate_def
        default_entry_filter_def is_some_and_def)
  moreover have "new_machine demo_config = Ok demo_machine"
    by (simp add: new_machine_def strategy_validate_def demo_config_def demo_machine_def in_closed_def)
  ultimately have new: "new_automated demo_config demo_automation = Ok demo_strategy"
    by (simp add: new_automated_def demo_strategy_def)
  have i: "ac_min_emit_interval_ns demo_automation = 250000000" by (simp add: demo_automation_def default_automation_config_def)
  have pos: "0 < ac_min_emit_interval_ns demo_automation" unfolding i by simp
  have len: "length [(7, demo_book), (8 :: uuid, demo_book)] < 2 ^ 64" by simp
  from automation_gated [OF new pos len, of demo_to_f64 demo_math "\<lambda>_. []" "\<lambda>_ _. []"] show ?thesis unfolding i by blast
qed

end
