(* ===== verification/Policy.thy ===== *)
theory Policy
  imports PgTypes OrderedMap TextUtil F64
begin

text \<open>
  The venue-neutral policy layer, \<open>rust/crates/pg-strategy/src/policy\<close>: feature frames and predicates of
  \<open>mod.rs\<close>, the rules of \<open>entries.rs\<close>, \<open>exits.rs\<close> and \<open>filters.rs\<close>, the rule graph of \<open>graph.rs\<close>, position
  sizing of \<open>sizing.rs\<close> and the advisory gate of \<open>jev_advisory.rs\<close>. Conversion of a decimal to a double,
  \<open>to_f64\<close>, is a parameter.
\<close>

section \<open>Features and predicates\<close>

type_synonym feature_frame = "(string, f64) omap"

definition frame_insert :: "string \<Rightarrow> f64 \<Rightarrow> feature_frame \<Rightarrow> feature_frame" where
  "frame_insert name value frame = (if is_finite value then om_insert name value frame else frame)"

definition frame_get :: "string \<Rightarrow> feature_frame \<Rightarrow> f64 option" where
  "frame_get name frame = om_get name frame"

datatype comparison_op = Gt | Gte | Lt | Lte

record predicate =
  pr_feature :: string
  pr_op :: comparison_op
  pr_value :: f64

datatype match_mode = MatchAll | MatchAny

record rule_evaluation =
  re_matched :: bool
  re_missing_features :: "string list"

record position_view =
  pv_net_quantity :: decimal
  pv_average_entry_price :: "decimal option"
  pv_filled_entries :: nat
  pv_unrealized_return :: "f64 option"
  pv_peak_return :: "f64 option"

definition default_position_view :: position_view where
  "default_position_view =
     \<lparr>pv_net_quantity = 0, pv_average_entry_price = None, pv_filled_entries = 0,
      pv_unrealized_return = None, pv_peak_return = None\<rparr>"

record strategy_context =
  cx_instrument :: asset_key
  cx_features :: feature_frame
  cx_position :: position_view
  cx_now_ns :: u64

definition feature_value :: "(decimal \<Rightarrow> f64 option) \<Rightarrow> string \<Rightarrow> strategy_context \<Rightarrow> f64 option" where
  "feature_value to_f64 name cx =
     (case frame_get name (cx_features cx) of
        Some v \<Rightarrow> Some v
      | None \<Rightarrow>
          let p = cx_position cx in
          if name \<in> {''net_quantity'', ''position.net_quantity''} then to_f64 (pv_net_quantity p)
          else if name \<in> {''average_entry_price'', ''position.average_entry_price''}
            then Option.bind (pv_average_entry_price p) to_f64
          else if name \<in> {''filled_entries'', ''position.filled_entries''} then Some (f64_of_nat (pv_filled_entries p))
          else if name \<in> {''unrealized_return'', ''position.unrealized_return''} then pv_unrealized_return p
          else if name \<in> {''peak_return'', ''position.peak_return''} then pv_peak_return p
          else None)"

fun compare_f64 :: "comparison_op \<Rightarrow> f64 \<Rightarrow> f64 \<Rightarrow> bool" where
  "compare_f64 Gt actual value = f64_lt value actual"
| "compare_f64 Gte actual value = f64_le value actual"
| "compare_f64 Lt actual value = f64_lt actual value"
| "compare_f64 Lte actual value = f64_le actual value"

definition evaluate_predicate :: "(decimal \<Rightarrow> f64 option) \<Rightarrow> strategy_context \<Rightarrow> predicate \<Rightarrow> bool option" where
  "evaluate_predicate to_f64 cx p =
     map_option (\<lambda>actual. compare_f64 (pr_op p) actual (pr_value p)) (feature_value to_f64 (pr_feature p) cx)"

text \<open>The loop that collects results and missing features.\<close>

fun collect_predicates ::
  "(decimal \<Rightarrow> f64 option) \<Rightarrow> strategy_context \<Rightarrow> predicate list \<Rightarrow> bool list \<times> string list" where
  "collect_predicates to_f64 cx [] = ([], [])"
| "collect_predicates to_f64 cx (p # ps) =
     (case collect_predicates to_f64 cx ps of
        (results, missing) \<Rightarrow>
          (case evaluate_predicate to_f64 cx p of
             Some b \<Rightarrow> (b # results, missing)
           | None \<Rightarrow> (results, pr_feature p # missing)))"

definition evaluate_predicates ::
  "(decimal \<Rightarrow> f64 option) \<Rightarrow> predicate list \<Rightarrow> match_mode \<Rightarrow> strategy_context \<Rightarrow> rule_evaluation" where
  "evaluate_predicates to_f64 ps mode cx =
     (if ps = [] then \<lparr>re_matched = False, re_missing_features = []\<rparr>
      else case collect_predicates to_f64 cx ps of
        (results, missing) \<Rightarrow>
          \<lparr>re_matched = (missing = [] \<and>
             (case mode of MatchAll \<Rightarrow> list_all (\<lambda>b. b) results | MatchAny \<Rightarrow> list_ex (\<lambda>b. b) results)),
           re_missing_features = missing\<rparr>)"

section \<open>The rule graph\<close>

record declarative_filter =
  df_id :: string
  df_mode :: match_mode
  df_predicates :: "predicate list"

record declarative_entry =
  de_id :: string
  de_side :: side
  de_mode :: match_mode
  de_predicates :: "predicate list"

record declarative_exit =
  dx_id :: string
  dx_mode :: match_mode
  dx_predicates :: "predicate list"

definition filter_evaluate :: "(decimal \<Rightarrow> f64 option) \<Rightarrow> strategy_context \<Rightarrow> declarative_filter \<Rightarrow> rule_evaluation" where
  "filter_evaluate to_f64 cx f = evaluate_predicates to_f64 (df_predicates f) (df_mode f) cx"

definition entry_evaluate :: "(decimal \<Rightarrow> f64 option) \<Rightarrow> strategy_context \<Rightarrow> declarative_entry \<Rightarrow> rule_evaluation" where
  "entry_evaluate to_f64 cx e = evaluate_predicates to_f64 (de_predicates e) (de_mode e) cx"

definition exit_evaluate :: "(decimal \<Rightarrow> f64 option) \<Rightarrow> strategy_context \<Rightarrow> declarative_exit \<Rightarrow> rule_evaluation" where
  "exit_evaluate to_f64 cx x = evaluate_predicates to_f64 (dx_predicates x) (dx_mode x) cx"

record policy_definition =
  pd_filters :: "declarative_filter list"
  pd_entries :: "declarative_entry list"
  pd_exits :: "declarative_exit list"

definition policy_rules :: "policy_definition \<Rightarrow> (string \<times> string \<times> predicate list) list" where
  "policy_rules d =
     map (\<lambda>f. (''filter'', df_id f, df_predicates f)) (pd_filters d)
     @ map (\<lambda>e. (''entry'', de_id e, de_predicates e)) (pd_entries d)
     @ map (\<lambda>x. (''exit'', dx_id x, dx_predicates x)) (pd_exits d)"

fun validate_rule_predicates :: "string \<Rightarrow> string \<Rightarrow> predicate list \<Rightarrow> (string, unit) outcome" where
  "validate_rule_predicates kind rid [] = Ok ()"
| "validate_rule_predicates kind rid (p # ps) =
     (if is_blank (pr_feature p) then Err (kind @ '' rule '' @ rid @ '' has an empty feature name'')
      else if \<not> is_finite (pr_value p)
        then Err (kind @ '' rule '' @ rid @ '' predicate '' @ pr_feature p @ '' has a non-finite value'')
      else validate_rule_predicates kind rid ps)"

fun validate_rules :: "string set \<Rightarrow> (string \<times> string \<times> predicate list) list \<Rightarrow> (string, unit) outcome" where
  "validate_rules ids [] = Ok ()"
| "validate_rules ids ((kind, rid, ps) # rules) =
     (if is_blank rid then Err (kind @ '' rule id must not be empty'')
      else if ps = [] then Err (kind @ '' rule '' @ rid @ '' must have at least one predicate'')
      else if rid \<in> ids then Err (''duplicate policy rule id '' @ rid)
      else and_then (validate_rule_predicates kind rid ps) (\<lambda>_. validate_rules (insert rid ids) rules))"

definition policy_validate :: "policy_definition \<Rightarrow> (string, unit) outcome" where
  "policy_validate d = validate_rules {} (policy_rules d)"

definition required_features :: "policy_definition \<Rightarrow> string set" where
  "required_features d =
     set (map pr_feature (concat (map df_predicates (pd_filters d)) @ concat (map de_predicates (pd_entries d))
       @ concat (map dx_predicates (pd_exits d))))"

text \<open>A compiled engine is its definition.\<close>

definition compile :: "policy_definition \<Rightarrow> (string, policy_definition) outcome" where
  "compile d = and_then (policy_validate d) (\<lambda>_. Ok d)"

definition is_defined :: "policy_definition \<Rightarrow> bool" where
  "is_defined d \<longleftrightarrow> pd_entries d \<noteq> [] \<or> pd_exits d \<noteq> []"

datatype entry_policy_decision = EntryNoMatch | EntryBlocked string "string list" | EntryMatched string side

datatype exit_policy_decision = ExitNoMatch | ExitMatched string

fun first_blocking :: "(decimal \<Rightarrow> f64 option) \<Rightarrow> strategy_context \<Rightarrow> declarative_filter list \<Rightarrow> (string \<times> string list) option" where
  "first_blocking to_f64 cx [] = None"
| "first_blocking to_f64 cx (f # fs) =
     (let result = filter_evaluate to_f64 cx f in
      if \<not> re_matched result then Some (df_id f, re_missing_features result) else first_blocking to_f64 cx fs)"

definition evaluate_entry :: "(decimal \<Rightarrow> f64 option) \<Rightarrow> strategy_context \<Rightarrow> policy_definition \<Rightarrow> entry_policy_decision" where
  "evaluate_entry to_f64 cx d =
     (case first_blocking to_f64 cx (pd_filters d) of
        Some (fid, missing) \<Rightarrow> EntryBlocked fid missing
      | None \<Rightarrow>
          (case find (\<lambda>e. re_matched (entry_evaluate to_f64 cx e)) (pd_entries d) of
             Some e \<Rightarrow> EntryMatched (de_id e) (de_side e)
           | None \<Rightarrow> EntryNoMatch))"

definition evaluate_exit :: "(decimal \<Rightarrow> f64 option) \<Rightarrow> strategy_context \<Rightarrow> policy_definition \<Rightarrow> exit_policy_decision" where
  "evaluate_exit to_f64 cx d =
     (case find (\<lambda>x. re_matched (exit_evaluate to_f64 cx x)) (pd_exits d) of
        Some x \<Rightarrow> ExitMatched (dx_id x)
      | None \<Rightarrow> ExitNoMatch)"

section \<open>Sizing\<close>

definition fixed_quantity :: "decimal \<Rightarrow> decimal option" where
  "fixed_quantity q = (if 0 < q then Some q else None)"

record dca_ladder =
  dl_initial_quote :: decimal
  dl_max_position_quote :: decimal
  dl_triggers :: "f64 list"
  dl_volume_scale :: f64

definition dca_validate :: "dca_ladder \<Rightarrow> (string, unit) outcome" where
  "dca_validate d =
     (if dl_initial_quote d \<le> 0 \<or> dl_max_position_quote d \<le> 0 then Err ''DCA quote budgets must be positive''
      else if dl_max_position_quote d < dl_initial_quote d then Err ''DCA max_position_quote must cover initial_quote''
      else if list_ex (\<lambda>v. \<not> is_finite v \<or> f64_le v (Finite 0)) (dl_triggers d)
        then Err ''DCA triggers must be finite positive loss fractions''
      else if \<not> is_finite (dl_volume_scale d) \<or> f64_le (dl_volume_scale d) (Finite 0)
        then Err ''DCA volume_scale must be finite and positive''
      else Ok ())"

definition remaining_position_quote :: "dec_ops \<Rightarrow> dca_ladder \<Rightarrow> strategy_context \<Rightarrow> decimal option" where
  "remaining_position_quote ar d cx =
     (let p = cx_position cx in
      Option.bind
        (if pv_net_quantity p = 0 then (if 0 < pv_filled_entries p then None else Some 0)
         else Option.bind (pv_average_entry_price p) (\<lambda>price.
           if price \<le> 0 then None else checked_mul ar \<bar>pv_net_quantity p\<bar> price))
        (\<lambda>current. Option.bind (checked_sub ar (dl_max_position_quote d) current) (\<lambda>remaining.
           if 0 < remaining then Some remaining else None)))"

text \<open>
  \<open>decimal_to_f64\<close> prints the exact decimal and parses it, which rounds correctly; \<open>decimal_from_f64\<close> prints
  the shortest text of a finite double and parses it as a decimal, here the parameter \<open>shortest\<close>.
\<close>

definition decimal_to_f64 :: "decimal \<Rightarrow> f64 option" where
  "decimal_to_f64 d = Some (round64 d)"

definition decimal_from_f64 :: "(f64 \<Rightarrow> decimal option) \<Rightarrow> f64 \<Rightarrow> decimal option" where
  "decimal_from_f64 shortest v = (if \<not> is_finite v then None else shortest v)"

definition next_quote_amount ::
  "dec_ops \<Rightarrow> libm \<Rightarrow> (f64 \<Rightarrow> decimal option) \<Rightarrow> dca_ladder \<Rightarrow> strategy_context \<Rightarrow> decimal option" where
  "next_quote_amount ar lm shortest d cx =
     (if dca_validate d \<noteq> Ok () then None
      else let p = cx_position cx; filled = pv_filled_entries p in
      Option.bind (pv_unrealized_return p) (\<lambda>current_return.
      Option.bind (remaining_position_quote ar d cx) (\<lambda>remaining.
      if filled = 0 then Some (min (dl_initial_quote d) remaining)
      else if length (dl_triggers d) \<le> filled - 1 then None
      else let trigger = dl_triggers d ! (filled - 1) in
      if f64_lt (f64_neg trigger) current_return then None
      else if 2 ^ 31 \<le> filled then None
      else Option.bind (decimal_to_f64 (dl_initial_quote d)) (\<lambda>initial.
        Option.bind (decimal_from_f64 shortest (f64_mul initial (lm_powi lm (dl_volume_scale d) filled))) (\<lambda>requested.
          Some (min requested remaining))))))"

section \<open>The advisory gate\<close>

record jev_observation =
  jo_instrument :: string
  jo_model :: string
  jo_source_event_ns :: u64
  jo_received_ns :: u64
  jo_expires_ns :: u64
  jo_choice :: string
  jo_probabilities :: "(string, f64) omap"
  jo_provider_confidence :: f64
  jo_input_tokens :: u64
  jo_output_tokens :: u64

definition is_lower_hex :: "char \<Rightarrow> bool" where
  "is_lower_hex c \<longleftrightarrow> c \<in> set ''0123456789abcdef''"

definition is_pinned_laya_model :: "string \<Rightarrow> bool" where
  "is_pinned_laya_model model \<longleftrightarrow>
     starts_with ''laya@'' model \<and>
     (case split_once (CHR '':'') (drop 5 model) of
        None \<Rightarrow> False
      | Some (build, runtime) \<Rightarrow>
          length build = 40 \<and> list_all is_lower_hex build
          \<and> runtime \<noteq> [] \<and> length runtime \<le> 160 \<and> \<not> has_whitespace runtime)"

definition is_supported_model :: "string \<Rightarrow> bool" where
  "is_supported_model model \<longleftrightarrow> model = ''jev-1.13.0'' \<or> is_pinned_laya_model model"

definition milli :: f64 where
  "milli = round64 (1/1000)"

fun sum_probabilities :: "(string, f64) omap \<Rightarrow> string list \<Rightarrow> f64 \<Rightarrow> f64 \<Rightarrow> (f64 \<times> f64) option" where
  "sum_probabilities ps [] tot highest = Some (tot, highest)"
| "sum_probabilities ps (k # ks) tot highest =
     (case om_get k ps of
        None \<Rightarrow> None
      | Some p \<Rightarrow>
          if \<not> is_finite p \<or> \<not> in_closed (Finite 0) (Finite 1) p then None
          else sum_probabilities ps ks (f64_add tot p) (f64_max highest p))"

definition valid_at :: "u64 \<Rightarrow> jev_observation \<Rightarrow> bool" where
  "valid_at now_ns ob \<longleftrightarrow>
     \<not> (jo_instrument ob \<noteq> ''BINANCE_PM:BTCUSDC''
        \<or> \<not> is_supported_model (jo_model ob)
        \<or> jo_source_event_ns ob = 0
        \<or> jo_source_event_ns ob > jo_received_ns ob
        \<or> jo_received_ns ob > now_ns
        \<or> now_ns \<ge> jo_expires_ns ob
        \<or> jo_expires_ns ob \<le> jo_source_event_ns ob
        \<or> jo_expires_ns ob - jo_source_event_ns ob > 5000000000
        \<or> jo_choice ob \<notin> {''up'', ''down'', ''neutral''}
        \<or> \<not> is_finite (jo_provider_confidence ob)
        \<or> \<not> in_closed (Finite 0) (Finite 1) (jo_provider_confidence ob)
        \<or> length (jo_probabilities ob) \<noteq> 3)
     \<and> (case sum_probabilities (jo_probabilities ob) [''up'', ''down'', ''neutral''] (Finite 0) (Finite 0) of
          None \<Rightarrow> False
        | Some (tot, highest) \<Rightarrow>
            f64_le (f64_abs (f64_sub tot (Finite 1))) milli
            \<and> (case om_get (jo_choice ob) (jo_probabilities ob) of
                 Some winner \<Rightarrow> f64_le (f64_sub highest milli) winner
               | None \<Rightarrow> False))"

datatype jev_gate_decision = AllowExistingDeterministicSignal | HoldNewExposure

datatype jev_gate_error = InvalidObservation

text \<open>The watch channel holds the latest observation.\<close>

definition jev_publish ::
  "jev_observation \<Rightarrow> u64 \<Rightarrow> jev_observation option \<Rightarrow> (jev_gate_error, unit) outcome \<times> jev_observation option" where
  "jev_publish ob now_ns ch = (if \<not> valid_at now_ns ob then (Err InvalidObservation, None) else (Ok (), Some ob))"

definition jev_disconnect :: "jev_observation option \<Rightarrow> jev_observation option" where
  "jev_disconnect ch = None"

text \<open>\<open>meta text key\<close> is the unsigned number the JSON object \<open>text\<close> holds under \<open>key\<close>, if it does.\<close>

definition signal_source_event_ns :: "(string \<Rightarrow> string \<Rightarrow> u64 option) \<Rightarrow> signal \<Rightarrow> u64 option" where
  "signal_source_event_ns meta sg =
     (case (meta (sg_metadata sg) ''system_one_source_event_ns'', meta (sg_metadata sg) ''jev_source_event_ns'') of
        (Some generic, Some legacy) \<Rightarrow> if generic \<noteq> legacy then None else Some generic
      | (Some generic, None) \<Rightarrow> Some generic
      | (None, Some legacy) \<Rightarrow> Some legacy
      | (None, None) \<Rightarrow> None)"

definition jev_check ::
  "(string \<Rightarrow> string \<Rightarrow> u64 option) \<Rightarrow> jev_observation option \<Rightarrow> signal \<Rightarrow> exposure_effect \<Rightarrow> u64 \<Rightarrow> jev_gate_decision" where
  "jev_check meta ch sg effect now_ns =
     (if effect = ReduceOnly then AllowExistingDeterministicSignal
      else case ch of
        None \<Rightarrow> HoldNewExposure
      | Some ob \<Rightarrow>
          if sg_venue sg \<noteq> BinancePm \<or> sg_asset sg \<noteq> ''BTCUSDC'' \<or> is_expired_signal sg now_ns
             \<or> sg_created_at_ns sg < jo_source_event_ns ob
             \<or> signal_source_event_ns meta sg \<noteq> Some (jo_source_event_ns ob)
             \<or> \<not> valid_at now_ns ob
          then HoldNewExposure
          else if (if jo_choice ob = ''up'' then f64_lt (Finite 0) (sg_score sg)
                   else if jo_choice ob = ''down'' then f64_lt (sg_score sg) (Finite 0) else False)
          then AllowExistingDeterministicSignal else HoldNewExposure)"

section \<open>What a rule means\<close>

definition predicate_holds :: "(decimal \<Rightarrow> f64 option) \<Rightarrow> strategy_context \<Rightarrow> predicate \<Rightarrow> bool" where
  "predicate_holds to_f64 cx p \<longleftrightarrow>
     (\<exists>v. feature_value to_f64 (pr_feature p) cx = Some v \<and> compare_f64 (pr_op p) v (pr_value p))"

definition rule_holds :: "(decimal \<Rightarrow> f64 option) \<Rightarrow> strategy_context \<Rightarrow> match_mode \<Rightarrow> predicate list \<Rightarrow> bool" where
  "rule_holds to_f64 cx mode ps \<longleftrightarrow>
     ps \<noteq> [] \<and> (\<forall>p\<in>set ps. feature_value to_f64 (pr_feature p) cx \<noteq> None)
     \<and> (case mode of MatchAll \<Rightarrow> \<forall>p\<in>set ps. predicate_holds to_f64 cx p | MatchAny \<Rightarrow> \<exists>p\<in>set ps. predicate_holds to_f64 cx p)"

lemma collect_predicates_exact:
  "collect_predicates to_f64 cx ps =
     (map (predicate_holds to_f64 cx) (filter (\<lambda>p. feature_value to_f64 (pr_feature p) cx \<noteq> None) ps),
      map pr_feature (filter (\<lambda>p. feature_value to_f64 (pr_feature p) cx = None) ps))"
  by (induction ps) (auto simp: evaluate_predicate_def predicate_holds_def split: option.splits)

lemma evaluate_predicates_exact:
  "re_matched (evaluate_predicates to_f64 ps mode cx) \<longleftrightarrow> rule_holds to_f64 cx mode ps"
proof (cases "ps = [] \<or> (\<exists>p\<in>set ps. feature_value to_f64 (pr_feature p) cx = None)")
  case True
  then show ?thesis
    by (auto simp: evaluate_predicates_def rule_holds_def collect_predicates_exact filter_empty_conv split: match_mode.split)
next
  case False
  then have "filter (\<lambda>p. \<exists>v. feature_value to_f64 (pr_feature p) cx = Some v) ps = ps"
      "filter (\<lambda>p. feature_value to_f64 (pr_feature p) cx = None) ps = []"
    by (auto simp: filter_empty_conv intro!: filter_True)
  with False show ?thesis
    by (auto simp: evaluate_predicates_def rule_holds_def collect_predicates_exact list_all_iff list_ex_iff split: match_mode.split)
qed

lemma first_blocking_None:
  "first_blocking to_f64 cx fs = None \<longleftrightarrow> (\<forall>f\<in>set fs. rule_holds to_f64 cx (df_mode f) (df_predicates f))"
  by (induction fs) (auto simp: Let_def filter_evaluate_def evaluate_predicates_exact)

lemma find_split:
  "find P xs = Some x \<longleftrightarrow> (\<exists>pre post. xs = pre @ x # post \<and> (\<forall>y\<in>set pre. \<not> P y) \<and> P x)"
proof (induction xs)
  case (Cons y ys)
  show ?case
  proof (cases "P y")
    case True
    have "\<exists>pre post. y # ys = pre @ x # post \<and> (\<forall>z\<in>set pre. \<not> P z) \<and> P x \<Longrightarrow> y = x"
      using True by (auto simp: Cons_eq_append_conv)
    moreover have "y = x \<Longrightarrow> \<exists>pre post. y # ys = pre @ x # post \<and> (\<forall>z\<in>set pre. \<not> P z) \<and> P x"
      using True by (intro exI [of _ "[]"] exI [of _ ys]) simp
    ultimately show ?thesis using True by auto
  next
    case False
    then show ?thesis using Cons by (auto simp: Cons_eq_append_conv) (metis set_ConsD)
  qed
qed simp

lemma evaluate_entry_matched:
  "evaluate_entry to_f64 cx d = EntryMatched rid sd \<longleftrightarrow>
     (\<forall>f\<in>set (pd_filters d). rule_holds to_f64 cx (df_mode f) (df_predicates f))
     \<and> (\<exists>pre e post. pd_entries d = pre @ e # post \<and> de_id e = rid \<and> de_side e = sd
          \<and> rule_holds to_f64 cx (de_mode e) (de_predicates e)
          \<and> (\<forall>x\<in>set pre. \<not> rule_holds to_f64 cx (de_mode x) (de_predicates x)))"
proof -
  have "evaluate_entry to_f64 cx d = EntryMatched rid sd \<longleftrightarrow>
      first_blocking to_f64 cx (pd_filters d) = None
      \<and> (\<exists>e. find (\<lambda>e. rule_holds to_f64 cx (de_mode e) (de_predicates e)) (pd_entries d) = Some e \<and> de_id e = rid \<and> de_side e = sd)"
    by (auto simp: evaluate_entry_def entry_evaluate_def evaluate_predicates_exact split: option.split)
  then show ?thesis unfolding first_blocking_None find_split by blast
qed

lemma evaluate_exit_matched:
  "evaluate_exit to_f64 cx d = ExitNoMatch \<longleftrightarrow> (\<forall>x\<in>set (pd_exits d). \<not> rule_holds to_f64 cx (dx_mode x) (dx_predicates x))"
proof -
  have "evaluate_exit to_f64 cx d = ExitNoMatch \<longleftrightarrow> find (\<lambda>x. rule_holds to_f64 cx (dx_mode x) (dx_predicates x)) (pd_exits d) = None"
    by (simp add: evaluate_exit_def exit_evaluate_def evaluate_predicates_exact split: option.split)
  then show ?thesis by (auto simp: find_None_iff)
qed

text \<open>Validation.\<close>

lemma validate_rule_predicates_ok:
  "validate_rule_predicates kind rid ps = Ok () \<longleftrightarrow> (\<forall>p\<in>set ps. \<not> is_blank (pr_feature p) \<and> is_finite (pr_value p))"
  by (induction ps) auto

lemma validate_rules_ok:
  "validate_rules ids rules = Ok () \<longleftrightarrow>
     distinct (map (\<lambda>(kind, rid, ps). rid) rules) \<and> ids \<inter> (\<lambda>(kind, rid, ps). rid) ` set rules = {}
     \<and> (\<forall>(kind, rid, ps)\<in>set rules. \<not> is_blank rid \<and> ps \<noteq> [] \<and> (\<forall>p\<in>set ps. \<not> is_blank (pr_feature p) \<and> is_finite (pr_value p)))"
proof (induction ids rules rule: validate_rules.induct)
  case (2 ids kind rid ps rules)
  show ?case
  proof (cases "\<not> is_blank rid \<and> ps \<noteq> [] \<and> rid \<notin> ids \<and> validate_rule_predicates kind rid ps = Ok ()")
    case True
    then have "validate_rules ids ((kind, rid, ps) # rules) = validate_rules (insert rid ids) rules" by simp
    with True 2 validate_rule_predicates_ok [of kind rid ps] show ?thesis by (auto simp: split_beta)
  next
    case False
    then have "validate_rules ids ((kind, rid, ps) # rules) \<noteq> Ok ()" by (auto simp: outcome_simps)
    with False validate_rule_predicates_ok [of kind rid ps] show ?thesis by auto
  qed
qed simp

text \<open>Decisions depend only on the values of the required features.\<close>

definition same_features :: "(decimal \<Rightarrow> f64 option) \<Rightarrow> string set \<Rightarrow> strategy_context \<Rightarrow> strategy_context \<Rightarrow> bool" where
  "same_features to_f64 names cx cx' \<longleftrightarrow> (\<forall>n\<in>names. feature_value to_f64 n cx = feature_value to_f64 n cx')"

lemma evaluate_predicates_cong:
  "same_features to_f64 names cx cx' \<Longrightarrow> pr_feature ` set ps \<subseteq> names \<Longrightarrow>
     evaluate_predicates to_f64 ps mode cx = evaluate_predicates to_f64 ps mode cx'"
proof -
  assume same: "same_features to_f64 names cx cx'" "pr_feature ` set ps \<subseteq> names"
  have "collect_predicates to_f64 cx ps = collect_predicates to_f64 cx' ps" using same
    by (induction ps) (auto simp: evaluate_predicate_def same_features_def)
  then show ?thesis by (simp add: evaluate_predicates_def)
qed

lemma first_blocking_cong:
  assumes "same_features to_f64 names cx cx'"
  shows "(\<Union>f\<in>set fs. pr_feature ` set (df_predicates f)) \<subseteq> names \<Longrightarrow> first_blocking to_f64 cx fs = first_blocking to_f64 cx' fs"
  by (induction fs) (auto simp: Let_def filter_evaluate_def evaluate_predicates_cong [OF assms])

lemma find_cong_set: "(\<And>x. x \<in> set xs \<Longrightarrow> P x = Q x) \<Longrightarrow> find P xs = find Q xs"
  by (induction xs) auto

lemma evaluate_cong:
  assumes "same_features to_f64 (required_features d) cx cx'"
  shows "evaluate_entry to_f64 cx d = evaluate_entry to_f64 cx' d" "evaluate_exit to_f64 cx d = evaluate_exit to_f64 cx' d"
proof -
  have sub: "(\<Union>f\<in>set (pd_filters d). pr_feature ` set (df_predicates f)) \<subseteq> required_features d"
      "e \<in> set (pd_entries d) \<Longrightarrow> pr_feature ` set (de_predicates e) \<subseteq> required_features d"
      "x \<in> set (pd_exits d) \<Longrightarrow> pr_feature ` set (dx_predicates x) \<subseteq> required_features d" for e x
    by (auto simp: required_features_def)
  have "find (\<lambda>e. re_matched (entry_evaluate to_f64 cx e)) (pd_entries d) = find (\<lambda>e. re_matched (entry_evaluate to_f64 cx' e)) (pd_entries d)"
    by (rule find_cong_set) (simp add: entry_evaluate_def evaluate_predicates_cong [OF assms sub(2)])
  then show "evaluate_entry to_f64 cx d = evaluate_entry to_f64 cx' d"
    unfolding evaluate_entry_def first_blocking_cong [OF assms sub(1)] by presburger
  have "find (\<lambda>x. re_matched (exit_evaluate to_f64 cx x)) (pd_exits d) = find (\<lambda>x. re_matched (exit_evaluate to_f64 cx' x)) (pd_exits d)"
    by (rule find_cong_set) (simp add: exit_evaluate_def evaluate_predicates_cong [OF assms sub(3)])
  then show "evaluate_exit to_f64 cx d = evaluate_exit to_f64 cx' d" unfolding evaluate_exit_def by presburger
qed

text \<open>
  C34. The rule graph decides exactly as declared, and fails closed. In a graph that compiles, rule ids are
  distinct across filters, entries and exits and every threshold is finite. An entry is taken exactly when
  every filter holds and some entry rule does, and then it is the first such rule with its own side, where
  a rule holds only if every feature it names is available; an exit is taken exactly when some exit rule
  holds, whatever the filters say; and both decisions depend only on the required features.
\<close>

theorem policy_graph_exact:
  assumes "compile d = Ok engine"
  shows "engine = d \<and> distinct (map df_id (pd_filters d) @ map de_id (pd_entries d) @ map dx_id (pd_exits d))
    \<and> (\<forall>(kind, rid, ps)\<in>set (policy_rules d). ps \<noteq> [] \<and> (\<forall>p\<in>set ps. is_finite (pr_value p)))
    \<and> (\<forall>cx rid sd. evaluate_entry to_f64 cx engine = EntryMatched rid sd \<longleftrightarrow>
         (\<forall>f\<in>set (pd_filters d). rule_holds to_f64 cx (df_mode f) (df_predicates f))
         \<and> (\<exists>pre e post. pd_entries d = pre @ e # post \<and> de_id e = rid \<and> de_side e = sd
              \<and> rule_holds to_f64 cx (de_mode e) (de_predicates e)
              \<and> (\<forall>x\<in>set pre. \<not> rule_holds to_f64 cx (de_mode x) (de_predicates x))))
    \<and> (\<forall>cx. evaluate_exit to_f64 cx engine = ExitNoMatch \<longleftrightarrow> (\<forall>x\<in>set (pd_exits d). \<not> rule_holds to_f64 cx (dx_mode x) (dx_predicates x)))
    \<and> (\<forall>cx cx'. same_features to_f64 (required_features d) cx cx' \<longrightarrow>
         evaluate_entry to_f64 cx engine = evaluate_entry to_f64 cx' engine \<and> evaluate_exit to_f64 cx engine = evaluate_exit to_f64 cx' engine)"
proof -
  from assms have eq: "engine = d" and ok: "validate_rules {} (policy_rules d) = Ok ()"
    by (auto simp: compile_def policy_validate_def outcome_simps)
  have ids: "map (\<lambda>(kind, rid, ps). rid) (policy_rules d) = map df_id (pd_filters d) @ map de_id (pd_entries d) @ map dx_id (pd_exits d)"
    by (simp add: policy_rules_def comp_def)
  from ok have "distinct (map df_id (pd_filters d) @ map de_id (pd_entries d) @ map dx_id (pd_exits d))"
      "\<forall>(kind, rid, ps)\<in>set (policy_rules d). ps \<noteq> [] \<and> (\<forall>p\<in>set ps. is_finite (pr_value p))"
    unfolding validate_rules_ok ids by (auto simp only: split_beta)
  then show ?thesis unfolding eq
    by (simp only: evaluate_entry_matched evaluate_exit_matched evaluate_cong simp_thms) (auto dest: evaluate_cong)
qed

definition demo_predicate :: "string \<Rightarrow> comparison_op \<Rightarrow> rat \<Rightarrow> predicate" where
  "demo_predicate name cmp v = \<lparr>pr_feature = name, pr_op = cmp, pr_value = Finite v\<rparr>"

definition demo_policy :: policy_definition where
  "demo_policy = \<lparr>pd_filters = [\<lparr>df_id = ''f'', df_mode = MatchAll, df_predicates = [demo_predicate ''spread'' Lte 20]\<rparr>],
     pd_entries = [\<lparr>de_id = ''e'', de_side = Buy, de_mode = MatchAny, de_predicates = [demo_predicate ''mom'' Gte 20]\<rparr>],
     pd_exits = [\<lparr>dx_id = ''x'', dx_mode = MatchAll, dx_predicates = [demo_predicate ''unrealized_return'' Lte (- 1 / 10)]\<rparr>]\<rparr>"

definition demo_context :: strategy_context where
  "demo_context = \<lparr>cx_instrument = AssetKey Hyperliquid ''HYPE'', cx_features = [(''mom'', Finite 30), (''spread'', Finite 5)],
     cx_position = default_position_view, cx_now_ns = 1\<rparr>"

theorem policy_graph_exact_witness:
  "evaluate_entry (\<lambda>d. Some (round64 d)) demo_context demo_policy = EntryMatched ''e'' Buy
   \<and> evaluate_exit (\<lambda>d. Some (round64 d)) demo_context demo_policy = ExitNoMatch"
proof -
  have c: "compile demo_policy = Ok demo_policy"
    by (simp add: compile_def policy_validate_def policy_rules_def demo_policy_def demo_predicate_def is_blank_def)
  note exact = policy_graph_exact [OF c, of "\<lambda>d. Some (round64 d)"]
  have "rule_holds (\<lambda>d. Some (round64 d)) demo_context MatchAll [demo_predicate ''spread'' Lte 20]"
      "rule_holds (\<lambda>d. Some (round64 d)) demo_context MatchAny [demo_predicate ''mom'' Gte 20]"
      "\<not> rule_holds (\<lambda>d. Some (round64 d)) demo_context MatchAll [demo_predicate ''unrealized_return'' Lte (- 1 / 10)]"
    by (simp_all add: rule_holds_def predicate_holds_def demo_predicate_def demo_context_def feature_value_def frame_get_def
        om_get_def default_position_view_def)
  then have hyp: "(\<forall>f\<in>set (pd_filters demo_policy). rule_holds (\<lambda>d. Some (round64 d)) demo_context (df_mode f) (df_predicates f))
      \<and> (\<exists>pre e post. pd_entries demo_policy = pre @ e # post \<and> de_id e = ''e'' \<and> de_side e = Buy
           \<and> rule_holds (\<lambda>d. Some (round64 d)) demo_context (de_mode e) (de_predicates e)
           \<and> (\<forall>x\<in>set pre. \<not> rule_holds (\<lambda>d. Some (round64 d)) demo_context (de_mode x) (de_predicates x)))"
      "\<forall>x\<in>set (pd_exits demo_policy). \<not> rule_holds (\<lambda>d. Some (round64 d)) demo_context (dx_mode x) (dx_predicates x)"
    by (auto simp: demo_policy_def intro!: exI [of _ "[]"])
  from exact hyp(1) have "evaluate_entry (\<lambda>d. Some (round64 d)) demo_context demo_policy = EntryMatched ''e'' Buy" by presburger
  moreover from exact hyp(2) have "evaluate_exit (\<lambda>d. Some (round64 d)) demo_context demo_policy = ExitNoMatch" by presburger
  ultimately show ?thesis ..
qed

section \<open>The position budget\<close>

lemma remaining_position_quote_cases:
  assumes "remaining_position_quote ar d cx = Some remaining"
  obtains current where "checked_sub ar (dl_max_position_quote d) current = Some remaining" "0 < remaining"
    "pv_net_quantity (cx_position cx) = 0 \<and> pv_filled_entries (cx_position cx) = 0 \<and> current = 0
     \<or> pv_net_quantity (cx_position cx) \<noteq> 0 \<and>
       (\<exists>price. pv_average_entry_price (cx_position cx) = Some price \<and> 0 < price
          \<and> checked_mul ar \<bar>pv_net_quantity (cx_position cx)\<bar> price = Some current)"
  using assms by (fastforce simp: remaining_position_quote_def Let_def bind_eq_Some_conv split: if_splits)

text \<open>
  The ladder never exceeds its budget. A proposed amount plus the cost of the position already held, valued
  at its average entry price, stays within the position budget, up to the exactness of the decimal
  difference; the first entry asks for at most the initial amount; a further entry is proposed only while
  triggers are left and the position has lost at least the trigger of its step; and a position that cannot be
  valued gets none.
\<close>

theorem dca_budget_respected:
  assumes "next_quote_amount ar lm shortest d cx = Some quote" "lossless ar s" "representable s (dl_max_position_quote d)"
    "\<And>price cost. pv_average_entry_price (cx_position cx) = Some price \<Longrightarrow>
       checked_mul ar \<bar>pv_net_quantity (cx_position cx)\<bar> price = Some cost \<Longrightarrow> representable s cost \<and> 0 \<le> cost"
  shows "(\<exists>cost. quote + cost \<le> dl_max_position_quote d
        \<and> (pv_net_quantity (cx_position cx) = 0 \<and> cost = 0
           \<or> (\<exists>price. pv_average_entry_price (cx_position cx) = Some price \<and> 0 < price
                \<and> checked_mul ar \<bar>pv_net_quantity (cx_position cx)\<bar> price = Some cost)))
    \<and> (pv_filled_entries (cx_position cx) = 0 \<longrightarrow> quote \<le> dl_initial_quote d \<and> 0 < quote)
    \<and> pv_filled_entries (cx_position cx) \<le> length (dl_triggers d)
    \<and> (0 < pv_filled_entries (cx_position cx) \<longrightarrow>
        (\<exists>ret. pv_unrealized_return (cx_position cx) = Some ret
           \<and> \<not> f64_lt (f64_neg (dl_triggers d ! (pv_filled_entries (cx_position cx) - 1))) ret))"
proof -
  let ?p = "cx_position cx"
  from assms(1) obtain remaining ret where rem: "remaining_position_quote ar d cx = Some remaining" "quote \<le> remaining"
      and ret: "pv_unrealized_return ?p = Some ret"
      and first: "pv_filled_entries ?p = 0 \<longrightarrow> quote = min (dl_initial_quote d) remaining"
      and later: "0 < pv_filled_entries ?p \<longrightarrow> pv_filled_entries ?p - 1 < length (dl_triggers d)
        \<and> \<not> f64_lt (f64_neg (dl_triggers d ! (pv_filled_entries ?p - 1))) ret"
      and ok: "dca_validate d = Ok ()"
    by (auto simp: next_quote_amount_def Let_def bind_eq_Some_conv split: if_splits)
  from ok have pos: "0 < dl_initial_quote d" "0 < dl_max_position_quote d" by (auto simp: dca_validate_def split: if_splits)
  from rem(1) obtain current where cur: "checked_sub ar (dl_max_position_quote d) current = Some remaining" "0 < remaining"
      "pv_net_quantity ?p = 0 \<and> pv_filled_entries ?p = 0 \<and> current = 0
       \<or> pv_net_quantity ?p \<noteq> 0 \<and> (\<exists>price. pv_average_entry_price ?p = Some price \<and> 0 < price \<and> checked_mul ar \<bar>pv_net_quantity ?p\<bar> price = Some current)"
    by (rule remaining_position_quote_cases)
  from cur(3) assms(4) have "representable s current" "0 \<le> current" by auto
  with assms(2,3) pos(2) have "checked_sub ar (dl_max_position_quote d) current = Some (dl_max_position_quote d - current)"
    by (intro lossless_sub_nonneg) auto
  with cur(1) have "remaining = dl_max_position_quote d - current" by simp
  with rem(2) have "quote + current \<le> dl_max_position_quote d" by simp
  then have "\<exists>cost. quote + cost \<le> dl_max_position_quote d
        \<and> (pv_net_quantity ?p = 0 \<and> cost = 0
           \<or> (\<exists>price. pv_average_entry_price ?p = Some price \<and> 0 < price \<and> checked_mul ar \<bar>pv_net_quantity ?p\<bar> price = Some cost))"
    using cur(3) by blast
  moreover have "pv_filled_entries ?p = 0 \<longrightarrow> quote \<le> dl_initial_quote d \<and> 0 < quote" using first pos cur(2) by auto
  moreover have "pv_filled_entries ?p \<le> length (dl_triggers d)" using later by (cases "pv_filled_entries ?p") auto
  ultimately show ?thesis using later ret by blast
qed

definition demo_ladder :: dca_ladder where
  "demo_ladder = \<lparr>dl_initial_quote = 1000, dl_max_position_quote = 6000, dl_triggers = [Finite (3/100)], dl_volume_scale = Finite 1\<rparr>"

definition demo_held :: strategy_context where
  "demo_held = demo_context\<lparr>cx_position := \<lparr>pv_net_quantity = 55, pv_average_entry_price = Some 100, pv_filled_entries = 0,
     pv_unrealized_return = Some (Finite 0), pv_peak_return = None\<rparr>\<rparr>"

definition demo_libm :: libm where
  "demo_libm = \<lparr>lm_ln = (\<lambda>x. x), lm_sqrt = (\<lambda>x. x), lm_powi = (\<lambda>x n. x)\<rparr>"

theorem dca_budget_respected_witness:
  "next_quote_amount bounded_ops demo_libm (\<lambda>_. None) demo_ladder demo_held = Some 500
    \<and> (\<exists>cost. 500 + cost \<le> dl_max_position_quote demo_ladder \<and> checked_mul bounded_ops 55 100 = Some cost)"
proof -
  have run: "next_quote_amount bounded_ops demo_libm (\<lambda>_. None) demo_ladder demo_held = Some 500"
    by (simp add: next_quote_amount_def demo_ladder_def demo_held_def dca_validate_def remaining_position_quote_def
        bounded_ops_def in_range_def)
  have m: "representable 0 (dl_max_position_quote demo_ladder)" by (simp add: demo_ladder_def representable_numeral)
  have "representable 0 cost \<and> 0 \<le> cost"
    if "pv_average_entry_price (cx_position demo_held) = Some price"
      "checked_mul bounded_ops \<bar>pv_net_quantity (cx_position demo_held)\<bar> price = Some cost" for price cost
    using that by (auto simp: demo_held_def bounded_ops_def in_range_def representable_numeral)
  from dca_budget_respected [OF run lossless_bounded_ops m this] run show ?thesis
    by (auto simp: demo_held_def)
qed

section \<open>The advisory channel over time\<close>

datatype jev_event = JePublish jev_observation u64 | JeDisconnect

fun jev_step :: "jev_event \<Rightarrow> jev_observation option \<Rightarrow> jev_observation option" where
  "jev_step (JePublish ob now_ns) ch = snd (jev_publish ob now_ns ch)"
| "jev_step JeDisconnect ch = jev_disconnect ch"

lemma jev_run_last:
  "fold jev_step events None = Some ob \<longleftrightarrow> (\<exists>before t. events = before @ [JePublish ob t] \<and> valid_at t ob)"
proof (cases events rule: rev_cases)
  case (snoc before e)
  then show ?thesis by (cases e) (auto simp: jev_publish_def jev_disconnect_def)
qed simp

text \<open>
  The advisory can only veto, and fails closed. After any publications and disconnections, exposure may be
  opened exactly when the last event published an observation that was valid then and still is, the signal
  is for the advised instrument, unexpired, built from the same source event and not older than it, and its
  score points the way the observation chose; a reduce-only action is never held, whatever the channel holds.
\<close>

theorem jev_gate_exact:
  "(jev_check meta (fold jev_step events None) sg effect now_ns = AllowExistingDeterministicSignal) \<longleftrightarrow>
     effect = ReduceOnly \<or>
     (\<exists>before ob t. events = before @ [JePublish ob t] \<and> valid_at t ob \<and> valid_at now_ns ob
        \<and> sg_venue sg = BinancePm \<and> sg_asset sg = ''BTCUSDC'' \<and> \<not> is_expired_signal sg now_ns
        \<and> jo_source_event_ns ob \<le> sg_created_at_ns sg \<and> signal_source_event_ns meta sg = Some (jo_source_event_ns ob)
        \<and> (jo_choice ob = ''up'' \<and> f64_lt (Finite 0) (sg_score sg) \<or> jo_choice ob = ''down'' \<and> f64_lt (sg_score sg) (Finite 0)))"
proof (cases "effect = ReduceOnly")
  case False
  have "(jev_check meta (fold jev_step events None) sg effect now_ns = AllowExistingDeterministicSignal) \<longleftrightarrow>
     (\<exists>ob. fold jev_step events None = Some ob \<and> valid_at now_ns ob
        \<and> sg_venue sg = BinancePm \<and> sg_asset sg = ''BTCUSDC'' \<and> \<not> is_expired_signal sg now_ns
        \<and> jo_source_event_ns ob \<le> sg_created_at_ns sg \<and> signal_source_event_ns meta sg = Some (jo_source_event_ns ob)
        \<and> (jo_choice ob = ''up'' \<and> f64_lt (Finite 0) (sg_score sg) \<or> jo_choice ob = ''down'' \<and> f64_lt (sg_score sg) (Finite 0)))"
    using False by (cases "fold jev_step events None") (auto simp: jev_check_def not_less)
  with False show ?thesis unfolding jev_run_last by auto
qed (simp add: jev_check_def)

end
