(* ===== verification/Features.thy ===== *)
theory Features
  imports Policy Factors
begin

text \<open>
  Live features for the rule graph, \<open>rust/crates/pg-strategy/src/policy/providers.rs\<close>: which feed each
  feature needs, the plan for a set of features, and the engine that turns market events into feature
  frames.
\<close>

section \<open>Providers and plans\<close>

datatype feed_requirement = FrTrades | FrBestBidAsk | FrL2Book | FrCandle

fun feed_kind_of :: "u64 \<Rightarrow> feed_requirement \<Rightarrow> feed_kind" where
  "feed_kind_of candle_interval_ns FrTrades = FkTrades"
| "feed_kind_of candle_interval_ns FrBestBidAsk = FkBestBidAsk"
| "feed_kind_of candle_interval_ns FrL2Book = FkL2Book"
| "feed_kind_of candle_interval_ns FrCandle = FkCandle candle_interval_ns"

type_synonym provider_registry = "string \<rightharpoonup> feed_requirement set"

definition register_provider :: "string \<Rightarrow> feed_requirement list \<Rightarrow> provider_registry \<Rightarrow> provider_registry" where
  "register_provider feature feeds reg = reg(feature \<mapsto> set feeds)"

definition standard_providers :: "(string \<times> feed_requirement list) list" where
  "standard_providers =
     map (\<lambda>f. (f, [FrTrades])) [''last_price'', ''vwap'', ''vwap_deviation_bps'', ''trade_imbalance'']
     @ [(''spread_bps'', [FrBestBidAsk]), (''book_imbalance'', [FrL2Book])]
     @ map (\<lambda>f. (f, [FrCandle])) [''momentum_bps'', ''realized_volatility_bps'', ''volume_ratio'']
     @ map (\<lambda>f. (f, [FrTrades, FrBestBidAsk, FrL2Book, FrCandle])) [''warmup_ratio'', ''score'', ''confidence'']
     @ map (\<lambda>f. (f, [])) [''net_quantity'', ''average_entry_price'', ''filled_entries'', ''unrealized_return'', ''peak_return'',
         ''position.net_quantity'', ''position.average_entry_price'', ''position.filled_entries'',
         ''position.unrealized_return'', ''position.peak_return'']"

definition standard_registry :: provider_registry where
  "standard_registry = fold (\<lambda>(f, feeds). register_provider f feeds) standard_providers Map.empty"

definition registry_contains :: "string \<Rightarrow> provider_registry \<Rightarrow> bool" where
  "registry_contains feature reg \<longleftrightarrow> reg feature \<noteq> None"

record feature_plan =
  fp_required_features :: "string set"
  fp_feeds :: "feed_requirement set"

text \<open>The loop over the required features, in their order.\<close>

fun plan_loop :: "provider_registry \<Rightarrow> string list \<Rightarrow> feed_requirement set \<Rightarrow> string list \<Rightarrow> feed_requirement set \<times> string list" where
  "plan_loop reg [] feeds unresolved = (feeds, unresolved)"
| "plan_loop reg (f # fs) feeds unresolved =
     (case reg f of
        Some needed \<Rightarrow> plan_loop reg fs (feeds \<union> needed) unresolved
      | None \<Rightarrow> plan_loop reg fs feeds (unresolved @ [f]))"

definition feature_plan_for :: "provider_registry \<Rightarrow> string set \<Rightarrow> (string, feature_plan) outcome" where
  "feature_plan_for reg required =
     (case plan_loop reg (sorted_list_of_set required) {} [] of
        (feeds, unresolved) \<Rightarrow>
          if unresolved \<noteq> [] then Err (''no live feature provider registered for: '' @ join '', '' unresolved)
          else Ok \<lparr>fp_required_features = required, fp_feeds = feeds\<rparr>)"

definition all_requirements :: "feed_requirement list" where
  "all_requirements = [FrTrades, FrBestBidAsk, FrL2Book, FrCandle]"

definition plan_subscriptions :: "asset_key \<Rightarrow> u64 \<Rightarrow> feature_plan \<Rightarrow> feed_spec list" where
  "plan_subscriptions instrument candle_interval_ns plan =
     map (\<lambda>r. \<lparr>fs_venue = ak_venue instrument, fs_asset = ak_asset instrument, fs_kind = feed_kind_of candle_interval_ns r\<rparr>)
       (filter (\<lambda>r. r \<in> fp_feeds plan) all_requirements)"

fun event_requirement :: "market_event \<Rightarrow> feed_requirement" where
  "event_requirement (MTrade _) = FrTrades"
| "event_requirement (MBestBidAsk _) = FrBestBidAsk"
| "event_requirement (ML2Book _) = FrL2Book"
| "event_requirement (MCandle _) = FrCandle"

definition requires_event :: "market_event \<Rightarrow> feature_plan \<Rightarrow> bool" where
  "requires_event e plan \<longleftrightarrow> event_requirement e \<in> fp_feeds plan"

definition requires :: "string \<Rightarrow> feature_plan \<Rightarrow> bool" where
  "requires feature plan \<longleftrightarrow> feature \<in> fp_required_features plan"

section \<open>The live engine\<close>

record live_engine =
  le_plan :: feature_plan
  le_factors :: factor_engine
  le_candle_interval_ns :: u64
  le_volumes :: "f64 list"
  le_volume_window :: nat
  le_min_volume_samples :: nat

definition new_live_engine ::
  "feature_plan \<Rightarrow> factor_config \<Rightarrow> u64 \<Rightarrow> nat \<Rightarrow> nat \<Rightarrow> (string, live_engine) outcome" where
  "new_live_engine plan c candle_interval_ns volume_window min_volume_samples =
     (if candle_interval_ns = 0 then Err ''feature runtime candle_interval_ns must be positive''
      else if volume_window < 2 then Err ''feature runtime volume_window must be >= 2''
      else if min_volume_samples < 2 \<or> volume_window < min_volume_samples
        then Err ''feature runtime min_volume_samples must be in [2, volume_window]''
      else and_then (new_factor_engine c) (\<lambda>factors.
        Ok \<lparr>le_plan = plan, le_factors = factors, le_candle_interval_ns = candle_interval_ns, le_volumes = [],
            le_volume_window = volume_window, le_min_volume_samples = min_volume_samples\<rparr>))"

definition live_subscriptions :: "asset_key \<Rightarrow> live_engine \<Rightarrow> feed_spec list" where
  "live_subscriptions instrument le = plan_subscriptions instrument (le_candle_interval_ns le) (le_plan le)"

definition insert_optional :: "feature_plan \<Rightarrow> string \<Rightarrow> f64 option \<Rightarrow> feature_frame \<Rightarrow> feature_frame" where
  "insert_optional plan name value frame =
     (if requires name plan then (case value of Some v \<Rightarrow> frame_insert name v frame | None \<Rightarrow> frame) else frame)"

definition insert_factor_snapshot :: "feature_plan \<Rightarrow> factor_snapshot \<Rightarrow> feature_frame \<Rightarrow> feature_frame" where
  "insert_factor_snapshot plan sn frame =
     fold (\<lambda>(name, value). insert_optional plan name value)
       [(''last_price'', fsn_last_price sn), (''vwap'', fsn_vwap sn), (''vwap_deviation_bps'', fsn_vwap_deviation_bps sn),
        (''trade_imbalance'', fsn_trade_imbalance sn), (''spread_bps'', fsn_spread_bps sn),
        (''book_imbalance'', fsn_book_imbalance sn), (''momentum_bps'', fsn_momentum_bps sn),
        (''realized_volatility_bps'', fsn_realized_volatility_bps sn), (''warmup_ratio'', Some (fsn_warmup_ratio sn)),
        (''score'', Some (fsn_score sn)), (''confidence'', Some (fsn_confidence sn))] frame"

definition insert_position_scalar :: "feature_plan \<Rightarrow> string \<Rightarrow> f64 option \<Rightarrow> feature_frame \<Rightarrow> feature_frame" where
  "insert_position_scalar plan name value frame =
     insert_optional plan (''position.'' @ name) value (insert_optional plan name value frame)"

definition insert_position_features ::
  "(decimal \<Rightarrow> f64 option) \<Rightarrow> feature_plan \<Rightarrow> position_view \<Rightarrow> feature_frame \<Rightarrow> feature_frame" where
  "insert_position_features to_f64 plan p frame =
     fold (\<lambda>(name, value). insert_position_scalar plan name value)
       [(''net_quantity'', to_f64 (pv_net_quantity p)),
        (''average_entry_price'', Option.bind (pv_average_entry_price p) to_f64),
        (''filled_entries'', Some (f64_of_nat (pv_filled_entries p))),
        (''unrealized_return'', pv_unrealized_return p), (''peak_return'', pv_peak_return p)] frame"

definition live_volume_ratio :: "live_engine \<Rightarrow> f64 option" where
  "live_volume_ratio le = window_volume_ratio (le_min_volume_samples le) (le_volumes le)"

definition live_snapshot :: "(decimal \<Rightarrow> f64 option) \<Rightarrow> libm \<Rightarrow> position_view \<Rightarrow> live_engine \<Rightarrow> feature_frame" where
  "live_snapshot to_f64 lm p le =
     insert_position_features to_f64 (le_plan le) p
       (insert_optional (le_plan le) ''volume_ratio'' (live_volume_ratio le)
         (insert_factor_snapshot (le_plan le) (fe_snapshot lm (le_factors le)) []))"

text \<open>The volume window of a candle; \<open>None\<close> where the event is dropped before the factor engine sees it.\<close>

definition live_volumes :: "(decimal \<Rightarrow> f64 option) \<Rightarrow> market_event \<Rightarrow> live_engine \<Rightarrow> live_engine option" where
  "live_volumes to_f64 e le =
     (case e of
        MCandle c \<Rightarrow>
          if cd_interval_ns c \<noteq> le_candle_interval_ns le then None
          else if requires ''volume_ratio'' (le_plan le)
          then (case to_f64 (cd_volume c) of
                  None \<Rightarrow> None
                | Some v \<Rightarrow>
                    Some (if is_finite v \<and> f64_le (Finite 0) v
                          then le\<lparr>le_volumes := push_window (le_volume_window le) v (le_volumes le)\<rparr> else le))
          else Some le
      | _ \<Rightarrow> Some le)"

definition live_on_event ::
  "(decimal \<Rightarrow> f64 option) \<Rightarrow> libm \<Rightarrow> market_event \<Rightarrow> position_view \<Rightarrow> live_engine \<Rightarrow> feature_frame option \<times> live_engine" where
  "live_on_event to_f64 lm e p le =
     (if \<not> requires_event e (le_plan le) then (None, le)
      else case live_volumes to_f64 e le of
        None \<Rightarrow> (None, le)
      | Some le1 \<Rightarrow>
          (case fe_on_event to_f64 lm e (le_factors le1) of
             (snapshot, factors) \<Rightarrow>
               let le2 = le1\<lparr>le_factors := factors\<rparr> in
               (case snapshot of None \<Rightarrow> (None, le2) | Some _ \<Rightarrow> (Some (live_snapshot to_f64 lm p le2), le2))))"

section \<open>Frames hold what the plan asked for\<close>

definition frame_ok :: "feature_plan \<Rightarrow> feature_frame \<Rightarrow> bool" where
  "frame_ok plan frame \<longleftrightarrow>
     om_sorted frame \<and> (\<forall>name v. om_get name frame = Some v \<longrightarrow> name \<in> fp_required_features plan \<and> is_finite v)"

lemma insert_optional_ok: "frame_ok plan frame \<Longrightarrow> frame_ok plan (insert_optional plan name value frame)"
  by (auto simp: frame_ok_def insert_optional_def frame_insert_def requires_def om_insert_sorted om_get_insert split: option.split if_splits)

lemma fold_optional_ok:
  "frame_ok plan frame \<Longrightarrow> frame_ok plan (fold (\<lambda>(name, value). insert_optional plan name value) kvs frame)"
  by (induction kvs arbitrary: frame) (auto simp: insert_optional_ok)

lemma fold_scalar_ok:
  "frame_ok plan frame \<Longrightarrow> frame_ok plan (fold (\<lambda>(name, value). insert_position_scalar plan name value) kvs frame)"
  by (induction kvs arbitrary: frame) (auto simp: insert_position_scalar_def insert_optional_ok)

lemma live_snapshot_ok: "frame_ok (le_plan le) (live_snapshot to_f64 lm p le)"
  unfolding live_snapshot_def insert_position_features_def insert_factor_snapshot_def
  by (intro fold_scalar_ok insert_optional_ok fold_optional_ok) (simp add: frame_ok_def om_sorted_def om_get_def)

lemma plan_loop_exact:
  "plan_loop reg fs feeds unresolved =
     (feeds \<union> (\<Union>f\<in>set fs. case reg f of Some needed \<Rightarrow> needed | None \<Rightarrow> {}), unresolved @ filter (\<lambda>f. reg f = None) fs)"
  by (induction fs arbitrary: feeds unresolved) (auto split: option.split)

lemma live_on_event_plan: "le_plan (snd (live_on_event to_f64 lm e p le)) = le_plan le"
  by (auto simp: live_on_event_def live_volumes_def Let_def split: market_event.splits option.splits prod.splits)

fun live_run :: "(decimal \<Rightarrow> f64 option) \<Rightarrow> libm \<Rightarrow> (market_event \<times> position_view) list \<Rightarrow> live_engine \<Rightarrow> feature_frame option list" where
  "live_run to_f64 lm [] le = []"
| "live_run to_f64 lm ((e, p) # es) le =
     (case live_on_event to_f64 lm e p le of (frame, le') \<Rightarrow> frame # live_run to_f64 lm es le')"

lemma live_run_ok: "Some frame \<in> set (live_run to_f64 lm es le) \<Longrightarrow> frame_ok (le_plan le) frame"
proof (induction to_f64 lm es le rule: live_run.induct)
  case (2 to_f64 lm e p es le)
  obtain out le' where out: "live_on_event to_f64 lm e p le = (out, le')" by (cases "live_on_event to_f64 lm e p le")
  have plan: "le_plan le' = le_plan le" using live_on_event_plan [of to_f64 lm e p le] by (simp add: out)
  show ?case
  proof (cases "out = Some frame")
    case True
    then obtain l where "frame = live_snapshot to_f64 lm p l" "le_plan l = le_plan le"
      using out live_on_event_plan [of to_f64 lm e p le]
      by (auto simp: live_on_event_def Let_def split: if_splits option.splits prod.splits)
    with live_snapshot_ok [of l to_f64 lm p] show ?thesis by simp
  next
    case False
    with "2.prems" out have "Some frame \<in> set (live_run to_f64 lm es le')" by auto
    from "2.IH" [OF out [symmetric] this] plan show ?thesis by simp
  qed
qed simp

text \<open>
  A plan is made exactly when every required feature has a provider. It then subscribes to exactly the feeds
  the features need, each once; and whatever events arrive, a frame published from it holds finite values of
  required features only.
\<close>

theorem feature_plan_exact:
  assumes "finite required"
  shows "(feature_plan_for reg required = Ok plan \<longleftrightarrow>
        required \<subseteq> dom reg \<and> plan = \<lparr>fp_required_features = required, fp_feeds = (\<Union>f\<in>required. the (reg f))\<rparr>)
    \<and> distinct (plan_subscriptions instrument interval plan)
    \<and> set (plan_subscriptions instrument interval plan) =
        (\<lambda>r. \<lparr>fs_venue = ak_venue instrument, fs_asset = ak_asset instrument, fs_kind = feed_kind_of interval r\<rparr>) ` fp_feeds plan
    \<and> (\<forall>c vw ms le es frame. new_live_engine plan c interval vw ms = Ok le \<and> Some frame \<in> set (live_run to_f64 lm es le) \<longrightarrow>
        (\<forall>name v. frame_get name frame = Some v \<longrightarrow> name \<in> fp_required_features plan \<and> is_finite v))"
proof (intro conjI allI impI)
  have empty: "filter (\<lambda>f. reg f = None) (sorted_list_of_set required) = [] \<longleftrightarrow> required \<subseteq> dom reg"
    using assms by (auto simp: filter_empty_conv)
  have "(\<Union>f\<in>required. case reg f of Some needed \<Rightarrow> needed | None \<Rightarrow> {}) = (\<Union>f\<in>required. the (reg f))" if "required \<subseteq> dom reg"
    using that by (intro SUP_cong) (auto split: option.split)
  then show "feature_plan_for reg required = Ok plan \<longleftrightarrow>
        required \<subseteq> dom reg \<and> plan = \<lparr>fp_required_features = required, fp_feeds = (\<Union>f\<in>required. the (reg f))\<rparr>"
    using assms empty by (auto simp: feature_plan_for_def plan_loop_exact)
  have inj: "inj (\<lambda>r. \<lparr>fs_venue = ak_venue instrument, fs_asset = ak_asset instrument, fs_kind = feed_kind_of interval r\<rparr>)"
  proof (rule injI)
    fix x y
    assume "\<lparr>fs_venue = ak_venue instrument, fs_asset = ak_asset instrument, fs_kind = feed_kind_of interval x\<rparr> =
      \<lparr>fs_venue = ak_venue instrument, fs_asset = ak_asset instrument, fs_kind = feed_kind_of interval y\<rparr>"
    then show "x = y" by (cases x; cases y) simp_all
  qed
  show "distinct (plan_subscriptions instrument interval plan)"
    unfolding plan_subscriptions_def distinct_map using inj by (auto simp: all_requirements_def inj_on_def inj_def)
  have "r \<in> set all_requirements" for r by (cases r) (simp_all add: all_requirements_def)
  then show "set (plan_subscriptions instrument interval plan) =
        (\<lambda>r. \<lparr>fs_venue = ak_venue instrument, fs_asset = ak_asset instrument, fs_kind = feed_kind_of interval r\<rparr>) ` fp_feeds plan"
    by (auto simp: plan_subscriptions_def)
  fix c vw ms le es frame name v
  assume run: "new_live_engine plan c interval vw ms = Ok le \<and> Some frame \<in> set (live_run to_f64 lm es le)" "frame_get name frame = Some v"
  then have "le_plan le = plan" by (auto simp: new_live_engine_def outcome_simps split: if_splits)
  with live_run_ok [of frame to_f64 lm es le] run show "name \<in> fp_required_features plan" "is_finite v"
    by (auto simp: frame_ok_def frame_get_def)
qed

theorem feature_plan_exact_witness:
  "feature_plan_for standard_registry {''spread_bps''} =
     Ok \<lparr>fp_required_features = {''spread_bps''}, fp_feeds = {FrBestBidAsk}\<rparr>
   \<and> plan_subscriptions (AssetKey Hyperliquid ''HYPE'') 300 \<lparr>fp_required_features = {''spread_bps''}, fp_feeds = {FrBestBidAsk}\<rparr> =
     [\<lparr>fs_venue = Hyperliquid, fs_asset = ''HYPE'', fs_kind = FkBestBidAsk\<rparr>]"
proof -
  have reg: "standard_registry ''spread_bps'' = Some {FrBestBidAsk}"
    by (simp add: standard_registry_def standard_providers_def register_provider_def)
  have "{''spread_bps''} \<subseteq> dom standard_registry" "(\<Union>f\<in>{''spread_bps''}. the (standard_registry f)) = {FrBestBidAsk}"
    using reg by auto
  with feature_plan_exact [of "{''spread_bps''}" standard_registry "\<lparr>fp_required_features = {''spread_bps''}, fp_feeds = {FrBestBidAsk}\<rparr>"]
  show ?thesis by (simp add: plan_subscriptions_def all_requirements_def)
qed

end
