(* ===== verification/StrategyDefs.thy ===== *)
theory StrategyDefs
  imports Automation Features Subscriptions
begin

text \<open>
  Strategy definitions, \<open>rust/crates/pg-strategy/src/definition.rs\<close>: universe, template and overrides, their
  validation, and the strategy and policy instances they build. \<open>dec\<close> is \<open>Decimal::from_str\<close>, with the text
  of its error, and \<open>toml\<close> the TOML decoder, which fills in the declared defaults.
\<close>

section \<open>Data\<close>

datatype definition_error = DefToml | DefInvalid string

record dynamic_universe =
  du_venue :: venue
  du_top_n :: nat
  du_min_day_notional_volume :: "string option"
  du_min_open_interest :: "string option"
  du_max_spread_bps :: "string option"
  du_min_price :: "string option"
  du_max_price :: "string option"
  du_include_symbols :: "string list"
  du_exclude_symbols :: "string list"

record universe_definition =
  ud_venue :: "venue option"
  ud_assets :: "string list"
  ud_instruments :: "(venue \<times> string) list"
  ud_dynamic :: "dynamic_universe list"

record strategy_template =
  td_id :: string
  td_order_quantity :: string
  td_entry_score :: f64
  td_exit_score :: f64
  td_allow_short :: bool

record factor_overrides =
  fo_trade_window :: "nat option"
  fo_candle_window :: "nat option"
  fo_book_levels :: "nat option"
  fo_min_trade_samples :: "nat option"
  fo_min_candle_samples :: "nat option"
  fo_max_spread_bps :: "f64 option"
  fo_volatility_soft_cap_bps :: "f64 option"
  fo_vwap_scale_bps :: "f64 option"
  fo_momentum_scale_bps :: "f64 option"
  fo_vwap_weight :: "f64 option"
  fo_trade_imbalance_weight :: "f64 option"
  fo_book_imbalance_weight :: "f64 option"
  fo_momentum_weight :: "f64 option"

record automation_overrides =
  av_candle_interval_ns :: "u64 option"
  av_signal_horizon_ms :: "u64 option"
  av_signal_ttl_ms :: "u64 option"
  av_min_confidence :: "f64 option"
  av_min_emit_interval_ns :: "u64 option"
  av_alpha_id :: "string option"
  av_factors :: factor_overrides
  av_entry_filter :: entry_filter_config

record strategy_definition =
  sd_schema_version :: string
  sd_enabled :: bool
  sd_universe :: universe_definition
  sd_strategy :: strategy_template
  sd_automation :: automation_overrides
  sd_policy :: policy_definition

record policy_instance =
  pi_strategy_id :: string
  pi_instrument :: asset_key
  pi_engine :: policy_definition
  pi_features :: live_engine
  pi_order_quantity :: decimal
  pi_allow_short :: bool

definition is_policy_driven :: "policy_instance \<Rightarrow> bool" where
  "is_policy_driven p = is_defined (pi_engine p)"

definition policy_instance_subscriptions :: "policy_instance \<Rightarrow> feed_spec list" where
  "policy_instance_subscriptions p = live_subscriptions (pi_instrument p) (pi_features p)"

section \<open>Universes\<close>

fun venue_label :: "venue \<Rightarrow> string" where
  "venue_label BinancePm = ''BINANCE_PM''"
| "venue_label Hyperliquid = ''HYPERLIQUID''"
| "venue_label InteractiveBrokers = ''IBKR''"

fun normalized_symbols :: "string list \<Rightarrow> (definition_error, string set) outcome" where
  "normalized_symbols [] = Ok {}"
| "normalized_symbols (v # vs) =
     (if trim v = [] then Err (DefInvalid ''dynamic universe symbol filters cannot contain empty values'')
      else and_then (normalized_symbols vs) (\<lambda>rest. Ok (insert (trim v) rest)))"

definition decimal_option ::
  "(string \<Rightarrow> (string, decimal) outcome) \<Rightarrow> string \<Rightarrow> string option \<Rightarrow> (definition_error, decimal option) outcome" where
  "decimal_option dec field value =
     (case value of
        None \<Rightarrow> Ok None
      | Some v \<Rightarrow>
          and_then (map_error (\<lambda>e. DefInvalid (''invalid dynamic universe '' @ field @ ''='' @ v @ '': '' @ e)) (dec (trim v)))
            (\<lambda>d. Ok (Some d)))"

definition dynamic_filter ::
  "(string \<Rightarrow> (string, decimal) outcome) \<Rightarrow> dynamic_universe \<Rightarrow> (definition_error, universe_filter) outcome" where
  "dynamic_filter dec u =
     (if du_top_n u = 0 \<or> 500 < du_top_n u
      then Err (DefInvalid (''dynamic universe top_n for '' @ debug_venue (du_venue u) @ '' must be in [1, 500]''))
      else if du_venue u = InteractiveBrokers \<and> 50 < du_top_n u
      then Err (DefInvalid ''IBKR TWS scanner-backed dynamic universe top_n must be <= 50'')
      else and_then (decimal_option dec ''min_day_notional_volume'' (du_min_day_notional_volume u)) (\<lambda>volume.
           and_then (decimal_option dec ''min_open_interest'' (du_min_open_interest u)) (\<lambda>interest.
           and_then (decimal_option dec ''max_spread_bps'' (du_max_spread_bps u)) (\<lambda>spread.
           and_then (decimal_option dec ''min_price'' (du_min_price u)) (\<lambda>min_price.
           and_then (decimal_option dec ''max_price'' (du_max_price u)) (\<lambda>max_price.
           and_then (normalized_symbols (du_include_symbols u)) (\<lambda>include.
           and_then (normalized_symbols (du_exclude_symbols u)) (\<lambda>exclude.
             Ok \<lparr>uf_min_day_notional_volume = volume, uf_min_open_interest = interest, uf_max_spread_bps = spread,
                 uf_min_price = min_price, uf_max_price = max_price, uf_include_symbols = include,
                 uf_exclude_symbols = exclude, uf_top_n = Some (du_top_n u)\<rparr>))))))))"

definition universe_is_dynamic :: "universe_definition \<Rightarrow> bool" where
  "universe_is_dynamic u \<longleftrightarrow> ud_dynamic u \<noteq> []"

fun check_sources ::
  "(string \<Rightarrow> (string, decimal) outcome) \<Rightarrow> dynamic_universe list \<Rightarrow> venue set \<Rightarrow> (definition_error, unit) outcome" where
  "check_sources dec [] venues = Ok ()"
| "check_sources dec (s # ss) venues =
     and_then (dynamic_filter dec s) (\<lambda>_.
       if du_venue s \<in> venues
       then Err (DefInvalid (''duplicate dynamic universe source for '' @ debug_venue (du_venue s)))
       else check_sources dec ss (insert (du_venue s) venues))"

definition validate_shape ::
  "(string \<Rightarrow> (string, decimal) outcome) \<Rightarrow> universe_definition \<Rightarrow> (definition_error, unit) outcome" where
  "validate_shape dec u =
     (let legacy = (ud_venue u \<noteq> None \<or> ud_assets u \<noteq> []);
          standard = (ud_instruments u \<noteq> []);
          dynamic = universe_is_dynamic u
      in if of_bool legacy + of_bool standard + of_bool dynamic \<noteq> (1 :: nat)
         then Err (DefInvalid ''universe must use exactly one of venue+assets, instruments, or dynamic sources'')
         else if dynamic then check_sources dec (ud_dynamic u) {} else Ok ())"

fun check_instruments :: "asset_key list \<Rightarrow> asset_key set \<Rightarrow> (definition_error, unit) outcome" where
  "check_instruments [] seen = Ok ()"
| "check_instruments (k # ks) seen =
     (if is_blank (ak_asset k) then Err (DefInvalid ''universe instrument asset must not be empty'')
      else if k \<in> seen
      then Err (DefInvalid (''duplicate universe instrument '' @ venue_label (ak_venue k) @ '':'' @ ak_asset k))
      else check_instruments ks (insert k seen))"

definition validate_instruments :: "asset_key list \<Rightarrow> (definition_error, unit) outcome" where
  "validate_instruments ks =
     (if ks = [] then Err (DefInvalid ''universe must contain at least one instrument'') else check_instruments ks {})"

definition resolved_instruments ::
  "(string \<Rightarrow> (string, decimal) outcome) \<Rightarrow> universe_definition \<Rightarrow> (definition_error, asset_key list) outcome" where
  "resolved_instruments dec u =
     and_then (validate_shape dec u) (\<lambda>_.
       if universe_is_dynamic u then Ok []
       else and_then
         (if ud_instruments u \<noteq> [] then Ok (map (\<lambda>(v, a). AssetKey v (trim a)) (ud_instruments u))
          else and_then (ok_or (ud_venue u) (DefInvalid ''legacy universe requires venue when assets are used'')) (\<lambda>v.
            if ud_assets u = [] then Err (DefInvalid ''universe.assets must not be empty'')
            else Ok (map (\<lambda>a. AssetKey v (trim a)) (ud_assets u))))
         (\<lambda>ks. and_then (validate_instruments ks) (\<lambda>_. Ok ks)))"

section \<open>Definitions\<close>

definition order_quantity_of ::
  "(string \<Rightarrow> (string, decimal) outcome) \<Rightarrow> strategy_definition \<Rightarrow> (definition_error, decimal) outcome" where
  "order_quantity_of dec d =
     map_error (\<lambda>e. DefInvalid (''invalid order_quantity: '' @ e)) (dec (trim (td_order_quantity (sd_strategy d))))"

definition definition_validate ::
  "(string \<Rightarrow> (string, decimal) outcome) \<Rightarrow> strategy_definition \<Rightarrow> (definition_error, unit) outcome" where
  "definition_validate dec d =
     (if sd_schema_version d \<noteq> ''strategy.v1''
      then Err (DefInvalid (''unsupported schema_version '' @ sd_schema_version d @ ''; expected strategy.v1''))
      else if is_blank (td_id (sd_strategy d)) then Err (DefInvalid ''strategy.id must not be empty'')
      else and_then (order_quantity_of dec d) (\<lambda>quantity.
        if quantity \<le> 0 then Err (DefInvalid ''order_quantity must be positive'')
        else and_then (validate_shape dec (sd_universe d)) (\<lambda>_.
             and_then (if universe_is_dynamic (sd_universe d) then Ok []
                       else resolved_instruments dec (sd_universe d)) (\<lambda>_.
             map_error DefInvalid (policy_validate (sd_policy d))))))"

definition definition_from_toml ::
  "(string \<Rightarrow> strategy_definition option) \<Rightarrow> (string \<Rightarrow> (string, decimal) outcome) \<Rightarrow> string \<Rightarrow>
     (definition_error, strategy_definition) outcome" where
  "definition_from_toml toml dec input =
     and_then (ok_or (toml input) DefToml) (\<lambda>d. and_then (definition_validate dec d) (\<lambda>_. Ok d))"

definition definition_is_dynamic :: "strategy_definition \<Rightarrow> bool" where
  "definition_is_dynamic d = universe_is_dynamic (sd_universe d)"

fun check_candles :: "u64 \<Rightarrow> asset_key list \<Rightarrow> (definition_error, unit) outcome" where
  "check_candles configured [] = Ok ()"
| "check_candles configured (k # ks) =
     (if \<not> candle_interval_supported (ak_venue k) configured
      then Err (DefInvalid (''venue '' @ debug_venue (ak_venue k) @ '' cannot serve candle interval ''
        @ describe_candle_interval configured @ '' ('' @ show_nat (unat configured) @ '' ns); supported: ''
        @ describe_candle_intervals (ak_venue k)))
      else check_candles configured ks)"

definition validate_candle_contract_for :: "strategy_definition \<Rightarrow> asset_key list \<Rightarrow> (definition_error, unit) outcome" where
  "validate_candle_contract_for d ks =
     (case av_candle_interval_ns (sd_automation d) of None \<Rightarrow> Ok () | Some configured \<Rightarrow> check_candles configured ks)"

definition or_else :: "'a option \<Rightarrow> 'a \<Rightarrow> 'a" where
  "or_else x y = (case x of Some v \<Rightarrow> v | None \<Rightarrow> y)"

definition apply_overrides :: "factor_overrides \<Rightarrow> factor_config \<Rightarrow> factor_config" where
  "apply_overrides f c =
     \<lparr>fc_trade_window = or_else (fo_trade_window f) (fc_trade_window c),
      fc_candle_window = or_else (fo_candle_window f) (fc_candle_window c),
      fc_book_levels = or_else (fo_book_levels f) (fc_book_levels c),
      fc_min_trade_samples = or_else (fo_min_trade_samples f) (fc_min_trade_samples c),
      fc_min_candle_samples = or_else (fo_min_candle_samples f) (fc_min_candle_samples c),
      fc_max_spread_bps = or_else (fo_max_spread_bps f) (fc_max_spread_bps c),
      fc_volatility_soft_cap_bps = or_else (fo_volatility_soft_cap_bps f) (fc_volatility_soft_cap_bps c),
      fc_vwap_scale_bps = or_else (fo_vwap_scale_bps f) (fc_vwap_scale_bps c),
      fc_momentum_scale_bps = or_else (fo_momentum_scale_bps f) (fc_momentum_scale_bps c),
      fc_vwap_weight = or_else (fo_vwap_weight f) (fc_vwap_weight c),
      fc_trade_imbalance_weight = or_else (fo_trade_imbalance_weight f) (fc_trade_imbalance_weight c),
      fc_book_imbalance_weight = or_else (fo_book_imbalance_weight f) (fc_book_imbalance_weight c),
      fc_momentum_weight = or_else (fo_momentum_weight f) (fc_momentum_weight c)\<rparr>"

definition resolved_automation :: "strategy_definition \<Rightarrow> (string, automation_config) outcome" where
  "resolved_automation d =
     (let base = default_automation_config; av = sd_automation d;
          c = \<lparr>ac_factors = apply_overrides (av_factors av) (ac_factors base),
               ac_candle_interval_ns = or_else (av_candle_interval_ns av) (ac_candle_interval_ns base),
               ac_signal_horizon_ms = or_else (av_signal_horizon_ms av) (ac_signal_horizon_ms base),
               ac_signal_ttl_ms = or_else (av_signal_ttl_ms av) (ac_signal_ttl_ms base),
               ac_min_confidence = or_else (av_min_confidence av) (ac_min_confidence base),
               ac_min_emit_interval_ns = or_else (av_min_emit_interval_ns av) (ac_min_emit_interval_ns base),
               ac_alpha_id = or_else (av_alpha_id av) (ac_alpha_id base),
               ac_entry_filter = av_entry_filter av\<rparr>
      in and_then (automation_validate c) (\<lambda>_. Ok c))"

definition resolved_candle_interval :: "strategy_definition \<Rightarrow> venue \<Rightarrow> (definition_error, u64) outcome" where
  "resolved_candle_interval d v =
     (case av_candle_interval_ns (sd_automation d) of
        Some i \<Rightarrow> Ok i
      | None \<Rightarrow> map_error (\<lambda>_. DefToml) (default_candle_interval v))"

definition instance_identities :: "strategy_definition \<Rightarrow> asset_key list \<Rightarrow> bool \<Rightarrow> (string \<times> asset_key) list" where
  "instance_identities d ks force_scoped =
     (let multi = 1 < length ks; multi_venue = 1 < card (ak_venue ` set ks) in
      map (\<lambda>k. (if force_scoped \<or> multi_venue then td_id (sd_strategy d) @ '':'' @ venue_label (ak_venue k) @ '':'' @ ak_asset k
                else if multi then td_id (sd_strategy d) @ '':'' @ ak_asset k
                else td_id (sd_strategy d), k)) ks)"

section \<open>Building instances\<close>

fun build_strategies ::
  "strategy_definition \<Rightarrow> decimal \<Rightarrow> automation_config \<Rightarrow> (string \<times> asset_key) list \<Rightarrow>
     (definition_error, automated_strategy list) outcome" where
  "build_strategies d quantity automation [] = Ok []"
| "build_strategies d quantity automation ((sid, k) # rest) =
     and_then (resolved_candle_interval d (ak_venue k)) (\<lambda>interval.
     and_then (map_error DefInvalid
         (new_automated \<lparr>sc_strategy_id = sid, sc_asset = ak_asset k, sc_venue = ak_venue k, sc_order_quantity = quantity,
             sc_entry_score = td_entry_score (sd_strategy d), sc_exit_score = td_exit_score (sd_strategy d),
             sc_allow_short = td_allow_short (sd_strategy d)\<rparr>
           (automation\<lparr>ac_candle_interval_ns := interval\<rparr>))) (\<lambda>a.
     and_then (build_strategies d quantity automation rest) (\<lambda>as. Ok (a # as))))"

definition build_instances_from ::
  "(string \<Rightarrow> (string, decimal) outcome) \<Rightarrow> strategy_definition \<Rightarrow> asset_key list \<Rightarrow> bool \<Rightarrow>
     (definition_error, automated_strategy list) outcome" where
  "build_instances_from dec d ks force_scoped =
     and_then (definition_validate dec d) (\<lambda>_.
     and_then (validate_instruments ks) (\<lambda>_.
     and_then (validate_candle_contract_for d ks) (\<lambda>_.
     and_then (order_quantity_of dec d) (\<lambda>quantity.
     and_then (map_error DefInvalid (resolved_automation d)) (\<lambda>automation.
       build_strategies d quantity automation (instance_identities d ks force_scoped))))))"

definition build_instances ::
  "(string \<Rightarrow> (string, decimal) outcome) \<Rightarrow> strategy_definition \<Rightarrow> (definition_error, automated_strategy list) outcome" where
  "build_instances dec d =
     (if \<not> sd_enabled d \<or> definition_is_dynamic d then Ok []
      else and_then (resolved_instruments dec (sd_universe d)) (\<lambda>ks. build_instances_from dec d ks False))"

fun check_selection :: "venue set \<Rightarrow> asset_key list \<Rightarrow> (definition_error, unit) outcome" where
  "check_selection allowed [] = Ok ()"
| "check_selection allowed (k # ks) =
     (if ak_venue k \<notin> allowed
      then Err (DefInvalid (''dynamic selection contains venue '' @ debug_venue (ak_venue k) @ '' not declared by template''))
      else check_selection allowed ks)"

definition validate_dynamic_selection :: "strategy_definition \<Rightarrow> asset_key list \<Rightarrow> (definition_error, unit) outcome" where
  "validate_dynamic_selection d ks =
     and_then (validate_instruments ks) (\<lambda>_. check_selection (set (map du_venue (ud_dynamic (sd_universe d)))) ks)"

definition build_instances_for ::
  "(string \<Rightarrow> (string, decimal) outcome) \<Rightarrow> strategy_definition \<Rightarrow> asset_key list \<Rightarrow>
     (definition_error, automated_strategy list) outcome" where
  "build_instances_for dec d ks =
     (if \<not> sd_enabled d then Ok []
      else if \<not> definition_is_dynamic d then Err (DefInvalid ''build_instances_for requires a dynamic universe template'')
      else and_then (validate_dynamic_selection d ks) (\<lambda>_. build_instances_from dec d ks True))"

definition policy_feature_plan :: "strategy_definition \<Rightarrow> (definition_error, feature_plan) outcome" where
  "policy_feature_plan d = map_error DefInvalid (feature_plan_for standard_registry (required_features (sd_policy d)))"

fun build_policies ::
  "strategy_definition \<Rightarrow> policy_definition \<Rightarrow> feature_plan \<Rightarrow> decimal \<Rightarrow> automation_config \<Rightarrow> (string \<times> asset_key) list \<Rightarrow>
     (definition_error, policy_instance list) outcome" where
  "build_policies d engine plan quantity automation [] = Ok []"
| "build_policies d engine plan quantity automation ((sid, k) # rest) =
     and_then (resolved_candle_interval d (ak_venue k)) (\<lambda>interval.
     and_then (map_error DefInvalid (new_live_engine plan (ac_factors automation) interval
         (ef_volume_window (ac_entry_filter automation)) (ef_min_volume_samples (ac_entry_filter automation)))) (\<lambda>features.
     and_then (build_policies d engine plan quantity automation rest) (\<lambda>ps.
       Ok (\<lparr>pi_strategy_id = sid, pi_instrument = k, pi_engine = engine, pi_features = features,
            pi_order_quantity = quantity, pi_allow_short = td_allow_short (sd_strategy d)\<rparr> # ps))))"

definition build_policy_instances_from ::
  "(string \<Rightarrow> (string, decimal) outcome) \<Rightarrow> strategy_definition \<Rightarrow> asset_key list \<Rightarrow> bool \<Rightarrow>
     (definition_error, policy_instance list) outcome" where
  "build_policy_instances_from dec d ks force_scoped =
     and_then (definition_validate dec d) (\<lambda>_.
     and_then (validate_instruments ks) (\<lambda>_.
     and_then (validate_candle_contract_for d ks) (\<lambda>_.
     and_then (map_error DefInvalid (compile (sd_policy d))) (\<lambda>engine.
     and_then (policy_feature_plan d) (\<lambda>plan.
     and_then (order_quantity_of dec d) (\<lambda>quantity.
     and_then (map_error DefInvalid (resolved_automation d)) (\<lambda>automation.
       build_policies d engine plan quantity automation (instance_identities d ks force_scoped))))))))"

definition build_policy_instances ::
  "(string \<Rightarrow> (string, decimal) outcome) \<Rightarrow> strategy_definition \<Rightarrow> (definition_error, policy_instance list) outcome" where
  "build_policy_instances dec d =
     (if \<not> sd_enabled d \<or> definition_is_dynamic d then Ok []
      else and_then (resolved_instruments dec (sd_universe d)) (\<lambda>ks. build_policy_instances_from dec d ks False))"

definition build_policy_instances_for ::
  "(string \<Rightarrow> (string, decimal) outcome) \<Rightarrow> strategy_definition \<Rightarrow> asset_key list \<Rightarrow>
     (definition_error, policy_instance list) outcome" where
  "build_policy_instances_for dec d ks =
     (if \<not> sd_enabled d then Ok []
      else if \<not> definition_is_dynamic d then Err (DefInvalid ''build_policy_instances_for requires a dynamic universe template'')
      else and_then (validate_dynamic_selection d ks) (\<lambda>_. build_policy_instances_from dec d ks True))"

definition build_policy_engines ::
  "(string \<Rightarrow> (string, decimal) outcome) \<Rightarrow> strategy_definition \<Rightarrow>
     (definition_error, (asset_key \<times> policy_definition) list) outcome" where
  "build_policy_engines dec d =
     and_then (build_policy_instances dec d) (\<lambda>ps. Ok (map (\<lambda>p. (pi_instrument p, pi_engine p)) ps))"

section \<open>Identities\<close>

lemma check_instruments_ok:
  "check_instruments ks seen = Ok () \<Longrightarrow> distinct ks \<and> set ks \<inter> seen = {} \<and> (\<forall>k\<in>set ks. \<not> is_blank (ak_asset k))"
  by (induction ks seen rule: check_instruments.induct) (auto split: if_splits)

lemma validate_instruments_ok:
  "validate_instruments ks = Ok () \<Longrightarrow> ks \<noteq> [] \<and> distinct ks \<and> (\<forall>k\<in>set ks. \<not> is_blank (ak_asset k))"
  using check_instruments_ok [of ks "{}"] by (auto simp: validate_instruments_def split: if_splits)

lemma venue_label_prefix:
  "venue_label v @ CHR '':'' # x = venue_label w @ CHR '':'' # y \<Longrightarrow> v = w \<and> x = y"
  by (cases v; cases w) simp_all

lemma single_venue:
  assumes "\<not> 1 < card (ak_venue ` set ks)" "k \<in> set ks" "k' \<in> set ks"
  shows "ak_venue k = ak_venue k'"
proof (rule ccontr)
  assume "ak_venue k \<noteq> ak_venue k'"
  then have "card {ak_venue k, ak_venue k'} = 2" by simp
  moreover have "card {ak_venue k, ak_venue k'} \<le> card (ak_venue ` set ks)"
    using assms(2,3) by (intro card_mono) auto
  ultimately show False using assms(1) by simp
qed

lemma instance_identities_distinct:
  assumes "distinct ks"
  shows "distinct (map fst (instance_identities d ks scoped)) \<and> map snd (instance_identities d ks scoped) = ks"
proof -
  consider (scoped) "scoped \<or> 1 < card (ak_venue ` set ks)" | (multi) "\<not> (scoped \<or> 1 < card (ak_venue ` set ks))" "1 < length ks"
    | (one) "\<not> (scoped \<or> 1 < card (ak_venue ` set ks))" "length ks \<le> 1" by linarith
  then have "distinct (map fst (instance_identities d ks scoped))"
  proof cases
    case scoped
    have "inj_on (\<lambda>k. td_id (sd_strategy d) @ '':'' @ venue_label (ak_venue k) @ '':'' @ ak_asset k) (set ks)"
      by (rule inj_onI) (auto dest!: venue_label_prefix intro: asset_key.expand)
    with scoped assms show ?thesis by (simp add: instance_identities_def comp_def distinct_map)
  next
    case multi
    have "inj_on (\<lambda>k. td_id (sd_strategy d) @ '':'' @ ak_asset k) (set ks)"
    proof (rule inj_onI)
      fix x y
      assume xy: "x \<in> set ks" "y \<in> set ks"
        "td_id (sd_strategy d) @ '':'' @ ak_asset x = td_id (sd_strategy d) @ '':'' @ ak_asset y"
      from multi(1) have "ak_venue x = ak_venue y" using single_venue [OF _ xy(1,2)] by blast
      with xy(3) show "x = y" by (intro asset_key.expand) simp
    qed
    with multi assms show ?thesis by (simp add: instance_identities_def comp_def distinct_map)
  next
    case one
    then show ?thesis by (cases ks) (auto simp: instance_identities_def)
  qed
  then show ?thesis by (simp add: instance_identities_def comp_def)
qed

section \<open>What is built\<close>

definition built_for :: "strategy_definition \<Rightarrow> decimal \<Rightarrow> string \<times> asset_key \<Rightarrow> automated_strategy \<Rightarrow> bool" where
  "built_for d quantity p a \<longleftrightarrow>
     sm_config (as_machine a) =
       \<lparr>sc_strategy_id = fst p, sc_asset = ak_asset (snd p), sc_venue = ak_venue (snd p), sc_order_quantity = quantity,
        sc_entry_score = td_entry_score (sd_strategy d), sc_exit_score = td_exit_score (sd_strategy d),
        sc_allow_short = td_allow_short (sd_strategy d)\<rparr>
     \<and> strategy_validate (sm_config (as_machine a)) = Ok () \<and> automation_validate (as_config a) = Ok ()
     \<and> sm_state (as_machine a) = default_strategy_state
     \<and> resolved_candle_interval d (ak_venue (snd p)) = Ok (ac_candle_interval_ns (as_config a))"

lemma new_automated_ok:
  "new_automated sc c = Ok a \<Longrightarrow> sm_config (as_machine a) = sc \<and> sm_state (as_machine a) = default_strategy_state \<and> as_config a = c
     \<and> strategy_validate sc = Ok () \<and> automation_validate c = Ok ()"
  by (auto simp: new_automated_def new_machine_def outcome_simps)

lemma build_strategies_ok:
  "build_strategies d quantity automation ids = Ok as \<Longrightarrow> list_all2 (built_for d quantity) ids as"
proof (induction ids arbitrary: as)
  case (Cons p ids)
  obtain sid k where p: "p = (sid, k)" by (cases p)
  from Cons.prems p obtain interval a rest where
      iv: "resolved_candle_interval d (ak_venue k) = Ok interval" and
      a: "new_automated \<lparr>sc_strategy_id = sid, sc_asset = ak_asset k, sc_venue = ak_venue k, sc_order_quantity = quantity,
             sc_entry_score = td_entry_score (sd_strategy d), sc_exit_score = td_exit_score (sd_strategy d),
             sc_allow_short = td_allow_short (sd_strategy d)\<rparr> (automation\<lparr>ac_candle_interval_ns := interval\<rparr>) = Ok a" and
      rest: "build_strategies d quantity automation ids = Ok rest" "as = a # rest"
    by (auto simp: outcome_simps)
  from new_automated_ok [OF a] iv have "built_for d quantity p a" by (simp add: built_for_def p)
  with Cons.IH [OF rest(1)] rest(2) show ?case by simp
qed simp

lemma build_policies_ok:
  "build_policies d engine plan quantity automation ids = Ok ps \<Longrightarrow>
     list_all2 (\<lambda>q p. pi_strategy_id p = fst q \<and> pi_instrument p = snd q \<and> pi_engine p = engine \<and> pi_order_quantity p = quantity
       \<and> pi_allow_short p = td_allow_short (sd_strategy d) \<and> le_plan (pi_features p) = plan) ids ps"
proof (induction ids arbitrary: ps)
  case (Cons q ids)
  obtain sid k where q: "q = (sid, k)" by (cases q)
  from Cons.prems q obtain interval features rest where
      f: "new_live_engine plan (ac_factors automation) interval (ef_volume_window (ac_entry_filter automation))
        (ef_min_volume_samples (ac_entry_filter automation)) = Ok features" and
      rest: "build_policies d engine plan quantity automation ids = Ok rest"
        "ps = \<lparr>pi_strategy_id = sid, pi_instrument = k, pi_engine = engine, pi_features = features,
            pi_order_quantity = quantity, pi_allow_short = td_allow_short (sd_strategy d)\<rparr> # rest"
    by (auto simp: outcome_simps)
  from f have "le_plan features = plan" by (auto simp: new_live_engine_def outcome_simps split: if_splits)
  with Cons.IH [OF rest(1)] rest(2) q show ?case by simp
qed simp

lemma check_candles_ok: "check_candles i ks = Ok () \<Longrightarrow> k \<in> set ks \<Longrightarrow> candle_interval_supported (ak_venue k) i"
  by (induction i ks rule: check_candles.induct) (auto split: if_splits)

lemma resolved_interval_supported:
  assumes "validate_candle_contract_for d ks = Ok ()" "k \<in> set ks" "resolved_candle_interval d (ak_venue k) = Ok i"
  shows "candle_interval_supported (ak_venue k) i"
proof (cases "av_candle_interval_ns (sd_automation d)")
  case None
  with assms(3) have "default_candle_interval (ak_venue k) = Ok i" by (simp add: resolved_candle_interval_def map_error_eq_Ok)
  then show ?thesis by (cases "ak_venue k")
    (auto simp: default_candle_interval_def candle_interval_supported_def hyperliquid_candle_intervals_ns_def
      ibkr_candle_intervals_ns_def binance_candle_intervals_ns_def)
next
  case (Some j)
  with assms show ?thesis by (auto simp: validate_candle_contract_for_def resolved_candle_interval_def dest: check_candles_ok)
qed

definition strategy_id_of :: "automated_strategy \<Rightarrow> string" where
  "strategy_id_of a = sc_strategy_id (sm_config (as_machine a))"

definition instrument_of :: "automated_strategy \<Rightarrow> asset_key" where
  "instrument_of a = AssetKey (sc_venue (sm_config (as_machine a))) (sc_asset (sm_config (as_machine a)))"

lemma build_instances_from_parts:
  assumes "build_instances_from dec d ks scoped = Ok as"
  obtains quantity where "validate_instruments ks = Ok ()" "validate_candle_contract_for d ks = Ok ()" "0 < quantity"
    "list_all2 (built_for d quantity) (instance_identities d ks scoped) as"
proof -
  from assms obtain quantity automation where
      parts: "definition_validate dec d = Ok ()" "validate_instruments ks = Ok ()" "validate_candle_contract_for d ks = Ok ()"
        "order_quantity_of dec d = Ok quantity"
        "build_strategies d quantity automation (instance_identities d ks scoped) = Ok as"
    by (auto simp: build_instances_from_def outcome_simps)
  have "0 < quantity" using parts(1,4) by (auto simp: definition_validate_def outcome_simps split: if_splits)
  with parts build_strategies_ok [OF parts(5)] show thesis by (intro that) auto
qed

lemma built_for_ids:
  assumes "list_all2 (built_for d quantity) ids as"
  shows "map strategy_id_of as = map fst ids" "map instrument_of as = map snd ids"
proof -
  show "map strategy_id_of as = map fst ids"
    using assms by (induction rule: list_all2_induct) (auto simp: built_for_def strategy_id_of_def)
  show "map instrument_of as = map snd ids"
    using assms by (induction rule: list_all2_induct) (auto simp: built_for_def instrument_of_def intro: asset_key.expand)
qed

text \<open>
  C33. A definition builds what it declares. When building succeeds, there is exactly one strategy per instrument,
  in order; their ids are pairwise different; each starts flat with no intent, with a validated positive
  order quantity and thresholds, and asks for a candle resolution its venue serves; and where the rule graph
  builds too, its instances carry the same ids for the same instruments.
\<close>

theorem definition_instances_exact:
  assumes "build_instances_from dec d ks scoped = Ok strategies"
  shows "map instrument_of strategies = ks \<and> distinct (map strategy_id_of strategies) \<and> ks \<noteq> []
    \<and> (\<forall>a\<in>set strategies. sm_state (as_machine a) = default_strategy_state
         \<and> 0 < sc_order_quantity (sm_config (as_machine a)) \<and> strategy_validate (sm_config (as_machine a)) = Ok ()
         \<and> candle_interval_supported (sc_venue (sm_config (as_machine a))) (ac_candle_interval_ns (as_config a)))
    \<and> (\<forall>ps. build_policy_instances_from dec d ks scoped = Ok ps \<longrightarrow>
         map pi_strategy_id ps = map strategy_id_of strategies \<and> map pi_instrument ps = ks)"
proof -
  from assms obtain quantity where b: "validate_instruments ks = Ok ()" "validate_candle_contract_for d ks = Ok ()" "0 < quantity"
      "list_all2 (built_for d quantity) (instance_identities d ks scoped) strategies"
    by (rule build_instances_from_parts)
  note valid = validate_instruments_ok [OF b(1)]
  from valid have ids: "distinct (map fst (instance_identities d ks scoped))" "map snd (instance_identities d ks scoped) = ks"
    using instance_identities_distinct by auto
  have each: "sm_state (as_machine a) = default_strategy_state
      \<and> 0 < sc_order_quantity (sm_config (as_machine a)) \<and> strategy_validate (sm_config (as_machine a)) = Ok ()
      \<and> candle_interval_supported (sc_venue (sm_config (as_machine a))) (ac_candle_interval_ns (as_config a))" if "a \<in> set strategies" for a
  proof -
    from that obtain i where i: "i < length strategies" "a = strategies ! i" by (auto simp: in_set_conv_nth)
    define p where "p = instance_identities d ks scoped ! i"
    have p: "p \<in> set (instance_identities d ks scoped)" "built_for d quantity p a"
      using i list_all2_lengthD [OF b(4)] list_all2_nthD2 [OF b(4) i(1)] by (auto simp: p_def)
    from p(1) ids(2) have "snd p \<in> set ks" using image_eqI [OF refl p(1), of snd] by (metis list.set_map)
    with p(2) resolved_interval_supported [OF b(2)] b(3) show ?thesis by (auto simp: built_for_def)
  qed
  have "map pi_strategy_id ps = map fst (instance_identities d ks scoped) \<and> map pi_instrument ps = ks"
    if "build_policy_instances_from dec d ks scoped = Ok ps" for ps
  proof -
    from that obtain engine plan q automation where "build_policies d engine plan q automation (instance_identities d ks scoped) = Ok ps"
      by (auto simp: build_policy_instances_from_def outcome_simps)
    from build_policies_ok [OF this] have "map pi_strategy_id ps = map fst (instance_identities d ks scoped)
        \<and> map pi_instrument ps = map snd (instance_identities d ks scoped)"
      by (induction rule: list_all2_induct) auto
    with ids(2) show ?thesis by simp
  qed
  with valid ids each built_for_ids [OF b(4)] show ?thesis by auto
qed

section \<open>A concrete definition\<close>

definition demo_dec :: "string \<Rightarrow> (string, decimal) outcome" where
  "demo_dec text = (if text = ''2'' then Ok 2 else Err ''invalid'')"

definition demo_overrides :: automation_overrides where
  "demo_overrides = \<lparr>av_candle_interval_ns = None, av_signal_horizon_ms = None, av_signal_ttl_ms = None, av_min_confidence = Some (Finite 0),
     av_min_emit_interval_ns = None, av_alpha_id = None,
     av_factors = \<lparr>fo_trade_window = None, fo_candle_window = None, fo_book_levels = None, fo_min_trade_samples = None,
       fo_min_candle_samples = None, fo_max_spread_bps = None, fo_volatility_soft_cap_bps = None, fo_vwap_scale_bps = None,
       fo_momentum_scale_bps = None, fo_vwap_weight = Some (Finite 1), fo_trade_imbalance_weight = Some (Finite 0),
       fo_book_imbalance_weight = Some (Finite 0), fo_momentum_weight = Some (Finite 0)\<rparr>,
     av_entry_filter = default_entry_filter\<rparr>"

definition demo_definition :: strategy_definition where
  "demo_definition = \<lparr>sd_schema_version = ''strategy.v1'', sd_enabled = True,
     sd_universe = \<lparr>ud_venue = Some Hyperliquid, ud_assets = [''HYPE'', ''SOL''], ud_instruments = [], ud_dynamic = []\<rparr>,
     sd_strategy = \<lparr>td_id = ''s'', td_order_quantity = ''2'', td_entry_score = Finite (1/2), td_exit_score = Finite (1/10), td_allow_short = False\<rparr>,
     sd_automation = demo_overrides, sd_policy = \<lparr>pd_filters = [], pd_entries = [], pd_exits = []\<rparr>\<rparr>"

definition demo_keys :: "asset_key list" where
  "demo_keys = [AssetKey Hyperliquid ''HYPE'', AssetKey Hyperliquid ''SOL'']"

lemma demo_automation_resolved:
  "resolved_automation demo_definition = Ok (demo_automation\<lparr>ac_candle_interval_ns := default_candle_interval_ns\<rparr>)"
proof -
  have "apply_overrides (av_factors demo_overrides) default_factor_config = demo_factors"
    by (simp add: apply_overrides_def demo_overrides_def demo_factors_def default_factor_config_def or_else_def)
  moreover have "automation_validate (demo_automation\<lparr>ac_candle_interval_ns := default_candle_interval_ns\<rparr>) = Ok ()"
    by (simp add: automation_validate_def demo_automation_def default_automation_config_def demo_factors_valid
        entry_filter_validate_def default_entry_filter_def is_some_and_def default_candle_interval_ns_def in_closed_def is_blank_def)
  ultimately show ?thesis
    by (simp add: resolved_automation_def Let_def demo_definition_def demo_automation_def default_automation_config_def)
       (simp add: demo_overrides_def or_else_def)
qed

lemma new_automated_total:
  assumes "strategy_validate sc = Ok ()" "automation_validate c = Ok ()"
  obtains a where "new_automated sc c = Ok a"
  using assms by (auto simp: new_automated_def automation_validate_def new_factor_engine_def new_selector_def new_machine_def outcome_simps)

lemma demo_definition_builds:
  obtains strategies where "build_instances_from demo_dec demo_definition demo_keys False = Ok strategies"
proof -
  let ?sc = "\<lambda>sid k. \<lparr>sc_strategy_id = sid, sc_asset = ak_asset k, sc_venue = ak_venue k, sc_order_quantity = 2,
             sc_entry_score = td_entry_score (sd_strategy demo_definition), sc_exit_score = td_exit_score (sd_strategy demo_definition),
             sc_allow_short = td_allow_short (sd_strategy demo_definition)\<rparr>"
  let ?au = "demo_automation\<lparr>ac_candle_interval_ns := default_candle_interval_ns\<rparr>"
  have au: "automation_validate ?au = Ok ()" using demo_automation_resolved by (auto simp: resolved_automation_def Let_def outcome_simps)
  have sc: "strategy_validate (?sc sid k) = Ok ()" for sid k
    by (simp add: strategy_validate_def demo_definition_def in_closed_def)
  obtain a1 where a1: "new_automated (?sc ''s:HYPE'' (AssetKey Hyperliquid ''HYPE'')) ?au = Ok a1" by (rule new_automated_total [OF sc au])
  obtain a2 where a2: "new_automated (?sc ''s:SOL'' (AssetKey Hyperliquid ''SOL'')) ?au = Ok a2" by (rule new_automated_total [OF sc au])
  have ids: "instance_identities demo_definition demo_keys False =
      [(''s:HYPE'', AssetKey Hyperliquid ''HYPE''), (''s:SOL'', AssetKey Hyperliquid ''SOL'')]"
    by (simp add: instance_identities_def demo_keys_def demo_definition_def)
  have iv: "resolved_candle_interval demo_definition Hyperliquid = Ok default_candle_interval_ns"
    by (simp add: resolved_candle_interval_def demo_definition_def demo_overrides_def default_candle_interval_def
        hyperliquid_candle_intervals_ns_def default_candle_interval_ns_def)
  have same: "?au\<lparr>ac_candle_interval_ns := default_candle_interval_ns\<rparr> = ?au" by simp
  have "build_strategies demo_definition 2 ?au (instance_identities demo_definition demo_keys False) = Ok [a1, a2]"
    unfolding ids using a1 a2 iv by simp
  moreover have "definition_validate demo_dec demo_definition = Ok ()"
    by (simp add: definition_validate_def demo_definition_def order_quantity_of_def demo_dec_def validate_shape_def
        universe_is_dynamic_def resolved_instruments_def validate_instruments_def policy_validate_def policy_rules_def
        trim_def ws_len_def is_blank_def)
  moreover have "validate_instruments demo_keys = Ok ()" by (simp add: validate_instruments_def demo_keys_def is_blank_def)
  moreover have "validate_candle_contract_for demo_definition demo_keys = Ok ()"
    by (simp add: validate_candle_contract_for_def demo_definition_def demo_overrides_def)
  moreover have "order_quantity_of demo_dec demo_definition = Ok 2"
    by (simp add: order_quantity_of_def demo_definition_def demo_dec_def trim_def ws_len_def is_blank_def)
  ultimately show thesis using demo_automation_resolved by (intro that [of "[a1, a2]"]) (simp add: build_instances_from_def)
qed

theorem definition_instances_exact_witness:
  "\<exists>strategies. build_instances_from demo_dec demo_definition demo_keys False = Ok strategies
     \<and> map instrument_of strategies = demo_keys \<and> distinct (map strategy_id_of strategies)"
proof -
  obtain strategies where b: "build_instances_from demo_dec demo_definition demo_keys False = Ok strategies" by (rule demo_definition_builds)
  from definition_instances_exact [OF b] b show ?thesis by blast
qed

end
