(* ===== verification/Registry.thy ===== *)
theory Registry
  imports StrategyDefs
begin

text \<open>
  The strategy registry, \<open>rust/crates/pg-strategy/src/registry.rs\<close>: loading and reloading definition files,
  materialising dynamic templates, and routing market events. A path is the list of its components, which
  is how paths are ordered; \<open>files\<close> reads a file, \<open>env\<close> bundles the decoders. An intent id drawn while an
  event is routed is given per strategy.
\<close>

section \<open>State\<close>

type_synonym path = "string list"

datatype registry_error =
  RgIo | RgDefinition definition_error | RgDuplicateStrategy string | RgActiveState string | RgMissingDynamicTemplate path

record strategy_registry =
  rg_strategies :: "(string, automated_strategy) omap"
  rg_policies :: "(string, policy_instance) omap"
  rg_sources :: "path \<rightharpoonup> string list"
  rg_templates :: "(path, strategy_definition) omap"

definition new_registry :: strategy_registry where
  "new_registry = \<lparr>rg_strategies = [], rg_policies = [], rg_sources = Map.empty, rg_templates = []\<rparr>"

record decoders =
  dc_toml :: "string \<Rightarrow> strategy_definition option"
  dc_dec :: "string \<Rightarrow> (string, decimal) outcome"

definition read_definition :: "decoders \<Rightarrow> (path \<Rightarrow> string option) \<Rightarrow> path \<Rightarrow> (registry_error, strategy_definition) outcome" where
  "read_definition env files path =
     and_then (ok_or (files path) RgIo) (\<lambda>text. map_error RgDefinition (definition_from_toml (dc_toml env) (dc_dec env) text))"

definition put_policies :: "policy_instance list \<Rightarrow> (string, policy_instance) omap \<Rightarrow> (string, policy_instance) omap" where
  "put_policies ps m = fold (\<lambda>p. om_insert (pi_strategy_id p) p) ps m"

definition put_strategies :: "automated_strategy list \<Rightarrow> (string, automated_strategy) omap \<Rightarrow> (string, automated_strategy) omap" where
  "put_strategies as m = fold (\<lambda>a. om_insert (strategy_id_of a) a) as m"

definition remove_ids :: "string list \<Rightarrow> (string, 'a) omap \<Rightarrow> (string, 'a) omap" where
  "remove_ids ids m = fold om_remove ids m"

section \<open>Loading\<close>

text \<open>The insertion loop stops at the first id that is taken; what was inserted before stays.\<close>

fun insert_strategies ::
  "automated_strategy list \<Rightarrow> (string, automated_strategy) omap \<Rightarrow>
     (registry_error, string list) outcome \<times> (string, automated_strategy) omap" where
  "insert_strategies [] m = (Ok [], m)"
| "insert_strategies (a # as) m =
     (if om_get (strategy_id_of a) m \<noteq> None then (Err (RgDuplicateStrategy (strategy_id_of a)), m)
      else case insert_strategies as (om_insert (strategy_id_of a) a m) of
        (Ok ids, m') \<Rightarrow> (Ok (strategy_id_of a # ids), m')
      | (Err e, m') \<Rightarrow> (Err e, m')
      | (Panic, m') \<Rightarrow> (Panic, m'))"

definition insert_static_definition ::
  "decoders \<Rightarrow> path \<Rightarrow> strategy_definition \<Rightarrow> strategy_registry \<Rightarrow> (registry_error, string list) outcome \<times> strategy_registry" where
  "insert_static_definition env path d reg =
     (case and_then (map_error RgDefinition (build_instances (dc_dec env) d)) (\<lambda>instances.
             and_then (map_error RgDefinition (build_policy_instances (dc_dec env) d)) (\<lambda>policies. Ok (instances, policies))) of
        Ok (instances, policies) \<Rightarrow>
          (case insert_strategies instances (rg_strategies reg) of
             (Ok ids, m) \<Rightarrow>
               (Ok ids, reg\<lparr>rg_strategies := m, rg_policies := put_policies policies (rg_policies reg),
                           rg_sources := (rg_sources reg)(path \<mapsto> ids)\<rparr>)
           | (Err e, m) \<Rightarrow> (Err e, reg\<lparr>rg_strategies := m\<rparr>)
           | (Panic, m) \<Rightarrow> (Panic, reg\<lparr>rg_strategies := m\<rparr>))
      | Err e \<Rightarrow> (Err e, reg)
      | Panic \<Rightarrow> (Panic, reg))"

definition registry_load_file ::
  "decoders \<Rightarrow> (path \<Rightarrow> string option) \<Rightarrow> path \<Rightarrow> strategy_registry \<Rightarrow> (registry_error, string list) outcome \<times> strategy_registry" where
  "registry_load_file env files path reg =
     (case read_definition env files path of
        Ok d \<Rightarrow>
          if definition_is_dynamic d
          then (Ok [], reg\<lparr>rg_templates := om_insert path d (rg_templates reg), rg_sources := (rg_sources reg)(path \<mapsto> [])\<rparr>)
          else insert_static_definition env path d reg
      | Err e \<Rightarrow> (Err e, reg)
      | Panic \<Rightarrow> (Panic, reg))"

fun registry_load_files ::
  "decoders \<Rightarrow> (path \<Rightarrow> string option) \<Rightarrow> path list \<Rightarrow> strategy_registry \<Rightarrow> (registry_error, strategy_registry) outcome" where
  "registry_load_files env files [] reg = Ok reg"
| "registry_load_files env files (p # ps) reg =
     (case registry_load_file env files p reg of
        (Ok _, reg') \<Rightarrow> registry_load_files env files ps reg'
      | (Err e, _) \<Rightarrow> Err e
      | (Panic, _) \<Rightarrow> Panic)"

text \<open>\<open>listing\<close> is what \<open>read_dir\<close> yields, \<open>toml_file\<close> whether a file name has the extension.\<close>

definition registry_load_dir ::
  "decoders \<Rightarrow> (string \<Rightarrow> bool) \<Rightarrow> (path \<Rightarrow> string option) \<Rightarrow> string option list option \<Rightarrow> path \<Rightarrow>
     (registry_error, strategy_registry) outcome" where
  "registry_load_dir env toml_file files listing dir =
     and_then (ok_or listing RgIo) (\<lambda>entries.
       registry_load_files env files
         (sort (map (\<lambda>name. dir @ [name]) (filter toml_file (List.map_filter (\<lambda>e. e) entries)))) new_registry)"

section \<open>Reloading and dynamic templates\<close>

definition busy :: "automated_strategy \<Rightarrow> bool" where
  "busy a \<longleftrightarrow>
     (let st = sm_state (as_machine a) in
      ss_net_quantity st \<noteq> 0 \<or> ss_active_intent_id st \<noteq> None \<or> ss_phase st \<notin> {SpFlat, SpHalted})"

fun ensure_ids_removable :: "string list \<Rightarrow> strategy_registry \<Rightarrow> (registry_error, unit) outcome" where
  "ensure_ids_removable [] reg = Ok ()"
| "ensure_ids_removable (i # ids) reg =
     (case om_get i (rg_strategies reg) of
        Some a \<Rightarrow> if busy a then Err (RgActiveState i) else ensure_ids_removable ids reg
      | None \<Rightarrow> ensure_ids_removable ids reg)"

definition source_ids :: "path \<Rightarrow> strategy_registry \<Rightarrow> string list" where
  "source_ids path reg = (case rg_sources reg path of Some ids \<Rightarrow> ids | None \<Rightarrow> [])"

fun first_taken :: "string list \<Rightarrow> string list \<Rightarrow> (string, automated_strategy) omap \<Rightarrow> string option" where
  "first_taken [] old_ids m = None"
| "first_taken (i # ids) old_ids m =
     (if om_get i m \<noteq> None \<and> i \<notin> set old_ids then Some i else first_taken ids old_ids m)"

definition reload_static ::
  "decoders \<Rightarrow> path \<Rightarrow> string list \<Rightarrow> strategy_definition \<Rightarrow> strategy_registry \<Rightarrow>
     (registry_error, string list) outcome \<times> strategy_registry" where
  "reload_static env path old_ids d reg =
     (let reg1 = reg\<lparr>rg_templates := om_remove path (rg_templates reg)\<rparr> in
      case and_then (map_error RgDefinition (build_instances (dc_dec env) d)) (\<lambda>instances.
             and_then (map_error RgDefinition (build_policy_instances (dc_dec env) d)) (\<lambda>policies. Ok (instances, policies))) of
        Ok (instances, policies) \<Rightarrow>
          (let new_ids = map strategy_id_of instances in
           case first_taken new_ids old_ids (rg_strategies reg1) of
             Some i \<Rightarrow> (Err (RgDuplicateStrategy i), reg1)
           | None \<Rightarrow>
               (Ok new_ids,
                reg1\<lparr>rg_strategies := put_strategies instances (remove_ids old_ids (rg_strategies reg1)),
                     rg_policies := put_policies policies (remove_ids old_ids (rg_policies reg1)),
                     rg_sources := (rg_sources reg1)(path \<mapsto> new_ids)\<rparr>))
      | Err e \<Rightarrow> (Err e, reg1)
      | Panic \<Rightarrow> (Panic, reg1))"

definition registry_reload_file ::
  "decoders \<Rightarrow> (path \<Rightarrow> string option) \<Rightarrow> path \<Rightarrow> strategy_registry \<Rightarrow> (registry_error, string list) outcome \<times> strategy_registry" where
  "registry_reload_file env files path reg =
     (let old_ids = source_ids path reg in
      case and_then (ensure_ids_removable old_ids reg) (\<lambda>_. read_definition env files path) of
        Ok d \<Rightarrow>
          if definition_is_dynamic d
          then (Ok [], reg\<lparr>rg_strategies := remove_ids old_ids (rg_strategies reg), rg_policies := remove_ids old_ids (rg_policies reg),
                          rg_templates := om_insert path d (rg_templates reg), rg_sources := (rg_sources reg)(path \<mapsto> [])\<rparr>)
          else reload_static env path old_ids d reg
      | Err e \<Rightarrow> (Err e, reg)
      | Panic \<Rightarrow> (Panic, reg))"

text \<open>The additions of a refreshed selection, in the order of their ids.\<close>

fun add_missing ::
  "string list \<Rightarrow> (string, 'a) omap \<Rightarrow> (string, 'a) omap \<Rightarrow> (string, 'a) omap" where
  "add_missing [] new m = m"
| "add_missing (i # ids) new m = add_missing ids new (case om_get i new of Some x \<Rightarrow> om_insert i x m | None \<Rightarrow> m)"

definition apply_dynamic_instruments ::
  "decoders \<Rightarrow> path \<Rightarrow> asset_key list \<Rightarrow> strategy_registry \<Rightarrow> (registry_error, string list) outcome \<times> strategy_registry" where
  "apply_dynamic_instruments env path ks reg =
     (case and_then (ok_or (om_get path (rg_templates reg)) (RgMissingDynamicTemplate path)) (\<lambda>d.
           and_then (map_error RgDefinition (build_instances_for (dc_dec env) d ks)) (\<lambda>instances.
           and_then (map_error RgDefinition (build_policy_instances_for (dc_dec env) d ks)) (\<lambda>policies.
             let new_strategies = om_collect (map (\<lambda>a. (strategy_id_of a, a)) instances);
                 new_policies = om_collect (map (\<lambda>p. (pi_strategy_id p, p)) policies);
                 new_ids = om_keys new_strategies;
                 old_ids = source_ids path reg;
                 added = filter (\<lambda>i. i \<notin> set old_ids) new_ids;
                 removed = filter (\<lambda>i. i \<notin> set new_ids) (sort (remdups old_ids))
             in case find (\<lambda>i. om_get i (rg_strategies reg) \<noteq> None) added of
                  Some i \<Rightarrow> Err (RgDuplicateStrategy i)
                | None \<Rightarrow>
                    and_then (ensure_ids_removable removed reg) (\<lambda>_.
                      Ok (new_ids,
                        reg\<lparr>rg_strategies := add_missing added new_strategies (remove_ids removed (rg_strategies reg)),
                            rg_policies := add_missing added new_policies (remove_ids removed (rg_policies reg)),
                            rg_sources := (rg_sources reg)(path \<mapsto> new_ids)\<rparr>))))) of
        Ok (ids, reg') \<Rightarrow> (Ok ids, reg')
      | Err e \<Rightarrow> (Err e, reg)
      | Panic \<Rightarrow> (Panic, reg))"

section \<open>Reading and routing\<close>

definition dynamic_templates :: "strategy_registry \<Rightarrow> (path \<times> strategy_definition) list" where
  "dynamic_templates reg = rg_templates reg"

definition dynamic_template_count :: "strategy_registry \<Rightarrow> nat" where
  "dynamic_template_count reg = length (rg_templates reg)"

definition has_dynamic_templates :: "strategy_registry \<Rightarrow> bool" where
  "has_dynamic_templates reg \<longleftrightarrow> rg_templates reg \<noteq> []"

definition strategy_ids :: "strategy_registry \<Rightarrow> string list" where
  "strategy_ids reg = om_keys (rg_strategies reg)"

definition registry_len :: "strategy_registry \<Rightarrow> nat" where
  "registry_len reg = length (rg_strategies reg)"

definition policy_count :: "strategy_registry \<Rightarrow> nat" where
  "policy_count reg = length (rg_policies reg)"

fun same_kind :: "feed_kind \<Rightarrow> feed_kind \<Rightarrow> bool" where
  "same_kind FkTrades FkTrades = True"
| "same_kind FkBestBidAsk FkBestBidAsk = True"
| "same_kind FkL2Book FkL2Book = True"
| "same_kind (FkCandle i) (FkCandle j) = (i = j)"
| "same_kind _ _ = False"

definition same_feed :: "feed_spec \<Rightarrow> feed_spec \<Rightarrow> bool" where
  "same_feed l r \<longleftrightarrow> \<not> (fs_venue l \<noteq> fs_venue r \<or> fs_asset l \<noteq> fs_asset r) \<and> same_kind (fs_kind l) (fs_kind r)"

definition push_unique_feed :: "feed_spec \<Rightarrow> feed_spec list \<Rightarrow> feed_spec list" where
  "push_unique_feed candidate feeds = (if list_ex (\<lambda>f. same_feed f candidate) feeds then feeds else feeds @ [candidate])"

definition policy_subscriptions :: "strategy_registry \<Rightarrow> feed_spec list" where
  "policy_subscriptions reg =
     fold push_unique_feed (concat (map policy_instance_subscriptions (om_values (rg_policies reg)))) []"

definition registry_subscriptions :: "strategy_registry \<Rightarrow> feed_spec list" where
  "registry_subscriptions reg =
     fold push_unique_feed (concat (map automated_subscriptions (om_values (rg_strategies reg))) @ policy_subscriptions reg) []"

definition event_matches_strategy :: "market_event \<Rightarrow> automated_strategy \<Rightarrow> bool" where
  "event_matches_strategy e a \<longleftrightarrow>
     ak_venue (event_asset_key e) = sc_venue (sm_config (as_machine a)) \<and> ak_asset (event_asset_key e) = sc_asset (sm_config (as_machine a))"

record runtime_libs =
  rt_to_f64 :: "decimal \<Rightarrow> f64 option"
  rt_libm :: libm
  rt_show6 :: "f64 \<Rightarrow> string"
  rt_meta :: "factor_snapshot \<Rightarrow> entry_filter_snapshot \<Rightarrow> string"

fun route_strategies ::
  "runtime_libs \<Rightarrow> (string \<Rightarrow> uuid) \<Rightarrow> market_event \<Rightarrow> (string, automated_strategy) omap \<Rightarrow>
     (string \<times> automation_output) list \<times> (string, automated_strategy) omap" where
  "route_strategies rt uids e [] = ([], [])"
| "route_strategies rt uids e ((i, a) # rest) =
     (case route_strategies rt uids e rest of
        (outs, rest') \<Rightarrow>
          if \<not> event_matches_strategy e a then (outs, (i, a) # rest')
          else case on_market_event (rt_to_f64 rt) (rt_libm rt) (rt_show6 rt) (rt_meta rt) (uids i) e a of
            (out, a') \<Rightarrow> ((i, out) # outs, (i, a') # rest'))"

definition route_event ::
  "runtime_libs \<Rightarrow> (string \<Rightarrow> uuid) \<Rightarrow> market_event \<Rightarrow> strategy_registry \<Rightarrow>
     (string \<times> automation_output) list \<times> strategy_registry" where
  "route_event rt uids e reg =
     (case route_strategies rt uids e (rg_strategies reg) of (outs, m) \<Rightarrow> (outs, reg\<lparr>rg_strategies := m\<rparr>))"

record routed_policy =
  rp_strategy_id :: string
  rp_instrument :: asset_key
  rp_entry :: entry_policy_decision
  rp_exit :: exit_policy_decision

definition route_policy_frame ::
  "runtime_libs \<Rightarrow> asset_key \<Rightarrow> feature_frame \<Rightarrow> position_view \<Rightarrow> u64 \<Rightarrow> strategy_registry \<Rightarrow> routed_policy list" where
  "route_policy_frame rt instrument features position now_ns reg =
     (let cx = \<lparr>cx_instrument = instrument, cx_features = features, cx_position = position, cx_now_ns = now_ns\<rparr> in
      map (\<lambda>p. \<lparr>rp_strategy_id = pi_strategy_id p, rp_instrument = instrument,
                rp_entry = evaluate_entry (rt_to_f64 rt) cx (pi_engine p), rp_exit = evaluate_exit (rt_to_f64 rt) cx (pi_engine p)\<rparr>)
        (filter (\<lambda>p. pi_instrument p = instrument) (om_values (rg_policies reg))))"

fun route_policies ::
  "runtime_libs \<Rightarrow> market_event \<Rightarrow> position_view \<Rightarrow> (string, policy_instance) omap \<Rightarrow>
     (routed_policy \<times> feature_frame) list \<times> (string, policy_instance) omap" where
  "route_policies rt e position [] = ([], [])"
| "route_policies rt e position ((i, p) # rest) =
     (case route_policies rt e position rest of
        (outs, rest') \<Rightarrow>
          if pi_instrument p \<noteq> event_asset_key e then (outs, (i, p) # rest')
          else case live_on_event (rt_to_f64 rt) (rt_libm rt) e position (pi_features p) of
            (frame, features) \<Rightarrow>
              let p' = p\<lparr>pi_features := features\<rparr> in
              (case frame of
                 None \<Rightarrow> (outs, (i, p') # rest')
               | Some fr \<Rightarrow>
                   let cx = \<lparr>cx_instrument = pi_instrument p, cx_features = fr, cx_position = position, cx_now_ns = event_ts_recv_ns e\<rparr> in
                   ((\<lparr>rp_strategy_id = pi_strategy_id p, rp_instrument = pi_instrument p,
                      rp_entry = evaluate_entry (rt_to_f64 rt) cx (pi_engine p),
                      rp_exit = evaluate_exit (rt_to_f64 rt) cx (pi_engine p)\<rparr>, fr) # outs, (i, p') # rest')))"

definition route_live_policy_event ::
  "runtime_libs \<Rightarrow> market_event \<Rightarrow> position_view \<Rightarrow> strategy_registry \<Rightarrow> (routed_policy \<times> feature_frame) list \<times> strategy_registry" where
  "route_live_policy_event rt e position reg =
     (case route_policies rt e position (rg_policies reg) of (outs, m) \<Rightarrow> (outs, reg\<lparr>rg_policies := m\<rparr>))"

section \<open>Topology changes keep live strategies\<close>

definition registry_keys_ok :: "(string, automated_strategy) omap \<Rightarrow> bool" where
  "registry_keys_ok m \<longleftrightarrow> om_sorted m \<and> (\<forall>i a. om_get i m = Some a \<longrightarrow> strategy_id_of a = i)"

lemma keys_ok_insert: "registry_keys_ok m \<Longrightarrow> strategy_id_of a = i \<Longrightarrow> registry_keys_ok (om_insert i a m)"
  by (auto simp: registry_keys_ok_def om_insert_sorted om_get_insert)

lemma keys_ok_remove: "registry_keys_ok m \<Longrightarrow> registry_keys_ok (om_remove i m)"
  by (auto simp: registry_keys_ok_def om_remove_sorted om_get_remove split: if_splits)

lemma remove_ids_ok:
  "om_get i (remove_ids ids m) = (if i \<in> set ids then None else om_get i m)"
  "registry_keys_ok m' \<Longrightarrow> registry_keys_ok (remove_ids ids m')"
proof -
  show "om_get i (remove_ids ids m) = (if i \<in> set ids then None else om_get i m)"
    unfolding remove_ids_def by (induction ids arbitrary: m) (auto simp: om_get_remove)
  show "registry_keys_ok m' \<Longrightarrow> registry_keys_ok (remove_ids ids m')"
    unfolding remove_ids_def by (induction ids arbitrary: m') (auto simp: keys_ok_remove)
qed

lemma put_strategies_ok:
  "registry_keys_ok m \<Longrightarrow> registry_keys_ok (put_strategies as m)
     \<and> (i \<notin> strategy_id_of ` set as \<longrightarrow> om_get i (put_strategies as m) = om_get i m)"
  unfolding put_strategies_def
proof (induction as arbitrary: m)
  case (Cons a as)
  from Cons.prems have sorted: "om_sorted m" by (simp add: registry_keys_ok_def)
  from Cons.IH [OF keys_ok_insert [OF Cons.prems refl]] show ?case by (simp add: om_get_insert [OF sorted])
qed simp

lemma insert_strategies_ok:
  "registry_keys_ok m \<Longrightarrow> registry_keys_ok (snd (insert_strategies as m))
     \<and> (om_get i m = Some a \<longrightarrow> om_get i (snd (insert_strategies as m)) = Some a)"
proof (induction as m rule: insert_strategies.induct)
  case (2 b as m)
  show ?case
  proof (cases "om_get (strategy_id_of b) m = None")
    case True
    have "snd (insert_strategies (b # as) m) = snd (insert_strategies as (om_insert (strategy_id_of b) b m))"
      using True by (auto split: prod.split outcome.split)
    moreover have "om_get i m = Some a \<Longrightarrow> om_get i (om_insert (strategy_id_of b) b m) = Some a"
      using True "2.prems" by (simp add: om_get_insert registry_keys_ok_def) auto
    ultimately show ?thesis using "2.IH" [OF _ keys_ok_insert [OF "2.prems" refl]] True by simp
  qed (use 2 in auto)
qed simp

lemma ensure_ids_removable_ok:
  "ensure_ids_removable ids reg = Ok () \<Longrightarrow> i \<in> set ids \<Longrightarrow> om_get i (rg_strategies reg) = Some a \<Longrightarrow> \<not> busy a"
  by (induction ids reg rule: ensure_ids_removable.induct) (auto split: option.splits if_splits)

lemma first_taken_ok: "first_taken ids old_ids m = None \<Longrightarrow> i \<in> set ids \<Longrightarrow> om_get i m \<noteq> None \<Longrightarrow> i \<in> set old_ids"
  by (induction ids old_ids m rule: first_taken.induct) (auto split: if_splits)

lemma add_missing_get:
  "om_sorted m \<Longrightarrow> om_sorted (add_missing ids new m) \<and>
     om_get i (add_missing ids new m) = (if i \<in> set ids \<and> om_get i new \<noteq> None then om_get i new else om_get i m)"
proof (induction ids new m rule: add_missing.induct)
  case (2 j ids new m)
  show ?case
  proof (cases "om_get j new")
    case None
    with 2 show ?thesis by auto
  next
    case (Some x)
    with "2.IH" "2.prems" show ?thesis by (auto simp: om_insert_sorted om_get_insert)
  qed
qed simp

lemma new_strategies_keys:
  "om_get i (om_collect (map (\<lambda>a. (strategy_id_of a, a)) as)) = Some a \<Longrightarrow> a \<in> set as \<and> strategy_id_of a = i"
  unfolding om_get_collect by (auto simp: rev_map dest: map_of_SomeD)

text \<open>What a refresh of a dynamic template does when it goes through.\<close>

lemma apply_dynamic_ok:
  assumes "apply_dynamic_instruments env path ks reg = (Ok ids, reg')"
  obtains d instances where "om_get path (rg_templates reg) = Some d" "build_instances_for (dc_dec env) d ks = Ok instances"
    "ids = om_keys (om_collect (map (\<lambda>a. (strategy_id_of a, a)) instances))"
    "\<forall>i\<in>set ids - set (source_ids path reg). om_get i (rg_strategies reg) = None"
    "ensure_ids_removable (filter (\<lambda>i. i \<notin> set ids) (sort (remdups (source_ids path reg)))) reg = Ok ()"
    "rg_strategies reg' = add_missing (filter (\<lambda>i. i \<notin> set (source_ids path reg)) ids)
       (om_collect (map (\<lambda>a. (strategy_id_of a, a)) instances))
       (remove_ids (filter (\<lambda>i. i \<notin> set ids) (sort (remdups (source_ids path reg)))) (rg_strategies reg))"
    "rg_sources reg' = (rg_sources reg)(path \<mapsto> ids)"
proof -
  from assms obtain d instances policies where parts: "om_get path (rg_templates reg) = Some d"
      "build_instances_for (dc_dec env) d ks = Ok instances" "build_policy_instances_for (dc_dec env) d ks = Ok policies"
    unfolding apply_dynamic_instruments_def by (auto simp: outcome_simps split: outcome.splits)
  define new where "new = om_collect (map (\<lambda>a. (strategy_id_of a, a)) instances)"
  define added where "added = filter (\<lambda>i. i \<notin> set (source_ids path reg)) (om_keys new)"
  define removed where "removed = filter (\<lambda>i. i \<notin> set (om_keys new)) (sort (remdups (source_ids path reg)))"
  have none: "find (\<lambda>i. om_get i (rg_strategies reg) \<noteq> None) added = None"
  proof (rule ccontr)
    assume "find (\<lambda>i. om_get i (rg_strategies reg) \<noteq> None) added \<noteq> None"
    then obtain i where "find (\<lambda>i. om_get i (rg_strategies reg) \<noteq> None) added = Some i" by blast
    with assms parts show False
      by (simp add: apply_dynamic_instruments_def Let_def new_def [symmetric] added_def [symmetric])
  qed
  have run: "(case and_then (ensure_ids_removable removed reg) (\<lambda>_. Ok (om_keys new,
        reg\<lparr>rg_strategies := add_missing added new (remove_ids removed (rg_strategies reg)),
            rg_policies := add_missing added (om_collect (map (\<lambda>p. (pi_strategy_id p, p)) policies)) (remove_ids removed (rg_policies reg)),
            rg_sources := (rg_sources reg)(path \<mapsto> om_keys new)\<rparr>)) of
        Ok (ids, reg') \<Rightarrow> (Ok ids, reg') | Err e \<Rightarrow> (Err e, reg) | Panic \<Rightarrow> (Panic, reg)) = (Ok ids, reg')"
    using assms parts none
    by (simp add: apply_dynamic_instruments_def Let_def new_def [symmetric] added_def [symmetric] removed_def [symmetric])
  then have rem: "ensure_ids_removable removed reg = Ok ()" by (cases "ensure_ids_removable removed reg") auto
  with run have out: "ids = om_keys new" "rg_strategies reg' = add_missing added new (remove_ids removed (rg_strategies reg))"
      "rg_sources reg' = (rg_sources reg)(path \<mapsto> om_keys new)" by auto
  have "\<forall>i\<in>set (om_keys new) - set (source_ids path reg). om_get i (rg_strategies reg) = None"
    using none by (auto simp: find_None_iff added_def)
  with parts(1,2) rem out show thesis
    by (intro that [of d instances]) (simp_all add: new_def added_def removed_def)
qed

text \<open>An error or a panic leaves the registry as it was.\<close>

lemma apply_dynamic_atomic:
  "\<forall>ids. fst (apply_dynamic_instruments env path ks reg) \<noteq> Ok ids \<Longrightarrow> snd (apply_dynamic_instruments env path ks reg) = reg"
  unfolding apply_dynamic_instruments_def by (auto split: outcome.splits prod.splits)

text \<open>A change of the strategy map that touches no busy strategy.\<close>

definition keeps_busy :: "(string, automated_strategy) omap \<Rightarrow> (string, automated_strategy) omap \<Rightarrow> bool" where
  "keeps_busy m m' \<longleftrightarrow> registry_keys_ok m' \<and> (\<forall>i a. om_get i m = Some a \<and> busy a \<longrightarrow> om_get i m' = Some a)"

lemma keeps_busy_refl: "registry_keys_ok m \<Longrightarrow> keeps_busy m m"
  by (simp add: keeps_busy_def)

lemma keeps_busy_trans: "keeps_busy m m' \<Longrightarrow> keeps_busy m' m'' \<Longrightarrow> keeps_busy m m''"
  by (simp add: keeps_busy_def)

lemma keeps_busy_remove:
  assumes "registry_keys_ok (rg_strategies reg)" "ensure_ids_removable ids reg = Ok ()"
  shows "keeps_busy (rg_strategies reg) (remove_ids ids (rg_strategies reg))"
  unfolding keeps_busy_def using assms(1) ensure_ids_removable_ok [OF assms(2)] by (auto simp: remove_ids_ok)

lemma keeps_busy_insert: "registry_keys_ok m \<Longrightarrow> keeps_busy m (snd (insert_strategies as m))"
  unfolding keeps_busy_def using insert_strategies_ok [of m as] by blast

lemma keeps_busy_put:
  assumes "registry_keys_ok m" "\<And>i. i \<in> strategy_id_of ` set as \<Longrightarrow> om_get i m = None"
  shows "keeps_busy m (put_strategies as m)"
  unfolding keeps_busy_def
proof (intro conjI allI impI)
  show "registry_keys_ok (put_strategies as m)" using put_strategies_ok [OF assms(1)] by blast
  fix i a
  assume i: "om_get i m = Some a \<and> busy a"
  with assms(2) [of i] have "i \<notin> strategy_id_of ` set as" by force
  with put_strategies_ok [OF assms(1), of as i] i show "om_get i (put_strategies as m) = Some a" by simp
qed

lemma load_file_keeps:
  assumes "registry_keys_ok (rg_strategies reg)"
  shows "keeps_busy (rg_strategies reg) (rg_strategies (snd (registry_load_file env files path reg)))"
proof -
  have "keeps_busy (rg_strategies reg) (rg_strategies (snd (insert_static_definition env path d reg)))" for d
  proof -
    obtain r where r: "and_then (map_error RgDefinition (build_instances (dc_dec env) d)) (\<lambda>instances.
        and_then (map_error RgDefinition (build_policy_instances (dc_dec env) d)) (\<lambda>policies. Ok (instances, policies))) = r" by blast
    show ?thesis
    proof (cases r)
      case (Ok x)
      obtain instances policies where x: "x = (instances, policies)" by (cases x)
      obtain res m where ins: "insert_strategies instances (rg_strategies reg) = (res, m)" by (cases "insert_strategies instances (rg_strategies reg)")
      have "rg_strategies (snd (insert_static_definition env path d reg)) = m"
        unfolding insert_static_definition_def r Ok x by (cases res) (simp_all add: ins)
      with keeps_busy_insert [OF assms, of instances] ins show ?thesis by simp
    qed (use r keeps_busy_refl [OF assms] in \<open>simp_all add: insert_static_definition_def\<close>)
  qed
  then show ?thesis using keeps_busy_refl [OF assms] by (auto simp: registry_load_file_def split: outcome.split)
qed

lemma reload_static_keeps:
  assumes "registry_keys_ok (rg_strategies reg)" "ensure_ids_removable old_ids reg = Ok ()"
  shows "keeps_busy (rg_strategies reg) (rg_strategies (snd (reload_static env path old_ids d reg)))"
proof -
  obtain r where r: "and_then (map_error RgDefinition (build_instances (dc_dec env) d)) (\<lambda>instances.
        and_then (map_error RgDefinition (build_policy_instances (dc_dec env) d)) (\<lambda>policies. Ok (instances, policies))) = r" by blast
  show ?thesis
  proof (cases r)
    case (Ok x)
    obtain instances policies where x: "x = (instances, policies)" by (cases x)
    show ?thesis
    proof (cases "first_taken (map strategy_id_of instances) old_ids (rg_strategies reg)")
      case None
      have "om_get i (remove_ids old_ids (rg_strategies reg)) = None" if "i \<in> strategy_id_of ` set instances" for i
        using first_taken_ok [OF None, of i] that
        by (cases "om_get i (rg_strategies reg)") (auto simp: remove_ids_ok)
      from keeps_busy_put [OF remove_ids_ok(2) [OF assms(1)] this]
      have "keeps_busy (remove_ids old_ids (rg_strategies reg)) (put_strategies instances (remove_ids old_ids (rg_strategies reg)))" .
      from keeps_busy_trans [OF keeps_busy_remove [OF assms] this] None show ?thesis
        by (simp add: reload_static_def r Ok x Let_def)
    qed (use keeps_busy_refl [OF assms(1)] in \<open>simp add: reload_static_def r Ok x\<close>)
  qed (use keeps_busy_refl [OF assms(1)] r in \<open>simp_all add: reload_static_def\<close>)
qed

lemma reload_file_keeps:
  assumes "registry_keys_ok (rg_strategies reg)"
  shows "keeps_busy (rg_strategies reg) (rg_strategies (snd (registry_reload_file env files path reg)))"
proof (cases "and_then (ensure_ids_removable (source_ids path reg) reg) (\<lambda>_. read_definition env files path)")
  case (Ok d)
  then have "ensure_ids_removable (source_ids path reg) reg = Ok ()" by (auto simp: outcome_simps)
  with Ok keeps_busy_remove [OF assms] reload_static_keeps [OF assms] show ?thesis
    by (simp add: registry_reload_file_def Let_def)
qed (use keeps_busy_refl [OF assms] in \<open>simp_all add: registry_reload_file_def Let_def\<close>)

text \<open>What a successful refresh leaves under an id.\<close>

lemma apply_dynamic_get:
  assumes "registry_keys_ok (rg_strategies reg)" "apply_dynamic_instruments env path ks reg = (Ok ids, reg')"
  shows "registry_keys_ok (rg_strategies reg')
    \<and> (i \<in> set ids - set (source_ids path reg) \<longrightarrow> om_get i (rg_strategies reg) = None \<and>
         (\<exists>d instances a. om_get path (rg_templates reg) = Some d \<and> build_instances_for (dc_dec env) d ks = Ok instances
            \<and> a \<in> set instances \<and> strategy_id_of a = i \<and> om_get i (rg_strategies reg') = Some a))
    \<and> (i \<in> set (source_ids path reg) - set ids \<longrightarrow> om_get i (rg_strategies reg') = None
         \<and> (\<forall>a. om_get i (rg_strategies reg) = Some a \<longrightarrow> \<not> busy a))
    \<and> ((i \<in> set ids \<longleftrightarrow> i \<in> set (source_ids path reg)) \<longrightarrow> om_get i (rg_strategies reg') = om_get i (rg_strategies reg))"
proof -
  let ?old = "source_ids path reg"
  from assms(2) obtain d instances where ap: "om_get path (rg_templates reg) = Some d" "build_instances_for (dc_dec env) d ks = Ok instances"
      "ids = om_keys (om_collect (map (\<lambda>a. (strategy_id_of a, a)) instances))"
      "\<forall>i\<in>set ids - set ?old. om_get i (rg_strategies reg) = None"
      "ensure_ids_removable (filter (\<lambda>i. i \<notin> set ids) (sort (remdups ?old))) reg = Ok ()"
      "rg_strategies reg' = add_missing (filter (\<lambda>i. i \<notin> set ?old) ids) (om_collect (map (\<lambda>a. (strategy_id_of a, a)) instances))
         (remove_ids (filter (\<lambda>i. i \<notin> set ids) (sort (remdups ?old))) (rg_strategies reg))"
    by (rule apply_dynamic_ok)
  define new where "new = om_collect (map (\<lambda>a. (strategy_id_of a, a)) instances)"
  have keys: "i \<in> set ids \<longleftrightarrow> om_get i new \<noteq> None" for i
    unfolding ap(3) new_def [symmetric] om_keys_def om_get_def by (simp add: map_of_eq_None_iff)
  have base: "registry_keys_ok (remove_ids (filter (\<lambda>i. i \<notin> set ids) (sort (remdups ?old))) (rg_strategies reg))"
    by (rule remove_ids_ok(2) [OF assms(1)])
  have got: "om_get i (rg_strategies reg') =
      (if i \<in> set ids \<and> i \<notin> set ?old then om_get i new
       else if i \<in> set ?old \<and> i \<notin> set ids then None else om_get i (rg_strategies reg))" for i
    using add_missing_get [of "remove_ids (filter (\<lambda>i. i \<notin> set ids) (sort (remdups ?old))) (rg_strategies reg)"
        "filter (\<lambda>i. i \<notin> set ?old) ids" new i] base keys [of i]
    by (auto simp: ap(6) new_def [symmetric] registry_keys_ok_def remove_ids_ok)
  have sorted: "om_sorted (rg_strategies reg')"
    using add_missing_get base by (auto simp: ap(6) registry_keys_ok_def)
  have "strategy_id_of a = j" if "om_get j (rg_strategies reg') = Some a" for j a
    using that got [of j] assms(1) new_strategies_keys [of j instances a]
    by (auto simp: registry_keys_ok_def new_def split: if_splits)
  with sorted have "registry_keys_ok (rg_strategies reg')" by (simp add: registry_keys_ok_def)
  moreover have "\<exists>a. a \<in> set instances \<and> strategy_id_of a = i \<and> om_get i (rg_strategies reg') = Some a" if "i \<in> set ids - set ?old"
    using that keys [of i] got [of i] new_strategies_keys [of i instances] by (auto simp: new_def)
  moreover have "\<not> busy a" if "i \<in> set ?old - set ids" "om_get i (rg_strategies reg) = Some a" for a
    using ensure_ids_removable_ok [OF ap(5) _ that(2)] that(1) by simp
  ultimately show ?thesis using ap(1,2,4) got [of i] by auto
qed

lemma apply_dynamic_keeps:
  assumes "registry_keys_ok (rg_strategies reg)"
  shows "keeps_busy (rg_strategies reg) (rg_strategies (snd (apply_dynamic_instruments env path ks reg)))"
proof (cases "\<exists>ids. fst (apply_dynamic_instruments env path ks reg) = Ok ids")
  case True
  then obtain ids reg' where ap: "apply_dynamic_instruments env path ks reg = (Ok ids, reg')" by (metis prod.collapse)
  note got = apply_dynamic_get [OF assms ap]
  have "om_get i (rg_strategies reg') = Some a" if "om_get i (rg_strategies reg) = Some a" "busy a" for i a
    using got [of i] that by (cases "i \<in> set ids"; cases "i \<in> set (source_ids path reg)") auto
  with got [of undefined] ap show ?thesis by (simp add: keeps_busy_def)
qed (use apply_dynamic_atomic keeps_busy_refl [OF assms] in simp)


text \<open>The calls that change which strategies there are, as the daemon issues them.\<close>

datatype registry_op =
  OpLoad "path \<Rightarrow> string option" path
| OpReload "path \<Rightarrow> string option" path
| OpApply path "asset_key list"

fun registry_step :: "decoders \<Rightarrow> registry_op \<Rightarrow> strategy_registry \<Rightarrow> strategy_registry" where
  "registry_step env (OpLoad files path) reg = snd (registry_load_file env files path reg)"
| "registry_step env (OpReload files path) reg = snd (registry_reload_file env files path reg)"
| "registry_step env (OpApply path ks) reg = snd (apply_dynamic_instruments env path ks reg)"

definition registry_run :: "decoders \<Rightarrow> registry_op list \<Rightarrow> strategy_registry \<Rightarrow> strategy_registry" where
  "registry_run env ops reg = fold (registry_step env) ops reg"

lemma registry_run_keeps:
  "registry_keys_ok (rg_strategies reg) \<Longrightarrow> keeps_busy (rg_strategies reg) (rg_strategies (registry_run env ops reg))"
  unfolding registry_run_def
proof (induction ops arbitrary: reg)
  case (Cons x ops)
  have one: "keeps_busy (rg_strategies reg) (rg_strategies (registry_step env x reg))"
    by (cases x) (simp_all add: load_file_keeps reload_file_keeps apply_dynamic_keeps Cons.prems)
  then have "registry_keys_ok (rg_strategies (registry_step env x reg))" by (simp add: keeps_busy_def)
  from keeps_busy_trans [OF one Cons.IH [OF this]] show ?case by simp
qed (simp add: keeps_busy_refl)

lemma ensure_ids_removable_busy:
  "i \<in> set ids \<Longrightarrow> om_get i (rg_strategies reg) = Some a \<Longrightarrow> busy a \<Longrightarrow>
     \<exists>j. ensure_ids_removable ids reg = Err (RgActiveState j)"
  by (induction ids reg rule: ensure_ids_removable.induct) (auto split: option.split)

section \<open>Properties\<close>

text \<open>
  C32. No change of the definition files takes a live strategy away. Whatever sequence of loads, reloads and
  universe refreshes runs, with any file contents, selections and outcomes, every strategy that holds a
  position, has an intent out or is in a phase other than flat or halted is still registered under its id,
  unchanged, and the map stays keyed by strategy id. A reload of a file that owns such a strategy is refused
  with the active-state error before anything is read, and changes nothing.
\<close>

theorem registry_keeps_active:
  assumes "registry_keys_ok (rg_strategies reg)"
  shows "registry_keys_ok (rg_strategies (registry_run env ops reg))
    \<and> (\<forall>i a. om_get i (rg_strategies reg) = Some a \<and> busy a \<longrightarrow> om_get i (rg_strategies (registry_run env ops reg)) = Some a)
    \<and> (\<forall>i a path files. i \<in> set (source_ids path reg) \<and> om_get i (rg_strategies reg) = Some a \<and> busy a \<longrightarrow>
         (\<exists>j. registry_reload_file env files path reg = (Err (RgActiveState j), reg)))"
proof -
  have "\<exists>j. registry_reload_file env files path reg = (Err (RgActiveState j), reg)"
    if "i \<in> set (source_ids path reg)" "om_get i (rg_strategies reg) = Some a" "busy a" for i a path files
    using ensure_ids_removable_busy [OF that] by (auto simp: registry_reload_file_def Let_def)
  with registry_run_keeps [OF assms, of env ops] show ?thesis by (auto simp: keeps_busy_def)
qed

definition demo_busy :: automated_strategy where
  "demo_busy = demo_strategy\<lparr>as_machine := (as_machine demo_strategy)\<lparr>sm_state := default_strategy_state\<lparr>ss_net_quantity := 3, ss_phase := SpLong\<rparr>\<rparr>\<rparr>"

definition demo_registry :: strategy_registry where
  "demo_registry = \<lparr>rg_strategies = [(strategy_id_of demo_busy, demo_busy)], rg_policies = [],
     rg_sources = [[''s.toml''] \<mapsto> [strategy_id_of demo_busy]], rg_templates = []\<rparr>"

definition demo_decoders :: decoders where
  "demo_decoders = \<lparr>dc_toml = (\<lambda>_. Some demo_definition), dc_dec = demo_dec\<rparr>"

lemma demo_registry_ok: "registry_keys_ok (rg_strategies demo_registry)"
  by (simp add: registry_keys_ok_def demo_registry_def om_sorted_def om_get_def)

theorem registry_keeps_active_witness:
  "om_get (strategy_id_of demo_busy) (rg_strategies (registry_run demo_decoders
       [OpReload (\<lambda>_. Some ''x'') [''s.toml''], OpLoad (\<lambda>_. Some ''x'') [''t.toml''], OpApply [''s.toml''] []] demo_registry)) = Some demo_busy
    \<and> (\<exists>j. registry_reload_file demo_decoders (\<lambda>_. Some ''x'') [''s.toml''] demo_registry = (Err (RgActiveState j), demo_registry))"
proof -
  have "om_get (strategy_id_of demo_busy) (rg_strategies demo_registry) = Some demo_busy"
    and "strategy_id_of demo_busy \<in> set (source_ids [''s.toml''] demo_registry)" and "busy demo_busy"
    by (simp_all add: demo_registry_def om_get_def source_ids_def busy_def demo_busy_def)
  with registry_keeps_active [OF demo_registry_ok] show ?thesis by blast
qed

text \<open>
  A refresh of a dynamic template replaces the selection and nothing else. When it succeeds, an id that stays
  selected, or that belongs to another source, keeps its strategy with all its rolling state; a new id is one
  no other source had and carries a freshly built instance; a dropped id is gone, and its strategy was not
  live; the source now lists the new ids. When it does not succeed the registry is unchanged.
\<close>

theorem dynamic_refresh_exact:
  assumes "registry_keys_ok (rg_strategies reg)"
  shows "(\<forall>ids reg'. apply_dynamic_instruments env path ks reg = (Ok ids, reg') \<longrightarrow>
      source_ids path reg' = ids
      \<and> (\<forall>i. (i \<in> set ids \<longleftrightarrow> i \<in> set (source_ids path reg)) \<longrightarrow> om_get i (rg_strategies reg') = om_get i (rg_strategies reg))
      \<and> (\<forall>i\<in>set ids - set (source_ids path reg). om_get i (rg_strategies reg) = None \<and>
           (\<exists>d instances a. om_get path (rg_templates reg) = Some d \<and> build_instances_for (dc_dec env) d ks = Ok instances
              \<and> a \<in> set instances \<and> strategy_id_of a = i \<and> om_get i (rg_strategies reg') = Some a))
      \<and> (\<forall>i\<in>set (source_ids path reg) - set ids. om_get i (rg_strategies reg') = None
           \<and> (\<forall>a. om_get i (rg_strategies reg) = Some a \<longrightarrow> \<not> busy a)))
    \<and> (\<forall>e reg'. apply_dynamic_instruments env path ks reg = (Err e, reg') \<longrightarrow> reg' = reg)"
proof (intro conjI allI impI)
  fix ids reg'
  assume ap: "apply_dynamic_instruments env path ks reg = (Ok ids, reg')"
  note got = apply_dynamic_get [OF assms ap]
  from ap show "source_ids path reg' = ids" by (rule apply_dynamic_ok) (simp add: source_ids_def)
  show "om_get i (rg_strategies reg') = om_get i (rg_strategies reg)" if "i \<in> set ids \<longleftrightarrow> i \<in> set (source_ids path reg)" for i
    using got [of i] that by simp
  show "\<forall>i\<in>set ids - set (source_ids path reg). om_get i (rg_strategies reg) = None \<and>
           (\<exists>d instances a. om_get path (rg_templates reg) = Some d \<and> build_instances_for (dc_dec env) d ks = Ok instances
              \<and> a \<in> set instances \<and> strategy_id_of a = i \<and> om_get i (rg_strategies reg') = Some a)"
    using got by simp
  show "\<forall>i\<in>set (source_ids path reg) - set ids. om_get i (rg_strategies reg') = None
           \<and> (\<forall>a. om_get i (rg_strategies reg) = Some a \<longrightarrow> \<not> busy a)"
    using got by simp
next
  fix e reg'
  assume "apply_dynamic_instruments env path ks reg = (Err e, reg')"
  with apply_dynamic_atomic [of env path ks reg] show "reg' = reg" by simp
qed

theorem dynamic_refresh_exact_witness:
  "apply_dynamic_instruments demo_decoders [''s.toml''] [] demo_registry = (Err (RgMissingDynamicTemplate [''s.toml'']), demo_registry)"
proof -
  have "fst (apply_dynamic_instruments demo_decoders [''s.toml''] [] demo_registry) = Err (RgMissingDynamicTemplate [''s.toml''])"
    by (simp add: apply_dynamic_instruments_def demo_registry_def om_get_def)
  then obtain reg' where "apply_dynamic_instruments demo_decoders [''s.toml''] [] demo_registry = (Err (RgMissingDynamicTemplate [''s.toml'']), reg')"
    by (metis prod.collapse)
  with dynamic_refresh_exact [OF demo_registry_ok, of demo_decoders "[''s.toml'']" "[]"] show ?thesis by blast
qed

end
