(* ===== verification/DreamWorld.thy ===== *)
theory DreamWorld
  imports F64 PgTypes OrderedMap TextUtil Journal "HOL-Library.Product_Lexorder"
begin

text \<open>
  The recorded worlds of the offline research service, \<open>rust/crates/pg-dream/src/world.rs\<close>, the explorer that
  grows them, \<open>execution.rs\<close>, and the two stores that keep them, \<open>store.rs\<close>. Fresh identifiers are arguments,
  the experiment executor is a parameter that passes its own state through, and a JSON value is its text.
\<close>

section \<open>Discovery trees\<close>

type_synonym u32 = "32 word"

definition saturating_succ :: "'a::len word \<Rightarrow> 'a word" where
  "saturating_succ n = (if n = - 1 then n else n + 1)"

record strategy_variant =
  sv_variant_id :: uuid
  sv_parent_variant_id :: "uuid option"
  sv_generation :: u32
  sv_name :: string
  sv_parameters :: string

definition root_variant :: "uuid \<Rightarrow> string \<Rightarrow> string \<Rightarrow> strategy_variant" where
  "root_variant uid name parameters =
     \<lparr>sv_variant_id = uid, sv_parent_variant_id = None, sv_generation = 0, sv_name = name, sv_parameters = parameters\<rparr>"

definition child_variant :: "uuid \<Rightarrow> strategy_variant \<Rightarrow> string \<Rightarrow> string \<Rightarrow> strategy_variant" where
  "child_variant uid parent name parameters =
     \<lparr>sv_variant_id = uid, sv_parent_variant_id = Some (sv_variant_id parent),
      sv_generation = saturating_succ (sv_generation parent), sv_name = name, sv_parameters = parameters\<rparr>"

record experiment_metrics =
  em_net_return_pct :: f64
  em_sharpe :: f64
  em_max_drawdown_pct :: f64
  em_trades :: u64
  em_turnover :: f64
  em_execution_cost_bps :: f64

record experiment_outcome =
  eo_success :: bool
  eo_metrics :: experiment_metrics
  eo_cost_units :: u64
  eo_diagnostics :: string

record discovery_node =
  dn_node_id :: uuid
  dn_parent_id :: "uuid option"
  dn_variant :: strategy_variant
  dn_outcome :: experiment_outcome
  dn_created_seq :: u64

record discovery_tree =
  dt_tree_id :: uuid
  dt_root_id :: uuid
  dt_nodes :: "(uuid, discovery_node) omap"

datatype world_error =
  MissingNode uuid
| VariantParentMismatch uuid uuid "uuid option"
| GenerationMismatch uuid u32 u32
| TreeCycle uuid
| DuplicateTree uuid
| CorruptTree string

definition tree_with_id :: "uuid \<Rightarrow> uuid \<Rightarrow> strategy_variant \<Rightarrow> experiment_outcome \<Rightarrow> discovery_tree" where
  "tree_with_id root_id tree_id variant outc =
     \<lparr>dt_tree_id = tree_id, dt_root_id = root_id,
      dt_nodes = [(root_id, \<lparr>dn_node_id = root_id, dn_parent_id = None, dn_variant = variant, dn_outcome = outc, dn_created_seq = 0\<rparr>)]\<rparr>"

definition tree_node :: "discovery_tree \<Rightarrow> uuid \<Rightarrow> (world_error, discovery_node) outcome" where
  "tree_node t n = ok_or (om_get n (dt_nodes t)) (MissingNode n)"

definition tree_root :: "discovery_tree \<Rightarrow> (world_error, discovery_node) outcome" where
  "tree_root t = tree_node t (dt_root_id t)"

definition validate_child :: "discovery_tree \<Rightarrow> uuid \<Rightarrow> strategy_variant \<Rightarrow> (world_error, unit) outcome" where
  "validate_child t parent_id v =
     and_then (tree_node t parent_id) (\<lambda>parent.
       if sv_parent_variant_id v \<noteq> Some (sv_variant_id (dn_variant parent))
       then Err (VariantParentMismatch parent_id (sv_variant_id (dn_variant parent)) (sv_parent_variant_id v))
       else let expected = saturating_succ (sv_generation (dn_variant parent)) in
         if sv_generation v \<noteq> expected then Err (GenerationMismatch parent_id expected (sv_generation v))
         else Ok ())"

definition tree_append ::
  "uuid \<Rightarrow> uuid \<Rightarrow> strategy_variant \<Rightarrow> experiment_outcome \<Rightarrow> discovery_tree \<Rightarrow> (world_error, uuid) outcome \<times> discovery_tree" where
  "tree_append uid parent_id v outc t =
     (case validate_child t parent_id v of
        Ok _ \<Rightarrow>
          (Ok uid,
           t\<lparr>dt_nodes := om_insert uid
               \<lparr>dn_node_id = uid, dn_parent_id = Some parent_id, dn_variant = v, dn_outcome = outc,
                dn_created_seq = of_nat (length (dt_nodes t))\<rparr> (dt_nodes t)\<rparr>)
      | Err e \<Rightarrow> (Err e, t)
      | Panic \<Rightarrow> (Panic, t))"

definition children_of :: "discovery_tree \<Rightarrow> uuid \<Rightarrow> discovery_node list" where
  "children_of t parent_id =
     sort_key (\<lambda>n. (dn_created_seq n, dn_node_id n)) (filter (\<lambda>n. dn_parent_id n = Some parent_id) (om_values (dt_nodes t)))"

lemma om_get_key: "om_get k m = Some v \<Longrightarrow> k \<in> set (om_keys m)"
  unfolding om_get_def om_keys_def by (force dest: map_of_SomeD)

text \<open>
  The walk to the root. It ends because every step adds a key of the node map to the ones seen.
\<close>

function depth_walk :: "discovery_tree \<Rightarrow> uuid set \<Rightarrow> u32 \<Rightarrow> uuid \<Rightarrow> (world_error, u32) outcome" where
  "depth_walk t seen d current =
     (if current \<in> seen then Err (TreeCycle current)
      else case om_get current (dt_nodes t) of
        None \<Rightarrow> Err (MissingNode current)
      | Some node \<Rightarrow>
          (case dn_parent_id node of
             Some parent_id \<Rightarrow> depth_walk t (insert current seen) (saturating_succ d) parent_id
           | None \<Rightarrow> Ok d))"
  by pat_completeness auto

termination
proof (relation "measure (\<lambda>(t, seen, d, current). card (set (om_keys (dt_nodes t)) - seen))")
  fix t seen d current node parent_id
  assume "current \<notin> seen" "om_get current (dt_nodes t) = Some node"
  then have "current \<in> set (om_keys (dt_nodes t)) - seen" by (simp add: om_get_key)
  then have "set (om_keys (dt_nodes t)) - insert current seen \<subset> set (om_keys (dt_nodes t)) - seen" by auto
  then have "card (set (om_keys (dt_nodes t)) - insert current seen) < card (set (om_keys (dt_nodes t)) - seen)"
    by (intro psubset_card_mono) auto
  then show "((t, insert current seen, saturating_succ d, parent_id), (t, seen, d, current))
      \<in> measure (\<lambda>(t, seen, d, current). card (set (om_keys (dt_nodes t)) - seen))" by simp
qed simp

declare depth_walk.simps [simp del]

definition tree_depth :: "discovery_tree \<Rightarrow> uuid \<Rightarrow> (world_error, u32) outcome" where
  "tree_depth t n = depth_walk t {} 0 n"

fun check_nodes :: "(uuid \<Rightarrow> string) \<Rightarrow> discovery_tree \<Rightarrow> discovery_node list \<Rightarrow> (world_error, unit) outcome" where
  "check_nodes show_id t [] = Ok ()"
| "check_nodes show_id t (n # ns) =
     (if dn_node_id n = dt_root_id t then check_nodes show_id t ns
      else and_then (ok_or (dn_parent_id n) (CorruptTree (''node '' @ show_id (dn_node_id n) @ '' has no parent''))) (\<lambda>parent_id.
           and_then (validate_child t parent_id (dn_variant n)) (\<lambda>_.
           and_then (tree_depth t (dn_node_id n)) (\<lambda>_. check_nodes show_id t ns))))"

definition tree_validate :: "(uuid \<Rightarrow> string) \<Rightarrow> discovery_tree \<Rightarrow> (world_error, unit) outcome" where
  "tree_validate show_id t =
     (if dt_nodes t = [] then Err (CorruptTree ''tree has no nodes'')
      else and_then (tree_root t) (\<lambda>root.
        if dn_parent_id root \<noteq> None \<or> sv_parent_variant_id (dn_variant root) \<noteq> None \<or> sv_generation (dn_variant root) \<noteq> 0
        then Err (CorruptTree ''root must have no parent and generation zero'')
        else check_nodes show_id t (om_values (dt_nodes t))))"

section \<open>Pools\<close>

type_synonym world_pool = "discovery_tree list"

definition pool_push :: "(uuid \<Rightarrow> string) \<Rightarrow> discovery_tree \<Rightarrow> world_pool \<Rightarrow> (world_error, unit) outcome \<times> world_pool" where
  "pool_push show_id t pool =
     (case tree_validate show_id t of
        Ok _ \<Rightarrow> if list_ex (\<lambda>x. dt_tree_id x = dt_tree_id t) pool then (Err (DuplicateTree (dt_tree_id t)), pool) else (Ok (), pool @ [t])
      | Err e \<Rightarrow> (Err e, pool)
      | Panic \<Rightarrow> (Panic, pool))"

fun pool_pushes :: "(uuid \<Rightarrow> string) \<Rightarrow> discovery_tree list \<Rightarrow> world_pool \<Rightarrow> (world_error, world_pool) outcome" where
  "pool_pushes show_id [] pool = Ok pool"
| "pool_pushes show_id (t # ts) pool =
     (case pool_push show_id t pool of
        (Ok _, pool') \<Rightarrow> pool_pushes show_id ts pool'
      | (Err e, _) \<Rightarrow> Err e
      | (Panic, _) \<Rightarrow> Panic)"

definition pool_from_trees :: "(uuid \<Rightarrow> string) \<Rightarrow> discovery_tree list \<Rightarrow> (world_error, world_pool) outcome" where
  "pool_from_trees show_id ts = pool_pushes show_id ts []"

section \<open>Exploring\<close>

datatype explore_error = ExploreExecution string | ExploreWorld world_error

type_synonym 'x executor = "strategy_variant \<Rightarrow> 'x \<Rightarrow> (string, experiment_outcome) outcome \<times> 'x"

definition explore_start ::
  "'x executor \<Rightarrow> uuid \<Rightarrow> uuid \<Rightarrow> strategy_variant \<Rightarrow> 'x \<Rightarrow> (explore_error, discovery_tree) outcome \<times> 'x" where
  "explore_start execute root_id tree_id v x =
     (case execute v x of
        (Ok outc, x') \<Rightarrow> (Ok (tree_with_id root_id tree_id v outc), x')
      | (Err e, x') \<Rightarrow> (Err (ExploreExecution e), x')
      | (Panic, x') \<Rightarrow> (Panic, x'))"

fun validate_children :: "discovery_tree \<Rightarrow> uuid \<Rightarrow> strategy_variant list \<Rightarrow> (world_error, unit) outcome" where
  "validate_children t parent_id [] = Ok ()"
| "validate_children t parent_id (v # vs) = and_then (validate_child t parent_id v) (\<lambda>_. validate_children t parent_id vs)"

text \<open>Each variant comes with the identifier its node gets. An error keeps what was appended before it.\<close>

fun explore_each ::
  "'x executor \<Rightarrow> uuid \<Rightarrow> (strategy_variant \<times> uuid) list \<Rightarrow> discovery_tree \<Rightarrow> 'x \<Rightarrow>
     (explore_error, uuid list) outcome \<times> discovery_tree \<times> 'x" where
  "explore_each execute parent_id [] t x = (Ok [], t, x)"
| "explore_each execute parent_id ((v, uid) # vs) t x =
     (case execute v x of
        (Ok outc, x') \<Rightarrow>
          (case tree_append uid parent_id v outc t of
             (Ok nid, t') \<Rightarrow>
               (case explore_each execute parent_id vs t' x' of
                  (Ok ids, t'', x'') \<Rightarrow> (Ok (nid # ids), t'', x'')
                | r \<Rightarrow> r)
           | (Err e, t') \<Rightarrow> (Err (ExploreWorld e), t', x')
           | (Panic, t') \<Rightarrow> (Panic, t', x'))
      | (Err e, x') \<Rightarrow> (Err (ExploreExecution e), t, x')
      | (Panic, x') \<Rightarrow> (Panic, t, x'))"

definition explore_expand ::
  "'x executor \<Rightarrow> uuid \<Rightarrow> (strategy_variant \<times> uuid) list \<Rightarrow> discovery_tree \<Rightarrow> 'x \<Rightarrow>
     (explore_error, uuid list) outcome \<times> discovery_tree \<times> 'x" where
  "explore_expand execute parent_id vs t x =
     (case validate_children t parent_id (map fst vs) of
        Ok _ \<Rightarrow> explore_each execute parent_id vs t x
      | Err e \<Rightarrow> (Err (ExploreWorld e), t, x)
      | Panic \<Rightarrow> (Panic, t, x))"

section \<open>Stores\<close>

datatype dream_store_error = DsIo | DsJson | DsWorld world_error | DsInvalidLine nat string

definition memory_append :: "(uuid \<Rightarrow> string) \<Rightarrow> discovery_tree \<Rightarrow> world_pool \<Rightarrow> (dream_store_error, unit) outcome \<times> world_pool" where
  "memory_append show_id t pool = (case pool_push show_id t pool of (r, pool') \<Rightarrow> (map_error DsWorld r, pool'))"

definition memory_load :: "world_pool \<Rightarrow> (dream_store_error, world_pool) outcome" where
  "memory_load pool = Ok pool"

text \<open>
  The file is \<open>None\<close> until it is created. A fault at opening covers the creation of the directory; a write
  that stops inside the tree's text is an error of the serialiser.
\<close>

definition jsonl_append ::
  "(uuid \<Rightarrow> string) \<Rightarrow> (discovery_tree \<Rightarrow> string) \<Rightarrow> journal_fault \<Rightarrow> discovery_tree \<Rightarrow> string option \<Rightarrow>
     (dream_store_error, unit) outcome \<times> string option" where
  "jsonl_append show_id ser fault t contents =
     (case tree_validate show_id t of
        Ok _ \<Rightarrow>
          (case fault of
             AtOpen \<Rightarrow> (Err DsIo, contents)
           | _ \<Rightarrow>
               (case journal_append ser fault t (case contents of Some s \<Rightarrow> s | None \<Rightarrow> []) of
                  (Ok _, s) \<Rightarrow> (Ok (), Some s)
                | (Err WriteFailed, s) \<Rightarrow>
                    (Err (case fault of AfterBytes n \<Rightarrow> if n < length (ser t) then DsJson else DsIo | _ \<Rightarrow> DsIo), Some s)
                | (Err _, s) \<Rightarrow> (Err DsIo, Some s)
                | (Panic, s) \<Rightarrow> (Panic, Some s)))
      | Err e \<Rightarrow> (Err (DsWorld e), contents)
      | Panic \<Rightarrow> (Panic, contents))"

text \<open>\<open>de\<close> gives the parser's message for a line it refuses; \<open>bad_line\<close> is the line at which reading fails, if any.\<close>

fun jsonl_lines ::
  "(uuid \<Rightarrow> string) \<Rightarrow> (string \<Rightarrow> (string, discovery_tree) outcome) \<Rightarrow> nat option \<Rightarrow> nat \<Rightarrow> string list \<Rightarrow> world_pool \<Rightarrow>
     (dream_store_error, world_pool) outcome" where
  "jsonl_lines show_id de bad_line i [] pool = (if bad_line = Some i then Err DsIo else Ok pool)"
| "jsonl_lines show_id de bad_line i (l # ls) pool =
     (if bad_line = Some i then Err DsIo
      else if trim l = [] then jsonl_lines show_id de bad_line (i + 1) ls pool
      else and_then (map_error (DsInvalidLine (i + 1)) (de l)) (\<lambda>t.
        case pool_push show_id t pool of
          (Ok _, pool') \<Rightarrow> jsonl_lines show_id de bad_line (i + 1) ls pool'
        | (Err e, _) \<Rightarrow> Err (DsWorld e)
        | (Panic, _) \<Rightarrow> Panic))"

definition jsonl_load ::
  "(uuid \<Rightarrow> string) \<Rightarrow> (string \<Rightarrow> (string, discovery_tree) outcome) \<Rightarrow> bool \<Rightarrow> nat option \<Rightarrow> string option \<Rightarrow>
     (dream_store_error, world_pool) outcome" where
  "jsonl_load show_id de opens bad_line contents =
     (case contents of
        None \<Rightarrow> Ok []
      | Some s \<Rightarrow> if \<not> opens then Err DsIo else jsonl_lines show_id de bad_line 0 (split_lines [] s) [])"


section \<open>The walk to the root, exactly\<close>

fun ancestor :: "discovery_tree \<Rightarrow> nat \<Rightarrow> uuid \<Rightarrow> uuid option" where
  "ancestor t 0 n = Some n"
| "ancestor t (Suc k) n = Option.bind (ancestor t k n) (\<lambda>m. Option.bind (om_get m (dt_nodes t)) dn_parent_id)"

definition saturated32 :: "nat \<Rightarrow> u32" where
  "saturated32 k = of_nat (min k (2 ^ 32 - 1))"

lemma saturated32_0: "saturated32 0 = 0"
  by (simp add: saturated32_def)

lemma saturated32_Suc: "saturating_succ (saturated32 k) = saturated32 (Suc k)"
proof (cases "k < 2 ^ 32 - 1")
  case True
  then have "unat (of_nat k :: u32) = k" by (simp add: unat_of_nat)
  moreover have "unat (- 1 :: u32) = 2 ^ 32 - 1" by (simp add: unsigned_minus_1_eq_mask mask_eq_exp_minus_1)
  ultimately have "(of_nat k :: u32) \<noteq> - 1" using True by (metis less_irrefl)
  with True show ?thesis by (simp add: saturated32_def saturating_succ_def min_def ac_simps)
next
  case False
  have "(of_nat (2 ^ 32 - 1) :: u32) = - 1" by (simp add: word_eq_iff_unsigned unsigned_minus_1_eq_mask mask_eq_exp_minus_1)
  with False show ?thesis by (simp add: saturated32_def saturating_succ_def min_def)
qed

lemma ancestor_add: "ancestor t (k + j) n = Option.bind (ancestor t k n) (ancestor t j)"
  by (induction j) (simp_all add: bind_assoc [symmetric])

lemma ancestor_prefix: "ancestor t (k + j) n \<noteq> None \<Longrightarrow> ancestor t k n \<noteq> None"
  by (cases "ancestor t k n") (simp_all add: ancestor_add)

lemma ancestor_loops:
  assumes "i < j" "ancestor t i n = Some c" "ancestor t j n = Some c"
  shows "ancestor t k n \<noteq> None"
proof (induction k rule: less_induct)
  case (less k)
  show ?case
  proof (cases "k \<le> j")
    case True
    with assms(3) show ?thesis using ancestor_prefix [of t k "j - k" n] by simp
  next
    case False
    then have "k = j + (k - j)" "i + (k - j) < k" using assms(1) by auto
    with less [of "i + (k - j)"] assms(2,3) show ?thesis by (metis ancestor_add bind.simps(2))
  qed
qed

text \<open>The chain of parents stops at \<open>m\<close> after \<open>k\<close> steps.\<close>

definition chain_ends :: "discovery_tree \<Rightarrow> uuid \<Rightarrow> nat \<Rightarrow> uuid \<Rightarrow> bool" where
  "chain_ends t n k m \<longleftrightarrow> ancestor t k n = Some m \<and> Option.bind (om_get m (dt_nodes t)) dn_parent_id = None"

lemma chain_ends_stops: "chain_ends t n k m \<Longrightarrow> ancestor t (Suc k) n = None"
  by (simp add: chain_ends_def)

lemma chain_ends_unique:
  assumes "chain_ends t n k m" "chain_ends t n k' m'"
  shows "k' = k \<and> m' = m"
proof -
  have shorter: "j \<le> i" if "chain_ends t n i x" "chain_ends t n j y" for i j x y
  proof (rule ccontr)
    assume "\<not> j \<le> i"
    then have "ancestor t (Suc i + (j - Suc i)) n = ancestor t j n" by simp
    with that(2) have "ancestor t (Suc i) n \<noteq> None" using ancestor_prefix [of t "Suc i" "j - Suc i" n] by (simp add: chain_ends_def)
    with chain_ends_stops [OF that(1)] show False by simp
  qed
  then have "k' = k" using assms by (meson le_antisym)
  with assms show ?thesis by (simp add: chain_ends_def)
qed

lemma depth_walk_cases:
  assumes "seen = {m. \<exists>i<k. ancestor t i n = Some m}" "ancestor t k n = Some current"
  shows "(\<exists>c. depth_walk t seen (saturated32 k) current = Err (TreeCycle c) \<and> (\<forall>j. ancestor t j n \<noteq> None))
    \<or> (\<exists>j m. chain_ends t n j m \<and> depth_walk t seen (saturated32 k) current =
          (if om_get m (dt_nodes t) = None then Err (MissingNode m) else Ok (saturated32 j)))"
  using assms
proof (induction t seen "saturated32 k" current arbitrary: k rule: depth_walk.induct)
  case (1 t seen current)
  show ?case
  proof (cases "current \<in> seen")
    case True
    with "1.prems" obtain i where "i < k" "ancestor t i n = Some current" by auto
    with "1.prems"(2) True show ?thesis using ancestor_loops by (simp add: depth_walk.simps)
  next
    case fresh: False
    show ?thesis
    proof (cases "Option.bind (om_get current (dt_nodes t)) dn_parent_id")
      case None
      then have "chain_ends t n k current" using "1.prems"(2) by (simp add: chain_ends_def)
      moreover have "depth_walk t seen (saturated32 k) current =
          (if om_get current (dt_nodes t) = None then Err (MissingNode current) else Ok (saturated32 k))"
        using fresh None by (subst depth_walk.simps) (auto simp: bind_eq_None_conv split: option.split)
      ultimately show ?thesis by blast
    next
      case (Some p)
      then obtain node where node: "om_get current (dt_nodes t) = Some node" "dn_parent_id node = Some p"
        by (auto simp: bind_eq_Some_conv)
      have "depth_walk t seen (saturated32 k) current = depth_walk t (insert current seen) (saturated32 (Suc k)) p"
        using fresh node by (subst depth_walk.simps) (simp add: saturated32_Suc)
      moreover have "insert current seen = {m. \<exists>i<Suc k. ancestor t i n = Some m}"
        using "1.prems" by (auto simp: less_Suc_eq)
      moreover have "ancestor t (Suc k) n = Some p" using "1.prems"(2) Some by simp
      ultimately show ?thesis using "1.hyps" [OF fresh node, of "Suc k"] by (simp add: saturated32_Suc)
    qed
  qed
qed

lemma tree_depth_cases:
  "(\<exists>c. tree_depth t n = Err (TreeCycle c)) \<and> (\<forall>j. ancestor t j n \<noteq> None)
    \<or> (\<exists>j m. chain_ends t n j m \<and>
        tree_depth t n = (if om_get m (dt_nodes t) = None then Err (MissingNode m) else Ok (saturated32 j)))"
  using depth_walk_cases [of "{}" 0 t n n] by (auto simp: tree_depth_def saturated32_0)

text \<open>
  C40. The depth of a node is decided on any data, trees with cycles and dangling parents included. The walk always
  returns: the number of steps to a node without parent, at most the largest 32-bit number, exactly when the
  chain of parents reaches one; the missing node exactly when the chain leads out of the map; and a cycle
  exactly when the chain never ends.
\<close>

theorem tree_depth_exact:
  "(\<forall>d. tree_depth t n = Ok d \<longleftrightarrow> (\<exists>k m. chain_ends t n k m \<and> om_get m (dt_nodes t) \<noteq> None \<and> d = saturated32 k))
   \<and> (\<forall>m. tree_depth t n = Err (MissingNode m) \<longleftrightarrow> (\<exists>k. chain_ends t n k m \<and> om_get m (dt_nodes t) = None))
   \<and> ((\<exists>c. tree_depth t n = Err (TreeCycle c)) \<longleftrightarrow> (\<forall>k. ancestor t k n \<noteq> None))
   \<and> tree_depth t n \<noteq> Panic"
proof -
  consider (cycle) c where "tree_depth t n = Err (TreeCycle c)" "\<forall>j. ancestor t j n \<noteq> None"
    | (ends) j m where "chain_ends t n j m"
        "tree_depth t n = (if om_get m (dt_nodes t) = None then Err (MissingNode m) else Ok (saturated32 j))"
    using tree_depth_cases [of t n] by blast
  then show ?thesis
  proof cases
    case cycle
    then have "\<not> chain_ends t n k m" for k m using chain_ends_stops by blast
    with cycle show ?thesis by simp
  next
    case (ends j m)
    have "chain_ends t n k m' \<longleftrightarrow> k = j \<and> m' = m" for k m' using chain_ends_unique [OF ends(1)] ends(1) by blast
    moreover have "\<exists>k. ancestor t k n = None" using chain_ends_stops [OF ends(1)] by blast
    ultimately show ?thesis using ends(2) by auto
  qed
qed


section \<open>Grown trees\<close>

definition tree_keys :: "discovery_tree \<Rightarrow> uuid set" where
  "tree_keys t = fst ` set (dt_nodes t)"

lemma tree_keys_get: "n \<in> tree_keys t \<longleftrightarrow> om_get n (dt_nodes t) \<noteq> None"
  by (simp add: tree_keys_def om_get_def map_of_eq_None_iff)

definition child_ok :: "discovery_tree \<Rightarrow> discovery_node \<Rightarrow> bool" where
  "child_ok t n \<longleftrightarrow> (\<exists>p. dn_parent_id n = Some p \<and> p \<in> tree_keys t \<and> validate_child t p (dn_variant n) = Ok ())"

definition tree_inv :: "discovery_tree \<Rightarrow> bool" where
  "tree_inv t \<longleftrightarrow> om_sorted (dt_nodes t)
     \<and> (\<forall>k n. om_get k (dt_nodes t) = Some n \<longrightarrow> dn_node_id n = k)
     \<and> (\<exists>r. om_get (dt_root_id t) (dt_nodes t) = Some r \<and> dn_parent_id r = None
            \<and> sv_parent_variant_id (dn_variant r) = None \<and> sv_generation (dn_variant r) = 0)
     \<and> (\<forall>k n. om_get k (dt_nodes t) = Some n \<and> k \<noteq> dt_root_id t \<longrightarrow> child_ok t n)
     \<and> (\<forall>k\<in>tree_keys t. \<exists>j. ancestor t j k = Some (dt_root_id t))"

lemma start_inv:
  "sv_parent_variant_id v = None \<Longrightarrow> sv_generation v = 0 \<Longrightarrow> tree_inv (tree_with_id r tid v outc)"
  by (auto simp: tree_inv_def tree_with_id_def om_sorted_def om_get_def tree_keys_def child_ok_def intro: exI [of _ 0] split: if_splits)

lemma check_nodes_ok:
  assumes "\<forall>n\<in>set ns. dn_node_id n \<noteq> dt_root_id t \<longrightarrow> child_ok t n \<and> (\<exists>d. tree_depth t (dn_node_id n) = Ok d)"
  shows "check_nodes show_id t ns = Ok ()"
  using assms by (induction ns) (auto simp: child_ok_def)

lemma root_reached_depth:
  assumes "ancestor t j k = Some r" "om_get r (dt_nodes t) = Some n" "dn_parent_id n = None"
  shows "tree_depth t k = Ok (saturated32 j)"
proof -
  have c: "chain_ends t k j r" using assms by (simp add: chain_ends_def)
  have "\<not> (\<forall>i. ancestor t i k \<noteq> None)" using chain_ends_stops [OF c] by blast
  then obtain i m where i: "chain_ends t k i m"
      "tree_depth t k = (if om_get m (dt_nodes t) = None then Err (MissingNode m) else Ok (saturated32 i))"
    using tree_depth_cases [of t k] by blast
  with chain_ends_unique [OF c i(1)] assms(2) show ?thesis by simp
qed

lemma tree_inv_valid:
  assumes "tree_inv t"
  shows "tree_validate show_id t = Ok ()"
proof -
  from assms obtain r where r: "om_get (dt_root_id t) (dt_nodes t) = Some r" "dn_parent_id r = None"
      "sv_parent_variant_id (dn_variant r) = None" "sv_generation (dn_variant r) = 0" unfolding tree_inv_def by blast
  have "child_ok t n \<and> (\<exists>d. tree_depth t (dn_node_id n) = Ok d)"
    if "n \<in> set (om_values (dt_nodes t))" "dn_node_id n \<noteq> dt_root_id t" for n
  proof -
    from that(1) obtain k where "(k, n) \<in> set (dt_nodes t)" by (auto simp: om_values_def)
    then have k: "om_get k (dt_nodes t) = Some n" using assms om_entries_get [of "dt_nodes t" k n] by (simp add: tree_inv_def)
    then have id: "dn_node_id n = k" "k \<in> tree_keys t" using assms by (auto simp: tree_inv_def tree_keys_get)
    with assms obtain j where "ancestor t j k = Some (dt_root_id t)" unfolding tree_inv_def by blast
    from root_reached_depth [OF this r(1,2)] that(2) k id assms show ?thesis unfolding tree_inv_def by blast
  qed
  then have "check_nodes show_id t (om_values (dt_nodes t)) = Ok ()" by (intro check_nodes_ok) blast
  moreover have "dt_nodes t \<noteq> []" using r(1) by (auto simp: om_get_def)
  ultimately show ?thesis using r by (simp add: tree_validate_def tree_root_def tree_node_def)
qed

text \<open>A node appended under a fresh id changes nothing about the others.\<close>

lemma ancestor_stable:
  assumes "tree_inv t" "om_get k (dt_nodes t) \<noteq> None" "\<And>x. om_get x (dt_nodes t) \<noteq> None \<Longrightarrow> om_get x (dt_nodes t') = om_get x (dt_nodes t)"
  shows "ancestor t' j k = ancestor t j k \<and> (\<forall>m. ancestor t j k = Some m \<longrightarrow> om_get m (dt_nodes t) \<noteq> None)"
proof (induction j)
  case (Suc j)
  show ?case
  proof (cases "ancestor t j k")
    case (Some m)
    with Suc have m: "om_get m (dt_nodes t) \<noteq> None" "ancestor t' j k = Some m" by auto
    then obtain n where n: "om_get m (dt_nodes t) = Some n" by blast
    have "om_get p (dt_nodes t) \<noteq> None" if "dn_parent_id n = Some p" for p
    proof (cases "m = dt_root_id t")
      case True
      with n that assms(1) show ?thesis by (auto simp: tree_inv_def)
    next
      case False
      with n assms(1) have "child_ok t n" unfolding tree_inv_def by blast
      with that show ?thesis by (auto simp: child_ok_def tree_keys_get)
    qed
    with Some m n assms(3) [OF m(1)] show ?thesis by auto
  qed (use Suc in simp)
qed (use assms(2) in simp)

lemma validate_child_stable:
  "(\<And>x. om_get x (dt_nodes t) \<noteq> None \<Longrightarrow> om_get x (dt_nodes t') = om_get x (dt_nodes t)) \<Longrightarrow> p \<in> tree_keys t \<Longrightarrow>
     validate_child t' p v = validate_child t p v"
  by (simp add: validate_child_def tree_node_def tree_keys_get)

lemma append_inv:
  assumes "tree_inv t" "uid \<notin> tree_keys t" "tree_append uid p v outc t = (Ok nid, t')"
  shows "tree_inv t' \<and> dt_root_id t' = dt_root_id t \<and> tree_keys t' = insert uid (tree_keys t) \<and> nid = uid
    \<and> (\<forall>k\<in>tree_keys t. om_get k (dt_nodes t') = om_get k (dt_nodes t))"
proof -
  from assms(3) have ok: "validate_child t p v = Ok ()" and nid: "nid = uid"
    by (auto simp: tree_append_def split: outcome.splits)
  define new where "new = \<lparr>dn_node_id = uid, dn_parent_id = Some p, dn_variant = v, dn_outcome = outc,
                dn_created_seq = of_nat (length (dt_nodes t))\<rparr>"
  from assms(3) ok have t': "dt_nodes t' = om_insert uid new (dt_nodes t)" "dt_root_id t' = dt_root_id t"
    by (auto simp: tree_append_def new_def)
  have sorted: "om_sorted (dt_nodes t)" using assms(1) by (simp add: tree_inv_def)
  have got: "om_get k (dt_nodes t') = (if k = uid then Some new else om_get k (dt_nodes t))" for k
    unfolding t'(1) by (rule om_get_insert [OF sorted])
  have same: "om_get x (dt_nodes t') = om_get x (dt_nodes t)" if "om_get x (dt_nodes t) \<noteq> None" for x
    using that assms(2) by (auto simp: got tree_keys_get)
  have keys: "tree_keys t' = insert uid (tree_keys t)" unfolding tree_keys_def t'(1) by (rule set_om_insert)
  have p: "p \<in> tree_keys t" using ok by (auto simp: validate_child_def tree_node_def tree_keys_get outcome_simps)
  have child: "child_ok t' n" if "child_ok t n" for n
    using that validate_child_stable [OF same] by (auto simp: child_ok_def keys)
  have "child_ok t' new" using validate_child_stable [OF same p] ok p by (auto simp: child_ok_def new_def keys)
  with child assms(1,2) have kids: "\<forall>k n. om_get k (dt_nodes t') = Some n \<and> k \<noteq> dt_root_id t' \<longrightarrow> child_ok t' n"
    by (simp add: got t'(2) tree_inv_def)
  have reach: "\<exists>j. ancestor t' j k = Some (dt_root_id t)" if k: "k \<in> tree_keys t" for k
  proof -
    from assms(1) k obtain j where "ancestor t j k = Some (dt_root_id t)" unfolding tree_inv_def by blast
    with ancestor_stable [OF assms(1) _ same, of k j] k show ?thesis by (auto simp: tree_keys_get)
  qed
  from reach [OF p] obtain j where "ancestor t' j p = Some (dt_root_id t)" ..
  moreover have "ancestor t' (1 + j) uid = ancestor t' j p" unfolding ancestor_add by (simp add: got new_def)
  ultimately have "\<exists>j. ancestor t' j uid = Some (dt_root_id t)" by metis
  with reach have reach': "\<forall>k\<in>tree_keys t'. \<exists>j. ancestor t' j k = Some (dt_root_id t')" by (simp add: keys t'(2))
  have root: "dt_root_id t \<in> tree_keys t" using assms(1) by (auto simp: tree_inv_def tree_keys_get)
  with assms(2) have "om_get (dt_root_id t') (dt_nodes t') = om_get (dt_root_id t) (dt_nodes t)" by (auto simp: got t'(2))
  then have root': "\<exists>r. om_get (dt_root_id t') (dt_nodes t') = Some r \<and> dn_parent_id r = None
      \<and> sv_parent_variant_id (dn_variant r) = None \<and> sv_generation (dn_variant r) = 0"
    using assms(1) by (simp add: tree_inv_def)
  have ids: "dn_node_id n = k" if "om_get k (dt_nodes t') = Some n" for k n
    using that assms(1) by (auto simp: got new_def tree_inv_def split: if_splits)
  have "om_sorted (dt_nodes t')" unfolding t'(1) by (rule om_insert_sorted [OF sorted])
  with ids root' kids reach' have "tree_inv t'" unfolding tree_inv_def by blast
  with keys t'(2) nid same show ?thesis by (simp add: tree_keys_get)
qed

lemma explore_each_inv:
  assumes "tree_inv t" "distinct (map snd vs)" "set (map snd vs) \<inter> tree_keys t = {}" "explore_each execute p vs t x = (r, t', x')"
  shows "tree_inv t' \<and> dt_root_id t' = dt_root_id t \<and> tree_keys t \<subseteq> tree_keys t' \<and> tree_keys t' \<subseteq> tree_keys t \<union> set (map snd vs)
    \<and> (\<forall>k\<in>tree_keys t. om_get k (dt_nodes t') = om_get k (dt_nodes t))
    \<and> (\<forall>ids. r = Ok ids \<longrightarrow> ids = map snd vs \<and> tree_keys t' = tree_keys t \<union> set (map snd vs))"
  using assms
proof (induction execute p vs t x arbitrary: r t' x' rule: explore_each.induct)
  case (2 execute p v uid vs t x)
  obtain r1 x1 where ex: "execute v x = (r1, x1)" by (cases "execute v x")
  show ?case
  proof (cases r1)
    case (Ok outc)
    obtain r2 t2 where ap: "tree_append uid p v outc t = (r2, t2)" by (cases "tree_append uid p v outc t")
    show ?thesis
    proof (cases r2)
      case ok2: (Ok nid)
      have inv: "tree_inv t2" "dt_root_id t2 = dt_root_id t" "tree_keys t2 = insert uid (tree_keys t)" "nid = uid"
          "\<forall>k\<in>tree_keys t. om_get k (dt_nodes t2) = om_get k (dt_nodes t)"
        using append_inv [OF "2.prems"(1) _ ap [unfolded ok2]] "2.prems"(3) by auto
      obtain r3 t3 x3 where rest: "explore_each execute p vs t2 x1 = (r3, t3, x3)" by (cases "explore_each execute p vs t2 x1")
      have r: "t' = t3" "r = (case r3 of Ok ids \<Rightarrow> Ok (nid # ids) | _ \<Rightarrow> r3)"
        using "2.prems"(4) ex Ok ap ok2 rest by (auto split: outcome.splits)
      from "2.prems"(2,3) inv(3) have fresh: "distinct (map snd vs)" "set (map snd vs) \<inter> tree_keys t2 = {}" by auto
      from "2.IH" [OF ex [symmetric] Ok ap [symmetric] ok2 inv(1) fresh rest]
      show ?thesis using inv r by (auto split: outcome.splits)
    qed (use "2.prems" ex Ok ap in \<open>auto simp: tree_append_def split: outcome.splits\<close>)
  qed (use "2.prems" ex in auto)
qed auto

text \<open>A session of the explorer: expansions of nodes, each with its variants and their ids.\<close>

fun explore_run ::
  "'x executor \<Rightarrow> (uuid \<times> (strategy_variant \<times> uuid) list) list \<Rightarrow> discovery_tree \<Rightarrow> 'x \<Rightarrow> discovery_tree \<times> 'x" where
  "explore_run execute [] t x = (t, x)"
| "explore_run execute ((p, vs) # rest) t x =
     (case explore_expand execute p vs t x of (_, t', x') \<Rightarrow> explore_run execute rest t' x')"

definition call_ids :: "(uuid \<times> (strategy_variant \<times> uuid) list) list \<Rightarrow> uuid list" where
  "call_ids calls = concat (map (\<lambda>(p, vs). map snd vs) calls)"

lemma call_ids_simps [simp]:
  "call_ids [] = []" "call_ids ((p, vs) # calls) = map snd vs @ call_ids calls" "call_ids (xs @ ys) = call_ids xs @ call_ids ys"
  by (simp_all add: call_ids_def)

lemma explore_run_inv:
  assumes "tree_inv t" "distinct (call_ids calls)"
    "set (call_ids calls) \<inter> tree_keys t = {}"
  shows "tree_inv (fst (explore_run execute calls t x)) \<and> dt_root_id (fst (explore_run execute calls t x)) = dt_root_id t
    \<and> tree_keys (fst (explore_run execute calls t x)) \<subseteq> tree_keys t \<union> set (call_ids calls)
    \<and> (\<forall>k\<in>tree_keys t. om_get k (dt_nodes (fst (explore_run execute calls t x))) = om_get k (dt_nodes t))"
  using assms
proof (induction calls arbitrary: t x)
  case (Cons c calls)
  obtain p vs where c: "c = (p, vs)" by (cases c)
  obtain r t' x' where ex: "explore_expand execute p vs t x = (r, t', x')" by (cases "explore_expand execute p vs t x")
  have fresh: "distinct (map snd vs)" "set (map snd vs) \<inter> tree_keys t = {}" using Cons.prems(2,3) c by auto
  have step: "tree_inv t' \<and> dt_root_id t' = dt_root_id t \<and> tree_keys t \<subseteq> tree_keys t' \<and> tree_keys t' \<subseteq> tree_keys t \<union> set (map snd vs)
      \<and> (\<forall>k\<in>tree_keys t. om_get k (dt_nodes t') = om_get k (dt_nodes t))"
    using ex explore_each_inv [OF Cons.prems(1) fresh, of execute p x r t' x'] Cons.prems(1)
    by (cases "validate_children t p (map fst vs)") (auto simp: explore_expand_def)
  moreover have "set (call_ids calls) \<inter> tree_keys t' = {}"
  proof -
    have "set (call_ids calls) \<inter> set (map snd vs) = {}" using Cons.prems(2) c by auto
    moreover from step have "tree_keys t' \<subseteq> tree_keys t \<union> set (map snd vs)" by simp
    ultimately show ?thesis using Cons.prems(3) c by (simp only: call_ids_simps set_append) blast
  qed
  ultimately show ?case using Cons.IH [of t' x'] Cons.prems(2) c ex by auto
qed simp

text \<open>
  Recorded worlds are trees and keep their past. Starting from a root variant, whatever the executor answers and
  whichever expansions fail halfway, with fresh node ids every tree the explorer has grown passes validation,
  every node in it has a finite depth and descends from the root, and every node recorded earlier is still there
  unchanged.
\<close>

theorem explored_worlds_valid:
  assumes "sv_parent_variant_id v = None" "sv_generation v = 0"
    "explore_start execute root_id tree_id v x0 = (Ok t, x1)"
    "distinct (root_id # call_ids (earlier @ later))"
    "explore_run execute earlier t x1 = (t1, x2)" "explore_run execute later t1 x2 = (t2, x3)"
  shows "tree_validate show_id t2 = Ok ()
    \<and> (\<forall>k\<in>tree_keys t2. \<exists>j. ancestor t2 j k = Some root_id \<and> tree_depth t2 k = Ok (saturated32 j))
    \<and> (\<forall>k\<in>tree_keys t1. om_get k (dt_nodes t2) = om_get k (dt_nodes t1))"
proof -
  from assms(3) obtain outc where t: "t = tree_with_id root_id tree_id v outc" by (auto simp: explore_start_def split: prod.splits outcome.splits)
  have keys: "tree_keys t = {root_id}" "dt_root_id t = root_id" by (simp_all add: t tree_with_id_def tree_keys_def)
  have inv: "tree_inv t" using start_inv assms(1,2) t by blast
  have first: "tree_inv t1" "dt_root_id t1 = root_id"
    using explore_run_inv [OF inv, of earlier execute x1] assms(4,5) keys by auto
  have run: "explore_run execute (earlier @ later) t x1 = (t2, x3)"
  proof -
    have "explore_run execute (xs @ later) s y = (case explore_run execute xs s y of (s', y') \<Rightarrow> explore_run execute later s' y')" for xs s y
      by (induction execute xs s y rule: explore_run.induct) (auto split: prod.split)
    with assms(5,6) show ?thesis by simp
  qed
  have final: "tree_inv t2" "dt_root_id t2 = root_id"
    using explore_run_inv [OF inv, of "earlier @ later" execute x1] assms(4) run keys by auto
  have sub: "tree_keys t1 \<subseteq> {root_id} \<union> set (call_ids earlier)"
    using assms(5) explore_run_inv [OF inv, of earlier execute x1] assms(4) keys by auto
  with assms(4) have "set (call_ids later) \<inter> tree_keys t1 = {}" by auto
  with explore_run_inv [OF first(1), of later execute x2] assms(4,6)
  have "\<forall>k\<in>tree_keys t1. om_get k (dt_nodes t2) = om_get k (dt_nodes t1)" by simp
  moreover obtain r where "om_get root_id (dt_nodes t2) = Some r" "dn_parent_id r = None" using final by (auto simp: tree_inv_def)
  ultimately show ?thesis using tree_inv_valid [OF final(1)] final root_reached_depth unfolding tree_inv_def by blast
qed


definition demo_outcome :: experiment_outcome where
  "demo_outcome = \<lparr>eo_success = True,
     eo_metrics = \<lparr>em_net_return_pct = Finite 1, em_sharpe = Finite 1, em_max_drawdown_pct = Finite 0, em_trades = 3,
       em_turnover = Finite 0, em_execution_cost_bps = Finite 0\<rparr>,
     eo_cost_units = 2, eo_diagnostics = []\<rparr>"

definition demo_world :: discovery_tree where
  "demo_world = tree_with_id 1 9 (root_variant 5 ''r'' []) demo_outcome"

theorem explored_worlds_valid_witness:
  "tree_validate (\<lambda>_. []) (fst (explore_run (\<lambda>v x. (Ok demo_outcome, x))
     [(1, [(child_variant 6 (root_variant 5 ''r'' []) ''c'' [], 2), (child_variant 7 (root_variant 5 ''r'' []) ''d'' [], 3)])] demo_world ())) = Ok ()"
proof -
  let ?ex = "\<lambda>v x. (Ok demo_outcome, x) :: (string, experiment_outcome) outcome \<times> unit"
  let ?calls = "[(1, [(child_variant 6 (root_variant 5 ''r'' []) ''c'' [], 2), (child_variant 7 (root_variant 5 ''r'' []) ''d'' [], 3)])]"
  have "explore_start ?ex 1 9 (root_variant 5 ''r'' []) () = (Ok demo_world, ())" by (simp add: explore_start_def demo_world_def)
  moreover have "explore_run ?ex [] (fst (explore_run ?ex ?calls demo_world ())) () = (fst (explore_run ?ex ?calls demo_world ()), ())" by simp
  moreover have "explore_run ?ex ?calls demo_world () = (fst (explore_run ?ex ?calls demo_world ()), ())" by (simp add: prod_eq_iff)
  ultimately show ?thesis
    using explored_worlds_valid [of "root_variant 5 ''r'' []" ?ex 1 9 "()" demo_world "()" ?calls "[]" "fst (explore_run ?ex ?calls demo_world ())" "()"
        "fst (explore_run ?ex ?calls demo_world ())" "()" "\<lambda>_. []"]
    by (simp add: root_variant_def)
qed

section \<open>What the stores promise\<close>

text \<open>
  The contract of \<open>ExperimentStore\<close>: a valid tree whose id is new is appended and loaded back last, an invalid
  one is refused and changes nothing. \<open>good\<close> is what the encoding of the store can represent.
\<close>

locale experiment_store =
  fixes append :: "discovery_tree \<Rightarrow> 's \<Rightarrow> (dream_store_error, unit) outcome \<times> 's"
    and load :: "'s \<Rightarrow> (dream_store_error, world_pool) outcome"
    and inv :: "'s \<Rightarrow> bool"
    and init :: "'s"
    and valid :: "discovery_tree \<Rightarrow> (world_error, unit) outcome"
    and good :: "discovery_tree \<Rightarrow> bool"
  assumes inv_init: "inv init"
    and load_init: "load init = Ok []"
    and append_fresh: "inv s \<Longrightarrow> load s = Ok pool \<Longrightarrow> good t \<Longrightarrow> valid t = Ok () \<Longrightarrow> dt_tree_id t \<notin> dt_tree_id ` set pool \<Longrightarrow>
      \<exists>s'. append t s = (Ok (), s') \<and> inv s' \<and> load s' = Ok (pool @ [t])"
    and append_invalid: "valid t = Err e \<Longrightarrow> append t s = (Err (DsWorld e), s)"
begin

lemma appends_load:
  "inv s \<Longrightarrow> load s = Ok pool \<Longrightarrow> \<forall>t\<in>set ts. good t \<and> valid t = Ok () \<Longrightarrow> distinct (map dt_tree_id (pool @ ts)) \<Longrightarrow>
     load (fold (\<lambda>t s. snd (append t s)) ts s) = Ok (pool @ ts)"
proof (induction ts arbitrary: s pool)
  case (Cons t ts)
  then have "dt_tree_id t \<notin> dt_tree_id ` set pool" by auto
  with append_fresh [OF Cons.prems(1,2), of t] Cons.prems(3)
  obtain s' where "append t s = (Ok (), s')" "inv s'" "load s' = Ok (pool @ [t])" by force
  with Cons.IH [of s' "pool @ [t]"] Cons.prems(3,4) show ?case by simp
qed simp

lemma appends_from_init:
  "\<forall>t\<in>set ts. good t \<and> valid t = Ok () \<Longrightarrow> distinct (map dt_tree_id ts) \<Longrightarrow>
     load (fold (\<lambda>t s. snd (append t s)) ts init) = Ok ts"
  using appends_load [OF inv_init load_init, of ts] by simp

end

lemma list_ex_tree_id: "list_ex (\<lambda>x. dt_tree_id x = i) pool \<longleftrightarrow> i \<in> dt_tree_id ` set pool"
  by (auto simp: list_ex_iff)

interpretation memory: experiment_store "memory_append show_id" memory_load "\<lambda>_. True" "[]" "tree_validate show_id" "\<lambda>_. True"
  for show_id
  by unfold_locales (simp_all add: memory_append_def memory_load_def pool_push_def list_ex_tree_id)

definition tree_codec :: "(discovery_tree \<Rightarrow> string) \<Rightarrow> (string \<Rightarrow> (string, discovery_tree) outcome) \<Rightarrow> discovery_tree set \<Rightarrow> bool" where
  "tree_codec ser de S \<longleftrightarrow>
     (\<forall>t\<in>S. de (ser t) = Ok t \<and> newline \<notin> set (ser t) \<and> return_char \<notin> set (ser t) \<and> trim (ser t) \<noteq> [])"

definition whole_lines :: "string option \<Rightarrow> bool" where
  "whole_lines contents \<longleftrightarrow> (case contents of Some s \<Rightarrow> s = [] \<or> last s = newline | None \<Rightarrow> True)"

lemma split_lines_whole: "s = [] \<or> last s = newline \<Longrightarrow> split_lines [] (s @ r) = split_lines [] s @ split_lines [] r"
proof -
  have "split_lines acc (x @ newline # r) = split_lines acc (x @ [newline]) @ split_lines [] r" for acc x
    by (induction acc x rule: split_lines.induct) auto
  then show "s = [] \<or> last s = newline \<Longrightarrow> split_lines [] (s @ r) = split_lines [] s @ split_lines [] r"
    by (cases s rule: rev_cases) auto
qed

lemma jsonl_lines_append:
  "jsonl_lines show_id de None i ls pool = Ok pool' \<Longrightarrow>
     jsonl_lines show_id de None i (ls @ ls') pool = jsonl_lines show_id de None (i + length ls) ls' pool'"
proof (induction show_id de "None :: nat option" i ls pool rule: jsonl_lines.induct)
  case (2 show_id de i l ls pool)
  show ?case
  proof (cases "trim l = []")
    case False
    with "2.prems" obtain t where t: "de l = Ok t" by (auto simp: outcome_simps)
    with False "2.prems" obtain p1 where p1: "pool_push show_id t pool = (Ok (), p1)" "jsonl_lines show_id de None (i + 1) ls p1 = Ok pool'"
      by (auto split: prod.splits outcome.splits)
    from "2.hyps"(2) [OF _ False p1(1) [symmetric] refl p1(2)] False t p1(1) show ?thesis by simp
  qed (use 2 in simp)
qed simp

lemma jsonl_store:
  assumes "tree_codec ser de S"
  shows "experiment_store (jsonl_append show_id ser NoJournalFault) (jsonl_load show_id de True None) whole_lines None
    (tree_validate show_id) (\<lambda>t. t \<in> S)"
proof
  fix contents pool t
  assume s: "whole_lines contents" "jsonl_load show_id de True None contents = Ok pool" and t: "t \<in> S" "tree_validate show_id t = Ok ()"
    "dt_tree_id t \<notin> dt_tree_id ` set pool"
  define c where "c = (case contents of Some x \<Rightarrow> x | None \<Rightarrow> [])"
  have c: "c = [] \<or> last c = newline" "jsonl_lines show_id de None 0 (split_lines [] c) [] = Ok pool"
    using s by (auto simp: whole_lines_def jsonl_load_def c_def split: option.splits)
  have l: "de (ser t) = Ok t" "newline \<notin> set (ser t)" "return_char \<notin> set (ser t)" "trim (ser t) \<noteq> []"
    using assms t(1) by (auto simp: tree_codec_def)
  have "split_lines [] (c @ ser t @ [newline]) = split_lines [] c @ [ser t]"
    using split_lines_whole [OF c(1)] split_lines_line [OF l(2,3), of "[]" "[]"] by simp
  moreover have "jsonl_lines show_id de None (length (split_lines [] c)) [ser t] pool = Ok (pool @ [t])"
    using l(1,4) t(2,3) by (simp add: pool_push_def list_ex_tree_id)
  ultimately have "jsonl_load show_id de True None (Some (c @ ser t @ [newline])) = Ok (pool @ [t])"
    using jsonl_lines_append [OF c(2), of "[ser t]"] by (simp add: jsonl_load_def)
  moreover have "jsonl_append show_id ser NoJournalFault t contents = (Ok (), Some (c @ ser t @ [newline]))"
    using t(2) by (simp add: jsonl_append_def journal_append_def c_def)
  ultimately show "\<exists>s'. jsonl_append show_id ser NoJournalFault t contents = (Ok (), s') \<and> whole_lines s'
      \<and> jsonl_load show_id de True None s' = Ok (pool @ [t])"
    by (auto simp: whole_lines_def)
qed (simp_all add: whole_lines_def jsonl_load_def jsonl_append_def)

text \<open>The file after appends of valid trees, and what a repeated id does to it.\<close>

lemma jsonl_appends_file:
  "\<forall>t\<in>set ts. tree_validate show_id t = Ok () \<Longrightarrow> ts \<noteq> [] \<Longrightarrow>
     fold (\<lambda>t s. snd (jsonl_append show_id ser NoJournalFault t s)) ts contents =
       Some ((case contents of Some s \<Rightarrow> s | None \<Rightarrow> []) @ concat (map (\<lambda>t. ser t @ [newline]) ts))"
proof (induction ts arbitrary: contents)
  case (Cons t ts)
  have "snd (jsonl_append show_id ser NoJournalFault t contents) = Some ((case contents of Some s \<Rightarrow> s | None \<Rightarrow> []) @ ser t @ [newline])"
    using Cons.prems(1) by (simp add: jsonl_append_def journal_append_def)
  with Cons show ?case by (cases "ts = []") simp_all
qed simp

lemma jsonl_lines_duplicate:
  assumes "tree_codec ser de (set ts)" "\<forall>t\<in>set ts. tree_validate show_id t = Ok ()" "\<not> distinct (map dt_tree_id (pool @ ts))"
    "distinct (map dt_tree_id pool)"
  shows "\<exists>j. jsonl_lines show_id de None i (map ser ts) pool = Err (DsWorld (DuplicateTree j))"
  using assms
proof (induction ts arbitrary: i pool)
  case (Cons t ts)
  have t: "de (ser t) = Ok t" "trim (ser t) \<noteq> []" "tree_validate show_id t = Ok ()" using Cons.prems(1,2) by (simp_all add: tree_codec_def)
  show ?case
  proof (cases "dt_tree_id t \<in> dt_tree_id ` set pool")
    case True
    with t show ?thesis by (simp add: pool_push_def list_ex_tree_id)
  next
    case False
    with t have "jsonl_lines show_id de None i (map ser (t # ts)) pool = jsonl_lines show_id de None (i + 1) (map ser ts) (pool @ [t])"
      by (simp add: pool_push_def list_ex_tree_id)
    moreover have "\<exists>j. jsonl_lines show_id de None (i + 1) (map ser ts) (pool @ [t]) = Err (DsWorld (DuplicateTree j))"
      using Cons.prems False by (intro Cons.IH) (auto simp: tree_codec_def)
    ultimately show ?thesis by simp
  qed
qed simp

lemma split_written_trees:
  "tree_codec ser de (set ts) \<Longrightarrow> split_lines [] (concat (map (\<lambda>t. ser t @ [newline]) ts)) = map ser ts"
proof (induction ts)
  case (Cons t ts)
  then have "newline \<notin> set (ser t)" "return_char \<notin> set (ser t)" "tree_codec ser de (set ts)" by (simp_all add: tree_codec_def)
  with Cons.IH split_lines_line [of "ser t" "[]"] show ?case by simp
qed simp

text \<open>
  The two stores of worlds agree, as long as ids do not repeat. Valid trees with different ids, appended to either
  store, are loaded back exactly, in order. With a repeated id they part: the memory store refuses the second
  tree and goes on loading the first ones, while the file store accepts it, and from then on no load of that file
  succeeds.
\<close>

theorem dream_stores_agree:
  assumes "tree_codec ser de (set ts)" "\<forall>t\<in>set ts. tree_validate show_id t = Ok ()"
  shows "(distinct (map dt_tree_id ts) \<longrightarrow>
      jsonl_load show_id de True None (fold (\<lambda>t s. snd (jsonl_append show_id ser NoJournalFault t s)) ts None) = Ok ts
      \<and> memory_load (fold (\<lambda>t s. snd (memory_append show_id t s)) ts []) = Ok ts)
    \<and> (\<not> distinct (map dt_tree_id ts) \<longrightarrow>
      (\<exists>i. jsonl_load show_id de True None (fold (\<lambda>t s. snd (jsonl_append show_id ser NoJournalFault t s)) ts None) = Err (DsWorld (DuplicateTree i)))
      \<and> (\<exists>pool. memory_load (fold (\<lambda>t s. snd (memory_append show_id t s)) ts []) = Ok pool))"
proof (cases "distinct (map dt_tree_id ts)")
  case True
  with assms show ?thesis
    using experiment_store.appends_from_init [OF jsonl_store [OF assms(1)], of ts show_id] memory.appends_from_init [of ts show_id] by simp
next
  case False
  then have "ts \<noteq> []" by auto
  with jsonl_appends_file [OF assms(2), of ser None]
  have "jsonl_load show_id de True None (fold (\<lambda>t s. snd (jsonl_append show_id ser NoJournalFault t s)) ts None) =
      jsonl_lines show_id de None 0 (map ser ts) []"
    by (simp add: jsonl_load_def split_written_trees [OF assms(1)])
  with jsonl_lines_duplicate [OF assms, of "[]" 0] False show ?thesis by (simp add: memory_load_def)
qed

theorem dream_stores_agree_witness:
  "jsonl_load (\<lambda>_. []) (\<lambda>_. Ok demo_world) True None
     (fold (\<lambda>t s. snd (jsonl_append (\<lambda>_. []) (\<lambda>_. ''x'') NoJournalFault t s)) [demo_world] None) = Ok [demo_world]
   \<and> (\<exists>i. jsonl_load (\<lambda>_. []) (\<lambda>_. Ok demo_world) True None
     (fold (\<lambda>t s. snd (jsonl_append (\<lambda>_. []) (\<lambda>_. ''x'') NoJournalFault t s)) [demo_world, demo_world] None) = Err (DsWorld (DuplicateTree i)))"
proof -
  have codec: "tree_codec (\<lambda>_. ''x'') (\<lambda>_. Ok demo_world) {demo_world}"
    by (simp add: tree_codec_def newline_def return_char_def trim_def ws_len_def is_blank_def)
  have valid: "tree_validate (\<lambda>_. []) demo_world = Ok ()"
    by (rule tree_inv_valid) (simp add: demo_world_def root_variant_def start_inv)
  show ?thesis
    using dream_stores_agree [of "\<lambda>_. ''x''" "\<lambda>_. Ok demo_world" "[demo_world]" "\<lambda>_. []"]
      dream_stores_agree [of "\<lambda>_. ''x''" "\<lambda>_. Ok demo_world" "[demo_world, demo_world]" "\<lambda>_. []"] codec valid by simp
qed

end
