(* ===== verification/DreamReplay.thy ===== *)
theory DreamReplay
  imports DreamWorld
begin

text \<open>
  Evaluation, exploration policies, replay and policy improvement of the offline research service:
  \<open>score.rs\<close>, \<open>policy.rs\<close> and \<open>replay.rs\<close> of \<open>rust/crates/pg-dream\<close>. \<open>show_f64\<close> is how a double is printed;
  \<open>nan_high\<close> says whether the NaNs of the platform sort above all numbers or below them, which the sign of a
  computed NaN decides and IEEE 754 leaves open.
\<close>

section \<open>Scores\<close>

definition total_less :: "bool \<Rightarrow> f64 \<Rightarrow> f64 \<Rightarrow> bool" where
  "total_less nan_high x y =
     (if x = NaN then y \<noteq> NaN \<and> \<not> nan_high else if y = NaN then nan_high else f64_lt x y)"

record evaluation_constraints =
  ev_min_sharpe :: "f64 option"
  ev_max_drawdown_pct :: "f64 option"
  ev_min_trades :: "u64 option"

record score_weights =
  sw_return_weight :: f64
  sw_sharpe_weight :: f64
  sw_drawdown_penalty :: f64
  sw_execution_cost_penalty :: f64

definition default_score_weights :: score_weights where
  "default_score_weights = \<lparr>sw_return_weight = Finite 1, sw_sharpe_weight = Finite 1, sw_drawdown_penalty = Finite 1,
     sw_execution_cost_penalty = round64 (1/100)\<rparr>"

record node_score =
  ns_feasible :: bool
  ns_utility :: f64
  ns_violations :: "string list"

record evaluator =
  er_constraints :: evaluation_constraints
  er_weights :: score_weights

datatype evaluation_error = NonFinite string | InvalidRange string

definition ensure_finite :: "string \<Rightarrow> f64 \<Rightarrow> (evaluation_error, unit) outcome" where
  "ensure_finite field v = (if is_finite v then Ok () else Err (NonFinite field))"

definition non_negative :: "string \<Rightarrow> f64 \<Rightarrow> (evaluation_error, unit) outcome" where
  "non_negative field v = (if f64_lt v (Finite 0) then Err (InvalidRange field) else Ok ())"

definition validate_constraints :: "evaluation_constraints \<Rightarrow> (evaluation_error, unit) outcome" where
  "validate_constraints c =
     and_then (case ev_min_sharpe c of Some v \<Rightarrow> ensure_finite ''min_sharpe'' v | None \<Rightarrow> Ok ()) (\<lambda>_.
       case ev_max_drawdown_pct c of
         Some v \<Rightarrow> and_then (ensure_finite ''max_drawdown_pct'' v) (\<lambda>_. non_negative ''max_drawdown_pct'' v)
       | None \<Rightarrow> Ok ())"

definition validate_weights :: "score_weights \<Rightarrow> (evaluation_error, unit) outcome" where
  "validate_weights w =
     and_then (ensure_finite ''return_weight'' (sw_return_weight w)) (\<lambda>_.
     and_then (ensure_finite ''sharpe_weight'' (sw_sharpe_weight w)) (\<lambda>_.
     and_then (ensure_finite ''drawdown_penalty'' (sw_drawdown_penalty w)) (\<lambda>_.
     and_then (ensure_finite ''execution_cost_penalty'' (sw_execution_cost_penalty w)) (\<lambda>_.
     and_then (non_negative ''drawdown_penalty'' (sw_drawdown_penalty w)) (\<lambda>_.
       non_negative ''execution_cost_penalty'' (sw_execution_cost_penalty w))))))"

definition validate_outcome :: "experiment_outcome \<Rightarrow> (evaluation_error, unit) outcome" where
  "validate_outcome outc =
     (let m = eo_metrics outc in
      and_then (ensure_finite ''net_return_pct'' (em_net_return_pct m)) (\<lambda>_.
      and_then (ensure_finite ''sharpe'' (em_sharpe m)) (\<lambda>_.
      and_then (ensure_finite ''max_drawdown_pct'' (em_max_drawdown_pct m)) (\<lambda>_.
      and_then (ensure_finite ''turnover'' (em_turnover m)) (\<lambda>_.
      and_then (ensure_finite ''execution_cost_bps'' (em_execution_cost_bps m)) (\<lambda>_.
      and_then (non_negative ''max_drawdown_pct'' (em_max_drawdown_pct m)) (\<lambda>_.
      and_then (non_negative ''turnover'' (em_turnover m)) (\<lambda>_.
        non_negative ''execution_cost_bps'' (em_execution_cost_bps m)))))))))"

definition new_evaluator :: "evaluation_constraints \<Rightarrow> score_weights \<Rightarrow> (evaluation_error, evaluator) outcome" where
  "new_evaluator c w =
     and_then (validate_constraints c) (\<lambda>_. and_then (validate_weights w) (\<lambda>_. Ok \<lparr>er_constraints = c, er_weights = w\<rparr>))"

definition node_violations :: "(f64 \<Rightarrow> string) \<Rightarrow> evaluation_constraints \<Rightarrow> experiment_outcome \<Rightarrow> string list" where
  "node_violations show_f64 c outc =
     (let m = eo_metrics outc in
      (if eo_success outc then [] else [''experiment did not complete successfully''])
      @ (case ev_min_sharpe c of
           Some lo \<Rightarrow> if f64_lt (em_sharpe m) lo
             then [''sharpe '' @ show_f64 (em_sharpe m) @ '' is below minimum '' @ show_f64 lo] else []
         | None \<Rightarrow> [])
      @ (case ev_max_drawdown_pct c of
           Some hi \<Rightarrow> if f64_lt hi (em_max_drawdown_pct m)
             then [''max drawdown '' @ show_f64 (em_max_drawdown_pct m) @ '' exceeds limit '' @ show_f64 hi] else []
         | None \<Rightarrow> [])
      @ (case ev_min_trades c of
           Some lo \<Rightarrow> if em_trades m < lo
             then [''trade count '' @ show_nat (unat (em_trades m)) @ '' is below minimum '' @ show_nat (unat lo)] else []
         | None \<Rightarrow> []))"

definition utility_of :: "score_weights \<Rightarrow> experiment_metrics \<Rightarrow> f64" where
  "utility_of w m =
     f64_sub (f64_sub (f64_add (f64_mul (sw_return_weight w) (em_net_return_pct m)) (f64_mul (sw_sharpe_weight w) (em_sharpe m)))
         (f64_mul (sw_drawdown_penalty w) (em_max_drawdown_pct m)))
       (f64_mul (sw_execution_cost_penalty w) (em_execution_cost_bps m))"

definition evaluator_score :: "(f64 \<Rightarrow> string) \<Rightarrow> evaluator \<Rightarrow> experiment_outcome \<Rightarrow> (evaluation_error, node_score) outcome" where
  "evaluator_score show_f64 er outc =
     and_then (validate_outcome outc) (\<lambda>_.
       let utility = utility_of (er_weights er) (eo_metrics outc) in
       if \<not> is_finite utility then Err (NonFinite ''utility'')
       else let violations = node_violations show_f64 (er_constraints er) outc in
         Ok \<lparr>ns_feasible = (violations = []), ns_utility = utility, ns_violations = violations\<rparr>)"

definition is_better :: "bool \<Rightarrow> node_score \<Rightarrow> node_score \<Rightarrow> bool" where
  "is_better nan_high candidate current =
     (if ns_feasible candidate \<and> \<not> ns_feasible current then True
      else if \<not> ns_feasible candidate \<and> ns_feasible current then False
      else total_less nan_high (ns_utility current) (ns_utility candidate))"

section \<open>Policies\<close>

record policy_candidate =
  pc_node_id :: uuid
  pc_depth :: u32
  pc_created_seq :: u64
  pc_cost_units :: u64
  pc_score :: node_score

record policy_view =
  vw_round :: u32
  vw_remaining_cost_units :: u64
  vw_stagnation_rounds :: u32
  vw_candidates :: "policy_candidate list"

record policy_action =
  pa_expand :: "uuid list"
  pa_stop :: bool

definition stop_action :: policy_action where
  "stop_action = \<lparr>pa_expand = [], pa_stop = True\<rparr>"

record exploration_config =
  xc_worker_limit :: nat
  xc_fanout_per_parent :: nat
  xc_depth_penalty :: f64
  xc_node_cost_penalty :: f64
  xc_patience_rounds :: u32
  xc_max_rounds :: u32

definition default_exploration :: exploration_config where
  "default_exploration = \<lparr>xc_worker_limit = 4, xc_fanout_per_parent = 1, xc_depth_penalty = Finite 0, xc_node_cost_penalty = Finite 0,
     xc_patience_rounds = 3, xc_max_rounds = 64\<rparr>"

definition exploration_validate :: "exploration_config \<Rightarrow> (string, unit) outcome" where
  "exploration_validate c =
     (if xc_worker_limit c = 0 then Err ''worker_limit must be positive''
      else if xc_fanout_per_parent c = 0 then Err ''fanout_per_parent must be positive''
      else if xc_worker_limit c < xc_fanout_per_parent c then Err ''fanout_per_parent cannot exceed worker_limit''
      else if xc_patience_rounds c = 0 then Err ''patience_rounds must be positive''
      else if xc_max_rounds c = 0 then Err ''max_rounds must be positive''
      else if \<not> is_finite (xc_depth_penalty c) \<or> f64_lt (xc_depth_penalty c) (Finite 0)
        then Err ''depth_penalty must be finite and non-negative''
      else if \<not> is_finite (xc_node_cost_penalty c) \<or> f64_lt (xc_node_cost_penalty c) (Finite 0)
        then Err ''node_cost_penalty must be finite and non-negative''
      else Ok ())"

definition push_unique :: "exploration_config \<Rightarrow> exploration_config list \<Rightarrow> exploration_config list" where
  "push_unique c out = (if is_ok (exploration_validate c) \<and> c \<notin> set out then out @ [c] else out)"

definition scaled_penalty :: "f64 \<Rightarrow> f64 \<Rightarrow> f64" where
  "scaled_penalty penalty multiplier =
     (if penalty = Finite 0 then (if f64_lt multiplier (Finite 1) then round64 (1/100) else round64 (1/20))
      else f64_mul penalty multiplier)"

definition revisions :: "exploration_config \<Rightarrow> exploration_config list" where
  "revisions c =
     (let out = [c];
          out = (if 1 < xc_worker_limit c
                 then push_unique (c\<lparr>xc_worker_limit := xc_worker_limit c - 1,
                        xc_fanout_per_parent := min (xc_fanout_per_parent c) (xc_worker_limit c - 1)\<rparr>) out else out);
          out = (if xc_worker_limit c < 16 then push_unique (c\<lparr>xc_worker_limit := xc_worker_limit c + 1\<rparr>) out else out);
          out = (if 1 < xc_fanout_per_parent c then push_unique (c\<lparr>xc_fanout_per_parent := xc_fanout_per_parent c - 1\<rparr>) out else out);
          out = (if xc_fanout_per_parent c < xc_worker_limit c
                 then push_unique (c\<lparr>xc_fanout_per_parent := xc_fanout_per_parent c + 1\<rparr>) out else out);
          out = fold (\<lambda>multiplier out.
                  push_unique (c\<lparr>xc_node_cost_penalty := scaled_penalty (xc_node_cost_penalty c) multiplier\<rparr>)
                    (push_unique (c\<lparr>xc_depth_penalty := scaled_penalty (xc_depth_penalty c) multiplier\<rparr>) out))
                [Finite (1/2), Finite 2] out;
          out = (if 1 < xc_patience_rounds c then push_unique (c\<lparr>xc_patience_rounds := xc_patience_rounds c - 1\<rparr>) out else out)
      in if xc_patience_rounds c < 32 then push_unique (c\<lparr>xc_patience_rounds := xc_patience_rounds c + 1\<rparr>) out else out)"

definition priority :: "exploration_config \<Rightarrow> policy_candidate \<Rightarrow> f64" where
  "priority c cand =
     f64_sub (f64_sub (ns_utility (pc_score cand)) (f64_mul (xc_depth_penalty c) (f64_of_nat (unat (pc_depth cand)))))
       (f64_mul (xc_node_cost_penalty c) (f64_of_nat (unat (pc_cost_units cand))))"

text \<open>The comparison of the sort: feasible first, higher priority first, then older, then the smaller id.\<close>

definition ranks_before :: "bool \<Rightarrow> exploration_config \<Rightarrow> policy_candidate \<Rightarrow> policy_candidate \<Rightarrow> bool" where
  "ranks_before nan_high c a b =
     (if ns_feasible (pc_score a) \<noteq> ns_feasible (pc_score b) then ns_feasible (pc_score a)
      else if total_less nan_high (priority c b) (priority c a) then True
      else if total_less nan_high (priority c a) (priority c b) then False
      else if pc_created_seq a \<noteq> pc_created_seq b then pc_created_seq a < pc_created_seq b
      else pc_node_id a \<le> pc_node_id b)"

fun insert_ranked :: "('a \<Rightarrow> 'a \<Rightarrow> bool) \<Rightarrow> 'a \<Rightarrow> 'a list \<Rightarrow> 'a list" where
  "insert_ranked before x [] = [x]"
| "insert_ranked before x (y # ys) = (if before x y then x # y # ys else y # insert_ranked before x ys)"

definition sort_ranked :: "('a \<Rightarrow> 'a \<Rightarrow> bool) \<Rightarrow> 'a list \<Rightarrow> 'a list" where
  "sort_ranked before xs = foldr (insert_ranked before) xs []"

text \<open>The slots of a round: each parent gets its fan-out until the workers are used up.\<close>

fun fill_slots :: "nat \<Rightarrow> nat \<Rightarrow> policy_candidate list \<Rightarrow> uuid list \<Rightarrow> uuid list" where
  "fill_slots limit fanout [] slots = slots"
| "fill_slots limit fanout (c # cs) slots =
     (let slots' = slots @ replicate (min fanout (limit - length slots)) (pc_node_id c) in
      if length slots' = limit then slots' else fill_slots limit fanout cs slots')"

definition linear_select :: "bool \<Rightarrow> exploration_config \<Rightarrow> policy_view \<Rightarrow> policy_action" where
  "linear_select nan_high c view =
     (if vw_remaining_cost_units view = 0 \<or> xc_max_rounds c \<le> vw_round view
         \<or> xc_patience_rounds c \<le> vw_stagnation_rounds view \<or> vw_candidates view = []
      then stop_action
      else let expand = fill_slots (xc_worker_limit c) (xc_fanout_per_parent c) (sort_ranked (ranks_before nan_high c) (vw_candidates view)) []
        in \<lparr>pa_expand = expand, pa_stop = (expand = [])\<rparr>)"

section \<open>Replay\<close>

record replay_config =
  ry_max_cost_units :: u64
  ry_max_rounds :: u32
  ry_discovery_cost_penalty :: f64
  ry_parallelism_bonus :: f64
  ry_infeasible_penalty :: f64

definition default_replay_config :: replay_config where
  "default_replay_config = \<lparr>ry_max_cost_units = 1000, ry_max_rounds = 64, ry_discovery_cost_penalty = Finite 0,
     ry_parallelism_bonus = Finite 0, ry_infeasible_penalty = Finite 1000000\<rparr>"

datatype replay_error =
  RyWorld world_error | RyEvaluation evaluation_error | RyPolicy string | RyInvalidConfig string
| RyIneligibleAction uuid | RyEmptyWorldPool | RyEmptyCandidateSet

fun check_penalties :: "(string \<times> f64) list \<Rightarrow> (replay_error, unit) outcome" where
  "check_penalties [] = Ok ()"
| "check_penalties ((name, v) # rest) =
     (if \<not> is_finite v \<or> f64_lt v (Finite 0) then Err (RyInvalidConfig (name @ '' must be finite and non-negative''))
      else check_penalties rest)"

definition replay_validate :: "replay_config \<Rightarrow> (replay_error, unit) outcome" where
  "replay_validate c =
     (if ry_max_cost_units c = 0 then Err (RyInvalidConfig ''max_cost_units must be positive'')
      else if ry_max_rounds c = 0 then Err (RyInvalidConfig ''max_rounds must be positive'')
      else check_penalties [(''discovery_cost_penalty'', ry_discovery_cost_penalty c),
        (''parallelism_bonus'', ry_parallelism_bonus c), (''infeasible_penalty'', ry_infeasible_penalty c)])"

record replay_step =
  rt_round :: u32
  rt_selected_parents :: "uuid list"
  rt_revealed_nodes :: "uuid list"
  rt_best_node_id :: uuid
  rt_best_utility :: f64
  rt_cost_units :: u64

record replay_result =
  rr_tree_id :: uuid
  rr_best_node_id :: uuid
  rr_best_score :: node_score
  rr_revealed_nodes :: nat
  rr_decision_rounds :: u32
  rr_cost_units :: u64
  rr_history_exhausted :: bool
  rr_objective :: f64
  rr_trace :: "replay_step list"

text \<open>The local variables of the loop. The set of revealed ids is an ordered map to unit.\<close>

record replay_state =
  st_revealed :: "(uuid, unit) omap"
  st_cursor :: "(uuid, nat) omap"
  st_best_id :: uuid
  st_best_score :: node_score
  st_cost :: u64
  st_round :: u32
  st_stagnation :: u32
  st_trace :: "replay_step list"

record replay_env =
  re_show_f64 :: "f64 \<Rightarrow> string"
  re_show_id :: "uuid \<Rightarrow> string"
  re_nan_high :: bool
  re_evaluator :: evaluator
  re_config :: replay_config

definition env_score :: "replay_env \<Rightarrow> experiment_outcome \<Rightarrow> (replay_error, node_score) outcome" where
  "env_score env outc = map_error RyEvaluation (evaluator_score (re_show_f64 env) (re_evaluator env) outc)"

definition cursor_of :: "(uuid, nat) omap \<Rightarrow> uuid \<Rightarrow> nat" where
  "cursor_of m n = (case om_get n m of Some c \<Rightarrow> c | None \<Rightarrow> 0)"

fun candidates_for :: "replay_env \<Rightarrow> discovery_tree \<Rightarrow> (uuid, nat) omap \<Rightarrow> uuid list \<Rightarrow> (replay_error, policy_candidate list) outcome" where
  "candidates_for env t cursor [] = Ok []"
| "candidates_for env t cursor (n # ns) =
     (if length (children_of t n) \<le> cursor_of cursor n then candidates_for env t cursor ns
      else and_then (map_error RyWorld (tree_node t n)) (\<lambda>node.
           and_then (map_error RyWorld (tree_depth t n)) (\<lambda>d.
           and_then (env_score env (dn_outcome node)) (\<lambda>sc.
           and_then (candidates_for env t cursor ns) (\<lambda>cs.
             Ok (\<lparr>pc_node_id = n, pc_depth = d, pc_created_seq = dn_created_seq node,
                  pc_cost_units = eo_cost_units (dn_outcome node), pc_score = sc\<rparr> # cs))))))"

definition policy_candidates :: "replay_env \<Rightarrow> discovery_tree \<Rightarrow> replay_state \<Rightarrow> (replay_error, policy_candidate list) outcome" where
  "policy_candidates env t st = candidates_for env t (st_cursor st) (om_keys (st_revealed st))"

text \<open>The reveals of a round; the flag says that the budget stopped it.\<close>

fun reveal_each ::
  "replay_env \<Rightarrow> discovery_tree \<Rightarrow> uuid list \<Rightarrow> uuid list \<Rightarrow> replay_state \<Rightarrow> (replay_error, replay_state \<times> uuid list \<times> bool) outcome" where
  "reveal_each env t [] newly st = Ok (st, newly, False)"
| "reveal_each env t (p # ps) newly st =
     (let cur = cursor_of (st_cursor st) p; children = children_of t p; st1 = st\<lparr>st_cursor := om_insert p cur (st_cursor st)\<rparr> in
      if length children \<le> cur then reveal_each env t ps newly st1
      else let child = children ! cur; next_cost = saturating_add (st_cost st) (eo_cost_units (dn_outcome child)) in
        if ry_max_cost_units (re_config env) < next_cost then Ok (st1, newly, True)
        else let st2 = st1\<lparr>st_cursor := om_insert p (cur + 1) (st_cursor st1)\<rparr> in
          if om_get (dn_node_id child) (st_revealed st) \<noteq> None then reveal_each env t ps newly st2
          else and_then (env_score env (dn_outcome child)) (\<lambda>sc.
            let st3 = st2\<lparr>st_revealed := om_insert (dn_node_id child) () (st_revealed st), st_cost := next_cost\<rparr>;
                st4 = (if is_better (re_nan_high env) sc (st_best_score st)
                       then st3\<lparr>st_best_id := dn_node_id child, st_best_score := sc\<rparr> else st3)
            in reveal_each env t ps (newly @ [dn_node_id child]) st4))"

text \<open>One iteration of the loop; the flag says whether there is another.\<close>

definition replay_round ::
  "replay_env \<Rightarrow> discovery_tree \<Rightarrow> (policy_view \<Rightarrow> policy_action) \<Rightarrow> replay_state \<Rightarrow> (replay_error, replay_state \<times> bool) outcome" where
  "replay_round env t policy st =
     (let c = re_config env in
      if ry_max_rounds c \<le> st_round st \<or> ry_max_cost_units c \<le> st_cost st then Ok (st, False)
      else and_then (policy_candidates env t st) (\<lambda>candidates.
        if candidates = [] then Ok (st, False)
        else let action = policy \<lparr>vw_round = st_round st,
                   vw_remaining_cost_units = saturating_sub (ry_max_cost_units c) (st_cost st),
                   vw_stagnation_rounds = st_stagnation st, vw_candidates = candidates\<rparr> in
          if pa_stop action \<or> pa_expand action = [] then Ok (st, False)
          else case find (\<lambda>n. n \<notin> pc_node_id ` set candidates) (pa_expand action) of
            Some n \<Rightarrow> Err (RyIneligibleAction n)
          | None \<Rightarrow>
              let st1 = st\<lparr>st_round := saturating_succ (st_round st)\<rparr> in
              and_then (reveal_each env t (pa_expand action) [] st1) (\<lambda>(st2, newly, budget_hit).
                let st3 = st2\<lparr>st_stagnation := (if st_best_id st2 = st_best_id st then saturating_succ (st_stagnation st2) else 0)\<rparr>;
                    st4 = st3\<lparr>st_trace := st_trace st3 @
                      [\<lparr>rt_round = st_round st3, rt_selected_parents = pa_expand action, rt_revealed_nodes = newly,
                        rt_best_node_id = st_best_id st3, rt_best_utility = ns_utility (st_best_score st3), rt_cost_units = st_cost st3\<rparr>]\<rparr>
                in Ok (st4, \<not> budget_hit))))"

lemma reveal_each_round:
  "reveal_each env t ps newly st = Ok (st', newly', hit) \<Longrightarrow>
     st_round st' = st_round st \<and> st_trace st' = st_trace st \<and> st_stagnation st' = st_stagnation st"
proof (induction env t ps newly st rule: reveal_each.induct)
  case (2 env t p ps newly st)
  define cur where "cur = cursor_of (st_cursor st) p"
  define child where "child = children_of t p ! cur"
  show ?case
  proof (cases "length (children_of t p) \<le> cur")
    case True
    with "2.prems" "2.IH"(1) [OF cur_def refl refl] show ?thesis by (simp add: Let_def cur_def)
  next
    case a: False
    show ?thesis
    proof (cases "ry_max_cost_units (re_config env) < saturating_add (st_cost st) (eo_cost_units (dn_outcome child))")
      case True
      with "2.prems" a show ?thesis by (simp add: Let_def cur_def child_def) auto
    next
      case b: False
      show ?thesis
      proof (cases "om_get (dn_node_id child) (st_revealed st) = None")
        case c: False
        with "2.prems" a b "2.IH"(2) [OF cur_def refl refl _ child_def refl _ refl] show ?thesis
          by (simp add: Let_def cur_def child_def)
      next
        case c: True
        with "2.prems" a b obtain sc where sc: "env_score env (dn_outcome child) = Ok sc"
          by (auto simp: Let_def cur_def child_def outcome_simps)
        from "2.prems" a b c sc "2.IH"(3) [OF cur_def refl refl _ child_def refl _ refl _ refl refl, of sc] show ?thesis
          by (simp add: Let_def cur_def child_def split: if_splits)
      qed
    qed
  qed
qed simp

lemma replay_round_next:
  assumes "replay_round env t policy st = Ok (st', True)"
  shows "st_round st < ry_max_rounds (re_config env) \<and> st_round st' = st_round st + 1"
proof -
  from assms have lt: "st_round st < ry_max_rounds (re_config env)"
    by (auto simp: replay_round_def Let_def not_le split: if_splits)
  from assms obtain ps st2 newly where "reveal_each env t ps [] (st\<lparr>st_round := saturating_succ (st_round st)\<rparr>) = Ok (st2, newly, False)"
      "st_round st' = st_round st2"
    by (auto simp: replay_round_def Let_def outcome_simps split: if_splits option.splits)
  moreover from lt have "st_round st \<noteq> - 1" by (metis word_n1_ge not_less)
  ultimately show ?thesis using lt reveal_each_round by (fastforce simp: saturating_succ_def)
qed

lemma unat_succ_less:
  assumes "(a :: 'a::len word) < b"
  shows "unat (a + 1) = unat a + 1"
proof -
  have "unat b < 2 ^ LENGTH('a)" by (rule unsigned_less)
  moreover have "unat a < unat b" using assms by (simp add: word_less_nat_alt)
  ultimately have "unat a + 1 < 2 ^ LENGTH('a)" by linarith
  then have "unat a + unat (1 :: 'a word) < 2 ^ LENGTH('a)" by simp
  then have "unat (a + 1) = unat a + unat (1 :: 'a word)" by (rule unat_add_lem [THEN iffD1])
  then show ?thesis by simp
qed

function replay_loop ::
  "replay_env \<Rightarrow> discovery_tree \<Rightarrow> (policy_view \<Rightarrow> policy_action) \<Rightarrow> replay_state \<Rightarrow> (replay_error, replay_state) outcome" where
  "replay_loop env t policy st =
     (case replay_round env t policy st of
        Ok (st', again) \<Rightarrow> if again then replay_loop env t policy st' else Ok st'
      | Err e \<Rightarrow> Err e
      | Panic \<Rightarrow> Panic)"
  by pat_completeness auto

termination
proof (relation "measure (\<lambda>(env, t, policy, st). unat (ry_max_rounds (re_config env)) - unat (st_round st))")
  fix env t policy st r st' again
  assume "replay_round env t policy st = Ok r" "(st', again) = r" again
  then have n: "st_round st < ry_max_rounds (re_config env)" "st_round st' = st_round st + 1" using replay_round_next by auto
  then have "unat (st_round st') = unat (st_round st) + 1" by (simp add: unat_succ_less)
  with n(1) have "unat (ry_max_rounds (re_config env)) - unat (st_round st') < unat (ry_max_rounds (re_config env)) - unat (st_round st)"
    by (simp add: word_less_nat_alt)
  then show "((env, t, policy, st'), (env, t, policy, st)) \<in>
      measure (\<lambda>(env, t, policy, st). unat (ry_max_rounds (re_config env)) - unat (st_round st))" by simp
qed simp

declare replay_loop.simps [simp del]


definition replay_start :: "discovery_node \<Rightarrow> node_score \<Rightarrow> replay_state" where
  "replay_start rt sc =
     \<lparr>st_revealed = [(dn_node_id rt, ())], st_cursor = [], st_best_id = dn_node_id rt, st_best_score = sc,
      st_cost = eo_cost_units (dn_outcome rt), st_round = 0, st_stagnation = 0, st_trace = []\<rparr>"

definition replay_objective :: "replay_config \<Rightarrow> replay_state \<Rightarrow> f64" where
  "replay_objective c st =
     (let attempts = f64_of_nat (length (st_revealed st) - 1);
          attempts_per_round = (if st_round st = 0 then Finite 0 else f64_div attempts (f64_of_nat (unat (st_round st))));
          objective = f64_add (f64_sub (ns_utility (st_best_score st))
                         (f64_mul (ry_discovery_cost_penalty c) (f64_of_nat (unat (st_cost st)))))
                       (f64_mul (ry_parallelism_bonus c) attempts_per_round)
      in if ns_feasible (st_best_score st) then objective else f64_sub objective (ry_infeasible_penalty c))"

definition replay_run :: "replay_env \<Rightarrow> discovery_tree \<Rightarrow> (policy_view \<Rightarrow> policy_action) \<Rightarrow> (replay_error, replay_result) outcome" where
  "replay_run env t policy =
     and_then (map_error RyWorld (tree_validate (re_show_id env) t)) (\<lambda>_.
     and_then (map_error RyWorld (tree_root t)) (\<lambda>rt.
     and_then (env_score env (dn_outcome rt)) (\<lambda>sc.
     and_then (replay_loop env t policy (replay_start rt sc)) (\<lambda>st.
     and_then (policy_candidates env t st) (\<lambda>final.
       Ok \<lparr>rr_tree_id = dt_tree_id t, rr_best_node_id = st_best_id st, rr_best_score = st_best_score st,
           rr_revealed_nodes = length (st_revealed st), rr_decision_rounds = st_round st, rr_cost_units = st_cost st,
           rr_history_exhausted = (final = []), rr_objective = replay_objective (re_config env) st, rr_trace = st_trace st\<rparr>)))))"

section \<open>Improvement\<close>

record dream_candidate =
  dc_policy :: exploration_config
  dc_average_objective :: f64
  dc_per_tree_objective :: "f64 list"

record dream_result =
  dr_incumbent :: exploration_config
  dr_selected :: exploration_config
  dr_baseline_objective :: f64
  dr_selected_objective :: f64
  dr_candidates :: "dream_candidate list"

fun tree_objectives :: "replay_env \<Rightarrow> (policy_view \<Rightarrow> policy_action) \<Rightarrow> discovery_tree list \<Rightarrow> (replay_error, f64 list) outcome" where
  "tree_objectives env policy [] = Ok []"
| "tree_objectives env policy (t # ts) =
     and_then (replay_run env t policy) (\<lambda>r. and_then (tree_objectives env policy ts) (\<lambda>xs. Ok (rr_objective r # xs)))"

fun dream_scores :: "replay_env \<Rightarrow> world_pool \<Rightarrow> exploration_config list \<Rightarrow> (replay_error, dream_candidate list) outcome" where
  "dream_scores env worlds [] = Ok []"
| "dream_scores env worlds (c # cs) =
     and_then (map_error RyPolicy (exploration_validate c)) (\<lambda>_.
     and_then (tree_objectives env (linear_select (re_nan_high env) c) worlds) (\<lambda>xs.
     and_then (dream_scores env worlds cs) (\<lambda>rest.
       Ok (\<lparr>dc_policy = c, dc_average_objective = f64_div (f64_sum xs) (f64_of_nat (length xs)), dc_per_tree_objective = xs\<rparr> # rest))))"

fun select_best :: "bool \<Rightarrow> dream_candidate \<Rightarrow> dream_candidate list \<Rightarrow> dream_candidate" where
  "select_best nan_high best [] = best"
| "select_best nan_high best (c # cs) =
     select_best nan_high (if total_less nan_high (dc_average_objective best) (dc_average_objective c) then c else best) cs"

definition dream_improve :: "replay_env \<Rightarrow> world_pool \<Rightarrow> exploration_config \<Rightarrow> (replay_error, dream_result) outcome" where
  "dream_improve env worlds incumbent =
     (if worlds = [] then Err RyEmptyWorldPool
      else and_then (map_error RyPolicy (exploration_validate incumbent)) (\<lambda>_.
        and_then (dream_scores env worlds (revisions incumbent)) (\<lambda>candidates.
          case candidates of
            [] \<Rightarrow> Err RyEmptyCandidateSet
          | first # rest \<Rightarrow>
              let selected = select_best (re_nan_high env) first rest in
              Ok \<lparr>dr_incumbent = incumbent, dr_selected = dc_policy selected, dr_baseline_objective = dc_average_objective first,
                  dr_selected_objective = dc_average_objective selected, dr_candidates = candidates\<rparr>)))"

section \<open>Order\<close>

lemma total_less_irrefl: "\<not> total_less h x x"
  by (cases x) (simp_all add: total_less_def)

lemma total_less_trans: "total_less h x y \<Longrightarrow> total_less h y z \<Longrightarrow> total_less h x z"
  by (cases x; cases y; cases z) (auto simp: total_less_def split: if_splits)

lemma total_less_asym: "total_less h x y \<Longrightarrow> \<not> total_less h y x"
  using total_less_trans total_less_irrefl by blast

lemma total_less_total: "total_less h x y \<or> x = y \<or> total_less h y x"
  by (cases x; cases y) (auto simp: total_less_def)

lemma total_less_weak: "\<not> total_less h y x \<Longrightarrow> total_less h y z \<Longrightarrow> \<not> total_less h z x"
  by (metis total_less_trans)

lemma total_less_between: "total_less h x z \<Longrightarrow> total_less h x y \<or> total_less h y z"
  using total_less_total [of h x y] total_less_trans by blast

lemma is_better_weak: "\<not> is_better h a b \<Longrightarrow> is_better h c b \<Longrightarrow> \<not> is_better h a c"
  using total_less_weak [of h "ns_utility b" "ns_utility a" "ns_utility c"] total_less_trans
  by (auto simp: is_better_def split: if_splits)

lemma select_best_max:
  "select_best h best cs \<in> insert best (set cs)
   \<and> (\<forall>c\<in>insert best (set cs). \<not> total_less h (dc_average_objective (select_best h best cs)) (dc_average_objective c))"
proof (induction h best cs rule: select_best.induct)
  case (2 h best c cs)
  let ?b = "if total_less h (dc_average_objective best) (dc_average_objective c) then c else best"
  let ?s = "select_best h ?b cs"
  from "2.IH" have s: "?s \<in> insert ?b (set cs)" "\<forall>x\<in>insert ?b (set cs). \<not> total_less h (dc_average_objective ?s) (dc_average_objective x)" by auto
  have b: "\<not> total_less h (dc_average_objective ?b) (dc_average_objective x)" if "x \<in> {best, c}" for x
    using that by (auto simp: total_less_irrefl total_less_asym)
  have "\<not> total_less h (dc_average_objective ?s) (dc_average_objective x)" if "x \<in> insert best (set (c # cs))" for x
  proof (cases "x \<in> set cs")
    case False
    with that have "\<not> total_less h (dc_average_objective ?b) (dc_average_objective x)" by (intro b) auto
    moreover have "\<not> total_less h (dc_average_objective ?s) (dc_average_objective ?b)" using s(2) by blast
    ultimately show ?thesis using total_less_between by blast
  qed (use s(2) in simp)
  with s(1) show ?case by auto
qed (simp add: total_less_irrefl)

lemma dream_scores_policies: "dream_scores env worlds cs = Ok ds \<Longrightarrow> map dc_policy ds = cs"
  by (induction env worlds cs arbitrary: ds rule: dream_scores.induct) (auto simp: outcome_simps)

lemma push_unique_ok:
  assumes "distinct out \<and> (\<forall>x\<in>set out. exploration_validate x = Ok ()) \<and> out \<noteq> [] \<and> hd out = c"
  shows "distinct (push_unique x out) \<and> (\<forall>y\<in>set (push_unique x out). exploration_validate y = Ok ()) \<and> push_unique x out \<noteq> []
    \<and> hd (push_unique x out) = c"
  using assms by (auto simp: push_unique_def outcome_simps hd_append)

lemma revisions_ok:
  assumes "exploration_validate c = Ok ()"
  shows "distinct (revisions c) \<and> (\<forall>x\<in>set (revisions c). exploration_validate x = Ok ()) \<and> revisions c \<noteq> [] \<and> hd (revisions c) = c"
proof -
  define good where "good = (\<lambda>out. distinct out \<and> (\<forall>x\<in>set out. exploration_validate x = Ok ()) \<and> out \<noteq> [] \<and> hd out = c)"
  have push: "good (push_unique x out)" if "good out" for x out using push_unique_ok that unfolding good_def by blast
  have keep: "good (if b then push_unique x out else out)" if "good out" for b x out using push that by simp
  have "good [c]" using assms by (simp add: good_def)
  then have "good (revisions c)" unfolding revisions_def Let_def fold.simps comp_def id_apply by (intro keep push)
  then show ?thesis by (simp add: good_def)
qed

text \<open>
  Improvement never makes things worse on the recorded worlds. When it succeeds, the candidates are exactly the
  valid, pairwise different revisions of the incumbent with the incumbent first, the selected policy is one of
  them, and no candidate, the incumbent included, has a higher average objective over the worlds.
\<close>

theorem dream_never_worse:
  assumes "dream_improve env worlds incumbent = Ok res"
  shows "map dc_policy (dr_candidates res) = revisions incumbent \<and> hd (revisions incumbent) = incumbent \<and> distinct (revisions incumbent)
    \<and> (\<forall>c\<in>set (revisions incumbent). exploration_validate c = Ok ())
    \<and> dr_selected res \<in> set (revisions incumbent)
    \<and> (\<forall>d\<in>set (dr_candidates res). \<not> total_less (re_nan_high env) (dr_selected_objective res) (dc_average_objective d))
    \<and> \<not> total_less (re_nan_high env) (dr_selected_objective res) (dr_baseline_objective res)"
proof -
  from assms obtain cs where cs: "exploration_validate incumbent = Ok ()" "dream_scores env worlds (revisions incumbent) = Ok cs"
    by (auto simp: dream_improve_def outcome_simps split: if_splits)
  with assms obtain first rest where parts: "exploration_validate incumbent = Ok ()" "dream_scores env worlds (revisions incumbent) = Ok (first # rest)"
      "res = \<lparr>dr_incumbent = incumbent, dr_selected = dc_policy (select_best (re_nan_high env) first rest), dr_baseline_objective = dc_average_objective first,
          dr_selected_objective = dc_average_objective (select_best (re_nan_high env) first rest), dr_candidates = first # rest\<rparr>"
    by (cases cs) (auto simp: dream_improve_def Let_def split: if_splits)
  have m: "map dc_policy (first # rest) = revisions incumbent" by (rule dream_scores_policies [OF parts(2)])
  have "select_best (re_nan_high env) first rest \<in> set (first # rest)" using select_best_max [of "re_nan_high env" first rest] by simp
  then have "dc_policy (select_best (re_nan_high env) first rest) \<in> set (revisions incumbent)" unfolding m [symmetric] by auto
  with m revisions_ok [OF parts(1)] select_best_max [of "re_nan_high env" first rest] show ?thesis by (auto simp: parts(3))
qed


section \<open>What a replay has seen\<close>

lemma children_iff:
  assumes "tree_inv t"
  shows "x \<in> set (children_of t p) \<longleftrightarrow> om_get (dn_node_id x) (dt_nodes t) = Some x \<and> dn_parent_id x = Some p"
proof -
  have entry: "(k, n) \<in> set (dt_nodes t) \<longleftrightarrow> om_get k (dt_nodes t) = Some n" for k n
    using assms om_entries_get [of "dt_nodes t"] by (simp add: tree_inv_def)
  have "x \<in> set (om_values (dt_nodes t)) \<longleftrightarrow> (\<exists>k. om_get k (dt_nodes t) = Some x)"
    unfolding entry [symmetric] by (force simp: om_values_def)
  also have "\<dots> \<longleftrightarrow> om_get (dn_node_id x) (dt_nodes t) = Some x" using assms by (auto simp: tree_inv_def)
  finally show ?thesis by (auto simp: children_of_def)
qed

lemma children_distinct:
  assumes "tree_inv t"
  shows "distinct (map dn_node_id (children_of t p))"
proof -
  have "map dn_node_id (om_values (dt_nodes t)) = map fst (dt_nodes t)"
    using assms om_entries_get [of "dt_nodes t"] by (auto simp: om_values_def tree_inv_def)
  with assms have "distinct (map dn_node_id (om_values (dt_nodes t)))" by (simp add: tree_inv_def om_sorted_distinct)
  then have d: "distinct (map dn_node_id (filter P (om_values (dt_nodes t))))" for P by (rule distinct_map_filter)
  then show ?thesis by (simp add: children_of_def distinct_map)
qed

definition revealed_set :: "replay_state \<Rightarrow> uuid set" where
  "revealed_set st = fst ` set (st_revealed st)"

lemma revealed_get: "n \<in> revealed_set st \<longleftrightarrow> om_get n (st_revealed st) \<noteq> None"
  by (simp add: revealed_set_def om_get_def map_of_eq_None_iff)

definition node_cost :: "discovery_tree \<Rightarrow> uuid \<Rightarrow> nat" where
  "node_cost t k = (case om_get k (dt_nodes t) of Some n \<Rightarrow> unat (eo_cost_units (dn_outcome n)) | None \<Rightarrow> 0)"

definition score_at :: "replay_env \<Rightarrow> discovery_tree \<Rightarrow> uuid \<Rightarrow> (replay_error, node_score) outcome" where
  "score_at env t k = and_then (map_error RyWorld (tree_node t k)) (\<lambda>n. env_score env (dn_outcome n))"

lemma score_at_node: "om_get k (dt_nodes t) = Some n \<Longrightarrow> score_at env t k = env_score env (dn_outcome n)"
  by (simp add: score_at_def tree_node_def)

definition replay_inv :: "replay_env \<Rightarrow> discovery_tree \<Rightarrow> replay_state \<Rightarrow> bool" where
  "replay_inv env t st \<longleftrightarrow> om_sorted (st_revealed st) \<and> om_sorted (st_cursor st)
     \<and> dt_root_id t \<in> revealed_set st \<and> revealed_set st \<subseteq> tree_keys t
     \<and> (\<forall>k n p. k \<in> revealed_set st \<and> om_get k (dt_nodes t) = Some n \<and> dn_parent_id n = Some p \<longrightarrow> p \<in> revealed_set st)
     \<and> (\<forall>p i. i < length (children_of t p) \<longrightarrow>
          (dn_node_id (children_of t p ! i) \<in> revealed_set st \<longleftrightarrow> i < cursor_of (st_cursor st) p))
     \<and> unat (st_cost st) = min (\<Sum>k\<in>revealed_set st. node_cost t k) (2 ^ 64 - 1)
     \<and> (revealed_set st = {dt_root_id t} \<or> st_cost st \<le> ry_max_cost_units (re_config env))
     \<and> st_best_id st \<in> revealed_set st \<and> score_at env t (st_best_id st) = Ok (st_best_score st)
     \<and> (\<forall>k\<in>revealed_set st. \<exists>sc. score_at env t k = Ok sc \<and> \<not> is_better (re_nan_high env) sc (st_best_score st))"

lemma is_better_irrefl: "\<not> is_better h a a"
  by (simp add: is_better_def total_less_irrefl)

lemma replay_inv_cong:
  "st_revealed st' = st_revealed st \<Longrightarrow> st_best_id st' = st_best_id st \<Longrightarrow> st_best_score st' = st_best_score st \<Longrightarrow> st_cost st' = st_cost st \<Longrightarrow>
   om_sorted (st_cursor st') \<Longrightarrow> (\<And>p. cursor_of (st_cursor st') p = cursor_of (st_cursor st) p) \<Longrightarrow>
   replay_inv env t st \<Longrightarrow> replay_inv env t st'"
  by (simp add: replay_inv_def revealed_set_def)

lemma replay_inv_kids:
  "replay_inv env t st \<Longrightarrow> i < length (children_of t p) \<Longrightarrow>
     dn_node_id (children_of t p ! i) \<in> revealed_set st \<longleftrightarrow> i < cursor_of (st_cursor st) p"
  by (simp add: replay_inv_def)

lemma cursor_of_insert: "om_sorted m \<Longrightarrow> cursor_of (om_insert p c m) q = (if q = p then c else cursor_of m q)"
  by (simp add: cursor_of_def om_get_insert)

lemma unat_saturating_add: "unat (saturating_add a b) = min (unat a + unat b) (2 ^ 64 - 1)"
proof (cases "unat a + unat b < 2 ^ 64")
  case True
  then have "unat a + unat b < 2 ^ LENGTH(64)" by simp
  then have "unat (a + b) = unat a + unat b" by (rule unat_add_lem [THEN iffD1])
  with True show ?thesis by (simp add: saturating_add_def)
next
  case False
  then show ?thesis by (simp add: saturating_add_def unsigned_minus_1_eq_mask mask_eq_exp_minus_1)
qed

lemma reveal_one_inv:
  assumes t: "tree_inv t" and inv: "replay_inv env t st" and p: "p \<in> revealed_set st" "cursor_of (st_cursor st) p < length (children_of t p)"
    and child: "child = children_of t p ! cursor_of (st_cursor st) p"
    and cost: "saturating_add (st_cost st) (eo_cost_units (dn_outcome child)) \<le> ry_max_cost_units (re_config env)"
    and sc: "env_score env (dn_outcome child) = Ok sc"
    and st': "st_revealed st' = om_insert (dn_node_id child) () (st_revealed st)" "om_sorted (st_cursor st')"
      "\<And>q. cursor_of (st_cursor st') q = (if q = p then cursor_of (st_cursor st) p + 1 else cursor_of (st_cursor st) q)"
      "st_cost st' = saturating_add (st_cost st) (eo_cost_units (dn_outcome child))"
      "(st_best_id st', st_best_score st') =
         (if is_better (re_nan_high env) sc (st_best_score st) then (dn_node_id child, sc) else (st_best_id st, st_best_score st))"
  shows "replay_inv env t st'"
proof -
  let ?c = "dn_node_id child" and ?R = "revealed_set st"
  have R': "revealed_set st' = insert ?c ?R" unfolding revealed_set_def st'(1) by (rule set_om_insert)
  have mem: "child \<in> set (children_of t p)" unfolding child using p(2) by simp
  then have get: "om_get ?c (dt_nodes t) = Some child" "dn_parent_id child = Some p" by (simp_all add: children_iff [OF t])
  have new: "?c \<notin> ?R" using inv p(2) child by (auto simp: replay_inv_def)
  have kids: "dn_node_id (children_of t q ! i) \<in> insert ?c ?R \<longleftrightarrow> i < cursor_of (st_cursor st') q" if i: "i < length (children_of t q)" for q i
  proof -
    have "dn_node_id (children_of t q ! i) = ?c \<longleftrightarrow> q = p \<and> i = cursor_of (st_cursor st) p"
    proof
      assume same: "dn_node_id (children_of t q ! i) = ?c"
      have "children_of t q ! i \<in> set (children_of t q)" using i by simp
      then have "om_get ?c (dt_nodes t) = Some (children_of t q ! i)" "dn_parent_id (children_of t q ! i) = Some q"
        using same by (simp_all add: children_iff [OF t])
      with get have "q = p" by simp
      with children_distinct [OF t, of p] same i p(2) show "q = p \<and> i = cursor_of (st_cursor st) p"
        by (metis child length_map nth_eq_iff_index_eq nth_map)
    qed (simp add: child)
    with inv i show ?thesis by (auto simp: replay_inv_def st'(3))
  qed
  have fin: "finite ?R" by (simp add: revealed_set_def)
  have "unat (st_cost st') = min (\<Sum>k\<in>insert ?c ?R. node_cost t k) (2 ^ 64 - 1)"
    using inv new fin get(1) unfolding st'(4) unat_saturating_add by (auto simp: replay_inv_def node_cost_def)
  moreover have "score_at env t ?c = Ok sc" using score_at_node [OF get(1)] sc by simp
  moreover from this have "\<exists>s. score_at env t k = Ok s \<and> \<not> is_better (re_nan_high env) s (st_best_score st')" if "k \<in> insert ?c ?R" for k
  proof -
    have "\<exists>s. score_at env t k = Ok s \<and> \<not> is_better (re_nan_high env) s (st_best_score st)" if "k \<in> ?R"
      using that inv by (simp add: replay_inv_def)
    with that st'(5) \<open>score_at env t ?c = Ok sc\<close> show ?thesis
      by (cases "is_better (re_nan_high env) sc (st_best_score st)") (auto simp: is_better_irrefl dest: is_better_weak)
  qed
  moreover have "om_sorted (st_revealed st')" using inv by (simp add: st'(1) om_insert_sorted replay_inv_def)
  moreover have "?c \<in> tree_keys t" using get(1) by (simp add: tree_keys_get)
  ultimately show ?thesis using inv kids p(1) get st'(2,5) cost unfolding replay_inv_def R' st'(4)
    by (auto split: if_splits)
qed


lemma reveal_each_inv:
  "reveal_each env t ps newly st = Ok (st', newly', hit) \<Longrightarrow> tree_inv t \<Longrightarrow> replay_inv env t st \<Longrightarrow> set ps \<subseteq> revealed_set st \<Longrightarrow>
     replay_inv env t st'"
proof (induction env t ps newly st rule: reveal_each.induct)
  case (2 env t p ps newly st)
  define cur where "cur = cursor_of (st_cursor st) p"
  define child where "child = children_of t p ! cur"
  define st1 where "st1 = st\<lparr>st_cursor := om_insert p cur (st_cursor st)\<rparr>"
  have sorted: "om_sorted (st_cursor st)" using "2.prems"(3) by (simp add: replay_inv_def)
  have inv1: "replay_inv env t st1"
    by (rule replay_inv_cong [OF _ _ _ _ _ _ "2.prems"(3)]) (simp_all add: st1_def om_insert_sorted sorted cursor_of_insert cur_def)
  have sub1: "set ps \<subseteq> revealed_set st1" using "2.prems"(4) by (simp add: st1_def revealed_set_def)
  show ?case
  proof (cases "length (children_of t p) \<le> cur")
    case True
    with "2.prems" "2.IH"(1) [OF cur_def refl st1_def] inv1 sub1 show ?thesis by (simp add: Let_def cur_def st1_def)
  next
    case a: False
    show ?thesis
    proof (cases "ry_max_cost_units (re_config env) < saturating_add (st_cost st) (eo_cost_units (dn_outcome child))")
      case True
      with "2.prems"(1) a inv1 show ?thesis by (simp add: Let_def cur_def child_def st1_def)
    next
      case b: False
      have p: "p \<in> revealed_set st" "cur < length (children_of t p)" using "2.prems"(4) a by auto
      have "dn_node_id child \<notin> revealed_set st"
        using replay_inv_kids [OF "2.prems"(3), of cur p] p(2) by (simp add: child_def cur_def)
      then have unseen: "om_get (dn_node_id child) (st_revealed st) = None" by (subst (asm) revealed_get) blast
      with "2.prems"(1) a b obtain sc where sc: "env_score env (dn_outcome child) = Ok sc"
        by (auto simp: Let_def cur_def child_def outcome_simps)
      define st2 where "st2 = st1\<lparr>st_cursor := om_insert p (cur + 1) (st_cursor st1)\<rparr>"
      define st3 where "st3 = st2\<lparr>st_revealed := om_insert (dn_node_id child) () (st_revealed st),
        st_cost := saturating_add (st_cost st) (eo_cost_units (dn_outcome child))\<rparr>"
      define st4 where "st4 = (if is_better (re_nan_high env) sc (st_best_score st)
        then st3\<lparr>st_best_id := dn_node_id child, st_best_score := sc\<rparr> else st3)"
      have st4: "st_revealed st4 = om_insert (dn_node_id child) () (st_revealed st)"
          "st_cursor st4 = om_insert p (cur + 1) (om_insert p cur (st_cursor st))"
          "st_cost st4 = saturating_add (st_cost st) (eo_cost_units (dn_outcome child))"
          "(st_best_id st4, st_best_score st4) = (if is_better (re_nan_high env) sc (st_best_score st) then (dn_node_id child, sc)
             else (st_best_id st, st_best_score st))"
        by (simp_all add: st4_def st3_def st2_def st1_def)
      have inv4: "replay_inv env t st4"
        using reveal_one_inv [OF "2.prems"(2,3) p(1) _ _ _ sc st4(1) _ _ st4(3,4)] p(2) b
        by (simp add: st4(2) child_def cur_def om_insert_sorted cursor_of_insert sorted not_less)
      have sub4: "set ps \<subseteq> revealed_set st4"
        using "2.prems"(4) unfolding revealed_set_def st4(1) set_om_insert by auto
      have run: "reveal_each env t ps (newly @ [dn_node_id child]) st4 = Ok (st', newly', hit)"
        using "2.prems"(1) a b unseen sc by (simp add: Let_def cur_def child_def st4_def st3_def st2_def st1_def split: if_splits)
      from "2.IH"(3) [OF cur_def refl st1_def _ child_def refl _ st2_def _ st3_def st4_def run "2.prems"(2) inv4 sub4] a b unseen
      show ?thesis by simp
    qed
  qed
qed simp

lemma candidates_for_ids:
  "candidates_for env t cursor ns = Ok cs \<Longrightarrow> pc_node_id ` set cs = {n \<in> set ns. cursor_of cursor n < length (children_of t n)}"
proof (induction env t cursor ns arbitrary: cs rule: candidates_for.induct)
  case (2 env t cursor n ns)
  show ?case
  proof (cases "length (children_of t n) \<le> cursor_of cursor n")
    case False
    with "2.prems" obtain cs' c where "candidates_for env t cursor ns = Ok cs'" "cs = c # cs'" "pc_node_id c = n"
      by (auto simp: outcome_simps)
    with "2.IH"(2) False show ?thesis by (auto simp: outcome_simps)
  qed (use 2 in auto)
qed simp

lemma policy_candidates_ids:
  "policy_candidates env t st = Ok cs \<Longrightarrow>
     pc_node_id ` set cs = {n \<in> revealed_set st. cursor_of (st_cursor st) n < length (children_of t n)}"
  unfolding policy_candidates_def using candidates_for_ids by (simp add: om_keys_def revealed_set_def)

text \<open>An iteration leaves the state alone, or reveals and counts a round.\<close>

lemma replay_round_cases:
  assumes "replay_round env t policy st = Ok (st', again)"
  shows "(st' = st \<and> \<not> again)
    \<or> (\<exists>ps st2 newly hit. reveal_each env t ps [] (st\<lparr>st_round := saturating_succ (st_round st)\<rparr>) = Ok (st2, newly, hit)
        \<and> set ps \<subseteq> revealed_set st \<and> st_round st < ry_max_rounds (re_config env)
        \<and> st_round st' = st_round st2 \<and> length (st_trace st') = length (st_trace st2) + 1 \<and> st_revealed st' = st_revealed st2
        \<and> st_cursor st' = st_cursor st2 \<and> st_best_id st' = st_best_id st2 \<and> st_best_score st' = st_best_score st2 \<and> st_cost st' = st_cost st2)"
proof (cases "ry_max_rounds (re_config env) \<le> st_round st \<or> ry_max_cost_units (re_config env) \<le> st_cost st")
  case go: False
  with assms obtain cs where cs: "policy_candidates env t st = Ok cs" by (auto simp: replay_round_def Let_def outcome_simps)
  define action where "action = policy \<lparr>vw_round = st_round st,
                   vw_remaining_cost_units = saturating_sub (ry_max_cost_units (re_config env)) (st_cost st),
                   vw_stagnation_rounds = st_stagnation st, vw_candidates = cs\<rparr>"
  show ?thesis
  proof (cases "cs = [] \<or> pa_stop action \<or> pa_expand action = []")
    case False
    show ?thesis
    proof (cases "find (\<lambda>n. n \<notin> pc_node_id ` set cs) (pa_expand action)")
      case None
      then have sub: "set (pa_expand action) \<subseteq> revealed_set st"
        using policy_candidates_ids [OF cs] by (auto simp: find_None_iff)
      from assms go cs False None obtain st2 newly hit where
        "reveal_each env t (pa_expand action) [] (st\<lparr>st_round := saturating_succ (st_round st)\<rparr>) = Ok (st2, newly, hit)"
        by (auto simp: replay_round_def Let_def action_def [symmetric] outcome_simps)
      with assms go cs False None sub show ?thesis
        by (intro disjI2 exI [of _ "pa_expand action"] exI [of _ st2] exI [of _ newly] exI [of _ hit])
          (auto simp: replay_round_def Let_def action_def [symmetric] not_le)
    qed (use assms go cs False in \<open>simp add: replay_round_def Let_def action_def [symmetric]\<close>)
  next
    case True
    then have "st' = st \<and> \<not> again" using assms go cs by (cases "cs = []") (auto simp: replay_round_def Let_def action_def)
    then show ?thesis ..
  qed
qed (use assms in \<open>auto simp: replay_round_def Let_def\<close>)

definition rounds_inv :: "replay_env \<Rightarrow> replay_state \<Rightarrow> bool" where
  "rounds_inv env st \<longleftrightarrow> st_round st \<le> ry_max_rounds (re_config env) \<and> length (st_trace st) = unat (st_round st)"

lemma replay_round_inv:
  assumes "replay_round env t policy st = Ok (st', again)" "tree_inv t" "replay_inv env t st" "rounds_inv env st"
  shows "replay_inv env t st' \<and> rounds_inv env st'"
  using replay_round_cases [OF assms(1)]
proof (elim disjE exE conjE)
  fix ps st2 newly hit
  assume r: "reveal_each env t ps [] (st\<lparr>st_round := saturating_succ (st_round st)\<rparr>) = Ok (st2, newly, hit)" "set ps \<subseteq> revealed_set st"
    and lt: "st_round st < ry_max_rounds (re_config env)"
    and st': "st_round st' = st_round st2" "length (st_trace st') = length (st_trace st2) + 1" "st_revealed st' = st_revealed st2"
      "st_cursor st' = st_cursor st2" "st_best_id st' = st_best_id st2" "st_best_score st' = st_best_score st2" "st_cost st' = st_cost st2"
  have "replay_inv env t (st\<lparr>st_round := saturating_succ (st_round st)\<rparr>)"
    by (rule replay_inv_cong [OF _ _ _ _ _ _ assms(3)]) (use assms(3) in \<open>simp_all add: replay_inv_def\<close>)
  from reveal_each_inv [OF r(1) assms(2) this] r(2) have inv2: "replay_inv env t st2" by (simp add: revealed_set_def)
  have "replay_inv env t st'"
    by (rule replay_inv_cong [OF _ _ _ _ _ _ inv2]) (use st' inv2 in \<open>simp_all add: replay_inv_def\<close>)
  moreover have "saturating_succ (st_round st) = st_round st + 1" using lt by (metis saturating_succ_def word_n1_ge not_less)
  with reveal_each_round [OF r(1)] lt assms(4) st'(1,2) unat_succ_less [OF lt] have "rounds_inv env st'"
    by (simp add: rounds_inv_def word_le_nat_alt word_less_nat_alt)
  ultimately show ?thesis by simp
qed (use assms(3,4) in simp)

lemma replay_loop_inv:
  "replay_loop env t policy st = Ok st' \<Longrightarrow> tree_inv t \<Longrightarrow> replay_inv env t st \<Longrightarrow> rounds_inv env st \<Longrightarrow> replay_inv env t st' \<and> rounds_inv env st'"
proof (induction env t policy st rule: replay_loop.induct)
  case (1 env t policy st)
  from "1.prems"(1) obtain st1 again where r: "replay_round env t policy st = Ok (st1, again)"
    by (subst (asm) replay_loop.simps) (auto split: outcome.splits)
  note inv = replay_round_inv [OF r "1.prems"(2-4)]
  show ?case
  proof (cases again)
    case True
    with "1.prems"(1) r have "replay_loop env t policy st1 = Ok st'" by (subst (asm) replay_loop.simps) simp
    with "1.IH" [OF r refl True] inv "1.prems"(2) show ?thesis by simp
  next
    case False
    with "1.prems"(1) r have "st' = st1" by (subst (asm) replay_loop.simps) simp
    with inv show ?thesis by simp
  qed
qed


lemma replay_start_inv:
  assumes "tree_inv t" "tree_root t = Ok rt" "env_score env (dn_outcome rt) = Ok sc"
  shows "replay_inv env t (replay_start rt sc) \<and> rounds_inv env (replay_start rt sc)"
proof -
  from assms(2) have rt: "om_get (dt_root_id t) (dt_nodes t) = Some rt" by (simp add: tree_root_def tree_node_def outcome_simps)
  with assms(1) have id: "dn_node_id rt = dt_root_id t" "dn_parent_id rt = None" by (auto simp: tree_inv_def)
  have "dn_node_id (children_of t p ! i) \<noteq> dt_root_id t" if "i < length (children_of t p)" for p i
  proof
    assume "dn_node_id (children_of t p ! i) = dt_root_id t"
    with that have "dn_parent_id rt = Some p" using children_iff [OF assms(1), of "children_of t p ! i" p] rt by auto
    with id(2) show False by simp
  qed
  moreover have "unat (eo_cost_units (dn_outcome rt)) \<le> 2 ^ 64 - 1"
    using unsigned_less [of "eo_cost_units (dn_outcome rt)", where 'a = nat] by simp
  ultimately show ?thesis
    using rt id assms(3) score_at_node [OF rt, of env]
    by (auto simp: replay_inv_def rounds_inv_def replay_start_def revealed_set_def om_sorted_def cursor_of_def om_get_def [of _ "[]"] node_cost_def
        tree_keys_get is_better_irrefl)
qed

lemma replay_exhausted:
  assumes "tree_inv t" "replay_inv env t st" "policy_candidates env t st = Ok cs"
  shows "cs = [] \<longleftrightarrow> revealed_set st = tree_keys t"
proof
  assume "cs = []"
  with policy_candidates_ids [OF assms(3)] have full: "length (children_of t n) \<le> cursor_of (st_cursor st) n" if "n \<in> revealed_set st" for n
    using that by (auto simp: not_le)
  have reach: "k \<in> revealed_set st" if "ancestor t j k = Some (dt_root_id t)" "k \<in> tree_keys t" for j k
    using that
  proof (induction j arbitrary: k)
    case 0
    with assms(2) show ?case by (simp add: replay_inv_def)
  next
    case (Suc j)
    from Suc.prems(2) obtain n where n: "om_get k (dt_nodes t) = Some n" by (auto simp: tree_keys_get)
    have "ancestor t (1 + j) k = Some (dt_root_id t)" using Suc.prems(1) by simp
    then obtain p where p: "dn_parent_id n = Some p" "ancestor t j p = Some (dt_root_id t)"
      unfolding ancestor_add using n by (auto simp: bind_eq_Some_conv)
    have "k \<noteq> dt_root_id t" using n p(1) assms(1) by (auto simp: tree_inv_def)
    with n assms(1) have "child_ok t n" unfolding tree_inv_def by blast
    with p(1) have "p \<in> tree_keys t" by (simp add: child_ok_def)
    with Suc.IH p(2) have pR: "p \<in> revealed_set st" by blast
    have id: "dn_node_id n = k" using assms(1) n by (simp add: tree_inv_def)
    with n p(1) have "n \<in> set (children_of t p)" by (simp add: children_iff [OF assms(1)])
    then obtain i where "i < length (children_of t p)" "children_of t p ! i = n" by (auto simp: in_set_conv_nth)
    with replay_inv_kids [OF assms(2), of i p] full [OF pR] id show ?case by simp
  qed
  have "\<exists>j. ancestor t j k = Some (dt_root_id t)" if "k \<in> tree_keys t" for k
    using that assms(1) by (simp add: tree_inv_def)
  with reach have "tree_keys t \<subseteq> revealed_set st" by blast
  moreover have "revealed_set st \<subseteq> tree_keys t" using assms(2) by (simp add: replay_inv_def)
  ultimately show "revealed_set st = tree_keys t" by (rule subset_antisym [rotated])
next
  assume R: "revealed_set st = tree_keys t"
  have "length (children_of t n) \<le> cursor_of (st_cursor st) n" for n
  proof (rule ccontr)
    assume lt: "\<not> length (children_of t n) \<le> cursor_of (st_cursor st) n"
    let ?c = "children_of t n ! cursor_of (st_cursor st) n"
    from lt have "?c \<in> set (children_of t n)" by simp
    then have "dn_node_id ?c \<in> tree_keys t" by (simp add: children_iff [OF assms(1)] tree_keys_get)
    with replay_inv_kids [OF assms(2), of "cursor_of (st_cursor st) n" n] R lt show False by simp
  qed
  then have "pc_node_id ` set cs = {}" unfolding policy_candidates_ids [OF assms(3)] by (simp add: not_less)
  then show "cs = []" by simp
qed

text \<open>
  C39. A replay reports what it has seen. When it returns, for any policy, there is a set of nodes of the tree, as
  large as the number reported, that contains the root and with every node its parent, such that the cost
  reported is the sum of their recorded costs, at most the largest 64-bit number, and within the budget unless only the root
  was seen; the best node is one of them, with its own score, and none of them scores better; the history counts
  as exhausted exactly when the whole tree has been seen; and there is one trace entry per round, no more rounds
  than allowed.
\<close>

theorem replay_sound:
  assumes "tree_inv t" "replay_run env t policy = Ok res"
  shows "\<exists>R. R \<subseteq> tree_keys t \<and> dt_root_id t \<in> R \<and> card R = rr_revealed_nodes res
    \<and> (\<forall>k n p. k \<in> R \<and> om_get k (dt_nodes t) = Some n \<and> dn_parent_id n = Some p \<longrightarrow> p \<in> R)
    \<and> unat (rr_cost_units res) = min (\<Sum>k\<in>R. node_cost t k) (2 ^ 64 - 1)
    \<and> (R = {dt_root_id t} \<or> rr_cost_units res \<le> ry_max_cost_units (re_config env))
    \<and> rr_best_node_id res \<in> R \<and> score_at env t (rr_best_node_id res) = Ok (rr_best_score res)
    \<and> (\<forall>k\<in>R. \<exists>sc. score_at env t k = Ok sc \<and> \<not> is_better (re_nan_high env) sc (rr_best_score res))
    \<and> (rr_history_exhausted res \<longleftrightarrow> R = tree_keys t)
    \<and> rr_decision_rounds res \<le> ry_max_rounds (re_config env) \<and> length (rr_trace res) = unat (rr_decision_rounds res)"
proof -
  from assms(2) obtain rt sc st cs where run: "tree_root t = Ok rt" "env_score env (dn_outcome rt) = Ok sc"
      "replay_loop env t policy (replay_start rt sc) = Ok st" "policy_candidates env t st = Ok cs"
      "res = \<lparr>rr_tree_id = dt_tree_id t, rr_best_node_id = st_best_id st, rr_best_score = st_best_score st,
           rr_revealed_nodes = length (st_revealed st), rr_decision_rounds = st_round st, rr_cost_units = st_cost st,
           rr_history_exhausted = (cs = []), rr_objective = replay_objective (re_config env) st, rr_trace = st_trace st\<rparr>"
    by (auto simp: replay_run_def outcome_simps)
  have inv: "replay_inv env t st" "rounds_inv env st"
    using replay_loop_inv [OF run(3) assms(1)] replay_start_inv [OF assms(1) run(1,2)] by auto
  have "distinct (map fst (st_revealed st))" using inv(1) by (simp add: replay_inv_def om_sorted_distinct)
  then have "card (revealed_set st) = length (st_revealed st)" by (metis distinct_card length_map list.set_map revealed_set_def)
  with inv replay_exhausted [OF assms(1) inv(1) run(4)] show ?thesis
    unfolding replay_inv_def rounds_inv_def by (intro exI [of _ "revealed_set st"]) (simp add: run(5))
qed


section \<open>Replays return\<close>

definition scores_everywhere :: "replay_env \<Rightarrow> discovery_tree \<Rightarrow> bool" where
  "scores_everywhere env t \<longleftrightarrow> (\<forall>k\<in>tree_keys t. \<exists>sc. score_at env t k = Ok sc)"

lemma scores_node:
  assumes "scores_everywhere env t" "om_get k (dt_nodes t) = Some n"
  shows "\<exists>sc. env_score env (dn_outcome n) = Ok sc"
proof -
  have "k \<in> tree_keys t" using assms(2) by (simp add: tree_keys_get)
  with assms(1) obtain sc where "score_at env t k = Ok sc" unfolding scores_everywhere_def by blast
  with score_at_node [OF assms(2), of env] have "env_score env (dn_outcome n) = Ok sc" by simp
  then show ?thesis ..
qed

lemma tree_inv_depth: "tree_inv t \<Longrightarrow> k \<in> tree_keys t \<Longrightarrow> \<exists>d. tree_depth t k = Ok d"
  using root_reached_depth unfolding tree_inv_def by blast

lemma candidates_for_total:
  assumes "tree_inv t" "scores_everywhere env t" "set ns \<subseteq> tree_keys t"
  shows "\<exists>cs. candidates_for env t cursor ns = Ok cs"
  using assms(3)
proof (induction ns)
  case (Cons n ns)
  then obtain node where node: "om_get n (dt_nodes t) = Some node" by (auto simp: tree_keys_get)
  with scores_node [OF assms(2)] obtain sc where "env_score env (dn_outcome node) = Ok sc" by blast
  moreover obtain d where "tree_depth t n = Ok d" using tree_inv_depth [OF assms(1), of n] Cons.prems by auto
  moreover obtain cs where "candidates_for env t cursor ns = Ok cs" using Cons by auto
  ultimately show ?case using node by (auto simp: tree_node_def)
qed simp

lemma reveal_each_total:
  assumes "tree_inv t" "scores_everywhere env t"
  shows "\<exists>r. reveal_each env t ps newly st = Ok r"
proof (induction ps arbitrary: newly st)
  case (Cons p ps)
  have "\<exists>sc. env_score env (dn_outcome child) = Ok sc" if "child \<in> set (children_of t p)" for child
    using that scores_node [OF assms(2), of "dn_node_id child" child] by (simp add: children_iff [OF assms(1)])
  then have "\<exists>sc. env_score env (dn_outcome (children_of t p ! i)) = Ok sc" if "i < length (children_of t p)" for i
    using that nth_mem by blast
  then obtain f where f: "\<And>i. i < length (children_of t p) \<Longrightarrow> env_score env (dn_outcome (children_of t p ! i)) = Ok (f i)" by metis
  have "Ex Not" by (rule exI [of _ False]) simp
  with Cons.IH f show ?case by (auto simp: Let_def not_le)
next
  case Nil
  have "Ex Not" by (rule exI [of _ False]) simp
  then show ?case by simp
qed

definition picks_candidates :: "(policy_view \<Rightarrow> policy_action) \<Rightarrow> bool" where
  "picks_candidates policy \<longleftrightarrow> (\<forall>view. set (pa_expand (policy view)) \<subseteq> pc_node_id ` set (vw_candidates view))"

lemma replay_round_total:
  assumes "tree_inv t" "scores_everywhere env t" "picks_candidates policy" "replay_inv env t st"
  shows "\<exists>r. replay_round env t policy st = Ok r"
proof -
  have "set (om_keys (st_revealed st)) \<subseteq> tree_keys t" using assms(4) by (simp add: replay_inv_def revealed_set_def om_keys_def)
  then obtain cs where cs: "policy_candidates env t st = Ok cs"
    using candidates_for_total [OF assms(1,2)] unfolding policy_candidates_def by blast
  define action where "action = policy \<lparr>vw_round = st_round st,
                   vw_remaining_cost_units = saturating_sub (ry_max_cost_units (re_config env)) (st_cost st),
                   vw_stagnation_rounds = st_stagnation st, vw_candidates = cs\<rparr>"
  have "set (pa_expand action) \<subseteq> pc_node_id ` set (vw_candidates \<lparr>vw_round = st_round st,
                   vw_remaining_cost_units = saturating_sub (ry_max_cost_units (re_config env)) (st_cost st),
                   vw_stagnation_rounds = st_stagnation st, vw_candidates = cs\<rparr>)"
    using assms(3) unfolding picks_candidates_def action_def by blast
  then have none: "find (\<lambda>n. n \<notin> pc_node_id ` set cs) (pa_expand action) = None" by (auto simp: find_None_iff)
  obtain st2 newly hit where "reveal_each env t (pa_expand action) [] (st\<lparr>st_round := saturating_succ (st_round st)\<rparr>) = Ok (st2, newly, hit)"
    using reveal_each_total [OF assms(1,2)] by (metis prod_cases3)
  moreover have "Ex Not" by (rule exI [of _ False]) simp
  ultimately show ?thesis using cs none by (simp add: replay_round_def Let_def action_def [symmetric])
qed

lemma replay_loop_total:
  "tree_inv t \<Longrightarrow> scores_everywhere env t \<Longrightarrow> picks_candidates policy \<Longrightarrow> replay_inv env t st \<Longrightarrow> rounds_inv env st \<Longrightarrow>
     \<exists>st'. replay_loop env t policy st = Ok st'"
proof (induction env t policy st rule: replay_loop.induct)
  case (1 env t policy st)
  obtain st1 again where r: "replay_round env t policy st = Ok (st1, again)"
    using replay_round_total [OF "1.prems"(1-4)] by auto
  show ?case
  proof (cases again)
    case True
    then have "replay_loop env t policy st = replay_loop env t policy st1" using r by (subst replay_loop.simps) simp
    with "1.IH" [OF r refl True "1.prems"(1-3)] replay_round_inv [OF r "1.prems"(1,4,5)] show ?thesis by simp
  next
    case False
    with r show ?thesis by (subst replay_loop.simps) simp
  qed
qed

lemma replay_run_total:
  assumes "tree_inv t" "scores_everywhere env t" "picks_candidates policy"
  shows "\<exists>res. replay_run env t policy = Ok res"
proof -
  from assms(1) obtain rt where rt: "om_get (dt_root_id t) (dt_nodes t) = Some rt" unfolding tree_inv_def by blast
  then have root_ok: "tree_root t = Ok rt" by (simp add: tree_root_def tree_node_def)
  from scores_node [OF assms(2) rt] obtain sc where sc: "env_score env (dn_outcome rt) = Ok sc" by blast
  note start = replay_start_inv [OF assms(1) root_ok sc]
  then obtain st where st: "replay_loop env t policy (replay_start rt sc) = Ok st" using replay_loop_total [OF assms] by blast
  with replay_loop_inv [OF st assms(1)] start have "replay_inv env t st" by blast
  then have "set (om_keys (st_revealed st)) \<subseteq> tree_keys t" by (simp add: replay_inv_def revealed_set_def om_keys_def)
  then obtain cs where "policy_candidates env t st = Ok cs"
    using candidates_for_total [OF assms(1,2)] unfolding policy_candidates_def by blast
  with root_ok sc st tree_inv_valid [OF assms(1)] show ?thesis by (simp add: replay_run_def)
qed

lemma set_sort_ranked: "set (sort_ranked before xs) = set xs"
proof -
  have "set (insert_ranked before x ys) = insert x (set ys)" for x ys by (induction ys) auto
  then show ?thesis unfolding sort_ranked_def by (induction xs) simp_all
qed

lemma fill_slots_ok:
  "length slots \<le> limit \<Longrightarrow> length (fill_slots limit fanout cs slots) \<le> limit
     \<and> set (fill_slots limit fanout cs slots) \<subseteq> set slots \<union> pc_node_id ` set cs"
proof (induction limit fanout cs slots rule: fill_slots.induct)
  case (2 limit fanout c cs slots)
  define more where "more = slots @ replicate (min fanout (limit - length slots)) (pc_node_id c)"
  have "length more \<le> limit" "set more \<subseteq> insert (pc_node_id c) (set slots)" using "2.prems" by (auto simp: more_def)
  with "2.IH" [OF more_def] show ?case by (auto simp: Let_def more_def [symmetric])
qed simp

lemma linear_select_picks: "picks_candidates (linear_select h c)"
proof -
  have "set (fill_slots l f (sort_ranked b cs) []) \<subseteq> pc_node_id ` set cs" for l f b cs
    using fill_slots_ok [of "[]" l f "sort_ranked b cs"] by (simp add: set_sort_ranked)
  then show ?thesis by (simp add: picks_candidates_def linear_select_def stop_action_def Let_def)
qed

text \<open>
  A replay with the built-in policy always comes back with a result. Over a tree the explorer can have grown, in
  which every recorded outcome can be scored, whatever the policy's parameters and the budgets, the loop ends
  and neither the eligibility check nor a lookup fails; and no round asks for more experiments than there are
  workers.
\<close>

theorem linear_replay_returns:
  assumes "tree_inv t" "scores_everywhere env t"
  shows "(\<exists>res. replay_run env t (linear_select h c) = Ok res)
    \<and> (\<forall>view. length (pa_expand (linear_select h c view)) \<le> xc_worker_limit c)"
proof
  show "\<exists>res. replay_run env t (linear_select h c) = Ok res" by (rule replay_run_total [OF assms linear_select_picks])
  show "\<forall>view. length (pa_expand (linear_select h c view)) \<le> xc_worker_limit c"
    using fill_slots_ok [of "[]"] by (simp add: linear_select_def stop_action_def Let_def)
qed

section \<open>A concrete replay\<close>

definition demo_replay :: replay_env where
  "demo_replay = \<lparr>re_show_f64 = (\<lambda>_. []), re_show_id = (\<lambda>_. []), re_nan_high = True,
     re_evaluator = \<lparr>er_constraints = \<lparr>ev_min_sharpe = None, ev_max_drawdown_pct = None, ev_min_trades = Some 1\<rparr>,
       er_weights = \<lparr>sw_return_weight = Finite 1, sw_sharpe_weight = Finite 1, sw_drawdown_penalty = Finite 1, sw_execution_cost_penalty = Finite 1\<rparr>\<rparr>,
     re_config = default_replay_config\<rparr>"

lemma round64_zero: "round64 0 = Finite 0"
  by (simp add: round64_def)

lemma demo_world_inv: "tree_inv demo_world"
  by (simp add: demo_world_def root_variant_def start_inv)

lemma demo_world_keys: "tree_keys demo_world = {1}" "dt_root_id demo_world = 1"
  by (simp_all add: demo_world_def tree_with_id_def tree_keys_def)

lemma demo_world_scores: "scores_everywhere demo_replay demo_world"
  by (simp add: scores_everywhere_def demo_world_keys)
    (simp add: score_at_def tree_node_def demo_world_def tree_with_id_def om_get_def env_score_def evaluator_score_def validate_outcome_def
      demo_outcome_def ensure_finite_def non_negative_def utility_of_def demo_replay_def f64_sub_def round64_zero round64_small Let_def)

theorem linear_replay_returns_witness:
  "\<exists>res. replay_run demo_replay demo_world (linear_select True default_exploration) = Ok res"
  using linear_replay_returns [OF demo_world_inv demo_world_scores] by blast

theorem replay_sound_witness:
  "\<exists>res. replay_run demo_replay demo_world (linear_select True default_exploration) = Ok res
     \<and> rr_revealed_nodes res = 1 \<and> rr_best_node_id res = 1 \<and> rr_history_exhausted res"
proof -
  obtain res where res: "replay_run demo_replay demo_world (linear_select True default_exploration) = Ok res"
    using replay_run_total [OF demo_world_inv demo_world_scores linear_select_picks] by blast
  obtain R where "R \<subseteq> {1}" "1 \<in> R" "card R = rr_revealed_nodes res" "rr_best_node_id res \<in> R" "rr_history_exhausted res \<longleftrightarrow> R = {1}"
    using replay_sound [OF demo_world_inv res] unfolding demo_world_keys by blast
  moreover from this have "R = {1}" by blast
  ultimately show ?thesis using res by (intro exI [of _ res]) auto
qed

lemma revisions_valid_nonempty: "exploration_validate default_exploration = Ok ()"
  by (simp add: exploration_validate_def default_exploration_def)

theorem dream_never_worse_witness:
  "\<exists>res. dream_improve demo_replay [demo_world] default_exploration = Ok res
     \<and> \<not> total_less True (dr_selected_objective res) (dr_baseline_objective res)"
proof -
  have run: "\<exists>res. replay_run demo_replay demo_world (linear_select True c) = Ok res" for c
    using replay_run_total [OF demo_world_inv demo_world_scores linear_select_picks] by blast
  have "\<exists>ds. dream_scores demo_replay [demo_world] cs = Ok ds \<and> length ds = length cs" if "\<forall>c\<in>set cs. exploration_validate c = Ok ()" for cs
    using that
  proof (induction cs)
    case (Cons c cs)
    then obtain ds where "dream_scores demo_replay [demo_world] cs = Ok ds" "length ds = length cs" by auto
    moreover obtain res where "replay_run demo_replay demo_world (linear_select True c) = Ok res" using run by blast
    ultimately show ?case using Cons.prems by (simp add: demo_replay_def)
  qed simp
  with revisions_ok [OF revisions_valid_nonempty] obtain ds where ds: "dream_scores demo_replay [demo_world] (revisions default_exploration) = Ok ds"
      "length ds = length (revisions default_exploration)" by blast
  with revisions_ok [OF revisions_valid_nonempty] obtain d rest where "ds = d # rest" by (cases ds) auto
  with ds(1) obtain res where res: "dream_improve demo_replay [demo_world] default_exploration = Ok res"
    by (simp add: dream_improve_def revisions_valid_nonempty Let_def)
  with dream_never_worse [OF res] show ?thesis by (auto simp: demo_replay_def)
qed

end
