(* ===== verification/BinanceIds.thy ===== *)
theory BinanceIds
  imports Execution
begin

unbundle bit_operations_syntax

text \<open>
  The order identity of the Binance adapter, \<open>rust/adapters/pg-binance/src/lib.rs\<close> and the conversion of
  \<open>execution_adapter.rs\<close>: the 128 bits of an intent id as 26 Base32 symbols, and back to the durable identity the
  core uses. Buffers are 32-bit words; a text is its UTF-8 bytes.
\<close>

section \<open>Encoding\<close>

definition base32_alphabet :: string where
  "base32_alphabet = ''ABCDEFGHIJKLMNOPQRSTUVWXYZ234567''"

definition symbol_of :: "32 word \<Rightarrow> char" where
  "symbol_of w = base32_alphabet ! unat w"

text \<open>The inner loop: symbols are taken from the top of the buffer while five bits are there.\<close>

function take_symbols :: "32 word \<Rightarrow> nat \<Rightarrow> string \<Rightarrow> nat \<times> string" where
  "take_symbols buffer bits out =
     (if 5 \<le> bits then take_symbols buffer (bits - 5) (out @ [symbol_of (drop_bit (bits - 5) buffer AND 31)])
      else (bits, out))"
  by pat_completeness auto

termination
  by (relation "measure (\<lambda>(_, bits, _). bits)") auto

declare take_symbols.simps [simp del]

fun encode_bytes :: "8 word list \<Rightarrow> 32 word \<Rightarrow> nat \<Rightarrow> string \<Rightarrow> 32 word \<times> nat \<times> string" where
  "encode_bytes [] buffer bits out = (buffer, bits, out)"
| "encode_bytes (b # bs) buffer bits out =
     (let buffer' = push_bit 8 buffer OR ucast b in
      case take_symbols buffer' (bits + 8) out of
        (bits', out') \<Rightarrow> encode_bytes bs (buffer' AND (push_bit bits' 1 - 1)) bits' out')"

definition encode_intent_bytes :: "8 word list \<Rightarrow> string" where
  "encode_intent_bytes bs =
     (case encode_bytes bs 0 0 ''pg'' of
        (buffer, bits, out) \<Rightarrow> if bits \<noteq> 0 then out @ [symbol_of (push_bit (5 - bits) buffer AND 31)] else out)"

section \<open>Decoding\<close>

definition symbol_digit :: "char \<Rightarrow> 32 word option" where
  "symbol_digit c =
     (let n = (of_char c :: nat) in
      if 65 \<le> n \<and> n \<le> 90 then Some (of_nat (n - 65))
      else if 50 \<le> n \<and> n \<le> 55 then Some (of_nat (n - 50 + 26))
      else None)"

fun decode_symbols :: "string \<Rightarrow> 32 word \<Rightarrow> nat \<Rightarrow> 8 word list \<Rightarrow> (32 word \<times> 8 word list) option" where
  "decode_symbols [] buffer bits written = Some (buffer, written)"
| "decode_symbols (c # cs) buffer bits written =
     (case symbol_digit c of
        None \<Rightarrow> None
      | Some digit \<Rightarrow>
          let buffer' = push_bit 5 buffer OR digit in
          if 8 \<le> bits + 5
          then if length written = 16 then None
               else decode_symbols cs (buffer' AND (push_bit (bits + 5 - 8) 1 - 1)) (bits + 5 - 8)
                      (written @ [ucast (drop_bit (bits + 5 - 8) buffer')])
          else decode_symbols cs (buffer' AND (push_bit (bits + 5) 1 - 1)) (bits + 5) written)"

definition strip_pg :: "string \<Rightarrow> string option" where
  "strip_pg s = (if take 2 s = ''pg'' then Some (drop 2 s) else None)"

definition decode_intent_bytes :: "string \<Rightarrow> 8 word list option" where
  "decode_intent_bytes cid =
     (case strip_pg cid of
        None \<Rightarrow> None
      | Some encoded \<Rightarrow>
          if length encoded \<noteq> 26 then None
          else case decode_symbols encoded 0 0 [] of
            None \<Rightarrow> None
          | Some (buffer, written) \<Rightarrow> if length written \<noteq> 16 \<or> buffer \<noteq> 0 then None else Some written)"

definition hex_byte :: "8 word \<Rightarrow> string" where
  "hex_byte b = hex_digits 2 (unat b)"

definition durable_client_order_id :: "string \<Rightarrow> string option" where
  "durable_client_order_id venue_client_id =
     map_option (\<lambda>bs. ''pg'' @ concat (map hex_byte bs)) (decode_intent_bytes venue_client_id)"

text \<open>\<open>Uuid::as_bytes\<close>: the sixteen bytes of the id, most significant first.\<close>

fun bytes_of :: "nat \<Rightarrow> nat \<Rightarrow> 8 word list" where
  "bytes_of 0 n = []"
| "bytes_of (Suc k) n = bytes_of k (n div 256) @ [of_nat (n mod 256)]"

definition uuid_bytes :: "uuid \<Rightarrow> 8 word list" where
  "uuid_bytes u = bytes_of 16 (unat u)"

definition binance_client_order_id :: "order_intent \<Rightarrow> string" where
  "binance_client_order_id i = encode_intent_bytes (uuid_bytes (oi_intent_id i))"

section \<open>Back from the durable identity\<close>

text \<open>Slicing a text inside a character panics; a byte of the form 10xxxxxx is not the start of one.\<close>

definition char_boundary :: "string \<Rightarrow> nat \<Rightarrow> bool" where
  "char_boundary s i \<longleftrightarrow> i = 0 \<or> i = length s \<or> (i < length s \<and> \<not> (128 \<le> (of_char (s ! i) :: nat) \<and> (of_char (s ! i) :: nat) < 192))"

definition hex_value :: "char \<Rightarrow> nat option" where
  "hex_value c =
     (let n = (of_char c :: nat) in
      if 48 \<le> n \<and> n \<le> 57 then Some (n - 48)
      else if 97 \<le> n \<and> n \<le> 102 then Some (n - 87)
      else if 65 \<le> n \<and> n \<le> 70 then Some (n - 55)
      else None)"

fun hex_sections :: "string \<Rightarrow> nat \<Rightarrow> nat \<Rightarrow> (execution_error, 8 word list) outcome" where
  "hex_sections hex index 0 = Ok []"
| "hex_sections hex index (Suc n) =
     (if \<not> char_boundary hex (index * 2) \<or> \<not> char_boundary hex (index * 2 + 2) then Panic
      else case (hex_value (hex ! (index * 2)), hex_value (hex ! (index * 2 + 1))) of
        (Some h, Some l) \<Rightarrow> and_then (hex_sections hex (index + 1) n) (\<lambda>bs. Ok (of_nat (16 * h + l) # bs))
      | _ \<Rightarrow> Err (ExConversion ''invalid durable client id''))"

definition venue_id_from_durable :: "string \<Rightarrow> (execution_error, string) outcome" where
  "venue_id_from_durable durable =
     (case strip_pg durable of
        None \<Rightarrow> Err (ExConversion ''invalid durable client id'')
      | Some hex \<Rightarrow>
          if length hex \<noteq> 32 then Err (ExConversion ''invalid durable client id'')
          else and_then (hex_sections hex 0 16) (\<lambda>bytes.
            let venue_id = encode_intent_bytes bytes in
            if durable_client_order_id venue_id \<noteq> Some durable then Err (ExConversion ''noncanonical durable client id'')
            else Ok venue_id))"

section \<open>Buffers as numbers\<close>

lemma unat_push_or:
  fixes b d :: "32 word"
  assumes "unat b < 2 ^ (32 - k)" "unat d < 2 ^ k" "k \<le> 32"
  shows "unat (push_bit k b OR d) = unat b * 2 ^ k + unat d"
proof -
  have p: "unat b * 2 ^ k < 2 ^ 32"
    using assms(1,3) by (metis le_add_diff_inverse2 mult_less_mono1 power_add zero_less_numeral zero_less_power)
  have "unat (push_bit k b) = unat b * 2 ^ k"
    using p by (simp add: unsigned_push_bit_eq take_bit_eq_mod [where ?'a = nat] push_bit_eq_mult [where ?'a = nat])
  moreover have "unat b * 2 ^ k OR unat d = unat b * 2 ^ k + unat d"
  proof -
    have "(unat b * 2 ^ k) AND unat d = 0"
    proof (rule bit_eqI)
      fix n
      have "unat d = take_bit k (unat d)" using assms(2) by (simp add: take_bit_nat_eq_self)
      then have "\<not> bit (unat d) n" if "k \<le> n" using that by (metis bit_take_bit_iff not_less)
      moreover have "\<not> bit (unat b * 2 ^ k) n" if "n < k" using that by (simp add: push_bit_eq_mult [symmetric] bit_push_bit_iff_nat)
      ultimately show "bit ((unat b * 2 ^ k) AND unat d) n = bit (0::nat) n" by (cases "k \<le> n") (auto simp: bit_and_iff not_le)
    qed
    then have "int (unat b * 2 ^ k) AND int (unat d) = 0" unfolding of_nat_and_eq [symmetric] by (simp only: of_nat_0)
    then have "int (unat b * 2 ^ k OR unat d) = int (unat b * 2 ^ k + unat d)"
      using plus_and_or [of "int (unat b * 2 ^ k)" "int (unat d)"] by (simp only: of_nat_or_eq of_nat_add add_0_left)
    then show ?thesis by (simp only: of_nat_eq_iff)
  qed
  ultimately show ?thesis by (simp add: unsigned_or_eq)
qed

lemma unat_low_bits: "k < 32 \<Longrightarrow> unat ((b :: 32 word) AND (push_bit k 1 - 1)) = unat b mod 2 ^ k"
  by (simp add: mask_eq_exp_minus_1 [symmetric] push_bit_of_1 take_bit_eq_mask [symmetric] unsigned_take_bit_eq take_bit_eq_mod [where ?'a = nat])

lemma unat_symbol_index: "unat (drop_bit k (b :: 32 word) AND 31) = unat b div 2 ^ k mod 32"
proof -
  have "(31 :: 32 word) = mask 5" by (simp add: mask_eq_exp_minus_1)
  then have "unat (drop_bit k b AND 31) = unat (take_bit 5 (drop_bit k b))" by (simp add: take_bit_eq_mask)
  also have "\<dots> = unat b div 2 ^ k mod 32"
    using unsigned_less [of b, where 'a = nat]
    by (simp add: unsigned_take_bit_eq unsigned_drop_bit_eq take_bit_eq_mod [where ?'a = nat] drop_bit_eq_div [where ?'a = nat])
  finally show ?thesis .
qed


section \<open>Texts as numbers\<close>

definition digit_of :: "char \<Rightarrow> nat" where
  "digit_of c = (case symbol_digit c of Some w \<Rightarrow> unat w | None \<Rightarrow> 0)"

fun val32 :: "string \<Rightarrow> nat" where
  "val32 [] = 0"
| "val32 (c # cs) = digit_of c * 32 ^ length cs + val32 cs"

fun val8 :: "8 word list \<Rightarrow> nat" where
  "val8 [] = 0"
| "val8 (b # bs) = unat b * 256 ^ length bs + val8 bs"

definition base32_text :: "string \<Rightarrow> bool" where
  "base32_text s \<longleftrightarrow> (\<forall>c\<in>set s. symbol_digit c \<noteq> None)"

lemma symbol_digit_symbol: "n < 32 \<Longrightarrow> symbol_digit (base32_alphabet ! n) = Some (of_nat n)"
proof -
  have "list_all (\<lambda>n. symbol_digit (base32_alphabet ! n) = Some (of_nat n)) [0..<32]" by code_simp
  then show "n < 32 \<Longrightarrow> symbol_digit (base32_alphabet ! n) = Some (of_nat n)" by (simp add: list_all_iff)
qed

lemma alphabet_codes: "map of_char base32_alphabet = [65..<91] @ [50..<56 :: nat]"
  by (simp add: base32_alphabet_def upt_rec_numeral)

lemma unat_small: "n < 2 ^ 32 \<Longrightarrow> unat (of_nat n :: 32 word) = n"
  by (simp add: unsigned_of_nat take_bit_nat_eq_self)

lemma alphabet_code: "n < 32 \<Longrightarrow> of_char (base32_alphabet ! n) = (if n < 26 then 65 + n else 24 + n)"
proof -
  assume n: "n < 32"
  have "length base32_alphabet = 32" by (simp add: base32_alphabet_def)
  with n have "of_char (base32_alphabet ! n) = ([65..<91] @ [50..<56 :: nat]) ! n"
    by (simp only: alphabet_codes [symmetric] nth_map)
  with n show ?thesis by (simp del: upt_rec_numeral add: nth_append)
qed

lemma symbol_digit_range:
  assumes "symbol_digit c = Some w"
  shows "unat w < 32 \<and> symbol_of w = c"
proof -
  define n where "n = (of_char c :: nat)"
  consider "65 \<le> n" "n \<le> 90" "w = of_nat (n - 65)" | "50 \<le> n" "n \<le> 55" "w = of_nat (n - 50 + 26)"
    using assms by (auto simp: symbol_digit_def Let_def n_def split: if_splits)
  then have "unat w < 32 \<and> of_char (base32_alphabet ! unat w) = n"
  proof cases
    case 1
    then have "unat w = n - 65" using unat_small [of "n - 65"] by simp
    with 1 show ?thesis by (simp add: alphabet_code)
  next
    case 2
    then have "unat w = n - 50 + 26" using unat_small [of "n - 50 + 26"] by simp
    with 2 have "unat w < 32" "\<not> unat w < 26" "24 + unat w = n" by linarith+
    then show ?thesis by (simp add: alphabet_code)
  qed
  then show ?thesis unfolding symbol_of_def n_def by (simp add: of_char_eq_iff)
qed

lemma digit_of_symbol: "unat w < 32 \<Longrightarrow> symbol_digit (symbol_of w) = Some w \<and> digit_of (symbol_of w) = unat w"
  using symbol_digit_symbol [of "unat w"] by (simp add: symbol_of_def digit_of_def)

lemma digit_of_less: "digit_of c < 32"
  using symbol_digit_range by (auto simp: digit_of_def split: option.split)

lemma digit_of_inj: "symbol_digit c \<noteq> None \<Longrightarrow> symbol_digit d \<noteq> None \<Longrightarrow> digit_of c = digit_of d \<Longrightarrow> c = d"
  using symbol_digit_range [of c] symbol_digit_range [of d] by (auto simp: digit_of_def word_unat_eq_iff)

lemma val32_append: "val32 (xs @ ys) = val32 xs * 32 ^ length ys + val32 ys"
  by (induction xs) (simp_all add: algebra_simps power_add)

lemma val32_less: "val32 s < 32 ^ length s"
proof (induction s)
  case (Cons c cs)
  have "digit_of c * 32 ^ length cs + val32 cs < (digit_of c + 1) * 32 ^ length cs" using Cons by simp
  also have "\<dots> \<le> 32 * 32 ^ length cs" using digit_of_less [of c] by (intro mult_right_mono) simp_all
  finally show ?case by simp
qed simp

lemma val8_less: "val8 bs < 256 ^ length bs"
proof (induction bs)
  case (Cons b bs)
  have "unat b < 2 ^ LENGTH(8)" by (rule unsigned_less)
  then have b: "unat b + 1 \<le> 256" by simp
  have "unat b * 256 ^ length bs + val8 bs < (unat b + 1) * 256 ^ length bs" using Cons by simp
  also have "\<dots> \<le> 256 * 256 ^ length bs" using b by (intro mult_right_mono) simp_all
  finally show ?case by simp
qed simp

lemma digits_unique:
  assumes "a * n + x = b * n + y" "x < n" "y < (n :: nat)"
  shows "a = b \<and> x = y"
proof -
  have "(a * n + x) div n = (b * n + y) div n" "(a * n + x) mod n = (b * n + y) mod n" using assms(1) by simp_all
  with assms(2,3) show ?thesis by simp
qed

lemma val32_inj:
  "length xs = length ys \<Longrightarrow> base32_text xs \<Longrightarrow> base32_text ys \<Longrightarrow> val32 xs = val32 ys \<Longrightarrow> xs = ys"
proof (induction xs ys rule: list_induct2)
  case (Cons x xs y ys)
  from Cons.prems(3) Cons.hyps have "digit_of x * 32 ^ length xs + val32 xs = digit_of y * 32 ^ length xs + val32 ys" by simp
  from digits_unique [OF this] Cons.hyps val32_less [of xs] val32_less [of ys] have "digit_of x = digit_of y" "val32 xs = val32 ys" by simp_all
  with Cons digit_of_inj [of x y] show ?case by (simp add: base32_text_def)
qed simp

lemma val8_inj: "length xs = length ys \<Longrightarrow> val8 xs = val8 ys \<Longrightarrow> xs = ys"
proof (induction xs ys rule: list_induct2)
  case (Cons x xs y ys)
  from Cons.prems Cons.hyps have "unat x * 256 ^ length xs + val8 xs = unat y * 256 ^ length xs + val8 ys" by simp
  from digits_unique [OF this] Cons.hyps val8_less [of xs] val8_less [of ys] have "unat x = unat y" "val8 xs = val8 ys" by simp_all
  with Cons.IH show ?case by (simp add: word_unat_eq_iff)
qed simp

section \<open>The loops as numbers\<close>

lemma take_symbols_val:
  assumes "take_symbols buffer bits out = (bits', out')"
  shows "\<exists>syms. out' = out @ syms \<and> base32_text syms \<and> bits = 5 * length syms + bits' \<and> bits' < 5
    \<and> unat buffer mod 2 ^ bits = val32 syms * 2 ^ bits' + unat buffer mod 2 ^ bits'"
  using assms
proof (induction buffer bits out rule: take_symbols.induct)
  case (1 buffer bits out)
  show ?case
  proof (cases "5 \<le> bits")
    case True
    let ?w = "drop_bit (bits - 5) buffer AND 31"
    have w: "unat ?w = unat buffer div 2 ^ (bits - 5) mod 32" by (rule unat_symbol_index)
    then have sym: "symbol_digit (symbol_of ?w) = Some ?w" "digit_of (symbol_of ?w) = unat ?w" using digit_of_symbol [of ?w] by simp_all
    from "1.prems" True have "take_symbols buffer (bits - 5) (out @ [symbol_of ?w]) = (bits', out')" by (subst (asm) take_symbols.simps) simp
    from "1.IH" [OF True this] obtain syms where syms: "out' = (out @ [symbol_of ?w]) @ syms" "base32_text syms"
        "bits - 5 = 5 * length syms + bits'" "bits' < 5"
        "unat buffer mod 2 ^ (bits - 5) = val32 syms * 2 ^ bits' + unat buffer mod 2 ^ bits'" by blast
    obtain q where q: "bits = q + 5" using True by (metis add.commute le_add_diff_inverse)
    have "unat buffer mod 2 ^ bits = unat buffer mod (2 ^ (bits - 5) * 32)" unfolding q by (simp add: power_add)
    also have "\<dots> = 2 ^ (bits - 5) * (unat buffer div 2 ^ (bits - 5) mod 32) + unat buffer mod 2 ^ (bits - 5)"
      by (rule mod_mult2_eq)
    also have "\<dots> = unat ?w * 2 ^ (bits - 5) + (val32 syms * 2 ^ bits' + unat buffer mod 2 ^ bits')" by (simp add: w syms(5))
    also have "\<dots> = unat ?w * (32 ^ length syms * 2 ^ bits') + (val32 syms * 2 ^ bits' + unat buffer mod 2 ^ bits')"
      using syms(3) by (simp add: power_add power_mult)
    also have "\<dots> = val32 (symbol_of ?w # syms) * 2 ^ bits' + unat buffer mod 2 ^ bits'" by (simp add: sym(2) algebra_simps)
    finally show ?thesis using syms sym True by (intro exI [of _ "symbol_of ?w # syms"]) (auto simp: base32_text_def)
  next
    case False
    with "1.prems" have "bits' = bits" "out' = out" by (simp_all add: take_symbols.simps)
    with False show ?thesis by (intro exI [of _ "[]"]) (simp add: base32_text_def)
  qed
qed

lemma encode_bytes_val:
  assumes "encode_bytes bs buffer bits out = (buffer', bits', out')" "unat buffer < 2 ^ bits" "bits < 5"
  shows "\<exists>syms. out' = out @ syms \<and> base32_text syms \<and> bits + 8 * length bs = 5 * length syms + bits' \<and> bits' < 5
    \<and> unat buffer' < 2 ^ bits' \<and> unat buffer * 256 ^ length bs + val8 bs = val32 syms * 2 ^ bits' + unat buffer'"
  using assms
proof (induction bs buffer bits out rule: encode_bytes.induct)
  case (1 buffer bits out)
  then show ?case by (intro exI [of _ "[]"]) (auto simp: base32_text_def)
next
  case (2 b bs buffer bits out)
  define buf where "buf = push_bit 8 buffer OR (ucast b :: 32 word)"
  obtain k mid where ts: "take_symbols buf (bits + 8) out = (k, mid)" by (cases "take_symbols buf (bits + 8) out")
  have "unat b < 2 ^ LENGTH(8)" by (rule unsigned_less)
  then have b256: "unat b < 256" by simp
  then have b: "unat (ucast b :: 32 word) = unat b" by (simp add: unsigned_ucast_eq take_bit_nat_eq_self)
  have "(2::nat) ^ bits \<le> 2 ^ 4" using "2.prems"(3) by (intro power_increasing) simp_all
  with "2.prems"(2) have small: "unat buffer < 16" by simp
  have buf: "unat buf = unat buffer * 256 + unat b"
    unfolding buf_def using unat_push_or [of buffer 8 "ucast b"] b b256 small by simp
  from take_symbols_val [OF ts] obtain s1 where s1: "mid = out @ s1" "base32_text s1" "bits + 8 = 5 * length s1 + k" "k < 5"
      "unat buf mod 2 ^ (bits + 8) = val32 s1 * 2 ^ k + unat buf mod 2 ^ k" by blast
  have "unat buf < 2 ^ (bits + 8)" using buf b256 "2.prems"(2) by (simp add: power_add)
  with s1(5) have s1v: "unat buf = val32 s1 * 2 ^ k + unat buf mod 2 ^ k" by simp
  define buf2 where "buf2 = buf AND (push_bit k 1 - 1)"
  have buf2: "unat buf2 = unat buf mod 2 ^ k" "unat buf2 < 2 ^ k" using unat_low_bits [of k buf] s1(4) by (simp_all add: buf2_def)
  have run: "encode_bytes bs buf2 k mid = (buffer', bits', out')"
    using "2.prems"(1) ts by (simp add: Let_def buf_def buf2_def)
  from "2.IH" [OF buf_def ts [symmetric], folded buf2_def, OF run buf2(2) s1(4)] obtain s2 where
      s2: "out' = mid @ s2" "base32_text s2" "k + 8 * length bs = 5 * length s2 + bits'" "bits' < 5" "unat buffer' < 2 ^ bits'"
        "unat buf2 * 256 ^ length bs + val8 bs = val32 s2 * 2 ^ bits' + unat buffer'" by blast
  have pw: "(2::nat) ^ k * 256 ^ length bs = 32 ^ length s2 * 2 ^ bits'"
  proof -
    have "(2::nat) ^ k * 256 ^ length bs = 2 ^ (k + 8 * length bs)" by (simp add: power_add power_mult)
    also have "\<dots> = 32 ^ length s2 * 2 ^ bits'" unfolding s2(3) by (simp add: power_add power_mult)
    finally show ?thesis .
  qed
  have "unat buffer * 256 ^ length (b # bs) + val8 (b # bs) = unat buf * 256 ^ length bs + val8 bs" by (simp add: buf algebra_simps)
  also have "\<dots> = val32 s1 * (2 ^ k * 256 ^ length bs) + (unat buf2 * 256 ^ length bs + val8 bs)"
    by (subst s1v) (simp add: buf2(1) algebra_simps)
  also have "\<dots> = val32 (s1 @ s2) * 2 ^ bits' + unat buffer'" unfolding pw s2(6) val32_append by (simp add: algebra_simps)
  finally show ?case using s1 s2 by (intro exI [of _ "s1 @ s2"]) (auto simp: base32_text_def)
qed

lemma decode_symbols_val:
  assumes "decode_symbols cs buffer bits written = Some (buffer', written')" "unat buffer < 2 ^ bits" "bits < 8"
  shows "\<exists>bs bits'. written' = written @ bs \<and> base32_text cs \<and> bits + 5 * length cs = 8 * length bs + bits' \<and> bits' < 8
    \<and> unat buffer' < 2 ^ bits' \<and> unat buffer * 32 ^ length cs + val32 cs = val8 bs * 2 ^ bits' + unat buffer'"
  using assms
proof (induction cs buffer bits written rule: decode_symbols.induct)
  case (1 buffer bits written)
  then show ?case by (intro exI [of _ "[]"] exI [of _ bits]) (auto simp: base32_text_def)
next
  case (2 c cs buffer bits written)
  obtain d where d: "symbol_digit c = Some d" using "2.prems"(1) by (auto split: option.splits)
  define buf where "buf = push_bit 5 buffer OR d"
  have d32: "unat d < 32" using symbol_digit_range [OF d] by simp
  have "(2::nat) ^ bits \<le> 2 ^ 7" using "2.prems"(3) by (intro power_increasing) simp_all
  with "2.prems"(2) have small: "unat buffer < 128" by simp
  have buf: "unat buf = unat buffer * 32 + unat d" unfolding buf_def using unat_push_or [of buffer 5 d] d32 small by simp
  have buf_less: "unat buf < 2 ^ (bits + 5)" using buf d32 "2.prems"(2) by (simp add: power_add)
  have head: "unat buffer * 32 ^ length (c # cs) + val32 (c # cs) = unat buf * 32 ^ length cs + val32 cs"
    by (simp add: buf digit_of_def d algebra_simps)
  show ?case
  proof (cases "8 \<le> bits + 5")
    case True
    let ?k = "bits + 5 - 8"
    define buf2 where "buf2 = buf AND (push_bit ?k 1 - 1)"
    define byte where "byte = (ucast (drop_bit ?k buf) :: 8 word)"
    have k: "?k < 8" using "2.prems"(3) by simp
    have buf2: "unat buf2 = unat buf mod 2 ^ ?k" "unat buf2 < 2 ^ ?k" using unat_low_bits [of ?k buf] k by (simp_all add: buf2_def)
    define q where "q = bits - 3"
    have q: "bits = q + 3" using True by (simp add: q_def)
    have "(2::nat) ^ (bits + 5) = 2 ^ ?k * 256" unfolding q by (simp add: power_add)
    with buf_less have "unat buf div 2 ^ ?k < 256" by (simp add: less_mult_imp_div_less mult.commute)
    then have byte: "unat byte = unat buf div 2 ^ ?k"
      using unsigned_less [of buf, where 'a = nat]
      by (simp add: byte_def unsigned_ucast_eq unsigned_drop_bit_eq drop_bit_eq_div [where ?'a = nat] take_bit_nat_eq_self)
    have run: "decode_symbols cs buf2 ?k (written @ [byte]) = Some (buffer', written')" and w: "length written \<noteq> 16"
      using "2.prems"(1) True by (simp_all add: d Let_def buf_def buf2_def byte_def split: if_splits)
    from "2.IH"(1) [OF d buf_def True w, folded buf2_def byte_def, OF run buf2(2) k] obtain bs bits' where
        r: "written' = (written @ [byte]) @ bs" "base32_text cs" "?k + 5 * length cs = 8 * length bs + bits'" "bits' < 8" "unat buffer' < 2 ^ bits'"
          "unat buf2 * 32 ^ length cs + val32 cs = val8 bs * 2 ^ bits' + unat buffer'" by blast
    have pw: "(2::nat) ^ ?k * 32 ^ length cs = 256 ^ length bs * 2 ^ bits'"
    proof -
      have "(2::nat) ^ ?k * 32 ^ length cs = 2 ^ (?k + 5 * length cs)" by (simp add: power_add power_mult)
      also have "\<dots> = 256 ^ length bs * 2 ^ bits'" unfolding r(3) by (simp add: power_add power_mult)
      finally show ?thesis .
    qed
    have split: "unat buf = unat byte * 2 ^ ?k + unat buf2" unfolding byte buf2(1) by (rule div_mult_mod_eq [symmetric])
    have "unat buf * 32 ^ length cs + val32 cs = unat byte * (2 ^ ?k * 32 ^ length cs) + (unat buf2 * 32 ^ length cs + val32 cs)"
      by (subst split) (simp add: algebra_simps)
    also have "\<dots> = val8 (byte # bs) * 2 ^ bits' + unat buffer'" unfolding pw r(6) by (simp add: algebra_simps)
    finally show ?thesis using head r d True by (intro exI [of _ "byte # bs"] exI [of _ bits']) (auto simp: base32_text_def)
  next
    case False
    define buf2 where "buf2 = buf AND (push_bit (bits + 5) 1 - 1)"
    have "unat buf2 = unat buf mod 2 ^ (bits + 5)" using unat_low_bits [of "bits + 5" buf] False by (simp add: buf2_def)
    with buf_less have same: "buf2 = buf" by (simp add: word_unat_eq_iff)
    have run: "decode_symbols cs buf2 (bits + 5) written = Some (buffer', written')"
      using "2.prems"(1) False by (simp add: d Let_def buf_def buf2_def)
    from "2.IH"(2) [OF d buf_def False, folded buf2_def, OF run] buf_less False same obtain bs bits' where
        r: "written' = written @ bs" "base32_text cs" "bits + 5 + 5 * length cs = 8 * length bs + bits'" "bits' < 8" "unat buffer' < 2 ^ bits'"
          "unat buf * 32 ^ length cs + val32 cs = val8 bs * 2 ^ bits' + unat buffer'" by auto
    with head d show ?thesis by (intro exI [of _ bs] exI [of _ bits']) (auto simp: base32_text_def)
  qed
qed

lemma decode_symbols_total:
  "base32_text cs \<Longrightarrow> bits < 8 \<Longrightarrow> 8 * length written + bits + 5 * length cs < 136 \<Longrightarrow> \<exists>r. decode_symbols cs buffer bits written = Some r"
proof (induction cs buffer bits written rule: decode_symbols.induct)
  case (2 c cs buffer bits written)
  then show ?case by (auto simp: base32_text_def Let_def)
qed simp

section \<open>Encoding and decoding are inverse\<close>

lemma encode_val:
  assumes "length bs = 16"
  shows "\<exists>syms. encode_intent_bytes bs = ''pg'' @ syms \<and> base32_text syms \<and> length syms = 26 \<and> val32 syms = 4 * val8 bs"
proof -
  obtain buffer bits out where e: "encode_bytes bs 0 0 ''pg'' = (buffer, bits, out)" by (cases "encode_bytes bs 0 0 ''pg''") blast
  from encode_bytes_val [OF e] obtain syms where s: "out = ''pg'' @ syms" "base32_text syms" "8 * length bs = 5 * length syms + bits" "bits < 5"
      "unat buffer < 2 ^ bits" "val8 bs = val32 syms * 2 ^ bits + unat buffer" by auto
  have n: "length syms = 25" "bits = 3" using s(3,4) assms by presburger+
  let ?w = "push_bit 2 buffer AND 31"
  have b: "unat buffer < 8" using s(5) n by simp
  have p: "unat (push_bit 2 buffer) = 4 * unat buffer" using unat_push_or [of buffer 2 0] b by simp
  have w: "unat ?w = 4 * unat buffer" using unat_symbol_index [of 0 "push_bit 2 buffer"] b p by simp
  then have sym: "symbol_digit (symbol_of ?w) = Some ?w" "digit_of (symbol_of ?w) = unat ?w" using digit_of_symbol [of ?w] b by simp_all
  have "encode_intent_bytes bs = ''pg'' @ (syms @ [symbol_of ?w])" using e s(1) n by (simp add: encode_intent_bytes_def)
  moreover have "val32 (syms @ [symbol_of ?w]) = 4 * val8 bs" using s(6) n sym w by (simp add: val32_append)
  moreover have "base32_text (syms @ [symbol_of ?w])" using s(2) sym by (simp add: base32_text_def)
  ultimately show ?thesis using n by (intro exI [of _ "syms @ [symbol_of ?w]"]) simp
qed

lemma decode_val:
  "decode_intent_bytes s = Some bs \<longleftrightarrow>
     (\<exists>syms. s = ''pg'' @ syms \<and> base32_text syms \<and> length syms = 26 \<and> length bs = 16 \<and> val32 syms = 4 * val8 bs)"
proof
  assume d: "decode_intent_bytes s = Some bs"
  then obtain syms buffer where syms: "strip_pg s = Some syms" "length syms = 26" "decode_symbols syms 0 0 [] = Some (buffer, bs)"
      "length bs = 16" "buffer = 0"
    by (auto simp: decode_intent_bytes_def split: option.splits if_splits)
  from decode_symbols_val [OF syms(3)] obtain bits where v: "base32_text syms" "5 * length syms = 8 * length bs + bits"
      "val32 syms = val8 bs * 2 ^ bits + unat buffer" by auto
  have "bits = 2" using v(2) syms by simp
  moreover have "s = ''pg'' @ syms" using syms(1) by (auto simp: strip_pg_def split: if_splits) (metis append_take_drop_id append_Cons append_Nil)
  ultimately show "\<exists>syms. s = ''pg'' @ syms \<and> base32_text syms \<and> length syms = 26 \<and> length bs = 16 \<and> val32 syms = 4 * val8 bs"
    using v syms by simp
next
  assume "\<exists>syms. s = ''pg'' @ syms \<and> base32_text syms \<and> length syms = 26 \<and> length bs = 16 \<and> val32 syms = 4 * val8 bs"
  then obtain syms where s: "s = ''pg'' @ syms" "base32_text syms" "length syms = 26" "length bs = 16" "val32 syms = 4 * val8 bs" by blast
  from decode_symbols_total [of syms 0 "[]" 0] s obtain buffer bs2 where r: "decode_symbols syms 0 0 [] = Some (buffer, bs2)" by auto
  from decode_symbols_val [OF r] obtain bits where v: "5 * length syms = 8 * length bs2 + bits" "bits < 8" "unat buffer < 2 ^ bits"
      "val32 syms = val8 bs2 * 2 ^ bits + unat buffer" by auto
  have n: "bits = 2" "length bs2 = 16" using v(1,2) s(3) by presburger+
  from v(4) s(5) n have "val8 bs2 * 4 + unat buffer = val8 bs * 4 + 0" by simp
  from digits_unique [OF this] v(3) n have "val8 bs2 = val8 bs" "unat buffer = 0" by simp_all
  then have "bs2 = bs" "buffer = 0" using val8_inj [of bs2 bs] n s(4) by (simp_all add: word_unat_eq_iff [of buffer])
  then show "decode_intent_bytes s = Some bs" using r s n by (simp add: decode_intent_bytes_def strip_pg_def)
qed

lemma decode_exact: "decode_intent_bytes s = Some bs \<longleftrightarrow> length bs = 16 \<and> s = encode_intent_bytes bs"
proof -
  { assume n: "length bs = 16"
    from encode_val [OF n] obtain e where e: "encode_intent_bytes bs = ''pg'' @ e" "base32_text e" "length e = 26" "val32 e = 4 * val8 bs" by blast
    then have "syms = e" if "base32_text syms" "length syms = 26" "val32 syms = 4 * val8 bs" for syms using that val32_inj [of syms e] by simp
    with e(2-4) have "(\<exists>syms. s = ''pg'' @ syms \<and> base32_text syms \<and> length syms = 26 \<and> val32 syms = 4 * val8 bs) \<longleftrightarrow> s = encode_intent_bytes bs"
      unfolding e(1) by blast }
  then show ?thesis unfolding decode_val by blast
qed

section \<open>The durable identity\<close>

lemma length_bytes_of [simp]: "length (bytes_of k n) = k"
  by (induction k arbitrary: n) auto

lemma unat_of_mod: "unat (of_nat (n mod 256) :: 8 word) = n mod 256"
  by (simp add: unsigned_of_nat take_bit_eq_mod [where ?'a = nat])

lemma hex_byte_digits: "hex_byte b = [hexdigit (unat b div 16 mod 16), hexdigit (unat b mod 16)]"
  by (simp add: hex_byte_def numeral_2_eq_2)

lemma hex_bytes_of: "concat (map hex_byte (bytes_of k n)) = hex_digits (2 * k) n"
proof (induction k arbitrary: n)
  case (Suc k)
  have "n mod (16 * 16) = 16 * (n div 16 mod 16) + n mod 16" by (rule mod_mult2_eq)
  then have m: "n mod 256 div 16 mod 16 = n div 16 mod 16" "n mod 256 mod 16 = n mod 16" by simp_all
  have "n div 16 div 16 = n div 256" by (simp add: div_mult2_eq [symmetric])
  then show ?case using Suc [of "n div 256"] by (simp add: hex_byte_digits [of "of_nat (n mod 256)"] unat_of_mod m)
qed simp

lemma hex_value_hexdigit: "m < 16 \<Longrightarrow> hex_value (hexdigit m) = Some m \<and> (of_char (hexdigit m) :: nat) < 128"
proof -
  have "list_all (\<lambda>m. hex_value (hexdigit m) = Some m \<and> (of_char (hexdigit m) :: nat) < 128) [0..<16]" by code_simp
  then show "m < 16 \<Longrightarrow> hex_value (hexdigit m) = Some m \<and> (of_char (hexdigit m) :: nat) < 128" by (simp add: list_all_iff)
qed

lemma length_hex_bytes [simp]: "length (concat (map hex_byte bs)) = 2 * length bs"
  by (induction bs) (simp_all add: hex_byte_digits)

lemma char_boundary_hex: "char_boundary (pre @ concat (map hex_byte bs)) (length pre)"
proof (cases bs)
  case (Cons b bs')
  have "(of_char (hexdigit (unat b div 16 mod 16)) :: nat) < 128" by (simp add: hex_value_hexdigit)
  then show ?thesis by (simp add: Cons char_boundary_def hex_byte_digits nth_append)
qed (simp add: char_boundary_def)

lemma hex_sections_bytes:
  "length pre = 2 * index \<Longrightarrow> hex_sections (pre @ concat (map hex_byte bs)) index (length bs) = Ok bs"
proof (induction bs arbitrary: pre index)
  case (Cons b bs)
  let ?h = "unat b div 16 mod 16" and ?l = "unat b mod 16"
  have "unat b < 2 ^ LENGTH(8)" by (rule unsigned_less)
  then have "16 * ?h + ?l = unat b" by simp
  then have "(of_nat (16 * ?h + ?l) :: 8 word) = b" by (simp del: of_nat_add of_nat_mult)
  moreover have "char_boundary (pre @ concat (map hex_byte (b # bs))) (index * 2)"
    using char_boundary_hex [of pre "b # bs"] Cons.prems by (simp add: mult.commute)
  moreover have "char_boundary (pre @ concat (map hex_byte (b # bs))) (index * 2 + 2)"
    using char_boundary_hex [of "pre @ hex_byte b" bs] Cons.prems by (simp add: hex_byte_digits [of b] mult.commute)
  moreover have "hex_sections (pre @ concat (map hex_byte (b # bs))) (index + 1) (length bs) = Ok bs"
    using Cons.IH [of "pre @ hex_byte b" "index + 1"] Cons.prems by (simp add: hex_byte_digits [of b])
  ultimately show ?case using Cons.prems hex_value_hexdigit [of ?h] hex_value_hexdigit [of ?l]
    by (simp add: hex_byte_digits [of b] nth_append mult.commute outcome_simps)
qed simp

lemma durable_of_bytes: "length bs = 16 \<Longrightarrow> durable_client_order_id (encode_intent_bytes bs) = Some (''pg'' @ concat (map hex_byte bs))"
  using decode_exact [of "encode_intent_bytes bs" bs] by (simp add: durable_client_order_id_def)

lemma venue_id_of_bytes: "length bs = 16 \<Longrightarrow> venue_id_from_durable (''pg'' @ concat (map hex_byte bs)) = Ok (encode_intent_bytes bs)"
  using hex_sections_bytes [of "[]" 0 bs] durable_of_bytes [of bs] by (simp add: venue_id_from_durable_def strip_pg_def Let_def)

lemma durable_text: "client_order_id uuid_hex i = ''pg'' @ concat (map hex_byte (uuid_bytes (oi_intent_id i)))"
  using hex_bytes_of [of 16 "unat (oi_intent_id i)"] by (simp add: client_order_id_def uuid_hex_def uuid_bytes_def)

lemma binance_durable_id: "durable_client_order_id (binance_client_order_id i) = Some (client_order_id uuid_hex i)"
  using durable_of_bytes [of "uuid_bytes (oi_intent_id i)"] by (simp add: binance_client_order_id_def durable_text uuid_bytes_def)

text \<open>
  C19. The Binance identity loses nothing: the 28-character venue id of an intent decodes to exactly its durable
  identity and the durable identity converts back to exactly the venue id; two intents share a venue id only when they
  share the intent id; and decoding accepts no text but the encoding of sixteen bytes, so no second spelling of an
  identity is ever accepted.
\<close>

theorem binance_identity_round_trip:
  "(decode_intent_bytes s = Some bs \<longleftrightarrow> length bs = 16 \<and> s = encode_intent_bytes bs)
   \<and> length (binance_client_order_id i) = 28
   \<and> durable_client_order_id (binance_client_order_id i) = Some (client_order_id uuid_hex i)
   \<and> venue_id_from_durable (client_order_id uuid_hex i) = Ok (binance_client_order_id i)
   \<and> (binance_client_order_id i = binance_client_order_id j \<longleftrightarrow> oi_intent_id i = oi_intent_id j)"
proof -
  have n: "length (uuid_bytes u) = 16" for u by (simp add: uuid_bytes_def)
  note d = binance_durable_id
  have "client_order_id uuid_hex i = client_order_id uuid_hex j \<longleftrightarrow> oi_intent_id i = oi_intent_id j"
    by (rule client_order_id_eq_iff [OF uuid_hex_ok])
  then have "binance_client_order_id i = binance_client_order_id j \<longleftrightarrow> oi_intent_id i = oi_intent_id j"
    using d [of i] d [of j] by (metis binance_client_order_id_def option.inject)
  moreover have "length (binance_client_order_id i) = 28"
    using encode_val [OF n, of "oi_intent_id i"] by (auto simp: binance_client_order_id_def)
  moreover have "venue_id_from_durable (client_order_id uuid_hex i) = Ok (binance_client_order_id i)"
    using venue_id_of_bytes [OF n, of "oi_intent_id i"] by (simp add: binance_client_order_id_def durable_text)
  ultimately show ?thesis using decode_exact d by blast
qed

end
