(* ===== verification/BinanceOrders.thy ===== *)
theory BinanceOrders
  imports BinanceIds TextUtil OrderedMap
begin

text \<open>
  The order path of the Binance adapter: \<open>order_protocol.rs\<close>, \<open>rest_transport.rs\<close> and \<open>execution_adapter.rs\<close> of
  \<open>rust/adapters/pg-binance/src\<close>. JSON is a datatype with the accessors of \<open>serde_json::Value\<close>; its parser, decimal
  text and remainder, the form encoding and the HMAC, the clock and the HTTP client are parameters. The network is a
  state that every sent request changes, so what was never sent is visible.
\<close>

section \<open>JSON values\<close>

datatype json =
  VNull | VBool bool | VPosInt u64 | VNegInt int | VFloat f64 | VStr string | VArr "json list" | VObj "(string \<times> json) list"

fun json_get :: "string \<Rightarrow> json \<Rightarrow> json option" where
  "json_get key (VObj m) = map_of m key"
| "json_get key _ = None"

fun as_str :: "json \<Rightarrow> string option" where
  "as_str (VStr s) = Some s"
| "as_str _ = None"

fun as_u64 :: "json \<Rightarrow> u64 option" where
  "as_u64 (VPosInt n) = Some n"
| "as_u64 _ = None"

fun as_array :: "json \<Rightarrow> json list option" where
  "as_array (VArr vs) = Some vs"
| "as_array _ = None"

definition get_str :: "string \<Rightarrow> json \<Rightarrow> string option" where
  "get_str key v = Option.bind (json_get key v) as_str"

definition get_u64 :: "string \<Rightarrow> json \<Rightarrow> u64 option" where
  "get_u64 key v = Option.bind (json_get key v) as_u64"

text \<open>Collecting an iterator of results stops at the first error.\<close>

fun each :: "('a \<Rightarrow> ('e, 'b) outcome) \<Rightarrow> 'a list \<Rightarrow> ('e, 'b list) outcome" where
  "each f [] = Ok []"
| "each f (x # xs) = and_then (f x) (\<lambda>y. and_then (each f xs) (\<lambda>ys. Ok (y # ys)))"

record binance_codec =
  bc_ops :: dec_ops
  bc_parse :: "string \<Rightarrow> decimal option"
  bc_show :: "decimal \<Rightarrow> string"
  bc_rem :: "decimal \<Rightarrow> decimal \<Rightarrow> decimal option"
  bc_json :: "string \<Rightarrow> json option"

section \<open>The order protocol\<close>

abbreviation SYMBOL :: string where "SYMBOL \<equiv> ''BTCUSDC''"
abbreviation NEW_ORDER_PATH :: string where "NEW_ORDER_PATH \<equiv> ''/papi/v1/um/order''"
abbreviation ALL_ORDERS_PATH :: string where "ALL_ORDERS_PATH \<equiv> ''/papi/v1/um/allOrders''"
abbreviation TRADES_PATH :: string where "TRADES_PATH \<equiv> ''/papi/v1/um/userTrades''"

datatype protocol_error =
  PeWrongInstrument | PeInvalidQuantity | PeInvalidPrice | PeInvalidFilters | PeUnsupportedPositionMode
| PeUnsupportedExposure | PeInvalidClientId | PeInvalidVenueOrder

fun debug_protocol_error :: "protocol_error \<Rightarrow> string" where
  "debug_protocol_error PeWrongInstrument = ''WrongInstrument''"
| "debug_protocol_error PeInvalidQuantity = ''InvalidQuantity''"
| "debug_protocol_error PeInvalidPrice = ''InvalidPrice''"
| "debug_protocol_error PeInvalidFilters = ''InvalidFilters''"
| "debug_protocol_error PeUnsupportedPositionMode = ''UnsupportedPositionMode''"
| "debug_protocol_error PeUnsupportedExposure = ''UnsupportedExposure''"
| "debug_protocol_error PeInvalidClientId = ''InvalidClientId''"
| "debug_protocol_error PeInvalidVenueOrder = ''InvalidVenueOrder''"

record symbol_filters =
  sf_symbol :: string
  sf_tick_size :: string
  sf_step_size :: string
  sf_min_quantity :: string
  sf_min_notional :: string
  sf_symbol_trading :: bool

datatype position_mode = OneWay | Hedge | Unverified

datatype order_style = StylePostOnly | StyleResting | StyleImmediateOrCancel | StyleReduceOnlyMarket

record prepared_order =
  po_path :: string
  po_params :: "(string \<times> string) list"
  po_client_id :: string

definition prepared_get :: "prepared_order \<Rightarrow> string \<Rightarrow> string option" where
  "prepared_get p name = map_option snd (find (\<lambda>(field, _). field = name) (po_params p))"

definition valid_client_order_id :: "string \<Rightarrow> bool" where
  "valid_client_order_id s \<longleftrightarrow> decode_intent_bytes s \<noteq> None"

definition lookup_by_client_id :: "string \<Rightarrow> (protocol_error, (string \<times> string) list) outcome" where
  "lookup_by_client_id cid =
     (if \<not> valid_client_order_id cid then Err PeInvalidClientId
      else Ok [(''symbol'', SYMBOL), (''origClientOrderId'', cid)])"

fun style_tif :: "order_style \<Rightarrow> (protocol_error, string) outcome" where
  "style_tif StylePostOnly = Ok ''GTX''"
| "style_tif StyleResting = Ok ''GTC''"
| "style_tif StyleImmediateOrCancel = Ok ''IOC''"
| "style_tif StyleReduceOnlyMarket = Panic"

definition parse_filter :: "binance_codec \<Rightarrow> string \<Rightarrow> (protocol_error, decimal) outcome" where
  "parse_filter K s = ok_or (bc_parse K s) PeInvalidFilters"

definition prepare_limit_fields ::
  "binance_codec \<Rightarrow> order_intent \<Rightarrow> symbol_filters \<Rightarrow> order_style \<Rightarrow> (protocol_error, (string \<times> string) list) outcome" where
  "prepare_limit_fields K i f style =
     and_then (ok_or (oi_limit_price i) PeInvalidPrice) (\<lambda>price.
     and_then (parse_filter K (sf_tick_size f)) (\<lambda>tick.
     and_then (parse_filter K (sf_min_notional f)) (\<lambda>minimum_notional.
     if tick \<le> 0 \<or> minimum_notional < 0 then Err PeInvalidFilters
     else if price \<le> 0 then Err PeInvalidPrice
     else and_then (or_panic (bc_rem K price tick)) (\<lambda>r.
     if r \<noteq> 0 then Err PeInvalidPrice
     else and_then (if oi_effect i = Increase
                    then and_then (or_panic (checked_mul (bc_ops K) price (oi_quantity i))) (\<lambda>notional. Ok (notional < minimum_notional))
                    else Ok False) (\<lambda>too_small.
     if too_small then Err PeInvalidQuantity
     else and_then (style_tif style) (\<lambda>tif.
     Ok [(''price'', bc_show K price), (''timeInForce'', tif)]))))))"

definition prepare_order ::
  "binance_codec \<Rightarrow> order_intent \<Rightarrow> symbol_filters \<Rightarrow> position_mode \<Rightarrow> order_style \<Rightarrow> (protocol_error, prepared_order) outcome" where
  "prepare_order K i f mode style =
     (if oi_venue i \<noteq> BinancePm \<or> oi_asset i \<noteq> SYMBOL \<or> sf_symbol f \<noteq> SYMBOL \<or> \<not> sf_symbol_trading f then Err PeWrongInstrument
      else if mode \<noteq> OneWay then Err PeUnsupportedPositionMode
      else if oi_quantity i \<le> 0 then Err PeInvalidQuantity
      else and_then (parse_filter K (sf_step_size f)) (\<lambda>step.
      and_then (parse_filter K (sf_min_quantity f)) (\<lambda>minimum_quantity.
      if step \<le> 0 \<or> minimum_quantity \<le> 0 then Err PeInvalidFilters
      else and_then (or_panic (bc_rem K (oi_quantity i) step)) (\<lambda>r.
      if r \<noteq> 0 \<or> oi_quantity i < minimum_quantity then Err PeInvalidQuantity
      else
        let is_market = (style = StyleReduceOnlyMarket) in
        if is_market \<and> oi_effect i \<noteq> ReduceOnly then Err PeUnsupportedExposure
        else if \<not> is_market \<and> oi_limit_price i = None then Err PeInvalidPrice
        else let client_id = binance_client_order_id i in
        if \<not> valid_client_order_id client_id then Err PeInvalidClientId
        else let params =
               [(''symbol'', SYMBOL),
                (''side'', case oi_side i of Buy \<Rightarrow> ''BUY'' | Sell \<Rightarrow> ''SELL''),
                (''type'', if is_market then ''MARKET'' else ''LIMIT''),
                (''positionSide'', ''BOTH''),
                (''quantity'', bc_show K (oi_quantity i)),
                (''newClientOrderId'', client_id),
                (''reduceOnly'', if oi_effect i = ReduceOnly then ''true'' else ''false'')] in
        and_then (if is_market then Ok [] else prepare_limit_fields K i f style) (\<lambda>more.
        Ok \<lparr>po_path = NEW_ORDER_PATH, po_params = params @ more, po_client_id = client_id\<rparr>)))))"

record raw_order =
  ra_symbol :: string
  ra_client_order_id :: string
  ra_order_id :: string
  ra_side :: string
  ra_original_quantity :: string
  ra_executed_quantity :: string
  ra_price :: string
  ra_status :: string

definition parse_side :: "string \<Rightarrow> side option" where
  "parse_side s = (if s = ''BUY'' then Some Buy else if s = ''SELL'' then Some Sell else None)"

definition order_status :: "string \<Rightarrow> decimal \<Rightarrow> decimal \<Rightarrow> venue_order_state option" where
  "order_status status filled requested =
     (if status = ''NEW'' \<and> filled = 0 then Some VOpen
      else if status = ''PARTIALLY_FILLED'' \<and> filled \<noteq> 0 \<and> filled < requested then Some VPartiallyFilled
      else if status = ''FILLED'' \<and> filled = requested then Some VFilled
      else if status \<in> {''CANCELED'', ''EXPIRED'', ''EXPIRED_IN_MATCH''} then Some VCanceled
      else if status = ''REJECTED'' \<and> filled = 0 then Some VRejected
      else None)"

definition normalize_order :: "binance_codec \<Rightarrow> raw_order \<Rightarrow> string \<Rightarrow> (protocol_error, venue_order_snapshot) outcome" where
  "normalize_order K raw expected_id =
     (if ra_symbol raw \<noteq> SYMBOL \<or> ra_client_order_id raw \<noteq> expected_id \<or> \<not> valid_client_order_id expected_id
         \<or> ra_order_id raw = [] \<or> \<not> list_all is_ascii_digit (ra_order_id raw)
      then Err PeInvalidVenueOrder
      else and_then (ok_or (parse_side (ra_side raw)) PeInvalidVenueOrder) (\<lambda>sd.
      and_then (ok_or (bc_parse K (ra_original_quantity raw)) PeInvalidVenueOrder) (\<lambda>requested.
      and_then (ok_or (bc_parse K (ra_executed_quantity raw)) PeInvalidVenueOrder) (\<lambda>filled.
      and_then (ok_or (bc_parse K (ra_price raw)) PeInvalidVenueOrder) (\<lambda>price.
      if requested \<le> 0 \<or> filled < 0 \<or> filled > requested \<or> price < 0 then Err PeInvalidVenueOrder
      else and_then (ok_or (order_status (ra_status raw) filled requested) PeInvalidVenueOrder) (\<lambda>state.
      Ok \<lparr>vo_venue_order_id = ra_order_id raw, vo_client_order_id = Some expected_id, vo_asset = SYMBOL, vo_side = sd,
          vo_requested_quantity = requested, vo_filled_quantity = filled,
          vo_limit_price = (if price = 0 then None else Some price), vo_state = state\<rparr>))))))"

section \<open>REST transport\<close>

datatype http_method = GET | POST | DELETE | OtherMethod

record http_request =
  hr_method :: http_method
  hr_url :: string
  hr_api_key :: string
  hr_body :: "string option"

text \<open>No answer; headers but no complete body; a status and a body.\<close>

datatype http_reply = SendFailed | BodyFailed nat | Reply nat string

record 'n binance_net =
  bn_clock_ms :: "'n \<Rightarrow> int"
  bn_form :: "(string \<times> string) list \<Rightarrow> string"
  bn_hmac :: "string \<Rightarrow> string \<Rightarrow> 8 word list"
  bn_status_text :: "nat \<Rightarrow> string"
  bn_send :: "http_request \<Rightarrow> 'n \<Rightarrow> http_reply \<times> 'n"

record rest_client =
  rc_api_key :: string
  rc_secret :: string
  rc_enable_submission :: bool

abbreviation PM_BASE :: string where "PM_BASE \<equiv> ''https://papi.binance.com''"

text \<open>\<open>built\<close> tells whether the TLS client could be built.\<close>

definition new_rest_client :: "bool \<Rightarrow> string \<Rightarrow> string \<Rightarrow> bool \<Rightarrow> (execution_error, rest_client) outcome" where
  "new_rest_client built api_key secret enable =
     (if api_key = [] \<or> secret = [] \<or> 512 < length api_key \<or> 512 < length secret
      then Err (ExAuthentication ''invalid Binance credentials'')
      else if \<not> built then Err (ExTransport ''cannot initialize TLS HTTP client'')
      else Ok \<lparr>rc_api_key = api_key, rc_secret = secret, rc_enable_submission = enable\<rparr>)"

definition signed_form :: "'n binance_net \<Rightarrow> rest_client \<Rightarrow> (string \<times> string) list \<Rightarrow> u64 \<Rightarrow> (execution_error, string) outcome" where
  "signed_form N c params timestamp_ms =
     (if timestamp_ms = 0 \<or> list_ex (\<lambda>(key, _). key = ''signature'' \<or> key = ''timestamp'') params
      then Err (ExConversion ''invalid signed parameters'')
      else
        let unsigned = bn_form N (params @ [(''recvWindow'', show_nat 5000), (''timestamp'', show_nat (unat timestamp_ms))]) in
        Ok (unsigned @ ''&signature='' @ concat (map hex_byte (bn_hmac N (rc_secret c) unsigned))))"

definition http_request_of :: "rest_client \<Rightarrow> http_method \<Rightarrow> string \<Rightarrow> string \<Rightarrow> http_request" where
  "http_request_of c m path form =
     (if m = POST
      then \<lparr>hr_method = POST, hr_url = PM_BASE @ path, hr_api_key = rc_api_key c, hr_body = Some form\<rparr>
      else \<lparr>hr_method = m, hr_url = PM_BASE @ path @ ''?'' @ form, hr_api_key = rc_api_key c, hr_body = None\<rparr>)"

fun read_reply :: "binance_codec \<Rightarrow> (nat \<Rightarrow> string) \<Rightarrow> http_method \<Rightarrow> http_reply \<Rightarrow> (execution_error, json) outcome" where
  "read_reply K status_text m SendFailed =
     Err (if m = GET then ExTransport ''PM read transport failed'' else ExUnknown ''PM mutation outcome unknown; reconcile'')"
| "read_reply K status_text m (BodyFailed status) =
     Err (if m = GET then ExTransport ''PM response incomplete'' else ExUnknown ''PM mutation response incomplete; reconcile'')"
| "read_reply K status_text m (Reply status body) =
     (if length body > 1024 * 1024 then Err (ExUnknown ''oversized PM response; reconcile'')
      else if status \<noteq> 200
      then Err (if m = GET then ExTransport (''PM read HTTP '' @ status_text status)
                else ExUnknown (''PM mutation HTTP '' @ status_text status @ ''; reconcile''))
      else ok_or (bc_json K body) (ExUnknown ''unparseable PM response; reconcile''))"

definition approved_path :: "string \<Rightarrow> bool" where
  "approved_path path \<longleftrightarrow> path \<in> {NEW_ORDER_PATH, ALL_ORDERS_PATH, TRADES_PATH, ''/papi/v1/um/openOrders'',
     ''/papi/v1/um/positionRisk'', ''/papi/v1/account''}"

definition signed_call ::
  "binance_codec \<Rightarrow> 'n binance_net \<Rightarrow> rest_client \<Rightarrow> http_method \<Rightarrow> string \<Rightarrow> (string \<times> string) list \<Rightarrow> (json, 'n) call" where
  "signed_call K N c m path params n =
     (if \<not> approved_path path then (Err (ExUnsupported ''unapproved PM endpoint''), n)
      else if m \<noteq> GET \<and> m \<noteq> POST \<and> m \<noteq> DELETE then (Err (ExUnsupported ''unapproved PM method''), n)
      else if m \<noteq> GET \<and> path \<noteq> NEW_ORDER_PATH then (Err (ExUnsupported ''unapproved PM mutation''), n)
      else if m \<noteq> GET \<and> \<not> rc_enable_submission c then (Err (ExUnsupported ''Binance mutation capability disabled''), n)
      else if bn_clock_ms N n < 0 then (Err (ExUnknown ''system clock invalid''), n)
      else if 2 ^ 64 \<le> bn_clock_ms N n then (Err (ExUnknown ''system clock overflow''), n)
      else case signed_form N c params (of_int (bn_clock_ms N n)) of
        Ok form \<Rightarrow> (case bn_send N (http_request_of c m path form) n of (reply, n') \<Rightarrow> (read_reply K (bn_status_text N) m reply, n'))
      | Err e \<Rightarrow> (Err e, n)
      | Panic \<Rightarrow> (Panic, n))"

definition submit_ack :: "prepared_order \<Rightarrow> json \<Rightarrow> (execution_error, venue_order_ack) outcome" where
  "submit_ack prepared response =
     and_then (ok_or (get_str ''clientOrderId'' response) (ExUnknown ''submit response lacks client id'')) (\<lambda>cid.
     if cid \<noteq> po_client_id prepared then Err (ExUnknown ''submit client id mismatch'')
     else and_then (case get_u64 ''orderId'' response of
              Some oid \<Rightarrow> if 0 < oid then Ok oid else Err (ExUnknown ''submit response lacks order id'')
            | None \<Rightarrow> Err (ExUnknown ''submit response lacks order id'')) (\<lambda>order_id.
     and_then (ok_or (durable_client_order_id cid) (ExUnknown ''submit id is not recoverable'')) (\<lambda>durable_id.
     Ok \<lparr>va_venue_order_id = show_nat (unat order_id), va_client_order_id = durable_id\<rparr>)))"

definition rest_submit_order :: "binance_codec \<Rightarrow> 'n binance_net \<Rightarrow> rest_client \<Rightarrow> prepared_order \<Rightarrow> (venue_order_ack, 'n) call" where
  "rest_submit_order K N c prepared =
     (if po_path prepared \<noteq> NEW_ORDER_PATH \<or> prepared_get prepared ''symbol'' \<noteq> Some SYMBOL
      then give (Err (ExConversion ''unexpected prepared order''))
      else bind (signed_call K N c POST NEW_ORDER_PATH (po_params prepared)) (\<lambda>response. give (submit_ack prepared response)))"

definition rest_cancel_order :: "binance_codec \<Rightarrow> 'n binance_net \<Rightarrow> rest_client \<Rightarrow> string \<Rightarrow> (unit, 'n) call" where
  "rest_cancel_order K N c venue_client_id =
     (if \<not> valid_client_order_id venue_client_id then give (Err (ExConversion ''unowned cancel client id''))
      else bind (give (map_error (\<lambda>_. ExConversion ''unowned cancel client id'') (lookup_by_client_id venue_client_id))) (\<lambda>params.
      bind (signed_call K N c DELETE NEW_ORDER_PATH params) (\<lambda>response.
      if get_str ''symbol'' response \<noteq> Some SYMBOL \<or> get_str ''clientOrderId'' response \<noteq> Some venue_client_id
         \<or> get_str ''status'' response \<notin> {Some ''CANCELED'', Some ''FILLED'', Some ''EXPIRED''}
      then give (Err (ExUnknown ''cancel acknowledgment cannot prove ownership or final status''))
      else give (Ok ()))))"

definition pm_field :: "json \<Rightarrow> string \<Rightarrow> (execution_error, string) outcome" where
  "pm_field v key = ok_or (get_str key v) (ExConversion ''malformed PM order response'')"

definition decode_pm_order :: "binance_codec \<Rightarrow> json \<Rightarrow> string \<Rightarrow> (execution_error, venue_order_snapshot) outcome" where
  "decode_pm_order K v expected_venue_id =
     and_then (case get_u64 ''orderId'' v of
         Some oid \<Rightarrow> if 0 < oid then Ok (show_nat (unat oid)) else Err (ExConversion ''missing PM order id'')
       | None \<Rightarrow> Err (ExConversion ''missing PM order id'')) (\<lambda>order_id.
     and_then (pm_field v ''symbol'') (\<lambda>symbol.
     and_then (pm_field v ''clientOrderId'') (\<lambda>cid.
     and_then (pm_field v ''side'') (\<lambda>sd.
     and_then (pm_field v ''origQty'') (\<lambda>orig.
     and_then (pm_field v ''executedQty'') (\<lambda>executed.
     and_then (pm_field v ''price'') (\<lambda>price.
     and_then (pm_field v ''status'') (\<lambda>status.
     and_then (map_error (\<lambda>_. ExConversion ''invalid PM order truth'')
         (normalize_order K \<lparr>ra_symbol = symbol, ra_client_order_id = cid, ra_order_id = order_id, ra_side = sd,
            ra_original_quantity = orig, ra_executed_quantity = executed, ra_price = price, ra_status = status\<rparr> expected_venue_id)) (\<lambda>snapshot.
     Ok (snapshot\<lparr>vo_client_order_id := durable_client_order_id expected_venue_id\<rparr>))))))))))"

definition rest_query_order :: "binance_codec \<Rightarrow> 'n binance_net \<Rightarrow> rest_client \<Rightarrow> string \<Rightarrow> (venue_order_snapshot, 'n) call" where
  "rest_query_order K N c venue_client_id =
     bind (give (map_error (\<lambda>_. ExConversion ''unowned client id'') (lookup_by_client_id venue_client_id))) (\<lambda>params.
     bind (signed_call K N c GET NEW_ORDER_PATH params) (\<lambda>v. give (decode_pm_order K v venue_client_id)))"

definition decode_open_orders :: "binance_codec \<Rightarrow> json \<Rightarrow> (execution_error, venue_order_snapshot list) outcome" where
  "decode_open_orders K v =
     and_then (ok_or (as_array v) (ExConversion ''invalid open orders''))
       (each (\<lambda>ord. and_then (ok_or (get_str ''clientOrderId'' ord) (ExConversion ''missing order ownership'')) (decode_pm_order K ord)))"

definition rest_open_orders :: "binance_codec \<Rightarrow> 'n binance_net \<Rightarrow> rest_client \<Rightarrow> (venue_order_snapshot list, 'n) call" where
  "rest_open_orders K N c =
     bind (signed_call K N c GET ''/papi/v1/um/openOrders'' [(''symbol'', SYMBOL)]) (\<lambda>v. give (decode_open_orders K v))"

definition rest_recent_orders :: "binance_codec \<Rightarrow> 'n binance_net \<Rightarrow> rest_client \<Rightarrow> (json, 'n) call" where
  "rest_recent_orders K N c = signed_call K N c GET ALL_ORDERS_PATH [(''symbol'', SYMBOL), (''limit'', ''1000'')]"

definition rest_recent_trades :: "binance_codec \<Rightarrow> 'n binance_net \<Rightarrow> rest_client \<Rightarrow> (json, 'n) call" where
  "rest_recent_trades K N c = signed_call K N c GET TRADES_PATH [(''symbol'', SYMBOL), (''limit'', ''1000'')]"

definition rest_position_risk :: "binance_codec \<Rightarrow> 'n binance_net \<Rightarrow> rest_client \<Rightarrow> (json, 'n) call" where
  "rest_position_risk K N c = signed_call K N c GET ''/papi/v1/um/positionRisk'' [(''symbol'', SYMBOL)]"

definition rest_account_info :: "binance_codec \<Rightarrow> 'n binance_net \<Rightarrow> rest_client \<Rightarrow> (json, 'n) call" where
  "rest_account_info K N c = signed_call K N c GET ''/papi/v1/account'' []"

end
