(* ===== verification/BinanceHistory.thy ===== *)
theory BinanceHistory
  imports BinanceOrders
begin

text \<open>
  The signed trade history of the Binance adapter: \<open>trade_history.rs\<close>, \<open>history_reconcile.rs\<close>, \<open>history_fetch.rs\<close> and
  the page read of \<open>rest_transport.rs\<close>. A page is decoded and checked, a bounded chain of pages is read forward from an
  anchor, and the whole is verified against the authenticated order snapshots.
\<close>

section \<open>Trades and pages\<close>

record um_trade =
  ut_symbol :: string
  ut_trade_id :: u64
  ut_venue_order_id :: string
  ut_side :: side
  ut_quantity :: decimal
  ut_price :: decimal
  ut_quote_quantity :: decimal
  ut_commission :: decimal
  ut_commission_asset :: string
  ut_realized_pnl :: decimal
  ut_trade_time_ms :: u64

datatype history_error = HeMalformed | HeUnsupportedSymbol | HeInconsistentPage | HeUnownedOrder | HeCursorOverflow

record trade_page =
  tp_trades :: "um_trade list"
  tp_next_from_id :: "u64 option"
  tp_short_page :: bool

record owned_order =
  ow_venue :: venue
  ow_symbol :: string
  ow_client_order_id :: string
  ow_venue_order_id :: string
  ow_side :: side

definition history_number :: "json \<Rightarrow> string \<Rightarrow> (history_error, u64) outcome" where
  "history_number v key = ok_or (get_u64 key v) HeMalformed"

definition history_text :: "json \<Rightarrow> string \<Rightarrow> (history_error, string) outcome" where
  "history_text v key = ok_or (get_str key v) HeMalformed"

definition history_decimal :: "binance_codec \<Rightarrow> json \<Rightarrow> string \<Rightarrow> (history_error, decimal) outcome" where
  "history_decimal K v key = and_then (history_text v key) (\<lambda>t. ok_or (bc_parse K t) HeMalformed)"

definition is_asset_code :: "string \<Rightarrow> bool" where
  "is_asset_code s \<longleftrightarrow> s \<noteq> [] \<and> length s \<le> 32
     \<and> list_all (\<lambda>c. let n = (of_char c :: nat) in 65 \<le> n \<and> n \<le> 90 \<or> 48 \<le> n \<and> n \<le> 57) s"

abbreviation I64_MAX :: u64 where "I64_MAX \<equiv> 9223372036854775807"

definition decode_um_trade :: "binance_codec \<Rightarrow> json \<Rightarrow> (history_error, um_trade) outcome" where
  "decode_um_trade K v =
     and_then (history_text v ''symbol'') (\<lambda>symbol.
     if symbol \<noteq> SYMBOL then Err HeUnsupportedSymbol
     else and_then (history_text v ''positionSide'') (\<lambda>ps.
     if ps \<noteq> ''BOTH'' then Err HeMalformed
     else and_then (history_text v ''side'') (\<lambda>sd.
     and_then (ok_or (parse_side sd) HeMalformed) (\<lambda>sd.
     and_then (history_number v ''id'') (\<lambda>trade_id.
     and_then (history_number v ''orderId'') (\<lambda>order_id.
     and_then (history_number v ''time'') (\<lambda>trade_time_ms.
     and_then (history_decimal K v ''qty'') (\<lambda>quantity.
     and_then (history_decimal K v ''price'') (\<lambda>price.
     and_then (history_decimal K v ''quoteQty'') (\<lambda>quote_quantity.
     and_then (history_decimal K v ''commission'') (\<lambda>commission.
     and_then (history_decimal K v ''realizedPnl'') (\<lambda>realized_pnl.
     and_then (history_text v ''commissionAsset'') (\<lambda>commission_asset.
     if order_id = 0 \<or> trade_time_ms = 0 \<or> quantity \<le> 0 \<or> price \<le> 0 \<or> quote_quantity \<le> 0 \<or> commission < 0
        \<or> \<not> is_asset_code commission_asset \<or> trade_id > I64_MAX \<or> order_id > I64_MAX \<or> trade_time_ms > I64_MAX
     then Err HeMalformed
     else Ok \<lparr>ut_symbol = symbol, ut_trade_id = trade_id, ut_venue_order_id = show_nat (unat order_id), ut_side = sd,
             ut_quantity = quantity, ut_price = price, ut_quote_quantity = quote_quantity, ut_commission = commission,
             ut_commission_asset = commission_asset, ut_realized_pnl = realized_pnl, ut_trade_time_ms = trade_time_ms\<rparr>)))))))))))))"

fun decode_rows ::
  "binance_codec \<Rightarrow> u64 option \<Rightarrow> json list \<Rightarrow> u64 option \<Rightarrow> um_trade list \<Rightarrow> (history_error, um_trade list \<times> u64 option) outcome" where
  "decode_rows K from [] previous trades = Ok (trades, previous)"
| "decode_rows K from (row # rows) previous trades =
     and_then (decode_um_trade K row) (\<lambda>trade.
     if (\<exists>f. from = Some f \<and> ut_trade_id trade < f) \<or> (\<exists>p. previous = Some p \<and> ut_trade_id trade \<le> p)
     then Err HeInconsistentPage
     else decode_rows K from rows (Some (ut_trade_id trade)) (trades @ [trade]))"

definition checked_succ :: "u64 \<Rightarrow> u64 option" where
  "checked_succ n = (if n = - 1 then None else Some (n + 1))"

definition decode_trade_page :: "binance_codec \<Rightarrow> json \<Rightarrow> u64 option \<Rightarrow> nat \<Rightarrow> (history_error, trade_page) outcome" where
  "decode_trade_page K response from limit =
     (if \<not> (1 \<le> limit \<and> limit \<le> 1000) then Err HeMalformed
      else and_then (ok_or (as_array response) HeMalformed) (\<lambda>rows.
      if length rows > limit then Err HeInconsistentPage
      else and_then (decode_rows K from rows None []) (\<lambda>(trades, previous).
      and_then (case previous of
          Some i \<Rightarrow> and_then (ok_or (checked_succ i) HeCursorOverflow) (\<lambda>n. Ok (Some n))
        | None \<Rightarrow> Ok from) (\<lambda>next_from_id.
      Ok \<lparr>tp_trades = trades, tp_next_from_id = next_from_id, tp_short_page = length trades < limit\<rparr>))))"

definition verified_durable_order :: "um_trade \<Rightarrow> owned_order \<Rightarrow> (history_error, string) outcome" where
  "verified_durable_order t candidate =
     (if ow_venue candidate \<noteq> BinancePm \<or> ow_symbol candidate \<noteq> ut_symbol t \<or> ow_venue_order_id candidate \<noteq> ut_venue_order_id t
         \<or> ow_side candidate \<noteq> ut_side t \<or> length (ow_client_order_id candidate) \<noteq> 34
         \<or> \<not> starts_with ''pg'' (ow_client_order_id candidate)
         \<or> \<not> list_all is_ascii_hexdigit (drop 2 (ow_client_order_id candidate))
      then Err HeUnownedOrder
      else Ok (ow_client_order_id candidate))"

definition rest_user_trades_page ::
  "binance_codec \<Rightarrow> 'n binance_net \<Rightarrow> rest_client \<Rightarrow> u64 option \<Rightarrow> nat \<Rightarrow> (trade_page, 'n) call" where
  "rest_user_trades_page K N c from limit =
     (if \<not> (1 \<le> limit \<and> limit \<le> 1000) \<or> (\<exists>i. from = Some i \<and> i > I64_MAX)
      then give (Err (ExConversion ''invalid UM history cursor or limit''))
      else bind (signed_call K N c GET TRADES_PATH
             ([(''symbol'', SYMBOL), (''limit'', show_nat limit)]
              @ (case from of Some i \<Rightarrow> [(''fromId'', show_nat (unat i))] | None \<Rightarrow> []))) (\<lambda>raw.
           give (map_error (\<lambda>_. ExConversion ''invalid UM trade-history evidence'') (decode_trade_page K raw from limit))))"

section \<open>Verification against the orders\<close>

datatype history_gate_error =
  HgMissingAnchor | HgIncompletePagination | HgInvalidCursor | HgDuplicateTrade | HgUnownedTrade
| HgConflictingOrder | HgFillMismatch | HgResourceLimit

record verified_trade =
  vt_durable_client_id :: string
  vt_trade :: um_trade

record verified_history =
  vh_anchored_from_id :: u64
  vh_next_from_id :: u64
  vh_trades :: "verified_trade list"

record owned_snapshot =
  os_owner :: owned_order
  os_snapshot :: venue_order_snapshot

definition snapshot_conflicts :: "owned_snapshot \<Rightarrow> bool" where
  "snapshot_conflicts owned \<longleftrightarrow>
     (let w = os_owner owned; v = os_snapshot owned in
      ow_venue_order_id w \<noteq> vo_venue_order_id v \<or> ow_symbol w \<noteq> vo_asset v \<or> ow_side w \<noteq> vo_side v
      \<or> vo_client_order_id v \<noteq> Some (ow_client_order_id w) \<or> vo_venue_order_id v = []
      \<or> vo_requested_quantity v \<le> 0 \<or> vo_filled_quantity v < 0 \<or> vo_filled_quantity v > vo_requested_quantity v
      \<or> vo_state v = VUnknown
      \<or> (vo_state v = VFilled \<and> vo_filled_quantity v \<noteq> vo_requested_quantity v)
      \<or> (vo_state v = VPartiallyFilled \<and> (vo_filled_quantity v \<le> 0 \<or> vo_filled_quantity v \<ge> vo_requested_quantity v)))"

record gate_index =
  gi_by_venue_id :: "string \<rightharpoonup> owned_order"
  gi_requested :: "(string, decimal) omap"
  gi_cumulative :: "string \<rightharpoonup> decimal"

fun index_orders :: "owned_snapshot list \<Rightarrow> gate_index \<Rightarrow> (history_gate_error, gate_index) outcome" where
  "index_orders [] g = Ok g"
| "index_orders (owned # rest) g =
     (if snapshot_conflicts owned then Err HgConflictingOrder
      else
        let w = os_owner owned; v = os_snapshot owned in
        if gi_by_venue_id g (vo_venue_order_id v) \<noteq> None then Err HgConflictingOrder
        else if om_get (ow_client_order_id w) (gi_requested g) \<noteq> None then Err HgConflictingOrder
        else index_orders rest
               \<lparr>gi_by_venue_id = (gi_by_venue_id g)(vo_venue_order_id v \<mapsto> w),
                gi_requested = om_insert (ow_client_order_id w) (vo_filled_quantity v) (gi_requested g),
                gi_cumulative = (gi_cumulative g)(ow_client_order_id w \<mapsto> 0)\<rparr>)"

record gate_progress =
  gp_seen :: "u64 set"
  gp_verified :: "verified_trade list"
  gp_cumulative :: "string \<rightharpoonup> decimal"

fun verify_trades ::
  "dec_ops \<Rightarrow> gate_index \<Rightarrow> u64 \<Rightarrow> um_trade list \<Rightarrow> u64 option \<Rightarrow> gate_progress \<Rightarrow> (history_gate_error, u64 option \<times> gate_progress) outcome" where
  "verify_trades D g cursor [] last_id p = Ok (last_id, p)"
| "verify_trades D g cursor (t # ts) last_id p =
     (if ut_trade_id t < cursor \<or> (\<exists>previous. last_id = Some previous \<and> ut_trade_id t \<le> previous) \<or> ut_trade_id t \<in> gp_seen p
      then Err HgDuplicateTrade
      else and_then (ok_or (gi_by_venue_id g (ut_venue_order_id t)) HgUnownedTrade) (\<lambda>w.
      and_then (map_error (\<lambda>_. HgUnownedTrade) (verified_durable_order t w)) (\<lambda>durable_id.
      and_then (ok_or (gp_cumulative p durable_id) HgConflictingOrder) (\<lambda>quantity.
      and_then (ok_or (checked_add D quantity (ut_quantity t)) HgFillMismatch) (\<lambda>quantity.
      and_then (or_panic (om_get durable_id (gi_requested g))) (\<lambda>requested.
      if quantity > requested then Err HgFillMismatch
      else verify_trades D g cursor ts (Some (ut_trade_id t))
             \<lparr>gp_seen = insert (ut_trade_id t) (gp_seen p),
              gp_verified = gp_verified p @ [\<lparr>vt_durable_client_id = durable_id, vt_trade = t\<rparr>],
              gp_cumulative = (gp_cumulative p)(durable_id \<mapsto> quantity)\<rparr>))))))"

fun verify_pages ::
  "dec_ops \<Rightarrow> gate_index \<Rightarrow> trade_page list \<Rightarrow> u64 \<Rightarrow> gate_progress \<Rightarrow> (history_gate_error, u64 \<times> gate_progress) outcome" where
  "verify_pages D g [] cursor p = Ok (cursor, p)"
| "verify_pages D g (page # pages) cursor p =
     (if pages \<noteq> [] \<and> (tp_short_page page \<or> tp_trades page = []) then Err HgIncompletePagination
      else if length (tp_trades page) > 1000 \<or> length (gp_verified p) + length (tp_trades page) > 32000 then Err HgResourceLimit
      else and_then (verify_trades D g cursor (tp_trades page) None p) (\<lambda>(last_id, p).
      and_then (case last_id of Some i \<Rightarrow> ok_or (checked_succ i) HgInvalidCursor | None \<Rightarrow> Ok cursor) (\<lambda>expected_next.
      if tp_next_from_id page \<noteq> Some expected_next then Err HgInvalidCursor
      else verify_pages D g pages expected_next p)))"

fun check_filled :: "(string \<rightharpoonup> decimal) \<Rightarrow> (string, decimal) omap \<Rightarrow> (history_gate_error, unit) outcome" where
  "check_filled cumulative [] = Ok ()"
| "check_filled cumulative ((i, expected) # rest) =
     (case cumulative i of
        None \<Rightarrow> Panic
      | Some q \<Rightarrow> if q \<noteq> expected then Err HgFillMismatch else check_filled cumulative rest)"

definition verify_trade_history ::
  "dec_ops \<Rightarrow> u64 \<Rightarrow> trade_page list \<Rightarrow> owned_snapshot list \<Rightarrow> (history_gate_error, verified_history) outcome" where
  "verify_trade_history D anchor pages orders =
     (if anchor = 0 then Err HgMissingAnchor
      else if pages = [] \<or> \<not> tp_short_page (List.last pages) then Err HgIncompletePagination
      else if length pages > 32 \<or> length orders > 32000 then Err HgResourceLimit
      else and_then (index_orders orders \<lparr>gi_by_venue_id = Map.empty, gi_requested = [], gi_cumulative = Map.empty\<rparr>) (\<lambda>g.
      and_then (verify_pages D g pages anchor \<lparr>gp_seen = {}, gp_verified = [], gp_cumulative = gi_cumulative g\<rparr>) (\<lambda>(cursor, p).
      and_then (check_filled (gp_cumulative p) (gi_requested g)) (\<lambda>_.
      Ok \<lparr>vh_anchored_from_id = anchor, vh_next_from_id = cursor, vh_trades = gp_verified p\<rparr>))))"

section \<open>Collecting the pages\<close>

type_synonym 'r page_reader = "u64 \<Rightarrow> nat \<Rightarrow> (trade_page, 'r) call"

fun fetch_pages ::
  "dec_ops \<Rightarrow> 'r page_reader \<Rightarrow> u64 \<Rightarrow> owned_snapshot list \<Rightarrow> nat \<Rightarrow> u64 \<Rightarrow> trade_page list \<Rightarrow> (verified_history, 'r) call" where
  "fetch_pages D read anchor orders 0 cursor pages = give (Err (ExConversion ''UM history exceeded bounded pagination; SAFE_HOLD''))"
| "fetch_pages D read anchor orders (Suc left) cursor pages =
     bind (read cursor 1000) (\<lambda>page.
     bind (give (ok_or (tp_next_from_id page) (ExConversion ''UM history page lacks a cursor''))) (\<lambda>next_id.
     if next_id < cursor \<or> next_id > I64_MAX \<or> (\<not> tp_short_page page \<and> next_id = cursor)
     then give (Err (ExConversion ''UM history cursor failed to advance''))
     else if tp_short_page page
     then give (map_error (\<lambda>_. ExConversion ''UM history ownership or fill verification failed'')
                  (verify_trade_history D anchor (pages @ [page]) orders))
     else fetch_pages D read anchor orders left next_id (pages @ [page])))"

definition fetch_verified_history ::
  "dec_ops \<Rightarrow> 'r page_reader \<Rightarrow> u64 \<Rightarrow> owned_snapshot list \<Rightarrow> (verified_history, 'r) call" where
  "fetch_verified_history D read anchor orders =
     (if anchor = 0 \<or> anchor > I64_MAX
      then give (Err (ExConversion ''missing or invalid verified history anchor''))
      else fetch_pages D read anchor orders 32 anchor [])"

section \<open>What a decoded page guarantees\<close>

lemma decode_um_trade_ok:
  "decode_um_trade K v = Ok t \<Longrightarrow> 0 < ut_quantity t \<and> 0 < ut_price t \<and> 0 \<le> ut_commission t \<and> ut_symbol t = SYMBOL
     \<and> ut_trade_id t \<le> I64_MAX \<and> ut_trade_time_ms t \<le> I64_MAX"
  by (auto simp: decode_um_trade_def outcome_simps not_less not_le split: if_splits)

lemma checked_succ_Some: "checked_succ i = Some n \<Longrightarrow> i < n \<and> unat n = unat i + 1"
proof -
  assume "checked_succ i = Some n"
  then have i: "i \<noteq> - 1" and n: "n = i + 1" by (auto simp: checked_succ_def split: if_splits)
  have "1 + i \<noteq> 0" using i by (metis add_eq_0_iff)
  then have "unat (1 + i) = Suc (unat i)" by (rule unatSuc)
  then have "unat (i + 1) = unat i + 1" by (simp add: add.commute)
  then show ?thesis unfolding n by (simp add: word_less_nat_alt)
qed

lemma decode_rows_ok:
  assumes "decode_rows K from rows previous trades = Ok (trades', previous')"
  shows "\<exists>more. trades' = trades @ more \<and> length more = length rows \<and> sorted_wrt (<) (map ut_trade_id more)
    \<and> (\<forall>t\<in>set more. 0 < ut_quantity t \<and> ut_symbol t = SYMBOL \<and> (\<forall>f. from = Some f \<longrightarrow> f \<le> ut_trade_id t)
         \<and> (\<forall>p. previous = Some p \<longrightarrow> p < ut_trade_id t))
    \<and> previous' = (if more = [] then previous else Some (ut_trade_id (List.last more)))"
  using assms
proof (induction rows arbitrary: previous trades)
  case (Cons row rows)
  from Cons.prems obtain t where t: "decode_um_trade K row = Ok t"
      "\<forall>f. from = Some f \<longrightarrow> f \<le> ut_trade_id t" "\<forall>p. previous = Some p \<longrightarrow> p < ut_trade_id t"
      "decode_rows K from rows (Some (ut_trade_id t)) (trades @ [t]) = Ok (trades', previous')"
    by (auto simp: outcome_simps not_less not_le split: if_splits)
  from Cons.IH [OF t(4)] obtain more where more: "trades' = (trades @ [t]) @ more" "length more = length rows"
      "sorted_wrt (<) (map ut_trade_id more)"
      "\<forall>u\<in>set more. 0 < ut_quantity u \<and> ut_symbol u = SYMBOL \<and> (\<forall>f. from = Some f \<longrightarrow> f \<le> ut_trade_id u) \<and> ut_trade_id t < ut_trade_id u"
      "previous' = (if more = [] then Some (ut_trade_id t) else Some (ut_trade_id (List.last more)))" by auto
  have "\<forall>u\<in>set more. \<forall>p. previous = Some p \<longrightarrow> p < ut_trade_id u" using t(3) more(4) by (meson less_trans)
  with t more decode_um_trade_ok [OF t(1)] show ?case by (intro exI [of _ "t # more"]) auto
qed simp

lemma decode_trade_page_ok:
  assumes "decode_trade_page K response from limit = Ok page"
  shows "length (tp_trades page) \<le> limit \<and> sorted_wrt (<) (map ut_trade_id (tp_trades page))
    \<and> (\<forall>t\<in>set (tp_trades page). 0 < ut_quantity t \<and> (\<forall>f. from = Some f \<longrightarrow> f \<le> ut_trade_id t))"
proof -
  from assms obtain rows previous where r: "length rows \<le> limit" "decode_rows K from rows None [] = Ok (tp_trades page, previous)"
    by (auto simp: decode_trade_page_def outcome_simps not_less split: if_splits)
  from decode_rows_ok [OF r(2)] r(1) show ?thesis by auto
qed

section \<open>Exactness of a verified history\<close>

definition filled_by :: "string \<Rightarrow> verified_trade list \<Rightarrow> decimal" where
  "filled_by cid vts = sum_list (map (\<lambda>v. ut_quantity (vt_trade v)) (filter (\<lambda>v. vt_durable_client_id v = cid) vts))"

definition owned_by :: "owned_snapshot list \<Rightarrow> verified_trade \<Rightarrow> bool" where
  "owned_by orders v \<longleftrightarrow> (\<exists>x\<in>set orders. ow_venue (os_owner x) = BinancePm \<and> ow_symbol (os_owner x) = ut_symbol (vt_trade v)
     \<and> ow_venue_order_id (os_owner x) = ut_venue_order_id (vt_trade v) \<and> ow_side (os_owner x) = ut_side (vt_trade v)
     \<and> ow_client_order_id (os_owner x) = vt_durable_client_id v)"

definition trade_ids :: "verified_trade list \<Rightarrow> u64 list" where
  "trade_ids vts = map (\<lambda>v. ut_trade_id (vt_trade v)) vts"

definition history_exact :: "owned_snapshot list \<Rightarrow> trade_page list \<Rightarrow> verified_history \<Rightarrow> bool" where
  "history_exact orders pages h \<longleftrightarrow>
     map vt_trade (vh_trades h) = concat (map tp_trades pages)
     \<and> sorted_wrt (<) (trade_ids (vh_trades h))
     \<and> (\<forall>i\<in>set (trade_ids (vh_trades h)). vh_anchored_from_id h \<le> i \<and> i < vh_next_from_id h)
     \<and> (\<forall>v\<in>set (vh_trades h). owned_by orders v)
     \<and> (\<forall>x\<in>set orders. filled_by (ow_client_order_id (os_owner x)) (vh_trades h) = vo_filled_quantity (os_snapshot x))"

lemma filled_by_append: "filled_by cid (xs @ ys) = filled_by cid xs + filled_by cid ys"
  by (simp add: filled_by_def)

definition index_ok :: "owned_snapshot list \<Rightarrow> gate_index \<Rightarrow> bool" where
  "index_ok orders g \<longleftrightarrow>
     (\<forall>k w. gi_by_venue_id g k = Some w \<longrightarrow> (\<exists>x\<in>set orders. os_owner x = w))
     \<and> om_sorted (gi_requested g)
     \<and> (\<forall>x\<in>set orders. om_get (ow_client_order_id (os_owner x)) (gi_requested g) = Some (vo_filled_quantity (os_snapshot x)))
     \<and> (\<forall>k q. om_get k (gi_requested g) = Some q \<longrightarrow> (\<exists>x\<in>set orders. vo_filled_quantity (os_snapshot x) = q))
     \<and> (\<forall>k. gi_cumulative g k = (if om_get k (gi_requested g) = None then None else Some 0))"

lemma index_orders_ok:
  "index_orders orders g = Ok g' \<Longrightarrow> index_ok before g \<Longrightarrow> index_ok (before @ orders) g'"
proof (induction orders arbitrary: g before)
  case (Cons x rest)
  let ?w = "os_owner x" and ?v = "os_snapshot x"
  let ?g = "\<lparr>gi_by_venue_id = (gi_by_venue_id g)(vo_venue_order_id ?v \<mapsto> ?w),
      gi_requested = om_insert (ow_client_order_id ?w) (vo_filled_quantity ?v) (gi_requested g),
      gi_cumulative = (gi_cumulative g)(ow_client_order_id ?w \<mapsto> 0)\<rparr>"
  from Cons.prems(1) have fresh: "om_get (ow_client_order_id ?w) (gi_requested g) = None" and run: "index_orders rest ?g = Ok g'"
    by (auto simp: Let_def split: if_splits)
  have "index_ok (before @ [x]) ?g"
    using Cons.prems(2) fresh unfolding index_ok_def
    by (auto simp: om_get_insert om_insert_sorted)
  from Cons.IH [OF run this] show ?case by simp
qed simp

definition progress_ok :: "nat \<Rightarrow> gate_index \<Rightarrow> gate_progress \<Rightarrow> bool" where
  "progress_ok s g p \<longleftrightarrow> (\<forall>k. gp_cumulative p k = (if om_get k (gi_requested g) = None then None else Some (filled_by k (gp_verified p))))
     \<and> (\<forall>k. om_get k (gi_requested g) \<noteq> None \<longrightarrow> representable s (filled_by k (gp_verified p)) \<and> 0 \<le> filled_by k (gp_verified p))"

definition index_scale :: "nat \<Rightarrow> gate_index \<Rightarrow> bool" where
  "index_scale s g \<longleftrightarrow> (\<forall>k q. om_get k (gi_requested g) = Some q \<longrightarrow> representable s q)"

definition good_trade :: "nat \<Rightarrow> um_trade \<Rightarrow> bool" where
  "good_trade s t \<longleftrightarrow> 0 < ut_quantity t \<and> representable s (ut_quantity t)"

lemma verify_trades_step:
  assumes "verify_trades D g cursor (t # ts) last_id p = Ok r" "lossless D s" "progress_ok s g p" "index_scale s g" "good_trade s t"
    and "\<forall>k w. gi_by_venue_id g k = Some w \<longrightarrow> (\<exists>x\<in>set orders. os_owner x = w)"
  shows "\<exists>v p'. vt_trade v = t \<and> owned_by orders v \<and> gp_verified p' = gp_verified p @ [v] \<and> progress_ok s g p'
    \<and> cursor \<le> ut_trade_id t \<and> (\<forall>l. last_id = Some l \<longrightarrow> l < ut_trade_id t)
    \<and> verify_trades D g cursor ts (Some (ut_trade_id t)) p' = Ok r"
proof -
  from assms(1) obtain w cid q q' lim where st: "cursor \<le> ut_trade_id t" "\<forall>l. last_id = Some l \<longrightarrow> l < ut_trade_id t"
      "gi_by_venue_id g (ut_venue_order_id t) = Some w" "verified_durable_order t w = Ok cid" "gp_cumulative p cid = Some q"
      "checked_add D q (ut_quantity t) = Some q'" "om_get cid (gi_requested g) = Some lim" "q' \<le> lim"
      "verify_trades D g cursor ts (Some (ut_trade_id t))
             \<lparr>gp_seen = insert (ut_trade_id t) (gp_seen p), gp_verified = gp_verified p @ [\<lparr>vt_durable_client_id = cid, vt_trade = t\<rparr>],
              gp_cumulative = (gp_cumulative p)(cid \<mapsto> q')\<rparr> = Ok r"
    by (auto simp: outcome_simps not_less not_le split: if_splits)
  let ?v = "\<lparr>vt_durable_client_id = cid, vt_trade = t\<rparr>"
  let ?p = "\<lparr>gp_seen = insert (ut_trade_id t) (gp_seen p), gp_verified = gp_verified p @ [?v], gp_cumulative = (gp_cumulative p)(cid \<mapsto> q')\<rparr>"
  have q: "q = filled_by cid (gp_verified p)" "representable s q" "0 \<le> q"
    using assms(3) st(5,7) unfolding progress_ok_def by auto
  have g: "0 < ut_quantity t" "representable s (ut_quantity t)" "representable s lim"
    using assms(4,5) st(7) unfolding good_trade_def index_scale_def by auto
  have add: "q' = q + ut_quantity t" "representable s (q + ut_quantity t)"
    using lossless_add_bounded [OF assms(2) q(2) g(2,3) _ st(6,8)] q(3) g(1) by simp_all
  have one: "filled_by k [?v] = (if k = cid then ut_quantity t else 0)" for k by (simp add: filled_by_def)
  have "progress_ok s g ?p"
    using assms(3) add q g(1) st(7) unfolding progress_ok_def by (auto simp: filled_by_append one)
  moreover obtain x where x: "x \<in> set orders" "os_owner x = w" using assms(6) st(3) by blast
  have "owned_by orders ?v"
    using st(4) x unfolding owned_by_def by (intro bexI [OF _ x(1)]) (auto simp: verified_durable_order_def split: if_splits)
  ultimately show ?thesis using st(1,2,9) by (intro exI [of _ ?v] exI [of _ ?p]) simp
qed

lemma verify_trades_ok:
  assumes "verify_trades D g cursor ts last_id p = Ok (last_id', p')" "lossless D s" "progress_ok s g p" "index_scale s g"
    and "\<forall>t\<in>set ts. good_trade s t"
    and "\<forall>k w. gi_by_venue_id g k = Some w \<longrightarrow> (\<exists>x\<in>set orders. os_owner x = w)"
  shows "\<exists>vts. gp_verified p' = gp_verified p @ vts \<and> map vt_trade vts = ts \<and> progress_ok s g p' \<and> (\<forall>v\<in>set vts. owned_by orders v)
    \<and> sorted_wrt (<) (trade_ids vts) \<and> (\<forall>i\<in>set (trade_ids vts). cursor \<le> i \<and> (\<forall>l. last_id = Some l \<longrightarrow> l < i))
    \<and> last_id' = (if vts = [] then last_id else Some (List.last (trade_ids vts)))"
  using assms(1,3,5)
proof (induction ts arbitrary: last_id p)
  case (Cons t ts)
  from verify_trades_step [OF Cons.prems(1) assms(2) Cons.prems(2) assms(4) _ assms(6)] Cons.prems(3) obtain v p1 where
      st: "vt_trade v = t" "owned_by orders v" "gp_verified p1 = gp_verified p @ [v]" "progress_ok s g p1"
        "cursor \<le> ut_trade_id t" "\<forall>l. last_id = Some l \<longrightarrow> l < ut_trade_id t"
        "verify_trades D g cursor ts (Some (ut_trade_id t)) p1 = Ok (last_id', p')" by auto
  from Cons.IH [OF st(7,4)] Cons.prems(3) obtain vts where
      ih: "gp_verified p' = gp_verified p1 @ vts" "map vt_trade vts = ts" "progress_ok s g p'" "\<forall>v\<in>set vts. owned_by orders v"
        "sorted_wrt (<) (trade_ids vts)" "\<forall>i\<in>set (trade_ids vts). cursor \<le> i \<and> ut_trade_id t < i"
        "last_id' = (if vts = [] then Some (ut_trade_id t) else Some (List.last (trade_ids vts)))" by auto
  have "\<forall>i\<in>set (trade_ids vts). \<forall>l. last_id = Some l \<longrightarrow> l < i" using ih(6) st(6) by (meson less_trans)
  with st ih show ?case by (intro exI [of _ "v # vts"]) (auto simp: trade_ids_def)
qed (simp add: trade_ids_def)

lemma sorted_last: "sorted_wrt (<) xs \<Longrightarrow> i \<in> set xs \<Longrightarrow> i \<le> List.last (xs :: 'a::linorder list)"
  by (induction xs rule: rev_induct) (auto simp: sorted_wrt_append)

lemma verify_pages_ok:
  assumes "verify_pages D g pages cursor p = Ok (cursor', p')" "lossless D s" "progress_ok s g p" "index_scale s g"
    and "\<forall>page\<in>set pages. \<forall>t\<in>set (tp_trades page). good_trade s t"
    and "\<forall>k w. gi_by_venue_id g k = Some w \<longrightarrow> (\<exists>x\<in>set orders. os_owner x = w)"
  shows "\<exists>vts. gp_verified p' = gp_verified p @ vts \<and> map vt_trade vts = concat (map tp_trades pages) \<and> progress_ok s g p'
    \<and> (\<forall>v\<in>set vts. owned_by orders v) \<and> sorted_wrt (<) (trade_ids vts)
    \<and> (\<forall>i\<in>set (trade_ids vts). cursor \<le> i \<and> i < cursor') \<and> cursor \<le> cursor'"
  using assms(1,3,5)
proof (induction pages arbitrary: cursor p)
  case (Cons page pages)
  from Cons.prems(1) obtain last_id p1 nxt where st: "verify_trades D g cursor (tp_trades page) None p = Ok (last_id, p1)"
      "(case last_id of Some i \<Rightarrow> ok_or (checked_succ i) HgInvalidCursor | None \<Rightarrow> Ok cursor) = Ok nxt"
      "verify_pages D g pages nxt p1 = Ok (cursor', p')"
    by (auto simp: outcome_simps split: if_splits)
  from verify_trades_ok [OF st(1) assms(2) Cons.prems(2) assms(4) _ assms(6)] Cons.prems(3) obtain vts where
      v: "gp_verified p1 = gp_verified p @ vts" "map vt_trade vts = tp_trades page" "progress_ok s g p1" "\<forall>v\<in>set vts. owned_by orders v"
        "sorted_wrt (<) (trade_ids vts)" "\<forall>i\<in>set (trade_ids vts). cursor \<le> i"
        "last_id = (if vts = [] then None else Some (List.last (trade_ids vts)))" by auto
  have nxt: "cursor \<le> nxt \<and> (\<forall>i\<in>set (trade_ids vts). i < nxt)"
  proof (cases vts)
    case Nil
    then show ?thesis using st(2) v(7) by (simp add: trade_ids_def)
  next
    case (Cons a as)
    let ?l = "List.last (trade_ids vts)"
    have ne: "trade_ids vts \<noteq> []" using Cons by (simp add: trade_ids_def)
    have "checked_succ ?l = Some nxt" using st(2) v(7) Cons by (simp add: outcome_simps)
    then have l: "?l < nxt" by (rule checked_succ_Some [THEN conjunct1])
    have "\<forall>i\<in>set (trade_ids vts). i \<le> ?l" using sorted_last [OF v(5)] by blast
    with l have "\<forall>i\<in>set (trade_ids vts). i < nxt" by (meson le_less_trans)
    moreover have "?l \<in> set (trade_ids vts)" using ne by (rule last_in_set)
    ultimately show ?thesis using v(6) by (meson le_less_trans less_imp_le)
  qed
  from Cons.IH [OF st(3) v(3)] Cons.prems(3) obtain more where
      m: "gp_verified p' = gp_verified p1 @ more" "map vt_trade more = concat (map tp_trades pages)" "progress_ok s g p'"
        "\<forall>v\<in>set more. owned_by orders v" "sorted_wrt (<) (trade_ids more)" "\<forall>i\<in>set (trade_ids more). nxt \<le> i \<and> i < cursor'" "nxt \<le> cursor'" by auto
  have "sorted_wrt (<) (trade_ids (vts @ more))"
    using v(5) m(5,6) nxt unfolding trade_ids_def map_append sorted_wrt_append by (meson less_le_trans)
  moreover have "\<forall>i\<in>set (trade_ids (vts @ more)). cursor \<le> i \<and> i < cursor'"
    using v(6) m(6,7) nxt unfolding trade_ids_def map_append set_append by (meson UnE less_le_trans order_trans)
  ultimately show ?case using v m nxt by (intro exI [of _ "vts @ more"]) auto
qed (simp add: trade_ids_def)

lemma check_filled_ok: "check_filled cum m = Ok () \<longleftrightarrow> (\<forall>(k, q)\<in>set m. cum k = Some q)"
  by (induction m) (auto split: option.splits if_splits)

lemma check_filled_total: "\<forall>(k, q)\<in>set m. cum k \<noteq> None \<Longrightarrow> check_filled cum m \<noteq> Panic"
  by (induction m) (auto split: option.splits if_splits)

lemma index_start: "index_ok [] \<lparr>gi_by_venue_id = Map.empty, gi_requested = [], gi_cumulative = Map.empty\<rparr>"
  by (simp add: index_ok_def om_get_def om_sorted_def)

lemma verify_history_exact:
  assumes "verify_trade_history D anchor pages orders = Ok h" "lossless D s"
    and "\<forall>page\<in>set pages. \<forall>t\<in>set (tp_trades page). good_trade s t"
    and "\<forall>x\<in>set orders. representable s (vo_filled_quantity (os_snapshot x))"
  shows "history_exact orders pages h \<and> vh_anchored_from_id h = anchor \<and> anchor \<le> vh_next_from_id h"
proof -
  from assms(1) obtain g cursor p where st:
      "index_orders orders \<lparr>gi_by_venue_id = Map.empty, gi_requested = [], gi_cumulative = Map.empty\<rparr> = Ok g"
      "verify_pages D g pages anchor \<lparr>gp_seen = {}, gp_verified = [], gp_cumulative = gi_cumulative g\<rparr> = Ok (cursor, p)"
      "check_filled (gp_cumulative p) (gi_requested g) = Ok ()"
      "h = \<lparr>vh_anchored_from_id = anchor, vh_next_from_id = cursor, vh_trades = gp_verified p\<rparr>"
    by (auto simp: verify_trade_history_def outcome_simps split: if_splits)
  have ix: "index_ok orders g" using index_orders_ok [OF st(1) index_start] by simp
  have sc: "index_scale s g" unfolding index_scale_def using ix assms(4) unfolding index_ok_def by metis
  have own: "\<forall>k w. gi_by_venue_id g k = Some w \<longrightarrow> (\<exists>x\<in>set orders. os_owner x = w)" using ix by (simp add: index_ok_def)
  have "progress_ok s g \<lparr>gp_seen = {}, gp_verified = [], gp_cumulative = gi_cumulative g\<rparr>"
    using ix by (simp add: progress_ok_def index_ok_def filled_by_def)
  from verify_pages_ok [OF st(2) assms(2) this sc assms(3) own] obtain vts where
      v: "gp_verified p = vts" "map vt_trade vts = concat (map tp_trades pages)" "progress_ok s g p" "\<forall>v\<in>set vts. owned_by orders v"
        "sorted_wrt (<) (trade_ids vts)" "\<forall>i\<in>set (trade_ids vts). anchor \<le> i \<and> i < cursor" "anchor \<le> cursor" by auto
  have "filled_by (ow_client_order_id (os_owner x)) vts = vo_filled_quantity (os_snapshot x)" if x: "x \<in> set orders" for x
  proof -
    let ?k = "ow_client_order_id (os_owner x)"
    have get: "om_get ?k (gi_requested g) = Some (vo_filled_quantity (os_snapshot x))" using ix x by (simp add: index_ok_def)
    then have "(?k, vo_filled_quantity (os_snapshot x)) \<in> set (gi_requested g)" using ix by (simp add: index_ok_def om_entries_get)
    with st(3) have "gp_cumulative p ?k = Some (vo_filled_quantity (os_snapshot x))" unfolding check_filled_ok by blast
    with v(1,3) get show ?thesis by (simp add: progress_ok_def)
  qed
  with v st(4) show ?thesis by (simp add: history_exact_def)
qed

section \<open>No panic\<close>

definition covered :: "gate_index \<Rightarrow> (string \<rightharpoonup> decimal) \<Rightarrow> bool" where
  "covered g cum \<longleftrightarrow> (\<forall>k. cum k = None \<longleftrightarrow> om_get k (gi_requested g) = None)"

definition returns :: "('a \<Rightarrow> bool) \<Rightarrow> ('e, 'a) outcome \<Rightarrow> bool" where
  "returns Q r \<longleftrightarrow> r \<noteq> Panic \<and> (\<forall>x. r = Ok x \<longrightarrow> Q x)"

lemma returns_simps [simp]: "returns Q (Ok x) = Q x" "returns Q (Err e)" "\<not> returns Q Panic"
  by (simp_all add: returns_def)

lemma returns_and_then: "m \<noteq> Panic \<Longrightarrow> (\<And>x. m = Ok x \<Longrightarrow> returns Q (f x)) \<Longrightarrow> returns Q (and_then m f)"
  by (cases m) auto

lemma map_error_Panic [simp]: "map_error f r = Panic \<longleftrightarrow> r = Panic"
  by (cases r) auto

lemma verified_durable_order_total [simp]: "verified_durable_order t w \<noteq> Panic"
  by (simp add: verified_durable_order_def)

lemma verify_trades_covered:
  "covered g (gp_cumulative p) \<Longrightarrow> returns (\<lambda>(l, p'). covered g (gp_cumulative p')) (verify_trades D g cursor ts last_id p)"
proof (induction ts arbitrary: last_id p)
  case (Cons t ts)
  have step: "returns (\<lambda>(l, p'). covered g (gp_cumulative p')) (verify_trades D g cursor ts l
      \<lparr>gp_seen = u, gp_verified = vs, gp_cumulative = (gp_cumulative p)(cid \<mapsto> q)\<rparr>)" if "gp_cumulative p cid \<noteq> None" for l u vs cid q
    by (rule Cons.IH) (use Cons.prems that in \<open>auto simp: covered_def\<close>)
  have or: "or_panic (om_get cid (gi_requested g)) \<noteq> Panic" if "gp_cumulative p cid \<noteq> None" for cid
    using Cons.prems that by (cases "om_get cid (gi_requested g)") (auto simp: covered_def)
  show ?case by (auto intro!: returns_and_then step simp: outcome_simps simp del: fun_upd_apply) (use or in \<open>auto simp: outcome_simps\<close>)
qed simp

lemma verify_pages_covered:
  "covered g (gp_cumulative p) \<Longrightarrow> returns (\<lambda>(l, p'). covered g (gp_cumulative p')) (verify_pages D g pages cursor p)"
proof (induction pages arbitrary: cursor p)
  case (Cons page pages)
  note vt = verify_trades_covered [OF Cons.prems, of D cursor "tp_trades page" None]
  show ?case using vt
    by (auto intro!: returns_and_then Cons.IH simp: returns_def [of _ "verify_trades D g cursor (tp_trades page) None p"] split: option.splits)
qed simp

lemma index_orders_total: "index_orders orders g \<noteq> Panic"
  by (induction orders g rule: index_orders.induct) (simp_all add: Let_def)

lemma verify_history_total: "verify_trade_history D anchor pages orders \<noteq> Panic"
proof -
  have "returns (\<lambda>_. True) (verify_trade_history D anchor pages orders)"
    unfolding verify_trade_history_def
  proof (simp add: index_orders_total del: fun_upd_apply, intro impI returns_and_then)
    fix g
    assume g: "index_orders orders \<lparr>gi_by_venue_id = Map.empty, gi_requested = [], gi_cumulative = Map.empty\<rparr> = Ok g"
    have ix: "index_ok orders g" using index_orders_ok [OF g index_start] by simp
    let ?p = "\<lparr>gp_seen = {}, gp_verified = [], gp_cumulative = gi_cumulative g\<rparr>"
    have "covered g (gp_cumulative ?p)" using ix by (auto simp: covered_def index_ok_def)
    from verify_pages_covered [OF this, of D pages anchor]
    have vp: "verify_pages D g pages anchor ?p \<noteq> Panic"
      "\<And>c p. verify_pages D g pages anchor ?p = Ok (c, p) \<Longrightarrow> covered g (gp_cumulative p)" by (auto simp: returns_def)
    show "verify_pages D g pages anchor ?p \<noteq> Panic" by (rule vp)
    fix cp
    assume cp: "verify_pages D g pages anchor ?p = Ok cp"
    obtain c p where [simp]: "cp = (c, p)" by (cases cp)
    have "\<forall>(k, q)\<in>set (gi_requested g). gp_cumulative p k \<noteq> None"
      using vp(2) [of c p] cp ix by (auto simp: covered_def index_ok_def om_entries_get)
    then have "check_filled (gp_cumulative p) (gi_requested g) \<noteq> Panic" by (rule check_filled_total)
    then show "returns (\<lambda>_. True) (case cp of (cursor, p) \<Rightarrow> and_then (check_filled (gp_cumulative p) (gi_requested g))
        (\<lambda>_. Ok \<lparr>vh_anchored_from_id = anchor, vh_next_from_id = cursor, vh_trades = gp_verified p\<rparr>))"
      by (simp add: returns_and_then)
  qed (simp add: index_orders_total)
  then show ?thesis by (simp add: returns_def)
qed

section \<open>Collecting and verifying\<close>

text \<open>The pages a reader returned, each asked for where the one before ended.\<close>

fun reads_from :: "'r page_reader \<Rightarrow> u64 \<Rightarrow> trade_page list \<Rightarrow> 'r \<Rightarrow> 'r \<Rightarrow> bool" where
  "reads_from read cursor [] r r' \<longleftrightarrow> r' = r"
| "reads_from read cursor (p # ps) r r' \<longleftrightarrow>
     (case read cursor 1000 r of
        (Ok q, r1) \<Rightarrow> q = p \<and> (case tp_next_from_id p of Some n \<Rightarrow> reads_from read n ps r1 r' | None \<Rightarrow> False)
      | _ \<Rightarrow> False)"

lemma fetch_pages_ok:
  assumes "fetch_pages D read anchor orders left cursor pages r = (Ok h, r')"
  shows "\<exists>more. reads_from read cursor more r r' \<and> more \<noteq> [] \<and> length more \<le> left
    \<and> verify_trade_history D anchor (pages @ more) orders = Ok h"
  using assms
proof (induction left arbitrary: cursor pages r)
  case (Suc left)
  from Suc.prems obtain page r1 n where st: "read cursor 1000 r = (Ok page, r1)" "tp_next_from_id page = Some n"
      "(if tp_short_page page then give (map_error (\<lambda>_. ExConversion ''UM history ownership or fill verification failed'')
                  (verify_trade_history D anchor (pages @ [page]) orders))
        else fetch_pages D read anchor orders left n (pages @ [page])) r1 = (Ok h, r')"
    by (auto simp: bind_eq_Ok outcome_simps give_def split: if_splits)
  show ?case
  proof (cases "tp_short_page page")
    case True
    with st have "verify_trade_history D anchor (pages @ [page]) orders = Ok h" "r' = r1" by (auto simp: outcome_simps)
    with st(1,2) show ?thesis by (intro exI [of _ "[page]"]) simp
  next
    case False
    with st(3) Suc.IH [of n "pages @ [page]" r1] obtain more where
        "reads_from read n more r1 r'" "more \<noteq> []" "length more \<le> left" "verify_trade_history D anchor ((pages @ [page]) @ more) orders = Ok h" by auto
    with st(1,2) show ?thesis by (intro exI [of _ "page # more"]) simp
  qed
qed (simp add: give_def)

lemma fetch_pages_total:
  assumes "\<And>c r. fst (read c 1000 r) \<noteq> Panic"
  shows "fst (fetch_pages D read anchor orders left cursor pages r) \<noteq> Panic"
proof (induction left arbitrary: cursor pages r)
  case (Suc left)
  have "fst (read cursor 1000 r) \<noteq> Panic" by (rule assms)
  with Suc.IH show ?case
    by (cases "read cursor 1000 r") (auto simp: bind_def give_def verify_history_total split: outcome.split)
qed (simp add: give_def)

text \<open>The pages read are good when every page the reader can return is.\<close>

lemma reads_from_all:
  assumes "\<And>c r page r'. read c 1000 r = (Ok page, r') \<Longrightarrow> \<forall>t\<in>set (tp_trades page). P t"
  shows "reads_from read cursor pages r r' \<Longrightarrow> \<forall>page\<in>set pages. \<forall>t\<in>set (tp_trades page). P t"
proof (induction pages arbitrary: cursor r)
  case (Cons p ps)
  then obtain n r1 where "read cursor 1000 r = (Ok p, r1)" "reads_from read n ps r1 r'"
    by (auto split: prod.splits outcome.splits option.splits)
  with Cons.IH assms show ?case by (metis set_ConsD)
qed simp

section \<open>The history read over REST\<close>

lemma signed_total: "fst (signed_call K N c m path params n) \<noteq> Panic"
proof -
  have "read_reply K st m reply \<noteq> Panic" for st reply by (cases reply) auto
  then show ?thesis by (auto simp: signed_call_def signed_form_def Let_def split: prod.split)
qed

lemma and_then_Panic: "and_then m f = Panic \<longleftrightarrow> m = Panic \<or> (\<exists>x. m = Ok x \<and> f x = Panic)"
  by (cases m) auto

lemma history_fields_total [simp]:
  "history_number v key \<noteq> Panic" "history_text v key \<noteq> Panic" "history_decimal K v key \<noteq> Panic"
  by (simp_all add: history_number_def history_text_def history_decimal_def and_then_Panic)

lemma decode_um_trade_total: "decode_um_trade K v \<noteq> Panic"
  by (auto simp: decode_um_trade_def and_then_Panic split: if_splits)

lemma decode_rows_total: "decode_rows K from rows previous trades \<noteq> Panic"
  by (induction rows arbitrary: previous trades) (auto simp: and_then_Panic decode_um_trade_total split: if_splits)

lemma decode_trade_page_total: "decode_trade_page K response from limit \<noteq> Panic"
  by (auto simp: decode_trade_page_def and_then_Panic decode_rows_total split: if_splits option.splits)

lemma user_trades_page_total: "fst (rest_user_trades_page K N c from limit n) \<noteq> Panic"
  using signed_total [of K N c GET TRADES_PATH]
  by (auto simp: rest_user_trades_page_def bind_def give_def decode_trade_page_total split: prod.split outcome.split)
     (metis fst_conv)

lemma decode_trade_positive: "decode_um_trade K v = Ok t \<Longrightarrow> 0 < ut_quantity t"
  by (auto simp: decode_um_trade_def history_decimal_def outcome_simps not_le split: if_splits)

lemma decode_rows_positive:
  "decode_rows K from rows previous trades = Ok (trades', previous') \<Longrightarrow> \<forall>t\<in>set trades. 0 < ut_quantity t \<Longrightarrow>
     \<forall>t\<in>set trades'. 0 < ut_quantity t"
proof (induction rows arbitrary: previous trades)
  case (Cons row rows)
  then obtain t where t: "decode_um_trade K row = Ok t" "decode_rows K from rows (Some (ut_trade_id t)) (trades @ [t]) = Ok (trades', previous')"
    by (auto simp: outcome_simps split: if_splits)
  with Cons.IH [OF t(2)] Cons.prems(2) decode_trade_positive [OF t(1)] show ?case by simp
qed simp

lemma user_trades_page_positive:
  assumes "rest_user_trades_page K N c from limit n = (Ok page, n')"
  shows "\<forall>t\<in>set (tp_trades page). 0 < ut_quantity t"
proof -
  from assms obtain raw rows previous where "decode_rows K from rows None [] = Ok (tp_trades page, previous)"
    by (auto simp: rest_user_trades_page_def bind_eq_Ok decode_trade_page_def outcome_simps give_def split: if_splits)
  from decode_rows_positive [OF this] show ?thesis by simp
qed

text \<open>The quantities this fetch reads, page by page, fit the decimal format at one scale.\<close>

definition reads_on_scale :: "nat \<Rightarrow> 'r page_reader \<Rightarrow> u64 \<Rightarrow> 'r \<Rightarrow> bool" where
  "reads_on_scale s read anchor r \<longleftrightarrow> (\<forall>pages r'. reads_from read anchor pages r r' \<longrightarrow>
     (\<forall>page\<in>set pages. \<forall>t\<in>set (tp_trades page). representable s (ut_quantity t)))"

text \<open>
  C20. A history fetched over REST is exact. It is read in at most 32 pages, each asked for where the one before ended;
  its trades are precisely the trades of those pages in their order, with strictly increasing ids from the anchor up to
  the returned cursor, each one owned by one of the given orders of the same instrument, side and venue id; and for
  every given order the quantities of its trades add up to exactly the filled quantity of its authenticated snapshot.
  Whatever the venue answers, the fetch returns a value or an error and never panics.
\<close>

theorem binance_history_exact:
  assumes "lossless (bc_ops K) s" "reads_on_scale s (\<lambda>cursor. rest_user_trades_page K N c (Some cursor)) anchor n"
    and "\<forall>x\<in>set orders. representable s (vo_filled_quantity (os_snapshot x))"
    and "fetch_verified_history (bc_ops K) (\<lambda>cursor. rest_user_trades_page K N c (Some cursor)) anchor orders n = (r, n')"
  shows "r \<noteq> Panic \<and> (\<forall>h. r = Ok h \<longrightarrow> vh_anchored_from_id h = anchor \<and>
    (\<exists>pages. reads_from (\<lambda>cursor. rest_user_trades_page K N c (Some cursor)) anchor pages n n' \<and> length pages \<le> 32
       \<and> history_exact orders pages h))"
proof (intro conjI allI impI)
  let ?read = "\<lambda>cursor. rest_user_trades_page K N c (Some cursor)"
  have "fst (fetch_verified_history (bc_ops K) ?read anchor orders n) \<noteq> Panic"
    using fetch_pages_total [of ?read, OF user_trades_page_total] by (simp add: fetch_verified_history_def give_def)
  with assms(4) show "r \<noteq> Panic" by simp
  { fix h assume "r = Ok h"
    with assms(4) have "fetch_pages (bc_ops K) ?read anchor orders 32 anchor [] n = (Ok h, n')"
      by (simp add: fetch_verified_history_def give_def split: if_splits)
    from fetch_pages_ok [OF this] obtain pages where p: "reads_from ?read anchor pages n n'" "length pages \<le> 32"
        "verify_trade_history (bc_ops K) anchor pages orders = Ok h" by auto
    have "\<forall>page\<in>set pages. \<forall>t\<in>set (tp_trades page). 0 < ut_quantity t"
      by (rule reads_from_all [OF user_trades_page_positive p(1)])
    then have "\<forall>page\<in>set pages. \<forall>t\<in>set (tp_trades page). good_trade s t"
      using assms(2) p(1) unfolding reads_on_scale_def good_trade_def by blast
    from verify_history_exact [OF p(3) assms(1) this assms(3)] p
    have "vh_anchored_from_id h = anchor \<and> (\<exists>pages. reads_from ?read anchor pages n n' \<and> length pages \<le> 32 \<and> history_exact orders pages h)" by blast }
  note exact = this
  fix h assume "r = Ok h"
  from exact [OF this] show "vh_anchored_from_id h = anchor"
    "\<exists>pages. reads_from ?read anchor pages n n' \<and> length pages \<le> 32 \<and> history_exact orders pages h" by blast+
qed

definition demo_codec :: "json \<Rightarrow> binance_codec" where
  "demo_codec v = \<lparr>bc_ops = bounded_ops, bc_parse = (\<lambda>t. if t = ''1'' then Some 1 else None), bc_show = (\<lambda>_. ''1''),
     bc_rem = (\<lambda>x y. Some 0), bc_json = (\<lambda>_. Some v)\<rparr>"

definition demo_net :: "nat binance_net" where
  "demo_net = \<lparr>bn_clock_ms = (\<lambda>_. 1700000000000), bn_form = (\<lambda>_. []), bn_hmac = (\<lambda>_ _. []), bn_status_text = show_nat,
     bn_send = (\<lambda>_ n. (Reply 200 [], n + 1))\<rparr>"

definition demo_client :: rest_client where
  "demo_client = \<lparr>rc_api_key = ''key'', rc_secret = ''secret'', rc_enable_submission = True\<rparr>"

definition demo_trades :: json where
  "demo_trades = VArr [VObj [(''symbol'', VStr SYMBOL), (''positionSide'', VStr ''BOTH''), (''side'', VStr ''BUY''),
     (''id'', VPosInt 7), (''orderId'', VPosInt 5), (''time'', VPosInt 9), (''qty'', VStr ''1''), (''price'', VStr ''1''),
     (''quoteQty'', VStr ''1''), (''commission'', VStr ''1''), (''realizedPnl'', VStr ''1''), (''commissionAsset'', VStr ''USDC'')]]"

definition demo_owned :: owned_snapshot where
  "demo_owned =
     \<lparr>os_owner = \<lparr>ow_venue = BinancePm, ow_symbol = SYMBOL, ow_client_order_id = ''pg00000000000000000000000000000001'',
        ow_venue_order_id = ''5'', ow_side = Buy\<rparr>,
      os_snapshot = \<lparr>vo_venue_order_id = ''5'', vo_client_order_id = Some ''pg00000000000000000000000000000001'', vo_asset = SYMBOL,
        vo_side = Buy, vo_requested_quantity = 1, vo_filled_quantity = 1, vo_limit_price = Some 1, vo_state = VFilled\<rparr>\<rparr>"

lemma demo_page:
  "rest_user_trades_page (demo_codec demo_trades) demo_net demo_client (Some 3) 1000 0 =
     (Ok \<lparr>tp_trades = [\<lparr>ut_symbol = SYMBOL, ut_trade_id = 7, ut_venue_order_id = ''5'', ut_side = Buy, ut_quantity = 1, ut_price = 1,
        ut_quote_quantity = 1, ut_commission = 1, ut_commission_asset = ''USDC'', ut_realized_pnl = 1, ut_trade_time_ms = 9\<rparr>],
        tp_next_from_id = Some 8, tp_short_page = True\<rparr>, 1)"
  by (simp add: rest_user_trades_page_def signed_call_def approved_path_def signed_form_def demo_codec_def demo_net_def demo_client_def demo_trades_def
      decode_trade_page_def decode_um_trade_def history_text_def history_number_def history_decimal_def get_str_def get_u64_def
      parse_side_def is_asset_code_def checked_succ_def show_nat.simps bind_def give_def Let_def)

lemma decode_trade_one:
  "decode_um_trade K v = Ok t \<Longrightarrow> \<forall>x q. bc_parse K x = Some q \<longrightarrow> q = 1 \<Longrightarrow> ut_quantity t = 1"
  by (auto simp: decode_um_trade_def history_decimal_def outcome_simps split: if_splits)

lemma decode_rows_ones:
  "decode_rows K from rows previous trades = Ok (trades', previous') \<Longrightarrow> \<forall>x q. bc_parse K x = Some q \<longrightarrow> q = 1 \<Longrightarrow>
     \<forall>t\<in>set trades. ut_quantity t = 1 \<Longrightarrow> \<forall>t\<in>set trades'. ut_quantity t = 1"
proof (induction rows arbitrary: previous trades)
  case (Cons row rows)
  then obtain t where t: "decode_um_trade K row = Ok t" "decode_rows K from rows (Some (ut_trade_id t)) (trades @ [t]) = Ok (trades', previous')"
    by (auto simp: outcome_simps split: if_splits)
  with Cons.IH [OF t(2)] Cons.prems(2,3) decode_trade_one [OF t(1)] show ?case by simp
qed simp

theorem binance_history_exact_witness:
  "\<exists>h pages. fetch_verified_history bounded_ops (\<lambda>cursor. rest_user_trades_page (demo_codec demo_trades) demo_net demo_client (Some cursor)) 3 [demo_owned] 0 = (Ok h, 1)
     \<and> length (vh_trades h) = 1 \<and> vh_next_from_id h = 8
     \<and> reads_from (\<lambda>cursor. rest_user_trades_page (demo_codec demo_trades) demo_net demo_client (Some cursor)) 3 pages 0 1
     \<and> history_exact [demo_owned] pages h"
proof -
  let ?K = "demo_codec demo_trades"
  let ?read = "\<lambda>cursor. rest_user_trades_page ?K demo_net demo_client (Some cursor)"
  have ops: "bc_ops ?K = bounded_ops" by (simp add: demo_codec_def)
  have n32: "fetch_pages D ?read a xs 32 = fetch_pages D ?read a xs (Suc 31)" for D a xs by simp
  obtain h where h: "fetch_verified_history bounded_ops ?read 3 [demo_owned] 0 = (Ok h, 1)" "length (vh_trades h) = 1" "vh_next_from_id h = 8"
    unfolding fetch_verified_history_def n32 fetch_pages.simps(2)
    by (simp add: demo_page bind_def give_def
        verify_trade_history_def snapshot_conflicts_def demo_owned_def verified_durable_order_def
        is_ascii_hexdigit_def starts_with_def om_get_def checked_succ_def bounded_ops_def in_range_def Let_def)
  have "reads_on_scale 0 ?read 3 0" unfolding reads_on_scale_def
  proof (intro allI impI ballI)
    fix pages r' page t
    assume r: "reads_from ?read 3 pages 0 r'" and t: "page \<in> set pages" "t \<in> set (tp_trades page)"
    have "bc_parse ?K x = Some q \<Longrightarrow> q = 1" for x q by (simp add: demo_codec_def split: if_splits)
    then have "\<forall>t\<in>set (tp_trades page). ut_quantity t = 1" if "rest_user_trades_page ?K demo_net demo_client (Some c) 1000 m = (Ok page, m')" for c m page m'
      using that decode_rows_ones by (auto simp: rest_user_trades_page_def bind_eq_Ok decode_trade_page_def outcome_simps give_def split: if_splits)
    from reads_from_all [of ?read "\<lambda>t. ut_quantity t = 1", OF this r] t show "representable 0 (ut_quantity t)"
      by (simp add: representable_one)
  qed
  moreover have "\<forall>x\<in>set [demo_owned]. representable 0 (vo_filled_quantity (os_snapshot x))"
    by (simp add: demo_owned_def representable_one)
  ultimately have sc: "reads_on_scale 0 ?read 3 0" "\<forall>x\<in>set [demo_owned]. representable 0 (vo_filled_quantity (os_snapshot x))"
    by blast+
  have "lossless (bc_ops ?K) 0" unfolding ops by (rule lossless_bounded_ops) simp
  from binance_history_exact [OF this sc, of "Ok h" 1] h(1) ops
  obtain pages where "reads_from ?read 3 pages 0 1" "history_exact [demo_owned] pages h" by auto
  with h show ?thesis by blast
qed

end
