(* ===== verification/BinanceAdapter.thy ===== *)
theory BinanceAdapter
  imports BinanceHistory Durable
begin

text \<open>
  The Binance execution adapter, \<open>rust/adapters/pg-binance/src/execution_adapter.rs\<close>: preflight, the decoders of
  positions, account and recent fills, and the operations of the adapter contract over the signed REST client.
\<close>

section \<open>Decoders\<close>

definition verify_one_way_position_mode :: "json \<Rightarrow> (execution_error, unit) outcome" where
  "verify_one_way_position_mode v =
     and_then (ok_or (as_array v) (ExConversion ''invalid PM position response'')) (\<lambda>rows.
     case rows of
       [row] \<Rightarrow>
         if get_str ''symbol'' row \<noteq> Some SYMBOL \<or> get_str ''positionSide'' row \<noteq> Some ''BOTH''
         then Err (ExUnknown ''Binance BTCUSDC position mode is not verified one-way/BOTH'')
         else Ok ()
     | _ \<Rightarrow> Err (ExUnknown ''Binance BTCUSDC one-way position mode cannot be proven''))"

definition decode_position_row :: "binance_codec \<Rightarrow> json \<Rightarrow> (execution_error, venue_position_snapshot) outcome" where
  "decode_position_row K row =
     (if get_str ''symbol'' row \<noteq> Some SYMBOL \<or> get_str ''positionSide'' row \<noteq> Some ''BOTH''
      then Err (ExConversion ''unexpected PM instrument or hedge-mode position'')
      else and_then (ok_or (get_str ''positionAmt'' row) (ExConversion ''missing PM position quantity'')) (\<lambda>t.
      and_then (ok_or (bc_parse K t) (ExConversion ''invalid PM position quantity'')) (\<lambda>quantity.
      Ok \<lparr>vp_asset = SYMBOL, vp_quantity = quantity\<rparr>)))"

definition decode_position_risk :: "binance_codec \<Rightarrow> json \<Rightarrow> (execution_error, venue_position_snapshot list) outcome" where
  "decode_position_risk K v =
     and_then (verify_one_way_position_mode v) (\<lambda>_.
     and_then (ok_or (as_array v) (ExConversion ''invalid PM position response'')) (each (decode_position_row K)))"

definition required_decimal :: "binance_codec \<Rightarrow> json \<Rightarrow> string \<Rightarrow> (execution_error, decimal) outcome" where
  "required_decimal K v key =
     and_then (ok_or (get_str key v) (ExConversion (''missing Binance account field '' @ key))) (\<lambda>t.
     ok_or (bc_parse K t) (ExConversion (''invalid Binance account field '' @ key)))"

definition optional_decimal :: "binance_codec \<Rightarrow> json \<Rightarrow> string \<Rightarrow> (execution_error, decimal option) outcome" where
  "optional_decimal K v key =
     (case get_str key v of
        None \<Rightarrow> Ok None
      | Some raw \<Rightarrow>
          if is_blank raw then Ok None
          else and_then (ok_or (bc_parse K raw) (ExConversion (''invalid Binance account field '' @ key))) (\<lambda>d. Ok (Some d)))"

definition decode_account_snapshot :: "binance_codec \<Rightarrow> json \<Rightarrow> (execution_error, account_snapshot) outcome" where
  "decode_account_snapshot K v =
     and_then (ok_or (get_str ''accountStatus'' v) (ExConversion ''missing Binance account status'')) (\<lambda>status.
     if status \<noteq> ''NORMAL''
     then Err (ExUnknown (''Binance Portfolio Margin account status is '' @ status @ ''; new-exposure authority is unproven''))
     else and_then (required_decimal K v ''accountEquity'') (\<lambda>equity.
     and_then (optional_decimal K v ''totalAvailableBalance'') (\<lambda>available.
     and_then (optional_decimal K v ''virtualMaxWithdrawAmount'') (\<lambda>withdrawable.
     and_then (required_decimal K v ''accountInitialMargin'') (\<lambda>initial.
     and_then (required_decimal K v ''accountMaintMargin'') (\<lambda>maint.
     and_then (required_decimal K v ''actualEquity'') (\<lambda>actual.
     Ok \<lparr>as_venue = BinancePm, as_account_id = None, as_currency = Some ''USD'', as_account_value = Some equity,
         as_available_funds = available, as_withdrawable = withdrawable, as_buying_power = None,
         as_initial_margin = Some initial, as_maintenance_margin = Some maint, as_margin_used = None,
         as_gross_position_value = None, as_raw_usd = Some actual\<rparr>)))))))"

record order_identity =
  oid_venue_order_id :: string
  oid_client_order_id :: "string option"
  oid_asset :: string
  oid_side :: side

definition decode_order_identity :: "json \<Rightarrow> (execution_error, order_identity) outcome" where
  "decode_order_identity v =
     and_then (case get_u64 ''orderId'' v of
         Some i \<Rightarrow> if 0 < i then Ok (show_nat (unat i)) else Err (ExConversion ''invalid Binance order identity'')
       | None \<Rightarrow> Err (ExConversion ''invalid Binance order identity'')) (\<lambda>venue_order_id.
     if get_str ''symbol'' v \<noteq> Some SYMBOL then Err (ExConversion ''unexpected Binance order symbol'')
     else and_then (ok_or (Option.bind (get_str ''side'' v) parse_side) (ExConversion ''invalid Binance order side'')) (\<lambda>sd.
     and_then (ok_or (get_str ''clientOrderId'' v) (ExConversion ''missing Binance client order id'')) (\<lambda>native.
     Ok \<lparr>oid_venue_order_id = venue_order_id,
         oid_client_order_id = (if valid_client_order_id native then durable_client_order_id native else None),
         oid_asset = SYMBOL, oid_side = sd\<rparr>)))"

fun bind_identities :: "json list \<Rightarrow> (string \<rightharpoonup> order_identity) \<Rightarrow> (execution_error, string \<rightharpoonup> order_identity) outcome" where
  "bind_identities [] m = Ok m"
| "bind_identities (row # rows) m =
     and_then (decode_order_identity row) (\<lambda>x.
     if m (oid_venue_order_id x) \<noteq> None then Err (ExConversion ''duplicate Binance order identity in allOrders'')
     else bind_identities rows (m(oid_venue_order_id x \<mapsto> x)))"

definition to_i64 :: "u64 \<Rightarrow> string \<Rightarrow> (execution_error, int) outcome" where
  "to_i64 n message = (if n \<le> I64_MAX then Ok (uint n) else Err (ExConversion message))"

definition bind_trade :: "string \<Rightarrow> (string \<rightharpoonup> order_identity) \<Rightarrow> um_trade \<Rightarrow> (execution_error, venue_fill_snapshot) outcome" where
  "bind_trade account_scope identities t =
     and_then (ok_or (identities (ut_venue_order_id t))
         (ExUnknown (''Binance trade '' @ show_nat (unat (ut_trade_id t)) @ '' cannot be bound to authenticated allOrders identity '' @ ut_venue_order_id t))) (\<lambda>x.
     if oid_asset x \<noteq> ut_symbol t \<or> oid_side x \<noteq> ut_side t
     then Err (ExUnknown (''Binance trade '' @ show_nat (unat (ut_trade_id t)) @ '' conflicts with authenticated order identity''))
     else and_then (to_i64 (ut_trade_id t) ''Binance trade id exceeds i64'') (\<lambda>trade_id.
     and_then (to_i64 (ut_trade_time_ms t) ''Binance trade time exceeds i64'') (\<lambda>time.
     Ok \<lparr>vf_account_scope = account_scope, vf_venue_fill_id = show_nat (unat (ut_trade_id t)), vf_legacy_trade_id = Some trade_id,
         vf_venue_order_id = ut_venue_order_id t, vf_client_order_id = oid_client_order_id x, vf_asset = ut_symbol t,
         vf_side = ut_side t, vf_quantity = ut_quantity t, vf_price = ut_price t, vf_commission = Some (ut_commission t),
         vf_commission_asset = Some (ut_commission_asset t), vf_realized_pnl = Some (ut_realized_pnl t),
         vf_trade_time_ms = Some time, vf_venue_time = None\<rparr>)))"

definition bind_trade_page :: "string \<Rightarrow> trade_page \<Rightarrow> json \<Rightarrow> (execution_error, venue_fill_snapshot list) outcome" where
  "bind_trade_page account_scope page order_history =
     (if \<not> tp_short_page page
      then Err (ExUnknown ''Binance UM userTrades page saturated at 1000 rows; complete recent fill coverage is unproven'')
      else and_then (ok_or (as_array order_history) (ExConversion ''invalid Binance allOrders response'')) (\<lambda>rows.
      and_then (bind_identities rows Map.empty) (\<lambda>identities.
      each (bind_trade account_scope identities) (tp_trades page))))"

section \<open>The adapter\<close>

record binance_adapter =
  ba_rest :: rest_client
  ba_filters :: symbol_filters
  ba_mode :: position_mode
  ba_account_scope :: string

definition new_binance_adapter ::
  "rest_client \<Rightarrow> symbol_filters \<Rightarrow> position_mode \<Rightarrow> string \<Rightarrow> (execution_error, binance_adapter) outcome" where
  "new_binance_adapter rest filters mode scope =
     (if sf_symbol filters \<noteq> SYMBOL \<or> \<not> sf_symbol_trading filters \<or> mode \<noteq> OneWay
      then Err (ExUnsupported ''BTCUSDC trading status or one-way mode is unverified'')
      else
        let scope = trim scope in
        if scope = [] \<or> 128 < length scope \<or> \<not> list_all is_ascii_graphic scope
        then Err (ExConversion ''invalid Binance account scope'')
        else Ok \<lparr>ba_rest = rest, ba_filters = filters, ba_mode = mode, ba_account_scope = ''binance-pm:'' @ scope\<rparr>)"

definition binance_preflight ::
  "binance_codec \<Rightarrow> 'n binance_net \<Rightarrow> rest_client \<Rightarrow> symbol_filters \<Rightarrow> string \<Rightarrow> (binance_adapter, 'n) call" where
  "binance_preflight K N rest filters scope =
     bind (rest_position_risk K N rest) (\<lambda>risk.
     bind (give (verify_one_way_position_mode risk)) (\<lambda>_.
     bind (rest_account_info K N rest) (\<lambda>info.
     bind (give (decode_account_snapshot K info)) (\<lambda>_.
     give (new_binance_adapter rest filters OneWay scope)))))"

definition submit_style :: "order_intent \<Rightarrow> (execution_error, order_style) outcome" where
  "submit_style i =
     (case (oi_effect i, oi_limit_price i) of
        (Increase, None) \<Rightarrow> Err (ExUnsupported ''unbounded exposure-increasing market order'')
      | (ReduceOnly, None) \<Rightarrow> Ok StyleReduceOnlyMarket
      | (_, Some _) \<Rightarrow> Ok StylePostOnly)"

definition binance_submit :: "binance_codec \<Rightarrow> 'n binance_net \<Rightarrow> binance_adapter \<Rightarrow> order_intent \<Rightarrow> (venue_order_ack, 'n) call" where
  "binance_submit K N a i =
     bind (give (submit_style i)) (\<lambda>style.
     bind (give (map_error (\<lambda>e. ExConversion (''invalid order: '' @ debug_protocol_error e))
                   (prepare_order K i (ba_filters a) (ba_mode a) style))) (\<lambda>prepared.
     rest_submit_order K N (ba_rest a) prepared))"

definition binance_cancel :: "binance_codec \<Rightarrow> 'n binance_net \<Rightarrow> binance_adapter \<Rightarrow> order_locator \<Rightarrow> (unit, 'n) call" where
  "binance_cancel K N a ord =
     (if ol_asset ord \<noteq> SYMBOL then give (Err (ExConversion ''cancel instrument mismatch''))
      else if (case ol_venue_order_id ord of Some i \<Rightarrow> i = [] \<or> \<not> list_all is_ascii_digit i | None \<Rightarrow> False)
      then give (Err (ExConversion ''invalid venue order id''))
      else bind (give (venue_id_from_durable (ol_client_order_id ord))) (\<lambda>venue_id.
           rest_cancel_order K N (ba_rest a) venue_id))"

definition binance_positions :: "binance_codec \<Rightarrow> 'n binance_net \<Rightarrow> binance_adapter \<Rightarrow> (venue_position_snapshot list, 'n) call" where
  "binance_positions K N a = bind (rest_position_risk K N (ba_rest a)) (\<lambda>v. give (decode_position_risk K v))"

definition binance_fills :: "binance_codec \<Rightarrow> 'n binance_net \<Rightarrow> binance_adapter \<Rightarrow> (venue_fill_snapshot list, 'n) call" where
  "binance_fills K N a =
     bind (rest_user_trades_page K N (ba_rest a) None 1000) (\<lambda>page.
     bind (rest_recent_orders K N (ba_rest a)) (\<lambda>orders.
     give (bind_trade_page (ba_account_scope a) page orders)))"

definition binance_account_snapshot :: "binance_codec \<Rightarrow> 'n binance_net \<Rightarrow> binance_adapter \<Rightarrow> (account_snapshot, 'n) call" where
  "binance_account_snapshot K N a = bind (rest_account_info K N (ba_rest a)) (\<lambda>v. give (decode_account_snapshot K v))"

definition binance_find_order :: "binance_codec \<Rightarrow> 'n binance_net \<Rightarrow> binance_adapter \<Rightarrow> string \<Rightarrow> (venue_order_snapshot option, 'n) call" where
  "binance_find_order K N a cid =
     bind (give (venue_id_from_durable cid)) (\<lambda>venue_id.
     bind (rest_query_order K N (ba_rest a) venue_id) (\<lambda>record.
     if vo_client_order_id record \<noteq> Some cid then give (Err (ExUnknown ''historical order identity mismatch''))
     else give (Ok (Some record))))"

definition binance_ops :: "binance_codec \<Rightarrow> 'n binance_net \<Rightarrow> binance_adapter \<Rightarrow> 'n adapter_ops" where
  "binance_ops K N a =
     \<lparr>ad_submit = binance_submit K N a, ad_cancel = binance_cancel K N a, ad_open_orders = rest_open_orders K N (ba_rest a),
      ad_positions = binance_positions K N a, ad_fills = binance_fills K N a,
      ad_account_snapshot = binance_account_snapshot K N a, ad_find_order_by_client_id = binance_find_order K N a\<rparr>"

section \<open>What reaches the venue\<close>

lemma and_then_Err: "and_then m f = Err e \<longleftrightarrow> m = Err e \<or> (\<exists>x. m = Ok x \<and> f x = Err e)"
  by (cases m) auto

lemma ok_or_Err: "ok_or x e = Err e' \<longleftrightarrow> x = None \<and> e' = e"
  by (cases x) auto

lemma signed_cases:
  assumes "signed_call K N c m path params n = (r, n')"
  shows "(n' = n \<and> (\<exists>e. r = Err e)) \<or>
    (\<exists>form. 0 \<le> bn_clock_ms N n \<and> bn_clock_ms N n < 2 ^ 64
       \<and> signed_form N c params (of_int (bn_clock_ms N n)) = Ok form \<and> n' = snd (bn_send N (http_request_of c m path form) n)
       \<and> (m \<noteq> GET \<longrightarrow> rc_enable_submission c \<and> path = NEW_ORDER_PATH)
       \<and> r \<noteq> Panic \<and> (\<forall>e. r = Err e \<longrightarrow> ambiguous_error e))"
proof -
  have reply: "read_reply K st m reply \<noteq> Panic \<and> (\<forall>e. read_reply K st m reply = Err e \<longrightarrow> ambiguous_error e)" for st reply
    by (cases reply) (auto simp: ok_or_Err split: if_splits)
  obtain sent n1 where send: "bn_send N (http_request_of c m path (case signed_form N c params (of_int (bn_clock_ms N n)) of Ok f \<Rightarrow> f)) n = (sent, n1)"
    by fastforce
  show ?thesis
  proof (cases "signed_form N c params (of_int (bn_clock_ms N n))")
    case (Ok form)
    then show ?thesis using assms send reply [of "bn_status_text N" sent] unfolding signed_call_def by (simp split: if_split_asm) auto
  next
    case (Err e)
    then have "n' = n \<and> (\<exists>e. r = Err e)" using assms unfolding signed_call_def by (simp split: if_split_asm) auto
    then show ?thesis ..
  next
    case Panic
    then show ?thesis by (simp add: signed_form_def Let_def split: if_split_asm)
  qed
qed

lemma submit_ack_errors: "submit_ack p v = r \<Longrightarrow> r \<noteq> Panic \<and> (\<forall>e. r = Err e \<longrightarrow> ambiguous_error e)"
  by (auto simp: submit_ack_def and_then_Err and_then_Panic ok_or_Err split: if_splits option.splits)

lemma submit_ack_identity:
  "submit_ack p v = Ok ack \<Longrightarrow> durable_client_order_id (po_client_id p) = Some (va_client_order_id ack)"
  by (auto simp: submit_ack_def outcome_simps split: if_splits)

text \<open>The one request a submission may send, written out from the intent alone, and the symbol's filters for it.\<close>

definition intent_fields :: "binance_codec \<Rightarrow> order_intent \<Rightarrow> (string \<times> string) list" where
  "intent_fields K i =
     [(''symbol'', ''BTCUSDC''),
      (''side'', case oi_side i of Buy \<Rightarrow> ''BUY'' | Sell \<Rightarrow> ''SELL''),
      (''type'', case oi_limit_price i of None \<Rightarrow> ''MARKET'' | Some _ \<Rightarrow> ''LIMIT''),
      (''positionSide'', ''BOTH''),
      (''quantity'', bc_show K (oi_quantity i)),
      (''newClientOrderId'', binance_client_order_id i),
      (''reduceOnly'', case oi_effect i of ReduceOnly \<Rightarrow> ''true'' | Increase \<Rightarrow> ''false'')]
     @ (case oi_limit_price i of None \<Rightarrow> []
        | Some price \<Rightarrow> [(''price'', bc_show K price), (''timeInForce'', ''GTX'')])"

definition intent_request :: "binance_codec \<Rightarrow> 'n binance_net \<Rightarrow> rest_client \<Rightarrow> order_intent \<Rightarrow> 'n \<Rightarrow> http_request" where
  "intent_request K N c i n =
     (let body = bn_form N (intent_fields K i @ [(''recvWindow'', ''5000''), (''timestamp'', show_nat (nat (bn_clock_ms N n)))]) in
      \<lparr>hr_method = POST, hr_url = PM_BASE @ NEW_ORDER_PATH, hr_api_key = rc_api_key c,
       hr_body = Some (body @ ''&signature='' @ concat (map hex_byte (bn_hmac N (rc_secret c) body)))\<rparr>)"

definition within_filters :: "binance_codec \<Rightarrow> symbol_filters \<Rightarrow> order_intent \<Rightarrow> bool" where
  "within_filters K f i \<longleftrightarrow> sf_symbol_trading f
     \<and> (\<exists>step least. bc_parse K (sf_step_size f) = Some step \<and> bc_parse K (sf_min_quantity f) = Some least
          \<and> 0 < step \<and> 0 < least \<and> bc_rem K (oi_quantity i) step = Some 0 \<and> least \<le> oi_quantity i)
     \<and> (case oi_limit_price i of None \<Rightarrow> True | Some price \<Rightarrow>
          0 < price \<and> (\<exists>tick least. bc_parse K (sf_tick_size f) = Some tick \<and> bc_parse K (sf_min_notional f) = Some least
            \<and> 0 < tick \<and> bc_rem K price tick = Some 0
            \<and> (oi_effect i = Increase \<longrightarrow> (\<exists>notional. checked_mul (bc_ops K) price (oi_quantity i) = Some notional \<and> least \<le> notional))))"

lemma prepare_order_ok:
  assumes "submit_style i = Ok style" "prepare_order K i f mode style = Ok p"
  shows "mode = OneWay \<and> oi_venue i = BinancePm \<and> oi_asset i = SYMBOL \<and> 0 < oi_quantity i
    \<and> po_client_id p = binance_client_order_id i \<and> po_path p = NEW_ORDER_PATH \<and> po_params p = intent_fields K i
    \<and> within_filters K f i"
proof (cases "oi_limit_price i")
  case None
  then have "style = StyleReduceOnlyMarket" "oi_effect i = ReduceOnly"
    using assms(1) by (auto simp: submit_style_def split: exposure_effect.splits)
  then show ?thesis using assms(2) None
    by (auto simp: prepare_order_def parse_filter_def outcome_simps Let_def not_le not_less intent_fields_def
        within_filters_def split: if_splits)
next
  case (Some price)
  then have "style = StylePostOnly" using assms(1) by (auto simp: submit_style_def split: exposure_effect.splits)
  with assms(2) Some show ?thesis
    by (cases "oi_effect i")
      (auto simp: prepare_order_def prepare_limit_fields_def parse_filter_def outcome_simps Let_def not_le not_less
        intent_fields_def within_filters_def split: if_splits)
qed

lemma submit_style_ok: "submit_style i = Ok style \<Longrightarrow> oi_effect i = Increase \<Longrightarrow> oi_limit_price i \<noteq> None"
  by (auto simp: submit_style_def split: option.splits exposure_effect.splits)

lemma show_5000: "show_nat 5000 = ''5000''"
  by (simp add: show_nat.simps)

lemma signed_intent:
  assumes "signed_form N c (intent_fields K i) (of_int (bn_clock_ms N n)) = Ok form" "0 \<le> bn_clock_ms N n" "bn_clock_ms N n < 2 ^ 64"
  shows "http_request_of c POST NEW_ORDER_PATH form = intent_request K N c i n"
proof -
  have "unat (of_int (bn_clock_ms N n) :: u64) = nat (bn_clock_ms N n)"
    using assms(2,3) by (simp add: unsigned_of_int take_bit_int_eq_self)
  then show ?thesis using assms(1)
    by (auto simp: signed_form_def http_request_of_def intent_request_def Let_def show_5000 split: if_splits)
qed

lemma submit_cases:
  assumes "binance_submit K N a i n = (r, n')"
  shows "(n' = n \<and> (\<forall>ack. r \<noteq> Ok ack)) \<or>
    (rc_enable_submission (ba_rest a) \<and> ba_mode a = OneWay \<and> oi_venue i = BinancePm \<and> oi_asset i = SYMBOL
     \<and> 0 < oi_quantity i \<and> (oi_effect i = Increase \<longrightarrow> oi_limit_price i \<noteq> None) \<and> within_filters K (ba_filters a) i
     \<and> n' = snd (bn_send N (intent_request K N (ba_rest a) i n) n)
     \<and> r \<noteq> Panic \<and> (\<forall>e. r = Err e \<longrightarrow> ambiguous_error e)
     \<and> (\<forall>ack. r = Ok ack \<longrightarrow> va_client_order_id ack = client_order_id uuid_hex i))"
proof (cases "\<exists>style p. submit_style i = Ok style \<and> prepare_order K i (ba_filters a) (ba_mode a) style = Ok p")
  case False
  then have "n' = n \<and> (\<forall>ack. r \<noteq> Ok ack)"
    using assms by (cases "submit_style i"; cases "prepare_order K i (ba_filters a) (ba_mode a) (case submit_style i of Ok st \<Rightarrow> st)")
      (auto simp: binance_submit_def bind_def give_def)
  then show ?thesis ..
next
  case True
  then obtain style p where st: "submit_style i = Ok style" "prepare_order K i (ba_filters a) (ba_mode a) style = Ok p" by blast
  note prep = prepare_order_ok [OF st]
  obtain v n1 where sg: "signed_call K N (ba_rest a) POST NEW_ORDER_PATH (intent_fields K i) n = (v, n1)" by fastforce
  have "prepared_get p ''symbol'' = Some SYMBOL" using prep by (simp add: prepared_get_def intent_fields_def)
  then have run: "n' = n1" "r = (case v of Ok x \<Rightarrow> submit_ack p x | Err e \<Rightarrow> Err e | Panic \<Rightarrow> Panic)"
    using assms sg st prep by (auto simp: binance_submit_def rest_submit_order_def bind_def give_def split: outcome.splits)
  from signed_cases [OF sg] show ?thesis
  proof
    assume "n1 = n \<and> (\<exists>e. v = Err e)"
    with run show ?thesis by auto
  next
    assume "\<exists>form. 0 \<le> bn_clock_ms N n \<and> bn_clock_ms N n < 2 ^ 64
      \<and> signed_form N (ba_rest a) (intent_fields K i) (of_int (bn_clock_ms N n)) = Ok form
      \<and> n1 = snd (bn_send N (http_request_of (ba_rest a) POST NEW_ORDER_PATH form) n)
      \<and> (POST \<noteq> GET \<longrightarrow> rc_enable_submission (ba_rest a) \<and> NEW_ORDER_PATH = NEW_ORDER_PATH) \<and> v \<noteq> Panic \<and> (\<forall>e. v = Err e \<longrightarrow> ambiguous_error e)"
    then have f: "n1 = snd (bn_send N (intent_request K N (ba_rest a) i n) n)" "rc_enable_submission (ba_rest a)"
        "v \<noteq> Panic" "\<forall>e. v = Err e \<longrightarrow> ambiguous_error e" using signed_intent by (force, blast+)
    have "r \<noteq> Panic \<and> (\<forall>e. r = Err e \<longrightarrow> ambiguous_error e)"
      using run(2) f(3,4) submit_ack_errors by (cases v) auto
    moreover have "va_client_order_id ack = client_order_id uuid_hex i" if "r = Ok ack" for ack
    proof -
      have "durable_client_order_id (po_client_id p) = Some (va_client_order_id ack)"
        using that run(2) submit_ack_identity by (cases v) auto
      then show ?thesis using prep binance_durable_id [of i] by simp
    qed
    ultimately show ?thesis using f run(1) prep submit_style_ok [OF st(1)] by blast
  qed
qed

text \<open>
  C17. A submission reaches Binance at most once and never unnoticed. Either nothing was sent and the caller gets no
  acknowledgement, or submission was enabled, the intent was a positive BTCUSDC order within the symbol's filters that
  does not increase exposure without a price, and exactly one request was sent: the POST to the order endpoint whose body
  is the form of the intent's own symbol, side, type, quantity, client id, reduce-only flag and, for a limit order, its
  price and the post-only time in force, with the clock's time and the signature over exactly that form. Once it was sent,
  every error is one the orchestrator treats as ambiguous, and an acknowledgement carries the durable identity of the
  intent.
\<close>

theorem binance_submit_safe:
  assumes "binance_submit K N a i n = (r, n')"
  shows "(n' = n \<and> (\<forall>ack. r \<noteq> Ok ack)) \<or>
    (rc_enable_submission (ba_rest a) \<and> ba_mode a = OneWay \<and> oi_venue i = BinancePm \<and> oi_asset i = SYMBOL
     \<and> 0 < oi_quantity i \<and> (oi_effect i = Increase \<longrightarrow> oi_limit_price i \<noteq> None) \<and> within_filters K (ba_filters a) i
     \<and> n' = snd (bn_send N (intent_request K N (ba_rest a) i n) n)
     \<and> r \<noteq> Panic \<and> (\<forall>e. r = Err e \<longrightarrow> ambiguous_error e)
     \<and> (\<forall>ack. r = Ok ack \<longrightarrow> va_client_order_id ack = client_order_id uuid_hex i))"
  using assms by (rule submit_cases)

definition demo_filters :: symbol_filters where
  "demo_filters = \<lparr>sf_symbol = SYMBOL, sf_tick_size = ''1'', sf_step_size = ''1'', sf_min_quantity = ''1'', sf_min_notional = ''1'', sf_symbol_trading = True\<rparr>"

definition demo_binance :: binance_adapter where
  "demo_binance = \<lparr>ba_rest = demo_client, ba_filters = demo_filters, ba_mode = OneWay, ba_account_scope = ''binance-pm:x''\<rparr>"

definition demo_btc :: order_intent where
  "demo_btc = \<lparr>oi_intent_id = 1, oi_strategy_id = ''s'', oi_asset = SYMBOL, oi_venue = BinancePm, oi_side = Buy, oi_quantity = 1,
     oi_limit_price = Some 1, oi_effect = Increase, oi_source_signal_id = None\<rparr>"

definition demo_answer :: json where
  "demo_answer = VObj [(''clientOrderId'', VStr (binance_client_order_id demo_btc)), (''orderId'', VPosInt 5), (''symbol'', VStr SYMBOL),
     (''side'', VStr ''BUY''), (''origQty'', VStr ''1''), (''executedQty'', VStr ''1''), (''price'', VStr ''1''), (''status'', VStr ''FILLED'')]"

lemma binance_valid_id: "valid_client_order_id (binance_client_order_id i)"
  using binance_durable_id [of i] by (auto simp: valid_client_order_id_def durable_client_order_id_def)

lemmas demo_btc_fields = demo_btc_def [THEN arg_cong, of oi_venue, simplified] demo_btc_def [THEN arg_cong, of oi_asset, simplified]
  demo_btc_def [THEN arg_cong, of oi_quantity, simplified] demo_btc_def [THEN arg_cong, of oi_effect, simplified]
  demo_btc_def [THEN arg_cong, of oi_limit_price, simplified] demo_btc_def [THEN arg_cong, of oi_side, simplified]

lemmas binance_submit_eval = binance_submit_def submit_style_def prepare_order_def prepare_limit_fields_def parse_filter_def
  rest_submit_order_def prepared_get_def signed_call_def approved_path_def signed_form_def submit_ack_def get_str_def get_u64_def
  demo_codec_def demo_answer_def demo_net_def demo_client_def demo_filters_def demo_binance_def bounded_ops_def in_range_def
  bind_def give_def Let_def show_nat.simps demo_btc_fields

lemma demo_binance_submit:
  "binance_submit (demo_codec demo_answer) demo_net demo_binance demo_btc 0 =
     (Ok \<lparr>va_venue_order_id = ''5'', va_client_order_id = client_order_id uuid_hex demo_btc\<rparr>, 1)"
  using binance_valid_id [of demo_btc] binance_durable_id [of demo_btc]
  by (simp add: binance_submit_eval)

theorem binance_submit_safe_witness:
  "\<exists>ack. binance_submit (demo_codec demo_answer) demo_net demo_binance demo_btc 0 = (Ok ack, 1)
     \<and> va_client_order_id ack = client_order_id uuid_hex demo_btc
     \<and> within_filters (demo_codec demo_answer) demo_filters demo_btc
     \<and> snd (bn_send demo_net (intent_request (demo_codec demo_answer) demo_net demo_client demo_btc 0) 0) = 1"
proof -
  have r: "ba_rest demo_binance = demo_client" "ba_filters demo_binance = demo_filters" by (simp_all add: demo_binance_def)
  from binance_submit_safe [OF demo_binance_submit, unfolded r] demo_binance_submit show ?thesis by auto
qed

section \<open>Definite errors and dispatch\<close>

text \<open>Steps that leave the venues alone and never report a venue's error.\<close>

definition off_venue :: "('x, 's, 'a) action \<Rightarrow> bool" where
  "off_venue m \<longleftrightarrow> (\<forall>w r w'. m w = (r, w') \<longrightarrow> w_venues w' = w_venues w \<and> (\<forall>e. r \<noteq> Err (OrExecution e)))"

lemma off_venue_on_store [intro, simp]: "off_venue (on_store m)"
proof -
  have "map_error OrStore q \<noteq> Err (OrExecution e)" for q :: "(runtime_store_error, 'd) outcome" and e by (cases q) auto
  then show ?thesis by (auto simp: off_venue_def on_store_def split: prod.splits)
qed

lemma off_venue_give: "(\<And>e. r \<noteq> Err (OrExecution e)) \<Longrightarrow> off_venue (give r)"
  by (auto simp: off_venue_def give_def)

lemma off_venue_bind: "off_venue m \<Longrightarrow> (\<And>x. off_venue (f x)) \<Longrightarrow> off_venue (bind m f)"
  unfolding off_venue_def bind_def by (auto split: prod.splits outcome.splits)

lemma off_venue_no: "off_venue m \<Longrightarrow> m w \<noteq> (Err (OrExecution e), w')"
  unfolding off_venue_def by blast

lemma off_venue_step:
  assumes "off_venue m" "bind m f w = (Err (OrExecution e), w')"
  shows "\<exists>x w1. m w = (Ok x, w1) \<and> w_venues w1 = w_venues w \<and> f x w1 = (Err (OrExecution e), w')"
  using assms unfolding off_venue_def bind_def by (cases "m w") (auto split: outcome.splits)

lemma oms_step_no_venue: "oms_step p \<noteq> Err (OrExecution e)"
  by (cases p rule: oms_step.cases) auto

lemmas off_venue_intros = off_venue_bind off_venue_give oms_step_no_venue

lemma off_venue_handlers [simp]:
  "off_venue (check_lease d)" "off_venue (save_order d rec)" "off_venue (emit d stream ty payload)"
  "off_venue (dispatch_acknowledged d rec ack)" "off_venue (dispatch_failed d rec ev ty e (Ambiguous a b))"
  "off_venue (dispatch_prepare simple new_id d i)"
proof -
  show store: "off_venue (check_lease d)" "off_venue (save_order d rec)" "off_venue (emit d stream ty payload)" for d rec stream ty payload
    by (simp_all add: check_lease_def save_order_def emit_def)
  have find: "off_venue (find_adapter d v)" for v
    by (cases "registry_get v (de_adapters d)") (simp_all add: find_adapter_def off_venue_give)
  show "off_venue (dispatch_acknowledged d rec ack)" "off_venue (dispatch_failed d rec ev ty e (Ambiguous a b))"
    unfolding dispatch_acknowledged_def dispatch_failed_def by (intro off_venue_intros store; simp)+
  show "off_venue (dispatch_prepare simple new_id d i)"
    unfolding dispatch_prepare_def dispatch_started_def Let_def by (intro off_venue_intros store find; simp)+
qed

lemma failed_definite:
  assumes "dispatch_failed d rec ev ty e1 (OrExecution e1) w = (Err (OrExecution e), w')"
  shows "e1 = e \<and> w_venues w' = w_venues w"
proof -
  have "off_venue (give (oms_step (apply_event ev rec)))" by (rule off_venue_give) (rule oms_step_no_venue)
  from off_venue_step [OF this assms [unfolded dispatch_failed_def]] obtain rec2 w2 where s2: "w_venues w2 = w_venues w"
      "bind (save_order d rec2) (\<lambda>_. bind (emit d (order_stream (or_client_order_id rec2)) ty
         [(''client_order_id'', JStr (or_client_order_id rec2)), (''reason'', JStr (execution_error_message e1))])
         (\<lambda>_. give (Err (OrExecution e1)))) w2 = (Err (OrExecution e) :: (orchestrator_error, order_record) outcome, w')" by blast
  from off_venue_step [OF off_venue_handlers(2) s2(2)] obtain w3 where s3: "w_venues w3 = w_venues w2"
      "bind (emit d (order_stream (or_client_order_id rec2)) ty
         [(''client_order_id'', JStr (or_client_order_id rec2)), (''reason'', JStr (execution_error_message e1))])
         (\<lambda>_. give (Err (OrExecution e1))) w3 = (Err (OrExecution e) :: (orchestrator_error, order_record) outcome, w')" by blast
  from off_venue_step [OF off_venue_handlers(3) s3(2)] s3(1) s2(1) show ?thesis by auto
qed

text \<open>
  What the orchestrator relies on when it records a dispatch as rejected: an adapter that returns an error outside the
  ambiguous ones has not touched the venue, and an acknowledgement carries the intent's identity.
\<close>

locale candid_adapter =
  fixes ops :: "'st adapter_ops"
    and simple :: "uuid \<Rightarrow> string"
  assumes definite_error: "ad_submit ops i st = (Err e, st') \<Longrightarrow> \<not> ambiguous_error e \<Longrightarrow> st' = st"
    and ack_identity: "ad_submit ops i st = (Ok ack, st') \<Longrightarrow> va_client_order_id ack = client_order_id simple i"
begin

lemma rejected_untouched:
  assumes "registry_get (oi_venue i) (de_adapters d) = Some ops" "dispatch simple new_id d i w = (Err (OrExecution e), w')"
  shows "w_venues w' = w_venues w \<and> \<not> ambiguous_error e"
proof -
  from off_venue_step [OF _ assms(2) [unfolded dispatch_def]] obtain ad rec w1 where
      prep: "dispatch_prepare simple new_id d i w = (Ok (ad, rec), w1)" "w_venues w1 = w_venues w"
        "(case on_venue (ad_submit ad i) w1 of (res, w') \<Rightarrow> dispatch_result d rec res w') = (Err (OrExecution e), w')" by auto
  have ad: "ad = ops" using prep(1) assms(1)
    by (auto simp: dispatch_prepare_def dispatch_started_def find_adapter_def bind_eq_Ok outcome_simps Let_def)
  obtain res st where sub: "ad_submit ops i (w_venues w) = (res, st)" by fastforce
  have run: "dispatch_result d rec res (w1\<lparr>w_venues := st\<rparr>) = (Err (OrExecution e), w')"
    using prep(2,3) ad sub by (simp add: on_venue_def)
  have "res = Err e \<and> \<not> ambiguous_error e \<and> w_venues w' = st"
  proof (cases res)
    case (Ok ack)
    then show ?thesis using run by (simp add: dispatch_result_def off_venue_no)
  next
    case (Err e1)
    show ?thesis
    proof (cases "ambiguous_error e1")
      case True
      then show ?thesis using run Err by (simp add: dispatch_result_def off_venue_no)
    next
      case False
      let ?w = "w1\<lparr>w_venues := st\<rparr>"
      have f: "dispatch_failed d rec EvRejected ''order.dispatch.rejected'' e1 (OrExecution e1) ?w = (Err (OrExecution e), w')"
        using run Err False by (simp add: dispatch_result_def)
      from failed_definite [OF f] have "e1 = e" "w_venues w' = st" by simp_all
      then show ?thesis using Err False by simp
    qed
  next
    case Panic
    then show ?thesis using run by (simp add: dispatch_result_def give_def)
  qed
  with definite_error sub show ?thesis by blast
qed

end

interpretation binance: candid_adapter "binance_ops K N a" uuid_hex
proof
  fix i e st st'
  assume "ad_submit (binance_ops K N a) i st = (Err e, st')" and d: "\<not> ambiguous_error e"
  then have "binance_submit K N a i st = (Err e, st')" by (simp add: binance_ops_def)
  from submit_cases [OF this] d show "st' = st" by auto
next
  fix i ack st st'
  assume "ad_submit (binance_ops K N a) i st = (Ok ack, st')"
  then have "binance_submit K N a i st = (Ok ack, st')" by (simp add: binance_ops_def)
  from submit_cases [OF this] show "va_client_order_id ack = client_order_id uuid_hex i" by auto
qed

text \<open>
  C18. An order the durable record calls rejected never reached Binance: when a dispatch through the Binance adapter ends
  with a definite execution error, whatever the store did meanwhile, no request was sent during it.
\<close>

theorem binance_rejection_definite:
  assumes "registry_get (oi_venue i) (de_adapters d) = Some (binance_ops K N a)"
    and "dispatch uuid_hex new_id d i w = (Err (OrExecution e), w')"
  shows "w_venues w' = w_venues w \<and> \<not> ambiguous_error e"
  by (rule binance.rejected_untouched [OF assms])

definition disabled_binance :: binance_adapter where
  "disabled_binance = demo_binance\<lparr>ba_rest := demo_client\<lparr>rc_enable_submission := False\<rparr>\<rparr>"

definition demo_binance_execution :: "(pg_state, nat) durable_execution" where
  "demo_binance_execution = \<lparr>de_store = postgres_ops bounded_ops demo_sr, de_lease = demo_lease,
     de_adapters = [(BinancePm, binance_ops (demo_codec demo_answer) demo_net disabled_binance)]\<rparr>"

definition demo_binance_world :: "(pg_state, nat) world" where
  "demo_binance_world = \<lparr>w_store = \<lparr>pg_calls = 0, pg_db = demo_leased_db\<rparr>, w_venues = 0\<rparr>"

lemma demo_disabled_submit:
  "binance_submit (demo_codec demo_answer) demo_net disabled_binance demo_btc 0 =
     (Err (ExUnsupported ''Binance mutation capability disabled''), 0)"
  using binance_valid_id [of demo_btc] by (simp add: binance_submit_eval disabled_binance_def)

lemma demo_rejected:
  "fst (dispatch uuid_hex 9 demo_binance_execution demo_btc demo_binance_world) =
     Err (OrExecution (ExUnsupported ''Binance mutation capability disabled''))"
  by (simp add: dispatch_def dispatch_result_def dispatch_failed_def on_venue_def binance_ops_def
      dispatch_prepare_def dispatch_started_def bind_def check_lease_def save_order_def emit_def find_adapter_def
      on_store_def demo_binance_execution_def demo_binance_world_def postgres_ops_def pg_call_def demo_sr_def demo_env_def
      assert_lease_def execute_def lease_valid_def demo_leased_db_def empty_db_def demo_lease_def give_def
      registry_get_def om_get_def demo_btc_fields demo_disabled_submit Let_def save_order_record_def save_order_stmt_def append_event_def
      insert_event_def from_intent_def apply_event_def last_sequence_def bigint_max_def order_row_of_def)

theorem binance_rejection_definite_witness:
  "\<exists>w'. dispatch uuid_hex 9 demo_binance_execution demo_btc demo_binance_world =
       (Err (OrExecution (ExUnsupported ''Binance mutation capability disabled'')), w') \<and> w_venues w' = w_venues demo_binance_world"
proof -
  obtain w' where d: "dispatch uuid_hex 9 demo_binance_execution demo_btc demo_binance_world =
      (Err (OrExecution (ExUnsupported ''Binance mutation capability disabled'')), w')" using demo_rejected by (metis prod.collapse)
  have "registry_get (oi_venue demo_btc) (de_adapters demo_binance_execution) = Some (binance_ops (demo_codec demo_answer) demo_net disabled_binance)"
    by (simp add: registry_get_def om_get_def demo_binance_execution_def demo_btc_fields)
  from binance_rejection_definite [OF this d] d show ?thesis by blast
qed

section \<open>What the venue's answers are taken for\<close>

definition snapshot_sound :: "venue_order_snapshot \<Rightarrow> bool" where
  "snapshot_sound v \<longleftrightarrow>
     vo_asset v = SYMBOL \<and> vo_venue_order_id v \<noteq> [] \<and> list_all is_ascii_digit (vo_venue_order_id v)
     \<and> 0 < vo_requested_quantity v \<and> 0 \<le> vo_filled_quantity v \<and> vo_filled_quantity v \<le> vo_requested_quantity v
     \<and> (\<forall>p. vo_limit_price v = Some p \<longrightarrow> 0 < p)
     \<and> (\<exists>bs. length bs = 16 \<and> vo_client_order_id v = Some (''pg'' @ concat (map hex_byte bs)))
     \<and> (case vo_state v of
          VOpen \<Rightarrow> vo_filled_quantity v = 0
        | VPartiallyFilled \<Rightarrow> 0 < vo_filled_quantity v \<and> vo_filled_quantity v < vo_requested_quantity v
        | VFilled \<Rightarrow> vo_filled_quantity v = vo_requested_quantity v
        | VCanceled \<Rightarrow> True
        | VRejected \<Rightarrow> vo_filled_quantity v = 0
        | VUnknown \<Rightarrow> False)"

lemma order_status_sound:
  assumes "order_status status filled requested = Some st" "0 \<le> filled"
  shows "case st of VOpen \<Rightarrow> filled = 0 | VPartiallyFilled \<Rightarrow> 0 < filled \<and> filled < requested | VFilled \<Rightarrow> filled = requested
    | VCanceled \<Rightarrow> True | VRejected \<Rightarrow> filled = 0 | VUnknown \<Rightarrow> False"
  using assms by (auto simp: order_status_def split: if_splits)

lemma normalize_order_sound:
  assumes "normalize_order K raw cid = Ok v"
  shows "snapshot_sound (v\<lparr>vo_client_order_id := durable_client_order_id cid\<rparr>)"
proof -
  from assms obtain sd requested filled lp st where
      n: "valid_client_order_id cid" "ra_order_id raw \<noteq> []" "list_all is_ascii_digit (ra_order_id raw)" "0 < requested" "0 \<le> filled"
        "filled \<le> requested" "\<forall>p. lp = Some p \<longrightarrow> 0 < p" "order_status (ra_status raw) filled requested = Some st"
        "v = \<lparr>vo_venue_order_id = ra_order_id raw, vo_client_order_id = Some cid, vo_asset = SYMBOL, vo_side = sd,
          vo_requested_quantity = requested, vo_filled_quantity = filled,
          vo_limit_price = lp, vo_state = st\<rparr>"
    by (auto simp: normalize_order_def outcome_simps not_le not_less split: if_splits)
  from n(1) obtain bs where bs: "decode_intent_bytes cid = Some bs" by (auto simp: valid_client_order_id_def)
  then have "length bs = 16" using decode_exact by blast
  with bs have "\<exists>bs. length bs = 16 \<and> durable_client_order_id cid = Some (''pg'' @ concat (map hex_byte bs))"
    by (auto simp: durable_client_order_id_def)
  with n order_status_sound [OF n(8,5)] show ?thesis by (cases st) (simp_all add: snapshot_sound_def)
qed

lemma decode_pm_order_sound:
  assumes "decode_pm_order K j cid = Ok v"
  shows "snapshot_sound v \<and> vo_client_order_id v = durable_client_order_id cid"
  using assms by (auto simp: decode_pm_order_def outcome_simps dest!: normalize_order_sound)

lemma each_Ok: "each f xs = Ok ys \<longleftrightarrow> list_all2 (\<lambda>x y. f x = Ok y) xs ys"
  by (induction xs arbitrary: ys) (auto simp: outcome_simps list_all2_Cons1)

lemma bind_trade_ok:
  "bind_trade scope m t = Ok f \<Longrightarrow> vf_venue_fill_id f = show_nat (unat (ut_trade_id t)) \<and> vf_quantity f = ut_quantity t
     \<and> vf_account_scope f = scope \<and> vf_side f = ut_side t \<and> vf_venue_order_id f = ut_venue_order_id t"
  by (auto simp: bind_trade_def outcome_simps split: if_splits)

lemma bound_fills:
  assumes "list_all2 (\<lambda>t f. bind_trade scope m t = Ok f) ts fs" "sorted_wrt (<) (map ut_trade_id ts)" "\<forall>t\<in>set ts. 0 < ut_quantity t"
  shows "distinct (map vf_venue_fill_id fs) \<and> (\<forall>f\<in>set fs. 0 < vf_quantity f \<and> vf_account_scope f = scope)"
proof -
  have ids: "map vf_venue_fill_id fs = map (\<lambda>t. show_nat (unat (ut_trade_id t))) ts"
    using assms(1) by (induction rule: list_all2_induct) (auto dest: bind_trade_ok)
  have "distinct (map ut_trade_id ts)" using assms(2) by (simp add: strict_sorted_iff)
  then have "distinct (map (\<lambda>t. show_nat (unat (ut_trade_id t))) ts)"
    by (auto simp: distinct_map inj_on_def word_unat_eq_iff dest!: show_nat_inj)
  moreover have "\<forall>f\<in>set fs. 0 < vf_quantity f \<and> vf_account_scope f = scope"
    using assms(1,3) by (induction rule: list_all2_induct) (auto dest!: bind_trade_ok)
  ultimately show ?thesis using ids by simp
qed

text \<open>
  C22. What the adapter reports as venue truth is well formed. An order found by its durable id is the order of that id;
  every reported order is a BTCUSDC order of a durable identity with a numeric venue id, a fill between zero and the
  requested quantity and a known state that agrees with the fill; and the reported fills are positive, of the adapter's
  account, and carry pairwise different fill ids.
\<close>

theorem binance_reads_sound:
  "(binance_find_order K N a cid n = (Ok (Some v), n1) \<longrightarrow> snapshot_sound v \<and> vo_client_order_id v = Some cid)
   \<and> binance_find_order K N a cid n \<noteq> (Ok None, n1)
   \<and> (rest_open_orders K N (ba_rest a) n = (Ok vs, n2) \<longrightarrow> (\<forall>v\<in>set vs. snapshot_sound v))
   \<and> (binance_fills K N a n = (Ok fs, n3) \<longrightarrow>
        distinct (map vf_venue_fill_id fs) \<and> (\<forall>f\<in>set fs. 0 < vf_quantity f \<and> vf_account_scope f = ba_account_scope a))"
proof (intro conjI impI)
  assume "binance_find_order K N a cid n = (Ok (Some v), n1)"
  then obtain vid n' j where "decode_pm_order K j vid = Ok v" "vo_client_order_id v = Some cid"
    by (auto simp: binance_find_order_def rest_query_order_def bind_eq_Ok give_def split: if_splits)
  with decode_pm_order_sound show "snapshot_sound v" "vo_client_order_id v = Some cid" by blast+
next
  show "binance_find_order K N a cid n \<noteq> (Ok None, n1)"
    by (auto simp: binance_find_order_def bind_eq_Ok give_def split: if_splits)
next
  assume "rest_open_orders K N (ba_rest a) n = (Ok vs, n2)"
  then obtain j xs where "list_all2 (\<lambda>x y. and_then (ok_or (get_str ''clientOrderId'' x) (ExConversion ''missing order ownership''))
      (decode_pm_order K x) = Ok y) xs vs"
    by (auto simp: rest_open_orders_def decode_open_orders_def bind_eq_Ok each_Ok outcome_simps)
  then have "\<exists>x cid. decode_pm_order K x cid = Ok y" if "y \<in> set vs" for y
    using that by (auto simp: list_all2_conv_all_nth in_set_conv_nth outcome_simps) blast
  with decode_pm_order_sound show "\<forall>v\<in>set vs. snapshot_sound v" by blast
next
  assume "binance_fills K N a n = (Ok fs, n3)"
  then obtain page n' m where f: "rest_user_trades_page K N (ba_rest a) None 1000 n = (Ok page, n')"
      "list_all2 (\<lambda>t f. bind_trade (ba_account_scope a) m t = Ok f) (tp_trades page) fs"
    by (auto simp: binance_fills_def bind_trade_page_def bind_eq_Ok each_Ok outcome_simps split: if_splits)
  from f(1) obtain raw where "decode_trade_page K raw None 1000 = Ok page"
    by (auto simp: rest_user_trades_page_def bind_eq_Ok outcome_simps give_def split: if_splits)
  from decode_trade_page_ok [OF this] bound_fills [OF f(2)]
  show "distinct (map vf_venue_fill_id fs)" "\<forall>f\<in>set fs. 0 < vf_quantity f \<and> vf_account_scope f = ba_account_scope a" by blast+
qed

theorem binance_reads_sound_witness:
  "\<exists>v. binance_find_order (demo_codec demo_answer) demo_net demo_binance (client_order_id uuid_hex demo_btc) 0 = (Ok (Some v), 1)
     \<and> snapshot_sound v \<and> vo_client_order_id v = Some (client_order_id uuid_hex demo_btc)"
proof -
  have vid: "venue_id_from_durable (client_order_id uuid_hex demo_btc) = Ok (binance_client_order_id demo_btc)"
    using venue_id_of_bytes [of "uuid_bytes (oi_intent_id demo_btc)"] by (simp add: durable_text binance_client_order_id_def uuid_bytes_def)
  obtain v where v: "binance_find_order (demo_codec demo_answer) demo_net demo_binance (client_order_id uuid_hex demo_btc) 0 = (Ok (Some v), 1)"
    using binance_valid_id [of demo_btc] binance_durable_id [of demo_btc]
    by (simp add: binance_find_order_def vid rest_query_order_def lookup_by_client_id_def decode_pm_order_def normalize_order_def
        pm_field_def parse_side_def order_status_def is_ascii_digit_def binance_submit_eval)
  with binance_reads_sound [of "demo_codec demo_answer" demo_net demo_binance "client_order_id uuid_hex demo_btc" 0 v 1] show ?thesis by blast
qed

end
