(* ===== verification/BinanceStream.thy ===== *)
theory BinanceStream
  imports BinanceOrders
begin

text \<open>
  The Binance user stream, \<open>rust/adapters/pg-binance/src/user_stream.rs\<close>: decoding of one message and the tracker that
  lets a connection speak for the orders only as long as every change of a filled quantity is explained by one new trade.
\<close>

section \<open>Messages\<close>

datatype stream_error = SeMalformed | SeUnknownEvent | SeInvalidOrder | SeReconcileRequired

record fill_notice =
  fn_trade_id :: u64
  fn_venue_order_id :: string
  fn_durable_client_id :: string
  fn_quantity :: decimal
  fn_price :: decimal
  fn_commission :: decimal
  fn_commission_asset :: string
  fn_trade_time_ms :: u64

datatype user_event = OrderEvent string venue_order_snapshot "fill_notice option" | ReconcileRequired

definition stream_string :: "json \<Rightarrow> string \<Rightarrow> (stream_error, string) outcome" where
  "stream_string v key = ok_or (get_str key v) SeMalformed"

definition stream_unsigned :: "json \<Rightarrow> string \<Rightarrow> (stream_error, u64) outcome" where
  "stream_unsigned v key = ok_or (get_u64 key v) SeMalformed"

definition nonnegative_decimal :: "binance_codec \<Rightarrow> json \<Rightarrow> string \<Rightarrow> (stream_error, decimal) outcome" where
  "nonnegative_decimal K v key =
     and_then (stream_string v key) (\<lambda>t.
     and_then (ok_or (bc_parse K t) SeMalformed) (\<lambda>d. if d < 0 then Err SeMalformed else Ok d))"

definition decode_fill ::
  "binance_codec \<Rightarrow> json \<Rightarrow> string \<Rightarrow> string \<Rightarrow> decimal \<Rightarrow> (stream_error, fill_notice) outcome" where
  "decode_fill K ord order_id durable_id filled =
     and_then (nonnegative_decimal K ord ''l'') (\<lambda>quantity.
     and_then (nonnegative_decimal K ord ''L'') (\<lambda>price.
     and_then (nonnegative_decimal K ord ''n'') (\<lambda>commission.
     and_then (stream_unsigned ord ''t'') (\<lambda>trade_id.
     and_then (stream_unsigned ord ''T'') (\<lambda>time.
     if quantity \<le> 0 \<or> price \<le> 0 \<or> time = 0 \<or> quantity > filled then Err SeInvalidOrder
     else and_then (stream_string ord ''N'') (\<lambda>asset.
     Ok \<lparr>fn_trade_id = trade_id, fn_venue_order_id = order_id, fn_durable_client_id = durable_id, fn_quantity = quantity,
         fn_price = price, fn_commission = commission, fn_commission_asset = asset, fn_trade_time_ms = time\<rparr>))))))"

definition decode_order_event :: "binance_codec \<Rightarrow> json \<Rightarrow> string \<Rightarrow> string \<Rightarrow> (stream_error, user_event) outcome" where
  "decode_order_event K ord venue_id durable_id =
     and_then (stream_unsigned ord ''i'') (\<lambda>i.
     let order_id = show_nat (unat i) in
     and_then (stream_string ord ''S'') (\<lambda>sd.
     and_then (stream_string ord ''q'') (\<lambda>q.
     and_then (stream_string ord ''z'') (\<lambda>z.
     and_then (stream_string ord ''p'') (\<lambda>p.
     and_then (stream_string ord ''X'') (\<lambda>status.
     and_then (map_error (\<lambda>_. SeInvalidOrder)
         (normalize_order K \<lparr>ra_symbol = SYMBOL, ra_client_order_id = venue_id, ra_order_id = order_id, ra_side = sd,
            ra_original_quantity = q, ra_executed_quantity = z, ra_price = p, ra_status = status\<rparr> venue_id)) (\<lambda>snapshot.
     let snapshot = snapshot\<lparr>vo_client_order_id := Some durable_id\<rparr> in
     and_then (stream_string ord ''x'') (\<lambda>x.
     and_then (if x = ''TRADE'' then and_then (decode_fill K ord order_id durable_id (vo_filled_quantity snapshot)) (\<lambda>f. Ok (Some f))
               else if x \<in> {''NEW'', ''CANCELED'', ''EXPIRED'', ''REJECTED'', ''AMENDMENT'', ''CALCULATED''} then Ok None
               else Err SeUnknownEvent) (\<lambda>fill.
     Ok (OrderEvent durable_id snapshot fill))))))))))"

definition decode_user_event :: "binance_codec \<Rightarrow> string \<Rightarrow> (stream_error, user_event) outcome" where
  "decode_user_event K bytes =
     (if bytes = [] \<or> length bytes > 64 * 1024 then Err SeMalformed
      else and_then (ok_or (bc_json K bytes) SeMalformed) (\<lambda>message.
      and_then (stream_string message ''e'') (\<lambda>e.
      if e \<in> {''ACCOUNT_UPDATE'', ''ALGO_UPDATE'', ''listenKeyExpired'', ''MARGIN_CALL''} then Ok ReconcileRequired
      else if e \<noteq> ''ORDER_TRADE_UPDATE'' then Err SeUnknownEvent
      else and_then (ok_or (json_get ''o'' message) SeMalformed) (\<lambda>ord.
      and_then (stream_string ord ''s'') (\<lambda>s.
      if s \<noteq> SYMBOL then Ok ReconcileRequired
      else and_then (stream_string ord ''c'') (\<lambda>venue_id.
      case durable_client_order_id venue_id of
        None \<Rightarrow> Ok ReconcileRequired
      | Some durable_id \<Rightarrow>
          and_then (stream_string ord ''ps'') (\<lambda>ps.
          if ps \<noteq> ''BOTH'' then Ok ReconcileRequired
          else and_then (stream_unsigned message ''E'') (\<lambda>event_time.
          if event_time = 0 then Err SeMalformed
          else and_then (stream_unsigned message ''T'') (\<lambda>transaction_time.
          if transaction_time = 0 then Err SeMalformed
          else decode_order_event K ord venue_id durable_id)))))))))"

section \<open>The tracker\<close>

record user_order_tracker =
  tk_cumulative :: "string \<rightharpoonup> decimal"
  tk_seen_trades :: "(string \<times> u64) set"
  tk_healthy :: bool

definition new_tracker :: user_order_tracker where
  "new_tracker = \<lparr>tk_cumulative = Map.empty, tk_seen_trades = {}, tk_healthy = False\<rparr>"

definition mark_reconciled :: "user_order_tracker \<Rightarrow> user_order_tracker" where
  "mark_reconciled t = t\<lparr>tk_healthy := True\<rparr>"

definition tracker_disconnect :: "user_order_tracker \<Rightarrow> user_order_tracker" where
  "tracker_disconnect t = \<lparr>tk_cumulative = Map.empty, tk_seen_trades = {}, tk_healthy = False\<rparr>"

definition event_consistent :: "user_order_tracker \<Rightarrow> decimal \<Rightarrow> (string \<times> u64) option \<Rightarrow> fill_notice option \<Rightarrow> bool" where
  "event_consistent t delta trade_key fill =
     (if delta < 0 then False
      else if delta > 0 then
        (case (fill, trade_key) of
           (Some trade, Some key) \<Rightarrow> fn_quantity trade = delta \<and> key \<notin> tk_seen_trades t
         | _ \<Rightarrow> False)
      else (case trade_key of None \<Rightarrow> True | Some key \<Rightarrow> key \<in> tk_seen_trades t))"

definition tracker_accept ::
  "dec_ops \<Rightarrow> user_event \<Rightarrow> user_order_tracker \<Rightarrow> (stream_error, bool) outcome \<times> user_order_tracker" where
  "tracker_accept D ev t =
     (if \<not> tk_healthy t then (Err SeReconcileRequired, t)
      else case ev of
        ReconcileRequired \<Rightarrow> (Err SeReconcileRequired, tracker_disconnect t)
      | OrderEvent cid snapshot fill \<Rightarrow>
          let trade_key = map_option (\<lambda>trade. (cid, fn_trade_id trade)) fill;
              accepted = (Ok (case trade_key of None \<Rightarrow> False | Some key \<Rightarrow> key \<notin> tk_seen_trades t),
                t\<lparr>tk_cumulative := (tk_cumulative t)(cid \<mapsto> vo_filled_quantity snapshot),
                  tk_seen_trades := (case trade_key of None \<Rightarrow> tk_seen_trades t | Some key \<Rightarrow> insert key (tk_seen_trades t))\<rparr>) in
          (case tk_cumulative t cid of
             None \<Rightarrow> accepted
           | Some previous \<Rightarrow>
               (case checked_sub D (vo_filled_quantity snapshot) previous of
                  None \<Rightarrow> (Panic, t)
                | Some delta \<Rightarrow>
                    if event_consistent t delta trade_key fill then accepted
                    else (Err SeReconcileRequired, tracker_disconnect t))))"

section \<open>A connection\<close>

text \<open>The events of one connection, as long as all are accepted, each with whether its fill was new.\<close>

fun track :: "dec_ops \<Rightarrow> user_order_tracker \<Rightarrow> user_event list \<Rightarrow> ((user_event \<times> bool) list \<times> user_order_tracker) option" where
  "track D t [] = Some ([], t)"
| "track D t (ev # evs) =
     (case tracker_accept D ev t of
        (Ok fresh, t1) \<Rightarrow> map_option (\<lambda>(xs, t2). ((ev, fresh) # xs, t2)) (track D t1 evs)
      | _ \<Rightarrow> None)"

fun event_client :: "user_event \<Rightarrow> string option" where
  "event_client (OrderEvent cid _ _) = Some cid"
| "event_client ReconcileRequired = None"

fun event_filled :: "user_event \<Rightarrow> decimal" where
  "event_filled (OrderEvent _ v _) = vo_filled_quantity v"
| "event_filled ReconcileRequired = 0"

fun event_quantity :: "user_event \<Rightarrow> decimal" where
  "event_quantity (OrderEvent _ _ (Some f)) = fn_quantity f"
| "event_quantity _ = 0"

fun event_key :: "user_event \<Rightarrow> (string \<times> u64) option" where
  "event_key (OrderEvent cid _ (Some f)) = Some (cid, fn_trade_id f)"
| "event_key _ = None"

definition about :: "string \<Rightarrow> (user_event \<times> bool) list \<Rightarrow> (user_event \<times> bool) list" where
  "about cid xs = filter (\<lambda>(ev, _). event_client ev = Some cid) xs"

text \<open>What the trades reported as new, after the first message of the order, add up to.\<close>

definition newly_filled :: "string \<Rightarrow> (user_event \<times> bool) list \<Rightarrow> decimal" where
  "newly_filled cid xs = sum_list (map (\<lambda>(ev, _). event_quantity ev) (filter snd (tl (about cid xs))))"

definition new_keys :: "(user_event \<times> bool) list \<Rightarrow> (string \<times> u64) list" where
  "new_keys xs = List.map_filter (\<lambda>(ev, fresh). if fresh then event_key ev else None) xs"

definition tracks :: "nat \<Rightarrow> (user_event \<times> bool) list \<Rightarrow> user_order_tracker \<Rightarrow> bool" where
  "tracks s xs t \<longleftrightarrow> tk_healthy t
     \<and> (\<forall>cid. tk_cumulative t cid = (if about cid xs = [] then None else Some (event_filled (fst (List.last (about cid xs))))))
     \<and> (\<forall>cid. about cid xs \<noteq> [] \<longrightarrow>
          event_filled (fst (List.last (about cid xs))) = event_filled (fst (hd (about cid xs))) + newly_filled cid xs)
     \<and> distinct (new_keys xs) \<and> set (new_keys xs) = tk_seen_trades t
     \<and> (\<forall>ev fresh. (ev, fresh) \<in> set xs \<longrightarrow> representable s (event_filled ev) \<and> 0 \<le> event_filled ev)"

lemma about_snoc: "about c (xs @ [(OrderEvent cid v fill, fresh)]) = about c xs @ (if c = cid then [(OrderEvent cid v fill, fresh)] else [])"
  by (simp add: about_def)

lemma newly_filled_snoc:
  "newly_filled c (xs @ [(OrderEvent cid v fill, fresh)]) =
     newly_filled c xs + (if c = cid \<and> about c xs \<noteq> [] \<and> fresh then event_quantity (OrderEvent cid v fill) else 0)"
  by (cases "about c xs") (simp_all add: newly_filled_def about_snoc)

lemma new_keys_snoc: "new_keys (xs @ [(ev, fresh)]) = new_keys xs @ (if fresh then (case event_key ev of Some k \<Rightarrow> [k] | None \<Rightarrow> []) else [])"
  by (auto simp: new_keys_def List.map_filter_def split: option.split)

lemma accept_event:
  assumes "tracker_accept D ev t = (Ok fresh, t1)"
  shows "\<exists>cid v fill. ev = OrderEvent cid v fill \<and> tk_healthy t
    \<and> fresh = (case event_key ev of None \<Rightarrow> False | Some key \<Rightarrow> key \<notin> tk_seen_trades t)
    \<and> t1 = t\<lparr>tk_cumulative := (tk_cumulative t)(cid \<mapsto> vo_filled_quantity v),
         tk_seen_trades := (case event_key ev of None \<Rightarrow> tk_seen_trades t | Some key \<Rightarrow> insert key (tk_seen_trades t))\<rparr>
    \<and> (\<forall>previous. tk_cumulative t cid = Some previous \<longrightarrow>
         (\<exists>delta. checked_sub D (vo_filled_quantity v) previous = Some delta \<and> event_consistent t delta (event_key ev) fill))"
proof (cases ev)
  case (OrderEvent cid v fill)
  have key: "event_key ev = map_option (\<lambda>trade. (cid, fn_trade_id trade)) fill" by (cases fill) (simp_all add: OrderEvent)
  show ?thesis using assms unfolding key
    by (simp add: tracker_accept_def OrderEvent Let_def split: if_split_asm option.split_asm)
next
  case ReconcileRequired
  with assms show ?thesis by (simp add: tracker_accept_def split: if_split_asm)
qed

lemma tracks_step:
  assumes "tracks s xs t" "tracker_accept D ev t = (Ok fresh, t1)" "lossless D s" "representable s (event_filled ev)" "0 \<le> event_filled ev"
  shows "tracks s (xs @ [(ev, fresh)]) t1"
proof -
  from accept_event [OF assms(2)] obtain cid v fill where ev: "ev = OrderEvent cid v fill" and st: "tk_healthy t"
      "fresh = (case event_key ev of None \<Rightarrow> False | Some key \<Rightarrow> key \<notin> tk_seen_trades t)"
      "t1 = t\<lparr>tk_cumulative := (tk_cumulative t)(cid \<mapsto> vo_filled_quantity v),
         tk_seen_trades := (case event_key ev of None \<Rightarrow> tk_seen_trades t | Some key \<Rightarrow> insert key (tk_seen_trades t))\<rparr>"
      "\<forall>previous. tk_cumulative t cid = Some previous \<longrightarrow>
         (\<exists>delta. checked_sub D (vo_filled_quantity v) previous = Some delta \<and> event_consistent t delta (event_key ev) fill)" by blast
  note inv = assms(1) [unfolded tracks_def]
  have moved: "vo_filled_quantity v = event_filled (fst (List.last (about cid xs))) + (if fresh then event_quantity ev else 0)"
    if ne: "about cid xs \<noteq> []"
  proof -
    let ?prev = "event_filled (fst (List.last (about cid xs)))"
    have "List.last (about cid xs) \<in> set xs" using last_in_set [OF ne] by (auto simp: about_def)
    then have "representable s ?prev" "0 \<le> ?prev" using inv by (metis prod.collapse)+
    then have "checked_sub D (vo_filled_quantity v) ?prev = Some (vo_filled_quantity v - ?prev)"
      using lossless_sub_nonneg [OF assms(3)] assms(4,5) ev by simp
    moreover have "tk_cumulative t cid = Some ?prev" using inv ne by simp
    ultimately have "event_consistent t (vo_filled_quantity v - ?prev) (event_key ev) fill" using st(4) by force
    then show ?thesis using st(2) by (cases fill) (auto simp: event_consistent_def ev split: if_split_asm)
  qed
  have k: "distinct (new_keys xs)" "set (new_keys xs) = tk_seen_trades t" using inv by blast+
  have seen: "tk_seen_trades t1 = (case event_key ev of None \<Rightarrow> tk_seen_trades t | Some key \<Rightarrow> insert key (tk_seen_trades t))"
    unfolding st(3) by simp
  have keys: "distinct (new_keys (xs @ [(ev, fresh)])) \<and> set (new_keys (xs @ [(ev, fresh)])) = tk_seen_trades t1"
  proof (cases fresh)
    case True
    then obtain key where key: "event_key ev = Some key" "key \<notin> tk_seen_trades t" using st(2) by (auto split: option.split_asm)
    show ?thesis unfolding seen new_keys_snoc key(1) using True key(2) k by simp
  next
    case False
    then have "tk_seen_trades t1 = tk_seen_trades t" unfolding seen using st(2) by (auto split: option.splits)
    then show ?thesis using k False by (simp only: new_keys_snoc if_False append_Nil2)
  qed
  have cum: "tk_cumulative t1 c = (if about c (xs @ [(ev, fresh)]) = [] then None else Some (event_filled (fst (List.last (about c (xs @ [(ev, fresh)]))))))" for c
    using inv st(3) by (simp add: ev about_snoc)
  have "event_filled (fst (List.last (about c (xs @ [(ev, fresh)])))) = event_filled (fst (hd (about c (xs @ [(ev, fresh)])))) + newly_filled c (xs @ [(ev, fresh)])"
    if ne: "about c (xs @ [(ev, fresh)]) \<noteq> []" for c
  proof (cases "c = cid")
    case True
    show ?thesis
    proof (cases "about cid xs = []")
      case True
      then show ?thesis using \<open>c = cid\<close> by (simp add: ev about_snoc newly_filled_snoc newly_filled_def)
    next
      case False
      then have "event_filled (fst (List.last (about cid xs))) = event_filled (fst (hd (about cid xs))) + newly_filled cid xs" using inv by blast
      with False moved [OF False] \<open>c = cid\<close> show ?thesis by (simp add: ev about_snoc newly_filled_snoc)
    qed
  next
    case False
    with ne inv show ?thesis by (simp add: ev about_snoc newly_filled_snoc)
  qed
  moreover have "\<forall>ev' f. (ev', f) \<in> set (xs @ [(ev, fresh)]) \<longrightarrow> representable s (event_filled ev') \<and> 0 \<le> event_filled ev'"
    using inv assms(4,5) by auto
  ultimately show ?thesis using keys cum st(1,3) unfolding tracks_def by simp
qed

lemma track_inv:
  assumes "lossless D s" "\<forall>ev\<in>set evs. representable s (event_filled ev) \<and> 0 \<le> event_filled ev"
  shows "tracks s xs t \<Longrightarrow> track D t evs = Some (ys, t') \<Longrightarrow> tracks s (xs @ ys) t' \<and> map fst ys = evs"
  using assms(2)
proof (induction evs arbitrary: xs t ys)
  case (Cons ev evs)
  from Cons.prems(2) obtain fresh t1 zs where st: "tracker_accept D ev t = (Ok fresh, t1)" "track D t1 evs = Some (zs, t')" "ys = (ev, fresh) # zs"
    by (auto split: prod.splits outcome.splits)
  have "tracks s (xs @ [(ev, fresh)]) t1" using tracks_step [OF Cons.prems(1) st(1) assms(1)] Cons.prems(3) by simp
  from Cons.IH [OF this st(2)] Cons.prems(3) st(3) show ?case by simp
qed simp

text \<open>Once a connection lost its health, no event is accepted until it is marked reconciled.\<close>

lemma unhealthy_refuses: "\<not> tk_healthy t \<Longrightarrow> tracker_accept D ev t = (Err SeReconcileRequired, t)"
  by (simp add: tracker_accept_def)

lemma accept_error:
  "tracker_accept D ev t = (Err e, t') \<Longrightarrow> e = SeReconcileRequired \<and> \<not> tk_healthy t' \<and> (tk_healthy t \<longrightarrow> t' = tracker_disconnect t)"
  by (auto simp: tracker_accept_def tracker_disconnect_def Let_def split: if_split_asm user_event.split_asm option.split_asm)

text \<open>
  C21. A connection's new fills explain its orders exactly. From a reconciled tracker that knows nothing, as long as all
  events are accepted, the trades reported as new are pairwise different, and for every order the change of its filled
  quantity since its first message is exactly the sum of the trades reported as new after it. The first event that
  does not fit makes the tracker forget everything and refuse every further event until it is reconciled again.
\<close>

theorem stream_fills_exact:
  assumes "lossless D s" "\<forall>ev\<in>set evs. representable s (event_filled ev) \<and> 0 \<le> event_filled ev"
    and "track D (mark_reconciled (tracker_disconnect t)) evs = Some (xs, t')"
  shows "map fst xs = evs \<and> distinct (new_keys xs) \<and> tk_seen_trades t' = set (new_keys xs)
    \<and> (\<forall>cid. about cid xs \<noteq> [] \<longrightarrow> tk_cumulative t' cid = Some (event_filled (fst (List.last (about cid xs))))
         \<and> event_filled (fst (List.last (about cid xs))) - event_filled (fst (hd (about cid xs))) = newly_filled cid xs)
    \<and> (\<forall>ev e t''. tracker_accept D ev t' = (Err e, t'') \<longrightarrow>
         t'' = tracker_disconnect t' \<and> (\<forall>ev'. tracker_accept D ev' t'' = (Err SeReconcileRequired, t'')))"
proof -
  have "tracks s [] (mark_reconciled (tracker_disconnect t))"
    by (simp add: tracks_def mark_reconciled_def tracker_disconnect_def about_def new_keys_def List.map_filter_def)
  from track_inv [OF assms(1,2) this assms(3)] have inv: "tracks s xs t'" "map fst xs = evs" by simp_all
  have "t'' = tracker_disconnect t' \<and> (\<forall>ev'. tracker_accept D ev' t'' = (Err SeReconcileRequired, t''))"
    if "tracker_accept D ev t' = (Err e, t'')" for ev e t''
    using accept_error [OF that] unhealthy_refuses inv(1) unfolding tracks_def by blast
  then show ?thesis using inv unfolding tracks_def by simp
qed

definition demo_snapshot :: "decimal \<Rightarrow> venue_order_state \<Rightarrow> venue_order_snapshot" where
  "demo_snapshot q st = \<lparr>vo_venue_order_id = ''5'', vo_client_order_id = Some ''a'', vo_asset = SYMBOL, vo_side = Buy,
     vo_requested_quantity = 3, vo_filled_quantity = q, vo_limit_price = None, vo_state = st\<rparr>"

definition demo_notice :: "u64 \<Rightarrow> decimal \<Rightarrow> fill_notice" where
  "demo_notice i q = \<lparr>fn_trade_id = i, fn_venue_order_id = ''5'', fn_durable_client_id = ''a'', fn_quantity = q, fn_price = 1,
     fn_commission = 0, fn_commission_asset = ''USDC'', fn_trade_time_ms = 1\<rparr>"

definition demo_events :: "user_event list" where
  "demo_events = [OrderEvent ''a'' (demo_snapshot 1 VPartiallyFilled) (Some (demo_notice 8 1)),
     OrderEvent ''a'' (demo_snapshot 3 VFilled) (Some (demo_notice 9 2)), OrderEvent ''a'' (demo_snapshot 3 VFilled) (Some (demo_notice 9 2))]"

theorem stream_fills_exact_witness:
  "\<exists>xs t'. track bounded_ops (mark_reconciled (tracker_disconnect new_tracker)) demo_events = Some (xs, t')
     \<and> new_keys xs = [(''a'', 8), (''a'', 9)] \<and> newly_filled ''a'' xs = 2 \<and> distinct (new_keys xs)"
proof -
  have r: "\<forall>ev\<in>set demo_events. representable 0 (event_filled ev) \<and> 0 \<le> event_filled ev"
    using representable_one representable_numeral [of "num.Bit1 num.One"] by (simp add: demo_events_def demo_snapshot_def)
  obtain xs t' where x: "track bounded_ops (mark_reconciled (tracker_disconnect new_tracker)) demo_events = Some (xs, t')"
      "new_keys xs = [(''a'', 8), (''a'', 9)]" "newly_filled ''a'' xs = 2"
    by (simp add: demo_events_def demo_snapshot_def demo_notice_def mark_reconciled_def tracker_disconnect_def tracker_accept_def
        event_consistent_def bounded_ops_def in_range_def new_keys_def List.map_filter_def newly_filled_def about_def Let_def)
  have "lossless bounded_ops 0" by (rule lossless_bounded_ops) simp
  from stream_fills_exact [OF this r x(1)] x show ?thesis by blast
qed

end
