(* ===== verification/Spec2Isabelle.thy ===== *)
theory Spec2Isabelle
  imports Oms SimBridge Risk Matching Composite Reconcile Runtime StoreHistory Durable Recovery Cycle Depth Subscriptions Journal Operator Registry DreamReplay BinanceAdapter BinanceStream
begin

text \<open>
  A verification of the trading core of this repository: the Rust workspace under \<open>src/rust\<close>. The
  program takes signals, checks them against limits, turns them into order intents, sends those to a
  venue through an adapter, and keeps a durable record of every order, fill, position and event in
  Postgres, guarded by a lease with a fencing token. After a crash it recovers orders whose outcome
  is unknown, and it reconciles its records with the venue before it trades on.

  \<^bold>\<open>Theories and the code they model\<close>

  \<^item> \<open>Prelude\<close>: results and panics (\<open>outcome\<close>), sequencing of fallible stateful calls (\<open>bind\<close>), words,
    IEEE doubles as far as the risk gate compares them, UTF-8 strings, and \<open>rust_decimal\<close> numbers as
    rationals with the crate's checked operations as a parameter (\<open>dec_ops\<close>). The hypothesis
    \<open>lossless\<close> states what the crate documents: at one scale sums and differences that fit 96 bits are
    exact. \<open>bounded_ops\<close> is an instance, used by the witnesses.
  \<^item> \<open>OrderedMap\<close>: the standard library's \<open>BTreeMap\<close> as sorted association lists; the locale
    \<open>ordered_map\<close> and its interpretation \<open>om\<close>.
  \<^item> \<open>PgTypes\<close>: \<open>crates/pg-types\<close>; venues, intents and their client order ids, signals, advanced orders
    and their validation.
  \<^item> \<open>Oms\<close>: \<open>crates/pg-oms\<close>; the order record, its events, acceptance and fill accounting. Theorems: the
    lifecycle invariant over all reachable records, finality of terminal states, exact accounting.
  \<^item> \<open>Risk\<close>: \<open>crates/pg-risk\<close>; the exact conditions of the signal gate, and that the default limits are
    fail-closed.
  \<^item> \<open>Sim\<close>, \<open>SimBridge\<close>: \<open>crates/pg-sim\<close>; the offline engine with contingent orders, and the JSONL
    bridge around it over an abstract JSON codec. Theorems: accounting over any run, what a fill
    respects, the effects on peer orders, one response per line.
  \<^item> \<open>Matching\<close>: \<open>crates/pg-execution/src/matching.rs\<close>; the level-one matching primitive and the composite
    order coordinator. Theorems: soundness of every result, agreement of the two engines on fills and
    the case in which they differ.
  \<^item> \<open>Execution\<close>, \<open>Shadow\<close>, \<open>Composite\<close>: the adapter contract of \<open>crates/pg-execution\<close> as a record of
    operations, the in-memory venue and the per-asset router. The locale \<open>recoverable_adapter\<close> is the
    contract idempotent submission relies on; it is interpreted on the shadow venue and on the router
    over shadow venues.
  \<^item> \<open>Reconcile\<close>: \<open>crates/pg-reconcile\<close>; when a report is clean and which assets it holds.
  \<^item> \<open>Runtime\<close>: \<open>crates/pg-runtime\<close>; the run configuration read from the environment and the startup gates.
  \<^item> \<open>Store\<close>, \<open>FillLedger\<close>, \<open>StoreHistory\<close>: \<open>crates/pg-store\<close>. The database is a record of the tables of
    the migrations; each method is a statement or transaction over it, run in an environment that
    supplies the clock, fresh ids, sequence gaps and a fault before or after the statement takes
    effect. \<open>StoreHistory\<close> quantifies over all sequences of all writes of all processes.
  \<^item> \<open>Orchestrator\<close>, \<open>Durable\<close>, \<open>Recovery\<close>, \<open>Cycle\<close>: \<open>crates/pg-orchestrator\<close>. The world is the store and the
    venues; handlers are sequences of store and venue calls. The Postgres store runs the writes of
    other processes between any two calls (\<open>surroundings\<close>). The locale \<open>durable_store\<close> states what
    dispatch needs of a store and is interpreted on the Postgres store. Theorems: an order reaches the
    venue at most once, and only after it is durable; the outcome of a dispatch is recorded; venue
    snapshots change durable orders only where it is safe; recovery never trades and reports every
    ambiguous order; reconciliation never rewrites history; ownership is inferred from fills alone.

  \<^item> \<open>MarketData\<close>, \<open>Depth\<close>, \<open>Subscriptions\<close>: \<open>crates/pg-marketdata\<close>. Sequence tracking, candle aggregation in
    wrapping 64-bit time, freshness; the Binance depth bridge between a snapshot and a stream of updates;
    the feed supervisor, caches and the universe filter. Theorems: candles are exact, a ready book is the
    replay of an unbroken chain of updates (a refinement of the snapshot overwritten by updates), published
    books are well formed, feeds are connected exactly when fresh, the selection is exact.
  \<^item> \<open>TextUtil\<close>: the string functions of the standard library the parsers call.
  \<^item> \<open>Journal\<close>: \<open>crates/pg-journal\<close> and \<open>crates/pg-replay\<close>; appends to a file with faults at every call, and
    that the journal reads back what was written.
  \<^item> \<open>Control\<close>, \<open>Operator\<close>: \<open>crates/pg-control\<close> and the \<open>operator_control.rs\<close>, \<open>secrets.rs\<close> and
    \<open>unattended_guard.rs\<close> of \<open>crates/pg-core\<close>. Theorems: the rate limiter equals a stateless sliding
    window, only authorised requests reach the runtime, scripts that can run are valid, the start-up bounds
    of the operator configuration, and the exact gates for new exposure.
  \<^item> \<open>F64\<close>: IEEE doubles with rounding to nearest even, overflow, NaN and infinities, comparison, clamping
    and summation as the strategies use them. The sign of a zero is not kept. The logarithm and square root
    (\<open>libm\<close>), the conversion of a decimal to a double and decimal text are parameters.
  \<^item> \<open>Strategy\<close>, \<open>Policy\<close>, \<open>Factors\<close>, \<open>Automation\<close>, \<open>Features\<close>, \<open>StrategyDefs\<close>, \<open>Registry\<close>: \<open>crates/pg-strategy\<close>, from
    the per-instrument machine and the rule graph up to the registry of definition files. Theorems: the
    machine's phase, quantity and intent always agree, orders are allowed entries or exact exits and every
    intent settles; the rule graph decides as declared and fails closed; ladder amounts stay in budget; the
    factor windows hold exactly the recent valid samples; signals are spaced, unique and gated; feature
    plans subscribe to exactly what is needed; definitions build one fresh strategy per instrument; and no
    change of definition files takes a live strategy away.
  \<^item> \<open>DreamWorld\<close>, \<open>DreamReplay\<close>: \<open>crates/pg-dream\<close>, the offline research service: discovery trees, exploration
    and the two stores; scoring, the linear policy, replay and policy improvement. Theorems: the depth walk is
    exact on any data, explored worlds stay valid, the stores agree until a tree is appended twice, a replay
    reports what it saw within budget, the linear policy's replays return, an improvement is never worse.
    The sign of a NaN in \<open>total_cmp\<close> and the printing of doubles are parameters.
  \<^item> \<open>BinanceIds\<close>, \<open>BinanceOrders\<close>, \<open>BinanceHistory\<close>, \<open>BinanceAdapter\<close>, \<open>BinanceStream\<close>: \<open>adapters/pg-binance\<close>.
    The Base32 order identity over 32-bit buffers; JSON values, the order protocol and the signed REST client
    over a network whose state every sent request changes; trade pages and the verification of a history; the
    adapter's operations; the user stream's decoder and tracker. HTTP, the HMAC, form encoding, the clock, JSON
    parsing and decimal text are parameters. Theorems: identities round-trip, a verified history is exact, an
    error after a request was sent is ambiguous, what is reported is well formed, and new fills on a connection
    add up. The locale \<open>candid_adapter\<close> states what dispatch relies on when it records a rejection and is
    interpreted on the Binance adapter: a rejected dispatch sent nothing.

  \<^bold>\<open>Conventions\<close>

  Every \<open>Err\<close> of the source is an \<open>Err\<close> of the model with the source's constructor and text, and every
  reachable panic (an overflowing decimal operator, an \<open>expect\<close>) is \<open>Panic\<close>. Asynchronous calls are
  sequential within one handler; what other processes do meanwhile is an explicit list of writes.
  Random identifiers and clocks are arguments. Almost all loops of the modelled code run over
  finite collections and are structural recursions; a \<open>function\<close> with a measure are the depth bridge's
  \<open>drain\<close> (the length of the buffer), \<open>depth_walk\<close> (the nodes not seen), \<open>replay_loop\<close> (the rounds left) and
  \<open>take_symbols\<close> (the bits left). No fuel is used and every definition is total. Integers are words where
  the code wraps or saturates and naturals where they count elements.

  \<^bold>\<open>Not modelled\<close>

  The daemons (\<open>daemon.rs\<close>, \<open>live_daemon.rs\<close> of \<open>pg-core\<close>) are asynchronous wiring of the parts above: tasks,
  channels, timers and signals around the modelled operations. The adapters of Hyperliquid and Interactive
  Brokers are wrappers around third-party client libraries whose types are not in the repository. Of the
  Binance adapter the WebSocket sessions and the market data feeds are left out.
  Left out for good are network transport, signatures, process wiring, metrics and log text
  (\<open>pg-observability\<close>), and everything outside the Rust workspace: Python research code, integrations,
  deployment files and documents. JSON text, SQL text and the Postgres server are parameters or
  abstracted to the values they carry.
\<close>

end
